(* ===== verification/Oos_Prelude.thy ===== *)
theory Oos_Prelude
  imports Main "HOL-Library.Word" "HOL-Library.AList" "HOL-Library.List_Lexorder"
begin

text \<open>
  Shared vocabulary of the development: machine integers and byte strings, the error type of
  \<^verbatim>\<open>core/src/error.rs\<close> with its result monad, Rust's slice and little-endian primitives, and
  the record \<open>ext\<close> that bundles the third-party functions the program calls (BLAKE3, CRC32,
  Zstandard, XChaCha20-Poly1305, Argon2id, FastCDC).  These functions are parameters: no definition
  is given for them, and theorems that rely on their documented behaviour name it as a hypothesis.
\<close>

named_theorems slice_simps \<open>evaluation of slices of concatenated byte fields\<close>
named_theorems len_simps \<open>lengths of the encodings\<close>

section \<open>Machine integers and bytes\<close>

type_synonym byte = "8 word"
type_synonym bytes = "byte list"
type_synonym u16 = "16 word"
type_synonym u32 = "32 word"
type_synonym u64 = "64 word"

text \<open>A Rust \<^verbatim>\<open>String\<close> is represented by its UTF-8 bytes.\<close>

type_synonym rstring = bytes

definition bytes_of :: "string \<Rightarrow> bytes" where
  "bytes_of s = map (\<lambda>c. word_of_nat (of_char c)) s"

lemma length_bytes_of [simp, len_simps]: "length (bytes_of s) = length s"
  by (simp add: bytes_of_def)

section \<open>Errors\<close>

text \<open>
  \<^verbatim>\<open>std::io::ErrorKind\<close>, as far as the code distinguishes the kinds.
\<close>

datatype io_kind = UnexpectedEof | InvalidData | NotFound | WouldBlock | Interrupted | OtherIo

text \<open>
  \<^verbatim>\<open>OosLiteError\<close>.  Structured fields are kept; a formatted message is represented by its fixed
  part, the interpolated values being dropped.
\<close>

datatype oos_error =
    Io io_kind
  | Database string
  | Redb string
  | ChecksumMismatch rstring u32 u32
  | ChunkNotFound rstring
  | SegmentFull nat nat nat
  | CorruptedSegment nat string
  | ObjectNotFound rstring
  | SnapshotNotFound rstring
  | WalRecovery string
  | Internal string
  | StoreLocked string
  | InvalidName rstring string
  | AuthenticationFailed string
  | PasswordRequired
  | DecryptionFailed string

type_synonym 'a result = "oos_error + 'a"

section \<open>The result monad\<close>

text \<open>The \<^verbatim>\<open>?\<close> operator: propagate an error, continue with a value.\<close>

definition bindE :: "'e + 'a \<Rightarrow> ('a \<Rightarrow> 'e + 'b) \<Rightarrow> 'e + 'b" where
  "bindE m f = (case m of Inl e \<Rightarrow> Inl e | Inr x \<Rightarrow> f x)"

definition ensure :: "bool \<Rightarrow> 'e \<Rightarrow> 'e + unit" where
  "ensure b e = (if b then Inr () else Inl e)"

definition ok_or :: "'a option \<Rightarrow> 'e \<Rightarrow> 'e + 'a" where
  "ok_or m e = (case m of None \<Rightarrow> Inl e | Some x \<Rightarrow> Inr x)"

definition map_err :: "('e \<Rightarrow> 'f) \<Rightarrow> 'e + 'a \<Rightarrow> 'f + 'a" where
  "map_err g m = (case m of Inl e \<Rightarrow> Inl (g e) | Inr x \<Rightarrow> Inr x)"

lemma bindE_simps [simp]:
  "bindE (Inl e) f = Inl e"
  "bindE (Inr x) f = f x"
  by (simp_all add: bindE_def)

lemma bindE_eq_Inr: "bindE m f = Inr y \<longleftrightarrow> (\<exists>x. m = Inr x \<and> f x = Inr y)"
  by (cases m) simp_all

lemma bindE_eq_Inl: "bindE m f = Inl e \<longleftrightarrow> m = Inl e \<or> (\<exists>x. m = Inr x \<and> f x = Inl e)"
  by (cases m) simp_all

lemma bindE_assoc [simp]: "bindE (bindE m f) g = bindE m (\<lambda>x. bindE (f x) g)"
  by (cases m) simp_all

lemma bindE_cong [fundef_cong]:
  "m = m' \<Longrightarrow> (\<And>x. m' = Inr x \<Longrightarrow> f x = f' x) \<Longrightarrow> bindE m f = bindE m' f'"
  by (cases m') simp_all

lemma ensure_simps [simp]: "ensure True e = Inr ()" "ensure False e = Inl e"
  by (simp_all add: ensure_def)

lemma ensure_eq_Inr [simp]: "ensure b e = Inr u \<longleftrightarrow> b"
  by (simp add: ensure_def)

lemma ensure_eq_Inl [simp]: "ensure b e = Inl e' \<longleftrightarrow> \<not> b \<and> e' = e"
  by (auto simp: ensure_def)

lemma ok_or_simps [simp]: "ok_or None e = Inl e" "ok_or (Some x) e = Inr x"
  by (simp_all add: ok_or_def)

lemma ok_or_eq_Inr [simp]: "ok_or m e = Inr x \<longleftrightarrow> m = Some x"
  by (cases m) simp_all

lemma ok_or_eq_Inl [simp]: "ok_or m e = Inl e' \<longleftrightarrow> m = None \<and> e' = e"
  by (cases m) auto

lemma map_err_simps [simp]: "map_err g (Inl e) = Inl (g e)" "map_err g (Inr x) = Inr x"
  by (simp_all add: map_err_def)

lemma map_err_eq_Inr [simp]: "map_err g m = Inr x \<longleftrightarrow> m = Inr x"
  by (cases m) simp_all

lemma map_err_eq_Inl: "map_err g m = Inl e \<longleftrightarrow> (\<exists>e'. m = Inl e' \<and> e = g e')"
  by (cases m) auto

text \<open>A \<^verbatim>\<open>for\<close> loop whose body may fail, threading a state through the iterations.\<close>

fun foldE :: "('s \<Rightarrow> 'a \<Rightarrow> 'e + 's) \<Rightarrow> 's \<Rightarrow> 'a list \<Rightarrow> 'e + 's" where
  "foldE f s [] = Inr s"
| "foldE f s (x # xs) = bindE (f s x) (\<lambda>s'. foldE f s' xs)"

lemma foldE_append: "foldE f s (xs @ ys) = bindE (foldE f s xs) (\<lambda>s'. foldE f s' ys)"
  by (induction xs arbitrary: s) simp_all

lemma foldE_invariant:
  assumes "foldE f s xs = Inr s'" and "I s"
    and step: "\<And>s x s'. I s \<Longrightarrow> x \<in> set xs \<Longrightarrow> f s x = Inr s' \<Longrightarrow> I s'"
  shows "I s'"
  using assms
proof (induction xs arbitrary: s)
  case (Cons x xs)
  from Cons.prems(1) obtain t where t: "f s x = Inr t" "foldE f t xs = Inr s'"
    by (auto simp: bindE_eq_Inr)
  have "I t" by (rule Cons.prems(3) [OF Cons.prems(2) _ t(1)]) simp
  show ?case by (rule Cons.IH [OF t(2) \<open>I t\<close>]) (rule Cons.prems(3), simp_all)
qed simp

section \<open>Slices\<close>

text \<open>Rust's \<^verbatim>\<open>buf[a..b]\<close>, for ranges the code has checked to lie inside the buffer.\<close>

definition rslice :: "nat \<Rightarrow> nat \<Rightarrow> 'a list \<Rightarrow> 'a list" where
  "rslice a b xs = take (b - a) (drop a xs)"

lemma length_slice [simp]: "b \<le> length xs \<Longrightarrow> length (rslice a b xs) = b - a"
  by (simp add: rslice_def)

lemma slice_skip [slice_simps]:
  "length xs \<le> a \<Longrightarrow> rslice a b (xs @ ys) = rslice (a - length xs) (b - length xs) ys"
  by (simp add: rslice_def)

lemma slice_here [slice_simps]: "b = length xs \<Longrightarrow> rslice 0 b (xs @ ys) = xs"
  by (simp add: rslice_def)

lemma slice_all [slice_simps]: "b = length xs \<Longrightarrow> rslice 0 b xs = xs"
  by (simp add: rslice_def)

lemma slice_rest: "b = length xs \<Longrightarrow> rslice a b (xs @ ys) = drop a xs"
  by (simp add: rslice_def)

lemma slice_left: "b \<le> length xs \<Longrightarrow> rslice a b (xs @ ys) = rslice a b xs"
  by (simp add: rslice_def)

lemma slice_take: "b \<le> n \<Longrightarrow> rslice a b (take n xs) = rslice a b xs"
  by (cases "a \<le> b") (simp_all add: rslice_def drop_take)

lemma slice_Cons [slice_simps]: "0 < a \<Longrightarrow> rslice a b (x # xs) = rslice (a - 1) (b - 1) xs"
  by (cases a) (simp_all add: rslice_def)

lemma slice_Cons0 [slice_simps]: "0 < b \<Longrightarrow> rslice 0 b (x # xs) = x # rslice 0 (b - 1) xs"
  by (cases b) (simp_all add: rslice_def)

lemma slice_empty [simp]: "rslice a a xs = []"
  by (simp add: rslice_def)

text \<open>
  \<^verbatim>\<open>Read::read_exact\<close> on a reader whose remaining bytes are \<open>r\<close>: either the requested bytes
  and the rest, or \<^verbatim>\<open>UnexpectedEof\<close>.
\<close>

definition read_exact :: "nat \<Rightarrow> bytes \<Rightarrow> io_kind + (bytes \<times> bytes)" where
  "read_exact n r = (if length r < n then Inl UnexpectedEof else Inr (take n r, drop n r))"

lemma read_exact_append [simp]: "n = length xs \<Longrightarrow> read_exact n (xs @ ys) = Inr (xs, ys)"
  by (simp add: read_exact_def)

lemma read_exact_short [simp]: "length r < n \<Longrightarrow> read_exact n r = Inl UnexpectedEof"
  by (simp add: read_exact_def)

lemma read_exact_Inr:
  "read_exact n r = Inr (a, b) \<longleftrightarrow> n \<le> length r \<and> a = take n r \<and> b = drop n r"
  by (auto simp: read_exact_def)

text \<open>\<^verbatim>\<open>cursor.read_exact(..)?\<close>, with the I/O error converted to the crate's error type.\<close>

definition cread :: "nat \<Rightarrow> bytes \<Rightarrow> (bytes \<times> bytes) result" where
  "cread n r = map_err Io (read_exact n r)"

lemma cread_append [simp]: "n = length xs \<Longrightarrow> cread n (xs @ ys) = Inr (xs, ys)"
  by (simp add: cread_def)

lemma cread_short: "length r < n \<Longrightarrow> cread n r = Inl (Io UnexpectedEof)"
  by (simp add: cread_def)

lemma cread_Inr: "cread n r = Inr (a, b) \<longleftrightarrow> n \<le> length r \<and> a = take n r \<and> b = drop n r"
  by (simp add: cread_def read_exact_Inr)

section \<open>Little-endian integers\<close>

fun le_enc :: "nat \<Rightarrow> nat \<Rightarrow> bytes" where
  "le_enc 0 v = []"
| "le_enc (Suc n) v = word_of_nat (v mod 256) # le_enc n (v div 256)"

fun le_dec :: "bytes \<Rightarrow> nat" where
  "le_dec [] = 0"
| "le_dec (b # bs) = unat b + 256 * le_dec bs"

lemma length_le_enc [simp, len_simps]: "length (le_enc n v) = n"
  by (induction n arbitrary: v) simp_all

lemma unat_byte_of_nat [simp]: "unat (word_of_nat n :: byte) = n mod 256"
  by (simp add: unat_of_nat)

lemma unat_byte_less [simp]: "unat (b :: byte) < 256"
  using unsigned_less [where w = b and 'a = nat] by simp

lemma le_dec_enc: "le_dec (le_enc n v) = v mod 256 ^ n"
  by (induction n arbitrary: v) (simp_all add: mod_mult2_eq)

lemma le_enc_dec: "n = length bs \<Longrightarrow> le_enc n (le_dec bs) = bs"
  by (induction bs arbitrary: n) simp_all

lemma le_dec_less: "le_dec bs < 256 ^ length bs"
proof (induction bs)
  case (Cons b bs)
  have "unat b < 256" by simp
  moreover have "Suc (le_dec bs) \<le> 256 ^ length bs" using Cons by simp
  ultimately have "unat b + 256 * le_dec bs < 256 * 256 ^ length bs" by linarith
  then show ?case by simp
qed simp

text \<open>\<^verbatim>\<open>to_le_bytes\<close> and \<^verbatim>\<open>from_le_bytes\<close> at the three widths the formats use.\<close>

definition le16 :: "u16 \<Rightarrow> bytes" where "le16 w = le_enc 2 (unat w)"
definition le32 :: "u32 \<Rightarrow> bytes" where "le32 w = le_enc 4 (unat w)"
definition le64 :: "u64 \<Rightarrow> bytes" where "le64 w = le_enc 8 (unat w)"
definition from_le16 :: "bytes \<Rightarrow> u16" where "from_le16 bs = word_of_nat (le_dec bs)"
definition from_le32 :: "bytes \<Rightarrow> u32" where "from_le32 bs = word_of_nat (le_dec bs)"
definition from_le64 :: "bytes \<Rightarrow> u64" where "from_le64 bs = word_of_nat (le_dec bs)"

lemma length_le [simp, len_simps]:
  "length (le16 a) = 2" "length (le32 b) = 4" "length (le64 c) = 8"
  by (simp_all add: le16_def le32_def le64_def)

lemma from_le_le [simp]:
  "from_le16 (le16 a) = a" "from_le32 (le32 b) = b" "from_le64 (le64 c) = c"
  using unsigned_less [where w = a and 'a = nat] unsigned_less [where w = b and 'a = nat] unsigned_less [where w = c and 'a = nat]
  by (simp_all add: le16_def le32_def le64_def from_le16_def from_le32_def from_le64_def le_dec_enc)

lemma le_from_le:
  "length bs = 2 \<Longrightarrow> le16 (from_le16 bs) = bs"
  "length bs = 4 \<Longrightarrow> le32 (from_le32 bs) = bs"
  "length bs = 8 \<Longrightarrow> le64 (from_le64 bs) = bs"
  using le_dec_less [of bs]
  by (simp_all add: le16_def le32_def le64_def from_le16_def from_le32_def from_le64_def
      unat_of_nat le_enc_dec)

lemma le_inject [simp]:
  "le16 a = le16 a' \<longleftrightarrow> a = a'" "le32 b = le32 b' \<longleftrightarrow> b = b'" "le64 c = le64 c' \<longleftrightarrow> c = c'"
  by (metis from_le_le(1)) (metis from_le_le(2), metis from_le_le(3))

text \<open>The casts \<^verbatim>\<open>len as u16\<close> and \<^verbatim>\<open>len as u32\<close> truncate; they are exact below the width.\<close>

lemma unat_of_nat16 [simp]: "n < 65536 \<Longrightarrow> unat (word_of_nat n :: u16) = n"
  by (simp add: unat_of_nat)

lemma unat_of_nat32 [simp]: "n < 4294967296 \<Longrightarrow> unat (word_of_nat n :: u32) = n"
  by (simp add: unat_of_nat)

lemma unat_u16_less: "unat (w :: u16) < 65536"
  using unsigned_less [where w = w and 'a = nat] by simp

lemma unat_u32_less: "unat (w :: u32) < 4294967296"
  using unsigned_less [where w = w and 'a = nat] by simp

section \<open>Third-party functions\<close>

text \<open>
  \<^item> \<open>crc32 d\<close>: \<^verbatim>\<open>crc32fast::hash\<close>;
  \<^item> \<open>blake3 d\<close>: the 32 bytes of \<^verbatim>\<open>blake3::hash\<close> (the streaming hasher applied to the pieces of
    \<open>d\<close> returns the same value);
  \<^item> \<open>zstd_encode d\<close>, \<open>zstd_decode d\<close>: \<^verbatim>\<open>zstd::encode_all(d, 3)\<close> and \<^verbatim>\<open>zstd::decode_all\<close>,
    \<open>None\<close> for their error results;
  \<^item> \<open>aead_encrypt key nonce aad msg\<close>, \<open>aead_decrypt key nonce aad msg\<close>: XChaCha20-Poly1305;
  \<^item> \<open>argon2 pass salt\<close>: the Argon2id derivation with the parameters of \<^verbatim>\<open>derive_kek\<close>;
  \<^item> \<open>fastcdc min avg max data\<close>: the cut points \<open>(offset, length)\<close> of \<^verbatim>\<open>FastCDC::new\<close>.
\<close>

record ext =
  crc32 :: "bytes \<Rightarrow> u32"
  blake3 :: "bytes \<Rightarrow> bytes"
  zstd_encode :: "bytes \<Rightarrow> bytes option"
  zstd_decode :: "bytes \<Rightarrow> bytes option"
  aead_encrypt :: "bytes \<Rightarrow> bytes \<Rightarrow> bytes \<Rightarrow> bytes \<Rightarrow> bytes option"
  aead_decrypt :: "bytes \<Rightarrow> bytes \<Rightarrow> bytes \<Rightarrow> bytes \<Rightarrow> bytes option"
  argon2 :: "bytes \<Rightarrow> bytes \<Rightarrow> bytes option"
  fastcdc :: "nat \<Rightarrow> nat \<Rightarrow> nat \<Rightarrow> bytes \<Rightarrow> (nat \<times> nat) list"

text \<open>The documented behaviour the program relies on, one predicate per library.\<close>

definition blake3_ok :: "ext \<Rightarrow> bool" where
  "blake3_ok X \<longleftrightarrow> (\<forall>d. length (blake3 X d) = 32)"

definition zstd_ok :: "ext \<Rightarrow> bool" where
  "zstd_ok X \<longleftrightarrow> (\<forall>d c. zstd_encode X d = Some c \<longrightarrow> zstd_decode X c = Some d)"

definition aead_ok :: "ext \<Rightarrow> bool" where
  "aead_ok X \<longleftrightarrow> (\<forall>k n a m c. aead_encrypt X k n a m = Some c \<longrightarrow>
     aead_decrypt X k n a c = Some m \<and> length c = length m + 16)"

definition ext_ok :: "ext \<Rightarrow> bool" where
  "ext_ok X \<longleftrightarrow> blake3_ok X \<and> zstd_ok X \<and> aead_ok X"

lemma ext_okD:
  assumes "ext_ok X"
  shows "length (blake3 X d) = 32"
    and "zstd_encode X d = Some c \<Longrightarrow> zstd_decode X c = Some d"
    and "aead_encrypt X k n a m = Some c' \<Longrightarrow> aead_decrypt X k n a c' = Some m"
    and "aead_encrypt X k n a m = Some c' \<Longrightarrow> length c' = length m + 16"
  using assms by (auto simp: ext_ok_def blake3_ok_def zstd_ok_def aead_ok_def)

text \<open>
  A concrete instance that satisfies these laws, used where a closed example has to be evaluated:
  a truncating hash, no compression, a cipher that only appends a tag, and cuts of the maximal size.
\<close>

fun fixed_cuts :: "nat \<Rightarrow> nat \<Rightarrow> nat \<Rightarrow> (nat \<times> nat) list" where
  "fixed_cuts mx off n =
     (if n = 0 \<or> mx = 0 then [] else (off, min mx n) # fixed_cuts mx (off + min mx n) (n - min mx n))"

declare fixed_cuts.simps [simp del]

definition demo_ext :: ext where
  "demo_ext = \<lparr>crc32 = (\<lambda>d. word_of_nat (le_dec (take 4 d))),
     blake3 = (\<lambda>d. take 32 (d @ replicate 32 0)),
     zstd_encode = (\<lambda>d. None), zstd_decode = (\<lambda>d. None),
     aead_encrypt = (\<lambda>k n a m. Some (m @ replicate 16 0)),
     aead_decrypt = (\<lambda>k n a c. Some (take (length c - 16) c)),
     argon2 = (\<lambda>p s. Some (take 32 (p @ replicate 32 0))),
     fastcdc = (\<lambda>mn av mx d. fixed_cuts mx 0 (length d))\<rparr>"

lemma demo_ext_ok: "ext_ok demo_ext"
  by (auto simp: ext_ok_def blake3_ok_def zstd_ok_def aead_ok_def demo_ext_def min_def)

end
