(* ===== verification/Oos_Text.thy ===== *)
theory Oos_Text
  imports Oos_Prelude
begin

text \<open>
  Rust's text primitives on UTF-8 byte strings, as the code uses them: UTF-8 validation
  (\<^verbatim>\<open>String::from_utf8\<close>) and lossy conversion, \<^verbatim>\<open>str::trim\<close>, hexadecimal and decimal formatting and
  parsing, prefix and suffix tests, splitting at separators.  The lemmas are the round trips and the
  facts on ASCII strings that the codecs and the name handling rest on.
\<close>

section \<open>UTF-8\<close>

text \<open>
  The ranges the continuation bytes must lie in after a lead byte, \<open>None\<close> for a byte that cannot
  start a sequence (the Unicode table of well-formed byte sequences).
\<close>

definition utf8_tail :: "byte \<Rightarrow> (byte \<times> byte) list option" where
  "utf8_tail b =
     (if b < 0x80 then Some []
      else if b < 0xC2 then None
      else if b < 0xE0 then Some [(0x80, 0xBF)]
      else if b = 0xE0 then Some [(0xA0, 0xBF), (0x80, 0xBF)]
      else if b = 0xED then Some [(0x80, 0x9F), (0x80, 0xBF)]
      else if b < 0xF0 then Some [(0x80, 0xBF), (0x80, 0xBF)]
      else if b = 0xF0 then Some [(0x90, 0xBF), (0x80, 0xBF), (0x80, 0xBF)]
      else if b < 0xF4 then Some [(0x80, 0xBF), (0x80, 0xBF), (0x80, 0xBF)]
      else if b = 0xF4 then Some [(0x80, 0x8F), (0x80, 0xBF), (0x80, 0xBF)]
      else None)"

text \<open>How many continuation bytes match, and whether all that are needed do.\<close>

fun utf8_match :: "(byte \<times> byte) list \<Rightarrow> bytes \<Rightarrow> bool \<times> nat" where
  "utf8_match [] bs = (True, 0)"
| "utf8_match (p # ps) [] = (False, 0)"
| "utf8_match ((lo, hi) # ps) (b # bs) =
     (if lo \<le> b \<and> b \<le> hi then (case utf8_match ps bs of (ok, n) \<Rightarrow> (ok, Suc n)) else (False, 0))"

definition utf8_step :: "byte \<Rightarrow> bytes \<Rightarrow> bool \<times> nat" where
  "utf8_step b bs = (case utf8_tail b of None \<Rightarrow> (False, 0) | Some ps \<Rightarrow> utf8_match ps bs)"

function utf8_valid :: "bytes \<Rightarrow> bool" where
  "utf8_valid [] = True"
| "utf8_valid (b # bs) = (fst (utf8_step b bs) \<and> utf8_valid (drop (snd (utf8_step b bs)) bs))"
  by pat_completeness auto
termination by (relation "measure length") auto

definition from_utf8 :: "bytes \<Rightarrow> rstring option" where
  "from_utf8 bs = (if utf8_valid bs then Some bs else None)"

text \<open>\<^verbatim>\<open>String::from_utf8_lossy\<close>: every maximal ill-formed piece becomes U+FFFD.\<close>

function from_utf8_lossy :: "bytes \<Rightarrow> rstring" where
  "from_utf8_lossy [] = []"
| "from_utf8_lossy (b # bs) =
     (let n = snd (utf8_step b bs)
      in (if fst (utf8_step b bs) then b # take n bs else [0xEF, 0xBF, 0xBD])
         @ from_utf8_lossy (drop n bs))"
  by pat_completeness auto
termination by (relation "measure length") auto

lemma from_utf8_lossy_valid [simp]: "utf8_valid bs \<Longrightarrow> from_utf8_lossy bs = bs"
  by (induction bs rule: utf8_valid.induct) (simp_all add: Let_def)

definition ascii :: "bytes \<Rightarrow> bool" where
  "ascii bs \<longleftrightarrow> list_all (\<lambda>b. b < 0x80) bs"

lemma utf8_valid_ascii_Cons [simp]: "b < 0x80 \<Longrightarrow> utf8_valid (b # bs) = utf8_valid bs"
  by (simp add: utf8_step_def utf8_tail_def)

lemma utf8_valid_ascii: "ascii bs \<Longrightarrow> utf8_valid bs"
  by (induction bs) (simp_all add: ascii_def del: utf8_valid.simps(2))

lemma utf8_match_append: "fst (utf8_match ps bs) \<Longrightarrow> utf8_match ps (bs @ cs) = utf8_match ps bs"
  by (induction ps bs rule: utf8_match.induct) (auto split: prod.splits if_splits)

lemma utf8_match_length: "snd (utf8_match ps bs) \<le> length bs"
  by (induction ps bs rule: utf8_match.induct) (auto split: prod.splits)

lemma utf8_step_append: "fst (utf8_step b bs) \<Longrightarrow> utf8_step b (bs @ cs) = utf8_step b bs"
  by (auto simp: utf8_step_def utf8_match_append split: option.splits)

lemma utf8_step_length: "snd (utf8_step b bs) \<le> length bs"
  by (auto simp: utf8_step_def utf8_match_length split: option.splits)

lemma utf8_valid_append: "utf8_valid bs \<Longrightarrow> utf8_valid (bs @ cs) = utf8_valid cs"
  by (induction bs rule: utf8_valid.induct) (simp_all add: utf8_step_append utf8_step_length)

section \<open>Trimming\<close>

text \<open>The UTF-8 encodings of the characters with the Unicode property White\_Space.\<close>

definition white_space :: "bytes list" where
  "white_space =
     [[0x09], [0x0A], [0x0B], [0x0C], [0x0D], [0x20], [0xC2, 0x85], [0xC2, 0xA0],
      [0xE1, 0x9A, 0x80], [0xE2, 0x80, 0x80], [0xE2, 0x80, 0x81], [0xE2, 0x80, 0x82],
      [0xE2, 0x80, 0x83], [0xE2, 0x80, 0x84], [0xE2, 0x80, 0x85], [0xE2, 0x80, 0x86],
      [0xE2, 0x80, 0x87], [0xE2, 0x80, 0x88], [0xE2, 0x80, 0x89], [0xE2, 0x80, 0x8A],
      [0xE2, 0x80, 0xA8], [0xE2, 0x80, 0xA9], [0xE2, 0x80, 0xAF], [0xE2, 0x81, 0x9F],
      [0xE3, 0x80, 0x80]]"

definition starts_with :: "'a list \<Rightarrow> 'a list \<Rightarrow> bool" where
  "starts_with s p \<longleftrightarrow> take (length p) s = p"

definition ends_with :: "'a list \<Rightarrow> 'a list \<Rightarrow> bool" where
  "ends_with s p \<longleftrightarrow> length p \<le> length s \<and> drop (length s - length p) s = p"

lemma starts_with_append [simp]: "starts_with (p @ s) p"
  by (simp add: starts_with_def)

lemma starts_with_iff: "starts_with s p \<longleftrightarrow> (\<exists>t. s = p @ t)"
  by (auto simp: starts_with_def) (metis append_take_drop_id)

lemma ends_with_append [simp]: "ends_with (s @ p) p"
  by (simp add: ends_with_def)

lemma ends_with_iff: "ends_with s p \<longleftrightarrow> (\<exists>t. s = t @ p)"
  by (auto simp: ends_with_def) (metis append_take_drop_id)

definition ws_prefix :: "bytes \<Rightarrow> nat" where
  "ws_prefix s = (case find (starts_with s) white_space of None \<Rightarrow> 0 | Some w \<Rightarrow> length w)"

definition ws_suffix :: "bytes \<Rightarrow> nat" where
  "ws_suffix s = (case find (ends_with s) white_space of None \<Rightarrow> 0 | Some w \<Rightarrow> length w)"

lemma ws_Nil [simp]: "ws_prefix [] = 0" "ws_suffix [] = 0"
  by (simp_all add: ws_prefix_def ws_suffix_def white_space_def starts_with_def ends_with_def)

lemma ws_suffix_length: "ws_suffix s \<le> length s"
  by (auto simp: ws_suffix_def ends_with_def find_Some_iff split: option.splits)

function trim_start :: "rstring \<Rightarrow> rstring" where
  "trim_start s = (if s = [] \<or> ws_prefix s = 0 then s else trim_start (drop (ws_prefix s) s))"
  by pat_completeness auto
termination by (relation "measure length") auto

function trim_end :: "rstring \<Rightarrow> rstring" where
  "trim_end s =
     (if s = [] \<or> ws_suffix s = 0 then s else trim_end (take (length s - ws_suffix s) s))"
  by pat_completeness auto
termination
  by (relation "measure length") (auto simp: not_le diff_less dest: leD)

declare trim_start.simps [simp del] trim_end.simps [simp del]

text \<open>\<^verbatim>\<open>str::trim\<close>\<close>

definition trim :: "rstring \<Rightarrow> rstring" where
  "trim s = trim_end (trim_start s)"

text \<open>A string with no white space at either end is unchanged.\<close>

definition trimmed :: "rstring \<Rightarrow> bool" where
  "trimmed s \<longleftrightarrow> ws_prefix s = 0 \<and> ws_suffix s = 0"

lemma trim_trimmed: "trimmed s \<Longrightarrow> trim s = s"
  by (simp add: trim_def trimmed_def trim_start.simps [of s] trim_end.simps [of s])

lemma ws_prefix_trim_start: "ws_prefix (trim_start s) = 0"
proof (induction s rule: trim_start.induct)
  case (1 s)
  then show ?case
    by (cases "s = [] \<or> ws_prefix s = 0") (auto simp: trim_start.simps [of s])
qed

lemma ws_suffix_trim_end: "ws_suffix (trim_end s) = 0"
proof (induction s rule: trim_end.induct)
  case (1 s)
  then show ?case
    by (cases "s = [] \<or> ws_suffix s = 0") (auto simp: trim_end.simps [of s])
qed

lemma trim_end_prefix: "\<exists>t. s = trim_end s @ t"
proof (induction s rule: trim_end.induct)
  case (1 s)
  show ?case
  proof (cases "s = [] \<or> ws_suffix s = 0")
    case True
    then show ?thesis by (simp add: trim_end.simps [of s])
  next
    case False
    with 1 obtain t where "take (length s - ws_suffix s) s
        = trim_end (take (length s - ws_suffix s) s) @ t" by auto
    with False have "take (length s - ws_suffix s) s = trim_end s @ t"
      by (simp add: trim_end.simps [of s])
    then show ?thesis by (metis append.assoc append_take_drop_id)
  qed
qed

lemma ws_prefix_eq_0: "ws_prefix s = 0 \<longleftrightarrow> (\<forall>w \<in> set white_space. \<not> starts_with s w)"
proof -
  have "w \<in> set white_space \<Longrightarrow> w \<noteq> []" for w
    by (auto simp: white_space_def)
  then show ?thesis
    by (auto simp: ws_prefix_def find_None_iff find_Some_iff split: option.splits)
qed

lemma ws_prefix_append: "ws_prefix (s @ t) = 0 \<Longrightarrow> ws_prefix s = 0"
  by (auto simp: ws_prefix_eq_0 starts_with_iff)

lemma trimmed_trim: "trimmed (trim s)"
  using trim_end_prefix [of "trim_start s"] ws_prefix_trim_start [of s] ws_prefix_append
  by (simp add: trimmed_def trim_def ws_suffix_trim_end) metis

lemma trim_idem [simp]: "trim (trim s) = trim s"
  by (rule trim_trimmed [OF trimmed_trim])

section \<open>Hexadecimal\<close>

definition hex_digit :: "nat \<Rightarrow> byte" where
  "hex_digit n = (if n < 10 then word_of_nat (48 + n) else word_of_nat (87 + n))"

text \<open>\<^verbatim>\<open>format!("{:02x}", b)\<close> for every byte.\<close>

fun hex_encode :: "bytes \<Rightarrow> rstring" where
  "hex_encode [] = []"
| "hex_encode (b # bs) = hex_digit (unat b div 16) # hex_digit (unat b mod 16) # hex_encode bs"

text \<open>\<^verbatim>\<open>char::to_digit(16)\<close>\<close>

definition digit16 :: "byte \<Rightarrow> nat option" where
  "digit16 c =
     (if 48 \<le> c \<and> c \<le> 57 then Some (unat c - 48)
      else if 97 \<le> c \<and> c \<le> 102 then Some (unat c - 87)
      else if 65 \<le> c \<and> c \<le> 70 then Some (unat c - 55)
      else None)"

text \<open>\<^verbatim>\<open>u8::from_str_radix(s, 16)\<close> on a two-byte string: a leading plus sign is accepted.\<close>

definition u8_from_hex2 :: "byte \<Rightarrow> byte \<Rightarrow> byte option" where
  "u8_from_hex2 a b =
     (if a = 43 then map_option word_of_nat (digit16 b)
      else (case (digit16 a, digit16 b) of
              (Some x, Some y) \<Rightarrow> Some (word_of_nat (16 * x + y))
            | _ \<Rightarrow> None))"

text \<open>The loop over \<^verbatim>\<open>chunks_exact(2)\<close> of \<^verbatim>\<open>from_str\<close>; a trailing odd byte is not visited.\<close>

fun hex_decode :: "rstring \<Rightarrow> bytes option" where
  "hex_decode (a # b # s) =
     (if utf8_valid [a, b] then
        (case u8_from_hex2 a b of
           None \<Rightarrow> None
         | Some x \<Rightarrow> map_option ((#) x) (hex_decode s))
      else None)"
| "hex_decode _ = Some []"

lemma length_hex_encode [simp, len_simps]: "length (hex_encode bs) = 2 * length bs"
  by (induction bs) simp_all

lemma hex_digit_facts:
  "n < 16 \<Longrightarrow> digit16 (hex_digit n) = Some n \<and> hex_digit n < 0x80 \<and> hex_digit n \<noteq> 43"
proof -
  have "\<forall>n < 16. digit16 (hex_digit n) = Some n \<and> hex_digit n < 0x80 \<and> hex_digit n \<noteq> 43"
    by code_simp
  then show "n < 16 \<Longrightarrow> ?thesis" by blast
qed

lemma nibbles [simp]: "unat (b :: byte) div 16 < 16" "unat (b :: byte) mod 16 < 16"
  by (simp_all add: div_less_iff_less_mult)

lemma ascii_hex_encode [simp]: "ascii (hex_encode bs)"
  by (induction bs) (simp_all add: ascii_def hex_digit_facts)

lemma hex_decode_encode [simp]: "hex_decode (hex_encode bs) = Some bs"
proof (induction bs)
  case (Cons b bs)
  have "u8_from_hex2 (hex_digit (unat b div 16)) (hex_digit (unat b mod 16)) = Some b"
    by (simp add: u8_from_hex2_def hex_digit_facts)
  moreover have "utf8_valid [hex_digit (unat b div 16), hex_digit (unat b mod 16)]"
    by (intro utf8_valid_ascii) (simp add: ascii_def hex_digit_facts)
  ultimately show ?case using Cons by simp
qed simp

lemma hex_encode_inject [simp]: "hex_encode a = hex_encode b \<longleftrightarrow> a = b"
  by (metis hex_decode_encode option.inject)

lemma length_hex_decode: "hex_decode s = Some bs \<Longrightarrow> length bs = length s div 2"
  by (induction s arbitrary: bs rule: hex_decode.induct) (auto split: if_splits option.splits)

section \<open>Decimal\<close>

fun dec_digits :: "nat \<Rightarrow> rstring" where
  "dec_digits n = (if n < 10 then [word_of_nat (48 + n)]
                   else dec_digits (n div 10) @ [word_of_nat (48 + n mod 10)])"

declare dec_digits.simps [simp del]

text \<open>\<^verbatim>\<open>format!("{:08}", n)\<close>: pad with zeros to the width.\<close>

definition dec_pad :: "nat \<Rightarrow> nat \<Rightarrow> rstring" where
  "dec_pad w n = replicate (w - length (dec_digits n)) 48 @ dec_digits n"

definition digit10 :: "byte \<Rightarrow> nat option" where
  "digit10 c = (if 48 \<le> c \<and> c \<le> 57 then Some (unat c - 48) else None)"

fun dec_value :: "nat \<Rightarrow> rstring \<Rightarrow> nat option" where
  "dec_value acc [] = Some acc"
| "dec_value acc (c # s) =
     (case digit10 c of None \<Rightarrow> None | Some d \<Rightarrow> dec_value (10 * acc + d) s)"

text \<open>\<^verbatim>\<open>str::parse::<u64>\<close>: an optional plus sign, at least one digit, no overflow.\<close>

definition parse_u64 :: "rstring \<Rightarrow> nat option" where
  "parse_u64 s =
     (let d = (if starts_with s [43] then tl s else s)
      in if d = [] then None
         else (case dec_value 0 d of
                 None \<Rightarrow> None
               | Some n \<Rightarrow> if n < 2 ^ 64 then Some n else None))"

lemma dec_value_append:
  "dec_value acc (s @ t) = Option.bind (dec_value acc s) (\<lambda>n. dec_value n t)"
  by (induction s arbitrary: acc) (auto split: option.splits)

lemma digit10_digit: "d < 10 \<Longrightarrow> digit10 (word_of_nat (48 + d)) = Some d"
proof -
  have "\<forall>d < 10. digit10 (word_of_nat (48 + d)) = Some d"
    by code_simp
  then show "d < 10 \<Longrightarrow> ?thesis" by blast
qed

lemma dec_value_digits: "dec_value 0 (dec_digits n) = Some n"
proof (induction n rule: dec_digits.induct)
  case (1 n)
  show ?case
  proof (cases "n < 10")
    case True
    then show ?thesis using digit10_digit [of n] by (simp add: dec_digits.simps [of n])
  next
    case False
    then show ?thesis
      using 1 digit10_digit [of "n mod 10"]
      by (simp add: dec_digits.simps [of n] dec_value_append)
  qed
qed

lemma dec_value_zeros: "dec_value 0 (replicate k 48 @ s) = dec_value 0 s"
  by (induction k) (simp_all add: digit10_def)

lemma dec_value_pad: "dec_value 0 (dec_pad w n) = Some n"
  by (simp add: dec_pad_def dec_value_zeros dec_value_digits)

lemma dec_digits_nonempty [simp]: "dec_digits n \<noteq> []"
  by (simp add: dec_digits.simps [of n])

lemma dec_value_no_plus: "dec_value acc s = Some n \<Longrightarrow> \<not> starts_with s [43]"
  by (cases s) (auto simp: starts_with_def digit10_def split: option.splits)

lemma parse_u64_pad: "n < 2 ^ 64 \<Longrightarrow> parse_u64 (dec_pad w n) = Some n"
  using dec_value_no_plus [OF dec_value_pad [of w n]]
  by (simp add: parse_u64_def Let_def dec_value_pad) (simp add: dec_pad_def)

lemma dec_pad_inject [simp]: "dec_pad w m = dec_pad w n \<longleftrightarrow> m = n"
  by (metis dec_value_pad option.inject)

section \<open>Splitting\<close>

text \<open>\<^verbatim>\<open>s.split(p)\<close>: the pieces between the bytes that satisfy \<open>p\<close>, empty ones included.\<close>

fun split_on :: "('a \<Rightarrow> bool) \<Rightarrow> 'a list \<Rightarrow> 'a list list" where
  "split_on p [] = [[]]"
| "split_on p (x # xs) =
     (if p x then [] # split_on p xs
      else (case split_on p xs of [] \<Rightarrow> [[x]] | y # ys \<Rightarrow> (x # y) # ys))"

lemma split_on_nonempty [simp]: "split_on p xs \<noteq> []"
  by (induction xs) (auto split: list.splits)

lemma split_on_no_sep: "piece \<in> set (split_on p xs) \<Longrightarrow> x \<in> set piece \<Longrightarrow> \<not> p x \<and> x \<in> set xs"
  by (induction xs arbitrary: piece) (fastforce split: list.splits if_splits)+

end
