(* ===== verification/Oos_Redb.thy ===== *)
theory Oos_Redb
  imports Oos_Text "HOL-Library.RBT"
begin

text \<open>
  The embedded database redb is third-party code and a parameter of the model: a record of the calls
  \<^verbatim>\<open>core/src/index/mod.rs\<close> makes, over an abstract type of database states.  A write transaction works
  on a state of its own until it is committed; dropping it leaves the database as it was.  Opening a
  table is part of the call that uses it, except where the code opens one only to see that it exists.  Every call may fail with a message.
  \<open>redb_ok\<close> states the documented behaviour of the calls that succeed in terms of a view \<open>V\<close>, the
  contents of the tables; \<open>redb_total\<close> that no call fails.
\<close>

datatype db_table = NAME_INDEX | OBJECT_INDEX | MANIFESTS | SNAPSHOTS | WATCHER_FILES | WATCHER_CONFIG

record 'db redb =
  rd_open_table :: "'db \<Rightarrow> db_table \<Rightarrow> string + unit"
  rd_get :: "'db \<Rightarrow> db_table \<Rightarrow> bytes \<Rightarrow> string + bytes option"
  rd_iter :: "'db \<Rightarrow> db_table \<Rightarrow> string + (bytes \<times> bytes) list"
  rd_range :: "'db \<Rightarrow> db_table \<Rightarrow> bytes \<Rightarrow> string + (bytes \<times> bytes) list"
  rd_len :: "'db \<Rightarrow> db_table \<Rightarrow> string + nat"
  rd_begin_write :: "'db \<Rightarrow> string + 'db"
  rd_insert :: "'db \<Rightarrow> db_table \<Rightarrow> bytes \<Rightarrow> bytes \<Rightarrow> string + 'db"
  rd_remove :: "'db \<Rightarrow> db_table \<Rightarrow> bytes \<Rightarrow> string + 'db \<times> bytes option"
  rd_commit :: "'db \<Rightarrow> string + 'db"

type_synonym 'db view = "'db \<Rightarrow> db_table \<Rightarrow> bytes \<Rightarrow> bytes option"

text \<open>Replace one entry of one table.\<close>

definition set_entry ::
    "(db_table \<Rightarrow> bytes \<Rightarrow> bytes option) \<Rightarrow> db_table \<Rightarrow> bytes \<Rightarrow> bytes option \<Rightarrow> db_table \<Rightarrow> bytes \<Rightarrow> bytes option" where
  "set_entry T t k v = T(t := (T t)(k := v))"

lemma set_entry_same [simp]: "set_entry T t k v t k = v"
  by (simp add: set_entry_def)

lemma set_entry_other [simp]:
  "t' \<noteq> t \<Longrightarrow> set_entry T t k v t' = T t'" "k' \<noteq> k \<Longrightarrow> set_entry T t k v t' k' = T t' k'"
  by (auto simp: set_entry_def)

lemma set_entry_apply: "set_entry T t k v t' k' = (if t' = t \<and> k' = k then v else T t' k')"
  by (simp add: set_entry_def)

section \<open>Laws\<close>

definition redb_ok :: "'db redb \<Rightarrow> 'db view \<Rightarrow> bool" where
  "redb_ok R V \<longleftrightarrow>
     (\<forall>db t k r. rd_get R db t k = Inr r \<longrightarrow> r = V db t k)
     \<and> (\<forall>db t xs. rd_iter R db t = Inr xs \<longrightarrow> sorted_wrt (<) (map fst xs) \<and> map_of xs = V db t)
     \<and> (\<forall>db t s xs. rd_range R db t s = Inr xs \<longrightarrow> sorted_wrt (<) (map fst xs)
          \<and> map_of xs = V db t |` {k. s \<le> k})
     \<and> (\<forall>db t n. rd_len R db t = Inr n \<longrightarrow> finite (dom (V db t)) \<and> n = card (dom (V db t)))
     \<and> (\<forall>db tx. rd_begin_write R db = Inr tx \<longrightarrow> V tx = V db)
     \<and> (\<forall>tx t k v tx'. rd_insert R tx t k v = Inr tx' \<longrightarrow> V tx' = set_entry (V tx) t k (Some v))
     \<and> (\<forall>tx t k tx' p. rd_remove R tx t k = Inr (tx', p) \<longrightarrow> p = V tx t k \<and> V tx' = set_entry (V tx) t k None)
     \<and> (\<forall>tx db. rd_commit R tx = Inr db \<longrightarrow> V db = V tx)"

lemma redb_okD:
  assumes "redb_ok R V"
  shows "rd_get R db t k = Inr r \<Longrightarrow> r = V db t k"
    and "rd_iter R db t = Inr xs \<Longrightarrow> sorted_wrt (<) (map fst xs) \<and> map_of xs = V db t"
    and "rd_range R db t s = Inr xs \<Longrightarrow> sorted_wrt (<) (map fst xs) \<and> map_of xs = V db t |` {k. s \<le> k}"
    and "rd_len R db t = Inr n \<Longrightarrow> finite (dom (V db t)) \<and> n = card (dom (V db t))"
    and "rd_begin_write R db = Inr tx \<Longrightarrow> V tx = V db"
    and "rd_insert R tx t k v = Inr tx' \<Longrightarrow> V tx' = set_entry (V tx) t k (Some v)"
    and "rd_remove R tx t k = Inr (tx', p) \<Longrightarrow> p = V tx t k \<and> V tx' = set_entry (V tx) t k None"
    and "rd_commit R tx = Inr db' \<Longrightarrow> V db' = V tx"
  using assms by (auto simp: redb_ok_def)

definition redb_total :: "'db redb \<Rightarrow> bool" where
  "redb_total R \<longleftrightarrow>
     (\<forall>db t. rd_open_table R db t = Inr ())
     \<and> (\<forall>db t k. \<exists>r. rd_get R db t k = Inr r) \<and> (\<forall>db t. \<exists>r. rd_iter R db t = Inr r)
     \<and> (\<forall>db t k. \<exists>r. rd_range R db t k = Inr r) \<and> (\<forall>db t. \<exists>r. rd_len R db t = Inr r)
     \<and> (\<forall>db. \<exists>r. rd_begin_write R db = Inr r) \<and> (\<forall>db t k v. \<exists>r. rd_insert R db t k v = Inr r)
     \<and> (\<forall>db t k. \<exists>r. rd_remove R db t k = Inr r) \<and> (\<forall>db. \<exists>r. rd_commit R db = Inr r)"

section \<open>An instance\<close>

text \<open>
  Red-black trees over the byte order satisfy the laws; closed examples use them.
\<close>

type_synonym demo_db = "db_table \<Rightarrow> (bytes, bytes) rbt"

definition demo_redb :: "demo_db redb" where
  "demo_redb = \<lparr>rd_open_table = \<lambda>db t. Inr (), rd_get = \<lambda>db t k. Inr (RBT.lookup (db t) k),
     rd_iter = \<lambda>db t. Inr (RBT.entries (db t)),
     rd_range = \<lambda>db t s. Inr (filter (\<lambda>(k, v). s \<le> k) (RBT.entries (db t))),
     rd_len = \<lambda>db t. Inr (length (RBT.entries (db t))),
     rd_begin_write = \<lambda>db. Inr db,
     rd_insert = \<lambda>db t k v. Inr (db(t := RBT.insert k v (db t))),
     rd_remove = \<lambda>db t k. Inr (db(t := RBT.delete k (db t)), RBT.lookup (db t) k),
     rd_commit = Inr\<rparr>"

definition demo_view :: "demo_db \<Rightarrow> db_table \<Rightarrow> bytes \<Rightarrow> bytes option" where
  "demo_view db t = RBT.lookup (db t)"

definition demo_empty :: demo_db where
  "demo_empty = (\<lambda>_. RBT.empty)"

lemma demo_redb_total: "redb_total demo_redb"
  by (simp add: redb_total_def demo_redb_def)

lemma map_of_filter_key: "map_of (filter (\<lambda>(k, v). P k) xs) = map_of xs |` {k. P k}"
  by (induction xs) (auto simp: fun_eq_iff restrict_map_def)

lemma strict_sorted_entries: "sorted_wrt (<) (map fst (RBT.entries t))"
  using RBT.sorted_entries [of t] RBT.distinct_entries [of t] strict_sorted_iff by blast

lemma demo_view_update:
  "demo_view (db(t := RBT.insert k v (db t))) = set_entry (demo_view db) t k (Some v)"
  "demo_view (db(t := RBT.delete k (db t))) = set_entry (demo_view db) t k None"
  by (auto simp: demo_view_def set_entry_def fun_eq_iff)

lemma demo_redb_ok: "redb_ok demo_redb demo_view"
proof -
  have len: "length (RBT.entries t) = card (dom (RBT.lookup t))" for t :: "(bytes, bytes) rbt"
    using RBT.distinct_entries [of t]
    by (metis RBT.map_of_entries distinct_card dom_map_of_conv_image_fst length_map set_map)
  have "sorted_wrt (<) (map fst (filter (\<lambda>(k, v). s \<le> k) (RBT.entries t)))" for s and t :: "(bytes, bytes) rbt"
    using strict_sorted_entries [of t] by (simp add: sorted_wrt_map sorted_wrt_filter)
  then show ?thesis
    by (auto simp: redb_ok_def demo_redb_def demo_view_update strict_sorted_entries map_of_filter_key)
      (auto simp: demo_view_def len)
qed

end
