(* ===== verification/Oos_Ids.thy ===== *)
theory Oos_Ids
  imports Oos_Text
begin

text \<open>
  The two identifiers of the store: \<^verbatim>\<open>ChunkId\<close> (\<^verbatim>\<open>core/src/chunk/id.rs\<close>), the BLAKE3 hash of a
  chunk's plain bytes, and \<^verbatim>\<open>ObjectId\<close> (\<^verbatim>\<open>core/src/object/id.rs\<close>), a time stamp followed by a counter
  mixed with the process id.  Both are fixed arrays of bytes, printed and parsed as hexadecimal and
  compared bytewise.
\<close>

section \<open>ChunkId\<close>

datatype chunk_id = ChunkId (cid_bytes: bytes)

definition wf_cid :: "chunk_id \<Rightarrow> bool" where
  "wf_cid c \<longleftrightarrow> length (cid_bytes c) = 32"

definition cid_from_raw :: "bytes \<Rightarrow> chunk_id" where
  "cid_from_raw b = ChunkId b"

definition cid_from_data :: "ext \<Rightarrow> bytes \<Rightarrow> chunk_id" where
  "cid_from_data X data = ChunkId (blake3 X data)"

definition cid_to_hex :: "chunk_id \<Rightarrow> rstring" where
  "cid_to_hex c = hex_encode (cid_bytes c)"

text \<open>\<^verbatim>\<open>FromStr for ChunkId\<close>: the length is checked on the bytes, then every pair is parsed.\<close>

definition cid_from_str :: "rstring \<Rightarrow> chunk_id result" where
  "cid_from_str s =
     (if length s \<noteq> 64 then Inl (Internal ''Invalid ChunkId length'')
      else (case hex_decode s of
              None \<Rightarrow> Inl (Internal ''Invalid hex in ChunkId'')
            | Some bs \<Rightarrow> Inr (ChunkId bs)))"

lemma wf_cid_from_data [simp]: "ext_ok X \<Longrightarrow> wf_cid (cid_from_data X d)"
  by (simp add: wf_cid_def cid_from_data_def ext_okD)

lemma wf_cid_from_str: "cid_from_str s = Inr c \<Longrightarrow> wf_cid c"
  by (auto simp: cid_from_str_def wf_cid_def dest: length_hex_decode split: if_splits option.splits)

lemma cid_to_hex_inject [simp]: "cid_to_hex a = cid_to_hex b \<longleftrightarrow> a = b"
  by (cases a; cases b) (simp add: cid_to_hex_def)

lemma cid_from_str_to_hex: "wf_cid c \<Longrightarrow> cid_from_str (cid_to_hex c) = Inr c"
  by (simp add: cid_from_str_def cid_to_hex_def wf_cid_def)

section \<open>ObjectId\<close>

datatype object_id = ObjectId (oid_bytes: bytes)

definition wf_oid :: "object_id \<Rightarrow> bool" where
  "wf_oid i \<longleftrightarrow> length (oid_bytes i) = 16"

definition oid_from_raw :: "bytes \<Rightarrow> object_id" where
  "oid_from_raw b = ObjectId b"

text \<open>\<^verbatim>\<open>u64::to_be_bytes\<close>\<close>

definition be64 :: "u64 \<Rightarrow> bytes" where
  "be64 w = rev (le64 w)"

text \<open>
  \<^verbatim>\<open>ObjectId::generate\<close> with the clock, the counter and the process id as arguments.  The counter is
  the value \<^verbatim>\<open>fetch_add\<close> returns; the next call sees it incremented, with wrap-around.
\<close>

definition oid_entropy :: "u64 \<Rightarrow> u64 \<Rightarrow> u64" where
  "oid_entropy pid cnt =
     xor (xor (push_bit 32 pid) cnt) 0x5a5aa5a53c3cc3c3"

definition oid_generate :: "u64 \<Rightarrow> u64 \<Rightarrow> u64 \<Rightarrow> object_id \<times> u64" where
  "oid_generate ts pid cnt = (ObjectId (be64 ts @ be64 (oid_entropy pid cnt)), cnt + 1)"

definition oid_to_hex :: "object_id \<Rightarrow> rstring" where
  "oid_to_hex i = hex_encode (oid_bytes i)"

definition oid_from_str :: "rstring \<Rightarrow> object_id result" where
  "oid_from_str s0 =
     (let s = trim s0
      in if length s \<noteq> 32 then Inl (Internal ''Invalid ObjectId length'')
         else (case hex_decode s of
                 None \<Rightarrow> Inl (Internal ''Invalid hex in ObjectId'')
               | Some bs \<Rightarrow> Inr (ObjectId bs)))"

lemma length_be64 [simp, len_simps]: "length (be64 w) = 8"
  by (simp add: be64_def)

lemma be64_inject [simp]: "be64 a = be64 b \<longleftrightarrow> a = b"
  by (simp add: be64_def)

lemma wf_oid_generate: "wf_oid (fst (oid_generate ts pid cnt))"
  by (simp add: oid_generate_def wf_oid_def)

lemma wf_oid_from_str: "oid_from_str s = Inr i \<Longrightarrow> wf_oid i"
  by (auto simp: oid_from_str_def wf_oid_def Let_def dest: length_hex_decode
      split: if_splits option.splits)

lemma ws_prefix_ascii_graph: "s = c # t \<Longrightarrow> 32 < c \<Longrightarrow> c < 0x80 \<Longrightarrow> ws_prefix s = 0"
  by (auto simp: ws_prefix_eq_0 white_space_def starts_with_def)

lemma ws_suffix_eq_0: "ws_suffix s = 0 \<longleftrightarrow> (\<forall>w \<in> set white_space. \<not> ends_with s w)"
proof -
  have "w \<in> set white_space \<Longrightarrow> w \<noteq> []" for w
    by (auto simp: white_space_def)
  then show ?thesis
    by (auto simp: ws_suffix_def find_None_iff find_Some_iff split: option.splits)
qed

lemma ends_with_last: "ends_with s w \<Longrightarrow> w \<noteq> [] \<Longrightarrow> last s = last w"
  by (auto simp: ends_with_iff)

lemma ws_suffix_ascii_graph: "32 < last s \<Longrightarrow> last s < 0x80 \<Longrightarrow> ws_suffix s = 0"
  unfolding ws_suffix_eq_0 by (auto simp: white_space_def dest: ends_with_last)

lemma hex_digit_graph: "n < 16 \<Longrightarrow> 32 < hex_digit n \<and> hex_digit n < 0x80"
proof -
  have "\<forall>n < 16. 32 < hex_digit n \<and> hex_digit n < 0x80"
    by code_simp
  then show "n < 16 \<Longrightarrow> ?thesis" by blast
qed

lemma hex_encode_graph: "c \<in> set (hex_encode bs) \<Longrightarrow> 32 < c \<and> c < 0x80"
  by (induction bs) (auto simp: hex_digit_graph)

lemma trim_hex_encode [simp]: "trim (hex_encode bs) = hex_encode bs"
proof (cases bs)
  case (Cons b bs')
  have "trimmed (hex_encode bs)"
    unfolding trimmed_def
  proof
    show "ws_prefix (hex_encode bs) = 0"
      using hex_digit_graph [of "unat b div 16"]
      by (intro ws_prefix_ascii_graph) (auto simp: Cons)
    show "ws_suffix (hex_encode bs) = 0"
      using hex_encode_graph [OF last_in_set, of bs]
      by (intro ws_suffix_ascii_graph) (auto simp: Cons)
  qed
  then show ?thesis by (rule trim_trimmed)
qed (simp add: trim_trimmed trimmed_def)

lemma oid_from_str_to_hex: "wf_oid i \<Longrightarrow> oid_from_str (oid_to_hex i) = Inr i"
  by (simp add: oid_from_str_def oid_to_hex_def wf_oid_def Let_def)

section \<open>Order\<close>

text \<open>\<^verbatim>\<open>derive(PartialOrd, Ord)\<close>: the lexicographic order of the byte arrays.\<close>

instantiation chunk_id :: linorder
begin

definition less_eq_chunk_id :: "chunk_id \<Rightarrow> chunk_id \<Rightarrow> bool" where
  "less_eq_chunk_id a b = (cid_bytes a \<le> cid_bytes b)"

definition less_chunk_id :: "chunk_id \<Rightarrow> chunk_id \<Rightarrow> bool" where
  "less_chunk_id a b = (cid_bytes a < cid_bytes b)"

instance
  by standard (auto simp: less_eq_chunk_id_def less_chunk_id_def chunk_id.expand)

end

instantiation object_id :: linorder
begin

definition less_eq_object_id :: "object_id \<Rightarrow> object_id \<Rightarrow> bool" where
  "less_eq_object_id a b = (oid_bytes a \<le> oid_bytes b)"

definition less_object_id :: "object_id \<Rightarrow> object_id \<Rightarrow> bool" where
  "less_object_id a b = (oid_bytes a < oid_bytes b)"

instance
  by standard (auto simp: less_eq_object_id_def less_object_id_def object_id.expand)

end

text \<open>Two ids made by one process with different counter values are different.\<close>

lemma oid_generate_distinct:
  "cnt \<noteq> cnt' \<Longrightarrow> fst (oid_generate ts pid cnt) \<noteq> fst (oid_generate ts' pid cnt')"
proof -
  have "cnt = cnt'" if e: "oid_entropy pid cnt = oid_entropy pid cnt'"
  proof (rule bit_word_eqI)
    fix n
    from e have "bit (oid_entropy pid cnt) n = bit (oid_entropy pid cnt') n" by simp
    then show "bit cnt n = bit cnt' n"
      unfolding oid_entropy_def bit_xor_iff by blast
  qed
  then show "cnt \<noteq> cnt' \<Longrightarrow> ?thesis"
    by (auto simp: oid_generate_def)
qed

end
