(* ===== verification/Oos_Object.thy ===== *)
theory Oos_Object
  imports Oos_Ids
begin

text \<open>
  \<^verbatim>\<open>core/src/object/record.rs\<close>: the version history of one stored file and its binary form in the
  object table.  Times and sizes are \<^verbatim>\<open>u64\<close>, version numbers \<^verbatim>\<open>u32\<close> with wrap-around addition (the
  release build's behaviour).
\<close>

record object_version =
  v_version :: u32
  v_manifest_id :: rstring
  v_created_at :: u64
  v_size_bytes :: u64

record object_record =
  o_object_id :: object_id
  o_latest_version :: u32
  o_versions :: "object_version list"

definition rec_new :: "u64 \<Rightarrow> object_id \<Rightarrow> rstring \<Rightarrow> u64 \<Rightarrow> object_record" where
  "rec_new now oid mid sz =
     \<lparr>o_object_id = oid, o_latest_version = 1,
      o_versions = [\<lparr>v_version = 1, v_manifest_id = mid, v_created_at = now,
                     v_size_bytes = sz\<rparr>]\<rparr>"

definition rec_add_version ::
    "u64 \<Rightarrow> object_record \<Rightarrow> rstring \<Rightarrow> u64 \<Rightarrow> object_record \<times> u32" where
  "rec_add_version now r mid sz =
     (let n = o_latest_version r + 1
      in (r\<lparr>o_latest_version := n,
             o_versions := o_versions r @
               [\<lparr>v_version = n, v_manifest_id = mid, v_created_at = now, v_size_bytes = sz\<rparr>]\<rparr>,
          n))"

definition rec_latest :: "object_record \<Rightarrow> object_version option" where
  "rec_latest r = (case o_versions r of [] \<Rightarrow> None | vs \<Rightarrow> Some (last vs))"

definition rec_latest_manifest_id :: "object_record \<Rightarrow> rstring" where
  "rec_latest_manifest_id r = (case rec_latest r of None \<Rightarrow> [] | Some v \<Rightarrow> v_manifest_id v)"

section \<open>Binary form\<close>

definition ver_to_bytes :: "object_version \<Rightarrow> bytes" where
  "ver_to_bytes v =
     le32 (v_version v) @ le64 (v_created_at v) @ le64 (v_size_bytes v)
     @ le16 (word_of_nat (length (v_manifest_id v))) @ v_manifest_id v"

definition rec_to_bytes :: "object_record \<Rightarrow> bytes" where
  "rec_to_bytes r =
     oid_bytes (o_object_id r) @ le32 (o_latest_version r)
     @ le32 (word_of_nat (length (o_versions r))) @ concat (map ver_to_bytes (o_versions r))"

text \<open>The loop of \<^verbatim>\<open>from_bytes\<close>: the argument is what follows the current offset.\<close>

fun ver_list_from_bytes :: "nat \<Rightarrow> bytes \<Rightarrow> object_version list result" where
  "ver_list_from_bytes 0 bs = Inr []"
| "ver_list_from_bytes (Suc n) bs =
     (if length bs < 22 then Inl (Internal ''Malformed ObjectRecord bytes'')
      else
        let m_len = unat (from_le16 (rslice 20 22 bs)); bs' = drop 22 bs
        in if length bs' < m_len then Inl (Internal ''Malformed ObjectRecord manifest string'')
           else bindE (ok_or (from_utf8 (rslice 0 m_len bs')) (Internal ''Invalid UTF-8 in manifest_id''))
             (\<lambda>mid. bindE (ver_list_from_bytes n (drop m_len bs'))
               (\<lambda>vs. Inr (\<lparr>v_version = from_le32 (rslice 0 4 bs), v_manifest_id = mid,
                            v_created_at = from_le64 (rslice 4 12 bs),
                            v_size_bytes = from_le64 (rslice 12 20 bs)\<rparr> # vs))))"

definition rec_from_bytes :: "bytes \<Rightarrow> object_record result" where
  "rec_from_bytes bs =
     (if length bs < 24 then Inl (Internal ''ObjectRecord bytes too small'')
      else
        let object_id = oid_from_raw (rslice 0 16 bs);
            latest_version = from_le32 (rslice 16 20 bs);
            num_versions = unat (from_le32 (rslice 20 24 bs))
        in bindE (ver_list_from_bytes num_versions (drop 24 bs))
             (\<lambda>vs. Inr \<lparr>o_object_id = object_id, o_latest_version = latest_version,
                          o_versions = vs\<rparr>))"

section \<open>Well-formed records and the round trip\<close>

text \<open>What Rust's types and the sizes of the format's length fields guarantee.\<close>

definition wf_version :: "object_version \<Rightarrow> bool" where
  "wf_version v \<longleftrightarrow> length (v_manifest_id v) < 65536 \<and> utf8_valid (v_manifest_id v)"

definition wf_record :: "object_record \<Rightarrow> bool" where
  "wf_record r \<longleftrightarrow> wf_oid (o_object_id r) \<and> length (o_versions r) < 4294967296
     \<and> list_all wf_version (o_versions r)"

lemma ver_parse_step:
  assumes "wf_version v"
  shows "ver_list_from_bytes (Suc n) (ver_to_bytes v @ rest)
       = bindE (ver_list_from_bytes n rest) (\<lambda>vs. Inr (v # vs))"
  using assms
  by (cases v)
    (simp add: ver_to_bytes_def wf_version_def slice_simps len_simps Let_def from_utf8_def)

lemma ver_list_roundtrip:
  "list_all wf_version vs \<Longrightarrow>
   ver_list_from_bytes (length vs) (concat (map ver_to_bytes vs) @ rest) = Inr vs"
  by (induction vs) (simp_all add: ver_parse_step del: ver_list_from_bytes.simps(2))

lemma rec_from_to_bytes: "wf_record r \<Longrightarrow> rec_from_bytes (rec_to_bytes r) = Inr r"
  using ver_list_roundtrip [of "o_versions r" "[]"]
  by (simp add: rec_from_bytes_def rec_to_bytes_def wf_record_def wf_oid_def oid_from_raw_def
      slice_simps len_simps Let_def)

lemma wf_record_new:
  "wf_oid oid \<Longrightarrow> length mid < 65536 \<Longrightarrow> utf8_valid mid \<Longrightarrow> wf_record (rec_new now oid mid sz)"
  by (simp add: wf_record_def rec_new_def wf_version_def)

text \<open>
  Parsing never yields an ill-formed record, whatever the bytes: the id has sixteen bytes and every
  manifest id is a string that fits its length field.
\<close>

lemma ver_list_from_bytes_wf:
  "ver_list_from_bytes n bs = Inr vs \<Longrightarrow> length vs = n \<and> list_all wf_version vs"
proof (induction n arbitrary: bs vs)
  case (Suc n)
  then show ?case
    using unat_u16_less [of "from_le16 (rslice 20 22 bs)"]
    by (auto simp: Let_def bindE_eq_Inr from_utf8_def wf_version_def split: if_splits)
qed simp

lemma rec_from_bytes_wf: "rec_from_bytes bs = Inr r \<Longrightarrow> wf_record r"
  using unat_u32_less [of "from_le32 (rslice 20 24 bs)"]
  by (auto simp: rec_from_bytes_def Let_def bindE_eq_Inr wf_record_def wf_oid_def oid_from_raw_def
      dest: ver_list_from_bytes_wf split: if_splits)

section \<open>Properties\<close>

text \<open>
  The binary form of an object record loses nothing exactly for the records whose length fields fit:
  decoding what \<^verbatim>\<open>to_bytes\<close> wrote gives the record back if and only if its id has sixteen bytes, it has
  fewer than \<open>2 ^ 32\<close> versions and every manifest id is a string of fewer than \<open>2 ^ 16\<close> bytes.
\<close>

theorem record_codec_iff: "rec_from_bytes (rec_to_bytes r) = Inr r \<longleftrightarrow> wf_record r"
  using rec_from_to_bytes [of r] rec_from_bytes_wf [of "rec_to_bytes r" r] by blast

end
