(* ===== verification/Oos_Manifest.thy ===== *)
theory Oos_Manifest
  imports Oos_Ids
begin

text \<open>
  \<^verbatim>\<open>core/src/manifest/mod.rs\<close>: the ordered chunk list of one file version, its checksummed binary
  form, and the file-per-manifest store.
\<close>

definition MANIFEST_MAGIC :: bytes where "MANIFEST_MAGIC = [0x4F, 0x4F, 0x53, 0x4D]"
definition MANIFEST_VERSION :: u32 where "MANIFEST_VERSION = 1"
definition MANIFEST_HEADER_SIZE :: nat where "MANIFEST_HEADER_SIZE = 60"

record manifest =
  m_total_size :: u64
  m_content_hash :: bytes
  m_created_at :: u64
  m_chunks :: "chunk_id list"

definition manifest_new :: "u64 \<Rightarrow> chunk_id list \<Rightarrow> u64 \<Rightarrow> bytes \<Rightarrow> manifest" where
  "manifest_new now chunks tot hash =
     \<lparr>m_total_size = tot, m_content_hash = hash, m_created_at = now, m_chunks = chunks\<rparr>"

definition content_id :: "manifest \<Rightarrow> rstring" where
  "content_id m = hex_encode (m_content_hash m)"

text \<open>The bytes the trailing checksum covers.\<close>

definition manifest_body :: "manifest \<Rightarrow> bytes" where
  "manifest_body m =
     MANIFEST_MAGIC @ le32 MANIFEST_VERSION @ le64 (m_total_size m) @ m_content_hash m
     @ le64 (m_created_at m) @ le32 (word_of_nat (length (m_chunks m)))
     @ concat (map cid_bytes (m_chunks m))"

definition manifest_to_bytes :: "ext \<Rightarrow> manifest \<Rightarrow> bytes" where
  "manifest_to_bytes X m = manifest_body m @ le32 (crc32 X (manifest_body m))"

text \<open>The loop that reads \<open>n\<close> chunk ids of 32 bytes.\<close>

fun read_cids :: "nat \<Rightarrow> bytes \<Rightarrow> chunk_id list" where
  "read_cids 0 bs = []"
| "read_cids (Suc n) bs = cid_from_raw (rslice 0 32 bs) # read_cids n (drop 32 bs)"

definition manifest_from_bytes :: "ext \<Rightarrow> bytes \<Rightarrow> manifest result" where
  "manifest_from_bytes X bs =
     (if length bs < MANIFEST_HEADER_SIZE + 4 then Inl (Internal ''Manifest bytes too small'')
      else
        let body = take (length bs - 4) bs;
            stored_crc = from_le32 (drop (length bs - 4) bs);
            actual_crc = crc32 X body
        in if stored_crc \<noteq> actual_crc
           then Inl (ChecksumMismatch (bytes_of ''manifest'') stored_crc actual_crc)
           else if rslice 0 4 bs \<noteq> MANIFEST_MAGIC then Inl (Internal ''Invalid manifest magic'')
           else if from_le32 (rslice 4 8 bs) \<noteq> MANIFEST_VERSION
           then Inl (Internal ''Unsupported manifest version'')
           else
             let num_chunks = unat (from_le32 (rslice 56 60 bs));
                 expected_len = MANIFEST_HEADER_SIZE + num_chunks * 32 + 4
             in if length bs \<noteq> expected_len then Inl (Internal ''Manifest length mismatch'')
                else Inr \<lparr>m_total_size = from_le64 (rslice 8 16 bs),
                          m_content_hash = rslice 16 48 bs,
                          m_created_at = from_le64 (rslice 48 56 bs),
                          m_chunks = read_cids num_chunks (drop MANIFEST_HEADER_SIZE bs)\<rparr>)"

section \<open>Round trip\<close>

definition wf_manifest :: "manifest \<Rightarrow> bool" where
  "wf_manifest m \<longleftrightarrow> length (m_content_hash m) = 32 \<and> length (m_chunks m) < 4294967296
     \<and> list_all wf_cid (m_chunks m)"

lemma length_cids: "list_all wf_cid cs \<Longrightarrow> length (concat (map cid_bytes cs)) = 32 * length cs"
  by (induction cs) (simp_all add: wf_cid_def)

lemma length_MANIFEST_MAGIC [simp, len_simps]: "length MANIFEST_MAGIC = 4"
  by (simp add: MANIFEST_MAGIC_def)

lemma length_manifest_body:
  "wf_manifest m \<Longrightarrow> length (manifest_body m) = 60 + 32 * length (m_chunks m)"
  by (simp add: manifest_body_def wf_manifest_def length_cids)

lemma length_manifest_to_bytes:
  "wf_manifest m \<Longrightarrow> length (manifest_to_bytes X m) = 64 + 32 * length (m_chunks m)"
  by (simp add: manifest_to_bytes_def length_manifest_body)

lemma read_cids_concat:
  "list_all wf_cid cs \<Longrightarrow> read_cids (length cs) (concat (map cid_bytes cs) @ rest) = cs"
  by (induction cs) (simp_all add: wf_cid_def cid_from_raw_def slice_simps)

lemma manifest_fields:
  assumes "wf_manifest m"
  shows "rslice 0 4 (manifest_body m @ r) = MANIFEST_MAGIC"
    and "rslice 4 8 (manifest_body m @ r) = le32 MANIFEST_VERSION"
    and "rslice 8 16 (manifest_body m @ r) = le64 (m_total_size m)"
    and "rslice 16 48 (manifest_body m @ r) = m_content_hash m"
    and "rslice 48 56 (manifest_body m @ r) = le64 (m_created_at m)"
    and "rslice 56 60 (manifest_body m @ r) = le32 (word_of_nat (length (m_chunks m)))"
    and "drop 60 (manifest_body m) = concat (map cid_bytes (m_chunks m))"
  using assms by (simp_all add: manifest_body_def wf_manifest_def slice_simps)

lemma manifest_from_to_bytes:
  assumes "wf_manifest m"
  shows "manifest_from_bytes X (manifest_to_bytes X m) = Inr m"
proof -
  have n: "length (m_chunks m) < 4294967296" and cs: "list_all wf_cid (m_chunks m)"
    using assms by (auto simp: wf_manifest_def)
  show ?thesis
    unfolding manifest_from_bytes_def manifest_to_bytes_def MANIFEST_HEADER_SIZE_def Let_def
    using n read_cids_concat [OF cs]
    by (simp add: length_manifest_body [OF assms] manifest_fields [OF assms])
qed

lemma read_cids_wf: "32 * n \<le> length bs \<Longrightarrow> list_all wf_cid (read_cids n bs)"
  by (induction n arbitrary: bs) (simp_all add: wf_cid_def cid_from_raw_def)

lemma length_read_cids [simp]: "length (read_cids n bs) = n"
  by (induction n arbitrary: bs) simp_all

lemma manifest_from_bytes_wf: "manifest_from_bytes X bs = Inr m \<Longrightarrow> wf_manifest m"
  using unat_u32_less [of "from_le32 (rslice 56 60 bs)"]
  by (auto simp: manifest_from_bytes_def Let_def wf_manifest_def MANIFEST_HEADER_SIZE_def read_cids_wf
      split: if_splits)

section \<open>ManifestStore\<close>

text \<open>
  The directory is a map from file names to contents.  \<^verbatim>\<open>save\<close> writes a temporary file, syncs it and
  renames it over the final name, so the directory it leaves differs in that one entry.
\<close>

definition manifest_path :: "rstring \<Rightarrow> rstring" where
  "manifest_path mid = mid @ bytes_of ''.manifest''"

definition manifest_store_save ::
    "ext \<Rightarrow> (rstring \<rightharpoonup> bytes) \<Rightarrow> manifest \<Rightarrow> (rstring \<rightharpoonup> bytes) \<times> rstring" where
  "manifest_store_save X d m =
     (let mid = content_id m in (d(manifest_path mid \<mapsto> manifest_to_bytes X m), mid))"

definition manifest_store_load ::
    "ext \<Rightarrow> (rstring \<rightharpoonup> bytes) \<Rightarrow> rstring \<Rightarrow> manifest result" where
  "manifest_store_load X d mid =
     (case d (manifest_path mid) of
        None \<Rightarrow> Inl (ObjectNotFound mid)
      | Some bs \<Rightarrow> manifest_from_bytes X bs)"

lemma manifest_path_inject [simp]: "manifest_path a = manifest_path b \<longleftrightarrow> a = b"
  by (simp add: manifest_path_def)

lemma manifest_store_load_save:
  assumes "wf_manifest m" and "manifest_store_save X d m = (d', mid)"
  shows "manifest_store_load X d' mid = Inr m"
    and "mid' \<noteq> mid \<Longrightarrow> manifest_store_load X d' mid' = manifest_store_load X d mid'"
  using assms
  by (auto simp: manifest_store_save_def manifest_store_load_def Let_def manifest_from_to_bytes)

section \<open>Properties\<close>

text \<open>
  A manifest survives \<^verbatim>\<open>to_bytes\<close> and \<^verbatim>\<open>from_bytes\<close> exactly if its hash has 32 bytes, its chunk ids
  have 32 bytes each and there are fewer than \<open>2 ^ 32\<close> of them; whatever the checksum function is.
\<close>

theorem manifest_codec_iff: "manifest_from_bytes X (manifest_to_bytes X m) = Inr m \<longleftrightarrow> wf_manifest m"
  using manifest_from_to_bytes [of m X] manifest_from_bytes_wf [of X "manifest_to_bytes X m" m] by blast

end
