(* ===== verification/Oos_Snapshot.thy ===== *)
theory Oos_Snapshot
  imports Oos_Ids
begin

text \<open>
  \<^verbatim>\<open>core/src/snapshot/mod.rs\<close>: a snapshot names the version of every file that was current, and is
  stored as one checksummed record.  The three string lengths are written \<^verbatim>\<open>as u16\<close>, which
  truncates; the round trip therefore needs the strings to be shorter than 65536 bytes.
\<close>

definition SNAPSHOT_MAGIC :: bytes where "SNAPSHOT_MAGIC = [0x4F, 0x4F, 0x53, 0x53]"

record snapshot_entry =
  e_name :: rstring
  e_object_id :: object_id
  e_version :: u32
  e_manifest_id :: rstring
  e_size_bytes :: u64

record snapshot =
  s_label :: rstring
  s_created_at :: u64
  s_entries :: "snapshot_entry list"

definition snapshot_new :: "u64 \<Rightarrow> rstring \<Rightarrow> snapshot_entry list \<Rightarrow> snapshot" where
  "snapshot_new now label entries = \<lparr>s_label = label, s_created_at = now, s_entries = entries\<rparr>"

section \<open>Binary form\<close>

definition entry_to_bytes :: "snapshot_entry \<Rightarrow> bytes" where
  "entry_to_bytes e =
     le16 (word_of_nat (length (e_name e))) @ e_name e @ oid_bytes (e_object_id e)
     @ le32 (e_version e) @ le16 (word_of_nat (length (e_manifest_id e))) @ e_manifest_id e
     @ le64 (e_size_bytes e)"

definition snapshot_body :: "snapshot \<Rightarrow> bytes" where
  "snapshot_body s =
     SNAPSHOT_MAGIC @ le64 (s_created_at s) @ le16 (word_of_nat (length (s_label s))) @ s_label s
     @ le32 (word_of_nat (length (s_entries s))) @ concat (map entry_to_bytes (s_entries s))"

definition snapshot_to_bytes :: "ext \<Rightarrow> snapshot \<Rightarrow> bytes" where
  "snapshot_to_bytes X s = snapshot_body s @ le32 (crc32 X (snapshot_body s))"

text \<open>A string preceded by its \<^verbatim>\<open>u16\<close> length.\<close>

definition read_str16 :: "string \<Rightarrow> bytes \<Rightarrow> (rstring \<times> bytes) result" where
  "read_str16 msg r0 =
     bindE (cread 2 r0) (\<lambda>(lb, r1).
     bindE (cread (unat (from_le16 lb)) r1) (\<lambda>(sb, r2).
     bindE (ok_or (from_utf8 sb) (Internal msg)) (\<lambda>s. Inr (s, r2))))"

definition read_entry :: "bytes \<Rightarrow> (snapshot_entry \<times> bytes) result" where
  "read_entry r0 =
     bindE (read_str16 ''Invalid UTF-8 file name'' r0) (\<lambda>(name, r1).
     bindE (cread 16 r1) (\<lambda>(ob, r2).
     bindE (cread 4 r2) (\<lambda>(vb, r3).
     bindE (read_str16 ''Invalid UTF-8 manifest ID'' r3) (\<lambda>(mid, r4).
     bindE (cread 8 r4) (\<lambda>(sb, r5).
     Inr (\<lparr>e_name = name, e_object_id = oid_from_raw ob, e_version = from_le32 vb,
            e_manifest_id = mid, e_size_bytes = from_le64 sb\<rparr>, r5))))))"

fun read_entries :: "nat \<Rightarrow> bytes \<Rightarrow> snapshot_entry list result" where
  "read_entries 0 r = Inr []"
| "read_entries (Suc n) r =
     bindE (read_entry r) (\<lambda>(e, r'). bindE (read_entries n r') (\<lambda>es. Inr (e # es)))"

definition snapshot_from_bytes :: "ext \<Rightarrow> bytes \<Rightarrow> snapshot result" where
  "snapshot_from_bytes X bs =
     (if length bs < 22 then Inl (Internal ''Snapshot bytes too small'')
      else
        let data_len = length bs - 4;
            stored_crc = from_le32 (drop data_len bs);
            actual_crc = crc32 X (take data_len bs)
        in if stored_crc \<noteq> actual_crc
           then Inl (ChecksumMismatch (bytes_of ''snapshot'') stored_crc actual_crc)
           else if rslice 0 4 bs \<noteq> SNAPSHOT_MAGIC then Inl (Internal ''Invalid snapshot magic'')
           else
             bindE (read_str16 ''Invalid UTF-8 snapshot label'' (rslice 12 data_len bs)) (\<lambda>(label, r1).
             bindE (cread 4 r1) (\<lambda>(nb, r2).
             bindE (read_entries (unat (from_le32 nb)) r2) (\<lambda>es.
             Inr \<lparr>s_label = label, s_created_at = from_le64 (rslice 4 12 bs), s_entries = es\<rparr>))))"

section \<open>Round trip\<close>

definition wf_str16 :: "rstring \<Rightarrow> bool" where
  "wf_str16 s \<longleftrightarrow> length s < 65536 \<and> utf8_valid s"

definition wf_entry :: "snapshot_entry \<Rightarrow> bool" where
  "wf_entry e \<longleftrightarrow> wf_str16 (e_name e) \<and> wf_oid (e_object_id e) \<and> wf_str16 (e_manifest_id e)"

definition wf_snapshot :: "snapshot \<Rightarrow> bool" where
  "wf_snapshot s \<longleftrightarrow> wf_str16 (s_label s) \<and> length (s_entries s) < 4294967296
     \<and> list_all wf_entry (s_entries s)"

lemma read_str16_write:
  "wf_str16 s \<Longrightarrow> read_str16 msg (le16 (word_of_nat (length s)) @ s @ r) = Inr (s, r)"
  by (simp add: read_str16_def wf_str16_def from_utf8_def)

lemma read_entry_write: "wf_entry e \<Longrightarrow> read_entry (entry_to_bytes e @ r) = Inr (e, r)"
  by (cases e) (simp add: read_entry_def entry_to_bytes_def wf_entry_def wf_oid_def read_str16_write
      oid_from_raw_def)

lemma read_entries_write:
  "list_all wf_entry es \<Longrightarrow> read_entries (length es) (concat (map entry_to_bytes es) @ r) = Inr es"
  by (induction es) (simp_all add: read_entry_write)

lemma length_SNAPSHOT_MAGIC [simp, len_simps]: "length SNAPSHOT_MAGIC = 4"
  by (simp add: SNAPSHOT_MAGIC_def)

lemma snapshot_fields:
  assumes "wf_snapshot s"
  shows "rslice 0 4 (snapshot_body s @ r) = SNAPSHOT_MAGIC"
    and "rslice 4 12 (snapshot_body s @ r) = le64 (s_created_at s)"
    and "drop 12 (snapshot_body s)
       = le16 (word_of_nat (length (s_label s))) @ s_label s
         @ le32 (word_of_nat (length (s_entries s))) @ concat (map entry_to_bytes (s_entries s))"
  using assms by (simp_all add: snapshot_body_def wf_snapshot_def slice_simps)

lemma snapshot_from_to_bytes:
  assumes "wf_snapshot s"
  shows "snapshot_from_bytes X (snapshot_to_bytes X s) = Inr s"
proof -
  have wf: "wf_str16 (s_label s)" "length (s_entries s) < 4294967296" "list_all wf_entry (s_entries s)"
    using assms by (auto simp: wf_snapshot_def)
  have len: "18 \<le> length (snapshot_body s)"
    by (simp add: snapshot_body_def)
  show ?thesis
    unfolding snapshot_from_bytes_def snapshot_to_bytes_def Let_def
    using wf len read_entries_write [OF wf(3), of "[]"]
    by (simp add: snapshot_fields [OF assms] slice_rest read_str16_write)
qed

text \<open>Whatever the bytes, a snapshot that is read back satisfies the length bounds.\<close>

lemma read_str16_wf: "read_str16 msg r = Inr (s, r') \<Longrightarrow> wf_str16 s"
  by (auto simp: read_str16_def bindE_eq_Inr cread_Inr wf_str16_def from_utf8_def min_def
      intro: le_less_trans [OF _ unat_u16_less] split: if_splits)

lemma read_entry_wf: "read_entry r = Inr (e, r') \<Longrightarrow> wf_entry e"
  by (auto simp: read_entry_def bindE_eq_Inr wf_entry_def wf_oid_def oid_from_raw_def cread_Inr
      dest!: read_str16_wf)

lemma read_entries_wf:
  "read_entries n r = Inr es \<Longrightarrow> length es = n \<and> list_all wf_entry es"
  by (induction n arbitrary: r es) (fastforce simp: bindE_eq_Inr dest: read_entry_wf)+

lemma snapshot_from_bytes_wf: "snapshot_from_bytes X bs = Inr s \<Longrightarrow> wf_snapshot s"
  by (auto simp: snapshot_from_bytes_def Let_def bindE_eq_Inr wf_snapshot_def unat_u32_less
      dest!: read_str16_wf read_entries_wf split: if_splits)

section \<open>Properties\<close>

text \<open>
  C37. A snapshot survives \<^verbatim>\<open>to_bytes\<close> and \<^verbatim>\<open>from_bytes\<close> exactly if its label, its names and its manifest
  ids are UTF-8 strings of fewer than \<open>2 ^ 16\<close> bytes, its ids have sixteen bytes and it has fewer than
  \<open>2 ^ 32\<close> entries: the lengths are written as truncated integers, so a longer label or name, which no
  caller rejects, does not come back.
\<close>

theorem snapshot_codec_iff: "snapshot_from_bytes X (snapshot_to_bytes X s) = Inr s \<longleftrightarrow> wf_snapshot s"
  using snapshot_from_to_bytes [of s X] snapshot_from_bytes_wf [of X "snapshot_to_bytes X s" s] by blast

end
