(* ===== verification/Oos_Metadata.thy ===== *)
theory Oos_Metadata
  imports Oos_Redb Oos_Object Oos_Manifest Oos_Snapshot
begin

text \<open>
  \<^verbatim>\<open>core/src/index/mod.rs\<close>: the metadata tables.  Every definition takes the database calls \<open>R\<close> as its
  first argument.  The locale \<open>record_codec\<close> states what the typed tables rely on, a decoder that
  inverts its encoder, and is interpreted for object records, manifests and snapshots.
\<close>

definition MIGRATION_MARKER :: bytes where "MIGRATION_MARKER = bytes_of ''__oos_lite_metadata_backend''"
definition MIGRATION_VERSION :: bytes where "MIGRATION_VERSION = bytes_of ''redb-v1''"

text \<open>\<^verbatim>\<open>map_err(redb_error)\<close>\<close>

definition redbE :: "string + 'a \<Rightarrow> 'a result" where
  "redbE m = map_err Redb m"

lemma redbE_Inr [simp]: "redbE m = Inr x \<longleftrightarrow> m = Inr x"
  by (simp add: redbE_def)

section \<open>Opening\<close>

definition validate_database :: "'db redb \<Rightarrow> 'db \<Rightarrow> unit result" where
  "validate_database R db =
     bindE (foldE (\<lambda>_ t. redbE (rd_open_table R db t)) ()
              [NAME_INDEX, OBJECT_INDEX, MANIFESTS, SNAPSHOTS, WATCHER_FILES, WATCHER_CONFIG]) (\<lambda>_.
     bindE (redbE (rd_get R db WATCHER_CONFIG MIGRATION_MARKER)) (\<lambda>v.
     case v of
       Some b \<Rightarrow> if b = MIGRATION_VERSION then Inr () else Inl (Internal ''Unsupported metadata backend version'')
     | None \<Rightarrow> Inl (Internal ''Metadata database has no migration marker; refusing to overwrite it'')))"

text \<open>The trees of a legacy database are given by the entries their iterators yield.\<close>

definition copy_legacy_tree :: "'db redb \<Rightarrow> db_table \<Rightarrow> 'db \<Rightarrow> (bytes \<times> bytes) list \<Rightarrow> 'db result" where
  "copy_legacy_tree R t tx items = foldE (\<lambda>tx (k, v). redbE (rd_insert R tx t k v)) tx items"

definition initialize_database ::
    "'db redb \<Rightarrow> 'db \<Rightarrow> (db_table \<Rightarrow> (bytes \<times> bytes) list) option \<Rightarrow> 'db result" where
  "initialize_database R db legacy =
     bindE (redbE (rd_begin_write R db)) (\<lambda>tx.
     bindE (case legacy of
              None \<Rightarrow> Inr tx
            | Some L \<Rightarrow> foldE (\<lambda>tx t. copy_legacy_tree R t tx (L t)) tx
                [NAME_INDEX, OBJECT_INDEX, MANIFESTS, SNAPSHOTS, WATCHER_FILES, WATCHER_CONFIG]) (\<lambda>tx.
     bindE (redbE (rd_insert R tx WATCHER_CONFIG MIGRATION_MARKER MIGRATION_VERSION)) (\<lambda>tx.
     redbE (rd_commit R tx))))"

section \<open>Single values\<close>

definition read_value :: "'db redb \<Rightarrow> 'db \<Rightarrow> db_table \<Rightarrow> bytes \<Rightarrow> bytes option result" where
  "read_value R db t k = redbE (rd_get R db t k)"

definition write_value :: "'db redb \<Rightarrow> 'db \<Rightarrow> db_table \<Rightarrow> bytes \<Rightarrow> bytes \<Rightarrow> 'db result" where
  "write_value R db t k v =
     bindE (redbE (rd_begin_write R db)) (\<lambda>tx.
     bindE (redbE (rd_insert R tx t k v)) (\<lambda>tx. redbE (rd_commit R tx)))"

definition remove_value :: "'db redb \<Rightarrow> 'db \<Rightarrow> db_table \<Rightarrow> bytes \<Rightarrow> ('db \<times> bytes option) result" where
  "remove_value R db t k =
     bindE (redbE (rd_begin_write R db)) (\<lambda>tx.
     bindE (redbE (rd_remove R tx t k)) (\<lambda>(tx, p).
     bindE (redbE (rd_commit R tx)) (\<lambda>db'. Inr (db', p))))"

section \<open>Names\<close>

definition oid_of_value :: "bytes \<Rightarrow> object_id option" where
  "oid_of_value v = (if length v = 16 then Some (oid_from_raw v) else None)"

definition resolve_name :: "'db redb \<Rightarrow> 'db \<Rightarrow> rstring \<Rightarrow> object_id option result" where
  "resolve_name R db name =
     bindE (read_value R db NAME_INDEX name) (\<lambda>v. Inr (Option.bind v oid_of_value))"

definition bind_name :: "'db redb \<Rightarrow> 'db \<Rightarrow> rstring \<Rightarrow> object_id \<Rightarrow> 'db result" where
  "bind_name R db name i = write_value R db NAME_INDEX name (oid_bytes i)"

definition unbind_name :: "'db redb \<Rightarrow> 'db \<Rightarrow> rstring \<Rightarrow> ('db \<times> object_id option) result" where
  "unbind_name R db name =
     bindE (remove_value R db NAME_INDEX name) (\<lambda>(db', v). Inr (db', Option.bind v oid_of_value))"

definition rename_name_binding :: "'db redb \<Rightarrow> 'db \<Rightarrow> rstring \<Rightarrow> rstring \<Rightarrow> ('db \<times> bool) result" where
  "rename_name_binding R db old_name new_name =
     bindE (redbE (rd_begin_write R db)) (\<lambda>tx.
     bindE (redbE (rd_remove R tx NAME_INDEX old_name)) (\<lambda>(tx, p).
     bindE (case p of
              None \<Rightarrow> Inr (tx, False)
            | Some b \<Rightarrow> bindE (redbE (rd_insert R tx NAME_INDEX new_name b)) (\<lambda>tx. Inr (tx, True))) (\<lambda>(tx, moved).
     bindE (redbE (rd_commit R tx)) (\<lambda>db'. Inr (db', moved)))))"

definition delete_named_object :: "'db redb \<Rightarrow> 'db \<Rightarrow> rstring \<Rightarrow> ('db \<times> object_id option) result" where
  "delete_named_object R db name =
     bindE (redbE (rd_begin_write R db)) (\<lambda>tx.
     bindE (redbE (rd_remove R tx NAME_INDEX name)) (\<lambda>(tx, p).
     bindE (case p of
              None \<Rightarrow> Inr (tx, None)
            | Some b \<Rightarrow>
                if length b = 16
                then bindE (redbE (rd_remove R tx OBJECT_INDEX b)) (\<lambda>(tx, _). Inr (tx, Some (oid_from_raw b)))
                else Inr (tx, None)) (\<lambda>(tx, removed).
     bindE (redbE (rd_commit R tx)) (\<lambda>db'. Inr (db', removed)))))"

section \<open>Objects and manifests\<close>

definition delete_object :: "'db redb \<Rightarrow> 'db \<Rightarrow> object_id \<Rightarrow> 'db result" where
  "delete_object R db i = bindE (remove_value R db OBJECT_INDEX (oid_bytes i)) (\<lambda>(db', _). Inr db')"

definition delete_manifest :: "'db redb \<Rightarrow> 'db \<Rightarrow> rstring \<Rightarrow> 'db result" where
  "delete_manifest R db mid = bindE (remove_value R db MANIFESTS mid) (\<lambda>(db', _). Inr db')"

definition list_all_manifest_ids :: "'db redb \<Rightarrow> 'db \<Rightarrow> rstring list result" where
  "list_all_manifest_ids R db =
     bindE (redbE (rd_iter R db MANIFESTS)) (\<lambda>items. Inr (map (\<lambda>(k, _). from_utf8_lossy k) items))"

definition delete_snapshot :: "'db redb \<Rightarrow> 'db \<Rightarrow> rstring \<Rightarrow> ('db \<times> bool) result" where
  "delete_snapshot R db label =
     bindE (remove_value R db SNAPSHOTS label) (\<lambda>(db', p). Inr (db', p \<noteq> None))"

text \<open>A stored value decoded, or \<open>None\<close> when there is none.\<close>

definition decode_value :: "(bytes \<Rightarrow> 'a result) \<Rightarrow> bytes option \<Rightarrow> 'a option result" where
  "decode_value dec v = (case v of None \<Rightarrow> Inr None | Some b \<Rightarrow> bindE (dec b) (\<lambda>x. Inr (Some x)))"

definition get_object :: "'db redb \<Rightarrow> 'db \<Rightarrow> object_id \<Rightarrow> object_record option result" where
  "get_object R db i = bindE (read_value R db OBJECT_INDEX (oid_bytes i)) (decode_value rec_from_bytes)"

text \<open>\<^verbatim>\<open>visit_objects\<close> with the visitor's captured state threaded through.\<close>

definition visit_objects ::
    "'db redb \<Rightarrow> 'db \<Rightarrow> ('s \<Rightarrow> object_record \<Rightarrow> 's result) \<Rightarrow> 's \<Rightarrow> 's result" where
  "visit_objects R db visitor s =
     bindE (redbE (rd_iter R db OBJECT_INDEX)) (\<lambda>items.
     foldE (\<lambda>s (_, v). bindE (rec_from_bytes v) (visitor s)) s items)"

definition put_object :: "'db redb \<Rightarrow> 'db \<Rightarrow> object_record \<Rightarrow> 'db result" where
  "put_object R db r = write_value R db OBJECT_INDEX (oid_bytes (o_object_id r)) (rec_to_bytes r)"

definition save_manifest :: "ext \<Rightarrow> 'db redb \<Rightarrow> 'db \<Rightarrow> manifest \<Rightarrow> ('db \<times> rstring) result" where
  "save_manifest X R db m =
     (let mid = content_id m
      in bindE (write_value R db MANIFESTS mid (manifest_to_bytes X m)) (\<lambda>db'. Inr (db', mid)))"

definition get_manifest :: "ext \<Rightarrow> 'db redb \<Rightarrow> 'db \<Rightarrow> rstring \<Rightarrow> manifest option result" where
  "get_manifest X R db mid = bindE (read_value R db MANIFESTS mid) (decode_value (manifest_from_bytes X))"

definition list_named_objects ::
    "'db redb \<Rightarrow> 'db \<Rightarrow> (rstring \<times> object_id \<times> object_record) list result" where
  "list_named_objects R db =
     bindE (redbE (rd_iter R db NAME_INDEX)) (\<lambda>items.
     let entries = [(from_utf8_lossy k, oid_from_raw v). (k, v) \<leftarrow> items, length v = 16]
     in foldE (\<lambda>acc (name, i). bindE (get_object R db i) (\<lambda>r.
                case r of None \<Rightarrow> Inr acc | Some rc \<Rightarrow> Inr (acc @ [(name, i, rc)]))) [] entries)"

section \<open>The watcher's tables\<close>

definition watcher_file_prefix :: "rstring \<Rightarrow> bytes" where
  "watcher_file_prefix watch_root = watch_root @ [0]"

definition watcher_file_key :: "rstring \<Rightarrow> rstring \<Rightarrow> bytes" where
  "watcher_file_key watch_root logical_name = watcher_file_prefix watch_root @ logical_name"

definition mark_watcher_file :: "'db redb \<Rightarrow> 'db \<Rightarrow> rstring \<Rightarrow> rstring \<Rightarrow> 'db result" where
  "mark_watcher_file R db root name = write_value R db WATCHER_FILES (watcher_file_key root name) []"

definition unmark_watcher_file :: "'db redb \<Rightarrow> 'db \<Rightarrow> rstring \<Rightarrow> rstring \<Rightarrow> 'db result" where
  "unmark_watcher_file R db root name =
     bindE (remove_value R db WATCHER_FILES (watcher_file_key root name)) (\<lambda>(db', _). Inr db')"

definition list_watcher_files :: "'db redb \<Rightarrow> 'db \<Rightarrow> rstring \<Rightarrow> rstring list result" where
  "list_watcher_files R db root =
     (let pre = watcher_file_prefix root
      in bindE (redbE (rd_range R db WATCHER_FILES pre)) (\<lambda>items.
         Inr (map (\<lambda>(k, _). from_utf8_lossy (drop (length pre) k))
                (takeWhile (\<lambda>(k, _). starts_with k pre) items))))"

text \<open>The two loops of \<^verbatim>\<open>update_watcher_bindings\<close>, in one transaction.\<close>

fun unbind_changes ::
    "'db redb \<Rightarrow> rstring \<Rightarrow> (rstring \<times> rstring option) list \<Rightarrow> 'db \<Rightarrow> ('db \<times> (rstring option \<times> bytes) list) result" where
  "unbind_changes R root [] tx = Inr (tx, [])"
| "unbind_changes R root ((old, new) # cs) tx =
     bindE (redbE (rd_remove R tx NAME_INDEX old)) (\<lambda>(tx, i).
     bindE (redbE (rd_remove R tx WATCHER_FILES (watcher_file_key root old))) (\<lambda>(tx, _).
     bindE (unbind_changes R root cs tx) (\<lambda>(tx, moved).
     Inr (tx, (case i of None \<Rightarrow> moved | Some b \<Rightarrow> (new, b) # moved)))))"

definition bind_moved :: "'db redb \<Rightarrow> rstring \<Rightarrow> 'db \<Rightarrow> rstring option \<times> bytes \<Rightarrow> 'db result" where
  "bind_moved R root tx m =
     (case m of
        (None, _) \<Rightarrow> Inr tx
      | (Some new, b) \<Rightarrow>
          bindE (redbE (rd_insert R tx NAME_INDEX new b)) (\<lambda>tx.
          redbE (rd_insert R tx WATCHER_FILES (watcher_file_key root new) [])))"

definition update_watcher_bindings ::
    "'db redb \<Rightarrow> 'db \<Rightarrow> rstring \<Rightarrow> (rstring \<times> rstring option) list \<Rightarrow> ('db \<times> nat) result" where
  "update_watcher_bindings R db root changes =
     bindE (redbE (rd_begin_write R db)) (\<lambda>tx.
     bindE (unbind_changes R root changes tx) (\<lambda>(tx, moved).
     bindE (foldE (bind_moved R root) tx moved) (\<lambda>tx.
     bindE (redbE (rd_commit R tx)) (\<lambda>db'. Inr (db', length moved)))))"

definition save_watcher_config :: "'db redb \<Rightarrow> 'db \<Rightarrow> rstring \<Rightarrow> u64 \<Rightarrow> u64 \<Rightarrow> u64 \<Rightarrow> 'db result" where
  "save_watcher_config R db watch_dir debounce_secs cooldown_secs throttle_ms =
     bindE (redbE (rd_begin_write R db)) (\<lambda>tx.
     bindE (foldE (\<lambda>tx (k, v). redbE (rd_insert R tx WATCHER_CONFIG k v)) tx
              [(bytes_of ''watch_dir'', watch_dir), (bytes_of ''debounce_secs'', le64 debounce_secs),
               (bytes_of ''cooldown_secs'', le64 cooldown_secs), (bytes_of ''throttle_ms'', le64 throttle_ms)])
       (\<lambda>tx. redbE (rd_commit R tx)))"

definition read_config_u64 :: "'db redb \<Rightarrow> 'db \<Rightarrow> bytes \<Rightarrow> u64 \<Rightarrow> u64 result" where
  "read_config_u64 R db k dflt =
     bindE (read_value R db WATCHER_CONFIG k) (\<lambda>v.
     Inr (case v of None \<Rightarrow> dflt | Some b \<Rightarrow> if length b \<noteq> 8 then dflt else from_le64 b))"

definition load_watcher_config :: "'db redb \<Rightarrow> 'db \<Rightarrow> (rstring \<times> u64 \<times> u64 \<times> u64) option result" where
  "load_watcher_config R db =
     bindE (read_value R db WATCHER_CONFIG (bytes_of ''watch_dir'')) (\<lambda>d.
     case d of
       None \<Rightarrow> Inr None
     | Some dir \<Rightarrow>
         bindE (read_config_u64 R db (bytes_of ''debounce_secs'') 3) (\<lambda>de.
         bindE (read_config_u64 R db (bytes_of ''cooldown_secs'') 60) (\<lambda>co.
         bindE (read_config_u64 R db (bytes_of ''throttle_ms'') 10) (\<lambda>th.
         Inr (Some (from_utf8_lossy dir, de, co, th))))))"

section \<open>Snapshots\<close>

definition save_snapshot :: "ext \<Rightarrow> 'db redb \<Rightarrow> 'db \<Rightarrow> snapshot \<Rightarrow> 'db result" where
  "save_snapshot X R db s = write_value R db SNAPSHOTS (s_label s) (snapshot_to_bytes X s)"

definition get_snapshot :: "ext \<Rightarrow> 'db redb \<Rightarrow> 'db \<Rightarrow> rstring \<Rightarrow> snapshot option result" where
  "get_snapshot X R db label = bindE (read_value R db SNAPSHOTS label) (decode_value (snapshot_from_bytes X))"

fun decode_all :: "(bytes \<Rightarrow> 'a result) \<Rightarrow> (bytes \<times> bytes) list \<Rightarrow> 'a list result" where
  "decode_all dec [] = Inr []"
| "decode_all dec ((k, v) # kvs) = bindE (dec v) (\<lambda>x. bindE (decode_all dec kvs) (\<lambda>xs. Inr (x # xs)))"

definition list_snapshots :: "ext \<Rightarrow> 'db redb \<Rightarrow> 'db \<Rightarrow> snapshot list result" where
  "list_snapshots X R db =
     bindE (redbE (rd_iter R db SNAPSHOTS)) (\<lambda>items.
     bindE (decode_all (snapshot_from_bytes X) items) (\<lambda>ss. Inr (sort_key s_created_at ss)))"

definition table_len :: "'db redb \<Rightarrow> 'db \<Rightarrow> db_table \<Rightarrow> nat" where
  "table_len R db t =
     (case rd_len R db t of Inl _ \<Rightarrow> 0 | Inr n \<Rightarrow> if n < 2 ^ 64 then n else 0)"

definition count_snapshots :: "'db redb \<Rightarrow> 'db \<Rightarrow> nat" where
  "count_snapshots R db = table_len R db SNAPSHOTS"

definition count_manifests :: "'db redb \<Rightarrow> 'db \<Rightarrow> nat" where
  "count_manifests R db = table_len R db MANIFESTS"

section \<open>What the operations do to the tables\<close>

lemma read_value_view: "redb_ok R V \<Longrightarrow> read_value R db t k = Inr r \<Longrightarrow> r = V db t k"
  by (simp add: read_value_def redb_okD(1))

lemma write_value_view:
  assumes R: "redb_ok R V"
  shows "write_value R db t k v = Inr db' \<Longrightarrow> V db' = set_entry (V db) t k (Some v)"
  by (auto simp: write_value_def bindE_eq_Inr dest!: redb_okD(5,6,8) [OF R])

lemma remove_value_view:
  assumes R: "redb_ok R V"
  shows "remove_value R db t k = Inr (db', p) \<Longrightarrow> p = V db t k \<and> V db' = set_entry (V db) t k None"
  by (auto simp: remove_value_def bindE_eq_Inr dest!: redb_okD(5,7,8) [OF R])

lemma set_entry_id [simp]: "set_entry T t k (T t k) = T"
  by (auto simp: set_entry_def)

lemma set_entry_None: "T t k = None \<Longrightarrow> set_entry T t k None = T"
  by (metis set_entry_id)

lemma bind_name_view: "redb_ok R V \<Longrightarrow> bind_name R db n i = Inr db' \<Longrightarrow> V db' = set_entry (V db) NAME_INDEX n (Some (oid_bytes i))"
  by (simp add: bind_name_def write_value_view)

lemma unbind_name_view:
  "redb_ok R V \<Longrightarrow> unbind_name R db n = Inr (db', r)
   \<Longrightarrow> V db' = set_entry (V db) NAME_INDEX n None \<and> r = Option.bind (V db NAME_INDEX n) oid_of_value"
  by (auto simp: unbind_name_def bindE_eq_Inr dest!: remove_value_view)

lemma resolve_name_view:
  "redb_ok R V \<Longrightarrow> resolve_name R db n = Inr r \<Longrightarrow> r = Option.bind (V db NAME_INDEX n) oid_of_value"
  by (auto simp: resolve_name_def bindE_eq_Inr dest!: read_value_view)

lemma rename_name_binding_view:
  assumes "redb_ok R V" "rename_name_binding R db a b = Inr (db', moved)"
  shows "moved \<longleftrightarrow> V db NAME_INDEX a \<noteq> None"
    and "V db' = (if moved then set_entry (set_entry (V db) NAME_INDEX a None) NAME_INDEX b (V db NAME_INDEX a) else V db)"
proof -
  obtain tx tx1 p where tx: "V tx = V db" "p = V db NAME_INDEX a" "V tx1 = set_entry (V db) NAME_INDEX a None"
    and rest: "bindE (case p of
              None \<Rightarrow> Inr (tx1, False)
            | Some v \<Rightarrow> bindE (redbE (rd_insert R tx1 NAME_INDEX b v)) (\<lambda>tx. Inr (tx, True))) (\<lambda>(tx, moved).
       bindE (redbE (rd_commit R tx)) (\<lambda>db'. Inr (db', moved))) = Inr (db', moved)"
    using assms redb_okD(5,7) [OF assms(1)] by (fastforce simp: rename_name_binding_def bindE_eq_Inr)
  show "moved \<longleftrightarrow> V db NAME_INDEX a \<noteq> None"
    and "V db' = (if moved then set_entry (set_entry (V db) NAME_INDEX a None) NAME_INDEX b (V db NAME_INDEX a) else V db)"
    using rest tx redb_okD(6,8) [OF assms(1)] set_entry_None [of "V db" NAME_INDEX a]
    by (auto simp: bindE_eq_Inr split: option.splits)
qed

lemma put_object_view:
  "redb_ok R V \<Longrightarrow> put_object R db r = Inr db'
   \<Longrightarrow> V db' = set_entry (V db) OBJECT_INDEX (oid_bytes (o_object_id r)) (Some (rec_to_bytes r))"
  by (simp add: put_object_def write_value_view)

lemma save_manifest_view:
  "redb_ok R V \<Longrightarrow> save_manifest X R db m = Inr (db', mid)
   \<Longrightarrow> mid = content_id m \<and> V db' = set_entry (V db) MANIFESTS mid (Some (manifest_to_bytes X m))"
  by (auto simp: save_manifest_def Let_def bindE_eq_Inr dest: write_value_view)

lemma save_snapshot_view:
  "redb_ok R V \<Longrightarrow> save_snapshot X R db s = Inr db'
   \<Longrightarrow> V db' = set_entry (V db) SNAPSHOTS (s_label s) (Some (snapshot_to_bytes X s))"
  by (simp add: save_snapshot_def write_value_view)

lemma delete_object_view:
  "redb_ok R V \<Longrightarrow> delete_object R db i = Inr db' \<Longrightarrow> V db' = set_entry (V db) OBJECT_INDEX (oid_bytes i) None"
  by (auto simp: delete_object_def bindE_eq_Inr dest!: remove_value_view)

lemma delete_manifest_view:
  "redb_ok R V \<Longrightarrow> delete_manifest R db m = Inr db' \<Longrightarrow> V db' = set_entry (V db) MANIFESTS m None"
  by (auto simp: delete_manifest_def bindE_eq_Inr dest!: remove_value_view)

lemma delete_snapshot_view:
  assumes R: "redb_ok R V" and d: "delete_snapshot R db l = Inr (db', b)"
  shows "V db' = set_entry (V db) SNAPSHOTS l None" "b \<longleftrightarrow> V db SNAPSHOTS l \<noteq> None"
proof -
  obtain p where p: "remove_value R db SNAPSHOTS l = Inr (db', p)" "b \<longleftrightarrow> p \<noteq> None"
    using d by (auto simp: delete_snapshot_def bindE_eq_Inr)
  from remove_value_view [OF R p(1)] p(2)
  show "V db' = set_entry (V db) SNAPSHOTS l None" "b \<longleftrightarrow> V db SNAPSHOTS l \<noteq> None" by auto
qed

lemma get_object_view:
  "redb_ok R V \<Longrightarrow> get_object R db i = Inr r \<Longrightarrow> decode_value rec_from_bytes (V db OBJECT_INDEX (oid_bytes i)) = Inr r"
  by (auto simp: get_object_def bindE_eq_Inr dest!: read_value_view)

lemma get_manifest_view:
  "redb_ok R V \<Longrightarrow> get_manifest X R db m = Inr r \<Longrightarrow> decode_value (manifest_from_bytes X) (V db MANIFESTS m) = Inr r"
  by (auto simp: get_manifest_def bindE_eq_Inr dest!: read_value_view)

lemma get_snapshot_view:
  "redb_ok R V \<Longrightarrow> get_snapshot X R db l = Inr r \<Longrightarrow> decode_value (snapshot_from_bytes X) (V db SNAPSHOTS l) = Inr r"
  by (auto simp: get_snapshot_def bindE_eq_Inr dest!: read_value_view)

lemma delete_named_object_view:
  assumes R: "redb_ok R V" and d: "delete_named_object R db n = Inr (db', r)"
  shows "r = Option.bind (V db NAME_INDEX n) oid_of_value"
    and "V db' = (case r of None \<Rightarrow> set_entry (V db) NAME_INDEX n None
       | Some i \<Rightarrow> set_entry (set_entry (V db) NAME_INDEX n None) OBJECT_INDEX (oid_bytes i) None)"
proof -
  obtain tx1 where tx: "V tx1 = set_entry (V db) NAME_INDEX n None"
    and rest: "bindE (case V db NAME_INDEX n of
              None \<Rightarrow> Inr (tx1, None)
            | Some b \<Rightarrow>
                if length b = 16
                then bindE (redbE (rd_remove R tx1 OBJECT_INDEX b)) (\<lambda>(tx, _). Inr (tx, Some (oid_from_raw b)))
                else Inr (tx1, None)) (\<lambda>(tx, removed).
       bindE (redbE (rd_commit R tx)) (\<lambda>db'. Inr (db', removed))) = Inr (db', r)"
    using d redb_okD(5,7) [OF R] by (fastforce simp: delete_named_object_def bindE_eq_Inr)
  then show "r = Option.bind (V db NAME_INDEX n) oid_of_value"
    and "V db' = (case r of None \<Rightarrow> set_entry (V db) NAME_INDEX n None
       | Some i \<Rightarrow> set_entry (set_entry (V db) NAME_INDEX n None) OBJECT_INDEX (oid_bytes i) None)"
    using redb_okD(7,8) [OF R]
    by (auto simp: bindE_eq_Inr oid_of_value_def oid_from_raw_def split: option.splits if_splits)
qed

section \<open>Typed tables\<close>

locale record_codec =
  fixes enc :: "'a \<Rightarrow> bytes"
    and dec :: "bytes \<Rightarrow> 'a result"
    and wf :: "'a \<Rightarrow> bool"
  assumes dec_enc: "wf x \<Longrightarrow> dec (enc x) = Inr x"
    and dec_wf: "dec b = Inr x \<Longrightarrow> wf x"
begin

lemma decode_stored: "v = Some (enc x) \<Longrightarrow> wf x \<Longrightarrow> decode_value dec v = Inr (Some x)"
  by (simp add: decode_value_def dec_enc)

text \<open>A value written is read back; other keys and tables are not affected.\<close>

lemma read_written:
  assumes "redb_ok R V" "write_value R db t k (enc x) = Inr db'" "wf x"
    and r: "bindE (read_value R db' t' k') (decode_value dec) = Inr r"
  shows "t' = t \<and> k' = k \<Longrightarrow> r = Some x" "\<not> (t' = t \<and> k' = k) \<Longrightarrow> decode_value dec (V db t' k') = Inr r"
proof -
  have "decode_value dec (V db' t' k') = Inr r"
    using r read_value_view [OF assms(1)] by (auto simp: bindE_eq_Inr)
  then have "decode_value dec (if t' = t \<and> k' = k then Some (enc x) else V db t' k') = Inr r"
    by (simp add: write_value_view [OF assms(1,2)] set_entry_apply)
  then show "t' = t \<and> k' = k \<Longrightarrow> r = Some x" "\<not> (t' = t \<and> k' = k) \<Longrightarrow> decode_value dec (V db t' k') = Inr r"
    using decode_stored [OF refl assms(3)] by auto
qed

lemma decoded_wf: "decode_value dec v = Inr (Some x) \<Longrightarrow> wf x"
  by (auto simp: decode_value_def bindE_eq_Inr intro: dec_wf split: option.splits)

text \<open>Records that cannot be produced by decoding are exactly the ill-formed ones.\<close>

lemma not_wf_lost: "\<not> wf x \<Longrightarrow> dec b \<noteq> Inr x"
  using dec_wf by blast

lemma decode_all_mem:
  "decode_all dec kvs = Inr xs \<Longrightarrow> (k, v) \<in> set kvs \<Longrightarrow> \<exists>x \<in> set xs. dec v = Inr x"
  by (induction kvs arbitrary: xs) (auto simp: bindE_eq_Inr)

lemma decode_all_set:
  "decode_all dec kvs = Inr xs \<Longrightarrow> x \<in> set xs \<longleftrightarrow> (\<exists>(k, v) \<in> set kvs. dec v = Inr x)"
  by (induction kvs arbitrary: xs) (fastforce simp: bindE_eq_Inr)+

end

interpretation objects: record_codec rec_to_bytes rec_from_bytes wf_record
  by unfold_locales (rule rec_from_to_bytes, assumption, rule rec_from_bytes_wf)

interpretation manifests: record_codec "manifest_to_bytes X" "manifest_from_bytes X" wf_manifest
  by unfold_locales (rule manifest_from_to_bytes, assumption, rule manifest_from_bytes_wf)

interpretation snapshots: record_codec "snapshot_to_bytes X" "snapshot_from_bytes X" wf_snapshot
  by unfold_locales (rule snapshot_from_to_bytes, assumption, rule snapshot_from_bytes_wf)

end
