(* ===== verification/Oos_Segment_Format.thy ===== *)
theory Oos_Segment_Format
  imports Oos_Ids
begin

text \<open>
  \<^verbatim>\<open>core/src/segment/format.rs\<close>: the header of a segment file and the header of a chunk record, in
  the current layout (v3, 80 bytes, with a nonce) and the legacy one (v2, 56 bytes).  A reader is the
  list of bytes from its position to the end of the file; reading returns the bytes that remain.
\<close>

definition SEGMENT_MAGIC :: bytes where "SEGMENT_MAGIC = [0x4F, 0x4F, 0x53, 0x53]"
definition SEGMENT_VERSION :: u32 where "SEGMENT_VERSION = 3"
definition SEGMENT_HEADER_SIZE :: nat where "SEGMENT_HEADER_SIZE = 32"
definition RECORD_MAGIC_V2 :: bytes where "RECORD_MAGIC_V2 = [0x4F, 0x4F, 0x53, 0x52]"
definition RECORD_MAGIC_V3 :: bytes where "RECORD_MAGIC_V3 = [0x4F, 0x53, 0x52, 0x33]"
definition RECORD_HEADER_SIZE_V2 :: nat where "RECORD_HEADER_SIZE_V2 = 56"
definition RECORD_HEADER_SIZE_V3 :: nat where "RECORD_HEADER_SIZE_V3 = 80"
definition RECORD_HEADER_SIZE :: nat where "RECORD_HEADER_SIZE = RECORD_HEADER_SIZE_V3"
definition DEFAULT_MAX_SEGMENT_SIZE :: nat where "DEFAULT_MAX_SEGMENT_SIZE = 268435456"

lemmas size_defs = SEGMENT_HEADER_SIZE_def RECORD_HEADER_SIZE_V2_def RECORD_HEADER_SIZE_V3_def
  RECORD_HEADER_SIZE_def

datatype codec = CodecNone | CodecZstd
datatype scheme = SchemeNone | XChaCha20Poly1305

fun codec_as_u8 :: "codec \<Rightarrow> byte" where
  "codec_as_u8 CodecNone = 0" | "codec_as_u8 CodecZstd = 1"

fun scheme_as_u8 :: "scheme \<Rightarrow> byte" where
  "scheme_as_u8 SchemeNone = 0" | "scheme_as_u8 XChaCha20Poly1305 = 1"

definition codec_from_u8 :: "byte \<Rightarrow> codec result" where
  "codec_from_u8 b =
     (if b = 0 then Inr CodecNone else if b = 1 then Inr CodecZstd
      else Inl (CorruptedSegment 0 ''Unknown compression codec''))"

definition scheme_from_u8 :: "byte \<Rightarrow> scheme result" where
  "scheme_from_u8 b =
     (if b = 0 then Inr SchemeNone else if b = 1 then Inr XChaCha20Poly1305
      else Inl (CorruptedSegment 0 ''Unknown encryption scheme''))"

lemma from_as_u8 [simp]:
  "codec_from_u8 (codec_as_u8 c) = Inr c" "scheme_from_u8 (scheme_as_u8 s) = Inr s"
  by (cases c; simp add: codec_from_u8_def) (cases s; simp add: scheme_from_u8_def)

section \<open>Segment header\<close>

record segment_header =
  sh_segment_id :: u64
  sh_created_at :: u64

definition sh_write :: "segment_header \<Rightarrow> bytes" where
  "sh_write h = SEGMENT_MAGIC @ le32 SEGMENT_VERSION @ le64 (sh_segment_id h)
     @ le64 (sh_created_at h) @ replicate 8 0"

definition sh_read :: "bytes \<Rightarrow> (segment_header \<times> bytes) result" where
  "sh_read r =
     bindE (cread SEGMENT_HEADER_SIZE r) (\<lambda>(buf, r').
     if rslice 0 4 buf \<noteq> SEGMENT_MAGIC
     then Inl (CorruptedSegment 0 ''Invalid segment magic header'')
     else
       let version = from_le32 (rslice 4 8 buf)
       in if version \<noteq> SEGMENT_VERSION \<and> version \<noteq> 2 \<and> version \<noteq> 1
          then Inl (CorruptedSegment 4 ''Unsupported segment version'')
          else Inr (\<lparr>sh_segment_id = from_le64 (rslice 8 16 buf),
                     sh_created_at = from_le64 (rslice 16 24 buf)\<rparr>, r'))"

lemma length_SEGMENT_MAGIC [simp, len_simps]: "length SEGMENT_MAGIC = 4"
  by (simp add: SEGMENT_MAGIC_def)

lemma length_sh_write [simp, len_simps]: "length (sh_write h) = 32"
  by (simp add: sh_write_def)

lemma sh_read_write: "sh_read (sh_write h @ r) = Inr (h, r)"
proof -
  have "rslice 0 4 (sh_write h) = SEGMENT_MAGIC" "rslice 4 8 (sh_write h) = le32 SEGMENT_VERSION"
    "rslice 8 16 (sh_write h) = le64 (sh_segment_id h)"
    "rslice 16 24 (sh_write h) = le64 (sh_created_at h)"
    by (simp_all add: sh_write_def slice_simps)
  then show ?thesis
    by (simp add: sh_read_def SEGMENT_HEADER_SIZE_def Let_def)
qed

section \<open>Record header\<close>

record record_header =
  rh_chunk_id :: chunk_id
  rh_compression_codec :: codec
  rh_encryption_scheme :: scheme
  rh_raw_len :: u32
  rh_payload_len :: u32
  rh_payload_crc :: u32
  rh_nonce :: bytes
  rh_header_size :: nat

definition rh_new ::
    "ext \<Rightarrow> chunk_id \<Rightarrow> codec \<Rightarrow> scheme \<Rightarrow> u32 \<Rightarrow> bytes \<Rightarrow> bytes \<Rightarrow> record_header" where
  "rh_new X cid c s raw_len stored_payload nonce =
     \<lparr>rh_chunk_id = cid, rh_compression_codec = c, rh_encryption_scheme = s, rh_raw_len = raw_len,
      rh_payload_len = word_of_nat (length stored_payload), rh_payload_crc = crc32 X stored_payload,
      rh_nonce = nonce, rh_header_size = RECORD_HEADER_SIZE_V3\<rparr>"

text \<open>The associated data the cipher authenticates.\<close>

definition rh_aad :: "record_header \<Rightarrow> bytes" where
  "rh_aad h = cid_bytes (rh_chunk_id h) @ [codec_as_u8 (rh_compression_codec h)]
     @ [scheme_as_u8 (rh_encryption_scheme h)] @ le32 (rh_raw_len h) @ le32 (rh_payload_len h)"

definition rh_body :: "record_header \<Rightarrow> bytes" where
  "rh_body h = RECORD_MAGIC_V3 @ cid_bytes (rh_chunk_id h)
     @ [codec_as_u8 (rh_compression_codec h), scheme_as_u8 (rh_encryption_scheme h), 0, 0]
     @ le32 (rh_raw_len h) @ le32 (rh_payload_len h) @ le32 (rh_payload_crc h) @ rh_nonce h"

definition rh_write :: "ext \<Rightarrow> record_header \<Rightarrow> bytes" where
  "rh_write X h = rh_body h @ le32 (crc32 X (rh_body h))"

text \<open>The two branches of \<^verbatim>\<open>RecordHeader::read_from\<close> that parse a complete header.\<close>

definition rh_parse_v3 :: "ext \<Rightarrow> bytes \<Rightarrow> io_kind + record_header" where
  "rh_parse_v3 X buf =
     (if crc32 X (rslice 0 76 buf) \<noteq> from_le32 (rslice 76 80 buf) then Inl InvalidData
      else
        bindE (map_err (\<lambda>_. InvalidData) (codec_from_u8 (buf ! 36))) (\<lambda>c.
        bindE (map_err (\<lambda>_. InvalidData) (scheme_from_u8 (buf ! 37))) (\<lambda>s.
        Inr \<lparr>rh_chunk_id = cid_from_raw (rslice 4 36 buf), rh_compression_codec = c,
             rh_encryption_scheme = s, rh_raw_len = from_le32 (rslice 40 44 buf),
             rh_payload_len = from_le32 (rslice 44 48 buf),
             rh_payload_crc = from_le32 (rslice 48 52 buf), rh_nonce = rslice 52 76 buf,
             rh_header_size = RECORD_HEADER_SIZE_V3\<rparr>)))"

definition rh_parse_v2 :: "ext \<Rightarrow> bytes \<Rightarrow> io_kind + record_header" where
  "rh_parse_v2 X buf =
     (if crc32 X (rslice 0 52 buf) \<noteq> from_le32 (rslice 52 56 buf) then Inl InvalidData
      else
        bindE (map_err (\<lambda>_. InvalidData) (codec_from_u8 (buf ! 36))) (\<lambda>c.
        Inr \<lparr>rh_chunk_id = cid_from_raw (rslice 4 36 buf), rh_compression_codec = c,
             rh_encryption_scheme = SchemeNone, rh_raw_len = from_le32 (rslice 40 44 buf),
             rh_payload_len = from_le32 (rslice 44 48 buf),
             rh_payload_crc = from_le32 (rslice 48 52 buf), rh_nonce = replicate 24 0,
             rh_header_size = RECORD_HEADER_SIZE_V2\<rparr>))"

text \<open>
  \<^verbatim>\<open>RecordHeader::read_from\<close>: \<open>Inr None\<close> when fewer than four bytes remain; an I/O error of kind
  \<^verbatim>\<open>UnexpectedEof\<close> for an incomplete header and of kind \<^verbatim>\<open>InvalidData\<close> for a damaged one.
\<close>

definition rh_read_from :: "ext \<Rightarrow> bytes \<Rightarrow> io_kind + (record_header \<times> bytes) option" where
  "rh_read_from X r =
     (case read_exact 4 r of
        Inl _ \<Rightarrow> Inr None
      | Inr (magic, r1) \<Rightarrow>
          if magic = RECORD_MAGIC_V3 then
            bindE (read_exact 76 r1) (\<lambda>(b, r2).
            bindE (rh_parse_v3 X (magic @ b)) (\<lambda>h. Inr (Some (h, r2))))
          else if magic = RECORD_MAGIC_V2 then
            bindE (read_exact 52 r1) (\<lambda>(b, r2).
            bindE (rh_parse_v2 X (magic @ b)) (\<lambda>h. Inr (Some (h, r2))))
          else Inl InvalidData)"

section \<open>ChunkLocation\<close>

record chunk_location =
  cl_segment_id :: nat
  cl_record_offset :: nat
  cl_payload_offset :: nat
  cl_payload_len :: u32
  cl_raw_len :: u32

section \<open>Round trip and torn headers\<close>

definition wf_header :: "record_header \<Rightarrow> bool" where
  "wf_header h \<longleftrightarrow> wf_cid (rh_chunk_id h) \<and> length (rh_nonce h) = 24 \<and> rh_header_size h = 80"

lemma length_RECORD_MAGIC [simp, len_simps]:
  "length RECORD_MAGIC_V3 = 4" "length RECORD_MAGIC_V2 = 4"
  by (simp_all add: RECORD_MAGIC_V3_def RECORD_MAGIC_V2_def)

lemma length_rh_body: "wf_header h \<Longrightarrow> length (rh_body h) = 76"
  by (simp add: rh_body_def wf_header_def wf_cid_def)

lemma length_rh_write: "wf_header h \<Longrightarrow> length (rh_write X h) = 80"
  by (simp add: rh_write_def length_rh_body)

lemma rh_body_fields:
  assumes "wf_header h"
  shows "rslice 0 76 (rh_body h @ r) = rh_body h"
    and "rslice 4 36 (rh_body h @ r) = cid_bytes (rh_chunk_id h)"
    and "(rh_body h @ r) ! 36 = codec_as_u8 (rh_compression_codec h)"
    and "(rh_body h @ r) ! 37 = scheme_as_u8 (rh_encryption_scheme h)"
    and "rslice 40 44 (rh_body h @ r) = le32 (rh_raw_len h)"
    and "rslice 44 48 (rh_body h @ r) = le32 (rh_payload_len h)"
    and "rslice 48 52 (rh_body h @ r) = le32 (rh_payload_crc h)"
    and "rslice 52 76 (rh_body h @ r) = rh_nonce h"
    and "take 4 (rh_body h) = RECORD_MAGIC_V3"
proof -
  show "rslice 0 76 (rh_body h @ r) = rh_body h"
    using length_rh_body [OF assms] by (simp add: slice_simps)
qed (use assms in \<open>simp_all add: rh_body_def wf_header_def wf_cid_def slice_simps nth_append\<close>)

lemma rh_parse_v3_write: "wf_header h \<Longrightarrow> rh_parse_v3 X (rh_write X h) = Inr h"
  by (cases h) (simp add: rh_parse_v3_def rh_write_def rh_body_fields length_rh_body slice_simps
      cid_from_raw_def RECORD_HEADER_SIZE_V3_def, simp add: wf_header_def)

lemma take_4_rh_write: "wf_header h \<Longrightarrow> take 4 (rh_write X h) = RECORD_MAGIC_V3"
  by (simp add: rh_write_def rh_body_fields length_rh_body)

lemma rh_read_write:
  assumes "wf_header h"
  shows "rh_read_from X (rh_write X h @ r) = Inr (Some (h, r))"
proof -
  have len: "length (rh_write X h) = 80"
    by (rule length_rh_write [OF assms])
  have "take 4 (rh_write X h) = RECORD_MAGIC_V3"
    by (rule take_4_rh_write [OF assms])
  then have "read_exact 4 (rh_write X h @ r) = Inr (RECORD_MAGIC_V3, drop 4 (rh_write X h) @ r)"
    using len by (simp add: read_exact_def)
  moreover have "RECORD_MAGIC_V3 @ drop 4 (rh_write X h) = rh_write X h"
    using \<open>take 4 _ = _\<close> len append_take_drop_id [of 4 "rh_write X h"] by simp
  ultimately show ?thesis
    using len by (simp add: rh_read_from_def rh_parse_v3_write [OF assms])
qed

text \<open>
  A header cut short by a crash: with fewer than four bytes the reader reports end of file, with
  more it fails with \<^verbatim>\<open>UnexpectedEof\<close>; it never reports a damaged or a valid header.
\<close>

lemma rh_read_torn:
  assumes "wf_header h" and "n < 80"
  shows "rh_read_from X (take n (rh_write X h)) = (if n < 4 then Inr None else Inl UnexpectedEof)"
proof (cases "n < 4")
  case True
  then show ?thesis by (simp add: rh_read_from_def)
next
  case False
  have len: "length (rh_write X h) = 80"
    by (rule length_rh_write [OF assms(1)])
  have "take 4 (rh_write X h) = RECORD_MAGIC_V3"
    by (rule take_4_rh_write [OF assms(1)])
  then have "read_exact 4 (take n (rh_write X h)) = Inr (RECORD_MAGIC_V3, drop 4 (take n (rh_write X h)))"
    using False len assms(2) by (simp add: read_exact_def min_def)
  then show ?thesis
    using False len assms(2) by (simp add: rh_read_from_def)
qed

text \<open>What a successful read consumed, whatever the bytes.\<close>

lemma rh_read_Some:
  assumes "rh_read_from X r = Inr (Some (h, r'))"
  shows "rh_header_size h \<in> {56, 80}" and "length r = rh_header_size h + length r'"
    and "r' = drop (rh_header_size h) r" and "wf_cid (rh_chunk_id h)" and "length (rh_nonce h) = 24"
  using assms
  by (auto simp: rh_read_from_def rh_parse_v3_def rh_parse_v2_def bindE_eq_Inr read_exact_Inr size_defs
      wf_cid_def cid_from_raw_def split: sum.splits if_splits)

end
