(* ===== verification/Oos_Segment_Index.thy ===== *)
theory Oos_Segment_Index
  imports Oos_Segment_Format
begin

text \<open>
  \<^verbatim>\<open>core/src/segment/index.rs\<close>: the in-memory map from chunk ids to record locations.  The hash map
  is an association list without duplicate keys; its order stands for the unspecified iteration order
  of \<^verbatim>\<open>HashMap\<close>.  The locale \<open>index_map\<close> states what the writer, the recovery scan and the garbage
  collector rely on, and the last section interprets it.
\<close>

type_synonym seg_index = "(chunk_id \<times> chunk_location) list"

section \<open>The operations\<close>

definition idx_new :: seg_index where
  "idx_new = []"

definition idx_insert :: "seg_index \<Rightarrow> chunk_id \<Rightarrow> chunk_location \<Rightarrow> seg_index" where
  "idx_insert m k v = AList.update k v m"

definition idx_get :: "seg_index \<Rightarrow> chunk_id \<Rightarrow> chunk_location option" where
  "idx_get m k = map_of m k"

definition idx_contains :: "seg_index \<Rightarrow> chunk_id \<Rightarrow> bool" where
  "idx_contains m k \<longleftrightarrow> idx_get m k \<noteq> None"

definition idx_len :: "seg_index \<Rightarrow> nat" where
  "idx_len m = length m"

definition idx_is_empty :: "seg_index \<Rightarrow> bool" where
  "idx_is_empty m \<longleftrightarrow> idx_len m = 0"

definition idx_remove :: "seg_index \<Rightarrow> chunk_id \<Rightarrow> seg_index \<times> chunk_location option" where
  "idx_remove m k = (AList.delete k m, map_of m k)"

text \<open>\<^verbatim>\<open>retain\<close> returns how many entries it dropped.\<close>

definition idx_retain ::
    "(chunk_id \<Rightarrow> chunk_location \<Rightarrow> bool) \<Rightarrow> seg_index \<Rightarrow> seg_index \<times> nat" where
  "idx_retain f m =
     (let m' = filter (\<lambda>(k, v). f k v) m in (m', length m - length m'))"

definition idx_all_chunk_ids :: "seg_index \<Rightarrow> chunk_id list" where
  "idx_all_chunk_ids m = map fst m"

definition idx_entries :: "seg_index \<Rightarrow> (chunk_id \<times> chunk_location) list" where
  "idx_entries m = m"

definition idx_clear :: "seg_index \<Rightarrow> seg_index" where
  "idx_clear m = []"

definition idx_replace_with :: "seg_index \<Rightarrow> seg_index \<Rightarrow> seg_index" where
  "idx_replace_with m other = other"

definition idx_total_payload_bytes :: "seg_index \<Rightarrow> nat" where
  "idx_total_payload_bytes m = sum_list (map (\<lambda>(k, v). unat (cl_payload_len v)) m)"

definition idx_total_raw_bytes :: "seg_index \<Rightarrow> nat" where
  "idx_total_raw_bytes m = sum_list (map (\<lambda>(k, v). unat (cl_raw_len v)) m)"

text \<open>No key occurs twice.\<close>

definition idx_inv :: "seg_index \<Rightarrow> bool" where
  "idx_inv m \<longleftrightarrow> distinct (map fst m)"

section \<open>The interface\<close>

locale index_map =
  fixes empty :: 'm
    and insert_loc :: "'m \<Rightarrow> 'k \<Rightarrow> 'v \<Rightarrow> 'm"
    and get :: "'m \<Rightarrow> 'k \<Rightarrow> 'v option"
    and entries :: "'m \<Rightarrow> ('k \<times> 'v) list"
    and invar :: "'m \<Rightarrow> bool"
  assumes get_empty: "get empty k = None"
    and get_insert: "invar m \<Longrightarrow> get (insert_loc m k v) k' = (if k' = k then Some v else get m k')"
    and entries_get: "invar m \<Longrightarrow> (k, v) \<in> set (entries m) \<longleftrightarrow> get m k = Some v"
    and entries_distinct: "invar m \<Longrightarrow> distinct (map fst (entries m))"
    and invar_empty: "invar empty"
    and invar_insert: "invar m \<Longrightarrow> invar (insert_loc m k v)"
begin

text \<open>A run of insertions: the last location of a key wins, every other key is kept.\<close>

lemma invar_inserts: "invar m \<Longrightarrow> invar (foldl (\<lambda>m (k, v). insert_loc m k v) m kvs)"
  by (induction kvs arbitrary: m) (auto simp: invar_insert split_def)

lemma get_inserts:
  "invar m \<Longrightarrow> get (foldl (\<lambda>m (k, v). insert_loc m k v) m kvs) k
     = (case map_of (rev kvs) k of None \<Rightarrow> get m k | Some v \<Rightarrow> Some v)"
proof (induction kvs arbitrary: m)
  case (Cons kv kvs)
  obtain k0 v0 where kv: "kv = (k0, v0)" by force
  show ?case
    using Cons.IH [OF invar_insert [OF Cons.prems]] Cons.prems
    by (auto simp: kv get_insert map_add_def split: option.splits)
qed simp

lemma get_inserts_key:
  assumes "invar m"
  shows "get (foldl (\<lambda>m (k, v). insert_loc m k v) m kvs) k \<noteq> None
     \<longleftrightarrow> k \<in> fst ` set kvs \<or> get m k \<noteq> None"
  using get_inserts [OF assms, of kvs k] map_of_eq_None_iff [of "rev kvs" k]
  by (cases "map_of (rev kvs) k") auto

lemma get_inserts_in:
  assumes "invar m" and "get (foldl (\<lambda>m (k, v). insert_loc m k v) m kvs) k = Some v"
  shows "(k, v) \<in> set kvs \<or> get m k = Some v"
  using assms get_inserts [OF assms(1), of kvs k]
  by (auto split: option.splits dest: map_of_SomeD)

end

section \<open>The segment index satisfies it\<close>

lemma idx_inv_insert: "idx_inv m \<Longrightarrow> idx_inv (idx_insert m k v)"
  by (simp add: idx_inv_def idx_insert_def distinct_update)

interpretation idx: index_map idx_new idx_insert idx_get idx_entries idx_inv
proof unfold_locales
  fix m :: seg_index and k v k'
  show "idx_get (idx_insert m k v) k' = (if k' = k then Some v else idx_get m k')" if "idx_inv m"
    by (simp add: idx_get_def idx_insert_def update_conv)
  show "((k, v) \<in> set (idx_entries m)) = (idx_get m k = Some v)" if "idx_inv m"
    using that by (simp add: idx_entries_def idx_get_def idx_inv_def)
qed (simp_all add: idx_get_def idx_new_def idx_entries_def idx_inv_def idx_insert_def distinct_update)

lemma idx_retain_inv: "idx_inv m \<Longrightarrow> idx_inv (fst (idx_retain f m))"
  by (simp add: idx_inv_def idx_retain_def Let_def distinct_map_filter)

lemma idx_retain_get:
  assumes "idx_inv m" and "idx_retain f m = (m', n)"
  shows "idx_get m' k = (case idx_get m k of Some v \<Rightarrow> if f k v then Some v else None | None \<Rightarrow> None)"
    and "n = idx_len m - idx_len m'"
proof -
  have m': "m' = filter (\<lambda>(k, v). f k v) m" and n: "n = length m - length m'"
    using assms(2) by (auto simp: idx_retain_def Let_def)
  then show "n = idx_len m - idx_len m'"
    by (simp add: idx_len_def)
  show "idx_get m' k = (case idx_get m k of Some v \<Rightarrow> if f k v then Some v else None | None \<Rightarrow> None)"
    using assms(1) unfolding m' idx_get_def idx_inv_def
    by (induction m) (auto split: option.splits simp: map_of_eq_None_iff dest: map_of_SomeD)
qed

end
