(* ===== verification/Oos_Crypto.thy ===== *)
theory Oos_Crypto
  imports Oos_Text
begin

text \<open>
  \<^verbatim>\<open>core/src/crypto/vault.rs\<close>: the master key, its wrapping under a passphrase in the 100-byte
  \<^verbatim>\<open>vault.key\<close> file, and the authenticated encryption of chunks and log records.  Random bytes
  (master key, salt, nonce) are arguments.  The cipher constructor fails only for a key that is not
  32 bytes long, which the array types exclude, so it has no error branch here.
\<close>

definition VAULT_MAGIC :: bytes where "VAULT_MAGIC = [0x4F, 0x4F, 0x53, 0x4B]"
definition VAULT_VERSION :: u32 where "VAULT_VERSION = 1"
definition VAULT_FILE_SIZE :: nat where "VAULT_FILE_SIZE = 100"

datatype vault_key = VaultKey (vk_master_key: bytes)

definition derive_kek :: "ext \<Rightarrow> rstring \<Rightarrow> bytes \<Rightarrow> bytes result" where
  "derive_kek X pass salt =
     ok_or (argon2 X pass salt) (Internal ''Argon2 key derivation failed'')"

definition vault_aad :: "bytes \<Rightarrow> bytes" where
  "vault_aad salt = VAULT_MAGIC @ le32 VAULT_VERSION @ salt"

definition vault_create ::
    "ext \<Rightarrow> bytes \<Rightarrow> bytes \<Rightarrow> bytes \<Rightarrow> rstring \<Rightarrow> (vault_key \<times> bytes) result" where
  "vault_create X master_key salt nonce pass =
     (if trim pass = [] then Inl (AuthenticationFailed ''Passphrase cannot be empty'')
      else if length pass < 8 then Inl (AuthenticationFailed ''Passphrase is too short'')
      else
        bindE (derive_kek X pass salt) (\<lambda>kek.
        bindE (ok_or (aead_encrypt X kek nonce (vault_aad salt) master_key)
                     (Internal ''Master key encryption failed'')) (\<lambda>ct.
        if length ct \<noteq> 48 then Inl (Internal ''Unexpected encrypted master key size'')
        else
          let body = VAULT_MAGIC @ le32 VAULT_VERSION @ salt @ nonce @ ct
          in Inr (VaultKey master_key, body @ le32 (crc32 X (take 96 body))))))"

definition vault_unlock :: "ext \<Rightarrow> rstring \<Rightarrow> bytes \<Rightarrow> vault_key result" where
  "vault_unlock X pass bs =
     (if length bs \<noteq> VAULT_FILE_SIZE then Inl (AuthenticationFailed ''Invalid vault key file size'')
      else if rslice 0 4 bs \<noteq> VAULT_MAGIC
      then Inl (AuthenticationFailed ''Invalid vault key magic header'')
      else if from_le32 (rslice 4 8 bs) \<noteq> VAULT_VERSION
      then Inl (AuthenticationFailed ''Unsupported vault key version'')
      else if crc32 X (rslice 0 96 bs) \<noteq> from_le32 (rslice 96 100 bs)
      then Inl (AuthenticationFailed ''Vault key file corrupted (checksum mismatch)'')
      else
        let salt = rslice 8 24 bs; nonce = rslice 24 48 bs; ct = rslice 48 96 bs
        in bindE (derive_kek X pass salt) (\<lambda>kek.
           bindE (ok_or (aead_decrypt X kek nonce (vault_aad salt) ct)
                        (AuthenticationFailed ''Incorrect passphrase or tampered vault key'')) (\<lambda>d.
           if length d \<noteq> 32
           then Inl (AuthenticationFailed ''Decrypted master key has invalid length'')
           else Inr (VaultKey d))))"

definition encrypt_chunk :: "ext \<Rightarrow> vault_key \<Rightarrow> bytes \<Rightarrow> bytes \<Rightarrow> bytes \<Rightarrow> bytes result" where
  "encrypt_chunk X vk plaintext nonce aad =
     ok_or (aead_encrypt X (vk_master_key vk) nonce aad plaintext) (Internal ''Chunk encryption failed'')"

definition decrypt_chunk :: "ext \<Rightarrow> vault_key \<Rightarrow> bytes \<Rightarrow> bytes \<Rightarrow> bytes \<Rightarrow> bytes result" where
  "decrypt_chunk X vk ct nonce aad =
     ok_or (aead_decrypt X (vk_master_key vk) nonce aad ct)
           (DecryptionFailed ''Poly1305 authentication failed'')"

lemma decrypt_encrypt_chunk:
  assumes "ext_ok X" and "encrypt_chunk X vk m nonce aad = Inr c"
  shows "decrypt_chunk X vk c nonce aad = Inr m" and "length c = length m + 16"
  using assms by (auto simp: encrypt_chunk_def decrypt_chunk_def ext_okD)

lemma length_VAULT_MAGIC [simp, len_simps]: "length VAULT_MAGIC = 4"
  by (simp add: VAULT_MAGIC_def)

lemma vault_create_Inr:
  assumes "vault_create X mk salt nonce pass = Inr (vk, bs)"
  obtains kek ct body where
    "derive_kek X pass salt = Inr kek"
    "aead_encrypt X kek nonce (vault_aad salt) mk = Some ct"
    "length ct = 48" "vk = VaultKey mk"
    "body = VAULT_MAGIC @ le32 VAULT_VERSION @ salt @ nonce @ ct"
    "bs = body @ le32 (crc32 X (take 96 body))"
  using assms
  by (auto simp: vault_create_def Let_def bindE_eq_Inr split: if_splits)

lemma vault_unlock_create:
  assumes X: "ext_ok X" and "length mk = 32" "length salt = 16" "length nonce = 24"
    and "vault_create X mk salt nonce pass = Inr (vk, bs)"
  shows "length bs = 100" and "vault_unlock X pass bs = Inr vk"
proof -
  obtain kek ct body where kek: "derive_kek X pass salt = Inr kek"
    and ct: "aead_encrypt X kek nonce (vault_aad salt) mk = Some ct" and len: "length ct = 48"
    and vk: "vk = VaultKey mk" and body: "body = VAULT_MAGIC @ le32 VAULT_VERSION @ salt @ nonce @ ct"
    and bs: "bs = body @ le32 (crc32 X (take 96 body))"
    using vault_create_Inr [OF assms(5)] by metis
  have lb: "length body = 96"
    using assms len by (simp add: body)
  then show "length bs = 100"
    by (simp add: bs)
  have fields: "rslice 0 4 bs = VAULT_MAGIC" "rslice 4 8 bs = le32 VAULT_VERSION" "rslice 8 24 bs = salt"
    "rslice 24 48 bs = nonce" "rslice 48 96 bs = ct"
    using assms(2-4) len by (simp_all add: bs body slice_simps)
  have "rslice 0 96 bs = body" "rslice 96 100 bs = le32 (crc32 X body)"
    using lb by (simp_all add: bs slice_simps)
  then show "vault_unlock X pass bs = Inr vk"
    using lb kek assms(2) ext_okD(3) [OF X ct]
    by (simp add: vault_unlock_def VAULT_FILE_SIZE_def bs [symmetric] fields Let_def vk \<open>length bs = 100\<close>)
qed

text \<open>A key file that is not exactly what \<^verbatim>\<open>create\<close> lays out never yields a key.\<close>

lemma vault_unlock_Inr:
  assumes "vault_unlock X pass bs = Inr vk"
  shows "length bs = 100" and "rslice 0 4 bs = VAULT_MAGIC"
    and "crc32 X (rslice 0 96 bs) = from_le32 (rslice 96 100 bs)"
    and "length (vk_master_key vk) = 32"
  using assms
  by (auto simp: vault_unlock_def VAULT_FILE_SIZE_def Let_def bindE_eq_Inr split: if_splits)

section \<open>Properties\<close>

text \<open>
  A key file that \<^verbatim>\<open>create\<close> made has 100 bytes and unlocks, with the same passphrase, to the key it
  was made for; and any file of another length is refused.
\<close>

theorem vault_roundtrip:
  assumes "ext_ok X" "length mk = 32" "length salt = 16" "length nonce = 24"
    and "vault_create X mk salt nonce pass = Inr (vk, bs)"
  shows "length bs = 100 \<and> vk = VaultKey mk \<and> vault_unlock X pass bs = Inr vk
    \<and> (\<forall>bs' k. length bs' \<noteq> 100 \<longrightarrow> vault_unlock X pass bs' \<noteq> Inr k)"
  using vault_unlock_create [OF assms] vault_unlock_Inr(1) vault_create_Inr [OF assms(5)] by metis

theorem vault_roundtrip_witness:
  "\<exists>vk bs. vault_create demo_ext (replicate 32 7) (replicate 16 1) (replicate 24 2) (replicate 8 65) = Inr (vk, bs)
     \<and> length bs = 100 \<and> vault_unlock demo_ext (replicate 8 65) bs = Inr vk"
proof -
  let ?c = "vault_create demo_ext (replicate 32 7) (replicate 16 1) (replicate 24 2) (replicate 8 65)"
  have "trim (replicate 8 65 :: bytes) \<noteq> []" by code_simp
  then have "\<exists>vk bs. ?c = Inr (vk, bs)"
    by (simp add: vault_create_def derive_kek_def demo_ext_def Let_def)
  then obtain vk bs where c: "?c = Inr (vk, bs)" by blast
  show ?thesis using vault_roundtrip [OF demo_ext_ok _ _ _ c] c by simp
qed

end
