(* ===== verification/Oos_Fs.thy ===== *)
theory Oos_Fs
  imports Oos_Text
begin

text \<open>
  The part of \<^verbatim>\<open>std::fs\<close> the storage components use.  A directory is an association list from file
  names to contents; its order is the order \<^verbatim>\<open>read_dir\<close> lists the entries in, which the operating
  system chooses.  Every operation is atomic and durable when it returns; failures of the disk itself
  are not modelled.  The lemmas describe each operation by the map it leaves.
\<close>

type_synonym dir = "(rstring \<times> bytes) list"

definition dir_get :: "dir \<Rightarrow> rstring \<Rightarrow> bytes option" where
  "dir_get d n = map_of d n"

definition dir_put :: "dir \<Rightarrow> rstring \<Rightarrow> bytes \<Rightarrow> dir" where
  "dir_put d n c = AList.update n c d"

definition dir_del :: "dir \<Rightarrow> rstring \<Rightarrow> dir" where
  "dir_del d n = AList.delete n d"

text \<open>\<^verbatim>\<open>fs::rename\<close> replaces the destination.\<close>

definition dir_rename :: "dir \<Rightarrow> rstring \<Rightarrow> rstring \<Rightarrow> dir" where
  "dir_rename d a b = (case dir_get d a of None \<Rightarrow> d | Some c \<Rightarrow> dir_put (dir_del d a) b c)"

definition dir_names :: "dir \<Rightarrow> rstring list" where
  "dir_names d = map fst d"

definition dir_inv :: "dir \<Rightarrow> bool" where
  "dir_inv d \<longleftrightarrow> distinct (dir_names d)"

text \<open>\<^verbatim>\<open>write_all\<close> at a file position, filling a gap with zeros.\<close>

definition write_at :: "nat \<Rightarrow> bytes \<Rightarrow> bytes \<Rightarrow> bytes" where
  "write_at off data f =
     take off (f @ replicate (off - length f) 0) @ data @ drop (off + length data) f"

lemma dir_get_put [simp]: "dir_get (dir_put d n c) n' = (if n' = n then Some c else dir_get d n')"
  by (simp add: dir_get_def dir_put_def update_conv)

lemma dir_get_del [simp]: "dir_get (dir_del d n) n' = (if n' = n then None else dir_get d n')"
  by (simp add: dir_get_def dir_del_def delete_conv)

lemma dir_get_Nil [simp]: "dir_get [] n = None"
  by (simp add: dir_get_def)

lemma dir_get_rename:
  "dir_get d a = Some c \<Longrightarrow>
   dir_get (dir_rename d a b) n = (if n = b then Some c else if n = a then None else dir_get d n)"
  by (simp add: dir_rename_def)

lemma in_dir_names: "n \<in> set (dir_names d) \<longleftrightarrow> dir_get d n \<noteq> None"
  using map_of_eq_None_iff [of d n] by (auto simp: dir_names_def dir_get_def)

lemma dir_inv_put [simp]: "dir_inv d \<Longrightarrow> dir_inv (dir_put d n c)"
  by (simp add: dir_inv_def dir_names_def dir_put_def distinct_update)

lemma dir_inv_del [simp]: "dir_inv d \<Longrightarrow> dir_inv (dir_del d n)"
  by (simp add: dir_inv_def dir_names_def dir_del_def distinct_delete)

lemma dir_inv_rename [simp]: "dir_inv d \<Longrightarrow> dir_inv (dir_rename d a b)"
  by (simp add: dir_rename_def split: option.splits)

lemma dir_inv_Nil [simp]: "dir_inv []"
  by (simp add: dir_inv_def dir_names_def)

lemma write_at_end [simp]: "off = length f \<Longrightarrow> write_at off data f = f @ data"
  by (simp add: write_at_def)

end
