(* ===== verification/Oos_Segment_Store.thy ===== *)
theory Oos_Segment_Store
  imports Oos_Segment_Index Oos_Crypto Oos_Fs
begin

text \<open>
  The segment writer and reader (\<^verbatim>\<open>core/src/segment/writer.rs\<close>, \<^verbatim>\<open>reader.rs\<close>) and the put and get
  operations of \<^verbatim>\<open>SegmentStore\<close> (\<^verbatim>\<open>store.rs\<close>).  The writer's file position always equals its
  \<^verbatim>\<open>current_offset\<close> (it starts there and every write advances both), so writes go to that offset.
  The reader's cache of open file handles does not change what is read and is treated in
  \<^verbatim>\<open>Oos_Caches\<close>.
\<close>

section \<open>File names\<close>

definition segment_file_name :: "nat \<Rightarrow> rstring" where
  "segment_file_name sid = bytes_of ''segment_'' @ dec_pad 8 sid @ bytes_of ''.seg''"

definition is_segment_name :: "rstring \<Rightarrow> bool" where
  "is_segment_name n \<longleftrightarrow> starts_with n (bytes_of ''segment_'') \<and> ends_with n (bytes_of ''.seg'')"

text \<open>The id between prefix and suffix, when it parses as a \<^verbatim>\<open>u64\<close>.\<close>

definition segment_name_id :: "rstring \<Rightarrow> nat option" where
  "segment_name_id n = parse_u64 (rslice 8 (length n - 4) n)"

lemma segment_file_name_inject [simp]: "segment_file_name a = segment_file_name b \<longleftrightarrow> a = b"
  by (simp add: segment_file_name_def)

lemma is_segment_file_name [simp]: "is_segment_name (segment_file_name sid)"
  using ends_with_append [of "bytes_of ''segment_'' @ dec_pad 8 sid" "bytes_of ''.seg''"]
  by (simp add: is_segment_name_def segment_file_name_def)

lemma segment_name_id_file_name: "sid < 2 ^ 64 \<Longrightarrow> segment_name_id (segment_file_name sid) = Some sid"
  by (simp add: segment_name_id_def segment_file_name_def slice_simps parse_u64_pad)

section \<open>The writer\<close>

record seg_writer =
  w_segment_id :: nat
  w_file_open :: bool
  w_offset :: nat
  w_max_segment_size :: nat
  w_vault_key :: "vault_key option"

text \<open>The clock and the random nonce an operation observes.\<close>

record env =
  env_now :: u64
  env_nonce :: bytes

definition sw_open ::
    "env \<Rightarrow> dir \<Rightarrow> nat \<Rightarrow> nat \<Rightarrow> nat \<Rightarrow> vault_key option \<Rightarrow> dir \<times> seg_writer" where
  "sw_open E d sid resume_offset max_size vk =
     (let n = segment_file_name sid;
          f = (case dir_get d n of None \<Rightarrow> [] | Some f \<Rightarrow> f);
          h = sh_write \<lparr>sh_segment_id = word_of_nat sid, sh_created_at = env_now E\<rparr>
      in (dir_put d n (if resume_offset = 0 then write_at 0 h f else f),
          \<lparr>w_segment_id = sid, w_file_open = True,
           w_offset = (if resume_offset = 0 then SEGMENT_HEADER_SIZE else resume_offset),
           w_max_segment_size = (if max_size = 0 then DEFAULT_MAX_SEGMENT_SIZE else max_size),
           w_vault_key = vk\<rparr>))"

definition sw_rotate :: "env \<Rightarrow> dir \<Rightarrow> seg_writer \<Rightarrow> dir \<times> seg_writer" where
  "sw_rotate E d w =
     sw_open E d (w_segment_id w + 1) 0 (w_max_segment_size w) (w_vault_key w)"

text \<open>Compression is kept when it saves at least five percent.\<close>

definition sw_compress :: "ext \<Rightarrow> bytes \<Rightarrow> bytes \<times> codec" where
  "sw_compress X data =
     (case zstd_encode X data of
        Some c \<Rightarrow> if length c < length data * 95 div 100 then (c, CodecZstd) else (data, CodecNone)
      | None \<Rightarrow> (data, CodecNone))"

text \<open>Encryption binds the header's identifying fields as associated data.\<close>

definition sw_encrypt ::
    "ext \<Rightarrow> env \<Rightarrow> vault_key option \<Rightarrow> chunk_id \<Rightarrow> codec \<Rightarrow> bytes \<Rightarrow> bytes
       \<Rightarrow> (bytes \<times> scheme \<times> bytes) result" where
  "sw_encrypt X E vk cid c data compressed =
     (case vk of
        None \<Rightarrow> Inr (compressed, SchemeNone, replicate 24 0)
      | Some k \<Rightarrow>
          let dummy = \<lparr>rh_chunk_id = cid, rh_compression_codec = c,
                       rh_encryption_scheme = XChaCha20Poly1305,
                       rh_raw_len = word_of_nat (length data),
                       rh_payload_len = word_of_nat (length compressed + 16), rh_payload_crc = 0,
                       rh_nonce = env_nonce E, rh_header_size = RECORD_HEADER_SIZE_V3\<rparr>
          in bindE (encrypt_chunk X k compressed (env_nonce E) (rh_aad dummy))
               (\<lambda>ct. Inr (ct, XChaCha20Poly1305, env_nonce E)))"

definition sw_append ::
    "ext \<Rightarrow> env \<Rightarrow> dir \<Rightarrow> seg_writer \<Rightarrow> seg_index \<Rightarrow> chunk_id \<Rightarrow> bytes
       \<Rightarrow> (dir \<times> seg_writer \<times> seg_index \<times> chunk_location) result" where
  "sw_append X E d0 w0 idx cid data =
     (case sw_compress X data of (compressed, c) \<Rightarrow>
     bindE (sw_encrypt X E (w_vault_key w0) cid c data compressed) (\<lambda>(payload, s, nonce).
     let record_size = RECORD_HEADER_SIZE_V3 + length payload;
         (d, w) = (if w_max_segment_size w0 < w_offset w0 + record_size
                   then sw_rotate E d0 w0 else (d0, w0));
         record_offset = w_offset w;
         h = rh_new X cid c s (word_of_nat (length data)) payload nonce;
         n = segment_file_name (w_segment_id w);
         f = (case dir_get d n of None \<Rightarrow> [] | Some f \<Rightarrow> f);
         loc = \<lparr>cl_segment_id = w_segment_id w, cl_record_offset = record_offset,
                cl_payload_offset = record_offset + RECORD_HEADER_SIZE_V3,
                cl_payload_len = word_of_nat (length payload),
                cl_raw_len = word_of_nat (length data)\<rparr>
     in if \<not> w_file_open w then Inl (Internal ''SegmentWriter file handle is closed'')
        else Inr (dir_put d n (write_at record_offset (rh_write X h @ payload) f),
                  w\<lparr>w_offset := record_offset + record_size\<rparr>, idx_insert idx cid loc, loc)))"

section \<open>The reader\<close>

text \<open>\<^verbatim>\<open>read_chunk\<close> on the contents of the segment file: the four layers of checks in order.\<close>

definition read_payload ::
    "ext \<Rightarrow> vault_key option \<Rightarrow> nat \<Rightarrow> chunk_id \<Rightarrow> record_header \<Rightarrow> bytes \<Rightarrow> bytes result" where
  "read_payload X vk off cid h stored =
     (let actual_crc = crc32 X stored
      in if rh_payload_crc h \<noteq> actual_crc
         then Inl (ChecksumMismatch (cid_to_hex cid) (rh_payload_crc h) actual_crc)
         else
           bindE (case rh_encryption_scheme h of
                    SchemeNone \<Rightarrow> Inr stored
                  | XChaCha20Poly1305 \<Rightarrow>
                      bindE (ok_or vk PasswordRequired)
                        (\<lambda>k. decrypt_chunk X k stored (rh_nonce h) (rh_aad h))) (\<lambda>decrypted.
           bindE (case rh_compression_codec h of
                    CodecNone \<Rightarrow> Inr decrypted
                  | CodecZstd \<Rightarrow> ok_or (zstd_decode X decrypted)
                                   (CorruptedSegment off ''Failed to decompress zstd chunk'')) (\<lambda>raw.
           if cid_from_data X raw \<noteq> cid
           then Inl (Internal ''Content-addressed hash mismatch for chunk'')
           else Inr raw)))"

definition read_record ::
    "ext \<Rightarrow> vault_key option \<Rightarrow> bytes \<Rightarrow> chunk_id \<Rightarrow> chunk_location \<Rightarrow> bytes result" where
  "read_record X vk f cid loc =
     (let off = cl_record_offset loc; file_len = length f
      in if file_len < off + RECORD_HEADER_SIZE
         then Inl (CorruptedSegment off ''Record offset exceeds segment file length'')
         else
           bindE (map_err Io (rh_read_from X (drop off f))) (\<lambda>hr.
           case hr of
             None \<Rightarrow> Inl (CorruptedSegment off ''Unexpected EOF while reading record header'')
           | Some (h, r) \<Rightarrow>
               if rh_payload_len h \<noteq> cl_payload_len loc
               then Inl (CorruptedSegment off ''Record payload length mismatch'')
               else if DEFAULT_MAX_SEGMENT_SIZE < unat (rh_payload_len h)
               then Inl (CorruptedSegment off ''Record payload length exceeds maximum segment size'')
               else if file_len < off + RECORD_HEADER_SIZE + unat (rh_payload_len h)
               then Inl (CorruptedSegment off ''Record total size exceeds segment file length'')
               else bindE (cread (unat (rh_payload_len h)) r)
                      (\<lambda>(stored, _). read_payload X vk off cid h stored)))"

definition read_chunk ::
    "ext \<Rightarrow> vault_key option \<Rightarrow> dir \<Rightarrow> chunk_id \<Rightarrow> chunk_location \<Rightarrow> bytes result" where
  "read_chunk X vk d cid loc =
     (case dir_get d (segment_file_name (cl_segment_id loc)) of
        None \<Rightarrow> Inl (Internal ''Failed to open segment file'')
      | Some f \<Rightarrow> read_record X vk f cid loc)"

section \<open>The store\<close>

record seg_store =
  ss_files :: dir
  ss_index :: seg_index
  ss_writer :: seg_writer
  ss_vault_key :: "vault_key option"

definition ss_has_chunk :: "seg_store \<Rightarrow> chunk_id \<Rightarrow> bool" where
  "ss_has_chunk s cid \<longleftrightarrow> idx_contains (ss_index s) cid"

definition ss_put_chunk ::
    "ext \<Rightarrow> env \<Rightarrow> seg_store \<Rightarrow> bytes \<Rightarrow> (seg_store \<times> chunk_id \<times> bool) result" where
  "ss_put_chunk X E s data =
     (let cid = cid_from_data X data
      in if idx_contains (ss_index s) cid then Inr (s, cid, False)
         else bindE (sw_append X E (ss_files s) (ss_writer s) (ss_index s) cid data)
           (\<lambda>(d, w, idx, loc).
              Inr (s\<lparr>ss_files := d, ss_index := idx, ss_writer := w\<rparr>, cid, True)))"

definition ss_get_chunk :: "ext \<Rightarrow> seg_store \<Rightarrow> chunk_id \<Rightarrow> bytes result" where
  "ss_get_chunk X s cid =
     bindE (ok_or (idx_get (ss_index s) cid) (ChunkNotFound (cid_to_hex cid)))
       (\<lambda>loc. read_chunk X (ss_vault_key s) (ss_files s) cid loc)"

definition ss_chunk_count :: "seg_store \<Rightarrow> nat" where
  "ss_chunk_count s = idx_len (ss_index s)"

definition ss_get_location :: "seg_store \<Rightarrow> chunk_id \<Rightarrow> chunk_location option" where
  "ss_get_location s cid = idx_get (ss_index s) cid"

definition ss_reclaim_unreachable :: "seg_store \<Rightarrow> chunk_id set \<Rightarrow> seg_store \<times> nat" where
  "ss_reclaim_unreachable s reachable =
     (case idx_retain (\<lambda>k _. k \<in> reachable) (ss_index s) of
        (m, n) \<Rightarrow> (s\<lparr>ss_index := m\<rparr>, n))"

definition ss_all_chunk_ids :: "seg_store \<Rightarrow> chunk_id list" where
  "ss_all_chunk_ids s = idx_all_chunk_ids (ss_index s)"

definition ss_physical_disk_bytes :: "seg_store \<Rightarrow> nat" where
  "ss_physical_disk_bytes s =
     sum_list (map (\<lambda>(n, f). if is_segment_name n then length f else 0) (ss_files s))"

section \<open>Appending keeps what can be read\<close>

text \<open>Every file of \<open>d\<close> is a prefix of the file of the same name in \<open>d'\<close>.\<close>

definition dir_extends :: "dir \<Rightarrow> dir \<Rightarrow> bool" where
  "dir_extends d d' \<longleftrightarrow> (\<forall>n f. dir_get d n = Some f \<longrightarrow> (\<exists>g. dir_get d' n = Some (f @ g)))"

lemma dir_extends_refl [simp]: "dir_extends d d"
  by (auto simp: dir_extends_def)

lemma dir_extends_trans: "dir_extends d d' \<Longrightarrow> dir_extends d' d'' \<Longrightarrow> dir_extends d d''"
  by (fastforce simp: dir_extends_def)

lemma dir_extends_put_new: "dir_get d n = None \<Longrightarrow> dir_extends d (dir_put d n f)"
  by (auto simp: dir_extends_def)

lemma dir_extends_put_append: "dir_get d n = Some f \<Longrightarrow> dir_extends d (dir_put d n (f @ g))"
  by (auto simp: dir_extends_def)

lemma read_exact_more: "read_exact n r = Inr (a, b) \<Longrightarrow> read_exact n (r @ g) = Inr (a, b @ g)"
  by (auto simp: read_exact_Inr)

lemma rh_read_more:
  assumes "rh_read_from X r = Inr (Some (h, r'))"
  shows "rh_read_from X (r @ g) = Inr (Some (h, r' @ g))"
proof -
  from assms obtain magic r1 where m: "read_exact 4 r = Inr (magic, r1)"
    by (auto simp: rh_read_from_def split: sum.splits)
  note m' = read_exact_more [OF m, of g]
  consider (v3) "magic = RECORD_MAGIC_V3"
    | (v2) "magic \<noteq> RECORD_MAGIC_V3" "magic = RECORD_MAGIC_V2"
    | (bad) "magic \<noteq> RECORD_MAGIC_V3" "magic \<noteq> RECORD_MAGIC_V2" by blast
  then show ?thesis
  proof cases
    case v3
    with assms m obtain b r2 where "read_exact 76 r1 = Inr (b, r2)" "r2 = r'"
      and "rh_parse_v3 X (magic @ b) = Inr h"
      by (auto simp: rh_read_from_def bindE_eq_Inr)
    with v3 m' read_exact_more show ?thesis by (simp add: rh_read_from_def)
  next
    case v2
    with assms m obtain b r2 where "read_exact 52 r1 = Inr (b, r2)" "r2 = r'"
      and "rh_parse_v2 X (magic @ b) = Inr h"
      by (auto simp: rh_read_from_def bindE_eq_Inr)
    with v2 m' read_exact_more show ?thesis by (simp add: rh_read_from_def)
  next
    case bad
    with assms m show ?thesis by (simp add: rh_read_from_def)
  qed
qed

lemma read_record_Inr:
  assumes "read_record X vk f cid loc = Inr raw"
  obtains h r stored where "cl_record_offset loc + 80 + unat (rh_payload_len h) \<le> length f"
    and "rh_read_from X (drop (cl_record_offset loc) f) = Inr (Some (h, r))"
    and "rh_payload_len h = cl_payload_len loc" and "unat (rh_payload_len h) \<le> DEFAULT_MAX_SEGMENT_SIZE"
    and "cread (unat (rh_payload_len h)) r = Inr (stored, drop (unat (rh_payload_len h)) r)"
    and "read_payload X vk (cl_record_offset loc) cid h stored = Inr raw"
proof -
  from assms obtain hr where hr: "rh_read_from X (drop (cl_record_offset loc) f) = Inr hr"
    by (auto simp: read_record_def Let_def bindE_eq_Inr split: if_splits)
  with assms obtain h r where hr_eq: "hr = Some (h, r)"
    by (cases hr) (auto simp: read_record_def Let_def split: if_splits)
  have "bindE (cread (unat (rh_payload_len h)) r)
       (\<lambda>(stored, _). read_payload X vk (cl_record_offset loc) cid h stored) = Inr raw"
    and bounds: "cl_record_offset loc + 80 + unat (rh_payload_len h) \<le> length f"
    "rh_payload_len h = cl_payload_len loc" "unat (rh_payload_len h) \<le> DEFAULT_MAX_SEGMENT_SIZE"
    using assms hr by (auto simp: read_record_def Let_def hr_eq size_defs not_less split: if_splits)
  then obtain stored where "cread (unat (rh_payload_len h)) r = Inr (stored, drop (unat (rh_payload_len h)) r)"
    "read_payload X vk (cl_record_offset loc) cid h stored = Inr raw"
    by (auto simp: bindE_eq_Inr cread_Inr)
  with bounds hr hr_eq show thesis by (intro that) auto
qed

lemma read_record_more:
  assumes "read_record X vk f cid loc = Inr raw"
  shows "read_record X vk (f @ g) cid loc = Inr raw"
proof -
  obtain h r stored where *: "cl_record_offset loc + 80 + unat (rh_payload_len h) \<le> length f"
    "rh_read_from X (drop (cl_record_offset loc) f) = Inr (Some (h, r))"
    "rh_payload_len h = cl_payload_len loc" "unat (rh_payload_len h) \<le> DEFAULT_MAX_SEGMENT_SIZE"
    "cread (unat (rh_payload_len h)) r = Inr (stored, drop (unat (rh_payload_len h)) r)"
    "read_payload X vk (cl_record_offset loc) cid h stored = Inr raw"
    using read_record_Inr [OF assms] .
  have "cread (unat (rh_payload_len h)) (r @ g) = Inr (stored, drop (unat (rh_payload_len h)) r @ g)"
    using *(5) by (auto simp: cread_Inr)
  then show ?thesis
    using * rh_read_more [OF *(2), of g] by (simp add: read_record_def Let_def size_defs not_less)
qed

lemma read_chunk_Inr:
  "read_chunk X vk d cid loc = Inr raw \<longleftrightarrow>
   (\<exists>f. dir_get d (segment_file_name (cl_segment_id loc)) = Some f \<and> read_record X vk f cid loc = Inr raw)"
  by (auto simp: read_chunk_def split: option.splits)

lemma read_chunk_extends:
  assumes "read_chunk X vk d cid loc = Inr raw" and "dir_extends d d'"
  shows "read_chunk X vk d' cid loc = Inr raw"
proof -
  obtain f where f: "dir_get d (segment_file_name (cl_segment_id loc)) = Some f"
    "read_record X vk f cid loc = Inr raw"
    using assms(1) by (auto simp: read_chunk_Inr)
  then obtain g where "dir_get d' (segment_file_name (cl_segment_id loc)) = Some (f @ g)"
    using assms(2) by (auto simp: dir_extends_def)
  with read_record_more [OF f(2)] show ?thesis by (simp add: read_chunk_Inr)
qed

text \<open>The last check of the reader: what it returns has the requested hash.\<close>

lemma read_payload_id: "read_payload X vk off cid h p = Inr raw \<Longrightarrow> cid_from_data X raw = cid"
  unfolding read_payload_def Let_def by (auto simp: bindE_eq_Inr split: if_splits)

lemma read_chunk_id: "read_chunk X vk d cid loc = Inr raw \<Longrightarrow> cid_from_data X raw = cid"
  by (auto simp: read_chunk_Inr intro: read_payload_id elim!: read_record_Inr)

section \<open>A record that was written can be read\<close>

lemma sw_compress_length: "sw_compress X data = (c, k) \<Longrightarrow> length c \<le> length data"
  by (auto simp: sw_compress_def split: option.splits if_splits)

lemma sw_encrypt_length:
  "ext_ok X \<Longrightarrow> sw_encrypt X E vk cid k data c = Inr (p, s, nonce) \<Longrightarrow> length p \<le> length c + 16"
  by (auto simp: sw_encrypt_def bindE_eq_Inr Let_def decrypt_encrypt_chunk(2) split: option.splits)

lemma sw_encrypt_nonce:
  "length (env_nonce E) = 24 \<Longrightarrow> sw_encrypt X E vk cid k data c = Inr (p, s, nonce) \<Longrightarrow> length nonce = 24"
  by (auto simp: sw_encrypt_def bindE_eq_Inr Let_def split: option.splits)

lemma read_payload_sealed:
  assumes X: "ext_ok X" and c: "sw_compress X data = (c, k)"
    and e: "sw_encrypt X E vk cid k data c = Inr (p, s, nonce)"
    and cid: "cid = cid_from_data X data"
  shows "read_payload X vk off cid (rh_new X cid k s (word_of_nat (length data)) p nonce) p = Inr data"
proof -
  let ?h = "rh_new X cid k s (word_of_nat (length data)) p nonce"
  have dec: "(case rh_encryption_scheme ?h of
       SchemeNone \<Rightarrow> Inr p
     | XChaCha20Poly1305 \<Rightarrow>
         bindE (ok_or vk PasswordRequired) (\<lambda>key. decrypt_chunk X key p (rh_nonce ?h) (rh_aad ?h))) = Inr c"
  proof (cases vk)
    case None
    with e show ?thesis by (simp add: sw_encrypt_def rh_new_def)
  next
    case (Some key)
    with e have s: "s = XChaCha20Poly1305" "nonce = env_nonce E"
      and enc: "encrypt_chunk X key c nonce (cid_bytes cid @ [codec_as_u8 k] @ [scheme_as_u8 s]
        @ le32 (word_of_nat (length data)) @ le32 (word_of_nat (length c + 16))) = Inr p"
      by (auto simp: sw_encrypt_def bindE_eq_Inr Let_def rh_aad_def)
    have "rh_aad ?h = cid_bytes cid @ [codec_as_u8 k] @ [scheme_as_u8 s]
        @ le32 (word_of_nat (length data)) @ le32 (word_of_nat (length c + 16))"
      using decrypt_encrypt_chunk(2) [OF X enc] by (simp add: rh_aad_def rh_new_def)
    with Some s decrypt_encrypt_chunk(1) [OF X enc] show ?thesis
      by (simp add: rh_new_def)
  qed
  have unz: "(case k of CodecNone \<Rightarrow> Inr c
     | CodecZstd \<Rightarrow> ok_or (zstd_decode X c) (CorruptedSegment off ''Failed to decompress zstd chunk''))
     = Inr data"
    using c X by (auto simp: sw_compress_def ext_okD(2) split: option.splits if_splits)
  show ?thesis
    unfolding read_payload_def Let_def dec using unz cid by (simp add: rh_new_def)
qed

lemma read_record_written:
  assumes X: "ext_ok X" and c: "sw_compress X data = (c, k)"
    and e: "sw_encrypt X E vk cid k data c = Inr (p, s, nonce)"
    and cid: "cid = cid_from_data X data" and nonce: "length (env_nonce E) = 24"
    and small: "length data + 16 \<le> DEFAULT_MAX_SEGMENT_SIZE"
    and h: "h = rh_new X cid k s (word_of_nat (length data)) p nonce"
    and loc: "cl_record_offset loc = length f" "cl_payload_len loc = word_of_nat (length p)"
  shows "read_record X vk (f @ rh_write X h @ p) cid loc = Inr data"
proof -
  have p: "length p \<le> DEFAULT_MAX_SEGMENT_SIZE"
    using sw_compress_length [OF c] sw_encrypt_length [OF X e] small by linarith
  then have up: "unat (word_of_nat (length p) :: u32) = length p"
    by (intro unat_of_nat32) (simp add: DEFAULT_MAX_SEGMENT_SIZE_def)
  have wf: "wf_header h"
    using X sw_encrypt_nonce [OF nonce e] cid
    by (simp add: wf_header_def h rh_new_def RECORD_HEADER_SIZE_V3_def)
  have pl: "rh_payload_len h = word_of_nat (length p)"
    by (simp add: h rh_new_def)
  have "read_payload X vk (length f) cid h p = Inr data"
    unfolding h by (rule read_payload_sealed [OF X c e cid])
  moreover have "cread (length p) p = Inr (p, [])"
    by (simp add: cread_Inr)
  ultimately show ?thesis
    using p rh_read_write [OF wf, of X p] length_rh_write [OF wf, of X]
    by (simp add: read_record_def Let_def loc pl up size_defs not_less)
qed

section \<open>Properties\<close>

text \<open>
  C39. Records of the older format are laid out with a 56-byte header, but the reader adds the 80 bytes of
  the current header to the offset when it checks that a record fits in its file.  So the last record of
  a file in the older format is always rejected, although its header is valid and its payload complete.
\<close>

theorem legacy_last_record_rejected:
  assumes "rh_read_from X (hdr @ payload) = Inr (Some (h, payload))" "length hdr = RECORD_HEADER_SIZE_V2"
    and "unat (rh_payload_len h) = length payload"
    and "cl_record_offset loc = length pre" "cl_payload_len loc = rh_payload_len h"
  shows "\<exists>msg. read_record X vk (pre @ hdr @ payload) cid loc = Inl (CorruptedSegment (length pre) msg)"
  using assms by (simp add: read_record_def Let_def RECORD_HEADER_SIZE_V2_def RECORD_HEADER_SIZE_def RECORD_HEADER_SIZE_V3_def)

definition demo_legacy_header :: bytes where
  "demo_legacy_header = RECORD_MAGIC_V2 @ replicate 32 0 @ replicate 8 0 @ le32 3 @ replicate 4 0 @ le32 0"

lemma demo_legacy_read:
  "\<exists>h. rh_read_from (demo_ext\<lparr>crc32 := \<lambda>_. 0\<rparr>) (demo_legacy_header @ p) = Inr (Some (h, p)) \<and> rh_payload_len h = 3"
proof -
  let ?X = "demo_ext\<lparr>crc32 := \<lambda>_. 0\<rparr>"
  let ?b = "replicate 32 0 @ replicate 8 0 @ le32 3 @ replicate 4 0 @ le32 0 :: bytes"
  have m: "length RECORD_MAGIC_V2 = 4" "RECORD_MAGIC_V2 \<noteq> RECORD_MAGIC_V3"
    by (simp_all add: RECORD_MAGIC_V2_def RECORD_MAGIC_V3_def)
  have "read_exact 52 ((?b :: bytes) @ p) = Inr (?b, p)" by (rule read_exact_append) simp
  moreover have "from_le32 (rslice 52 56 (RECORD_MAGIC_V2 @ ?b)) = 0" "from_le32 (rslice 44 48 (RECORD_MAGIC_V2 @ ?b)) = 3"
    using m(1) by (simp_all add: slice_simps)
  moreover have "(RECORD_MAGIC_V2 @ ?b) ! 36 = 0" using m(1) by (simp add: nth_append)
  ultimately show ?thesis
    using m by (simp add: rh_read_from_def demo_legacy_header_def rh_parse_v2_def codec_from_u8_def)
qed

theorem legacy_last_record_rejected_witness:
  "\<exists>h msg. rh_read_from (demo_ext\<lparr>crc32 := \<lambda>_. 0\<rparr>) (demo_legacy_header @ [1, 2, 3]) = Inr (Some (h, [1, 2, 3]))
     \<and> read_record (demo_ext\<lparr>crc32 := \<lambda>_. 0\<rparr>) None ([] @ demo_legacy_header @ [1, 2, 3]) (cid_from_raw (replicate 32 0))
          \<lparr>cl_segment_id = 1, cl_record_offset = 0, cl_payload_offset = 56, cl_payload_len = 3, cl_raw_len = 3\<rparr>
        = Inl (CorruptedSegment (length ([] :: bytes)) msg)"
proof -
  obtain h where h: "rh_read_from (demo_ext\<lparr>crc32 := \<lambda>_. 0\<rparr>) (demo_legacy_header @ [1, 2, 3]) = Inr (Some (h, [1, 2, 3]))"
    "rh_payload_len h = 3" using demo_legacy_read by blast
  have "length demo_legacy_header = RECORD_HEADER_SIZE_V2"
    by (simp add: demo_legacy_header_def RECORD_HEADER_SIZE_V2_def RECORD_MAGIC_V2_def)
  from legacy_last_record_rejected [OF h(1) this, where pre = "[]" and vk = None and cid = "cid_from_raw (replicate 32 0)"
      and loc = "\<lparr>cl_segment_id = 1, cl_record_offset = 0, cl_payload_offset = 56, cl_payload_len = 3, cl_raw_len = 3\<rparr>"] h
  show ?thesis by simp
qed

end
