(* ===== verification/Oos_Chunk_Interface.thy ===== *)
theory Oos_Chunk_Interface
  imports Oos_Ids
begin

text \<open>
  What a content-addressed chunk store promises to its clients (the engine's write path, log replay
  and file extraction), stated once as the locale \<open>chunk_store\<close>.  Both stores of the program satisfy
  it: the segment store (\<^verbatim>\<open>Oos_Segment_Put\<close>) and the file-per-chunk store (\<^verbatim>\<open>Oos_Chunk_Store\<close>).
  BLAKE3 being a parameter, two different chunks may have the same id; a client that needs the exact
  bytes back assumes that the chunks it is concerned with do not collide (\<open>collision_free\<close>).
\<close>

definition collision_free :: "ext \<Rightarrow> bytes set \<Rightarrow> bool" where
  "collision_free X S \<longleftrightarrow> inj_on (cid_from_data X) S"

lemma collision_freeD:
  "collision_free X S \<Longrightarrow> a \<in> S \<Longrightarrow> b \<in> S \<Longrightarrow> cid_from_data X a = cid_from_data X b \<Longrightarrow> a = b"
  by (simp add: collision_free_def inj_on_def)

text \<open>Reading the chunks of a list one after the other, as file extraction does.\<close>

fun get_all :: "(chunk_id \<Rightarrow> bytes result) \<Rightarrow> chunk_id list \<Rightarrow> bytes list result" where
  "get_all get [] = Inr []"
| "get_all get (c # cs) = bindE (get c) (\<lambda>d. bindE (get_all get cs) (\<lambda>ds. Inr (d # ds)))"

lemma get_all_Inr:
  "get_all get cs = Inr ds \<longleftrightarrow> list_all2 (\<lambda>c d. get c = Inr d) cs ds"
  by (induction cs arbitrary: ds) (auto simp: bindE_eq_Inr list_all2_Cons1)

text \<open>Storing the chunks of a list in order; the environments are the randomness of each call.\<close>

fun put_all ::
    "('e \<Rightarrow> 's \<Rightarrow> bytes \<Rightarrow> ('s \<times> chunk_id \<times> bool) result) \<Rightarrow> 's \<Rightarrow> ('e \<times> bytes) list
       \<Rightarrow> ('s \<times> chunk_id list \<times> nat) result" where
  "put_all put s [] = Inr (s, [], 0)"
| "put_all put s ((e, d) # eds) =
     bindE (put e s d) (\<lambda>(s', c, is_new).
     bindE (put_all put s' eds) (\<lambda>(s'', cs, n). Inr (s'', c # cs, if is_new then Suc n else n)))"

locale chunk_store =
  fixes X :: ext
    and put :: "'e \<Rightarrow> 's \<Rightarrow> bytes \<Rightarrow> ('s \<times> chunk_id \<times> bool) result"
    and get :: "'s \<Rightarrow> chunk_id \<Rightarrow> bytes result"
    and has :: "'s \<Rightarrow> chunk_id \<Rightarrow> bool"
    and env_ok :: "'e \<Rightarrow> bool"
    and storable :: "bytes \<Rightarrow> bool"
    and invar :: "'s \<Rightarrow> bool"
  assumes put_id: "put e s d = Inr (s', c, b) \<Longrightarrow> c = cid_from_data X d"
    and put_old: "put e s d = Inr (s', c, False) \<Longrightarrow> s' = s \<and> has s c"
    and put_new: "invar s \<Longrightarrow> env_ok e \<Longrightarrow> storable d \<Longrightarrow> put e s d = Inr (s', c, True)
      \<Longrightarrow> \<not> has s c \<and> get s' c = Inr d"
    and put_keeps: "invar s \<Longrightarrow> env_ok e \<Longrightarrow> storable d \<Longrightarrow> put e s d = Inr (s', c, b)
      \<Longrightarrow> get s c' = Inr d' \<Longrightarrow> get s' c' = Inr d'"
    and put_has: "put e s d = Inr (s', c, b) \<Longrightarrow> has s' c' \<longleftrightarrow> has s c' \<or> c' = c"
    and put_invar: "invar s \<Longrightarrow> env_ok e \<Longrightarrow> storable d \<Longrightarrow> put e s d = Inr (s', c, b) \<Longrightarrow> invar s'"
    and has_get: "invar s \<Longrightarrow> has s c \<longleftrightarrow> (\<exists>d. get s c = Inr d)"
    and get_id: "get s c = Inr d \<Longrightarrow> cid_from_data X d = c"
begin

text \<open>After a put the id is readable, and what is read hashes to the id of what was put.\<close>

lemma put_get:
  assumes "invar s" "env_ok e" "storable d" "put e s d = Inr (s', c, b)"
  shows "\<exists>d'. get s' c = Inr d' \<and> cid_from_data X d' = cid_from_data X d"
proof (cases b)
  case True
  with assms(4) have "put e s d = Inr (s', c, True)" by simp
  then have "get s' c = Inr d" using put_new assms(1-3) by blast
  then show ?thesis by simp
next
  case False
  with assms(4) have "put e s d = Inr (s', c, False)" by simp
  then have "s' = s" "has s c" using put_old by auto
  then obtain d' where "get s' c = Inr d'" using has_get [OF assms(1)] by auto
  then show ?thesis using get_id put_id [OF assms(4)] by blast
qed

lemma put_get_exact:
  assumes "invar s" "env_ok e" "storable d" "put e s d = Inr (s', c, b)"
    and "get s' c = Inr d'" "collision_free X {d, d'}"
  shows "d' = d"
  using put_get [OF assms(1-4)] assms(5) collision_freeD [OF assms(6), of d' d] by auto

text \<open>A whole list of chunks, as a file is written.\<close>

lemma put_all_invar:
  "put_all put s eds = Inr (s', cs, n) \<Longrightarrow> invar s \<Longrightarrow> \<forall>(e, d) \<in> set eds. env_ok e \<and> storable d \<Longrightarrow> invar s'"
  by (induction eds arbitrary: s cs n) (auto simp: bindE_eq_Inr put_invar)

lemma put_all_ids: "put_all put s eds = Inr (s', cs, n) \<Longrightarrow> cs = map (cid_from_data X \<circ> snd) eds"
  by (induction eds arbitrary: s cs n) (auto simp: bindE_eq_Inr put_id)

lemma put_all_keeps:
  "put_all put s eds = Inr (s', cs, n) \<Longrightarrow> invar s \<Longrightarrow> \<forall>(e, d) \<in> set eds. env_ok e \<and> storable d
   \<Longrightarrow> get s c = Inr d \<Longrightarrow> get s' c = Inr d"
proof (induction eds arbitrary: s cs n)
  case (Cons ed eds)
  then show ?case
    by (cases ed) (auto simp: bindE_eq_Inr intro: Cons.IH put_invar put_keeps)
qed simp

lemma put_all_has:
  "put_all put s eds = Inr (s', cs, n) \<Longrightarrow> has s' c \<longleftrightarrow> has s c \<or> c \<in> set cs"
proof (induction eds arbitrary: s cs n)
  case (Cons ed eds)
  from Cons.prems obtain s1 c1 b1 cs1 n1 where "put (fst ed) s (snd ed) = Inr (s1, c1, b1)"
    "put_all put s1 eds = Inr (s', cs1, n1)" "cs = c1 # cs1"
    by (cases ed) (auto simp: bindE_eq_Inr)
  then show ?case using put_has [of "fst ed" s "snd ed" s1 c1 b1 c] Cons.IH [of s1 cs1 n1] by auto
qed simp

lemma put_all_get:
  assumes "put_all put s eds = Inr (s', cs, n)" "invar s" "\<forall>(e, d) \<in> set eds. env_ok e \<and> storable d"
  shows "\<exists>ds. get_all (get s') cs = Inr ds \<and> map (cid_from_data X) ds = cs"
proof -
  have "\<exists>d. get s' c = Inr d" if "c \<in> set cs" for c
    using that put_all_has [OF assms(1)] has_get [OF put_all_invar [OF assms]] by auto
  then have "\<exists>ds. get_all (get s') cs' = Inr ds \<and> map (cid_from_data X) ds = cs'"
    if "set cs' \<subseteq> set cs" for cs'
    using that
  proof (induction cs')
    case (Cons c cs')
    then obtain ds where "get_all (get s') cs' = Inr ds" "map (cid_from_data X) ds = cs'" by auto
    moreover obtain d where "get s' c = Inr d" using Cons.prems by auto
    ultimately show ?case using get_id by auto
  qed simp
  then show ?thesis by blast
qed

text \<open>Without collisions among the chunks concerned, a file's chunks are read back exactly.\<close>

lemma put_all_roundtrip:
  assumes "put_all put s eds = Inr (s', cs, n)" "invar s" "\<forall>(e, d) \<in> set eds. env_ok e \<and> storable d"
    and cf: "collision_free X (set (map snd eds) \<union> {d. \<exists>c. get s' c = Inr d})"
  shows "get_all (get s') cs = Inr (map snd eds)"
proof -
  obtain ds where ds: "get_all (get s') cs = Inr ds" "map (cid_from_data X) ds = cs"
    using put_all_get [OF assms(1-3)] by blast
  have cs: "map (cid_from_data X) ds = map (cid_from_data X) (map snd eds)"
    using ds(2) put_all_ids [OF assms(1)] by simp
  have "set ds \<subseteq> {d. \<exists>c. get s' c = Inr d}"
    using ds(1) unfolding get_all_Inr list_all2_conv_all_nth by (auto simp: in_set_conv_nth) metis
  with cf cs have "ds = map snd eds"
    unfolding collision_free_def by (intro map_inj_on [OF cs]) (auto elim: inj_on_subset)
  with ds(1) show ?thesis by simp
qed

text \<open>The number of chunks reported as new is at most the number of chunks.\<close>

lemma put_all_new_le: "put_all put s eds = Inr (s', cs, n) \<Longrightarrow> n \<le> length cs"
  by (induction eds arbitrary: s cs n) (fastforce simp: bindE_eq_Inr split: if_splits)+

end

end
