(* ===== verification/Oos_Segment_Put.thy ===== *)
theory Oos_Segment_Put
  imports Oos_Segment_Store Oos_Chunk_Interface
begin

text \<open>
  The invariant of an open segment store and the proof that \<^verbatim>\<open>put_chunk\<close> and \<^verbatim>\<open>get_chunk\<close> implement
  the interface \<open>chunk_store\<close>: an append never changes what the index can read, and the record just
  written reads back as the data it was made from, through compression and encryption.
\<close>

section \<open>The invariant\<close>

text \<open>
  The writer's file exists and ends at the writer's offset, and no segment with a higher number exists.
\<close>

definition w_inv :: "dir \<Rightarrow> seg_writer \<Rightarrow> bool" where
  "w_inv d w \<longleftrightarrow> w_file_open w
     \<and> (\<exists>f. dir_get d (segment_file_name (w_segment_id w)) = Some f \<and> length f = w_offset w)
     \<and> (\<forall>sid > w_segment_id w. dir_get d (segment_file_name sid) = None)"

definition ss_inv :: "ext \<Rightarrow> seg_store \<Rightarrow> bool" where
  "ss_inv X s \<longleftrightarrow> idx_inv (ss_index s) \<and> w_inv (ss_files s) (ss_writer s)
     \<and> w_vault_key (ss_writer s) = ss_vault_key s
     \<and> (\<forall>cid loc. idx_get (ss_index s) cid = Some loc \<longrightarrow>
          (\<exists>data. read_chunk X (ss_vault_key s) (ss_files s) cid loc = Inr data))"

definition env_ok :: "env \<Rightarrow> bool" where
  "env_ok E \<longleftrightarrow> length (env_nonce E) = 24"

text \<open>Chunks the reader's size check lets through again.\<close>

definition storable :: "bytes \<Rightarrow> bool" where
  "storable data \<longleftrightarrow> length data + 16 \<le> DEFAULT_MAX_SEGMENT_SIZE"

section \<open>The writer\<close>

lemma sw_open_fresh:
  assumes "sw_open E d sid 0 mx vk = (d', w)" and "dir_get d (segment_file_name sid) = None"
  shows "dir_get d' (segment_file_name sid)
       = Some (sh_write \<lparr>sh_segment_id = word_of_nat sid, sh_created_at = env_now E\<rparr>)"
    and "dir_extends d d'" and "w_segment_id w = sid" and "w_offset w = 32" and "w_file_open w"
    and "w_vault_key w = vk" and "n \<noteq> segment_file_name sid \<Longrightarrow> dir_get d' n = dir_get d n"
  using assms by (auto simp: sw_open_def Let_def write_at_def size_defs dir_extends_put_new)

lemma sw_rotate_inv:
  assumes "sw_rotate E d w = (d', w')" and "w_inv d w"
  shows "w_inv d' w'" and "dir_extends d d'" and "w_vault_key w' = w_vault_key w"
    and "w_segment_id w' = w_segment_id w + 1"
proof -
  have none: "dir_get d (segment_file_name (w_segment_id w + 1)) = None"
    using assms(2) by (simp add: w_inv_def)
  note * = sw_open_fresh [OF assms(1) [unfolded sw_rotate_def] none]
  show "dir_extends d d'" "w_vault_key w' = w_vault_key w" "w_segment_id w' = w_segment_id w + 1"
    using * by auto
  show "w_inv d' w'"
    using * assms(2) by (auto simp: w_inv_def)
qed

text \<open>The state the record is written in: after the rotation, if there is one.\<close>

definition sw_target :: "env \<Rightarrow> dir \<Rightarrow> seg_writer \<Rightarrow> nat \<Rightarrow> dir \<times> seg_writer" where
  "sw_target E d w plen =
     (if w_max_segment_size w < w_offset w + (RECORD_HEADER_SIZE_V3 + plen) then sw_rotate E d w else (d, w))"

lemma sw_target_inv:
  assumes "sw_target E d w n = (d', w')" and "w_inv d w"
  shows "w_inv d' w'" and "dir_extends d d'" and "w_vault_key w' = w_vault_key w"
  using assms sw_rotate_inv [of E d w d' w'] by (auto simp: sw_target_def split: if_splits)

lemma sw_append_Inr:
  assumes "sw_append X E d w idx cid data = Inr (d', w', idx', loc)" and inv: "w_inv d w"
  obtains c k p s nonce d1 w1 f h where
    "sw_compress X data = (c, k)" "sw_encrypt X E (w_vault_key w) cid k data c = Inr (p, s, nonce)"
    "sw_target E d w (length p) = (d1, w1)"
    "h = rh_new X cid k s (word_of_nat (length data)) p nonce"
    "dir_get d1 (segment_file_name (w_segment_id w1)) = Some f" "length f = w_offset w1"
    "d' = dir_put d1 (segment_file_name (w_segment_id w1)) (f @ rh_write X h @ p)"
    "w' = w1\<lparr>w_offset := length f + (RECORD_HEADER_SIZE_V3 + length p)\<rparr>"
    "loc = \<lparr>cl_segment_id = w_segment_id w1, cl_record_offset = length f,
            cl_payload_offset = length f + RECORD_HEADER_SIZE_V3,
            cl_payload_len = word_of_nat (length p), cl_raw_len = word_of_nat (length data)\<rparr>"
    "idx' = idx_insert idx cid loc"
proof -
  obtain c k where c: "sw_compress X data = (c, k)" by fastforce
  from assms(1) obtain p s nonce where e: "sw_encrypt X E (w_vault_key w) cid k data c = Inr (p, s, nonce)"
    by (auto simp: sw_append_def c bindE_eq_Inr)
  obtain d1 w1 where t: "sw_target E d w (length p) = (d1, w1)" by fastforce
  obtain f where f: "dir_get d1 (segment_file_name (w_segment_id w1)) = Some f" "length f = w_offset w1"
    using sw_target_inv(1) [OF t inv] by (auto simp: w_inv_def)
  have "Inr (d', w', idx', loc) =
     (let n = segment_file_name (w_segment_id w1);
          loc = \<lparr>cl_segment_id = w_segment_id w1, cl_record_offset = length f,
            cl_payload_offset = length f + RECORD_HEADER_SIZE_V3,
            cl_payload_len = word_of_nat (length p), cl_raw_len = word_of_nat (length data)\<rparr>
      in Inr (dir_put d1 n (f @ rh_write X (rh_new X cid k s (word_of_nat (length data)) p nonce) @ p),
           w1\<lparr>w_offset := length f + (RECORD_HEADER_SIZE_V3 + length p)\<rparr>, idx_insert idx cid loc, loc))"
    using assms(1) t f by (auto simp: sw_append_def c e Let_def sw_target_def [symmetric] split: if_splits)
  then show thesis
    by (intro that [OF c e t refl f]) (simp_all add: Let_def)
qed

text \<open>
  An append keeps the writer's invariant, only extends files, and the record it wrote reads back.
\<close>

lemma sw_append_spec:
  assumes app: "sw_append X E d w idx cid data = Inr (d', w', idx', loc)" and inv: "w_inv d w"
    and X: "ext_ok X" and E: "env_ok E" and cid: "cid = cid_from_data X data"
  shows "w_inv d' w'" and "dir_extends d d'" and "w_vault_key w' = w_vault_key w"
    and "idx' = idx_insert idx cid loc"
    and "storable data \<Longrightarrow> read_chunk X (w_vault_key w) d' cid loc = Inr data"
    and "cl_raw_len loc = word_of_nat (length data)"
proof -
  obtain c k p s nonce d1 w1 f h where c: "sw_compress X data = (c, k)"
    and e: "sw_encrypt X E (w_vault_key w) cid k data c = Inr (p, s, nonce)"
    and tg: "sw_target E d w (length p) = (d1, w1)"
    and h: "h = rh_new X cid k s (word_of_nat (length data)) p nonce"
    and f: "dir_get d1 (segment_file_name (w_segment_id w1)) = Some f" "length f = w_offset w1"
    and d': "d' = dir_put d1 (segment_file_name (w_segment_id w1)) (f @ rh_write X h @ p)"
    and w': "w' = w1\<lparr>w_offset := length f + (RECORD_HEADER_SIZE_V3 + length p)\<rparr>"
    and loc: "loc = \<lparr>cl_segment_id = w_segment_id w1, cl_record_offset = length f,
            cl_payload_offset = length f + RECORD_HEADER_SIZE_V3,
            cl_payload_len = word_of_nat (length p), cl_raw_len = word_of_nat (length data)\<rparr>"
    and idx': "idx' = idx_insert idx cid loc"
    using sw_append_Inr [OF app inv] by metis
  note t = sw_target_inv [OF tg inv]
  have nonce: "length (env_nonce E) = 24" using E by (simp add: env_ok_def)
  have "wf_header h"
    using X sw_encrypt_nonce [OF nonce e] cid
    by (simp add: wf_header_def h rh_new_def RECORD_HEADER_SIZE_V3_def)
  from length_rh_write [OF this, of X] t(1) show "w_inv d' w'"
    by (auto simp: w_inv_def d' w' size_defs)
  show "dir_extends d d'"
    using dir_extends_trans [OF t(2)] dir_extends_put_append [OF f(1)] d' by simp
  show "w_vault_key w' = w_vault_key w" "idx' = idx_insert idx cid loc"
    "cl_raw_len loc = word_of_nat (length data)"
    using t(3) by (simp_all add: w' idx' loc)
  show "read_chunk X (w_vault_key w) d' cid loc = Inr data" if "storable data"
    using read_record_written [OF X c e cid nonce _ h] that
    by (simp add: read_chunk_Inr d' loc storable_def)
qed

section \<open>The store\<close>

lemma ss_put_chunk_new:
  assumes "ss_put_chunk X E s data = Inr (s', c, b)" and "b"
  obtains d w idx loc where "\<not> ss_has_chunk s c" "c = cid_from_data X data"
    "sw_append X E (ss_files s) (ss_writer s) (ss_index s) c data = Inr (d, w, idx, loc)"
    "s' = s\<lparr>ss_files := d, ss_index := idx, ss_writer := w\<rparr>"
  using assms by (auto simp: ss_put_chunk_def Let_def ss_has_chunk_def bindE_eq_Inr split: if_splits)

lemma ss_put_chunk_old:
  "ss_put_chunk X E s data = Inr (s', c, False) \<Longrightarrow> s' = s \<and> ss_has_chunk s c \<and> c = cid_from_data X data"
  by (auto simp: ss_put_chunk_def Let_def ss_has_chunk_def bindE_eq_Inr split: if_splits)

lemma ss_get_chunk_Inr:
  "ss_get_chunk X s c = Inr d \<longleftrightarrow>
   (\<exists>loc. idx_get (ss_index s) c = Some loc \<and> read_chunk X (ss_vault_key s) (ss_files s) c loc = Inr d)"
  by (auto simp: ss_get_chunk_def bindE_eq_Inr)

lemma ss_put_chunk_spec:
  assumes put: "ss_put_chunk X E s data = Inr (s', c, True)" and inv: "ss_inv X s"
    and X: "ext_ok X" and E: "env_ok E" and st: "storable data"
  shows "ss_inv X s'" and "ss_get_chunk X s' c = Inr data"
    and "ss_get_chunk X s c' = Inr d' \<Longrightarrow> ss_get_chunk X s' c' = Inr d'"
proof -
  obtain d w idx loc where new: "\<not> ss_has_chunk s c" and c: "c = cid_from_data X data"
    and app: "sw_append X E (ss_files s) (ss_writer s) (ss_index s) c data = Inr (d, w, idx, loc)"
    and s': "s' = s\<lparr>ss_files := d, ss_index := idx, ss_writer := w\<rparr>"
    using ss_put_chunk_new [OF put] by blast
  have iinv: "idx_inv (ss_index s)" and winv: "w_inv (ss_files s) (ss_writer s)"
    and vk: "w_vault_key (ss_writer s) = ss_vault_key s"
    using inv by (auto simp: ss_inv_def)
  note a = sw_append_spec [OF app winv X E c]
  have get: "idx_get idx k = (if k = c then Some loc else idx_get (ss_index s) k)" for k
    using a(4) idx.get_insert [OF iinv] by simp
  show g: "ss_get_chunk X s' c = Inr data"
    using a(5) [OF st] by (simp add: ss_get_chunk_Inr s' get vk)
  show keep: "ss_get_chunk X s' c' = Inr d'" if "ss_get_chunk X s c' = Inr d'" for c' d'
    using that new read_chunk_extends [OF _ a(2)]
    by (auto simp: ss_get_chunk_Inr s' get ss_has_chunk_def idx_contains_def)
  have "\<exists>data. read_chunk X (ss_vault_key s) d cid l = Inr data" if "idx_get idx cid = Some l" for cid l
    using that inv a(5) [OF st] read_chunk_extends [OF _ a(2)]
    by (fastforce simp: get vk ss_inv_def split: if_splits)
  then show "ss_inv X s'"
    using a(1,3,4) idx.invar_insert [OF iinv] vk by (simp add: ss_inv_def s')
qed

lemma sw_append_idx:
  assumes "sw_append X E d w idx cid data = Inr (d', w', idx', loc)"
  shows "idx' = idx_insert idx cid loc"
proof -
  obtain c k where c: "sw_compress X data = (c, k)" by fastforce
  from assms obtain p s nonce where e: "sw_encrypt X E (w_vault_key w) cid k data c = Inr (p, s, nonce)"
    by (auto simp: sw_append_def c bindE_eq_Inr)
  obtain d1 w1 where "sw_target E d w (length p) = (d1, w1)" by fastforce
  then show ?thesis
    using assms by (auto simp: sw_append_def c e Let_def sw_target_def [symmetric] split: if_splits)
qed

lemma ss_put_chunk_has:
  assumes "ss_put_chunk X E s data = Inr (s', c, b)"
  shows "ss_has_chunk s' c' \<longleftrightarrow> ss_has_chunk s c' \<or> c' = c"
  using assms
  by (auto simp: ss_put_chunk_def Let_def ss_has_chunk_def idx_contains_def idx_get_def
      idx_insert_def bindE_eq_Inr update_conv dest!: sw_append_idx split: if_splits)

section \<open>The segment store is a chunk store\<close>

text \<open>
  The laws hold for every instance of the third-party functions that satisfies \<open>ext_ok\<close>; the
  condition is part of the invariant because the interpretation ranges over all instances.
\<close>

definition seg_invar :: "ext \<Rightarrow> seg_store \<Rightarrow> bool" where
  "seg_invar X s \<longleftrightarrow> ext_ok X \<and> ss_inv X s"

lemma ss_put_chunk_id: "ss_put_chunk X E s data = Inr (s', c, b) \<Longrightarrow> c = cid_from_data X data"
  by (auto simp: ss_put_chunk_def Let_def bindE_eq_Inr split: if_splits)

lemma ss_get_chunk_id: "ss_get_chunk X s c = Inr d \<Longrightarrow> cid_from_data X d = c"
  by (auto simp: ss_get_chunk_Inr intro: read_chunk_id)

lemma ss_put_chunk_cases:
  assumes "ss_put_chunk X E s data = Inr (s', c, b)"
  obtains (old) "\<not> b" "s' = s" "ss_has_chunk s c"
    | (new) "b" "\<not> ss_has_chunk s c" "ss_put_chunk X E s data = Inr (s', c, True)"
  using assms by (cases b) (auto dest: ss_put_chunk_old elim: ss_put_chunk_new)

interpretation seg: chunk_store X "ss_put_chunk X" "ss_get_chunk X" ss_has_chunk env_ok storable "seg_invar X"
proof
  fix e s d s' c b c' d'
  assume put: "ss_put_chunk X e s d = Inr (s', c, b)"
  show "c = cid_from_data X d" by (rule ss_put_chunk_id [OF put])
  show "ss_has_chunk s' c' \<longleftrightarrow> ss_has_chunk s c' \<or> c' = c" by (rule ss_put_chunk_has [OF put])
  assume inv: "seg_invar X s" and "env_ok e" "storable d"
  then have X: "ext_ok X" "ss_inv X s" by (auto simp: seg_invar_def)
  from put show "seg_invar X s'"
    using ss_put_chunk_spec(1) [OF _ X(2,1) \<open>env_ok e\<close> \<open>storable d\<close>] X inv
    by (cases rule: ss_put_chunk_cases) (auto simp: seg_invar_def)
  assume "ss_get_chunk X s c' = Inr d'"
  with put show "ss_get_chunk X s' c' = Inr d'"
    using ss_put_chunk_spec(3) [OF _ X(2,1) \<open>env_ok e\<close> \<open>storable d\<close>]
    by (cases rule: ss_put_chunk_cases) auto
next
  fix e s d s' c
  assume "ss_put_chunk X e s d = Inr (s', c, False)"
  then show "s' = s \<and> ss_has_chunk s c" by (auto dest: ss_put_chunk_old)
next
  fix e s d s' c
  assume "seg_invar X s" "env_ok e" "storable d" and put: "ss_put_chunk X e s d = Inr (s', c, True)"
  then show "\<not> ss_has_chunk s c \<and> ss_get_chunk X s' c = Inr d"
    using ss_put_chunk_spec(2) [OF put] by (auto simp: seg_invar_def elim: ss_put_chunk_new)
next
  fix s c
  assume "seg_invar X s"
  then show "ss_has_chunk s c \<longleftrightarrow> (\<exists>d. ss_get_chunk X s c = Inr d)"
    by (auto simp: seg_invar_def ss_inv_def ss_has_chunk_def idx_contains_def ss_get_chunk_Inr)
next
  fix s c d
  assume "ss_get_chunk X s c = Inr d"
  then show "cid_from_data X d = c" by (rule ss_get_chunk_id)
qed

text \<open>Reclaiming index entries keeps the invariant and what reachable chunks read as.\<close>

lemma ss_reclaim_inv:
  assumes "ss_reclaim_unreachable s R = (s', n)" "ss_inv X s"
  shows "ss_inv X s'" and "c \<in> R \<Longrightarrow> ss_get_chunk X s' c = ss_get_chunk X s c"
    and "ss_has_chunk s' c \<longleftrightarrow> ss_has_chunk s c \<and> c \<in> R"
proof -
  obtain m where m: "idx_retain (\<lambda>k _. k \<in> R) (ss_index s) = (m, n)" and s': "s' = s\<lparr>ss_index := m\<rparr>"
    using assms(1) by (auto simp: ss_reclaim_unreachable_def split: prod.splits)
  have iinv: "idx_inv (ss_index s)" using assms(2) by (simp add: ss_inv_def)
  have get: "idx_get m k = (if k \<in> R then idx_get (ss_index s) k else None)" for k
    using idx_retain_get(1) [OF iinv m, of k] by (auto split: option.splits)
  show "ss_inv X s'"
    using assms(2) idx_retain_inv [OF iinv, of "\<lambda>k _. k \<in> R"] m
    by (auto simp: ss_inv_def s' get split: if_splits)
  show "c \<in> R \<Longrightarrow> ss_get_chunk X s' c = ss_get_chunk X s c"
    by (simp add: ss_get_chunk_def s' get)
  show "ss_has_chunk s' c \<longleftrightarrow> ss_has_chunk s c \<and> c \<in> R"
    by (simp add: ss_has_chunk_def idx_contains_def s' get)
qed

section \<open>Properties\<close>

text \<open>A fresh store, for closed examples.\<close>

definition demo_env :: env where
  "demo_env = \<lparr>env_now = 0, env_nonce = replicate 24 0\<rparr>"

definition demo_store :: seg_store where
  "demo_store = (case sw_open demo_env [] 1 0 0 None of
     (d, w) \<Rightarrow> \<lparr>ss_files = d, ss_index = idx_new, ss_writer = w, ss_vault_key = None\<rparr>)"

lemma demo_env_ok [simp]: "env_ok demo_env"
  by (simp add: env_ok_def demo_env_def)

lemma demo_store_inv: "ss_inv X demo_store"
proof -
  obtain d w where dw: "sw_open demo_env [] 1 0 0 None = (d, w)" by fastforce
  note f = sw_open_fresh [OF dw dir_get_Nil]
  have "w_inv d w" using f(1,3,4,5,7) by (auto simp: w_inv_def)
  then show ?thesis
    using f(6) idx.invar_empty idx.get_empty by (simp add: ss_inv_def demo_store_def dw [simplified])
qed

text \<open>Without a vault key, storing a new chunk cannot fail.\<close>

lemma ss_put_chunk_plain:
  assumes "w_vault_key (ss_writer s) = None" "w_file_open (ss_writer s)" "\<not> ss_has_chunk s (cid_from_data X data)"
  shows "\<exists>s' c. ss_put_chunk X E s data = Inr (s', c, True)"
proof -
  obtain c k where c: "sw_compress X data = (c, k)" by fastforce
  obtain d w where t: "sw_target E (ss_files s) (ss_writer s) (length c) = (d, w)" by fastforce
  then have "w_file_open w"
    using assms(2) by (auto simp: sw_target_def sw_rotate_def sw_open_def Let_def split: if_splits)
  then have "\<exists>d' w' idx loc. sw_append X E (ss_files s) (ss_writer s) (ss_index s) (cid_from_data X data) data
      = Inr (d', w', idx, loc)"
    using t by (auto simp: sw_append_def c sw_encrypt_def assms(1) Let_def sw_target_def split: if_splits)
  then show ?thesis using assms(3) by (auto simp: ss_put_chunk_def Let_def ss_has_chunk_def)
qed

text \<open>
  Storing a chunk in the segment store, with or without compression and encryption: the id is the
  content hash; afterwards the id reads as data with that hash, and as the very data when the chunk was
  new; every chunk that could be read before reads the same; a chunk already present changes nothing.
\<close>

theorem segment_put_get:
  assumes "ext_ok X" "ss_inv X s" "env_ok E" "storable data" "ss_put_chunk X E s data = Inr (s', c, is_new)"
  shows "c = cid_from_data X data \<and> ss_inv X s'
    \<and> (\<exists>d. ss_get_chunk X s' c = Inr d \<and> cid_from_data X d = c \<and> (is_new \<longrightarrow> d = data))
    \<and> (\<forall>c' d'. ss_get_chunk X s c' = Inr d' \<longrightarrow> ss_get_chunk X s' c' = Inr d')
    \<and> (\<not> is_new \<longrightarrow> s' = s)"
proof -
  have inv: "seg_invar X s" using assms(1,2) by (simp add: seg_invar_def)
  have c: "c = cid_from_data X data" by (rule seg.put_id [OF assms(5)])
  have "\<exists>d. ss_get_chunk X s' c = Inr d \<and> cid_from_data X d = c"
    using seg.put_get [OF inv assms(3,4,5)] c by auto
  then have rd: "\<exists>d. ss_get_chunk X s' c = Inr d \<and> cid_from_data X d = c \<and> (is_new \<longrightarrow> d = data)"
    using seg.put_new [OF inv assms(3,4)] assms(5) by (cases is_new) auto
  have old: "\<not> is_new \<longrightarrow> s' = s"
    using ss_put_chunk_old [of X E s data s' c] assms(5) by (cases is_new) auto
  have inv': "ss_inv X s'" using seg.put_invar [OF inv assms(3,4,5)] by (simp add: seg_invar_def)
  have "\<forall>c' d'. ss_get_chunk X s c' = Inr d' \<longrightarrow> ss_get_chunk X s' c' = Inr d'"
    by (intro allI impI) (rule seg.put_keeps [OF inv assms(3,4,5)])
  then show ?thesis using c rd old inv' by (intro conjI)
qed

theorem segment_put_get_witness:
  "\<exists>s' c. ss_put_chunk demo_ext demo_env demo_store [1, 2, 3] = Inr (s', c, True)
     \<and> ss_get_chunk demo_ext s' c = Inr [1, 2, 3]"
proof -
  have "w_vault_key (ss_writer demo_store) = None" "w_file_open (ss_writer demo_store)"
    "\<not> ss_has_chunk demo_store (cid_from_data demo_ext [1, 2, 3])"
    by (simp_all add: demo_store_def sw_open_def Let_def ss_has_chunk_def idx_contains_def idx_get_def idx_new_def)
  from ss_put_chunk_plain [OF this]
  have "\<exists>s' c. ss_put_chunk demo_ext demo_env demo_store [1, 2, 3] = Inr (s', c, True)" .
  then obtain s' c where p: "ss_put_chunk demo_ext demo_env demo_store [1, 2, 3] = Inr (s', c, True)" by blast
  have "storable [1, 2, 3]" by (simp add: storable_def DEFAULT_MAX_SEGMENT_SIZE_def)
  note ok = segment_put_get [OF demo_ext_ok demo_store_inv demo_env_ok this p]
  have "ss_get_chunk demo_ext s' c = Inr [1, 2, 3]"
    using ok [THEN conjunct2, THEN conjunct2, THEN conjunct1] by (elim exE conjE) simp
  with p show ?thesis by blast
qed

end
