(* ===== verification/Oos_Segment_Recovery.thy ===== *)
theory Oos_Segment_Recovery
  imports Oos_Segment_Put
begin

text \<open>
  Opening a segment store (\<^verbatim>\<open>core/src/segment/store.rs\<close>, \<^verbatim>\<open>recover_and_index\<close> and
  \<^verbatim>\<open>with_max_segment_size_and_vault\<close>): the roll-back of an interrupted compaction, the scan of every
  segment file that rebuilds the index, and the truncation of a torn record at the end of the newest
  file.  The second half relates the scan to the log the writer produced.
\<close>

section \<open>The directory on disk\<close>

text \<open>The segment files and the staging directories of compactions.\<close>

record seg_disk =
  sd_files :: dir
  sd_dirs :: "(rstring \<times> dir) list"

definition compact_marker :: rstring where
  "compact_marker = bytes_of ''.compact_done''"

definition COMPACT_DONE :: bytes where
  "COMPACT_DONE = bytes_of ''COMPACT_DONE''"

definition is_old_name :: "rstring \<Rightarrow> bool" where
  "is_old_name n \<longleftrightarrow> starts_with n (bytes_of ''segment_'') \<and> ends_with n (bytes_of ''.seg.old'')"

definition strip_old :: "rstring \<Rightarrow> rstring" where
  "strip_old n = take (length n - 4) n"

text \<open>Put one backup back in place of whatever carries its name.\<close>

definition restore_old :: "dir \<Rightarrow> rstring \<Rightarrow> dir" where
  "restore_old d n =
     (let active = strip_old n;
          d' = (if dir_get d active \<noteq> None then dir_del d active else d)
      in dir_rename d' n active)"

definition compact_cleanup :: "seg_disk \<Rightarrow> seg_disk" where
  "compact_cleanup sd =
     (let d = sd_files sd;
          done = (dir_get d compact_marker = Some COMPACT_DONE);
          dirs = filter (\<lambda>(n, _). \<not> starts_with n (bytes_of ''.compact_tmp_'')) (sd_dirs sd);
          olds = filter is_old_name (dir_names d);
          d' = (if olds \<noteq> []
                then if done then dir_del (foldl dir_del d olds) compact_marker
                     else dir_del (foldl restore_old d olds) compact_marker
                else if dir_get d compact_marker \<noteq> None then dir_del d compact_marker else d)
      in \<lparr>sd_files = d', sd_dirs = dirs\<rparr>)"

section \<open>The scan\<close>

text \<open>
  The \<^verbatim>\<open>while\<close> loop over the records of one file.  It returns the (possibly truncated) file, the
  offset at which the log ends and the index.
\<close>

function scan_records ::
    "ext \<Rightarrow> nat \<Rightarrow> nat \<Rightarrow> bytes \<Rightarrow> nat \<Rightarrow> seg_index \<Rightarrow> (bytes \<times> nat \<times> seg_index) result" where
  "scan_records X seg_id newest f off idx =
     (if off < length f then
        (case rh_read_from X (drop off f) of
           Inr (Some (h, r)) \<Rightarrow>
             (let record_len = rh_header_size h + unat (rh_payload_len h)
              in if length f < off + record_len then
                   (if seg_id \<noteq> newest
                    then Inl (CorruptedSegment off ''Incomplete payload in sealed segment'')
                    else Inr (take off f, off, idx))
                 else
                   bindE (cread (unat (rh_payload_len h)) r) (\<lambda>(payload, _).
                   if crc32 X payload \<noteq> rh_payload_crc h
                   then Inl (CorruptedSegment off ''Payload checksum mismatch'')
                   else scan_records X seg_id newest f (off + record_len)
                          (idx_insert idx (rh_chunk_id h)
                             \<lparr>cl_segment_id = seg_id, cl_record_offset = off,
                              cl_payload_offset = off + rh_header_size h,
                              cl_payload_len = rh_payload_len h, cl_raw_len = rh_raw_len h\<rparr>)))
         | Inr None \<Rightarrow>
             if seg_id \<noteq> newest
             then Inl (CorruptedSegment off ''Incomplete header in sealed segment'')
             else Inr (take off f, off, idx)
         | Inl err \<Rightarrow>
             if seg_id \<noteq> newest \<or> err \<noteq> UnexpectedEof
             then Inl (CorruptedSegment off ''Invalid record header'')
             else Inr (take off f, off, idx))
      else Inr (f, off, idx))"
  by pat_completeness auto

text \<open>Every record read advances the offset by at least the smaller header size.\<close>

termination
  by (relation "measure (\<lambda>(X, s, n, f, off, idx). length f - off)") (auto dest: rh_read_Some(1))

declare scan_records.simps [simp del]

definition segment_ids :: "dir \<Rightarrow> nat list" where
  "segment_ids d = sort (List.map_filter segment_name_id (filter is_segment_name (dir_names d)))"

fun recover_segments ::
    "ext \<Rightarrow> nat \<Rightarrow> nat list \<Rightarrow> dir \<Rightarrow> seg_index \<Rightarrow> nat \<Rightarrow> nat
       \<Rightarrow> (dir \<times> seg_index \<times> nat \<times> nat) result" where
  "recover_segments X newest [] d idx latest_id latest_offset = Inr (d, idx, latest_id, latest_offset)"
| "recover_segments X newest (sid # sids) d idx latest_id latest_offset =
     (case dir_get d (segment_file_name sid) of
        None \<Rightarrow> Inl (Io NotFound)
      | Some f \<Rightarrow>
          bindE (map_err (\<lambda>_. CorruptedSegment 0 ''Corrupted header'') (sh_read f)) (\<lambda>_.
          bindE (scan_records X sid newest f SEGMENT_HEADER_SIZE idx) (\<lambda>(f', off, idx').
          recover_segments X newest sids (dir_put d (segment_file_name sid) f') idx' sid off)))"

definition recover_and_index :: "ext \<Rightarrow> seg_disk \<Rightarrow> (seg_disk \<times> seg_index \<times> nat \<times> nat) result" where
  "recover_and_index X sd =
     (let sd1 = compact_cleanup sd;
          ids = segment_ids (sd_files sd1)
      in if ids = [] then Inr (sd1, idx_new, 1, 0)
         else bindE (recover_segments X (last ids) ids (sd_files sd1) idx_new 1 0)
                (\<lambda>(d, idx, lid, off). Inr (sd1\<lparr>sd_files := d\<rparr>, idx, lid, off)))"

text \<open>\<^verbatim>\<open>with_max_segment_size_and_vault\<close>\<close>

definition ss_open :: "ext \<Rightarrow> env \<Rightarrow> seg_disk \<Rightarrow> nat \<Rightarrow> vault_key option \<Rightarrow> seg_store result" where
  "ss_open X E sd max_segment_size vk =
     bindE (recover_and_index X sd) (\<lambda>(sd', idx, lid, off).
     case sw_open E (sd_files sd') lid off max_segment_size vk of
       (d, w) \<Rightarrow> Inr \<lparr>ss_files = d, ss_index = idx, ss_writer = w, ss_vault_key = vk\<rparr>)"

section \<open>The log of a segment file\<close>

type_synonym seg_rec = "record_header \<times> bytes"

definition rec_bytes :: "ext \<Rightarrow> seg_rec \<Rightarrow> bytes" where
  "rec_bytes X r = rh_write X (fst r) @ snd r"

definition wf_rec :: "ext \<Rightarrow> seg_rec \<Rightarrow> bool" where
  "wf_rec X r \<longleftrightarrow> wf_header (fst r) \<and> length (snd r) < 2 ^ 32
     \<and> rh_payload_len (fst r) = word_of_nat (length (snd r)) \<and> rh_payload_crc (fst r) = crc32 X (snd r)"

definition recs_bytes :: "ext \<Rightarrow> seg_rec list \<Rightarrow> bytes" where
  "recs_bytes X rs = concat (map (rec_bytes X) rs)"

definition rec_loc :: "nat \<Rightarrow> nat \<Rightarrow> record_header \<Rightarrow> chunk_location" where
  "rec_loc sid off h = \<lparr>cl_segment_id = sid, cl_record_offset = off, cl_payload_offset = off + 80,
     cl_payload_len = rh_payload_len h, cl_raw_len = rh_raw_len h\<rparr>"

fun rec_locs :: "nat \<Rightarrow> nat \<Rightarrow> seg_rec list \<Rightarrow> (chunk_id \<times> chunk_location) list" where
  "rec_locs sid off [] = []"
| "rec_locs sid off (r # rs) =
     (rh_chunk_id (fst r), rec_loc sid off (fst r)) # rec_locs sid (off + 80 + length (snd r)) rs"

definition idx_inserts :: "seg_index \<Rightarrow> (chunk_id \<times> chunk_location) list \<Rightarrow> seg_index" where
  "idx_inserts idx kvs = foldl (\<lambda>m (k, v). idx_insert m k v) idx kvs"

lemma idx_inserts_simps [simp]:
  "idx_inserts idx [] = idx"
  "idx_inserts idx (kv # kvs) = idx_inserts (idx_insert idx (fst kv) (snd kv)) kvs"
  "idx_inserts idx (kvs @ kvs') = idx_inserts (idx_inserts idx kvs) kvs'"
  by (simp_all add: idx_inserts_def split_def)

lemma recs_bytes_simps [simp]:
  "recs_bytes X [] = []" "recs_bytes X (r # rs) = rec_bytes X r @ recs_bytes X rs"
  "recs_bytes X (rs @ rs') = recs_bytes X rs @ recs_bytes X rs'"
  by (simp_all add: recs_bytes_def)

lemma length_rec_bytes: "wf_rec X r \<Longrightarrow> length (rec_bytes X r) = 80 + length (snd r)"
  by (simp add: rec_bytes_def wf_rec_def length_rh_write)

lemma wf_rec_payload_len: "wf_rec X r \<Longrightarrow> unat (rh_payload_len (fst r)) = length (snd r)"
  by (simp add: wf_rec_def)

lemma rec_locs_append:
  "list_all (wf_rec X) rs \<Longrightarrow>
   rec_locs sid off (rs @ rs') = rec_locs sid off rs @ rec_locs sid (off + length (recs_bytes X rs)) rs'"
  by (induction rs arbitrary: off) (simp_all add: length_rec_bytes add.assoc)

section \<open>What the scan does on such a file\<close>

text \<open>One step: a complete record is indexed and skipped.\<close>

lemma scan_record_step:
  assumes "wf_rec X r" and "f = pre @ rec_bytes X r @ rest"
  shows "scan_records X sid newest f (length pre) idx =
    scan_records X sid newest f (length pre + length (rec_bytes X r))
      (idx_insert idx (rh_chunk_id (fst r)) (rec_loc sid (length pre) (fst r)))"
proof -
  have wf: "wf_header (fst r)" and crc: "rh_payload_crc (fst r) = crc32 X (snd r)"
    and hs: "rh_header_size (fst r) = 80"
    using assms(1) by (simp_all add: wf_rec_def wf_header_def)
  note len = length_rec_bytes [OF assms(1)] and pl = wf_rec_payload_len [OF assms(1)]
  have rd: "rh_read_from X (drop (length pre) f) = Inr (Some (fst r, snd r @ rest))"
    using rh_read_write [OF wf, of X "snd r @ rest"] by (simp add: assms(2) rec_bytes_def)
  have "length pre < length f" and "length pre + (80 + length (snd r)) \<le> length f"
    using len by (simp_all add: assms(2))
  then show ?thesis
    by (subst scan_records.simps) (simp add: rd len pl hs crc rec_loc_def Let_def)
qed

lemma scan_records_log:
  assumes "list_all (wf_rec X) rs" and "f = pre @ recs_bytes X rs @ rest"
  shows "scan_records X sid newest f (length pre) idx =
    scan_records X sid newest f (length pre + length (recs_bytes X rs))
      (idx_inserts idx (rec_locs sid (length pre) rs))"
  using assms
proof (induction rs arbitrary: pre idx)
  case (Cons r rs)
  then have r: "wf_rec X r" and rs: "list_all (wf_rec X) rs"
    and f: "f = pre @ rec_bytes X r @ recs_bytes X rs @ rest"
    and f': "f = (pre @ rec_bytes X r) @ recs_bytes X rs @ rest" by simp_all
  show ?case
    using scan_record_step [OF r f] Cons.IH [OF rs f']
    by (simp add: length_rec_bytes [OF r] add.assoc)
qed simp

lemma scan_records_end: "scan_records X sid newest f (length f) idx = Inr (f, length f, idx)"
  by (subst scan_records.simps) simp

text \<open>
  A record cut short is dropped from the newest file and reported as damage in a sealed one.
\<close>

lemma scan_records_torn:
  assumes "wf_rec X r" and "0 < n" "n < length (rec_bytes X r)"
    and f: "f = pre @ take n (rec_bytes X r)"
  shows "sid = newest \<Longrightarrow> scan_records X sid newest f (length pre) idx = Inr (pre, length pre, idx)"
    and "sid \<noteq> newest \<Longrightarrow>
      \<exists>msg. scan_records X sid newest f (length pre) idx = Inl (CorruptedSegment (length pre) msg)"
proof -
  have wf: "wf_header (fst r)" and hs: "rh_header_size (fst r) = 80"
    using assms(1) by (simp_all add: wf_rec_def wf_header_def)
  note len = length_rec_bytes [OF assms(1)] and pl = wf_rec_payload_len [OF assms(1)]
  have hl: "length (rh_write X (fst r)) = 80" by (rule length_rh_write [OF wf])
  have off: "length pre < length f" using assms(2,3) by (simp add: f)
  have rd: "rh_read_from X (drop (length pre) f) =
      (if n < 4 then Inr None else if n < 80 then Inl UnexpectedEof
       else Inr (Some (fst r, take (n - 80) (snd r))))"
    using rh_read_torn [OF wf, of n X] rh_read_write [OF wf, of X "take (n - 80) (snd r)"] hl
    by (simp add: f rec_bytes_def)
  have short: "n \<ge> 80 \<Longrightarrow> length f < length pre + (80 + length (snd r))"
    using assms(3) len by (simp add: f)
  show "scan_records X sid newest f (length pre) idx = Inr (pre, length pre, idx)" if "sid = newest"
    using off rd short that by (subst scan_records.simps) (simp add: hs pl f Let_def)
  show "\<exists>msg. scan_records X sid newest f (length pre) idx = Inl (CorruptedSegment (length pre) msg)"
    if "sid \<noteq> newest"
    using off rd short that by (subst scan_records.simps) (simp add: hs pl Let_def)
qed

end
