(* ===== verification/Oos_Segment_Log.thy ===== *)
theory Oos_Segment_Log
  imports Oos_Segment_Recovery "HOL-Library.Multiset"
begin

text \<open>
  The contract between the writer, a crash and the recovery scan.  A store abstracts to a log: per
  segment file, in order, the records appended to it.  Appending adds one record at the end of the log;
  a crash leaves a prefix of the newest file; opening the store again yields the log of the records
  that were completely on disk.
\<close>

type_synonym seg_log = "(nat \<times> segment_header \<times> seg_rec list) list"

definition seg_bytes :: "ext \<Rightarrow> segment_header \<Rightarrow> seg_rec list \<Rightarrow> bytes" where
  "seg_bytes X sh rs = sh_write sh @ recs_bytes X rs"

definition log_locs :: "seg_log \<Rightarrow> (chunk_id \<times> chunk_location) list" where
  "log_locs log = concat (map (\<lambda>(sid, sh, rs). rec_locs sid 32 rs) log)"

definition log_recs :: "seg_log \<Rightarrow> seg_rec list" where
  "log_recs log = concat (map (\<lambda>(sid, sh, rs). rs) log)"

text \<open>A record that the reader accepts.\<close>

definition sealed :: "ext \<Rightarrow> vault_key option \<Rightarrow> seg_rec \<Rightarrow> bool" where
  "sealed X vk r \<longleftrightarrow> wf_rec X r \<and> length (snd r) \<le> DEFAULT_MAX_SEGMENT_SIZE
     \<and> (\<exists>data. read_payload X vk 0 (rh_chunk_id (fst r)) (fst r) (snd r) = Inr data \<and> storable data
          \<and> rh_raw_len (fst r) = word_of_nat (length data))"

text \<open>
  The segment files of a directory are exactly those of the log, and no compaction is under way.
\<close>

definition clean_dir :: "dir \<Rightarrow> bool" where
  "clean_dir d \<longleftrightarrow> dir_inv d \<and> filter is_old_name (dir_names d) = [] \<and> dir_get d compact_marker = None"

definition log_files :: "ext \<Rightarrow> dir \<Rightarrow> seg_log \<Rightarrow> bool" where
  "log_files X d log \<longleftrightarrow> clean_dir d \<and> segment_ids d = map fst log \<and> sorted_wrt (<) (map fst log)
     \<and> (\<forall>(sid, sh, rs) \<in> set log. dir_get d (segment_file_name sid) = Some (seg_bytes X sh rs))"

definition sw_log :: "ext \<Rightarrow> dir \<Rightarrow> seg_writer \<Rightarrow> seg_index \<Rightarrow> seg_log \<Rightarrow> bool" where
  "sw_log X d w idx log \<longleftrightarrow> log \<noteq> [] \<and> log_files X d log \<and> w_inv d w
     \<and> w_segment_id w = fst (last log)
     \<and> list_all (sealed X (w_vault_key w)) (log_recs log)
     \<and> idx_inv idx \<and> (\<forall>c. idx_get idx c = map_of (rev (log_locs log)) c)"

definition seg_log_inv :: "ext \<Rightarrow> seg_store \<Rightarrow> seg_log \<Rightarrow> bool" where
  "seg_log_inv X s log \<longleftrightarrow> sw_log X (ss_files s) (ss_writer s) (ss_index s) log
     \<and> w_vault_key (ss_writer s) = ss_vault_key s"

section \<open>Shared facts\<close>

lemma log_simps [simp]:
  "log_locs [] = []" "log_recs [] = []"
  "log_locs (log @ log') = log_locs log @ log_locs log'"
  "log_recs (log @ log') = log_recs log @ log_recs log'"
  "log_locs (e # log) = rec_locs (fst e) 32 (snd (snd e)) @ log_locs log"
  "log_recs (e # log) = snd (snd e) @ log_recs log"
  by (simp_all add: log_locs_def log_recs_def split_def)

lemma length_seg_bytes [simp]: "length (seg_bytes X sh rs) = 32 + length (recs_bytes X rs)"
  by (simp add: seg_bytes_def)

lemma sealed_wf: "list_all (sealed X vk) rs \<Longrightarrow> list_all (wf_rec X) rs"
  by (auto simp: list_all_iff sealed_def)

lemma idx_inserts_get: "idx_inv idx \<Longrightarrow>
   idx_get (idx_inserts idx kvs) k = (case map_of (rev kvs) k of None \<Rightarrow> idx_get idx k | Some v \<Rightarrow> Some v)"
  unfolding idx_inserts_def by (rule idx.get_inserts)

lemma idx_inserts_inv: "idx_inv idx \<Longrightarrow> idx_inv (idx_inserts idx kvs)"
  unfolding idx_inserts_def by (rule idx.invar_inserts)

lemma idx_inserts_new:
  "idx_inv (idx_inserts idx_new kvs)" "idx_get (idx_inserts idx_new kvs) c = map_of (rev kvs) c"
  using idx_inserts_inv [OF idx.invar_empty] idx_inserts_get [OF idx.invar_empty, of kvs c] idx.get_empty
  by (simp_all split: option.splits)

lemma dir_names_put:
  "dir_names (dir_put d n c) = (if dir_get d n \<noteq> None then dir_names d else dir_names d @ [n])"
  using in_dir_names [of n d] by (auto simp: dir_names_def dir_put_def update_keys)

lemma not_old_name [simp]: "\<not> is_old_name (segment_file_name sid)"
proof
  assume "is_old_name (segment_file_name sid)"
  then obtain p where "segment_file_name sid = p @ bytes_of ''.seg.old''"
    by (auto simp: is_old_name_def ends_with_iff)
  then have "last (segment_file_name sid) = last (bytes_of ''.seg.old'')"
    by (simp add: bytes_of_def)
  then show False by (simp add: segment_file_name_def bytes_of_def)
qed

lemma segment_not_marker [simp]: "compact_marker \<noteq> segment_file_name sid"
  by (simp add: compact_marker_def segment_file_name_def bytes_of_def)

lemma clean_dir_put [simp]: "clean_dir d \<Longrightarrow> clean_dir (dir_put d (segment_file_name sid) c)"
  by (simp add: clean_dir_def dir_names_put)

lemma segment_ids_put_old: "dir_get d n = Some f \<Longrightarrow> segment_ids (dir_put d n c) = segment_ids d"
  by (simp add: segment_ids_def dir_names_put)

lemma segment_ids_put_new:
  assumes "dir_get d (segment_file_name sid) = None" "sid < 2 ^ 64"
    and "\<forall>i \<in> set (segment_ids d). i < sid"
  shows "segment_ids (dir_put d (segment_file_name sid) c) = segment_ids d @ [sid]"
proof -
  let ?ids = "List.map_filter segment_name_id (filter is_segment_name (dir_names d))"
  have "segment_ids (dir_put d (segment_file_name sid) c) = sort (?ids @ [sid])"
    using segment_name_id_file_name [OF assms(2)]
    by (simp add: segment_ids_def dir_names_put assms(1) List.map_filter_def)
  also have "\<dots> = sort ?ids @ [sid]"
    using assms(3) by (intro properties_for_sort) (auto simp: segment_ids_def sorted_append)
  finally show ?thesis by (simp add: segment_ids_def)
qed

lemma read_payload_off: "read_payload X vk off cid h p = Inr d \<Longrightarrow> read_payload X vk off' cid h p = Inr d"
  by (auto simp: read_payload_def Let_def bindE_eq_Inr split: if_splits codec.splits)

lemma read_record_log:
  assumes "wf_rec X r" "length (snd r) \<le> DEFAULT_MAX_SEGMENT_SIZE"
    and rp: "read_payload X vk 0 cid (fst r) (snd r) = Inr data"
    and loc: "cl_record_offset loc = length pre" "cl_payload_len loc = rh_payload_len (fst r)"
  shows "read_record X vk (pre @ rec_bytes X r @ rest) cid loc = Inr data"
proof -
  have wf: "wf_header (fst r)" using assms(1) by (simp add: wf_rec_def)
  note pl = wf_rec_payload_len [OF assms(1)] and len = length_rec_bytes [OF assms(1)]
  have "rh_read_from X (rec_bytes X r @ rest) = Inr (Some (fst r, snd r @ rest))"
    using rh_read_write [OF wf, of X "snd r @ rest"] by (simp add: rec_bytes_def)
  then show ?thesis
    using assms(2) read_payload_off [OF rp, of "length pre"]
    by (simp add: read_record_def Let_def loc pl len size_defs not_less)
qed

text \<open>Every location of the log reads as the data of its record.\<close>

lemma rec_locs_split:
  assumes "(cid, loc) \<in> set (rec_locs sid off rs)" and "list_all (wf_rec X) rs"
  obtains rs1 r rs2 where "rs = rs1 @ r # rs2" "cid = rh_chunk_id (fst r)"
    "loc = rec_loc sid (off + length (recs_bytes X rs1)) (fst r)"
  using assms
proof (induction rs arbitrary: off thesis)
  case (Cons r rs)
  consider "cid = rh_chunk_id (fst r)" "loc = rec_loc sid off (fst r)"
    | "(cid, loc) \<in> set (rec_locs sid (off + 80 + length (snd r)) rs)"
    using Cons.prems(2) by auto
  then show ?case
  proof cases
    case 1
    then show ?thesis using Cons.prems(1) [of "[]" r rs] by simp
  next
    case 2
    have wf: "wf_rec X r" "list_all (wf_rec X) rs" using Cons.prems(3) by simp_all
    show ?thesis
    proof (rule Cons.IH [OF _ 2 wf(2)])
      fix rs1 r' rs2
      assume "rs = rs1 @ r' # rs2" "cid = rh_chunk_id (fst r')"
        "loc = rec_loc sid (off + 80 + length (snd r) + length (recs_bytes X rs1)) (fst r')"
      then show thesis
        using Cons.prems(1) [of "r # rs1" r' rs2] by (simp add: length_rec_bytes [OF wf(1)] add.assoc)
    qed
  qed
qed simp

lemma log_locs_read:
  assumes "(cid, loc) \<in> set (log_locs log)" and "log_files X d log"
    and "list_all (sealed X vk) (log_recs log)"
  obtains r where "r \<in> set (log_recs log)" "cid = rh_chunk_id (fst r)"
    "\<And>data. read_payload X vk 0 cid (fst r) (snd r) = Inr data \<Longrightarrow> read_chunk X vk d cid loc = Inr data"
    "sealed X vk r" "cl_raw_len loc = rh_raw_len (fst r)"
proof -
  obtain sid sh rs where e: "(sid, sh, rs) \<in> set log" "(cid, loc) \<in> set (rec_locs sid 32 rs)"
    using assms(1) by (auto simp: log_locs_def)
  have rs: "list_all (sealed X vk) rs" and sub: "set rs \<subseteq> set (log_recs log)"
    using assms(3) e(1) by (auto simp: list_all_iff log_recs_def)
  obtain rs1 r rs2 where s: "rs = rs1 @ r # rs2" "cid = rh_chunk_id (fst r)"
    "loc = rec_loc sid (32 + length (recs_bytes X rs1)) (fst r)"
    using rec_locs_split [OF e(2) sealed_wf [OF rs]] .
  have f: "dir_get d (segment_file_name sid)
     = Some ((sh_write sh @ recs_bytes X rs1) @ rec_bytes X r @ recs_bytes X rs2)"
    using assms(2) e(1) by (auto simp: log_files_def seg_bytes_def s(1))
  have r: "sealed X vk r" using rs s(1) by simp
  then have wf: "wf_rec X r" "length (snd r) \<le> DEFAULT_MAX_SEGMENT_SIZE" by (simp_all add: sealed_def)
  show thesis
  proof (rule that [of r])
    show "r \<in> set (log_recs log)" using sub s(1) by auto
    fix data
    assume "read_payload X vk 0 cid (fst r) (snd r) = Inr data"
    then show "read_chunk X vk d cid loc = Inr data"
      using f read_record_log [OF wf, where pre = "sh_write sh @ recs_bytes X rs1"]
      by (simp add: read_chunk_Inr s(3) rec_loc_def)
  qed (use s r in \<open>auto simp: rec_loc_def\<close>)
qed

lemma log_read_ex:
  assumes "(cid, loc) \<in> set (log_locs log)" and "log_files X d log"
    and "list_all (sealed X vk) (log_recs log)"
  shows "\<exists>data. read_chunk X vk d cid loc = Inr data \<and> storable data"
  by (rule log_locs_read [OF assms]) (auto simp: sealed_def)

lemma map_of_rev_in: "map_of (rev kvs) k = Some v \<Longrightarrow> (k, v) \<in> set kvs"
  by (auto dest: map_of_SomeD)

lemma seg_log_ss_inv:
  assumes "seg_log_inv X s log"
  shows "ss_inv X s"
proof -
  have l: "sw_log X (ss_files s) (ss_writer s) (ss_index s) log" "w_vault_key (ss_writer s) = ss_vault_key s"
    using assms by (auto simp: seg_log_inv_def)
  have "\<exists>data. read_chunk X (ss_vault_key s) (ss_files s) cid loc = Inr data"
    if "idx_get (ss_index s) cid = Some loc" for cid loc
    using that l log_read_ex [of cid loc log X "ss_files s" "ss_vault_key s"]
    by (auto simp: sw_log_def intro: map_of_rev_in)
  then show ?thesis using l by (simp add: ss_inv_def sw_log_def)
qed

text \<open>The index knows the length of the data.\<close>

lemma seg_log_raw_len:
  assumes "seg_log_inv X s log" "idx_get (ss_index s) c = Some loc" "ss_get_chunk X s c = Inr d"
  shows "unat (cl_raw_len loc) = length d"
proof -
  have l: "(c, loc) \<in> set (log_locs log)" "log_files X (ss_files s) log" "list_all (sealed X (ss_vault_key s)) (log_recs log)"
    using assms(1,2) by (auto simp: seg_log_inv_def sw_log_def intro: map_of_rev_in)
  show ?thesis
  proof (rule log_locs_read [OF l])
    fix r
    assume r: "c = rh_chunk_id (fst r)" "sealed X (ss_vault_key s) r" "cl_raw_len loc = rh_raw_len (fst r)"
      and rd: "\<And>data. read_payload X (ss_vault_key s) 0 c (fst r) (snd r) = Inr data
        \<Longrightarrow> read_chunk X (ss_vault_key s) (ss_files s) c loc = Inr data"
    obtain data where data: "read_payload X (ss_vault_key s) 0 c (fst r) (snd r) = Inr data" "storable data"
      "rh_raw_len (fst r) = word_of_nat (length data)" using r(1,2) by (auto simp: sealed_def)
    have "data = d" using rd [OF data(1)] assms(2,3) by (simp add: ss_get_chunk_def)
    moreover have "length data < 2 ^ 32" using data(2) by (simp add: storable_def DEFAULT_MAX_SEGMENT_SIZE_def)
    ultimately show ?thesis using r(3) data(3) by (simp add: unsigned_of_nat take_bit_nat_eq_self)
  qed
qed

section \<open>Appending adds a record\<close>

lemma log_split: "log \<noteq> [] \<Longrightarrow> \<exists>log0 sid sh rs. log = log0 @ [(sid, sh, rs)]"
  by (metis append_butlast_last_id prod_cases3)

lemma log_lt_last: "log_files X d (log @ [(sid, sh, rs)]) \<Longrightarrow> e \<in> set log \<Longrightarrow> fst e < sid"
  by (auto simp: log_files_def sorted_wrt_append)

lemma log_files_get:
  "log_files X d log \<Longrightarrow> (sid, sh, rs) \<in> set log \<Longrightarrow>
   dir_get d (segment_file_name sid) = Some (seg_bytes X sh rs)"
  by (auto simp: log_files_def)

lemma log_files_replace_last:
  assumes "log_files X d (log @ [(sid, sh, rs)])"
  shows "log_files X (dir_put d (segment_file_name sid) (seg_bytes X sh rs')) (log @ [(sid, sh, rs')])"
proof -
  have "dir_get d (segment_file_name sid) = Some (seg_bytes X sh rs)"
    using assms by (auto intro: log_files_get)
  moreover have "fst e \<noteq> sid" if "e \<in> set log" for e
    using log_lt_last [OF assms that] by simp
  ultimately show ?thesis
    using assms by (fastforce simp: log_files_def segment_ids_put_old)
qed

lemma log_files_add:
  assumes "log_files X d log" "dir_get d (segment_file_name sid) = None" "sid < 2 ^ 64"
    and "\<forall>e \<in> set log. fst e < sid"
  shows "log_files X (dir_put d (segment_file_name sid) (seg_bytes X sh rs)) (log @ [(sid, sh, rs)])"
proof -
  have "segment_ids (dir_put d (segment_file_name sid) (seg_bytes X sh rs)) = segment_ids d @ [sid]"
    using assms by (intro segment_ids_put_new) (auto simp: log_files_def)
  then show ?thesis
    using assms(1,4) by (fastforce simp: log_files_def sorted_wrt_append)
qed

lemma sw_rotate_log:
  assumes "sw_log X d w idx log" and "sw_rotate E d w = (d', w')" and "w_segment_id w' < 2 ^ 64"
  shows "\<exists>sh. sw_log X d' w' idx (log @ [(w_segment_id w', sh, [])])"
proof -
  have inv: "w_inv d w" and fs: "log_files X d log" and ne: "log \<noteq> []"
    and lst: "w_segment_id w = fst (last log)"
    using assms(1) by (auto simp: sw_log_def)
  note r = sw_rotate_inv [OF assms(2) inv]
  let ?sid = "w_segment_id w + 1"
  let ?sh = "\<lparr>sh_segment_id = word_of_nat ?sid, sh_created_at = env_now E\<rparr>"
  have none: "dir_get d (segment_file_name ?sid) = None" using inv by (simp add: w_inv_def)
  have d': "d' = dir_put d (segment_file_name ?sid) (seg_bytes X ?sh [])"
    using assms(2) none by (auto simp: sw_rotate_def sw_open_def Let_def seg_bytes_def)
  have "fst e < ?sid" if "e \<in> set log" for e
  proof -
    obtain log0 sid sh rs where l: "log = log0 @ [(sid, sh, rs)]" using log_split [OF ne] by blast
    then show ?thesis using that log_lt_last [OF fs [unfolded l]] lst by fastforce
  qed
  then have "log_files X d' (log @ [(?sid, ?sh, [])])"
    using log_files_add [OF fs none] assms(3) r(4) d' by simp
  then show ?thesis
    using assms(1) r by (intro exI [of _ ?sh]) (simp add: sw_log_def)
qed

lemma sw_write_log:
  assumes "sw_log X d w idx (log @ [(sid, sh, rs)])" and "sealed X (w_vault_key w) r"
    and "dir_get d (segment_file_name sid) = Some f"
  shows "sw_log X (dir_put d (segment_file_name sid) (f @ rec_bytes X r))
           (w\<lparr>w_offset := length f + length (rec_bytes X r)\<rparr>)
           (idx_insert idx (rh_chunk_id (fst r)) (rec_loc sid (length f) (fst r)))
           (log @ [(sid, sh, rs @ [r])])"
proof -
  have fs: "log_files X d (log @ [(sid, sh, rs)])" and inv: "w_inv d w" and wsid: "w_segment_id w = sid"
    and ii: "idx_inv idx" and get: "\<And>c. idx_get idx c = map_of (rev (log_locs (log @ [(sid, sh, rs)]))) c"
    and sl: "list_all (sealed X (w_vault_key w)) (log_recs log @ rs)"
    using assms(1) by (auto simp: sw_log_def)
  have f: "f = seg_bytes X sh rs" using log_files_get [OF fs, of sid sh rs] assms(3) by simp
  have "log_files X (dir_put d (segment_file_name sid) (f @ rec_bytes X r)) (log @ [(sid, sh, rs @ [r])])"
    using log_files_replace_last [OF fs, of "rs @ [r]"] by (simp add: f seg_bytes_def)
  moreover have "w_inv (dir_put d (segment_file_name sid) (f @ rec_bytes X r))
      (w\<lparr>w_offset := length f + length (rec_bytes X r)\<rparr>)"
    using inv wsid by (auto simp: w_inv_def)
  moreover have "log_locs (log @ [(sid, sh, rs @ [r])])
      = log_locs (log @ [(sid, sh, rs)]) @ [(rh_chunk_id (fst r), rec_loc sid (length f) (fst r))]"
    using rec_locs_append [of X rs sid 32 "[r]"] sl sealed_wf [of X "w_vault_key w" rs] by (simp add: f)
  ultimately show ?thesis
    using wsid ii sl assms(2) idx.invar_insert [OF ii] idx.get_insert [OF ii]
    by (simp add: sw_log_def get)
qed

lemma sw_append_log:
  assumes log: "sw_log X d w idx log" and app: "sw_append X E d w idx cid data = Inr (d', w', idx', loc)"
    and X: "ext_ok X" and E: "env_ok E" and cid: "cid = cid_from_data X data" and st: "storable data"
    and bnd: "w_segment_id w' < 2 ^ 64"
  obtains log' r where "sw_log X d' w' idx' log'" "log_recs log' = log_recs log @ [r]"
    "rh_chunk_id (fst r) = cid" "read_payload X (w_vault_key w) 0 cid (fst r) (snd r) = Inr data"
proof -
  have inv: "w_inv d w" using log by (simp add: sw_log_def)
  obtain c k p s nonce d1 w1 f h where c: "sw_compress X data = (c, k)"
    and e: "sw_encrypt X E (w_vault_key w) cid k data c = Inr (p, s, nonce)"
    and tg: "sw_target E d w (length p) = (d1, w1)"
    and h: "h = rh_new X cid k s (word_of_nat (length data)) p nonce"
    and f: "dir_get d1 (segment_file_name (w_segment_id w1)) = Some f" "length f = w_offset w1"
    and d': "d' = dir_put d1 (segment_file_name (w_segment_id w1)) (f @ rh_write X h @ p)"
    and w': "w' = w1\<lparr>w_offset := length f + (RECORD_HEADER_SIZE_V3 + length p)\<rparr>"
    and loc: "loc = \<lparr>cl_segment_id = w_segment_id w1, cl_record_offset = length f,
            cl_payload_offset = length f + RECORD_HEADER_SIZE_V3,
            cl_payload_len = word_of_nat (length p), cl_raw_len = word_of_nat (length data)\<rparr>"
    and idx': "idx' = idx_insert idx cid loc"
    using sw_append_Inr [OF app inv] by metis
  have rp: "read_payload X (w_vault_key w) 0 cid h p = Inr data"
    unfolding h by (rule read_payload_sealed [OF X c e cid])
  have p: "length p \<le> DEFAULT_MAX_SEGMENT_SIZE"
    using sw_compress_length [OF c] sw_encrypt_length [OF X e] st by (simp add: storable_def)
  have "wf_header h"
    using X sw_encrypt_nonce [OF _ e] E cid
    by (simp add: wf_header_def h rh_new_def RECORD_HEADER_SIZE_V3_def env_ok_def)
  then have wf: "wf_rec X (h, p)"
    using p by (simp add: wf_rec_def h rh_new_def DEFAULT_MAX_SEGMENT_SIZE_def)
  have sealed: "sealed X (w_vault_key w1) (h, p)"
    using wf p rp st sw_target_inv(3) [OF tg inv] by (auto simp: sealed_def h rh_new_def)
  have "\<exists>log1. sw_log X d1 w1 idx log1 \<and> log_recs log1 = log_recs log"
    using tg log bnd sw_rotate_log [OF log, of E d1 w1]
    by (fastforce simp: sw_target_def w' split: if_splits)
  then obtain log1 where log1: "sw_log X d1 w1 idx log1" "log_recs log1 = log_recs log" by blast
  then obtain log0 sid sh rs where l: "log1 = log0 @ [(sid, sh, rs)]"
    using log_split [of log1] by (auto simp: sw_log_def)
  have sid: "w_segment_id w1 = sid" using log1(1) by (simp add: sw_log_def l)
  have "sw_log X d' w' idx' (log0 @ [(sid, sh, rs @ [(h, p)])])"
    using sw_write_log [OF log1(1) [unfolded l] sealed f(1) [unfolded sid]] length_rec_bytes [OF wf]
    by (simp add: d' w' idx' loc sid rec_bytes_def rec_loc_def size_defs h rh_new_def)
  then show thesis
    using that [of "log0 @ [(sid, sh, rs @ [(h, p)])]" "(h, p)"] log1(2) l rp
    by (simp add: h rh_new_def)
qed

lemma ss_put_chunk_log:
  assumes "seg_log_inv X s log" and put: "ss_put_chunk X E s data = Inr (s', c, b)"
    and "ext_ok X" "env_ok E" "storable data" "w_segment_id (ss_writer s') < 2 ^ 64"
  shows "\<exists>log'. seg_log_inv X s' log' \<and> (\<exists>rs. log_recs log' = log_recs log @ rs \<and> length rs = of_bool b)"
  using put
proof (cases rule: ss_put_chunk_cases)
  case old
  with assms(1) show ?thesis by auto
next
  case new
  then have "b" by simp
  with put obtain d w idx loc where c: "c = cid_from_data X data"
    and app: "sw_append X E (ss_files s) (ss_writer s) (ss_index s) c data = Inr (d, w, idx, loc)"
    and s': "s' = s\<lparr>ss_files := d, ss_index := idx, ss_writer := w\<rparr>"
    by (rule ss_put_chunk_new)
  have l: "sw_log X (ss_files s) (ss_writer s) (ss_index s) log" and vk: "w_vault_key (ss_writer s) = ss_vault_key s"
    using assms(1) by (auto simp: seg_log_inv_def)
  obtain log' r where "sw_log X d w idx log'" "log_recs log' = log_recs log @ [r]"
    by (rule sw_append_log [OF l app assms(3,4) c assms(5)]) (use assms(6) s' in auto)
  moreover have "w_vault_key w = ss_vault_key s"
    using sw_append_spec(3) [OF app _ assms(3,4) c] l vk by (simp add: sw_log_def)
  ultimately show ?thesis using \<open>b\<close> by (intro exI [of _ log']) (simp add: seg_log_inv_def s')
qed

section \<open>Opening a store whose newest file was cut\<close>

text \<open>The records that are complete within the first \<open>n\<close> bytes.\<close>

fun fit_recs :: "nat \<Rightarrow> seg_rec list \<Rightarrow> seg_rec list" where
  "fit_recs n [] = []"
| "fit_recs n (r # rs) =
     (if 80 + length (snd r) \<le> n then r # fit_recs (n - (80 + length (snd r))) rs else [])"

lemma fit_recs_prefix: "\<exists>rest. rs = fit_recs n rs @ rest"
  by (induction rs arbitrary: n) auto

text \<open>What a crash leaves of the first record that is not complete.\<close>

definition torn :: "ext \<Rightarrow> bytes \<Rightarrow> bool" where
  "torn X t \<longleftrightarrow> t = [] \<or>
     (\<exists>r k. wf_rec X r \<and> 0 < k \<and> k < length (rec_bytes X r) \<and> t = take k (rec_bytes X r))"

lemma torn_take: "wf_rec X r \<Longrightarrow> n < length (rec_bytes X r) \<Longrightarrow> torn X (take n (rec_bytes X r))"
  unfolding torn_def by (cases "n = 0") (simp, blast)

lemma fit_recs_take:
  assumes "list_all (wf_rec X) rs"
  shows "\<exists>t. take n (recs_bytes X rs) = recs_bytes X (fit_recs n rs) @ t \<and> torn X t"
  using assms
proof (induction rs arbitrary: n)
  case (Cons r rs)
  have r: "wf_rec X r" using Cons.prems by simp
  note len = length_rec_bytes [OF r]
  show ?case
  proof (cases "80 + length (snd r) \<le> n")
    case True
    then show ?thesis using Cons.IH [of "n - (80 + length (snd r))"] Cons.prems len by (auto simp: len)
  next
    case False
    then show ?thesis using len torn_take [OF r, of n] by simp
  qed
qed (simp add: torn_def)

lemma scan_records_cut:
  assumes "list_all (wf_rec X) rs" and "32 \<le> n" and f: "f = take n (seg_bytes X sh rs)"
  shows "scan_records X sid sid f 32 idx =
    Inr (seg_bytes X sh (fit_recs (n - 32) rs), length (seg_bytes X sh (fit_recs (n - 32) rs)),
         idx_inserts idx (rec_locs sid 32 (fit_recs (n - 32) rs)))"
proof -
  let ?rs = "fit_recs (n - 32) rs"
  obtain t where t: "take (n - 32) (recs_bytes X rs) = recs_bytes X ?rs @ t"
    "torn X t"
    using fit_recs_take [OF assms(1)] by blast
  have ft: "f = sh_write sh @ recs_bytes X ?rs @ t"
    using t(1) assms(2) by (simp add: f seg_bytes_def)
  have rs: "list_all (wf_rec X) ?rs"
    using assms(1) fit_recs_prefix [of rs "n - 32"] by (metis list_all_append)
  have "scan_records X sid sid f 32 idx = scan_records X sid sid f (length (seg_bytes X sh ?rs))
      (idx_inserts idx (rec_locs sid 32 ?rs))"
    using scan_records_log [OF rs ft, of sid sid idx] by simp
  also have "\<dots> = Inr (seg_bytes X sh ?rs, length (seg_bytes X sh ?rs), idx_inserts idx (rec_locs sid 32 ?rs))"
  proof (cases "t = []")
    case True
    then have "f = seg_bytes X sh ?rs" by (simp add: ft seg_bytes_def)
    then show ?thesis using scan_records_end by metis
  next
    case False
    then obtain r k where "wf_rec X r" "0 < k" "k < length (rec_bytes X r)" "t = take k (rec_bytes X r)"
      using t(2) by (auto simp: torn_def)
    then show ?thesis
      by (intro scan_records_torn(1) [of X r k]) (simp_all add: ft seg_bytes_def)
  qed
  finally show ?thesis .
qed

lemma dir_put_same: "dir_get d n = Some c \<Longrightarrow> dir_put d n c = d"
  unfolding dir_get_def dir_put_def by (induction d) (auto split: if_splits)

lemma recover_segments_log:
  assumes "\<forall>(sid, sh, rs) \<in> set log. dir_get d (segment_file_name sid) = Some (seg_bytes X sh rs)"
    and "list_all (wf_rec X) (log_recs log)"
  shows "recover_segments X newest (map fst log @ sids) d idx lid off =
    (if log = [] then recover_segments X newest sids d idx lid off
     else recover_segments X newest sids d (idx_inserts idx (log_locs log)) (fst (last log))
            (32 + length (recs_bytes X (snd (snd (last log))))))"
  using assms
proof (induction log arbitrary: idx lid off)
  case (Cons e log)
  obtain sid sh rs where e: "e = (sid, sh, rs)" by (cases e)
  have f: "dir_get d (segment_file_name sid) = Some (seg_bytes X sh rs)"
    and rs: "list_all (wf_rec X) rs"
    using Cons.prems by (auto simp: e)
  have "scan_records X sid newest (seg_bytes X sh rs) 32 idx
     = Inr (seg_bytes X sh rs, length (seg_bytes X sh rs), idx_inserts idx (rec_locs sid 32 rs))"
    using scan_records_log [OF rs, of "seg_bytes X sh rs" "sh_write sh" "[]" sid newest idx]
      scan_records_end [of X sid newest "seg_bytes X sh rs"]
    by (simp add: seg_bytes_def)
  moreover have "sh_read (seg_bytes X sh rs) = Inr (sh, recs_bytes X rs)"
    by (simp add: seg_bytes_def sh_read_write)
  ultimately have step: "recover_segments X newest (map fst (e # log) @ sids) d idx lid off =
      recover_segments X newest (map fst log @ sids) d (idx_inserts idx (rec_locs sid 32 rs)) sid
        (32 + length (recs_bytes X rs))"
    using f dir_put_same [OF f] by (simp add: e size_defs)
  show ?case
    unfolding step using Cons.IH Cons.prems by (auto simp: e)
qed simp

lemma compact_cleanup_clean: "clean_dir (sd_files sd) \<Longrightarrow> sd_files (compact_cleanup sd) = sd_files sd"
  by (simp add: compact_cleanup_def clean_dir_def Let_def)

text \<open>
  The crash theorem of the segment store: whatever prefix of the newest file survived, the store opens
  again, on exactly the records that were complete.
\<close>

lemma ss_open_crash:
  assumes log: "seg_log_inv X s (log @ [(sid, sh, rs)])" and n: "32 \<le> n"
    and sd: "sd_files sd = dir_put (ss_files s) (segment_file_name sid) (take n (seg_bytes X sh rs))"
  shows "\<exists>s'. ss_open X E sd mx (ss_vault_key s) = Inr s'
     \<and> seg_log_inv X s' (log @ [(sid, sh, fit_recs (n - 32) rs)])"
proof -
  let ?rs = "fit_recs (n - 32) rs" and ?d = "sd_files sd" and ?n = "segment_file_name sid"
  let ?log = "log @ [(sid, sh, rs)]" and ?log' = "log @ [(sid, sh, fit_recs (n - 32) rs)]"
  have fs: "log_files X (ss_files s) ?log" and sl: "list_all (sealed X (ss_vault_key s)) (log_recs ?log)"
    and inv: "w_inv (ss_files s) (ss_writer s)" and wsid: "w_segment_id (ss_writer s) = sid"
    using log by (auto simp: seg_log_inv_def sw_log_def)
  have get: "dir_get (ss_files s) ?n = Some (seg_bytes X sh rs)"
    using fs by (auto simp: log_files_def)
  have fsd: "\<forall>(i, h, r) \<in> set log. dir_get ?d (segment_file_name i) = Some (seg_bytes X h r)"
    using fs log_lt_last [OF fs] by (fastforce simp: sd log_files_def)
  have ids: "segment_ids ?d = map fst ?log" "clean_dir ?d"
    using fs get by (auto simp: log_files_def sd segment_ids_put_old)
  have wf: "list_all (wf_rec X) (log_recs log)" "list_all (wf_rec X) rs"
    using sealed_wf [OF sl] by simp_all
  let ?d' = "dir_put ?d ?n (seg_bytes X sh ?rs)" and ?idx = "idx_inserts idx_new (log_locs ?log')"
  have f: "dir_get ?d ?n = Some (take n (seg_bytes X sh rs))" by (simp add: sd)
  have hd: "sh_read (take n (seg_bytes X sh rs)) = Inr (sh, take (n - 32) (recs_bytes X rs))"
    using n sh_read_write [of sh "take (n - 32) (recs_bytes X rs)"] by (simp add: seg_bytes_def)
  have "recover_segments X sid (map fst log @ [sid]) ?d idx_new 1 0 =
     Inr (?d', ?idx, sid, length (seg_bytes X sh ?rs))"
    using recover_segments_log [OF fsd wf(1), of sid "[sid]" idx_new 1 0]
      scan_records_cut [OF wf(2) n refl] f hd by (cases "log = []") (simp_all add: size_defs)
  then have rec: "recover_and_index X sd = Inr ((compact_cleanup sd)\<lparr>sd_files := ?d'\<rparr>, ?idx, sid, length (seg_bytes X sh ?rs))"
    using ids compact_cleanup_clean [OF ids(2)] by (simp add: recover_and_index_def)
  let ?w = "\<lparr>w_segment_id = sid, w_file_open = True, w_offset = length (seg_bytes X sh ?rs),
     w_max_segment_size = (if mx = 0 then DEFAULT_MAX_SEGMENT_SIZE else mx), w_vault_key = ss_vault_key s\<rparr>"
  let ?s' = "\<lparr>ss_files = ?d', ss_index = ?idx, ss_writer = ?w, ss_vault_key = ss_vault_key s\<rparr>"
  have open1: "ss_open X E sd mx (ss_vault_key s) = Inr ?s'"
    by (simp add: ss_open_def rec sw_open_def dir_put_same)
  have d': "?d' = dir_put (ss_files s) ?n (seg_bytes X sh ?rs)"
    by (simp add: sd dir_put_def)
  have "log_files X ?d' ?log'"
    unfolding d' by (rule log_files_replace_last [OF fs])
  moreover have "list_all (sealed X (ss_vault_key s)) (log_recs ?log')"
    using sl fit_recs_prefix [of rs "n - 32"] by simp (metis list_all_append)
  moreover have "w_inv ?d' ?w" using inv by (auto simp: w_inv_def wsid sd)
  ultimately have "seg_log_inv X ?s' ?log'"
    using idx_inserts_new [of "log_locs ?log'"]
    by (auto simp: seg_log_inv_def sw_log_def simp del: idx_inserts_simps log_simps)
  with open1 show ?thesis by blast
qed

text \<open>Chunks whose records survived read as before.\<close>

lemma rec_locs_bounds:
  "(c, loc) \<in> set (rec_locs sid off rs) \<Longrightarrow> cl_segment_id loc = sid \<and> off \<le> cl_record_offset loc"
  by (induction rs arbitrary: off) (fastforce simp: rec_loc_def)+

lemma fit_recs_locs:
  assumes "list_all (wf_rec X) rs"
  shows "\<exists>kvs. rec_locs sid off rs = rec_locs sid off (fit_recs n rs) @ kvs \<and>
     (\<forall>(c, loc) \<in> set kvs. cl_segment_id loc = sid
        \<and> off + n < cl_record_offset loc + 80 + unat (cl_payload_len loc))"
  using assms
proof (induction rs arbitrary: off n)
  case (Cons r rs)
  have r: "wf_rec X r" using Cons.prems by simp
  show ?case
  proof (cases "80 + length (snd r) \<le> n")
    case True
    then show ?thesis
      using Cons.IH [of "off + 80 + length (snd r)" "n - (80 + length (snd r))"] Cons.prems by auto
  next
    case False
    then show ?thesis
      using wf_rec_payload_len [OF r] rec_locs_bounds [of _ _ sid "off + 80 + length (snd r)" rs]
      by (fastforce simp: rec_loc_def)
  qed
qed simp

lemma log_file_extends:
  assumes "log_files X d (log @ [(sid, sh, fit_recs n rs)])" "log_files X d' (log @ [(sid, sh, rs)])"
    and "i \<in> set (map fst (log @ [(sid, sh, rs)]))"
  shows "\<exists>f g. dir_get d (segment_file_name i) = Some f \<and> dir_get d' (segment_file_name i) = Some (f @ g)"
proof (cases "i = sid")
  case True
  then show ?thesis
    using assms(1,2) fit_recs_prefix [of rs n]
    by (auto simp: log_files_def seg_bytes_def) (metis recs_bytes_simps(3))
next
  case False
  then show ?thesis using assms by (fastforce simp: log_files_def)
qed

lemma log_locs_ids: "(c, loc) \<in> set (log_locs log) \<Longrightarrow> cl_segment_id loc \<in> set (map fst log)"
  by (auto simp: log_locs_def image_iff dest!: rec_locs_bounds) (metis fst_conv)

lemma cut_log_get:
  assumes log: "seg_log_inv X s (log @ [(sid, sh, rs)])"
    and log': "seg_log_inv X s' (log @ [(sid, sh, fit_recs n rs)])" "ss_vault_key s' = ss_vault_key s"
    and loc: "idx_get (ss_index s) c = Some loc"
    and fits: "cl_segment_id loc = sid \<Longrightarrow> cl_record_offset loc + 80 + unat (cl_payload_len loc) \<le> 32 + n"
  shows "ss_get_chunk X s' c = ss_get_chunk X s c"
proof -
  let ?log = "log @ [(sid, sh, rs)]" and ?log' = "log @ [(sid, sh, fit_recs n rs)]"
  have l: "sw_log X (ss_files s) (ss_writer s) (ss_index s) ?log"
    "sw_log X (ss_files s') (ss_writer s') (ss_index s') ?log'"
    "w_vault_key (ss_writer s) = ss_vault_key s" "w_vault_key (ss_writer s') = ss_vault_key s"
    using log log' by (auto simp: seg_log_inv_def)
  then have "list_all (wf_rec X) rs" by (auto simp: sw_log_def intro: sealed_wf)
  then obtain kvs where kvs: "log_locs ?log = log_locs ?log' @ kvs"
    "\<forall>(c, l) \<in> set kvs. cl_segment_id l = sid \<and> 32 + n < cl_record_offset l + 80 + unat (cl_payload_len l)"
    using fit_recs_locs [of X rs sid 32 n] by auto
  have "map_of (rev (log_locs ?log)) c = Some loc" using loc l(1) by (simp add: sw_log_def)
  moreover have "(c, loc) \<notin> set kvs" using kvs(2) fits by fastforce
  ultimately have old: "map_of (rev (log_locs ?log')) c = Some loc"
    unfolding kvs(1) by (auto simp: map_add_Some_iff dest: map_of_SomeD)
  then have in': "(c, loc) \<in> set (log_locs ?log')" by (rule map_of_rev_in)
  moreover have "log_files X (ss_files s') ?log'" "list_all (sealed X (ss_vault_key s)) (log_recs ?log')"
    using l(2,4) unfolding sw_log_def by metis+
  ultimately obtain data where rd: "read_chunk X (ss_vault_key s) (ss_files s') c loc = Inr data"
    using log_read_ex by blast
  obtain f g where fg: "dir_get (ss_files s') (segment_file_name (cl_segment_id loc)) = Some f"
    "dir_get (ss_files s) (segment_file_name (cl_segment_id loc)) = Some (f @ g)"
    using log_file_extends [of X "ss_files s'" log sid sh n rs "ss_files s" "cl_segment_id loc"] l
      log_locs_ids [OF in'] by (auto simp: sw_log_def)
  have "read_chunk X (ss_vault_key s) (ss_files s) c loc = Inr data"
    using rd fg read_record_more by (auto simp: read_chunk_Inr)
  moreover have "idx_get (ss_index s') c = Some loc" using old l(2) by (simp add: sw_log_def)
  ultimately show ?thesis using rd loc log'(2) by (simp add: ss_get_chunk_def)
qed

section \<open>A new store\<close>

lemma sw_open_new_log:
  assumes d: "clean_dir d" "segment_ids d = []" "\<And>sid. dir_get d (segment_file_name sid) = None"
    and dw: "sw_open E d 1 0 mx vk = (d', w)"
  shows "\<exists>sh. sw_log X d' w idx_new [(1, sh, [])] \<and> w_vault_key w = vk"
proof -
  let ?sh = "\<lparr>sh_segment_id = 1, sh_created_at = env_now E\<rparr>"
  note * = sw_open_fresh [OF dw d(3)]
  have d': "d' = dir_put d (segment_file_name 1) (seg_bytes X ?sh [])"
    using dw d(3) by (auto simp: sw_open_def Let_def seg_bytes_def)
  have "log_files X d []" using d by (simp add: log_files_def)
  then have "log_files X d' [(1, ?sh, [])]"
    using log_files_add [of X d "[]" 1 ?sh "[]"] d(3) d' by simp
  moreover have "w_inv d' w" using *(3-5,7) d(3) by (auto simp: w_inv_def d')
  ultimately have "sw_log X d' w idx_new [(1, ?sh, [])]"
    using * idx.get_empty idx.invar_empty by (simp add: sw_log_def)
  with *(6) show ?thesis by blast
qed

lemma clean_Nil [simp]: "clean_dir []" "segment_ids [] = []"
  by (simp_all add: clean_dir_def dir_names_def segment_ids_def List.map_filter_simps)

lemma ss_open_new:
  assumes "sd_files sd = []"
  shows "\<exists>s sh. ss_open X E sd mx vk = Inr s \<and> ss_vault_key s = vk \<and> seg_log_inv X s [(1, sh, [])]"
proof -
  have f: "sd_files (compact_cleanup sd) = []"
    by (simp add: compact_cleanup_def assms Let_def dir_names_def)
  obtain d w where dw: "sw_open E [] 1 0 mx vk = (d, w)" by fastforce
  obtain sh where "sw_log X d w idx_new [(1, sh, [])]" "w_vault_key w = vk"
    using sw_open_new_log [OF clean_Nil dir_get_Nil dw] by blast
  then have "seg_log_inv X \<lparr>ss_files = d, ss_index = idx_new, ss_writer = w, ss_vault_key = vk\<rparr> [(1, sh, [])]"
    by (simp add: seg_log_inv_def)
  then show ?thesis
    by (intro exI) (auto simp: ss_open_def recover_and_index_def f dw [simplified] Let_def)
qed

lemma sw_append_mono:
  assumes "w_inv d w" "sw_append X E d w idx cid data = Inr (d', w', idx', loc)"
  shows "w_segment_id w \<le> w_segment_id w'"
proof (rule sw_append_Inr [OF assms(2,1)])
  fix p d1 w1 f
  assume t: "sw_target E d w (length p) = (d1, w1)"
    and "w' = w1\<lparr>w_offset := length f + (RECORD_HEADER_SIZE_V3 + length p)\<rparr>"
  moreover have "w_segment_id w \<le> w_segment_id w1"
    using t sw_rotate_inv(4) [OF _ assms(1), of E d1 w1] by (auto simp: sw_target_def split: if_splits)
  ultimately show ?thesis by simp
qed

end
