(* ===== verification/Oos_Segment_Compact.thy ===== *)
theory Oos_Segment_Compact
  imports Oos_Segment_Log "HOL-Library.Sublist"
begin

text \<open>
  \<^verbatim>\<open>SegmentStore::compact_and_reclaim\<close> (\<^verbatim>\<open>core/src/segment/store.rs\<close>): the reachable chunks are
  copied into a staging directory, which is then swapped in.  The swap is a list of file-system steps;
  a crash leaves the result of a prefix of it, from which \<open>compact_cleanup\<close> either brings every old
  file back or completes the swap.
\<close>

section \<open>The swap as a list of steps\<close>

datatype fs_op =
    Rename rstring rstring
  | MoveIn rstring rstring
  | RemoveDir rstring
  | CreateFile rstring
  | WriteFile rstring bytes
  | RemoveFile rstring

fun apply_op :: "seg_disk \<Rightarrow> fs_op \<Rightarrow> seg_disk" where
  "apply_op sd (Rename a b) = sd\<lparr>sd_files := dir_rename (sd_files sd) a b\<rparr>"
| "apply_op sd (MoveIn t n) =
     (case map_of (sd_dirs sd) t of
        None \<Rightarrow> sd
      | Some td \<Rightarrow>
          (case dir_get td n of
             None \<Rightarrow> sd
           | Some f \<Rightarrow> sd\<lparr>sd_files := dir_put (sd_files sd) n f,
                          sd_dirs := AList.update t (dir_del td n) (sd_dirs sd)\<rparr>))"
| "apply_op sd (RemoveDir t) = sd\<lparr>sd_dirs := AList.delete t (sd_dirs sd)\<rparr>"
| "apply_op sd (CreateFile n) = sd\<lparr>sd_files := dir_put (sd_files sd) n []\<rparr>"
| "apply_op sd (WriteFile n b) = sd\<lparr>sd_files := dir_put (sd_files sd) n b\<rparr>"
| "apply_op sd (RemoveFile n) = sd\<lparr>sd_files := dir_del (sd_files sd) n\<rparr>"

definition apply_ops :: "seg_disk \<Rightarrow> fs_op list \<Rightarrow> seg_disk" where
  "apply_ops sd ops = foldl apply_op sd ops"

definition old_name :: "rstring \<Rightarrow> rstring" where
  "old_name n = n @ bytes_of ''.old''"

definition seg_names :: "dir \<Rightarrow> rstring list" where
  "seg_names d = filter is_segment_name (dir_names d)"

text \<open>Phases 5a to 5c; \<open>retained\<close> tells whether any chunk was kept.\<close>

definition compact_plan :: "rstring \<Rightarrow> dir \<Rightarrow> dir \<Rightarrow> bool \<Rightarrow> fs_op list" where
  "compact_plan tmp d nd retained =
     map (\<lambda>n. Rename n (old_name n)) (seg_names d)
     @ (if retained then map (MoveIn tmp) (seg_names nd) else [])
     @ [RemoveDir tmp, CreateFile compact_marker, WriteFile compact_marker COMPACT_DONE]
     @ map (\<lambda>n. RemoveFile (old_name n)) (seg_names d)
     @ [RemoveFile compact_marker]"

section \<open>The operation\<close>

text \<open>The streaming copy; \<open>EC\<close> gives the clock and nonce used for each chunk.\<close>

fun compact_copy ::
    "ext \<Rightarrow> (chunk_id \<Rightarrow> env) \<Rightarrow> vault_key option \<Rightarrow> dir \<Rightarrow> chunk_id set \<Rightarrow> (chunk_id \<times> chunk_location) list
       \<Rightarrow> dir \<Rightarrow> seg_writer \<Rightarrow> seg_index \<Rightarrow> (dir \<times> seg_writer \<times> seg_index) result" where
  "compact_copy X EC vk d R [] nd nw nidx = Inr (nd, nw, nidx)"
| "compact_copy X EC vk d R ((cid, loc) # es) nd nw nidx =
     (if cid \<in> R then
        bindE (read_chunk X vk d cid loc) (\<lambda>data.
        bindE (sw_append X (EC cid) nd nw nidx cid data) (\<lambda>(nd', nw', nidx', _).
        compact_copy X EC vk d R es nd' nw' nidx'))
      else compact_copy X EC vk d R es nd nw nidx)"

text \<open>The swap, the new index and the writer re-attached to the new files.\<close>

definition compact_swap ::
    "env \<Rightarrow> rstring \<Rightarrow> seg_store \<Rightarrow> (rstring \<times> dir) list \<Rightarrow> dir \<Rightarrow> seg_writer \<Rightarrow> seg_index
       \<Rightarrow> seg_store \<times> (rstring \<times> dir) list \<times> nat" where
  "compact_swap E tmp s dirs nd nw nidx =
     (let d = ss_files s;
          max_seg = w_max_segment_size (ss_writer s);
          retained = idx_len nidx;
          sd = \<lparr>sd_files = d, sd_dirs = AList.update tmp nd dirs\<rparr>;
          sd' = apply_ops sd (compact_plan tmp d nd (0 < retained));
          dw = (if 0 < retained
            then sw_open E (sd_files sd') (w_segment_id nw) (w_offset nw) max_seg (ss_vault_key s)
            else sw_open E (sd_files sd') 1 0 max_seg (ss_vault_key s))
      in (s\<lparr>ss_files := fst dw, ss_index := idx_replace_with (ss_index s) nidx, ss_writer := snd dw\<rparr>,
          sd_dirs sd', idx_len (ss_index s) - retained))"

definition compact_and_reclaim ::
    "ext \<Rightarrow> env \<Rightarrow> (chunk_id \<Rightarrow> env) \<Rightarrow> rstring \<Rightarrow> chunk_id set \<Rightarrow> seg_store \<Rightarrow> (rstring \<times> dir) list
       \<Rightarrow> (seg_store \<times> (rstring \<times> dir) list \<times> nat) result" where
  "compact_and_reclaim X E EC tmp R s dirs =
     (if \<forall>(cid, _) \<in> set (idx_entries (ss_index s)). cid \<in> R then Inr (s, dirs, 0)
      else
        let stage = sw_open E [] 1 0 (w_max_segment_size (ss_writer s)) (ss_vault_key s)
        in bindE (compact_copy X EC (ss_vault_key s) (ss_files s) R (idx_entries (ss_index s))
                    (fst stage) (snd stage) idx_new)
             (\<lambda>(nd, nw, nidx). Inr (compact_swap E tmp s dirs nd nw nidx)))"

section \<open>Names\<close>

lemma strip_old_name [simp]: "strip_old (old_name n) = n"
  by (simp add: strip_old_def old_name_def)

lemma bytes_of_append: "bytes_of (a @ b) = bytes_of a @ bytes_of b"
  by (simp add: bytes_of_def)

lemma starts_with_append_right: "starts_with s p \<Longrightarrow> starts_with (s @ t) p"
  by (auto simp: starts_with_iff)

lemma seg_old_split: "bytes_of ''.seg.old'' = bytes_of ''.seg'' @ bytes_of ''.old''"
  by (simp add: bytes_of_def)

lemma is_old_old_name: "is_segment_name n \<Longrightarrow> is_old_name (old_name n)"
  by (auto simp: is_segment_name_def is_old_name_def old_name_def seg_old_split ends_with_iff
      intro: starts_with_append_right)

lemma old_name_of_old:
  assumes "is_old_name m"
  shows "\<exists>n. is_segment_name n \<and> m = old_name n"
proof -
  obtain t where t: "m = t @ bytes_of ''.seg'' @ bytes_of ''.old''" and s: "take 8 m = bytes_of ''segment_''"
    using assms unfolding is_old_name_def ends_with_iff starts_with_def seg_old_split by (auto simp: numeral_eq_Suc)
  have "8 \<le> length t"
  proof (rule ccontr)
    assume "\<not> 8 \<le> length t"
    then have "take 8 m ! length t = 46" "length t < length (take 8 m)"
      by (simp_all add: t nth_append bytes_of_def)
    then have "46 \<in> set (take 8 m)" by (metis nth_mem)
    then show False by (simp add: s bytes_of_def)
  qed
  then have "is_segment_name (t @ bytes_of ''.seg'')"
    using s by (simp add: is_segment_name_def t starts_with_def numeral_eq_Suc)
  then show ?thesis by (intro exI [of _ "t @ bytes_of ''.seg''"]) (simp add: t old_name_def)
qed

lemma old_not_segment: "is_old_name n \<Longrightarrow> \<not> is_segment_name n"
proof
  assume "is_old_name n" "is_segment_name n"
  then obtain p q where "n = p @ bytes_of ''.seg''" "n = q @ bytes_of ''.seg.old''"
    unfolding is_segment_name_def is_old_name_def ends_with_iff by blast
  then have "last n = last (bytes_of ''.seg'')" "last n = last (bytes_of ''.seg.old'')"
    by (simp_all add: bytes_of_def)
  then show False by (simp add: bytes_of_def)
qed

lemma marker_names [simp]: "\<not> is_segment_name compact_marker" "\<not> is_old_name compact_marker"
  by (simp_all add: is_segment_name_def is_old_name_def compact_marker_def starts_with_def bytes_of_def)

lemma old_name_inject [simp]: "old_name a = old_name b \<longleftrightarrow> a = b"
  by (simp add: old_name_def)

lemma old_name_ne [simp]: "old_name n \<noteq> n"
  by (simp add: old_name_def bytes_of_def)

section \<open>The states a crash can leave\<close>

text \<open>
  \<open>swapped d nd A B C mk\<close>: the segments \<open>A\<close> of \<open>d\<close> have been renamed, the segments \<open>B\<close> of
  \<open>nd\<close> moved in, the backups of \<open>C\<close> removed, and the marker holds \<open>mk\<close>.
\<close>

definition swapped ::
    "dir \<Rightarrow> dir \<Rightarrow> rstring set \<Rightarrow> rstring set \<Rightarrow> rstring set \<Rightarrow> bytes option \<Rightarrow> rstring \<Rightarrow> bytes option" where
  "swapped d nd A B C mk n =
     (if n = compact_marker then mk
      else if is_segment_name n then
        (if n \<in> B then dir_get nd n else if n \<in> A then None else dir_get d n)
      else if is_old_name n then
        (if strip_old n \<in> A - C then dir_get d (strip_old n) else None)
      else dir_get d n)"

lemma in_seg_names: "n \<in> set (seg_names d) \<longleftrightarrow> is_segment_name n \<and> dir_get d n \<noteq> None"
  by (auto simp: seg_names_def in_dir_names)

lemma clean_no_old: "clean_dir d \<Longrightarrow> is_old_name n \<Longrightarrow> dir_get d n = None"
  using in_dir_names [of n d] by (auto simp: clean_dir_def filter_empty_conv)

lemma swapped_start: "clean_dir d \<Longrightarrow> dir_get d = swapped d nd {} {} {} None"
  by (auto simp: swapped_def fun_eq_iff clean_no_old) (simp add: clean_dir_def)

lemma swapped_rename:
  assumes "dir_get e = swapped d nd A {} {} None" "n \<in> set (seg_names d)" "n \<notin> A"
  shows "dir_get (dir_rename e n (old_name n)) = swapped d nd (insert n A) {} {} None"
proof
  fix m
  have n: "is_segment_name n" "dir_get e n = dir_get d n" "n \<noteq> compact_marker"
    using assms by (auto simp: in_seg_names swapped_def)
  then obtain c where c: "dir_get e n = Some c" "dir_get d n = Some c"
    using assms(2) by (auto simp: in_seg_names)
  have on: "is_old_name (old_name n)" "\<not> is_segment_name (old_name n)" "old_name n \<noteq> compact_marker"
    using is_old_old_name [OF n(1)] old_not_segment by auto
  have other: "strip_old m \<noteq> n" if "m \<noteq> old_name n" "is_old_name m"
    using old_name_of_old [OF that(2)] that(1) by auto
  show "dir_get (dir_rename e n (old_name n)) m = swapped d nd (insert n A) {} {} None m"
    using n on c other assms(1) by (auto simp: dir_get_rename [OF c(1)] swapped_def)
qed

lemma swapped_renames:
  assumes "sd_files sd = e" "dir_get e = swapped d nd A {} {} None" "set ns \<subseteq> set (seg_names d)"
    "distinct ns" "set ns \<inter> A = {}"
  shows "dir_get (sd_files (apply_ops sd (map (\<lambda>n. Rename n (old_name n)) ns)))
           = swapped d nd (A \<union> set ns) {} {} None
     \<and> sd_dirs (apply_ops sd (map (\<lambda>n. Rename n (old_name n)) ns)) = sd_dirs sd"
  using assms
proof (induction ns arbitrary: sd e A)
  case (Cons n ns)
  have "dir_get (dir_rename e n (old_name n)) = swapped d nd (insert n A) {} {} None"
    using Cons.prems by (intro swapped_rename) auto
  then show ?case
    using Cons.IH [of "apply_op sd (Rename n (old_name n))" _ "insert n A"] Cons.prems
    by (simp add: apply_ops_def)
qed (simp add: apply_ops_def)

lemma swapped_move:
  assumes "dir_get e = swapped d nd A B {} None" "n \<in> set (seg_names nd)" "dir_get nd n = Some c"
  shows "dir_get (dir_put e n c) = swapped d nd A (insert n B) {} None"
  using assms by (auto simp: in_seg_names swapped_def fun_eq_iff)

lemma swapped_moves:
  assumes "dir_get (sd_files sd) = swapped d nd A B {} None" "set ns \<subseteq> set (seg_names nd)" "distinct ns"
    "map_of (sd_dirs sd) tmp = Some td" "\<forall>n \<in> set ns. dir_get td n = dir_get nd n"
  shows "dir_get (sd_files (apply_ops sd (map (MoveIn tmp) ns))) = swapped d nd A (B \<union> set ns) {} None"
  using assms
proof (induction ns arbitrary: sd B td)
  case (Cons n ns)
  obtain c where c: "dir_get nd n = Some c" using Cons.prems(2) by (auto simp: in_seg_names)
  let ?sd = "apply_op sd (MoveIn tmp n)"
  have td: "dir_get td n = Some c" using Cons.prems(5) c by simp
  have sd: "sd_files ?sd = dir_put (sd_files sd) n c" "map_of (sd_dirs ?sd) tmp = Some (dir_del td n)"
    using Cons.prems(4) td by (simp_all add: update_conv)
  have "dir_get (sd_files (apply_ops ?sd (map (MoveIn tmp) ns))) = swapped d nd A (insert n B \<union> set ns) {} None"
    using Cons.prems sd swapped_move [OF Cons.prems(1) _ c] by (intro Cons.IH) auto
  then show ?case by (simp add: apply_ops_def)
qed (simp add: apply_ops_def)

lemma swapped_marker:
  "dir_get e = swapped d nd A B C mk \<Longrightarrow> dir_get (dir_put e compact_marker c) = swapped d nd A B C (Some c)"
  "dir_get e = swapped d nd A B C mk \<Longrightarrow> dir_get (dir_del e compact_marker) = swapped d nd A B C None"
  by (auto simp: swapped_def fun_eq_iff)

lemma swapped_remove:
  assumes "dir_get e = swapped d nd A B C mk" "is_segment_name n"
  shows "dir_get (dir_del e (old_name n)) = swapped d nd A B (insert n C) mk"
proof
  fix m
  have "strip_old m \<noteq> n" if "m \<noteq> old_name n" "is_old_name m"
    using old_name_of_old [OF that(2)] that(1) by auto
  then show "dir_get (dir_del e (old_name n)) m = swapped d nd A B (insert n C) mk m"
    using assms is_old_old_name [OF assms(2)] old_not_segment [of "old_name n"] by (auto simp: swapped_def)
qed

lemma swapped_dels:
  assumes "dir_get e = swapped d nd A B C mk" "\<forall>n \<in> set ns. is_segment_name n"
  shows "dir_get (foldl dir_del e (map old_name ns)) = swapped d nd A B (C \<union> set ns) mk"
  using assms
proof (induction ns arbitrary: e C)
  case (Cons n ns)
  then show ?case using Cons.IH [OF swapped_remove, of e C n] by simp
qed simp

lemma swapped_restore:
  assumes "dir_get e = swapped d nd A B {} mk" "n \<in> A" "n \<in> set (seg_names d)"
  shows "dir_get (restore_old e (old_name n)) = swapped d nd (A - {n}) (B - {n}) {} mk"
proof
  fix m
  have n: "is_segment_name n" and d: "dir_get d n \<noteq> None" using assms(3) by (auto simp: in_seg_names)
  note on = is_old_old_name [OF n] old_not_segment [OF is_old_old_name [OF n]]
  have ne: "old_name n \<noteq> compact_marker" "n \<noteq> compact_marker" using on n by auto
  obtain c where c: "dir_get d n = Some c" using d by auto
  let ?e = "if dir_get e n \<noteq> None then dir_del e n else e"
  have e: "dir_get ?e k = (if k = n then None else dir_get e k)" for k by auto
  have eo: "dir_get ?e (old_name n) = Some c"
    using assms on ne c by (simp add: e swapped_def)
  have other: "strip_old m \<noteq> n" if "m \<noteq> old_name n" "is_old_name m"
    using old_name_of_old [OF that(2)] that(1) by auto
  have "dir_get (restore_old e (old_name n)) m
      = (if m = n then Some c else if m = old_name n then None else dir_get e m)"
    using dir_get_rename [OF eo, of n m] by (simp add: restore_old_def Let_def e)
  then show "dir_get (restore_old e (old_name n)) m = swapped d nd (A - {n}) (B - {n}) {} mk m"
    using assms on ne c other n by (auto simp: swapped_def)
qed

lemma swapped_restores:
  assumes "dir_get e = swapped d nd A B {} mk" "set ns \<subseteq> A" "set ns \<subseteq> set (seg_names d)" "distinct ns"
  shows "dir_get (foldl restore_old e (map old_name ns)) = swapped d nd (A - set ns) (B - set ns) {} mk"
  using assms
proof (induction ns arbitrary: e A B)
  case (Cons n ns)
  have "dir_get (restore_old e (old_name n)) = swapped d nd (A - {n}) (B - {n}) {} mk"
    using Cons.prems by (intro swapped_restore) auto
  then have "dir_get (foldl restore_old (restore_old e (old_name n)) (map old_name ns))
      = swapped d nd (A - {n} - set ns) (B - {n} - set ns) {} mk"
    using Cons.prems by (intro Cons.IH) auto
  moreover have "A - {n} - set ns = A - set (n # ns)" "B - {n} - set ns = B - set (n # ns)" by auto
  ultimately show ?case by simp
qed simp

section \<open>What opening the store makes of them\<close>

text \<open>The backups present are those of the renamed segments whose backups were not yet removed.\<close>

lemma swapped_olds:
  assumes e: "dir_get e = swapped d nd A B C mk" and "dir_inv e" and A: "A \<subseteq> set (seg_names d)"
  shows "\<exists>ns. filter is_old_name (dir_names e) = map old_name ns \<and> distinct ns \<and> set ns = A - C"
proof -
  let ?olds = "filter is_old_name (dir_names e)"
  have "old_name (strip_old m) = m" if "m \<in> set ?olds" for m using that old_name_of_old [of m] by auto
  then have "map (old_name \<circ> strip_old) ?olds = ?olds" by (intro map_idI) simp
  then have eq: "?olds = map old_name (map strip_old ?olds)" by simp
  have "distinct ?olds" using assms(2) by (simp add: dir_inv_def)
  then have "distinct (map strip_old ?olds)" using eq distinct_map by metis
  moreover have "set (map strip_old ?olds) = A - C"
  proof
    show "set (map strip_old ?olds) \<subseteq> A - C"
      using e by (auto simp: in_dir_names swapped_def old_not_segment split: if_splits)
    show "A - C \<subseteq> set (map strip_old ?olds)"
    proof
      fix n
      assume n: "n \<in> A - C"
      then have s: "is_segment_name n" "dir_get d n \<noteq> None" using A by (auto simp: in_seg_names)
      note on = is_old_old_name [OF s(1)] old_not_segment [OF is_old_old_name [OF s(1)]]
      then have "dir_get e (old_name n) \<noteq> None"
        using e n s by (auto simp: swapped_def)
      then have "old_name n \<in> set ?olds" using on by (simp add: in_dir_names)
      then show "n \<in> set (map strip_old ?olds)" by (metis image_eqI image_set strip_old_name)
    qed
  qed
  ultimately show ?thesis using eq by blast
qed

lemma cleanup_rollback:
  assumes "dir_get (sd_files sd) = swapped d nd A B {} mk" "dir_inv (sd_files sd)" "A \<subseteq> set (seg_names d)"
    and "mk \<noteq> Some COMPACT_DONE"
  shows "dir_get (sd_files (compact_cleanup sd)) = swapped d nd {} (B - A) {} None"
proof -
  obtain ns where ns: "filter is_old_name (dir_names (sd_files sd)) = map old_name ns" "distinct ns" "set ns = A"
    using swapped_olds [OF assms(1-3)] by auto
  have nd: "dir_get (sd_files sd) compact_marker \<noteq> Some COMPACT_DONE"
    using assms(1,4) by (simp add: swapped_def)
  have "dir_get (foldl restore_old (sd_files sd) (map old_name ns)) = swapped d nd {} (B - A) {} mk"
    using swapped_restores [OF assms(1), of ns] ns assms(3) by simp
  then show ?thesis
    using ns nd swapped_marker(2) [of _ d nd "{}" "B - A" "{}" mk]
    by (cases "ns = []") (auto simp: compact_cleanup_def Let_def swapped_def)
qed

lemma cleanup_commit:
  assumes "dir_get (sd_files sd) = swapped d nd A B C mk" "dir_inv (sd_files sd)" "A \<subseteq> set (seg_names d)"
    and "mk = Some COMPACT_DONE \<or> C = A" "C \<subseteq> A"
  shows "dir_get (sd_files (compact_cleanup sd)) = swapped d nd A B A None"
proof -
  obtain ns where ns: "filter is_old_name (dir_names (sd_files sd)) = map old_name ns" "distinct ns" "set ns = A - C"
    using swapped_olds [OF assms(1-3)] by auto
  have seg: "\<forall>n \<in> set ns. is_segment_name n" using ns(3) assms(3) by (auto simp: in_seg_names)
  have "C \<union> set ns = A" using ns(3) assms(5) by auto
  then have del: "dir_get (foldl dir_del (sd_files sd) (map old_name ns)) = swapped d nd A B A mk"
    using swapped_dels [OF assms(1) seg] by simp
  show ?thesis
  proof (cases "ns = []")
    case True
    then have "C = A" using ns(3) assms(5) by auto
    then show ?thesis
      using assms(1) ns(1) True swapped_marker(2) [OF assms(1)]
      by (auto simp: compact_cleanup_def Let_def fun_eq_iff swapped_def)
  next
    case False
    then have "dir_get (sd_files sd) compact_marker = Some COMPACT_DONE"
      using assms(1,4) ns(3) by (auto simp: swapped_def)
    with False ns(1) swapped_marker(2) [OF del] show ?thesis
      by (simp add: compact_cleanup_def Let_def)
  qed
qed

section \<open>A crash at any step of the swap\<close>

lemma apply_ops_simps [simp]:
  "apply_ops sd [] = sd" "apply_ops sd (op # ops) = apply_ops (apply_op sd op) ops"
  "apply_ops sd (ops @ ops') = apply_ops (apply_ops sd ops) ops'"
  by (simp_all add: apply_ops_def)

lemma apply_ops_inv: "dir_inv (sd_files sd) \<Longrightarrow> dir_inv (sd_files (apply_ops sd ops))"
proof (induction ops arbitrary: sd)
  case (Cons op ops)
  then show ?case by (cases op) (auto split: option.splits)
qed simp

lemma apply_removes:
  "sd_files (apply_ops sd (map (\<lambda>n. RemoveFile (old_name n)) ns)) = foldl dir_del (sd_files sd) (map old_name ns)"
  by (induction ns arbitrary: sd) simp_all

lemma swapped_removes:
  assumes "dir_get (sd_files sd) = swapped d nd A B {} mk" "set ns \<subseteq> set (seg_names d)"
  shows "dir_get (sd_files (apply_ops sd (map (\<lambda>n. RemoveFile (old_name n)) ns))) = swapped d nd A B (set ns) mk"
proof -
  have "\<forall>n \<in> set ns. is_segment_name n" using assms(2) in_seg_names by blast
  then show ?thesis using swapped_dels [OF assms(1), of ns] by (simp add: apply_removes)
qed

text \<open>Before the marker is written: some segments renamed, then some new ones moved in.\<close>

definition mid_swap :: "dir \<Rightarrow> dir \<Rightarrow> rstring set \<Rightarrow> seg_disk \<Rightarrow> bool" where
  "mid_swap d nd N sd \<longleftrightarrow> (\<exists>A B mk. dir_get (sd_files sd) = swapped d nd A B {} mk
     \<and> A \<subseteq> set (seg_names d) \<and> B \<subseteq> N \<and> (B = {} \<or> A = set (seg_names d)) \<and> mk \<noteq> Some COMPACT_DONE)"

lemma mid_swapI:
  "dir_get (sd_files sd) = swapped d nd A B {} mk \<Longrightarrow> A \<subseteq> set (seg_names d) \<Longrightarrow> B \<subseteq> N
   \<Longrightarrow> B = {} \<or> A = set (seg_names d) \<Longrightarrow> mk \<noteq> Some COMPACT_DONE \<Longrightarrow> mid_swap d nd N sd"
  unfolding mid_swap_def by blast

text \<open>Afterwards: all new segments in place, some backups left, the marker gone only after the last.\<close>

definition late_swap :: "dir \<Rightarrow> dir \<Rightarrow> rstring set \<Rightarrow> seg_disk \<Rightarrow> bool" where
  "late_swap d nd N sd \<longleftrightarrow> (\<exists>C mk. dir_get (sd_files sd) = swapped d nd (set (seg_names d)) N C mk
     \<and> C \<subseteq> set (seg_names d) \<and> (mk = Some COMPACT_DONE \<or> C = set (seg_names d)))"

lemma compact_prefix:
  assumes d: "clean_dir d" and nd: "dir_inv nd" and tmp: "map_of dirs tmp = Some nd"
    and ops: "prefix ops (compact_plan tmp d nd retained)"
    and N: "N = (if retained then set (seg_names nd) else {})"
  shows "mid_swap d nd N (apply_ops \<lparr>sd_files = d, sd_dirs = dirs\<rparr> ops)
       \<or> late_swap d nd N (apply_ops \<lparr>sd_files = d, sd_dirs = dirs\<rparr> ops)"
proof -
  let ?A = "set (seg_names d)" and ?sd = "\<lparr>sd_files = d, sd_dirs = dirs\<rparr>"
  let ?ren = "map (\<lambda>n. Rename n (old_name n))" and ?mv = "map (MoveIn tmp)"
  let ?rm = "map (\<lambda>n. RemoveFile (old_name n))"
  define ns where "ns = (if retained then seg_names nd else [])"
  have dist: "distinct (seg_names d)" "distinct ns"
    using d nd by (auto simp: ns_def seg_names_def clean_dir_def dir_inv_def)
  have mvs: "(if retained then ?mv (seg_names nd) else []) = ?mv ns" and setns: "set ns = N"
    "set ns \<subseteq> set (seg_names nd)" by (auto simp: ns_def N)
  have ren: "dir_get (sd_files (apply_ops ?sd (?ren xs))) = swapped d nd (set xs) {} {} None
      \<and> sd_dirs (apply_ops ?sd (?ren xs)) = dirs" if "prefix xs (seg_names d)" for xs
    using swapped_renames [OF _ swapped_start [OF d], of ?sd xs nd] that dist(1)
    by (auto dest: set_mono_prefix simp: prefix_def)
  define sd1 where "sd1 = apply_ops ?sd (?ren (seg_names d))"
  have sd1: "dir_get (sd_files sd1) = swapped d nd ?A {} {} None" "sd_dirs sd1 = dirs"
    using ren [of "seg_names d"] by (simp_all add: sd1_def)
  have mv: "dir_get (sd_files (apply_ops sd1 (?mv xs))) = swapped d nd ?A (set xs) {} None" if "prefix xs ns" for xs
    using swapped_moves [OF sd1(1), of xs tmp nd] that dist(2) setns tmp sd1(2)
    by (auto dest: set_mono_prefix simp: prefix_def)
  define sd2 where "sd2 = apply_ops sd1 (?mv ns)"
  have sd2: "dir_get (sd_files sd2) = swapped d nd ?A N {} None"
    using mv [of ns] setns(1) by (simp add: sd2_def)
  define marking where
    "marking = [RemoveDir tmp, CreateFile compact_marker, WriteFile compact_marker COMPACT_DONE]"
  define sd3 where "sd3 = apply_ops sd2 marking"
  have sd3: "dir_get (sd_files sd3) = swapped d nd ?A N {} (Some COMPACT_DONE)"
    using swapped_marker(1) [OF swapped_marker(1) [OF sd2]] by (simp add: sd3_def marking_def)
  have rm: "dir_get (sd_files (apply_ops sd3 (?rm xs))) = swapped d nd ?A N (set xs) (Some COMPACT_DONE)"
    if "prefix xs (seg_names d)" for xs
    using swapped_removes [OF sd3, of xs] set_mono_prefix [OF that] by simp
  consider xs where "prefix xs (seg_names d)" "ops = ?ren xs"
    | xs where "prefix xs ns" "ops = ?ren (seg_names d) @ ?mv xs"
    | zs where "prefix zs marking" "ops = ?ren (seg_names d) @ ?mv ns @ zs"
    | xs where "prefix xs (seg_names d)" "ops = ?ren (seg_names d) @ ?mv ns @ marking @ ?rm xs"
    | "ops = ?ren (seg_names d) @ ?mv ns @ marking @ ?rm (seg_names d) @ [RemoveFile compact_marker]"
    using ops unfolding compact_plan_def mvs marking_def [symmetric]
    by (auto simp: prefix_append prefix_Cons dest!: prefix_map_rightE)
  then show ?thesis
  proof cases
    case 1
    then have "mid_swap d nd N (apply_ops ?sd ops)"
      unfolding mid_swap_def using ren set_mono_prefix by blast
    then show ?thesis ..
  next
    case 2
    then have "mid_swap d nd N (apply_ops ?sd ops)"
      using mv [OF 2(1)] set_mono_prefix [OF 2(1)] setns(1)
      by (intro mid_swapI [of _ d nd ?A "set xs" None]) (simp_all add: sd1_def [symmetric])
    then show ?thesis ..
  next
    case 3
    have "mid_swap d nd N sd2" unfolding mid_swap_def using sd2 by blast
    moreover have "mid_swap d nd N (apply_ops sd2 [RemoveDir tmp])"
      using sd2 by (intro mid_swapI [of _ d nd ?A N None]) simp_all
    moreover have "mid_swap d nd N (apply_ops sd2 [RemoveDir tmp, CreateFile compact_marker])"
      using swapped_marker(1) [OF sd2, of "[]"]
      by (intro mid_swapI [of _ d nd ?A N "Some []"]) (simp_all add: COMPACT_DONE_def bytes_of_def)
    moreover have "late_swap d nd N sd3" unfolding late_swap_def using sd3 by blast
    ultimately show ?thesis
      using 3 by (auto simp: prefix_Cons sd1_def [symmetric] sd2_def [symmetric] sd3_def marking_def)
  next
    case 4
    then have "late_swap d nd N (apply_ops ?sd ops)"
      using rm [OF 4(1)] set_mono_prefix [OF 4(1)] unfolding late_swap_def
      by (auto simp: sd1_def [symmetric] sd2_def [symmetric] sd3_def)
    then show ?thesis ..
  next
    case 5
    then have "late_swap d nd N (apply_ops ?sd ops)"
      using swapped_marker(2) [OF rm [of "seg_names d"]] unfolding late_swap_def
      by (auto simp: sd1_def [symmetric] sd2_def [symmetric] sd3_def intro!: exI [of _ ?A])
    then show ?thesis ..
  qed
qed

text \<open>
  Opening the store after a crash at any point of the swap leaves either every file of the old
  directory, with possibly some segment files of the new one whose numbers were not in use, or
  exactly the new segment files.
\<close>

lemma compact_crash:
  assumes d: "clean_dir d" and nd: "dir_inv nd" and tmp: "map_of dirs tmp = Some nd"
    and ops: "prefix ops (compact_plan tmp d nd retained)"
    and N: "N = (if retained then set (seg_names nd) else {})"
    and r: "r = sd_files (compact_cleanup (apply_ops \<lparr>sd_files = d, sd_dirs = dirs\<rparr> ops))"
  shows "(\<exists>B \<subseteq> N - set (seg_names d). dir_get r = swapped d nd {} B {} None)
       \<or> dir_get r = swapped d nd (set (seg_names d)) N (set (seg_names d)) None"
  using compact_prefix [OF assms(1-5)]
proof
  let ?sd = "apply_ops \<lparr>sd_files = d, sd_dirs = dirs\<rparr> ops" and ?A = "set (seg_names d)"
  have inv: "dir_inv (sd_files ?sd)" using d by (intro apply_ops_inv) (simp add: clean_dir_def)
  {
    assume "mid_swap d nd N ?sd"
    then obtain A B mk where s: "dir_get (sd_files ?sd) = swapped d nd A B {} mk"
      "A \<subseteq> ?A" "B \<subseteq> N" "B = {} \<or> A = ?A" "mk \<noteq> Some COMPACT_DONE" by (auto simp: mid_swap_def)
    have "dir_get r = swapped d nd {} (B - A) {} None"
      unfolding r by (rule cleanup_rollback [OF s(1) inv s(2,5)])
    moreover have "B - A \<subseteq> N - ?A" using s(3,4) by blast
    ultimately show ?thesis by blast
  next
    assume "late_swap d nd N ?sd"
    then obtain C mk where s: "dir_get (sd_files ?sd) = swapped d nd ?A N C mk"
      "C \<subseteq> ?A" "mk = Some COMPACT_DONE \<or> C = ?A" by (auto simp: late_swap_def)
    have "dir_get r = swapped d nd ?A N ?A None"
      unfolding r by (rule cleanup_commit [OF s(1) inv _ s(3,2)]) simp
    then show ?thesis ..
  }
qed

section \<open>A completed compaction\<close>

lemma compact_final:
  assumes d: "clean_dir d" and nd: "dir_inv nd" and tmp: "map_of dirs tmp = Some nd"
    and N: "N = (if retained then set (seg_names nd) else {})"
  shows "dir_get (sd_files (apply_ops \<lparr>sd_files = d, sd_dirs = dirs\<rparr> (compact_plan tmp d nd retained)))
     = swapped d nd (set (seg_names d)) N (set (seg_names d)) None"
proof -
  let ?A = "set (seg_names d)" and ?sd = "\<lparr>sd_files = d, sd_dirs = dirs\<rparr>"
  define ns where "ns = (if retained then seg_names nd else [])"
  have mvs: "(if retained then map (MoveIn tmp) (seg_names nd) else []) = map (MoveIn tmp) ns"
    and ns: "set ns = N" "set ns \<subseteq> set (seg_names nd)" "distinct ns" "distinct (seg_names d)"
    using d nd by (auto simp: ns_def N seg_names_def clean_dir_def dir_inv_def)
  define sd1 where "sd1 = apply_ops ?sd (map (\<lambda>n. Rename n (old_name n)) (seg_names d))"
  have sd1: "dir_get (sd_files sd1) = swapped d nd ?A {} {} None" "sd_dirs sd1 = dirs"
    using swapped_renames [OF _ swapped_start [OF d], of ?sd "seg_names d" nd] ns(4)
    by (simp_all add: sd1_def)
  define sd2 where "sd2 = apply_ops sd1 (map (MoveIn tmp) ns)"
  have "dir_get (sd_files sd2) = swapped d nd ?A N {} None"
    using swapped_moves [OF sd1(1), of ns tmp nd] ns tmp sd1(2) by (simp add: sd2_def)
  then have "dir_get (sd_files (apply_ops sd2 [RemoveDir tmp, CreateFile compact_marker,
      WriteFile compact_marker COMPACT_DONE])) = swapped d nd ?A N {} (Some COMPACT_DONE)"
    using swapped_marker(1) [OF swapped_marker(1)] by simp
  from swapped_marker(2) [OF swapped_removes [OF this, of "seg_names d"]]
  show ?thesis by (simp add: compact_plan_def mvs sd1_def [symmetric] sd2_def [symmetric])
qed

text \<open>Two directories with the same segment files have the same segment ids and the same logs.\<close>

lemma segment_ids_cong:
  assumes "dir_inv d" "dir_inv d'" "\<And>n. is_segment_name n \<Longrightarrow> dir_get d n = None \<longleftrightarrow> dir_get d' n = None"
  shows "segment_ids d = segment_ids d'"
proof -
  have "n \<in> set (seg_names d) \<longleftrightarrow> n \<in> set (seg_names d')" for n
    using assms(3) [of n] by (cases "is_segment_name n") (simp_all add: in_seg_names)
  then have "set (seg_names d) = set (seg_names d')" by (rule set_eqI)
  moreover have "distinct (seg_names d)" "distinct (seg_names d')"
    using assms(1,2) by (auto simp: seg_names_def dir_inv_def)
  ultimately have "mset (seg_names d) = mset (seg_names d')"
    using set_eq_iff_mset_eq_distinct by blast
  then have "mset (List.map_filter segment_name_id (seg_names d)) = mset (List.map_filter segment_name_id (seg_names d'))"
    by (simp add: List.map_filter_def mset_map mset_filter)
  then have "sort (List.map_filter segment_name_id (seg_names d)) = sort (List.map_filter segment_name_id (seg_names d'))"
    by (intro properties_for_sort) simp_all
  then show ?thesis by (simp add: segment_ids_def seg_names_def)
qed

lemma swapped_new:
  assumes "dir_get r = swapped d nd (set (seg_names d)) N (set (seg_names d)) None" "dir_inv r"
  shows "clean_dir r" "is_segment_name n \<Longrightarrow> dir_get r n = (if n \<in> N then dir_get nd n else None)"
proof -
  have "\<not> is_old_name n" if "n \<in> set (dir_names r)" for n
    using that assms(1) by (auto simp: in_dir_names swapped_def old_not_segment split: if_splits)
  then show "clean_dir r" using assms by (auto simp: clean_dir_def swapped_def filter_empty_conv)
  show "dir_get r n = (if n \<in> N then dir_get nd n else None)" if "is_segment_name n"
  proof (cases "dir_get d n")
    case None
    with that assms(1) show ?thesis by (simp add: swapped_def) (metis marker_names(1))
  next
    case (Some c)
    with that assms(1) show ?thesis by (auto simp: swapped_def in_seg_names)
  qed
qed

lemma log_files_cong:
  assumes "log_files X nd log" "clean_dir r" "\<And>n. is_segment_name n \<Longrightarrow> dir_get r n = dir_get nd n"
  shows "log_files X r log"
proof -
  have "segment_ids r = segment_ids nd"
    using assms by (intro segment_ids_cong) (auto simp: log_files_def clean_dir_def)
  with assms show ?thesis by (auto simp: log_files_def)
qed

text \<open>What a directory and an index give for a chunk, as \<open>ss_get_chunk\<close> reads it.\<close>

definition reads :: "ext \<Rightarrow> vault_key option \<Rightarrow> dir \<Rightarrow> seg_index \<Rightarrow> chunk_id \<Rightarrow> bytes \<Rightarrow> bool" where
  "reads X vk d idx c data \<longleftrightarrow> (\<exists>l. idx_get idx c = Some l \<and> read_chunk X vk d c l = Inr data)"

lemma idx_len_insert: "idx_get idx c = None \<Longrightarrow> idx_len (idx_insert idx c l) = Suc (idx_len idx)"
  unfolding idx_get_def idx_len_def idx_insert_def by (induction idx) (auto split: if_splits)

text \<open>The effect of the copy: exactly the reachable entries are added, and they read as before.\<close>

definition copied ::
    "ext \<Rightarrow> vault_key option \<Rightarrow> dir \<Rightarrow> chunk_id set \<Rightarrow> (chunk_id \<times> chunk_location) list
       \<Rightarrow> dir \<Rightarrow> seg_index \<Rightarrow> dir \<Rightarrow> seg_index \<Rightarrow> bool" where
  "copied X vk d R es nd nidx nd' nidx' \<longleftrightarrow>
     idx_len nidx' = idx_len nidx + length (filter (\<lambda>(c, _). c \<in> R) es)
     \<and> (\<forall>c. c \<notin> R \<inter> fst ` set es \<longrightarrow> idx_get nidx' c = idx_get nidx c)
     \<and> (\<forall>c data. reads X vk nd nidx c data \<longrightarrow> reads X vk nd' nidx' c data)
     \<and> (\<forall>(c, l) \<in> set es. c \<in> R \<longrightarrow> (\<exists>data. read_chunk X vk d c l = Inr data \<and> reads X vk nd' nidx' c data))"

lemma copied_skip:
  "c \<notin> R \<Longrightarrow> copied X vk d R es nd nidx nd' nidx' \<Longrightarrow> copied X vk d R ((c, l) # es) nd nidx nd' nidx'"
  by (auto simp: copied_def)

lemma copied_step:
  assumes "c \<in> R" "read_chunk X vk d c l = Inr data" "c \<notin> fst ` set es"
    and "idx_len nidx1 = Suc (idx_len nidx)" "\<And>k. k \<noteq> c \<Longrightarrow> idx_get nidx1 k = idx_get nidx k"
    and "\<And>k dt. reads X vk nd nidx k dt \<Longrightarrow> reads X vk nd1 nidx1 k dt" "reads X vk nd1 nidx1 c data"
    and "copied X vk d R es nd1 nidx1 nd' nidx'"
  shows "copied X vk d R ((c, l) # es) nd nidx nd' nidx'"
  unfolding copied_def
proof (intro conjI)
  show "\<forall>(k, m) \<in> set ((c, l) # es). k \<in> R \<longrightarrow>
      (\<exists>data. read_chunk X vk d k m = Inr data \<and> reads X vk nd' nidx' k data)"
    using assms(2,7,8) by (auto simp: copied_def)
qed (use assms in \<open>auto simp: copied_def\<close>)

lemma compact_copy_mono:
  assumes "compact_copy X EC vk d R es nd nw nidx = Inr (nd', nw', nidx')" "w_inv nd nw"
    and X: "ext_ok X" and E: "\<And>c. env_ok (EC c)"
  shows "w_segment_id nw \<le> w_segment_id nw'"
  using assms(1,2)
proof (induction es arbitrary: nd nw nidx)
  case (Cons e es)
  obtain c l where e: "e = (c, l)" by (cases e)
  show ?case
  proof (cases "c \<in> R")
    case True
    with Cons.prems(1) obtain data nd1 nw1 idx1 loc where rd: "read_chunk X vk d c l = Inr data"
      and app: "sw_append X (EC c) nd nw nidx c data = Inr (nd1, nw1, idx1, loc)"
      and rest: "compact_copy X EC vk d R es nd1 nw1 idx1 = Inr (nd', nw', nidx')"
      by (auto simp: e bindE_eq_Inr)
    have "w_inv nd1 nw1"
      by (rule sw_append_spec(1) [OF app Cons.prems(2) X E]) (simp add: read_chunk_id [OF rd])
    from Cons.IH [OF rest this] sw_append_mono [OF Cons.prems(2) app] show ?thesis by simp
  qed (use Cons in \<open>simp add: e\<close>)
qed simp

lemma compact_copy_log:
  assumes "compact_copy X EC vk d R es nd nw nidx = Inr (nd', nw', nidx')"
    and "sw_log X nd nw nidx nlog" "w_vault_key nw = vk" "w_segment_id nw' < 2 ^ 64"
    and X: "ext_ok X" and E: "\<And>c. env_ok (EC c)"
    and "\<And>c l data. (c, l) \<in> set es \<Longrightarrow> c \<in> R \<Longrightarrow> read_chunk X vk d c l = Inr data \<Longrightarrow> storable data"
    and "distinct (map fst es)" "\<And>c. c \<in> fst ` set es \<Longrightarrow> idx_get nidx c = None"
  shows "(\<exists>nlog'. sw_log X nd' nw' nidx' nlog') \<and> w_vault_key nw' = vk
     \<and> w_segment_id nw \<le> w_segment_id nw' \<and> copied X vk d R es nd nidx nd' nidx'"
  using assms
proof (induction es arbitrary: nd nw nidx nlog)
  case Nil
  then show ?case by (auto simp: copied_def)
next
  case (Cons e es)
  obtain c l where e: "e = (c, l)" by (cases e)
  have st: "\<And>c l data. (c, l) \<in> set es \<Longrightarrow> c \<in> R \<Longrightarrow> read_chunk X vk d c l = Inr data \<Longrightarrow> storable data"
    using Cons.prems(7) by (meson list.set_intros(2))
  have ds: "distinct (map fst es)" "c \<notin> fst ` set es" using Cons.prems(8) by (auto simp: e)
  show ?case
  proof (cases "c \<in> R")
    case False
    then have "compact_copy X EC vk d R es nd nw nidx = Inr (nd', nw', nidx')"
      using Cons.prems(1) by (simp add: e)
    from Cons.IH [OF this Cons.prems(2-6) st ds(1)] Cons.prems(9) False show ?thesis
      by (simp add: e copied_skip)
  next
    case True
    with Cons.prems(1) obtain data nd1 nw1 idx1 loc where rd: "read_chunk X vk d c l = Inr data"
      and app: "sw_append X (EC c) nd nw nidx c data = Inr (nd1, nw1, idx1, loc)"
      and rest: "compact_copy X EC vk d R es nd1 nw1 idx1 = Inr (nd', nw', nidx')"
      by (auto simp: e bindE_eq_Inr)
    have cid: "c = cid_from_data X data" using read_chunk_id [OF rd] by simp
    have sd: "storable data" using Cons.prems(7) [of c l] rd True by (simp add: e)
    have winv: "w_inv nd nw" and iinv: "idx_inv nidx" using Cons.prems(2) by (auto simp: sw_log_def)
    note a = sw_append_spec [OF app winv X Cons.prems(6) cid]
    have get1: "idx_get idx1 k = (if k = c then Some loc else idx_get nidx k)" for k
      using idx.get_insert [OF iinv] a(4) by simp
    have none: "idx_get nidx c = None" using Cons.prems(9) by (simp add: e)
    have keep: "reads X vk nd1 idx1 k dt" if "reads X vk nd nidx k dt" for k dt
      using that none read_chunk_extends [OF _ a(2)] by (auto simp: reads_def get1)
    have r1: "reads X vk nd1 idx1 c data"
      using a(5) [OF sd] Cons.prems(3) by (simp add: reads_def get1)
    have mono: "w_segment_id nw \<le> w_segment_id nw1" "w_segment_id nw1 \<le> w_segment_id nw'"
      by (rule sw_append_mono [OF winv app]) (rule compact_copy_mono [OF rest a(1) X Cons.prems(6)])
    obtain nlog1 where nlog1: "sw_log X nd1 nw1 idx1 nlog1"
      by (rule sw_append_log [OF Cons.prems(2) app X Cons.prems(6) cid sd]) (use mono Cons.prems(4) in auto)
    have vk1: "w_vault_key nw1 = vk" using a(3) Cons.prems(3) by simp
    have none1: "idx_get idx1 k = None" if "k \<in> fst ` set es" for k
      using that ds(2) Cons.prems(9) [of k] by (auto simp: get1 e)
    note ih = Cons.IH [OF rest nlog1 vk1 Cons.prems(4) X Cons.prems(6) st ds(1) none1]
    have "copied X vk d R ((c, l) # es) nd nidx nd' nidx'"
      by (rule copied_step [OF True rd ds(2) _ _ keep r1])
        (use ih in \<open>simp_all add: a(4) idx_len_insert [OF none] get1 [unfolded a(4)]\<close>)
    with ih mono show ?thesis by (auto simp: e)
  qed
qed

lemma compact_copy_zero:
  assumes "compact_copy X EC vk d R es nd nw nidx = Inr (nd', nw', nidx')" "idx_len nidx' = 0"
  shows "nidx' = nidx \<and> nw' = nw"
  using assms(1)
proof (induction es arbitrary: nd nw nidx)
  case (Cons e es)
  obtain c l where e: "e = (c, l)" by (cases e)
  show ?case
  proof (cases "c \<in> R")
    case True
    with Cons.prems obtain data nd1 nw1 idx1 loc where
      app: "sw_append X (EC c) nd nw nidx c data = Inr (nd1, nw1, idx1, loc)"
      and rest: "compact_copy X EC vk d R es nd1 nw1 idx1 = Inr (nd', nw', nidx')"
      by (auto simp: e bindE_eq_Inr)
    have "idx_len idx1 \<noteq> 0"
      using sw_append_idx [OF app] by (simp add: idx_len_def idx_insert_def update_nonempty)
    then show ?thesis using Cons.IH [OF rest] assms(2) by auto
  qed (use Cons in \<open>simp add: e\<close>)
qed simp

text \<open>The directory and the writer after the swap carry the log of the staging directory.\<close>

lemma compact_swap_log:
  assumes d: "clean_dir d" and nlog: "sw_log X nd nw nidx nlog" "w_vault_key nw = vk"
    and tmp: "map_of dirs tmp = Some nd" and ret: "retained \<longleftrightarrow> 0 < idx_len nidx"
    and new: "\<not> retained \<Longrightarrow> nidx = idx_new"
    and r: "r = sd_files (apply_ops \<lparr>sd_files = d, sd_dirs = dirs\<rparr> (compact_plan tmp d nd retained))"
    and op: "(if retained then sw_open E r (w_segment_id nw) (w_offset nw) mx vk
              else sw_open E r 1 0 mx vk) = (d', w')"
  shows "(\<exists>log'. sw_log X d' w' nidx log') \<and> w_vault_key w' = vk
    \<and> (retained \<longrightarrow> w_segment_id w' = w_segment_id nw \<and> (\<forall>n. is_segment_name n \<longrightarrow> dir_get d' n = dir_get nd n))"
proof -
  have nd: "dir_inv nd" "log_files X nd nlog" "w_inv nd nw"
    using nlog(1) by (auto simp: sw_log_def log_files_def clean_dir_def)
  have inv: "dir_inv r" unfolding r using d by (intro apply_ops_inv) (simp add: clean_dir_def)
  note fin = compact_final [OF d nd(1) tmp refl, of retained, folded r]
  note cl = swapped_new [OF fin inv]
  show ?thesis
  proof (cases retained)
    case True
    then have get: "dir_get r n = dir_get nd n" if "is_segment_name n" for n
      using cl(2) [OF that] that by (auto simp: in_seg_names)
    obtain f where f: "dir_get r (segment_file_name (w_segment_id nw)) = Some f" "length f = w_offset nw"
      using nd(3) by (auto simp: w_inv_def get)
    obtain log0 sid sh rs where l: "nlog = log0 @ [(sid, sh, rs)]"
      using nlog(1) log_split [of nlog] by (auto simp: sw_log_def)
    then have "dir_get nd (segment_file_name (w_segment_id nw)) = Some (seg_bytes X sh rs)"
      using log_files_get [OF nd(2), of sid sh rs] nlog(1) by (simp add: sw_log_def)
    then have "w_offset nw \<noteq> 0" using f get by auto
    then have dw: "d' = r" "w' = \<lparr>w_segment_id = w_segment_id nw, w_file_open = True, w_offset = w_offset nw,
        w_max_segment_size = (if mx = 0 then DEFAULT_MAX_SEGMENT_SIZE else mx), w_vault_key = vk\<rparr>"
      using op True f by (auto simp: sw_open_def Let_def dir_put_same)
    have "log_files X r nlog" by (rule log_files_cong [OF nd(2) cl(1) get])
    moreover have "w_inv r w'" using nd(3) by (auto simp: w_inv_def dw get)
    ultimately have "sw_log X d' w' nidx nlog" using nlog by (simp add: sw_log_def dw)
    with True get show ?thesis by (auto simp: dw)
  next
    case False
    have none: "dir_get r n = None" if "is_segment_name n" for n using cl(2) [OF that] False by simp
    then have "segment_ids r = segment_ids []"
      using inv by (intro segment_ids_cong) simp_all
    then show ?thesis
      using sw_open_new_log [OF cl(1) _ none, of E mx vk d' w' X] op False new by auto
  qed
qed

text \<open>
  The whole operation: the store keeps its log structure, holds exactly the reachable chunks it held
  before, each with its data, and reports the number of entries dropped.
\<close>

lemma read_storable:
  assumes "seg_log_inv X s log" "(k, l) \<in> set (idx_entries (ss_index s))"
    and "read_chunk X (ss_vault_key s) (ss_files s) k l = Inr data"
  shows "storable data"
proof -
  have sl: "sw_log X (ss_files s) (ss_writer s) (ss_index s) log" "w_vault_key (ss_writer s) = ss_vault_key s"
    using assms(1) by (auto simp: seg_log_inv_def)
  then have "(k, l) \<in> set (log_locs log)"
    using assms(2) idx.entries_get [of "ss_index s" k l] by (auto simp: sw_log_def intro: map_of_rev_in)
  then show ?thesis
    using log_read_ex [of k l log X "ss_files s" "ss_vault_key s"] sl assms(3) by (auto simp: sw_log_def)
qed

lemma compact_get:
  assumes "copied X vk d R es nd0 idx_new nd nidx" "(k, l) \<in> set es" "k \<in> R"
    and "0 < idx_len nidx \<longrightarrow> (\<forall>n. is_segment_name n \<longrightarrow> dir_get d' n = dir_get nd n)"
  shows "\<exists>l'. idx_get nidx k = Some l' \<and> read_chunk X vk d' k l' = read_chunk X vk d k l"
proof -
  obtain l' data where l': "idx_get nidx k = Some l'" "read_chunk X vk nd k l' = Inr data"
    "read_chunk X vk d k l = Inr data"
    using assms(1-3) by (fastforce simp: copied_def reads_def)
  then have "0 < idx_len nidx" by (cases nidx) (auto simp: idx_get_def idx_len_def)
  with assms(4) l' show ?thesis by (auto simp: read_chunk_def)
qed

lemma not_has_get: "\<not> ss_has_chunk s c \<Longrightarrow> ss_get_chunk X s c = Inl (ChunkNotFound (cid_to_hex c))"
  by (simp add: ss_has_chunk_def idx_contains_def ss_get_chunk_def)

lemma compact_and_reclaim_spec:
  assumes cmp: "compact_and_reclaim X E EC tmp R s dirs = Inr (s', dirs', n)"
    and inv: "seg_log_inv X s log" and X: "ext_ok X" and E: "\<And>c. env_ok (EC c)"
    and bnd: "w_segment_id (ss_writer s') < 2 ^ 64"
  shows "(\<exists>log'. seg_log_inv X s' log')
    \<and> (\<forall>c. ss_has_chunk s' c \<longleftrightarrow> ss_has_chunk s c \<and> c \<in> R)
    \<and> (\<forall>c \<in> R. ss_get_chunk X s' c = ss_get_chunk X s c)
    \<and> n = length (filter (\<lambda>(k, _). k \<notin> R) (ss_index s))"
proof (cases "\<forall>(k, _) \<in> set (idx_entries (ss_index s)). k \<in> R")
  case True
  then have s': "s' = s" "n = 0" using cmp by (auto simp: compact_and_reclaim_def)
  have "ss_has_chunk s k \<Longrightarrow> k \<in> R" for k
    using True by (auto simp: ss_has_chunk_def idx_contains_def idx_get_def idx_entries_def dest!: map_of_SomeD)
  moreover have "filter (\<lambda>(k, _). k \<notin> R) (ss_index s) = []"
    using True by (auto simp: idx_entries_def filter_empty_conv)
  ultimately show ?thesis using inv by (auto simp: s')
next
  case False
  let ?vk = "ss_vault_key s" and ?d = "ss_files s" and ?es = "idx_entries (ss_index s)"
  let ?mx = "w_max_segment_size (ss_writer s)"
  have sl: "sw_log X ?d (ss_writer s) (ss_index s) log" "w_vault_key (ss_writer s) = ?vk"
    using inv by (auto simp: seg_log_inv_def)
  then have clean: "clean_dir ?d" and iinv: "idx_inv (ss_index s)" by (auto simp: sw_log_def log_files_def)
  have ent: "(k, l) \<in> set ?es \<longleftrightarrow> idx_get (ss_index s) k = Some l" for k l
    by (rule idx.entries_get [OF iinv])
  obtain nd0 nw0 where o: "sw_open E [] 1 0 (w_max_segment_size (ss_writer s)) ?vk = (nd0, nw0)" by fastforce
  obtain sh where nlog0: "sw_log X nd0 nw0 idx_new [(1, sh, [])]" "w_vault_key nw0 = ?vk"
    using sw_open_new_log [OF clean_Nil dir_get_Nil o] by blast
  obtain nd nw nidx where cp: "compact_copy X EC ?vk ?d R ?es nd0 nw0 idx_new = Inr (nd, nw, nidx)"
    and sw: "compact_swap E tmp s dirs nd nw nidx = (s', dirs', n)"
    using cmp False o by (auto simp: compact_and_reclaim_def Let_def bindE_eq_Inr simp del: One_nat_def)
  let ?r = "sd_files (apply_ops \<lparr>sd_files = ?d, sd_dirs = AList.update tmp nd dirs\<rparr>
    (compact_plan tmp ?d nd (0 < idx_len nidx)))"
  obtain d' w' where op: "(if 0 < idx_len nidx then sw_open E ?r (w_segment_id nw) (w_offset nw) ?mx ?vk
      else sw_open E ?r 1 0 ?mx ?vk) = (d', w')" by fastforce
  have s': "s' = s\<lparr>ss_files := d', ss_index := nidx, ss_writer := w'\<rparr>"
    and n: "n = idx_len (ss_index s) - idx_len nidx"
    using sw op by (auto simp: compact_swap_def Let_def idx_replace_with_def simp del: One_nat_def)
  have zero: "nidx = idx_new \<and> nw = nw0" if "\<not> 0 < idx_len nidx"
    using compact_copy_zero [OF cp] that by simp
  have "w_segment_id nw < 2 ^ 64" (is ?bound)
  proof (cases "0 < idx_len nidx")
    case True
    then have "w_segment_id w' = w_segment_id nw" using op by (auto simp: sw_open_def Let_def)
    with bnd show ?thesis by (simp add: s')
  next
    case False
    then show ?thesis using zero o by (auto simp: sw_open_def Let_def)
  qed
  have "(\<exists>nlog'. sw_log X nd nw nidx nlog') \<and> w_vault_key nw = ?vk \<and> w_segment_id nw0 \<le> w_segment_id nw
      \<and> copied X ?vk ?d R ?es nd0 idx_new nd nidx"
    by (rule compact_copy_log [OF cp nlog0 \<open>?bound\<close> X E])
      (use read_storable [OF inv] idx.entries_distinct [OF iinv] idx.get_empty in auto)
  then obtain nlog where nlog: "sw_log X nd nw nidx nlog" "w_vault_key nw = ?vk"
    and cpd: "copied X ?vk ?d R ?es nd0 idx_new nd nidx" by blast
  have sw': "(\<exists>log'. sw_log X d' w' nidx log') \<and> w_vault_key w' = ?vk
    \<and> (0 < idx_len nidx \<longrightarrow> w_segment_id w' = w_segment_id nw \<and> (\<forall>n. is_segment_name n \<longrightarrow> dir_get d' n = dir_get nd n))"
    by (rule compact_swap_log [OF clean nlog _ refl _ refl op]) (use zero in \<open>simp_all add: update_conv\<close>)
  have "ss_get_chunk X s' k = ss_get_chunk X s k \<and> ss_has_chunk s' k" if k: "k \<in> R" "ss_has_chunk s k" for k
  proof -
    obtain l where l: "idx_get (ss_index s) k = Some l"
      using k(2) by (auto simp: ss_has_chunk_def idx_contains_def)
    obtain l' where "idx_get nidx k = Some l'" "read_chunk X ?vk d' k l' = read_chunk X ?vk ?d k l"
      using compact_get [OF cpd _ k(1), of l d'] l sw' ent by blast
    then show ?thesis using l by (simp add: s' ss_get_chunk_def ss_has_chunk_def idx_contains_def)
  qed
  moreover have "\<not> ss_has_chunk s' k" if "\<not> (ss_has_chunk s k \<and> k \<in> R)" for k
  proof -
    have "k \<notin> R \<inter> fst ` set ?es" using that ent by (auto simp: ss_has_chunk_def idx_contains_def)
    then show ?thesis using cpd idx.get_empty by (simp add: copied_def s' ss_has_chunk_def idx_contains_def)
  qed
  moreover have "ss_get_chunk X s' k = ss_get_chunk X s k" if "k \<in> R" for k
    using calculation [of k] that not_has_get [of s k X] not_has_get [of s' k X]
    by (cases "ss_has_chunk s k") simp_all
  moreover have "n = length (filter (\<lambda>(k, _). k \<notin> R) (ss_index s))"
    using cpd sum_length_filter_compl [of "\<lambda>(k, _). k \<in> R" "ss_index s"]
    by (simp add: n copied_def idx_len_def idx_new_def idx_entries_def split_def)
  ultimately show ?thesis using sw' by (auto simp: seg_log_inv_def s')
qed

end
