(* ===== verification/Oos_Segment_Life.thy ===== *)
theory Oos_Segment_Life
  imports Oos_Segment_Compact
begin

text \<open>
  The segment store over its whole life: puts, compactions, restarts, and crashes that cut the newest
  file or stop a compaction between two of its file-system steps.  Every store reached this way is a log
  of sealed records, opens again, and holds the chunks it should.
\<close>

section \<open>Opening a directory of complete segments\<close>

lemma log_files_top: "log_files X d log \<Longrightarrow> i \<in> set (map fst log) \<Longrightarrow> i \<le> fst (last log)"
  by (cases log rule: rev_cases) (auto simp: log_files_def sorted_wrt_append)

lemma segment_ids_get: "i \<in> set (segment_ids d) \<Longrightarrow> \<exists>n \<in> set (seg_names d). segment_name_id n = Some i"
  by (auto simp: segment_ids_def seg_names_def List.map_filter_def)

lemma segment_name_in_ids:
  "n \<in> set (seg_names d) \<Longrightarrow> segment_name_id n = Some i \<Longrightarrow> i \<in> set (segment_ids d)"
  by (force simp: segment_ids_def seg_names_def List.map_filter_def)

lemma ss_open_log:
  assumes fs: "log_files X (sd_files (compact_cleanup sd)) log" and ne: "log \<noteq> []"
    and sl: "list_all (sealed X vk) (log_recs log)"
    and top: "\<forall>i > fst (last log). dir_get (sd_files (compact_cleanup sd)) (segment_file_name i) = None"
  shows "\<exists>s. ss_open X E sd mx vk = Inr s \<and> ss_vault_key s = vk \<and> seg_log_inv X s log"
proof -
  let ?d = "sd_files (compact_cleanup sd)" and ?idx = "idx_inserts idx_new (log_locs log)"
  obtain log0 sid sh rs where l: "log = log0 @ [(sid, sh, rs)]" using log_split [OF ne] by blast
  let ?w = "\<lparr>w_segment_id = sid, w_file_open = True, w_offset = length (seg_bytes X sh rs),
     w_max_segment_size = (if mx = 0 then DEFAULT_MAX_SEGMENT_SIZE else mx), w_vault_key = vk\<rparr>"
  let ?s = "\<lparr>ss_files = ?d, ss_index = ?idx, ss_writer = ?w, ss_vault_key = vk\<rparr>"
  have f: "dir_get ?d (segment_file_name sid) = Some (seg_bytes X sh rs)"
    using fs by (auto simp: l intro: log_files_get)
  have "recover_segments X sid (map fst log @ []) ?d idx_new 1 0 = Inr (?d, ?idx, sid, length (seg_bytes X sh rs))"
    using recover_segments_log [of log ?d X sid "[]" idx_new 1 0] fs sealed_wf [OF sl] ne
    by (simp add: log_files_def l)
  then have "recover_and_index X sd = Inr (compact_cleanup sd, ?idx, sid, length (seg_bytes X sh rs))"
    using fs by (simp add: recover_and_index_def log_files_def l)
  then have "ss_open X E sd mx vk = Inr ?s"
    by (simp add: ss_open_def sw_open_def f dir_put_same)
  moreover have "seg_log_inv X ?s log"
    using fs ne sl f top idx_inserts_new [of "log_locs log"]
    by (auto simp: seg_log_inv_def sw_log_def w_inv_def l simp del: idx_inserts_simps log_simps)
  ultimately show ?thesis by simp
qed

lemma seg_log_has:
  "seg_log_inv X s log \<Longrightarrow> ss_has_chunk s c \<longleftrightarrow> c \<in> fst ` set (log_locs log)"
  by (simp add: seg_log_inv_def sw_log_def ss_has_chunk_def idx_contains_def map_of_eq_None_iff
      option.split_sel flip: not_None_eq)

section \<open>Two logs side by side\<close>

lemma parse_u64_less: "parse_u64 t = Some n \<Longrightarrow> n < 2 ^ 64"
  by (auto simp: parse_u64_def Let_def split: if_splits option.splits)

lemma in_fst_image: "k \<in> fst ` set kvs \<longleftrightarrow> (\<exists>v. (k, v) \<in> set kvs)"
  by force

lemma map_filter_inj:
  assumes "distinct (List.map_filter f xs)" "x \<in> set xs" "y \<in> set xs" "f x = Some i" "f y = Some i" "distinct xs"
  shows "x = y"
proof (rule ccontr)
  assume "x \<noteq> y"
  have "inj_on (the \<circ> f) (set (filter (\<lambda>x. f x \<noteq> None) xs))"
    using assms(1,6) unfolding List.map_filter_def distinct_map by blast
  then show False using assms(2-5) \<open>x \<noteq> y\<close> by (auto simp: inj_on_def)
qed

lemma log_ids_small: "log_files X d log \<Longrightarrow> i \<in> set (map fst log) \<Longrightarrow> i < 2 ^ 64"
  using segment_ids_get [of i d] parse_u64_less by (auto simp: log_files_def segment_name_id_def)

text \<open>In the directory of a log every readable segment name is the one the writer gives.\<close>

lemma log_name_canonical:
  assumes fs: "log_files X d log" and n: "n \<in> set (seg_names d)" "segment_name_id n = Some i"
  shows "n = segment_file_name i"
proof -
  have i: "i \<in> set (segment_ids d)" by (rule segment_name_in_ids [OF n])
  then obtain sh rs where "(i, sh, rs) \<in> set log" using fs by (auto simp: log_files_def)
  then have "segment_file_name i \<in> set (seg_names d)" using log_files_get [OF fs] by (simp add: in_seg_names)
  moreover have "segment_name_id (segment_file_name i) = Some i"
    using n(2) parse_u64_less by (intro segment_name_id_file_name) (auto simp: segment_name_id_def)
  moreover have "distinct (segment_ids d)" using fs strict_sorted_iff by (auto simp: log_files_def)
  then have "distinct (List.map_filter segment_name_id (seg_names d))"
    by (simp add: segment_ids_def seg_names_def)
  moreover have "distinct (seg_names d)"
    using fs by (auto simp: seg_names_def dir_inv_def log_files_def clean_dir_def)
  ultimately show ?thesis using map_filter_inj n by metis
qed

text \<open>
  A directory whose segment files are those of one log together with some files of another that the
  first does not have.
\<close>

definition merged :: "dir \<Rightarrow> dir \<Rightarrow> dir \<Rightarrow> bool" where
  "merged r d nd \<longleftrightarrow> (\<forall>n. is_segment_name n \<longrightarrow>
     dir_get r n = dir_get d n \<or> dir_get d n = None \<and> dir_get r n = dir_get nd n)"

lemma merged_file:
  "merged r d nd \<Longrightarrow> dir_get r (segment_file_name i) = dir_get d (segment_file_name i)
     \<or> dir_get d (segment_file_name i) = None \<and> dir_get r (segment_file_name i) = dir_get nd (segment_file_name i)"
  by (simp add: merged_def)

lemma merged_name:
  assumes m: "merged r d nd" and fs: "log_files X d log" "log_files X nd nlog"
    and n: "n \<in> set (seg_names r)" "segment_name_id n = Some i"
  shows "n = segment_file_name i"
  using m n log_name_canonical [OF fs(1) _ n(2)] log_name_canonical [OF fs(2) _ n(2)]
  by (auto simp: merged_def in_seg_names)

lemma merged_ids:
  assumes m: "merged r d nd" and fs: "log_files X d log" "log_files X nd nlog" and r: "dir_inv r"
  shows "sorted_wrt (<) (segment_ids r)"
    and "i \<in> set (segment_ids r) \<longleftrightarrow> i < 2 ^ 64 \<and> dir_get r (segment_file_name i) \<noteq> None"
proof -
  have "distinct (seg_names r)" using r by (simp add: seg_names_def dir_inv_def)
  moreover have "inj_on (the \<circ> segment_name_id) (set (filter (\<lambda>x. segment_name_id x \<noteq> None) (seg_names r)))"
    using merged_name [OF m fs] by (auto intro!: inj_onI) metis
  ultimately have "distinct (segment_ids r)"
    by (simp add: segment_ids_def List.map_filter_def distinct_map flip: seg_names_def)
  then show "sorted_wrt (<) (segment_ids r)"
    using strict_sorted_iff [of "segment_ids r"] by (simp add: segment_ids_def)
  show "i \<in> set (segment_ids r) \<longleftrightarrow> i < 2 ^ 64 \<and> dir_get r (segment_file_name i) \<noteq> None"
  proof
    assume "i \<in> set (segment_ids r)"
    then obtain n where n: "n \<in> set (seg_names r)" "segment_name_id n = Some i" using segment_ids_get by blast
    have "n = segment_file_name i" by (rule merged_name [OF m fs n])
    moreover have "i < 2 ^ 64" using n(2) parse_u64_less by (auto simp: segment_name_id_def)
    ultimately show "i < 2 ^ 64 \<and> dir_get r (segment_file_name i) \<noteq> None" using n by (simp add: in_seg_names)
  next
    assume "i < 2 ^ 64 \<and> dir_get r (segment_file_name i) \<noteq> None"
    then show "i \<in> set (segment_ids r)"
      by (intro segment_name_in_ids [of "segment_file_name i"])
        (simp_all add: in_seg_names segment_name_id_file_name)
  qed
qed

lemma log_id_get:
  assumes "log_files X d log" "i < 2 ^ 64"
  shows "i \<in> set (map fst log) \<longleftrightarrow> dir_get d (segment_file_name i) \<noteq> None"
  using merged_ids(2) [of d d d X log log i] assms by (simp add: merged_def log_files_def clean_dir_def)

lemma merged_log:
  assumes m: "merged r d nd" and fs: "log_files X d log" "log_files X nd nlog" and r: "clean_dir r"
  shows "\<exists>log'. log_files X r log' \<and> set log \<subseteq> set log' \<and> set log' \<subseteq> set log \<union> set nlog"
proof -
  define g where "g = (\<lambda>i. case map_of log i of Some e \<Rightarrow> e | None \<Rightarrow> the (map_of nlog i))"
  let ?log = "map (\<lambda>i. (i, g i)) (segment_ids r)"
  have ids: "sorted_wrt (<) (segment_ids r)"
    "\<And>i. i \<in> set (segment_ids r) \<longleftrightarrow> i < 2 ^ 64 \<and> dir_get r (segment_file_name i) \<noteq> None"
    using merged_ids [OF m fs] r by (simp_all add: clean_dir_def)
  have dist: "distinct (map fst log)" "distinct (map fst nlog)"
    using fs strict_sorted_iff by (auto simp: log_files_def)
  have ent: "(i, g i) \<in> set log \<and> dir_get d (segment_file_name i) \<noteq> None
      \<or> (i, g i) \<in> set nlog \<and> dir_get d (segment_file_name i) = None" if "i \<in> set (segment_ids r)" for i
  proof (cases "map_of log i")
    case None
    then have "dir_get d (segment_file_name i) = None"
      using log_id_get [OF fs(1)] ids(2) that by (auto simp: map_of_eq_None_iff)
    moreover then have "dir_get nd (segment_file_name i) \<noteq> None"
      using merged_file [OF m, of i] that ids(2) [of i] by auto
    then have "map_of nlog i \<noteq> None"
      using log_id_get [OF fs(2)] ids(2) that by (auto simp: map_of_eq_None_iff)
    ultimately show ?thesis using None by (auto simp: g_def dest: map_of_SomeD)
  next
    case (Some e)
    then have "(i, e) \<in> set log" by (rule map_of_SomeD)
    then show ?thesis using Some log_files_get [OF fs(1), of i "fst e" "snd e"] by (simp add: g_def)
  qed
  have "dir_get r (segment_file_name i) = Some (seg_bytes X (fst (g i)) (snd (g i)))"
    if "i \<in> set (segment_ids r)" for i
    using ent [OF that] merged_file [OF m, of i] ids(2) [of i] that log_files_get [OF fs(1), of i "fst (g i)" "snd (g i)"]
      log_files_get [OF fs(2), of i "fst (g i)" "snd (g i)"]
    by auto
  then have "log_files X r ?log" using ids(1) r by (auto simp: log_files_def comp_def)
  moreover have "set log \<subseteq> set ?log"
  proof
    fix e assume e: "e \<in> set log"
    obtain i sh rs where i: "e = (i, sh, rs)" by (cases e)
    have g: "g i = (sh, rs)" using e dist(1) by (simp add: g_def i)
    have "dir_get r (segment_file_name i) \<noteq> None"
      using log_files_get [OF fs(1) e [unfolded i]] merged_file [OF m, of i] by auto
    moreover have "i < 2 ^ 64" using e by (intro log_ids_small [OF fs(1)]) (force simp: i)
    ultimately show "e \<in> set ?log" using ids(2) [of i] by (auto simp: i g image_iff)
  qed
  moreover have "e \<in> set log \<union> set nlog" if "e \<in> set ?log" for e
  proof -
    obtain i where "e = (i, g i)" "i \<in> set (segment_ids r)" using \<open>e \<in> set ?log\<close> by auto
    then show ?thesis using ent [of i] by blast
  qed
  ultimately show ?thesis by blast
qed

section \<open>A crash during compaction\<close>

text \<open>What compaction prepares before it touches the live files.\<close>

definition compact_stage ::
    "ext \<Rightarrow> env \<Rightarrow> (chunk_id \<Rightarrow> env) \<Rightarrow> chunk_id set \<Rightarrow> seg_store \<Rightarrow> (dir \<times> seg_writer \<times> seg_index) result" where
  "compact_stage X E EC R s =
     (let stage = sw_open E [] 1 0 (w_max_segment_size (ss_writer s)) (ss_vault_key s)
      in compact_copy X EC (ss_vault_key s) (ss_files s) R (idx_entries (ss_index s))
           (fst stage) (snd stage) idx_new)"

lemma compact_stage_log:
  assumes st: "compact_stage X E EC R s = Inr (nd, nw, nidx)" and inv: "seg_log_inv X s log"
    and X: "ext_ok X" and E: "\<And>c. env_ok (EC c)" and bnd: "w_segment_id nw < 2 ^ 64"
  shows "\<exists>nlog. sw_log X nd nw nidx nlog \<and> w_vault_key nw = ss_vault_key s"
    and "idx_get nidx c \<noteq> None \<longleftrightarrow> ss_has_chunk s c \<and> c \<in> R"
proof -
  let ?vk = "ss_vault_key s" and ?es = "idx_entries (ss_index s)"
  obtain nd0 nw0 where o: "sw_open E [] 1 0 (w_max_segment_size (ss_writer s)) ?vk = (nd0, nw0)" by fastforce
  obtain sh where nlog0: "sw_log X nd0 nw0 idx_new [(1, sh, [])]" "w_vault_key nw0 = ?vk"
    using sw_open_new_log [OF clean_Nil dir_get_Nil o] by blast
  have cp: "compact_copy X EC ?vk (ss_files s) R ?es nd0 nw0 idx_new = Inr (nd, nw, nidx)"
    using st o by (simp add: compact_stage_def Let_def del: One_nat_def)
  have iinv: "idx_inv (ss_index s)" using inv by (simp add: seg_log_inv_def sw_log_def)
  note ent = idx.entries_get [OF iinv]
  have *: "(\<exists>nlog'. sw_log X nd nw nidx nlog') \<and> w_vault_key nw = ?vk \<and> w_segment_id nw0 \<le> w_segment_id nw
      \<and> copied X ?vk (ss_files s) R ?es nd0 idx_new nd nidx"
    by (rule compact_copy_log [OF cp nlog0 bnd X E])
      (use read_storable [OF inv] idx.entries_distinct [OF iinv] idx.get_empty in auto)
  then show "\<exists>nlog. sw_log X nd nw nidx nlog \<and> w_vault_key nw = ss_vault_key s" by blast
  have cpd: "copied X ?vk (ss_files s) R ?es nd0 idx_new nd nidx" using * by blast
  have has: "ss_has_chunk s c \<longleftrightarrow> c \<in> fst ` set ?es"
    by (auto simp: ss_has_chunk_def idx_contains_def in_fst_image ent split: option.splits)
  show "idx_get nidx c \<noteq> None \<longleftrightarrow> ss_has_chunk s c \<and> c \<in> R"
  proof (cases "c \<in> R \<inter> fst ` set ?es")
    case True
    then obtain l where l: "(c, l) \<in> set ?es" "c \<in> R" by auto
    have "idx_get nidx c \<noteq> None" using compact_get [OF cpd l, of nd] by auto
    with True has show ?thesis by blast
  next
    case False
    then have "idx_get nidx c = idx_get idx_new c" using cpd by (simp add: copied_def)
    then show ?thesis using False has idx.get_empty by auto
  qed
qed

lemma dir_inv_restore: "dir_inv d \<Longrightarrow> dir_inv (restore_old d n)"
  by (simp add: restore_old_def Let_def)

lemma dir_inv_foldl: "(\<And>d n. dir_inv d \<Longrightarrow> dir_inv (f d n)) \<Longrightarrow> dir_inv d \<Longrightarrow> dir_inv (foldl f d ns)"
  by (induction ns arbitrary: d) simp_all

lemma compact_cleanup_inv: "dir_inv (sd_files sd) \<Longrightarrow> dir_inv (sd_files (compact_cleanup sd))"
  by (simp add: compact_cleanup_def Let_def dir_inv_foldl dir_inv_restore)

lemma swapped_old:
  assumes "dir_get r = swapped d nd {} B {} None" "dir_inv r" "B \<inter> set (seg_names d) = {}"
  shows "clean_dir r" "merged r d nd"
proof -
  have "\<not> is_old_name n" if "n \<in> set (dir_names r)" for n
    using that assms(1) by (auto simp: in_dir_names swapped_def old_not_segment split: if_splits)
  then show "clean_dir r" using assms(1,2) by (simp add: clean_dir_def filter_empty_conv swapped_def)
  show "merged r d nd" using assms(1,3) by (auto simp: merged_def swapped_def in_seg_names)
qed

lemma ss_open_none:
  assumes "clean_dir (sd_files (compact_cleanup sd))"
    and none: "\<And>n. is_segment_name n \<Longrightarrow> dir_get (sd_files (compact_cleanup sd)) n = None"
  shows "\<exists>s sh. ss_open X E sd mx vk = Inr s \<and> ss_vault_key s = vk \<and> seg_log_inv X s [(1, sh, [])]"
proof -
  let ?d = "sd_files (compact_cleanup sd)"
  have ids: "segment_ids ?d = []"
    using assms segment_ids_cong [of ?d "[]"] by (simp add: clean_dir_def)
  obtain d w where dw: "sw_open E ?d 1 0 mx vk = (d, w)" by fastforce
  obtain sh where "sw_log X d w idx_new [(1, sh, [])]" "w_vault_key w = vk"
    using sw_open_new_log [OF assms(1) ids none [OF is_segment_file_name] dw, of X] by blast
  then have "seg_log_inv X \<lparr>ss_files = d, ss_index = idx_new, ss_writer = w, ss_vault_key = vk\<rparr> [(1, sh, [])]"
    by (simp add: seg_log_inv_def)
  then show ?thesis
    by (intro exI) (auto simp: ss_open_def recover_and_index_def ids dw [simplified] Let_def)
qed

text \<open>
  The recovered store holds either every chunk the store held or exactly the reachable ones.
\<close>

lemma rollback_open:
  assumes inv: "seg_log_inv X s log" and nlog: "sw_log X nd nw nidx nlog" "w_vault_key nw = ss_vault_key s"
    and has: "\<And>c. idx_get nidx c \<noteq> None \<Longrightarrow> ss_has_chunk s c"
    and r: "clean_dir (sd_files (compact_cleanup sd))" "merged (sd_files (compact_cleanup sd)) (ss_files s) nd"
  shows "\<exists>s' log'. ss_open X E sd mx (ss_vault_key s) = Inr s' \<and> ss_vault_key s' = ss_vault_key s
     \<and> seg_log_inv X s' log' \<and> (\<forall>c. ss_has_chunk s' c \<longleftrightarrow> ss_has_chunk s c)"
proof -
  let ?r = "sd_files (compact_cleanup sd)" and ?vk = "ss_vault_key s"
  have l: "sw_log X (ss_files s) (ss_writer s) (ss_index s) log" "w_vault_key (ss_writer s) = ?vk"
    using inv by (auto simp: seg_log_inv_def)
  have fs: "log_files X (ss_files s) log" "log_files X nd nlog" "log \<noteq> []"
    using l nlog by (auto simp: sw_log_def)
  obtain log' where log': "log_files X ?r log'" "set log \<subseteq> set log'" "set log' \<subseteq> set log \<union> set nlog"
    using merged_log [OF r(2) fs(1,2) r(1)] by blast
  have ne: "log' \<noteq> []" using log'(2) fs(3) by auto
  have sl: "list_all (sealed X ?vk) (log_recs log')"
    using l nlog log'(3) by (fastforce simp: sw_log_def log_recs_def list_all_iff)
  have "dir_get ?r (segment_file_name i) = None" if i: "fst (last log') < i" for i
  proof -
    have "fst (last log) \<le> fst (last log')"
      using log'(2) fs(3) by (intro log_files_top [OF log'(1)]) (auto intro: last_in_set)
    then have d: "dir_get (ss_files s) (segment_file_name i) = None"
      using l(1) i by (simp add: sw_log_def w_inv_def)
    have "dir_get nd (segment_file_name i) = dir_get ?r (segment_file_name i)
        \<or> dir_get ?r (segment_file_name i) = None" using merged_file [OF r(2), of i] d by auto
    moreover have "i \<notin> set (map fst log')" using log_files_top [OF log'(1)] i by fastforce
    moreover have "dir_get nd (segment_file_name i) = None" if "\<not> i < 2 ^ 64"
      using nlog(1) that log_ids_small [OF fs(2), of "fst (last nlog)"] by (simp add: sw_log_def w_inv_def)
    ultimately show ?thesis using log_id_get [OF log'(1), of i] by (cases "i < 2 ^ 64") auto
  qed
  then obtain s' where s': "ss_open X E sd mx ?vk = Inr s'" "ss_vault_key s' = ?vk" "seg_log_inv X s' log'"
    using ss_open_log [OF log'(1) ne sl] by blast
  have "fst ` set (log_locs log) \<subseteq> fst ` set (log_locs log')"
    using log'(2) by (force simp: log_locs_def)
  moreover have "fst ` set (log_locs log') \<subseteq> fst ` set (log_locs log) \<union> fst ` set (log_locs nlog)"
    using log'(3) by (force simp: log_locs_def)
  moreover have "c \<in> fst ` set (log_locs nlog) \<Longrightarrow> ss_has_chunk s c" for c
    using has [of c] nlog(1) by (simp add: sw_log_def map_of_eq_None_iff del: not_None_eq)
  ultimately have "ss_has_chunk s' c \<longleftrightarrow> ss_has_chunk s c" for c
    unfolding seg_log_has [OF inv] seg_log_has [OF s'(3)] by blast
  with s' show ?thesis by blast
qed

lemma commit_open:
  assumes nlog: "sw_log X nd nw nidx nlog" "w_vault_key nw = vk"
    and r: "clean_dir (sd_files (compact_cleanup sd))"
    and get: "\<And>n. is_segment_name n \<Longrightarrow> dir_get (sd_files (compact_cleanup sd)) n
       = (if 0 < idx_len nidx then dir_get nd n else None)"
  shows "\<exists>s' log'. ss_open X E sd mx vk = Inr s' \<and> ss_vault_key s' = vk
     \<and> seg_log_inv X s' log' \<and> (\<forall>c. ss_has_chunk s' c \<longleftrightarrow> idx_get nidx c \<noteq> None)"
proof (cases "0 < idx_len nidx")
  case True
  have fs: "log_files X (sd_files (compact_cleanup sd)) nlog"
    using nlog(1) get True by (intro log_files_cong [OF _ r]) (auto simp: sw_log_def)
  have sw: "nlog \<noteq> []" "list_all (sealed X vk) (log_recs nlog)" "w_inv nd nw" "w_segment_id nw = fst (last nlog)"
    "\<And>c. idx_get nidx c = map_of (rev (log_locs nlog)) c" using nlog by (auto simp: sw_log_def)
  obtain s' where s': "ss_open X E sd mx vk = Inr s'" "ss_vault_key s' = vk" "seg_log_inv X s' nlog"
    using ss_open_log [OF fs sw(1,2)] sw(3,4) get True by (auto simp: w_inv_def)
  have "ss_has_chunk s' c \<longleftrightarrow> idx_get nidx c \<noteq> None" for c
    using seg_log_has [OF s'(3), of c] sw(5) [of c] by (simp add: map_of_eq_None_iff)
  with s' show ?thesis by blast
next
  case False
  then have none: "is_segment_name n \<Longrightarrow> dir_get (sd_files (compact_cleanup sd)) n = None" for n
    using get by simp
  obtain s' sh where s': "ss_open X E sd mx vk = Inr s'" "ss_vault_key s' = vk" "seg_log_inv X s' [(1, sh, [])]"
    using ss_open_none [OF r none] by blast
  have "ss_has_chunk s' c \<longleftrightarrow> idx_get nidx c \<noteq> None" for c
    using seg_log_has [OF s'(3), of c] False by (simp add: idx_len_def idx_get_def)
  with s' show ?thesis by blast
qed

lemma compact_crash_open:
  assumes st: "compact_stage X E EC R s = Inr (nd, nw, nidx)" and inv: "seg_log_inv X s log"
    and X: "ext_ok X" and E: "\<And>c. env_ok (EC c)" and bnd: "w_segment_id nw < 2 ^ 64"
    and ops: "prefix ops (compact_plan tmp (ss_files s) nd (0 < idx_len nidx))"
    and sd: "sd = apply_ops \<lparr>sd_files = ss_files s, sd_dirs = AList.update tmp nd dirs\<rparr> ops"
  shows "\<exists>s' log'. ss_open X E' sd mx (ss_vault_key s) = Inr s' \<and> ss_vault_key s' = ss_vault_key s
     \<and> seg_log_inv X s' log'
     \<and> ((\<forall>c. ss_has_chunk s' c \<longleftrightarrow> ss_has_chunk s c) \<or> (\<forall>c. ss_has_chunk s' c \<longleftrightarrow> ss_has_chunk s c \<and> c \<in> R))"
proof -
  let ?d = "ss_files s" and ?r = "sd_files (compact_cleanup sd)"
  obtain nlog where nlog: "sw_log X nd nw nidx nlog" "w_vault_key nw = ss_vault_key s"
    using compact_stage_log(1) [OF st inv X E bnd] by blast
  note has = compact_stage_log(2) [OF st inv X E bnd]
  have d: "clean_dir ?d" and nd: "dir_inv nd"
    using inv nlog by (auto simp: seg_log_inv_def sw_log_def log_files_def clean_dir_def)
  have rinv: "dir_inv ?r" unfolding sd
    using d by (intro compact_cleanup_inv apply_ops_inv) (simp add: clean_dir_def)
  have tmp: "map_of (AList.update tmp nd dirs) tmp = Some nd" by (simp add: update_conv')
  from compact_crash [OF d nd tmp ops refl refl, folded sd] show ?thesis
  proof (elim disjE exE conjE)
    fix B assume B: "B \<subseteq> (if 0 < idx_len nidx then set (seg_names nd) else {}) - set (seg_names ?d)"
      and r: "dir_get ?r = swapped ?d nd {} B {} None"
    have "B \<inter> set (seg_names ?d) = {}" using B by blast
    from swapped_old [OF r rinv this] rollback_open [OF inv nlog] has
    show ?thesis by blast
  next
    assume r: "dir_get ?r = swapped ?d nd (set (seg_names ?d)) (if 0 < idx_len nidx then set (seg_names nd) else {})
        (set (seg_names ?d)) None"
    have get: "dir_get ?r n = (if 0 < idx_len nidx then dir_get nd n else None)" if "is_segment_name n" for n
      using swapped_new(2) [OF r rinv that] that by (auto simp: in_seg_names)
    show ?thesis using commit_open [OF nlog swapped_new(1) [OF r rinv] get] has by metis
  qed
qed

section \<open>Runs\<close>

text \<open>The newest file of a store, and the disk after a crash that left \<open>n\<close> bytes of it.\<close>

definition newest_file :: "seg_store \<Rightarrow> rstring" where
  "newest_file s = segment_file_name (w_segment_id (ss_writer s))"

definition cut_newest :: "seg_store \<Rightarrow> nat \<Rightarrow> (rstring \<times> dir) list \<Rightarrow> seg_disk" where
  "cut_newest s n dirs =
     \<lparr>sd_files = dir_put (ss_files s) (newest_file s) (take n (the (dir_get (ss_files s) (newest_file s)))),
      sd_dirs = dirs\<rparr>"

inductive seg_run :: "ext \<Rightarrow> seg_store \<Rightarrow> bool" for X where
  segrun_new: "ss_open X E \<lparr>sd_files = [], sd_dirs = dirs\<rparr> mx vk = Inr s \<Longrightarrow> seg_run X s"
| segrun_put: "seg_run X s \<Longrightarrow> env_ok E \<Longrightarrow> storable data \<Longrightarrow> ss_put_chunk X E s data = Inr (s', c, b)
    \<Longrightarrow> w_segment_id (ss_writer s') < 2 ^ 64 \<Longrightarrow> seg_run X s'"
| segrun_compact: "seg_run X s \<Longrightarrow> (\<And>c. env_ok (EC c)) \<Longrightarrow> compact_and_reclaim X E EC tmp R s dirs = Inr (s', dirs', n)
    \<Longrightarrow> w_segment_id (ss_writer s') < 2 ^ 64 \<Longrightarrow> seg_run X s'"
| segrun_crash: "seg_run X s \<Longrightarrow> 32 \<le> n \<Longrightarrow> ss_open X E (cut_newest s n dirs) mx (ss_vault_key s) = Inr s'
    \<Longrightarrow> seg_run X s'"
| segrun_compact_crash: "seg_run X s \<Longrightarrow> (\<And>c. env_ok (EC c)) \<Longrightarrow> compact_stage X E EC R s = Inr (nd, nw, nidx)
    \<Longrightarrow> w_segment_id nw < 2 ^ 64 \<Longrightarrow> prefix ops (compact_plan tmp (ss_files s) nd (0 < idx_len nidx))
    \<Longrightarrow> ss_open X E' (apply_ops \<lparr>sd_files = ss_files s, sd_dirs = AList.update tmp nd dirs\<rparr> ops) mx (ss_vault_key s) = Inr s'
    \<Longrightarrow> seg_run X s'"

lemma ss_open_key: "ss_open X E sd mx vk = Inr s \<Longrightarrow> ss_vault_key s = vk"
  by (auto simp: ss_open_def bindE_eq_Inr split_def)

lemma log_newest:
  assumes "seg_log_inv X s log"
  shows "\<exists>log0 sh rs. log = log0 @ [(w_segment_id (ss_writer s), sh, rs)]
     \<and> dir_get (ss_files s) (newest_file s) = Some (seg_bytes X sh rs)"
proof -
  have sw: "sw_log X (ss_files s) (ss_writer s) (ss_index s) log" using assms by (simp add: seg_log_inv_def)
  then have "log \<noteq> []" by (simp add: sw_log_def)
  from log_split [OF this] obtain log0 sid sh rs where l: "log = log0 @ [(sid, sh, rs)]" by blast
  have sid: "w_segment_id (ss_writer s) = sid" using sw by (simp add: sw_log_def l)
  have "dir_get (ss_files s) (segment_file_name sid) = Some (seg_bytes X sh rs)"
    using sw by (intro log_files_get [of X _ log]) (auto simp: sw_log_def l)
  then show ?thesis using l sid by (simp add: newest_file_def)
qed

text \<open>A cut of the newest file: the store opens on the complete records, and they read as before.\<close>

lemma cut_newest_open:
  assumes log: "seg_log_inv X s log" and n: "32 \<le> n"
  shows "\<exists>s' log'. ss_open X E (cut_newest s n dirs) mx (ss_vault_key s) = Inr s' \<and> seg_log_inv X s' log'
     \<and> ss_vault_key s' = ss_vault_key s
     \<and> (\<forall>c loc. idx_get (ss_index s) c = Some loc
          \<longrightarrow> (cl_segment_id loc = w_segment_id (ss_writer s) \<longrightarrow> cl_record_offset loc + 80 + unat (cl_payload_len loc) \<le> n)
          \<longrightarrow> ss_get_chunk X s' c = ss_get_chunk X s c)"
proof -
  obtain log0 sh rs where l: "log = log0 @ [(w_segment_id (ss_writer s), sh, rs)]"
    and f: "dir_get (ss_files s) (newest_file s) = Some (seg_bytes X sh rs)"
    using log_newest [OF log] by blast
  let ?sid = "w_segment_id (ss_writer s)"
  have sd: "sd_files (cut_newest s n dirs) = dir_put (ss_files s) (segment_file_name ?sid) (take n (seg_bytes X sh rs))"
    using f by (simp add: cut_newest_def newest_file_def)
  obtain s' where s': "ss_open X E (cut_newest s n dirs) mx (ss_vault_key s) = Inr s'"
    "seg_log_inv X s' (log0 @ [(?sid, sh, fit_recs (n - 32) rs)])"
    using ss_open_crash [OF log [unfolded l] n sd] by blast
  have vk: "ss_vault_key s' = ss_vault_key s"
    by (rule ss_open_key [OF s'(1)])
  have "ss_get_chunk X s' c = ss_get_chunk X s c" if "idx_get (ss_index s) c = Some loc"
    "cl_segment_id loc = ?sid \<longrightarrow> cl_record_offset loc + 80 + unat (cl_payload_len loc) \<le> n" for c loc
    by (rule cut_log_get [OF log [unfolded l] s'(2) vk that(1)]) (use that(2) n in simp)
  then show ?thesis using s' vk by blast
qed

lemma seg_run_log:
  assumes "seg_run X s" "ext_ok X"
  shows "\<exists>log. seg_log_inv X s log"
  using assms
proof (induction rule: seg_run.induct)
  case (segrun_new E dirs mx vk s)
  then show ?case using ss_open_new [of "\<lparr>sd_files = [], sd_dirs = dirs\<rparr>" X E mx vk] by auto
next
  case (segrun_put s E data s' c b)
  then show ?case using ss_put_chunk_log by blast
next
  case (segrun_compact s EC E tmp R dirs s' dirs' n)
  then show ?case using compact_and_reclaim_spec by blast
next
  case (segrun_crash s n E dirs mx s')
  then obtain log where "seg_log_inv X s log" by blast
  from cut_newest_open [OF this segrun_crash(2), of E dirs mx] segrun_crash(3) show ?case by auto
next
  case (segrun_compact_crash s EC E R nd nw nidx ops tmp E' dirs mx s')
  then obtain log where "seg_log_inv X s log" by blast
  from compact_crash_open [OF segrun_compact_crash(3) this \<open>ext_ok X\<close> segrun_compact_crash(2,4,5) refl, of E' dirs mx]
    segrun_compact_crash(6) show ?case by auto
qed

section \<open>Properties\<close>

text \<open>A store that was just created, for closed examples.\<close>

lemma demo_run:
  "\<exists>s. ss_open demo_ext demo_env \<lparr>sd_files = [], sd_dirs = []\<rparr> 0 None = Inr s \<and> seg_run demo_ext s
     \<and> (\<exists>sh. seg_log_inv demo_ext s [(1, sh, [])]) \<and> ss_vault_key s = None"
proof -
  obtain s sh where "ss_open demo_ext demo_env \<lparr>sd_files = [], sd_dirs = []\<rparr> 0 None = Inr s"
    "seg_log_inv demo_ext s [(1, sh, [])]" "ss_vault_key s = None"
    using ss_open_new [of "\<lparr>sd_files = [], sd_dirs = []\<rparr>" demo_ext demo_env 0 None] by auto
  moreover then have "seg_run demo_ext s" by (blast intro: segrun_new)
  ultimately show ?thesis by blast
qed

lemma seg_run_get:
  assumes "seg_run X s" "ext_ok X"
  shows "ss_has_chunk s c \<longleftrightarrow> (\<exists>d. ss_get_chunk X s c = Inr d \<and> cid_from_data X d = c)"
proof -
  obtain log where "seg_log_inv X s log" using seg_run_log [OF assms] by blast
  then have "seg_invar X s" using assms(2) seg_log_ss_inv by (simp add: seg_invar_def)
  then show ?thesis using seg.has_get seg.get_id by blast
qed

text \<open>
  C9. Crash recovery of the segment store: at any point of its life, whatever prefix of the newest file
  (beyond its header) a crash leaves, the store opens again; every chunk whose record lies in an older
  file or was completely written reads as before; and every chunk the reopened store knows reads as data
  with its hash.
\<close>

theorem segment_crash_recovery:
  assumes "ext_ok X" "seg_run X s" "32 \<le> n"
  shows "\<exists>s'. ss_open X E (cut_newest s n dirs) mx (ss_vault_key s) = Inr s'
    \<and> (\<forall>c loc. idx_get (ss_index s) c = Some loc
        \<longrightarrow> (cl_segment_id loc = w_segment_id (ss_writer s) \<longrightarrow> cl_record_offset loc + 80 + unat (cl_payload_len loc) \<le> n)
        \<longrightarrow> ss_get_chunk X s' c = ss_get_chunk X s c)
    \<and> (\<forall>c. ss_has_chunk s' c \<longleftrightarrow> (\<exists>d. ss_get_chunk X s' c = Inr d \<and> cid_from_data X d = c))"
proof -
  obtain log where log: "seg_log_inv X s log" using seg_run_log [OF assms(2,1)] by blast
  from cut_newest_open [OF log assms(3), of E dirs mx] obtain s'
    where s': "ss_open X E (cut_newest s n dirs) mx (ss_vault_key s) = Inr s'"
      "\<forall>c loc. idx_get (ss_index s) c = Some loc
        \<longrightarrow> (cl_segment_id loc = w_segment_id (ss_writer s) \<longrightarrow> cl_record_offset loc + 80 + unat (cl_payload_len loc) \<le> n)
        \<longrightarrow> ss_get_chunk X s' c = ss_get_chunk X s c" by blast
  have "seg_run X s'" by (rule segrun_crash [OF assms(2,3) s'(1)])
  from seg_run_get [OF this assms(1)] s' show ?thesis by blast
qed

theorem segment_crash_recovery_witness:
  "\<exists>s s'. ss_open demo_ext demo_env \<lparr>sd_files = [], sd_dirs = []\<rparr> 0 None = Inr s
     \<and> ss_open demo_ext demo_env (cut_newest s 40 []) 0 (ss_vault_key s) = Inr s'"
proof -
  obtain s where s: "ss_open demo_ext demo_env \<lparr>sd_files = [], sd_dirs = []\<rparr> 0 None = Inr s" "seg_run demo_ext s"
    using demo_run by blast
  have "32 \<le> (40 :: nat)" by simp
  from segment_crash_recovery [OF demo_ext_ok s(2) this, of demo_env "[]" 0] s show ?thesis by blast
qed



text \<open>
  A completed compaction keeps exactly the reachable chunks, each with its data, and reports how many
  entries it dropped.
\<close>

theorem compaction_keeps_reachable:
  assumes "ext_ok X" "seg_run X s" "\<forall>c. env_ok (EC c)"
    and "compact_and_reclaim X E EC tmp R s dirs = Inr (s', dirs', n)" "w_segment_id (ss_writer s') < 2 ^ 64"
  shows "(\<forall>c. ss_has_chunk s' c \<longleftrightarrow> ss_has_chunk s c \<and> c \<in> R)
    \<and> (\<forall>c \<in> R. ss_get_chunk X s' c = ss_get_chunk X s c)
    \<and> n = length (filter (\<lambda>(c, _). c \<notin> R) (ss_index s))"
proof -
  obtain log where log: "seg_log_inv X s log" using seg_run_log [OF assms(2,1)] by blast
  show ?thesis
    by (rule compact_and_reclaim_spec [OF assms(4) log assms(1) _ assms(5), THEN conjunct2]) (simp add: assms(3))
qed

theorem compaction_keeps_reachable_witness:
  "\<exists>s. ss_open demo_ext demo_env \<lparr>sd_files = [], sd_dirs = []\<rparr> 0 None = Inr s
     \<and> compact_and_reclaim demo_ext demo_env (\<lambda>_. demo_env) [46] UNIV s [] = Inr (s, [], 0)
     \<and> 0 = length (filter (\<lambda>(c, _). c \<notin> UNIV) (ss_index s))"
proof -
  obtain s sh where s: "ss_open demo_ext demo_env \<lparr>sd_files = [], sd_dirs = []\<rparr> 0 None = Inr s" "seg_run demo_ext s"
    and log: "seg_log_inv demo_ext s [(1, sh, [])]"
    using demo_run by blast
  have c: "compact_and_reclaim demo_ext demo_env (\<lambda>_. demo_env) [46] UNIV s [] = Inr (s, [], 0)"
    by (simp add: compact_and_reclaim_def)
  have "w_segment_id (ss_writer s) < 2 ^ 64" using log by (simp add: seg_log_inv_def sw_log_def)
  from compaction_keeps_reachable [OF demo_ext_ok s(2) _ c this] s(1) c show ?thesis by simp
qed

text \<open>
  C38. A gap in the crash protection: rotation creates the next segment file before it writes the header.
  If the process stops in between, the store no longer opens: the scan reports a corrupted header for
  the empty newest file, however long the store has lived and whatever it holds.
\<close>

theorem empty_newest_segment_fails:
  assumes "ext_ok X" "seg_run X s" "w_segment_id (ss_writer s) + 1 < 2 ^ 64"
  shows "ss_open X E \<lparr>sd_files = dir_put (ss_files s) (segment_file_name (w_segment_id (ss_writer s) + 1)) [],
            sd_dirs = dirs\<rparr> mx vk = Inl (CorruptedSegment 0 ''Corrupted header'')"
proof -
  let ?sid = "w_segment_id (ss_writer s) + 1" and ?d = "ss_files s"
  let ?sd = "\<lparr>sd_files = dir_put ?d (segment_file_name ?sid) [], sd_dirs = dirs\<rparr>"
  obtain log where log: "seg_log_inv X s log" using seg_run_log [OF assms(2,1)] by blast
  then have sw: "sw_log X ?d (ss_writer s) (ss_index s) log" by (simp add: seg_log_inv_def)
  then have fs: "log_files X ?d log" and none: "dir_get ?d (segment_file_name ?sid) = None"
    and ne: "log \<noteq> []" and last: "w_segment_id (ss_writer s) = fst (last log)"
    by (auto simp: sw_log_def w_inv_def)
  have lt: "\<forall>i \<in> set (segment_ids ?d). i < ?sid"
    using log_files_top [OF fs] fs last by (force simp: log_files_def)
  have ids: "segment_ids (sd_files ?sd) = map fst log @ [?sid]"
    using segment_ids_put_new [OF none assms(3) lt] fs by (simp add: log_files_def)
  have cl: "clean_dir (sd_files ?sd)" using fs by (simp add: log_files_def)
  have wf: "list_all (wf_rec X) (log_recs log)" using sw by (auto simp: sw_log_def intro: sealed_wf)
  have fsd: "\<forall>(i, h, r) \<in> set log. dir_get (sd_files ?sd) (segment_file_name i) = Some (seg_bytes X h r)"
    using log_files_get [OF fs] none by fastforce
  have "recover_segments X ?sid (map fst log @ [?sid]) (sd_files ?sd) idx_new 1 0
      = Inl (CorruptedSegment 0 ''Corrupted header'')"
    using recover_segments_log [OF fsd wf, of ?sid "[?sid]" idx_new 1 0] ne
    by (simp add: sh_read_def cread_def read_exact_def map_err_def SEGMENT_HEADER_SIZE_def)
  then show ?thesis
    using compact_cleanup_clean [OF cl] ids by (simp add: ss_open_def recover_and_index_def)
qed

theorem empty_newest_segment_fails_witness:
  "\<exists>s. ss_open demo_ext demo_env \<lparr>sd_files = [], sd_dirs = []\<rparr> 0 None = Inr s
     \<and> ss_open demo_ext demo_env \<lparr>sd_files = dir_put (ss_files s) (segment_file_name (w_segment_id (ss_writer s) + 1)) [],
            sd_dirs = []\<rparr> 0 None = Inl (CorruptedSegment 0 ''Corrupted header'')"
proof -
  obtain s sh where s: "ss_open demo_ext demo_env \<lparr>sd_files = [], sd_dirs = []\<rparr> 0 None = Inr s" "seg_run demo_ext s"
    and log: "seg_log_inv demo_ext s [(1, sh, [])]"
    using demo_run by blast
  have "w_segment_id (ss_writer s) + 1 < 2 ^ 64" using log by (simp add: seg_log_inv_def sw_log_def)
  from empty_newest_segment_fails [OF demo_ext_ok s(2) this] s(1) show ?thesis by blast
qed

end
