(* ===== verification/Oos_State.thy ===== *)
theory Oos_State
  imports Oos_Prelude
begin

text \<open>
  Operations that change state and may fail: a function from the state to the state it leaves and a
  result.  A failing operation leaves the changes it made before it failed, as the \<^verbatim>\<open>?\<close> operator does.
\<close>

type_synonym ('s, 'a) sm = "'s \<Rightarrow> 's \<times> 'a result"

definition returnS :: "'a \<Rightarrow> ('s, 'a) sm" where
  "returnS x = (\<lambda>s. (s, Inr x))"

text \<open>An expression that does not change the state.\<close>

definition liftE :: "'a result \<Rightarrow> ('s, 'a) sm" where
  "liftE m = (\<lambda>s. (s, m))"

definition bindS :: "('s, 'a) sm \<Rightarrow> ('a \<Rightarrow> ('s, 'b) sm) \<Rightarrow> ('s, 'b) sm" where
  "bindS m f = (\<lambda>s. case m s of (s', Inl e) \<Rightarrow> (s', Inl e) | (s', Inr x) \<Rightarrow> f x s')"

fun foldS :: "('b \<Rightarrow> 'a \<Rightarrow> ('s, 'b) sm) \<Rightarrow> 'b \<Rightarrow> 'a list \<Rightarrow> ('s, 'b) sm" where
  "foldS f b [] = returnS b"
| "foldS f b (x # xs) = bindS (f b x) (\<lambda>b'. foldS f b' xs)"

lemma returnS_apply [simp]: "returnS x s = (s, Inr x)"
  by (simp add: returnS_def)

lemma liftE_apply [simp]: "liftE m s = (s, m)"
  by (simp add: liftE_def)

lemma bindS_Inr: "bindS m f s = (s', Inr y) \<longleftrightarrow> (\<exists>s1 x. m s = (s1, Inr x) \<and> f x s1 = (s', Inr y))"
  by (auto simp: bindS_def split: prod.splits sum.splits)

lemma bindS_Inl:
  "bindS m f s = (s', Inl e) \<longleftrightarrow> m s = (s', Inl e) \<or> (\<exists>s1 x. m s = (s1, Inr x) \<and> f x s1 = (s', Inl e))"
  by (auto simp: bindS_def split: prod.splits sum.splits)

lemma bindS_step: "m s = (s1, Inr x) \<Longrightarrow> bindS m f s = f x s1"
  by (simp add: bindS_def)

lemma bindS_fail: "m s = (s1, Inl e) \<Longrightarrow> bindS m f s = (s1, Inl e)"
  by (simp add: bindS_def)

lemma bindS_returnS [simp]: "bindS (returnS x) f = f x"
  by (auto simp: bindS_def returnS_def)

lemma bindS_liftE: "bindS (liftE m) f s = (case m of Inl e \<Rightarrow> (s, Inl e) | Inr x \<Rightarrow> f x s)"
  by (simp add: bindS_def liftE_def split: sum.splits)

lemma bindS_assoc: "bindS (bindS m f) g = bindS m (\<lambda>x. bindS (f x) g)"
  by (auto simp: bindS_def fun_eq_iff split: prod.splits sum.splits)

text \<open>An invariant of the state that no step breaks, whether it succeeds or fails.\<close>

lemma bindS_keeps:
  assumes "bindS m f s = (s', r)" "I s" "\<And>s s' r. I s \<Longrightarrow> m s = (s', r) \<Longrightarrow> I s'"
    and "\<And>x s s' r. I s \<Longrightarrow> f x s = (s', r) \<Longrightarrow> I s'"
  shows "I s'"
proof -
  obtain s1 r1 where m: "m s = (s1, r1)" by fastforce
  have "I s1" by (rule assms(3) [OF assms(2) m])
  then show ?thesis using assms(1,4) m by (cases r1) (auto simp: bindS_def)
qed

lemma foldS_keeps:
  assumes "foldS f b xs s = (s', r)" "I s" "\<And>b x s s' r. x \<in> set xs \<Longrightarrow> I s \<Longrightarrow> f b x s = (s', r) \<Longrightarrow> I s'"
  shows "I s'"
  using assms
proof (induction xs arbitrary: b s)
  case (Cons x xs)
  obtain s1 r1 where f1: "f b x s = (s1, r1)" by fastforce
  have I1: "I s1" using Cons.prems(3) [OF _ Cons.prems(2) f1] by simp
  show ?case
  proof (cases r1)
    case (Inl e)
    then show ?thesis using Cons.prems(1) I1 by (simp add: bindS_fail [of _ s] f1)
  next
    case (Inr b')
    have "foldS f b' xs s1 = (s', r)" using Cons.prems(1) by (simp add: bindS_def f1 Inr)
    from Cons.IH [OF this I1] Cons.prems(3) show ?thesis by (meson list.set_intros(2))
  qed
qed simp

text \<open>The same as a predicate on operations, with one introduction rule per combinator.\<close>

named_theorems keeps_intros \<open>rules for operations that keep an invariant\<close>

definition keeps :: "('s \<Rightarrow> bool) \<Rightarrow> ('s, 'a) sm \<Rightarrow> bool" where
  "keeps I m \<longleftrightarrow> (\<forall>s s' r. I s \<longrightarrow> m s = (s', r) \<longrightarrow> I s')"

lemma keepsI: "(\<And>s s' r. I s \<Longrightarrow> m s = (s', r) \<Longrightarrow> I s') \<Longrightarrow> keeps I m"
  by (auto simp: keeps_def)

lemma keepsD: "keeps I m \<Longrightarrow> m s = (s', r) \<Longrightarrow> I s \<Longrightarrow> I s'"
  by (auto simp: keeps_def)

lemma keeps_returnS [keeps_intros]: "keeps I (returnS x)"
  by (simp add: keeps_def)

lemma keeps_liftE [keeps_intros]: "keeps I (liftE m)"
  by (simp add: keeps_def)

lemma keeps_bindS [keeps_intros]:
  assumes "keeps I m" "\<And>x. keeps I (f x)"
  shows "keeps I (bindS m f)"
proof (rule keepsI)
  fix s s' r assume s: "I s" "bindS m f s = (s', r)"
  show "I s'" by (rule bindS_keeps [OF s(2), where I = I]) (rule s(1), (rule keepsD [OF assms(1)], assumption+), rule keepsD [OF assms(2)])
qed

lemma keeps_foldS [keeps_intros]:
  assumes "\<And>b x. x \<in> set xs \<Longrightarrow> keeps I (f b x)"
  shows "keeps I (foldS f b xs)"
proof (rule keepsI)
  fix s s' r assume s: "I s" "foldS f b xs s = (s', r)"
  show "I s'" by (rule foldS_keeps [OF s(2), where I = I]) (rule s(1), rule keepsD [OF assms])
qed

lemma keeps_if [keeps_intros]: "keeps I m \<Longrightarrow> keeps I m' \<Longrightarrow> keeps I (if b then m else m')"
  by simp

lemma keeps_option [keeps_intros]:
  "(x = None \<Longrightarrow> keeps I m) \<Longrightarrow> (\<And>y. x = Some y \<Longrightarrow> keeps I (f y)) \<Longrightarrow> keeps I (case x of None \<Rightarrow> m | Some y \<Rightarrow> f y)"
  by (cases x) simp_all

lemma keeps_prod [keeps_intros]: "(\<And>a b. x = (a, b) \<Longrightarrow> keeps I (f a b)) \<Longrightarrow> keeps I (case x of (a, b) \<Rightarrow> f a b)"
  by (cases x) simp

end
