(* ===== verification/Oos_Gc.thy ===== *)
theory Oos_Gc
  imports Oos_Metadata Oos_Segment_Life Oos_State
begin

text \<open>
  \<^verbatim>\<open>core/src/gc/mod.rs\<close>: mark and sweep.  The mark phase collects the manifests and chunks referenced
  by any object version or snapshot; the sweep deletes the other manifests and compacts the segments to
  the marked chunks.  The sets are compared with what the tables say is reachable.
\<close>

record gc_stats =
  gs_live_roots :: nat
  gs_reachable_chunks :: nat
  gs_chunks_reclaimed :: nat
  gs_manifests_reclaimed :: nat
  gs_active_chunks_retained :: nat

type_synonym marks = "chunk_id set \<times> rstring set"

section \<open>Mark\<close>

definition mark_manifest ::
    "ext \<Rightarrow> 'db redb \<Rightarrow> 'db \<Rightarrow> string \<Rightarrow> marks \<Rightarrow> rstring \<Rightarrow> marks result" where
  "mark_manifest X R db msg s mid =
     (case s of (chunks, manifests) \<Rightarrow>
        bindE (get_manifest X R db mid) (\<lambda>m.
        bindE (ok_or m (Internal msg)) (\<lambda>m.
        Inr (chunks \<union> set (m_chunks m), insert mid manifests))))"

definition gc_mark :: "ext \<Rightarrow> 'db redb \<Rightarrow> 'db \<Rightarrow> (chunk_id set \<times> rstring set \<times> nat) result" where
  "gc_mark X R db =
     bindE (visit_objects R db (\<lambda>(s, roots) r.
              bindE (foldE (mark_manifest X R db ''Object references missing manifest'') s
                       (map v_manifest_id (o_versions r))) (\<lambda>s.
              Inr (s, Suc roots))) (({}, {}), 0)) (\<lambda>(s, roots).
     bindE (list_snapshots X R db) (\<lambda>snaps.
     bindE (foldE (\<lambda>(s, roots) snap.
              bindE (foldE (mark_manifest X R db ''Snapshot references missing manifest'') s
                       (map e_manifest_id (s_entries snap))) (\<lambda>s.
              Inr (s, Suc roots))) (s, roots) snaps) (\<lambda>((chunks, manifests), roots).
     Inr (chunks, manifests, roots))))"

section \<open>Sweep\<close>

text \<open>
  The store and the database the sweep works on; the staging directory of a compaction lives only while
  it runs.
\<close>

type_synonym 'db gc_state = "seg_store \<times> 'db"

definition sweep_manifests :: "'db redb \<Rightarrow> rstring set \<Rightarrow> nat \<Rightarrow> rstring \<Rightarrow> ('db gc_state, nat) sm" where
  "sweep_manifests R reachable n mid =
     (\<lambda>(s, db).
        if mid \<notin> reachable
        then (case delete_manifest R db mid of Inl e \<Rightarrow> ((s, db), Inl e) | Inr db' \<Rightarrow> ((s, db'), Inr (Suc n)))
        else ((s, db), Inr n))"

definition sweep_chunks ::
    "ext \<Rightarrow> env \<Rightarrow> (chunk_id \<Rightarrow> env) \<Rightarrow> rstring \<Rightarrow> chunk_id set \<Rightarrow> ('db gc_state, nat) sm" where
  "sweep_chunks X E EC tmp chunks =
     (\<lambda>(s, db).
        case compact_and_reclaim X E EC tmp chunks s [] of
          Inl e \<Rightarrow> ((s, db), Inl e)
        | Inr (s', _, reclaimed) \<Rightarrow> ((s', db), Inr reclaimed))"

definition gc_sweep ::
    "ext \<Rightarrow> 'db redb \<Rightarrow> env \<Rightarrow> (chunk_id \<Rightarrow> env) \<Rightarrow> rstring \<Rightarrow> chunk_id set \<Rightarrow> rstring set \<Rightarrow> nat
       \<Rightarrow> ('db gc_state, gc_stats) sm" where
  "gc_sweep X R E EC tmp chunks manifests live_roots =
     bindS (\<lambda>(s, db). ((s, db), list_all_manifest_ids R db)) (\<lambda>ids.
     bindS (foldS (sweep_manifests R manifests) 0 ids) (\<lambda>n.
     bindS (sweep_chunks X E EC tmp chunks) (\<lambda>reclaimed.
     \<lambda>(s, db). ((s, db), Inr
          \<lparr>gs_live_roots = live_roots, gs_reachable_chunks = card chunks, gs_chunks_reclaimed = reclaimed,
           gs_manifests_reclaimed = n, gs_active_chunks_retained = ss_chunk_count s\<rparr>))))"

definition gc_collect ::
    "ext \<Rightarrow> 'db redb \<Rightarrow> env \<Rightarrow> (chunk_id \<Rightarrow> env) \<Rightarrow> rstring \<Rightarrow> ('db gc_state, gc_stats) sm" where
  "gc_collect X R E EC tmp =
     bindS (\<lambda>(s, db). ((s, db), gc_mark X R db)) (\<lambda>(chunks, manifests, live_roots).
     gc_sweep X R E EC tmp chunks manifests live_roots)"

section \<open>Reachability\<close>

type_synonym tables = "db_table \<Rightarrow> bytes \<Rightarrow> bytes option"

text \<open>The manifests named by some version of some object, or by some snapshot.\<close>

definition live_manifests :: "ext \<Rightarrow> tables \<Rightarrow> rstring set" where
  "live_manifests X T =
     {mid. \<exists>k b r v. T OBJECT_INDEX k = Some b \<and> rec_from_bytes b = Inr r \<and> v \<in> set (o_versions r) \<and> mid = v_manifest_id v}
     \<union> {mid. \<exists>k b s e. T SNAPSHOTS k = Some b \<and> snapshot_from_bytes X b = Inr s \<and> e \<in> set (s_entries s) \<and> mid = e_manifest_id e}"

definition stored_manifest :: "ext \<Rightarrow> tables \<Rightarrow> rstring \<Rightarrow> manifest \<Rightarrow> bool" where
  "stored_manifest X T mid m \<longleftrightarrow> (\<exists>b. T MANIFESTS mid = Some b \<and> manifest_from_bytes X b = Inr m)"

definition chunks_of :: "ext \<Rightarrow> tables \<Rightarrow> rstring set \<Rightarrow> chunk_id set" where
  "chunks_of X T mids = {c. \<exists>mid \<in> mids. \<exists>m. stored_manifest X T mid m \<and> c \<in> set (m_chunks m)}"

lemma stored_manifest_fun: "stored_manifest X T mid m \<Longrightarrow> stored_manifest X T mid m' \<Longrightarrow> m' = m"
  by (auto simp: stored_manifest_def)

lemma get_manifest_stored:
  assumes "redb_ok R V" "get_manifest X R db mid = Inr (Some m)"
  shows "stored_manifest X (V db) mid m"
  using get_manifest_view [OF assms] by (auto simp: decode_value_def stored_manifest_def bindE_eq_Inr split: option.splits)

text \<open>The state of the marking: everything marked, and every marked manifest is stored.\<close>

definition marked :: "ext \<Rightarrow> tables \<Rightarrow> rstring set \<Rightarrow> marks \<Rightarrow> bool" where
  "marked X T mids s \<longleftrightarrow> snd s = mids \<and> fst s = chunks_of X T mids \<and> (\<forall>mid \<in> mids. \<exists>m. stored_manifest X T mid m)"

lemma chunks_of_insert:
  "stored_manifest X T mid m \<Longrightarrow> chunks_of X T (insert mid mids) = chunks_of X T mids \<union> set (m_chunks m)"
  by (auto simp: chunks_of_def dest: stored_manifest_fun)

lemma mark_manifest_marked:
  assumes "redb_ok R V" "mark_manifest X R db msg s mid = Inr s'" "marked X (V db) mids s"
  shows "marked X (V db) (insert mid mids) s'"
proof -
  obtain m where m: "get_manifest X R db mid = Inr (Some m)" "s' = (fst s \<union> set (m_chunks m), insert mid (snd s))"
    using assms(2) by (auto simp: mark_manifest_def bindE_eq_Inr split: prod.splits)
  have st: "stored_manifest X (V db) mid m" by (rule get_manifest_stored [OF assms(1) m(1)])
  show ?thesis using assms(3) st unfolding marked_def m(2) chunks_of_insert [OF st] by auto
qed

lemma mark_manifests_marked:
  assumes "redb_ok R V"
  shows "foldE (mark_manifest X R db msg) s ids = Inr s' \<Longrightarrow> marked X (V db) mids s \<Longrightarrow> marked X (V db) (mids \<union> set ids) s'"
proof (induction ids arbitrary: s mids)
  case (Cons i ids)
  then obtain t where "mark_manifest X R db msg s i = Inr t" "foldE (mark_manifest X R db msg) t ids = Inr s'"
    by (auto simp: bindE_eq_Inr)
  from Cons.IH [OF this(2) mark_manifest_marked [OF assms this(1) Cons.prems(2)]] show ?case by simp
qed simp

text \<open>The manifests a root refers to.\<close>

definition object_manifests :: "bytes \<Rightarrow> rstring set" where
  "object_manifests b = {v_manifest_id v | r v. rec_from_bytes b = Inr r \<and> v \<in> set (o_versions r)}"

lemma mark_objects_marked:
  assumes R: "redb_ok R V"
  shows "foldE (\<lambda>s (_, v). bindE (rec_from_bytes v) ((\<lambda>(s, roots) r.
              bindE (foldE (mark_manifest X R db msg) s (map v_manifest_id (o_versions r))) (\<lambda>s.
              Inr (s, Suc roots))) s)) (s, n) items = Inr (s', n')
    \<Longrightarrow> marked X (V db) mids s
    \<Longrightarrow> marked X (V db) (mids \<union> (\<Union>(k, b) \<in> set items. object_manifests b)) s' \<and> n' = n + length items"
proof (induction items arbitrary: s n mids)
  case (Cons kv items)
  obtain k b where kv: "kv = (k, b)" by fastforce
  obtain r t where r: "rec_from_bytes b = Inr r"
    "foldE (mark_manifest X R db msg) s (map v_manifest_id (o_versions r)) = Inr t"
    and rest: "foldE (\<lambda>s (_, v). bindE (rec_from_bytes v) ((\<lambda>(s, roots) r.
              bindE (foldE (mark_manifest X R db msg) s (map v_manifest_id (o_versions r))) (\<lambda>s.
              Inr (s, Suc roots))) s)) (t, Suc n) items = Inr (s', n')"
    using Cons.prems(1) by (auto simp: kv bindE_eq_Inr)
  have "object_manifests b = set (map v_manifest_id (o_versions r))"
    by (auto simp: object_manifests_def r(1))
  with Cons.IH [OF rest mark_manifests_marked [OF R r(2) Cons.prems(2)]] show ?case
    by (simp add: kv Un_assoc)
qed simp

lemma mark_snapshots_marked:
  assumes R: "redb_ok R V"
  shows "foldE (\<lambda>(s, roots) snap.
              bindE (foldE (mark_manifest X R db msg) s (map e_manifest_id (s_entries snap))) (\<lambda>s.
              Inr (s, Suc roots))) (s, n) snaps = Inr (s', n')
    \<Longrightarrow> marked X (V db) mids s
    \<Longrightarrow> marked X (V db) (mids \<union> (\<Union>snap \<in> set snaps. e_manifest_id ` set (s_entries snap))) s' \<and> n' = n + length snaps"
proof (induction snaps arbitrary: s n mids)
  case (Cons snap snaps)
  obtain t where r: "foldE (mark_manifest X R db msg) s (map e_manifest_id (s_entries snap)) = Inr t"
    and rest: "foldE (\<lambda>(s, roots) snap.
              bindE (foldE (mark_manifest X R db msg) s (map e_manifest_id (s_entries snap))) (\<lambda>s.
              Inr (s, Suc roots))) (t, Suc n) snaps = Inr (s', n')"
    using Cons.prems(1) by (auto simp: bindE_eq_Inr)
  from Cons.IH [OF rest mark_manifests_marked [OF R r Cons.prems(2)]] show ?case
    by (simp add: Un_assoc)
qed simp

lemma redb_iter_mem:
  assumes "redb_ok R V" "rd_iter R db t = Inr xs"
  shows "(k, v) \<in> set xs \<longleftrightarrow> V db t k = Some v"
proof -
  have "sorted_wrt (<) (map fst xs)" and m: "map_of xs = V db t" using redb_okD(2) [OF assms] by auto
  then have "distinct (map fst xs)" by (simp add: strict_sorted_iff)
  then show ?thesis by (simp flip: m)
qed

lemma list_snapshots_mem:
  assumes "redb_ok R V" "list_snapshots X R db = Inr ss"
  shows "snap \<in> set ss \<longleftrightarrow> (\<exists>k b. V db SNAPSHOTS k = Some b \<and> snapshot_from_bytes X b = Inr snap)"
proof -
  obtain items ss' where i: "rd_iter R db SNAPSHOTS = Inr items" "decode_all (snapshot_from_bytes X) items = Inr ss'"
    "set ss = set ss'"
    using assms(2) by (auto simp: list_snapshots_def bindE_eq_Inr)
  show ?thesis
    using snapshots.decode_all_set [OF i(2), of snap] redb_iter_mem [OF assms(1) i(1)] by (auto simp: i(3))
qed

lemma marked_empty: "marked X T {} ({}, {})"
  by (simp add: marked_def chunks_of_def)

text \<open>The mark phase returns exactly the live manifests and their chunks, and all of them are stored.\<close>

lemma gc_mark_spec:
  assumes R: "redb_ok R V" and m: "gc_mark X R db = Inr (chunks, manifests, roots)"
  shows "manifests = live_manifests X (V db)" "chunks = chunks_of X (V db) (live_manifests X (V db))"
    and "mid \<in> live_manifests X (V db) \<Longrightarrow> \<exists>m. stored_manifest X (V db) mid m"
proof -
  obtain items s1 n1 ss where i: "rd_iter R db OBJECT_INDEX = Inr items"
    and f: "foldE (\<lambda>s (_, v). bindE (rec_from_bytes v) ((\<lambda>(s, roots) r.
              bindE (foldE (mark_manifest X R db ''Object references missing manifest'') s (map v_manifest_id (o_versions r))) (\<lambda>s.
              Inr (s, Suc roots))) s)) (({}, {}), 0) items = Inr (s1, n1)"
    and ss: "list_snapshots X R db = Inr ss"
    and g: "foldE (\<lambda>(s, roots) snap.
              bindE (foldE (mark_manifest X R db ''Snapshot references missing manifest'') s (map e_manifest_id (s_entries snap))) (\<lambda>s.
              Inr (s, Suc roots))) (s1, n1) ss = Inr ((chunks, manifests), roots)"
    using m by (auto simp: gc_mark_def visit_objects_def bindE_eq_Inr)
  let ?M = "{} \<union> (\<Union>(k, b) \<in> set items. object_manifests b) \<union> (\<Union>snap \<in> set ss. e_manifest_id ` set (s_entries snap))"
  have "marked X (V db) ?M (chunks, manifests)"
    using mark_snapshots_marked [OF R g] mark_objects_marked [OF R f marked_empty] by blast
  moreover have "?M = live_manifests X (V db)"
  proof -
    have "(\<Union>(k, b) \<in> set items. object_manifests b) =
        {mid. \<exists>k b r v. V db OBJECT_INDEX k = Some b \<and> rec_from_bytes b = Inr r \<and> v \<in> set (o_versions r) \<and> mid = v_manifest_id v}"
      (is "?A = ?B")
    proof (rule set_eqI)
      fix mid
      have "mid \<in> ?A \<longleftrightarrow> (\<exists>k b. (k, b) \<in> set items \<and> mid \<in> object_manifests b)" by auto
      also have "\<dots> \<longleftrightarrow> mid \<in> ?B" unfolding redb_iter_mem [OF R i] object_manifests_def by blast
      finally show "mid \<in> ?A \<longleftrightarrow> mid \<in> ?B" .
    qed
    moreover have "(\<Union>snap \<in> set ss. e_manifest_id ` set (s_entries snap)) =
        {mid. \<exists>k b s e. V db SNAPSHOTS k = Some b \<and> snapshot_from_bytes X b = Inr s \<and> e \<in> set (s_entries s) \<and> mid = e_manifest_id e}"
      (is "?A = ?B")
    proof (rule set_eqI)
      fix mid
      have "mid \<in> ?A \<longleftrightarrow> (\<exists>s. s \<in> set ss \<and> mid \<in> e_manifest_id ` set (s_entries s))" by auto
      also have "\<dots> \<longleftrightarrow> mid \<in> ?B" unfolding list_snapshots_mem [OF R ss] by blast
      finally show "mid \<in> ?A \<longleftrightarrow> mid \<in> ?B" .
    qed
    ultimately show ?thesis unfolding live_manifests_def by simp
  qed
  ultimately have mk: "marked X (V db) (live_manifests X (V db)) (chunks, manifests)" by simp
  then show "manifests = live_manifests X (V db)" "chunks = chunks_of X (V db) (live_manifests X (V db))"
    "mid \<in> live_manifests X (V db) \<Longrightarrow> \<exists>m. stored_manifest X (V db) mid m"
    by (auto simp: marked_def)
qed

section \<open>What the sweep keeps\<close>

text \<open>Whether the loop over the identifiers completes or fails, only manifests outside the set are removed.\<close>

lemma sweep_manifests_view:
  assumes R: "redb_ok R V"
  shows "foldS (sweep_manifests R keep) n ids (s, db) = ((s', db'), r)
    \<Longrightarrow> s' = s \<and> (\<exists>gone \<subseteq> set ids - keep. V db' = (\<lambda>t k. if t = MANIFESTS \<and> k \<in> gone then None else V db t k)
      \<and> (\<forall>n'. r = Inr n' \<longrightarrow> gone = set ids - keep \<and> n' = n + length (filter (\<lambda>i. i \<notin> keep) ids)))"
proof (induction ids arbitrary: db n)
  case (Cons i ids)
  obtain s1 db1 r1 where st: "sweep_manifests R keep n i (s, db) = ((s1, db1), r1)" by (metis surj_pair)
  then have s1: "s1 = s"
    and cs: "(\<exists>e. r1 = Inl e \<and> db1 = db) \<or> r1 = Inr (if i \<in> keep then n else Suc n)
      \<and> V db1 = (if i \<in> keep then V db else set_entry (V db) MANIFESTS i None)"
    by (auto simp: sweep_manifests_def split: if_splits sum.splits dest: delete_manifest_view [OF R])
  from cs show ?case
  proof
    assume "\<exists>e. r1 = Inl e \<and> db1 = db"
    then show ?thesis using Cons.prems st s1 by (auto simp: bindS_def intro!: exI [of _ "{}"])
  next
    assume r1: "r1 = Inr (if i \<in> keep then n else Suc n)
      \<and> V db1 = (if i \<in> keep then V db else set_entry (V db) MANIFESTS i None)"
    let ?n = "if i \<in> keep then n else Suc n"
    have "foldS (sweep_manifests R keep) ?n ids (s, db1) = ((s', db'), r)"
      using Cons.prems st s1 r1 by (simp add: bindS_def)
    from Cons.IH [OF this] obtain gone where s': "s' = s" and g: "gone \<subseteq> set ids - keep"
      "V db' = (\<lambda>t k. if t = MANIFESTS \<and> k \<in> gone then None else V db1 t k)"
      "\<forall>n'. r = Inr n' \<longrightarrow> gone = set ids - keep \<and> n' = ?n + length (filter (\<lambda>i. i \<notin> keep) ids)"
      by blast
    let ?g = "gone \<union> ({i} - keep)"
    have "V db' = (\<lambda>t k. if t = MANIFESTS \<and> k \<in> ?g then None else V db t k)"
      using g(2) r1 by (auto simp: fun_eq_iff set_entry_apply)
    moreover have "?g \<subseteq> set (i # ids) - keep" using g(1) by auto
    moreover have "\<forall>n'. r = Inr n' \<longrightarrow> ?g = set (i # ids) - keep \<and> n' = n + length (filter (\<lambda>i. i \<notin> keep) (i # ids))"
      using g(3) by auto
    ultimately show ?thesis using s' by blast
  qed
qed auto

lemma list_all_manifest_ids_set:
  assumes "redb_ok R V" "list_all_manifest_ids R db = Inr ids"
  shows "set ids = from_utf8_lossy ` dom (V db MANIFESTS)"
proof -
  obtain items where i: "rd_iter R db MANIFESTS = Inr items" "ids = map (\<lambda>(k, _). from_utf8_lossy k) items"
    using assms(2) by (auto simp: list_all_manifest_ids_def bindE_eq_Inr)
  have "fst ` set items = dom (V db MANIFESTS)"
    using redb_iter_mem [OF assms(1) i(1)] by (force simp: dom_def image_iff)
  then have "from_utf8_lossy ` dom (V db MANIFESTS) = (\<lambda>x. from_utf8_lossy (fst x)) ` set items"
    by (simp add: image_image flip: \<open>fst ` set items = dom (V db MANIFESTS)\<close>)
  then show ?thesis by (simp add: i(2) case_prod_unfold)
qed

text \<open>
  A completed collection: every live manifest is kept and every other manifest with a well-formed
  identifier is gone, the other tables are unchanged; a chunk is in the store afterwards exactly if
  it was before and a live manifest lists it, and then it reads as before.
\<close>

lemma gc_collect_spec:
  assumes R: "redb_ok R V" and gc: "gc_collect X R E EC tmp (s, db) = ((s', db'), Inr st)"
    and inv: "seg_log_inv X s log" and X: "ext_ok X" and E: "\<And>c. env_ok (EC c)"
    and bnd: "w_segment_id (ss_writer s') < 2 ^ 64"
  shows "mid \<in> live_manifests X (V db) \<Longrightarrow> V db' MANIFESTS mid = V db MANIFESTS mid \<and> V db MANIFESTS mid \<noteq> None"
    and "mid \<notin> live_manifests X (V db) \<Longrightarrow> utf8_valid mid \<Longrightarrow> V db' MANIFESTS mid = None"
    and "t \<noteq> MANIFESTS \<Longrightarrow> V db' t = V db t"
    and "ss_has_chunk s' c \<longleftrightarrow> ss_has_chunk s c \<and> c \<in> chunks_of X (V db) (live_manifests X (V db))"
    and "c \<in> chunks_of X (V db) (live_manifests X (V db)) \<Longrightarrow> ss_get_chunk X s' c = ss_get_chunk X s c"
    and "\<exists>log'. seg_log_inv X s' log'"
proof -
  let ?L = "live_manifests X (V db)"
  obtain chunks manifests roots where m: "gc_mark X R db = Inr (chunks, manifests, roots)"
    and sw: "gc_sweep X R E EC tmp chunks manifests roots (s, db) = ((s', db'), Inr st)"
    using gc by (auto simp: gc_collect_def bindS_Inr)
  note mk = gc_mark_spec [OF R m]
  obtain ids n s1 k where ids: "list_all_manifest_ids R db = Inr ids"
    and f: "foldS (sweep_manifests R manifests) 0 ids (s, db) = ((s1, db'), Inr n)"
    and c1: "sweep_chunks X E EC tmp chunks (s1, db') = ((s', db'), Inr k)"
    using sw by (fastforce simp: gc_sweep_def bindS_Inr sweep_chunks_def split: sum.splits prod.splits)
  have s1: "s1 = s" and v: "V db' = (\<lambda>t k. if t = MANIFESTS \<and> k \<in> from_utf8_lossy ` dom (V db MANIFESTS) - ?L then None else V db t k)"
    using sweep_manifests_view [OF R f] by (auto simp: mk(1) list_all_manifest_ids_set [OF R ids])
  obtain dirs' where c: "compact_and_reclaim X E EC tmp chunks s [] = Inr (s', dirs', k)"
    using c1 by (auto simp: sweep_chunks_def s1 split: sum.splits prod.splits)
  show "mid \<in> ?L \<Longrightarrow> V db' MANIFESTS mid = V db MANIFESTS mid \<and> V db MANIFESTS mid \<noteq> None"
    using mk(3) [of mid] by (auto simp: v stored_manifest_def)
  show "V db' MANIFESTS mid = None" if "mid \<notin> ?L" "utf8_valid mid"
  proof (cases "V db MANIFESTS mid")
    case (Some b)
    then have "mid \<in> dom (V db MANIFESTS)" by auto
    then have "mid \<in> from_utf8_lossy ` dom (V db MANIFESTS)" using from_utf8_lossy_valid [OF that(2)] by (metis imageI)
    then show ?thesis using that(1) by (simp add: v)
  qed (simp add: v)
  show "t \<noteq> MANIFESTS \<Longrightarrow> V db' t = V db t" by (simp add: v)
  show "ss_has_chunk s' c \<longleftrightarrow> ss_has_chunk s c \<and> c \<in> chunks_of X (V db) ?L"
    "c \<in> chunks_of X (V db) ?L \<Longrightarrow> ss_get_chunk X s' c = ss_get_chunk X s c" "\<exists>log'. seg_log_inv X s' log'"
    using compact_and_reclaim_spec [OF c inv X E bnd] by (simp_all add: mk(2))
qed

text \<open>A collection that fails, in whichever phase, has removed no live manifest and no chunk.\<close>

lemma gc_collect_fails:
  assumes R: "redb_ok R V" and gc: "gc_collect X R E EC tmp (s, db) = ((s', db'), Inl err)"
  shows "s' = s" and "t \<noteq> MANIFESTS \<Longrightarrow> V db' t = V db t"
    and "mid \<in> live_manifests X (V db) \<Longrightarrow> V db' MANIFESTS mid = V db MANIFESTS mid"
proof -
  have *: "s' = s \<and> (\<exists>gone. gone \<inter> live_manifests X (V db) = {} \<and> V db' = (\<lambda>t k. if t = MANIFESTS \<and> k \<in> gone then None else V db t k))"
  proof (cases "gc_mark X R db")
    case (Inl e)
    then show ?thesis using gc by (auto simp: gc_collect_def bindS_def intro!: exI [of _ "{}"])
  next
    case (Inr m)
    obtain chunks manifests roots where m: "m = (chunks, manifests, roots)" by (cases m)
    have L: "manifests = live_manifests X (V db)" using gc_mark_spec(1) [OF R] Inr m by simp
    show ?thesis
    proof (cases "list_all_manifest_ids R db")
      case Inl
      then show ?thesis using gc Inr m by (auto simp: gc_collect_def gc_sweep_def bindS_def intro!: exI [of _ "{}"])
    next
      case ids: (Inr ids)
      obtain s1 db1 r1 where f: "foldS (sweep_manifests R manifests) 0 ids (s, db) = ((s1, db1), r1)" by (metis surj_pair)
      from sweep_manifests_view [OF R f] obtain gone where g: "s1 = s" "gone \<subseteq> set ids - manifests"
        "V db1 = (\<lambda>t k. if t = MANIFESTS \<and> k \<in> gone then None else V db t k)" by blast
      have "s' = s \<and> db' = db1"
        using gc by (auto simp: gc_collect_def gc_sweep_def bindS_def Inr m ids f g(1) sweep_chunks_def
            split: sum.splits prod.splits)
      then show ?thesis using g L by blast
    qed
  qed
  then show "s' = s" "t \<noteq> MANIFESTS \<Longrightarrow> V db' t = V db t"
    "mid \<in> live_manifests X (V db) \<Longrightarrow> V db' MANIFESTS mid = V db MANIFESTS mid" by auto
qed

section \<open>Properties\<close>

text \<open>
  C6. A completed collection keeps exactly what is live: the manifests named by an object version or a
  snapshot keep their bytes, every other manifest is gone, no other table changes, and the segment store
  holds exactly the chunks of the live manifests, each with its data.
\<close>

theorem gc_keeps_live:
  assumes "ext_ok X" "redb_ok R V" "seg_run X s" "\<forall>c. env_ok (EC c)"
    and "gc_collect X R E EC tmp (s, db) = ((s', db'), Inr st)" "w_segment_id (ss_writer s') < 2 ^ 64"
  shows "(\<forall>mid \<in> live_manifests X (V db). V db' MANIFESTS mid = V db MANIFESTS mid \<and> V db MANIFESTS mid \<noteq> None)
    \<and> (\<forall>mid. mid \<notin> live_manifests X (V db) \<longrightarrow> utf8_valid mid \<longrightarrow> V db' MANIFESTS mid = None)
    \<and> (\<forall>t. t \<noteq> MANIFESTS \<longrightarrow> V db' t = V db t)
    \<and> (\<forall>c. ss_has_chunk s' c \<longleftrightarrow> ss_has_chunk s c \<and> c \<in> chunks_of X (V db) (live_manifests X (V db)))
    \<and> (\<forall>c \<in> chunks_of X (V db) (live_manifests X (V db)). ss_get_chunk X s' c = ss_get_chunk X s c)"
proof -
  obtain log where log: "seg_log_inv X s log" using seg_run_log [OF assms(3,1)] by blast
  have E: "\<And>c. env_ok (EC c)" using assms(4) by blast
  note spec = gc_collect_spec [OF assms(2,5) log assms(1) E assms(6)]
  show ?thesis using spec(1-5) by blast
qed

lemma entries_empty: "RBT.entries (RBT.empty :: (bytes, bytes) rbt) = []"
  using RBT.map_of_entries [of "RBT.empty :: (bytes, bytes) rbt"] by (simp del: RBT.map_of_entries)

lemma demo_gc:
  assumes "idx_entries (ss_index s) = []"
  shows "\<exists>st. gc_collect demo_ext demo_redb demo_env EC tmp (s, demo_empty) = ((s, demo_empty), Inr st)"
proof -
  have "gc_mark demo_ext demo_redb demo_empty = Inr ({}, {}, 0)"
    by (simp add: gc_mark_def visit_objects_def list_snapshots_def demo_redb_def demo_empty_def entries_empty redbE_def)
  moreover have "list_all_manifest_ids demo_redb demo_empty = Inr []"
    by (simp add: list_all_manifest_ids_def demo_redb_def demo_empty_def entries_empty redbE_def)
  moreover have "compact_and_reclaim demo_ext demo_env EC tmp {} s [] = Inr (s, [], 0)"
    by (simp add: compact_and_reclaim_def assms)
  ultimately show ?thesis
    by (simp add: gc_collect_def gc_sweep_def sweep_chunks_def bindS_def returnS_def)
qed

lemma demo_run_entries: "seg_log_inv X s [(1, sh, [])] \<Longrightarrow> idx_entries (ss_index s) = []"
proof (cases "ss_index s")
  case (Cons e es)
  assume "seg_log_inv X s [(1, sh, [])]"
  then have "idx_get (ss_index s) (fst e) = None" by (simp add: seg_log_inv_def sw_log_def)
  then show ?thesis using Cons by (cases e) (simp add: idx_get_def)
qed (simp add: idx_entries_def)

theorem gc_keeps_live_witness:
  "\<exists>s st. ss_open demo_ext demo_env \<lparr>sd_files = [], sd_dirs = []\<rparr> 0 None = Inr s
     \<and> gc_collect demo_ext demo_redb demo_env (\<lambda>_. demo_env) [46] (s, demo_empty) = ((s, demo_empty), Inr st)
     \<and> (\<forall>c. ss_has_chunk s c \<longleftrightarrow> ss_has_chunk s c \<and> c \<in> chunks_of demo_ext (demo_view demo_empty) (live_manifests demo_ext (demo_view demo_empty)))"
proof -
  obtain s sh where s: "ss_open demo_ext demo_env \<lparr>sd_files = [], sd_dirs = []\<rparr> 0 None = Inr s" "seg_run demo_ext s"
    and log: "seg_log_inv demo_ext s [(1, sh, [])]"
    using demo_run by blast
  obtain st where g: "gc_collect demo_ext demo_redb demo_env (\<lambda>_. demo_env) [46] (s, demo_empty) = ((s, demo_empty), Inr st)"
    using demo_gc [OF demo_run_entries [OF log]] by blast
  have "w_segment_id (ss_writer s) < 2 ^ 64" using log by (simp add: seg_log_inv_def sw_log_def)
  from gc_keeps_live [OF demo_ext_ok demo_redb_ok s(2) _ g this] s(1) g show ?thesis by simp
qed



end
