(* ===== verification/Oos_Wal_Format.thy ===== *)
theory Oos_Wal_Format
  imports Oos_Manifest Oos_Crypto
begin

text \<open>
  \<^verbatim>\<open>core/src/wal/format.rs\<close>: the records of the write-ahead log.  A put record carries the name, the
  object id and version, the manifest and the new chunks with their data, optionally encrypted as a
  whole; every record starts with a 21-byte header that holds the length and the checksum of the
  payload.  \<^verbatim>\<open>usize\<close> is 64 bits wide.
\<close>

definition WAL_MAGIC :: bytes where "WAL_MAGIC = bytes_of ''OOSW''"
definition WAL_HEADER_SIZE :: nat where "WAL_HEADER_SIZE = 21"

definition checked_add :: "nat \<Rightarrow> nat \<Rightarrow> nat option" where
  "checked_add a b = (if a + b < 2 ^ 64 then Some (a + b) else None)"

section \<open>Sizes\<close>

definition wal_overflow :: oos_error where
  "wal_overflow = WalRecovery ''WAL payload size overflow''"

fun add_chunk_lens :: "nat \<Rightarrow> nat list \<Rightarrow> nat result" where
  "add_chunk_lens tot [] = Inr tot"
| "add_chunk_lens tot (n # ns) =
     (if n \<ge> 2 ^ 32 then Inl (WalRecovery ''WAL chunk is too large'')
      else bindE (ok_or (Option.bind (checked_add tot 36) (\<lambda>t. checked_add t n)) wal_overflow)
             (\<lambda>t. add_chunk_lens t ns))"

definition checked_put_payload_len :: "nat \<Rightarrow> nat \<Rightarrow> nat list \<Rightarrow> bool \<Rightarrow> nat result" where
  "checked_put_payload_len name_len manifest_len chunk_lengths encrypted =
     bindE (ok_or (Option.bind (checked_add 2 name_len) (\<lambda>n.
                   Option.bind (checked_add n 24) (\<lambda>n.
                   Option.bind (checked_add n manifest_len) (\<lambda>n. checked_add n 4)))) wal_overflow) (\<lambda>t0.
     bindE (add_chunk_lens t0 chunk_lengths) (\<lambda>t1.
     bindE (if encrypted then ok_or (checked_add t1 40) wal_overflow else Inr t1) (\<lambda>tot.
     if tot \<ge> 2 ^ 32 then Inl (WalRecovery ''WAL payload is too large'') else Inr tot)))"

section \<open>Records\<close>

datatype wal_record_type = RtPutObject | RtCheckpoint | RtEncryptedPutObject

fun record_type_u8 :: "wal_record_type \<Rightarrow> byte" where
  "record_type_u8 RtPutObject = 1"
| "record_type_u8 RtCheckpoint = 2"
| "record_type_u8 RtEncryptedPutObject = 3"

definition record_type_from_u8 :: "byte \<Rightarrow> wal_record_type result" where
  "record_type_from_u8 b =
     (if b = 1 then Inr RtPutObject else if b = 2 then Inr RtCheckpoint
      else if b = 3 then Inr RtEncryptedPutObject else Inl (WalRecovery ''Unknown WAL record type''))"

record wal_put =
  wp_name :: rstring
  wp_object_id :: object_id
  wp_version :: u32
  wp_manifest :: manifest
  wp_chunks :: "(chunk_id \<times> bytes) list"

datatype wal_payload = PutObject wal_put | Checkpoint u64

record wal_record =
  wr_lsn :: u64
  wr_payload :: wal_payload

section \<open>Encoding\<close>

definition wal_chunk_bytes :: "chunk_id \<times> bytes \<Rightarrow> bytes" where
  "wal_chunk_bytes c = cid_bytes (fst c) @ le32 (word_of_nat (length (snd c))) @ snd c"

definition put_payload :: "ext \<Rightarrow> wal_put \<Rightarrow> bytes" where
  "put_payload X p =
     (let mb = manifest_to_bytes X (wp_manifest p)
      in le16 (word_of_nat (length (wp_name p))) @ wp_name p
         @ oid_bytes (wp_object_id p) @ le32 (wp_version p)
         @ le32 (word_of_nat (length mb)) @ mb
         @ le32 (word_of_nat (length (wp_chunks p))) @ concat (map wal_chunk_bytes (wp_chunks p)))"

definition wal_aad :: "u64 \<Rightarrow> wal_record_type \<Rightarrow> bytes" where
  "wal_aad lsn t = le64 lsn @ [record_type_u8 t]"

definition wal_frame :: "ext \<Rightarrow> u64 \<Rightarrow> wal_record_type \<Rightarrow> bytes \<Rightarrow> bytes" where
  "wal_frame X lsn t payload =
     WAL_MAGIC @ le64 lsn @ [record_type_u8 t] @ le32 (word_of_nat (length payload))
     @ le32 (crc32 X payload) @ payload"

definition encode_put :: "ext \<Rightarrow> bytes \<Rightarrow> u64 \<Rightarrow> wal_put \<Rightarrow> vault_key option \<Rightarrow> bytes result" where
  "encode_put X nonce lsn put vk =
     (let name_len = length (wp_name put);
          mlen = length (manifest_to_bytes X (wp_manifest put));
          lens = map (length \<circ> snd) (wp_chunks put)
      in if name_len \<ge> 2 ^ 16 then Inl (WalRecovery ''WAL name is too long'')
         else if mlen \<ge> 2 ^ 32 then Inl (WalRecovery ''WAL manifest is too large'')
         else if length (wp_chunks put) \<ge> 2 ^ 32 then Inl (WalRecovery ''WAL chunk count exceeds u32 limit'')
         else
           bindE (checked_put_payload_len name_len mlen lens False) (\<lambda>_.
           bindE (checked_put_payload_len name_len mlen lens (vk \<noteq> None)) (\<lambda>_.
           let plain = put_payload X put;
               t = (if vk \<noteq> None then RtEncryptedPutObject else RtPutObject)
           in bindE (case vk of
                       None \<Rightarrow> Inr plain
                     | Some k \<Rightarrow> bindE (encrypt_chunk X k plain nonce (wal_aad lsn t)) (\<lambda>ct. Inr (nonce @ ct)))
                (\<lambda>final.
                  if length final \<ge> 2 ^ 32 then Inl (WalRecovery ''WAL payload is too large'')
                  else Inr (wal_frame X lsn t final)))))"

definition encode_with_vault :: "ext \<Rightarrow> bytes \<Rightarrow> wal_record \<Rightarrow> vault_key option \<Rightarrow> bytes result" where
  "encode_with_vault X nonce r vk =
     (case wr_payload r of
        PutObject put \<Rightarrow> encode_put X nonce (wr_lsn r) put vk
      | Checkpoint l \<Rightarrow> Inr (wal_frame X (wr_lsn r) RtCheckpoint (le64 l)))"

section \<open>Decoding\<close>

fun decode_chunks :: "nat \<Rightarrow> bytes \<Rightarrow> (chunk_id \<times> bytes) list result" where
  "decode_chunks 0 r = Inr []"
| "decode_chunks (Suc n) r =
     (if length r < 36 then Inl (WalRecovery ''Truncated WAL chunk entry'')
      else
        bindE (cread 32 r) (\<lambda>(cid, r).
        bindE (cread 4 r) (\<lambda>(lb, r).
        let data_len = unat (from_le32 lb)
        in if length r < data_len then Inl (WalRecovery ''WAL chunk data length exceeds remaining payload'')
           else bindE (cread data_len r) (\<lambda>(data, r).
                bindE (decode_chunks n r) (\<lambda>cs. Inr ((cid_from_raw cid, data) # cs))))))"

definition decode_put :: "ext \<Rightarrow> bytes \<Rightarrow> wal_put result" where
  "decode_put X r =
     (if length r < 2 then Inl (WalRecovery ''Truncated WAL name length'')
      else
        bindE (cread 2 r) (\<lambda>(nl, r).
        let name_len = unat (from_le16 nl)
        in if length r < name_len then Inl (WalRecovery ''WAL name length exceeds remaining payload'')
           else
             bindE (cread name_len r) (\<lambda>(nb, r).
             bindE (ok_or (from_utf8 nb) (WalRecovery ''Invalid UTF-8 in WAL name'')) (\<lambda>name.
             if length r < 24 then Inl (WalRecovery ''Truncated WAL object header'')
             else
               bindE (cread 16 r) (\<lambda>(ob, r).
               bindE (cread 4 r) (\<lambda>(vb, r).
               bindE (cread 4 r) (\<lambda>(ml, r).
               let manifest_len = unat (from_le32 ml)
               in if length r < manifest_len
                  then Inl (WalRecovery ''WAL manifest length exceeds remaining payload'')
                  else
                    bindE (cread manifest_len r) (\<lambda>(mb, r).
                    bindE (manifest_from_bytes X mb) (\<lambda>m.
                    if length r < 4 then Inl (WalRecovery ''Truncated WAL chunk count'')
                    else
                      bindE (cread 4 r) (\<lambda>(cb, r).
                      let chunk_count = unat (from_le32 cb)
                      in if chunk_count > length r div 36
                         then Inl (WalRecovery ''WAL chunk count exceeds payload capacity'')
                         else bindE (decode_chunks chunk_count r) (\<lambda>cs.
                              Inr \<lparr>wp_name = name, wp_object_id = oid_from_raw ob,
                                   wp_version = from_le32 vb, wp_manifest = m, wp_chunks = cs\<rparr>)))))))))))"

text \<open>The payload in the clear; an encrypted one starts with its nonce.\<close>

definition decode_plain :: "ext \<Rightarrow> vault_key option \<Rightarrow> u64 \<Rightarrow> wal_record_type \<Rightarrow> bytes \<Rightarrow> bytes result" where
  "decode_plain X vk lsn t payload =
     (case t of
        RtEncryptedPutObject \<Rightarrow>
          bindE (ok_or vk PasswordRequired) (\<lambda>k.
          if length payload < 40 then Inl (WalRecovery ''Encrypted WAL payload too short'')
          else decrypt_chunk X k (drop 24 payload) (rslice 0 24 payload) (wal_aad lsn t))
      | _ \<Rightarrow> Inr payload)"

definition decode_payload :: "ext \<Rightarrow> wal_record_type \<Rightarrow> bytes \<Rightarrow> wal_payload result" where
  "decode_payload X t plain =
     (case t of
        RtCheckpoint \<Rightarrow>
          if length plain < 8 then Inl (WalRecovery ''Truncated WAL checkpoint LSN'')
          else bindE (cread 8 plain) (\<lambda>(lb, _). Inr (Checkpoint (from_le64 lb)))
      | _ \<Rightarrow> bindE (decode_put X plain) (\<lambda>p. Inr (PutObject p)))"

definition decode_with_vault :: "ext \<Rightarrow> bytes \<Rightarrow> vault_key option \<Rightarrow> (wal_record \<times> nat) result" where
  "decode_with_vault X buf vk =
     (if length buf < WAL_HEADER_SIZE then Inl (WalRecovery ''Buffer too short for WAL header'')
      else if rslice 0 4 buf \<noteq> WAL_MAGIC then Inl (WalRecovery ''Invalid WAL magic bytes'')
      else
        let lsn = from_le64 (rslice 4 12 buf)
        in bindE (record_type_from_u8 (buf ! 12)) (\<lambda>t.
           let payload_len = unat (from_le32 (rslice 13 17 buf));
               expected_crc = from_le32 (rslice 17 21 buf);
               total_size = WAL_HEADER_SIZE + payload_len
           in if length buf < total_size then Inl (WalRecovery ''Incomplete WAL payload'')
              else
                let payload = rslice WAL_HEADER_SIZE total_size buf;
                    actual_crc = crc32 X payload
                in if actual_crc \<noteq> expected_crc
                   then Inl (ChecksumMismatch (bytes_of ''WAL LSN'') expected_crc actual_crc)
                   else
                     bindE (decode_plain X vk lsn t payload) (\<lambda>plain.
                     bindE (decode_payload X t plain) (\<lambda>p.
                     Inr (\<lparr>wr_lsn = lsn, wr_payload = p\<rparr>, total_size)))))"

section \<open>Round trip\<close>

lemma length_WAL_MAGIC [simp, len_simps]: "length WAL_MAGIC = 4"
  by (simp add: WAL_MAGIC_def)

lemma record_type_roundtrip [simp]: "record_type_from_u8 (record_type_u8 t) = Inr t"
  by (cases t) (simp_all add: record_type_from_u8_def)

lemma length_wal_frame [simp]: "length (wal_frame X lsn t p) = 21 + length p"
  by (simp add: wal_frame_def)

lemma frame_fields:
  assumes "length p < 2 ^ 32"
  shows "rslice 0 4 (wal_frame X lsn t p @ r) = WAL_MAGIC" "rslice 4 12 (wal_frame X lsn t p @ r) = le64 lsn"
    "(wal_frame X lsn t p @ r) ! 12 = record_type_u8 t"
    "rslice 13 17 (wal_frame X lsn t p @ r) = le32 (word_of_nat (length p))"
    "rslice 17 21 (wal_frame X lsn t p @ r) = le32 (crc32 X p)"
    "rslice 21 (21 + length p) (wal_frame X lsn t p @ r) = p"
  by (simp_all add: wal_frame_def slice_simps nth_append)

lemma decode_frame:
  assumes "length p < 2 ^ 32"
  shows "decode_with_vault X (wal_frame X lsn t p @ r) vk =
    bindE (decode_plain X vk lsn t p) (\<lambda>plain. bindE (decode_payload X t plain)
      (\<lambda>pl. Inr (\<lparr>wr_lsn = lsn, wr_payload = pl\<rparr>, length (wal_frame X lsn t p))))"
  using assms
  by (simp add: decode_with_vault_def WAL_HEADER_SIZE_def frame_fields [OF assms] Let_def)

text \<open>A record cut short is reported as such, whatever it holds.\<close>

lemma decode_frame_torn:
  assumes "length p < 2 ^ 32" "n < length (wal_frame X lsn t p)"
  shows "\<exists>msg. decode_with_vault X (take n (wal_frame X lsn t p)) vk = Inl (WalRecovery msg)"
proof (cases "n < 21")
  case True
  then show ?thesis by (simp add: decode_with_vault_def WAL_HEADER_SIZE_def)
next
  case False
  let ?f = "wal_frame X lsn t p"
  have f: "rslice a b (take n ?f) = rslice a b ?f" if "b \<le> 21" for a b
    using False that by (intro slice_take) simp
  have "take n ?f ! 12 = ?f ! 12" using False by simp
  then show ?thesis
    using frame_fields [OF assms(1), of X lsn t "[]"] False assms
    by (simp add: decode_with_vault_def WAL_HEADER_SIZE_def f Let_def)
qed

definition wf_put :: "wal_put \<Rightarrow> bool" where
  "wf_put p \<longleftrightarrow> utf8_valid (wp_name p) \<and> wf_oid (wp_object_id p) \<and> wf_manifest (wp_manifest p)
     \<and> (\<forall>c \<in> set (wp_chunks p). wf_cid (fst c))"

lemma length_wal_chunk_bytes: "wf_cid (fst c) \<Longrightarrow> length (wal_chunk_bytes c) = 36 + length (snd c)"
  by (simp add: wal_chunk_bytes_def wf_cid_def)

lemma length_wal_chunks:
  "\<forall>c \<in> set cs. wf_cid (fst c) \<Longrightarrow>
   length (concat (map wal_chunk_bytes cs)) = sum_list (map (\<lambda>c. 36 + length (snd c)) cs)"
  by (induction cs) (simp_all add: length_wal_chunk_bytes)

lemma decode_chunks_bytes:
  "\<forall>c \<in> set cs. wf_cid (fst c) \<and> length (snd c) < 2 ^ 32 \<Longrightarrow>
   decode_chunks (length cs) (concat (map wal_chunk_bytes cs)) = Inr cs"
proof (induction cs)
  case (Cons c cs)
  obtain cid d where c: "c = (cid, d)" by (cases c)
  have "length (cid_bytes cid) = 32" "length d < 4294967296" using Cons.prems by (auto simp: c wf_cid_def)
  then show ?case using Cons by (simp add: c wal_chunk_bytes_def cid_from_raw_def)
qed simp

lemma sum_list_ge: "k * length cs \<le> sum_list (map (\<lambda>c. k + f c) cs)" for k :: nat
  by (induction cs) simp_all

lemma decode_put_payload:
  assumes wf: "wf_put put" and "length (wp_name put) < 2 ^ 16"
    and "length (manifest_to_bytes X (wp_manifest put)) < 2 ^ 32" "length (wp_chunks put) < 2 ^ 32"
    and "\<forall>c \<in> set (wp_chunks put). length (snd c) < 2 ^ 32"
  shows "decode_put X (put_payload X put) = Inr put"
proof -
  let ?cb = "concat (map wal_chunk_bytes (wp_chunks put))"
  have m: "manifest_from_bytes X (manifest_to_bytes X (wp_manifest put)) = Inr (wp_manifest put)"
    using wf by (intro manifest_from_to_bytes) (simp add: wf_put_def)
  have cs: "decode_chunks (length (wp_chunks put)) ?cb = Inr (wp_chunks put)"
    using wf assms(5) by (intro decode_chunks_bytes) (simp add: wf_put_def)
  have cap: "\<not> length ?cb div 36 < length (wp_chunks put)"
    using sum_list_ge [of 36 "wp_chunks put" "length \<circ> snd"] wf length_wal_chunks [of "wp_chunks put"]
    by (simp add: wf_put_def)
  have "length (oid_bytes (wp_object_id put)) = 16" "utf8_valid (wp_name put)"
    using wf by (auto simp: wf_put_def wf_oid_def)
  with assms(2-4) m cs cap show ?thesis
    by (simp add: decode_put_def put_payload_def Let_def from_utf8_def oid_from_raw_def)
qed

lemma add_chunk_lens_Inr:
  "add_chunk_lens t ns = Inr u \<Longrightarrow> u = t + sum_list (map (\<lambda>n. 36 + n) ns) \<and> (\<forall>n \<in> set ns. n < 2 ^ 32)"
proof (induction ns arbitrary: t)
  case (Cons n ns)
  then have "n < 2 ^ 32" "add_chunk_lens (t + 36 + n) ns = Inr u"
    by (auto simp: bindE_eq_Inr checked_add_def split: if_splits Option.bind_splits)
  with Cons.IH show ?case by fastforce
qed simp

text \<open>The checked size is the exact size of the payload.\<close>

lemma checked_put_payload_len_Inr:
  assumes "checked_put_payload_len a b ns enc = Inr u"
  shows "u = 30 + a + b + sum_list (map (\<lambda>n. 36 + n) ns) + (if enc then 40 else 0)"
    and "u < 2 ^ 32" "\<forall>n \<in> set ns. n < 2 ^ 32"
  using assms
  by (auto simp: checked_put_payload_len_def bindE_eq_Inr checked_add_def dest!: add_chunk_lens_Inr
      split: if_splits Option.bind_splits)

lemma length_put_payload:
  assumes "wf_put put"
    and "checked_put_payload_len (length (wp_name put)) (length (manifest_to_bytes X (wp_manifest put)))
           (map (length \<circ> snd) (wp_chunks put)) False = Inr u"
  shows "length (put_payload X put) = u"
  using checked_put_payload_len_Inr(1) [OF assms(2)] assms(1) length_wal_chunks [of "wp_chunks put"]
  by (simp add: put_payload_def Let_def wf_put_def wf_oid_def o_def)

lemma encode_put_Inr:
  assumes "encode_put X nonce lsn put vk = Inr b" and "wf_put put"
  obtains t final where "b = wal_frame X lsn t final" "length final < 2 ^ 32"
    "decode_put X (put_payload X put) = Inr put"
    "case vk of None \<Rightarrow> t = RtPutObject \<and> final = put_payload X put
       | Some k \<Rightarrow> t = RtEncryptedPutObject \<and> (\<exists>ct. encrypt_chunk X k (put_payload X put) nonce (wal_aad lsn t) = Inr ct
           \<and> final = nonce @ ct)"
proof -
  have lim: "length (wp_name put) < 2 ^ 16" "length (manifest_to_bytes X (wp_manifest put)) < 2 ^ 32"
    "length (wp_chunks put) < 2 ^ 32"
    using assms(1) by (auto simp: encode_put_def Let_def split: if_splits)
  then obtain u where "checked_put_payload_len (length (wp_name put))
      (length (manifest_to_bytes X (wp_manifest put))) (map (length \<circ> snd) (wp_chunks put)) False = Inr u"
    using assms(1) by (auto simp: encode_put_def Let_def bindE_eq_Inr split: if_splits)
  from checked_put_payload_len_Inr(3) [OF this]
  have "\<forall>c \<in> set (wp_chunks put). length (snd c) < 2 ^ 32" by auto
  note dec = decode_put_payload [OF assms(2) lim this]
  show thesis
    using assms(1) that [OF _ _ dec]
    by (cases vk) (fastforce simp: encode_put_def Let_def bindE_eq_Inr split: if_splits)+
qed

lemma decode_encode_put:
  assumes X: "ext_ok X" and n: "length nonce = 24" and wf: "wf_put put"
    and enc: "encode_put X nonce lsn put vk = Inr b"
  shows "decode_with_vault X (b @ r) vk = Inr (\<lparr>wr_lsn = lsn, wr_payload = PutObject put\<rparr>, length b)"
    and "k < length b \<Longrightarrow> \<exists>msg. decode_with_vault X (take k b) vk = Inl (WalRecovery msg)"
    and "21 \<le> length b" "take 4 b = WAL_MAGIC"
proof -
  obtain t final where b: "b = wal_frame X lsn t final" "length final < 2 ^ 32"
    and dec: "decode_put X (put_payload X put) = Inr put"
    and t: "case vk of None \<Rightarrow> t = RtPutObject \<and> final = put_payload X put
       | Some k \<Rightarrow> t = RtEncryptedPutObject \<and> (\<exists>ct. encrypt_chunk X k (put_payload X put) nonce (wal_aad lsn t) = Inr ct
           \<and> final = nonce @ ct)"
    using encode_put_Inr [OF enc wf] .
  have "decode_plain X vk lsn t final = Inr (put_payload X put) \<and> t \<noteq> RtCheckpoint"
  proof (cases vk)
    case (Some k)
    with t obtain ct where ct: "encrypt_chunk X k (put_payload X put) nonce (wal_aad lsn t) = Inr ct"
      and f: "t = RtEncryptedPutObject" "final = nonce @ ct" by auto
    from decrypt_encrypt_chunk [OF X ct] n Some show ?thesis
      by (simp add: decode_plain_def f slice_simps)
  qed (use t in \<open>simp add: decode_plain_def\<close>)
  then show "decode_with_vault X (b @ r) vk = Inr (\<lparr>wr_lsn = lsn, wr_payload = PutObject put\<rparr>, length b)"
    unfolding b(1) decode_frame [OF b(2)] by (cases t) (simp_all add: decode_payload_def dec)
  show "k < length b \<Longrightarrow> \<exists>msg. decode_with_vault X (take k b) vk = Inl (WalRecovery msg)"
    unfolding b(1) by (rule decode_frame_torn [OF b(2)])
  show "21 \<le> length b" "take 4 b = WAL_MAGIC"
    unfolding b(1) by (simp_all add: wal_frame_def)
qed

lemma decode_encode_checkpoint:
  "encode_with_vault X nonce \<lparr>wr_lsn = lsn, wr_payload = Checkpoint l\<rparr> vk = Inr b \<Longrightarrow>
   decode_with_vault X (b @ r) vk = Inr (\<lparr>wr_lsn = lsn, wr_payload = Checkpoint l\<rparr>, length b)"
  using decode_frame [of "le64 l" X lsn RtCheckpoint r vk]
  by (auto simp: encode_with_vault_def decode_plain_def decode_payload_def cread_def read_exact_def)

text \<open>What decoding consumes, for any buffer.\<close>

lemma decode_consumed:
  "decode_with_vault X buf vk = Inr (r, n) \<Longrightarrow> 21 \<le> n \<and> n \<le> length buf"
  by (auto simp: decode_with_vault_def WAL_HEADER_SIZE_def Let_def bindE_eq_Inr split: if_splits)

section \<open>Properties\<close>

text \<open>A small put, for closed examples.\<close>

definition demo_put :: wal_put where
  "demo_put = \<lparr>wp_name = [97], wp_object_id = ObjectId (replicate 16 1), wp_version = 1,
     wp_manifest = \<lparr>m_total_size = 3, m_content_hash = replicate 32 2, m_created_at = 0,
       m_chunks = [ChunkId (replicate 32 3)]\<rparr>,
     wp_chunks = [(ChunkId (replicate 32 3), [1, 2, 3])]\<rparr>"

lemma demo_put_wf: "wf_put demo_put"
  using utf8_valid_ascii [of "[97]"]
  by (simp add: wf_put_def demo_put_def wf_oid_def wf_manifest_def wf_cid_def ascii_def)

lemma demo_put_encodes: "\<exists>b. encode_put X nonce lsn demo_put None = Inr b \<and> 0 < length b"
proof -
  have wf: "wf_manifest (wp_manifest demo_put)" using demo_put_wf by (simp add: wf_put_def)
  have m: "length (manifest_to_bytes X (wp_manifest demo_put)) = 96"
    unfolding length_manifest_to_bytes [OF wf] by (simp add: demo_put_def)
  then have "length (put_payload X demo_put) < 2 ^ 32"
    by (simp add: put_payload_def wal_chunk_bytes_def) (simp add: demo_put_def wal_chunk_bytes_def)
  then show ?thesis
    using m by (simp add: encode_put_def Let_def checked_put_payload_len_def checked_add_def wal_frame_def)
      (simp add: demo_put_def checked_add_def)
qed

text \<open>
  The redo-log record of a put survives encoding and decoding, with or without encryption and
  whatever follows it in the file, and a proper prefix of it is always reported as a truncated record.
\<close>

theorem wal_put_roundtrip:
  assumes "ext_ok X" "length nonce = 24" "wf_put put" "encode_put X nonce lsn put vk = Inr b"
  shows "decode_with_vault X (b @ r) vk = Inr (\<lparr>wr_lsn = lsn, wr_payload = PutObject put\<rparr>, length b)
    \<and> (k < length b \<longrightarrow> (\<exists>msg. decode_with_vault X (take k b) vk = Inl (WalRecovery msg)))"
  using decode_encode_put [OF assms] by blast

theorem wal_put_roundtrip_witness:
  "\<exists>b. encode_put demo_ext (replicate 24 0) 7 demo_put None = Inr b
     \<and> decode_with_vault demo_ext (b @ [255]) None = Inr (\<lparr>wr_lsn = 7, wr_payload = PutObject demo_put\<rparr>, length b)
     \<and> (\<exists>msg. decode_with_vault demo_ext (take 0 b) None = Inl (WalRecovery msg))"
proof -
  obtain b where b: "encode_put demo_ext (replicate 24 0) 7 demo_put None = Inr b" "0 < length b"
    using demo_put_encodes by blast
  show ?thesis
    using wal_put_roundtrip [OF demo_ext_ok _ demo_put_wf b(1), of "[255]" 0] b by simp
qed

end
