(* ===== verification/Oos_Wal.thy ===== *)
theory Oos_Wal
  imports Oos_Wal_Format
begin

text \<open>
  \<^verbatim>\<open>core/src/wal/mod.rs\<close>: the redo log.  Opening it scans the records and truncates a damaged tail;
  a put is appended and synced before anything else changes; a checkpoint records the last applied
  sequence number and empties the log when nothing newer is in it.  The file position is always the
  end of the log.  Sequence numbers are 64-bit words.
\<close>

record wal_disk =
  wd_log :: bytes
  wd_meta :: "bytes option"

record wal =
  wal_log :: bytes
  wal_meta :: "bytes option"
  wal_current_lsn :: u64
  wal_checkpoint_lsn :: u64
  wal_vault_key :: "vault_key option"

section \<open>Opening\<close>

text \<open>
  The scan of \<^verbatim>\<open>open_with_vault\<close>: the highest sequence number and the end of the last valid record.
  Errors other than a failed checksum or a malformed record are passed on.
\<close>

function wal_scan :: "ext \<Rightarrow> vault_key option \<Rightarrow> bytes \<Rightarrow> nat \<Rightarrow> u64 \<Rightarrow> nat \<Rightarrow> (u64 \<times> nat) result" where
  "wal_scan X vk content off lsn valid =
     (if off < length content then
        (let remaining = drop off content
         in if length remaining < WAL_HEADER_SIZE then Inr (lsn, valid)
            else if rslice 0 4 remaining \<noteq> WAL_MAGIC then Inr (lsn, valid)
            else
              (case decode_with_vault X remaining vk of
                 Inr (r, consumed) \<Rightarrow>
                   wal_scan X vk content (off + consumed)
                     (if lsn < wr_lsn r then wr_lsn r else lsn) (off + consumed)
               | Inl (ChecksumMismatch _ _ _) \<Rightarrow> Inr (lsn, valid)
               | Inl (WalRecovery _) \<Rightarrow> Inr (lsn, valid)
               | Inl e \<Rightarrow> Inl e))
      else Inr (lsn, valid))"
  by pat_completeness auto

termination
  by (relation "measure (\<lambda>(X, vk, content, off, lsn, valid). length content - off)")
    (auto dest!: decode_consumed)

declare wal_scan.simps [simp del]

definition meta_lsn :: "bytes option \<Rightarrow> u64" where
  "meta_lsn meta =
     (case meta of
        None \<Rightarrow> 0
      | Some b \<Rightarrow> if 8 \<le> length b then from_le64 (rslice 0 8 b) else 0)"

definition wal_open :: "ext \<Rightarrow> wal_disk \<Rightarrow> vault_key option \<Rightarrow> wal result" where
  "wal_open X wd vk =
     (let ckpt = meta_lsn (wd_meta wd); content = wd_log wd
      in bindE (wal_scan X vk content 0 ckpt 0) (\<lambda>(lsn, valid).
         Inr \<lparr>wal_log = (if valid < length content then take valid content else content),
              wal_meta = wd_meta wd, wal_current_lsn = lsn, wal_checkpoint_lsn = ckpt,
              wal_vault_key = vk\<rparr>))"

section \<open>Operations\<close>

definition wal_append_put_and_sync :: "ext \<Rightarrow> bytes \<Rightarrow> wal \<Rightarrow> wal_put \<Rightarrow> wal \<times> u64 result" where
  "wal_append_put_and_sync X nonce w put =
     (let lsn = wal_current_lsn w + 1; w' = w\<lparr>wal_current_lsn := lsn\<rparr>
      in case encode_put X nonce lsn put (wal_vault_key w) of
           Inl e \<Rightarrow> (w', Inl e)
         | Inr encoded \<Rightarrow> (w'\<lparr>wal_log := wal_log w @ encoded\<rparr>, Inr lsn))"

function wal_read_records ::
    "ext \<Rightarrow> vault_key option \<Rightarrow> u64 \<Rightarrow> bytes \<Rightarrow> nat \<Rightarrow> wal_record list result" where
  "wal_read_records X vk ckpt content off =
     (if off < length content then
        (let remaining = drop off content
         in if length remaining < WAL_HEADER_SIZE then Inr []
            else if rslice 0 4 remaining \<noteq> WAL_MAGIC then Inr []
            else
              (case decode_with_vault X remaining vk of
                 Inl e \<Rightarrow> Inl e
               | Inr (r, consumed) \<Rightarrow>
                   bindE (wal_read_records X vk ckpt content (off + consumed))
                     (\<lambda>rs. Inr (if ckpt < wr_lsn r then r # rs else rs))))
      else Inr [])"
  by pat_completeness auto

termination
  by (relation "measure (\<lambda>(X, vk, ckpt, content, off). length content - off)") (auto dest!: decode_consumed)

declare wal_read_records.simps [simp del]

definition wal_read_uncheckpointed_records :: "ext \<Rightarrow> wal \<Rightarrow> wal_record list result" where
  "wal_read_uncheckpointed_records X w =
     wal_read_records X (wal_vault_key w) (wal_checkpoint_lsn w) (wal_log w) 0"

definition wal_checkpoint :: "wal \<Rightarrow> u64 \<Rightarrow> wal" where
  "wal_checkpoint w lsn =
     (let w' = w\<lparr>wal_checkpoint_lsn := lsn, wal_meta := Some (le64 lsn)\<rparr>
      in if wal_current_lsn w' \<le> lsn then w'\<lparr>wal_log := []\<rparr> else w')"

text \<open>What is on disk when the process stops between two operations.\<close>

definition wal_on_disk :: "wal \<Rightarrow> wal_disk" where
  "wal_on_disk w = \<lparr>wd_log = wal_log w, wd_meta = wal_meta w\<rparr>"

section \<open>Logs of complete records\<close>

text \<open>An encoded record, as far as readers are concerned.\<close>

definition wal_entry :: "ext \<Rightarrow> vault_key option \<Rightarrow> bytes \<Rightarrow> wal_record \<Rightarrow> bool" where
  "wal_entry X vk b r \<longleftrightarrow> 21 \<le> length b \<and> take 4 b = WAL_MAGIC
     \<and> (\<forall>rest. decode_with_vault X (b @ rest) vk = Inr (r, length b))
     \<and> (\<forall>n < length b. \<exists>msg. decode_with_vault X (take n b) vk = Inl (WalRecovery msg))"

definition wal_entries :: "ext \<Rightarrow> vault_key option \<Rightarrow> (bytes \<times> wal_record) list \<Rightarrow> bool" where
  "wal_entries X vk es \<longleftrightarrow> (\<forall>(b, r) \<in> set es. wal_entry X vk b r)"

definition wal_bytes :: "(bytes \<times> wal_record) list \<Rightarrow> bytes" where
  "wal_bytes es = concat (map fst es)"

lemma wal_entries_simps [simp]:
  "wal_entries X vk []" "wal_entries X vk ((b, r) # es) \<longleftrightarrow> wal_entry X vk b r \<and> wal_entries X vk es"
  "wal_entries X vk (es @ es') \<longleftrightarrow> wal_entries X vk es \<and> wal_entries X vk es'"
  by (auto simp: wal_entries_def)

lemma wal_bytes_simps [simp]:
  "wal_bytes [] = []" "wal_bytes (e # es) = fst e @ wal_bytes es" "wal_bytes (es @ es') = wal_bytes es @ wal_bytes es'"
  by (simp_all add: wal_bytes_def)

lemma encode_put_entry:
  assumes "ext_ok X" "length nonce = 24" "wf_put put" "encode_put X nonce lsn put vk = Inr b"
  shows "wal_entry X vk b \<lparr>wr_lsn = lsn, wr_payload = PutObject put\<rparr>"
  using decode_encode_put [OF assms] by (simp add: wal_entry_def)

lemma entry_head: "wal_entry X vk b r \<Longrightarrow> rslice 0 4 (b @ rest) = WAL_MAGIC"
  by (simp add: wal_entry_def rslice_def)

definition max_lsn :: "u64 \<Rightarrow> (bytes \<times> wal_record) list \<Rightarrow> u64" where
  "max_lsn l es = foldl (\<lambda>l (b, r). if l < wr_lsn r then wr_lsn r else l) l es"

lemma max_lsn_simps [simp]:
  "max_lsn l [] = l" "max_lsn l ((b, r) # es) = max_lsn (if l < wr_lsn r then wr_lsn r else l) es"
  by (simp_all add: max_lsn_def)

lemma wal_scan_entries:
  assumes "wal_entries X vk es" "content = pre @ wal_bytes es @ rest"
  shows "wal_scan X vk content (length pre) lsn (length pre) =
    wal_scan X vk content (length pre + length (wal_bytes es)) (max_lsn lsn es) (length pre + length (wal_bytes es))"
  using assms
proof (induction es arbitrary: pre lsn)
  case (Cons e es)
  obtain b r where e: "e = (b, r)" by (cases e)
  have b: "wal_entry X vk b r" "wal_entries X vk es" using Cons.prems(1) by (auto simp: e)
  have c: "content = (pre @ b) @ wal_bytes es @ rest" using Cons.prems(2) by (simp add: e)
  have dec: "decode_with_vault X (b @ wal_bytes es @ rest) vk = Inr (r, length b)" "21 \<le> length b" "b \<noteq> []"
    using b(1) by (auto simp: wal_entry_def)
  have "wal_scan X vk content (length pre) lsn (length pre) =
      wal_scan X vk content (length (pre @ b)) (if lsn < wr_lsn r then wr_lsn r else lsn) (length (pre @ b))"
    using dec entry_head [OF b(1), of "wal_bytes es @ rest"]
    by (subst wal_scan.simps) (simp add: c WAL_HEADER_SIZE_def Let_def)
  also have "\<dots> = wal_scan X vk content (length (pre @ b) + length (wal_bytes es))
      (max_lsn lsn (e # es)) (length (pre @ b) + length (wal_bytes es))"
    using Cons.IH [OF b(2) c] by (simp add: e)
  finally show ?case by (simp add: e add.assoc)
qed simp

lemma wal_scan_end: "wal_scan X vk content (length content) lsn v = Inr (lsn, v)"
  by (subst wal_scan.simps) simp

lemma wal_scan_torn:
  assumes "wal_entry X vk b r" "n < length b" "content = pre @ take n b"
  shows "wal_scan X vk content (length pre) lsn v = Inr (lsn, v)"
proof -
  obtain msg where "decode_with_vault X (take n b) vk = Inl (WalRecovery msg)"
    using assms(1,2) by (auto simp: wal_entry_def)
  then show ?thesis by (subst wal_scan.simps) (simp add: assms(3) Let_def)
qed

lemma wal_read_entries:
  assumes "wal_entries X vk es" "content = pre @ wal_bytes es"
  shows "wal_read_records X vk ckpt content (length pre) = Inr (filter (\<lambda>r. ckpt < wr_lsn r) (map snd es))"
  using assms
proof (induction es arbitrary: pre)
  case Nil
  then show ?case by (subst wal_read_records.simps) simp
next
  case (Cons e es)
  obtain b r where e: "e = (b, r)" by (cases e)
  have b: "wal_entry X vk b r" "wal_entries X vk es" using Cons.prems(1) by (auto simp: e)
  have c: "content = (pre @ b) @ wal_bytes es" using Cons.prems(2) by (simp add: e)
  have dec: "decode_with_vault X (b @ wal_bytes es) vk = Inr (r, length b)" "21 \<le> length b" "b \<noteq> []"
    using b(1) by (auto simp: wal_entry_def)
  show ?case
    using dec entry_head [OF b(1), of "wal_bytes es"] Cons.IH [OF b(2) c]
    by (subst wal_read_records.simps) (simp add: c e WAL_HEADER_SIZE_def Let_def)
qed

section \<open>Opening after a crash\<close>

text \<open>The records that are complete within the first \<open>n\<close> bytes of a log.\<close>

fun whole :: "nat \<Rightarrow> (bytes \<times> wal_record) list \<Rightarrow> (bytes \<times> wal_record) list" where
  "whole n [] = []"
| "whole n (e # es) = (if length (fst e) \<le> n then e # whole (n - length (fst e)) es else [])"

lemma whole_prefix: "\<exists>rest. es = whole n es @ rest"
  by (induction es arbitrary: n) auto

lemma whole_all: "length (wal_bytes es) \<le> n \<Longrightarrow> whole n es = es"
  by (induction es arbitrary: n) auto

lemma whole_append:
  "length (wal_bytes es) \<le> n \<Longrightarrow> whole n (es @ es') = es @ whole (n - length (wal_bytes es)) es'"
  by (induction es arbitrary: n) auto

lemma whole_entries: "wal_entries X vk es \<Longrightarrow> wal_entries X vk (whole n es)"
  by (metis wal_entries_simps(3) whole_prefix)

lemma whole_take:
  assumes "wal_entries X vk es"
  shows "\<exists>t. take n (wal_bytes es) = wal_bytes (whole n es) @ t \<and>
    (t = [] \<or> (\<exists>b r k. wal_entry X vk b r \<and> k < length b \<and> t = take k b))"
  using assms
proof (induction es arbitrary: n)
  case (Cons e es)
  obtain b r where e: "e = (b, r)" by (cases e)
  show ?case
  proof (cases "length b \<le> n")
    case True
    then show ?thesis using Cons.IH [of "n - length b"] Cons.prems by (auto simp: e)
  next
    case False
    then have "take n (wal_bytes (e # es)) = take n b" "whole n (e # es) = []" by (simp_all add: e)
    then show ?thesis using Cons.prems False by (metis append_Nil e not_le wal_bytes_simps(1) wal_entries_simps(2))
  qed
qed simp

lemma wal_scan_cut:
  assumes "wal_entries X vk es"
  shows "wal_scan X vk (take n (wal_bytes es)) 0 lsn 0
    = Inr (max_lsn lsn (whole n es), length (wal_bytes (whole n es)))"
proof -
  obtain t where t: "take n (wal_bytes es) = wal_bytes (whole n es) @ t"
    "t = [] \<or> (\<exists>b r k. wal_entry X vk b r \<and> k < length b \<and> t = take k b)"
    using whole_take [OF assms] by blast
  have "wal_scan X vk (take n (wal_bytes es)) 0 lsn 0 =
     wal_scan X vk (wal_bytes (whole n es) @ t) (length (wal_bytes (whole n es)))
       (max_lsn lsn (whole n es)) (length (wal_bytes (whole n es)))"
    using wal_scan_entries [OF whole_entries [OF assms], of "wal_bytes (whole n es) @ t" "[]" n t lsn] t(1)
    by simp
  also have "\<dots> = Inr (max_lsn lsn (whole n es), length (wal_bytes (whole n es)))"
    using t(2) wal_scan_end [of X vk "wal_bytes (whole n es)"] wal_scan_torn by fastforce
  finally show ?thesis .
qed

lemma wal_open_cut:
  assumes "wal_entries X vk es" and "wd_log wd = take n (wal_bytes es)"
  shows "wal_open X wd vk = Inr \<lparr>wal_log = wal_bytes (whole n es), wal_meta = wd_meta wd,
     wal_current_lsn = max_lsn (meta_lsn (wd_meta wd)) (whole n es),
     wal_checkpoint_lsn = meta_lsn (wd_meta wd), wal_vault_key = vk\<rparr>"
proof -
  obtain t where t: "wd_log wd = wal_bytes (whole n es) @ t"
    using whole_take [OF assms(1), of n] assms(2) by auto
  have "wal_scan X vk (wd_log wd) 0 (meta_lsn (wd_meta wd)) 0
      = Inr (max_lsn (meta_lsn (wd_meta wd)) (whole n es), length (wal_bytes (whole n es)))"
    unfolding assms(2) by (rule wal_scan_cut [OF assms(1)])
  then show ?thesis by (simp add: wal_open_def Let_def t)
qed

section \<open>The invariant of an open log\<close>

definition wal_inv :: "ext \<Rightarrow> wal \<Rightarrow> (bytes \<times> wal_record) list \<Rightarrow> bool" where
  "wal_inv X w es \<longleftrightarrow> wal_log w = wal_bytes es \<and> wal_entries X (wal_vault_key w) es
     \<and> sorted_wrt (<) (map (wr_lsn \<circ> snd) es)
     \<and> (\<forall>(b, r) \<in> set es. wr_lsn r \<le> wal_current_lsn w)
     \<and> wal_checkpoint_lsn w = meta_lsn (wal_meta w) \<and> wal_checkpoint_lsn w \<le> wal_current_lsn w"

lemma max_lsn_ge: "l \<le> max_lsn l es \<and> (\<forall>(b, r) \<in> set es. wr_lsn r \<le> max_lsn l es)"
proof (induction es arbitrary: l)
  case (Cons e es)
  obtain b r where e: "e = (b, r)" by (cases e)
  show ?case
    using Cons.IH [of "if l < wr_lsn r then wr_lsn r else l"] by (auto simp: e split: if_splits)
qed simp

lemma wal_open_inv:
  assumes "wal_entries X vk es" "sorted_wrt (<) (map (wr_lsn \<circ> snd) es)" "wd_log wd = take n (wal_bytes es)"
  shows "\<exists>w. wal_open X wd vk = Inr w \<and> wal_inv X w (whole n es) \<and> wal_vault_key w = vk
     \<and> wal_meta w = wd_meta wd"
proof -
  obtain rest where "es = whole n es @ rest" using whole_prefix by blast
  then have "sorted_wrt (<) (map (wr_lsn \<circ> snd) (whole n es))"
    using assms(2) by (metis map_append sorted_wrt_append)
  then show ?thesis
    using wal_open_cut [OF assms(1,3)] whole_entries [OF assms(1)] max_lsn_ge [of "meta_lsn (wd_meta wd)" "whole n es"]
    by (simp add: wal_inv_def)
qed

lemma lsn_next: "l < - 1 \<Longrightarrow> l < l + 1" for l :: u64
proof -
  assume "l < - 1"
  moreover have "unat (- 1 :: u64) = 2 ^ 64 - 1" by (simp add: unsigned_minus_1_eq_mask mask_eq_exp_minus_1)
  ultimately show "l < l + 1" by (simp add: word_less_nat_alt unat_word_ariths)
qed

lemma wal_append_inv:
  assumes inv: "wal_inv X w es" and "ext_ok X" "length nonce = 24" "wf_put put"
    and app: "wal_append_put_and_sync X nonce w put = (w', Inr lsn)" and "wal_current_lsn w < - 1"
  shows "\<exists>b. wal_inv X w' (es @ [(b, \<lparr>wr_lsn = lsn, wr_payload = PutObject put\<rparr>)])"
    and "wal_current_lsn w < lsn" "wal_current_lsn w' = lsn" "wal_vault_key w' = wal_vault_key w"
    and "wal_meta w' = wal_meta w" "wal_checkpoint_lsn w' = wal_checkpoint_lsn w"
proof -
  have lsn: "lsn = wal_current_lsn w + 1" and w': "wal_current_lsn w' = lsn" "wal_vault_key w' = wal_vault_key w"
    "wal_meta w' = wal_meta w" "wal_checkpoint_lsn w' = wal_checkpoint_lsn w"
    using app by (auto simp: wal_append_put_and_sync_def Let_def split: sum.splits)
  then show "wal_current_lsn w' = lsn" "wal_vault_key w' = wal_vault_key w" "wal_meta w' = wal_meta w"
    "wal_checkpoint_lsn w' = wal_checkpoint_lsn w" by simp_all
  show lt: "wal_current_lsn w < lsn"
    unfolding lsn by (rule lsn_next [OF assms(6)])
  obtain b where b: "encode_put X nonce lsn put (wal_vault_key w) = Inr b" "wal_log w' = wal_log w @ b"
    using app by (auto simp: wal_append_put_and_sync_def Let_def split: sum.splits)
  have "wal_inv X w' (es @ [(b, \<lparr>wr_lsn = lsn, wr_payload = PutObject put\<rparr>)])"
    using inv encode_put_entry [OF assms(2-4) b(1)] lt
    by (fastforce simp: wal_inv_def w' b(2) sorted_wrt_append)
  then show "\<exists>b. wal_inv X w' (es @ [(b, \<lparr>wr_lsn = lsn, wr_payload = PutObject put\<rparr>)])" by blast
qed

lemma meta_lsn_le64 [simp]: "meta_lsn (Some (le64 l)) = l"
  by (simp add: meta_lsn_def rslice_def)

lemma wal_checkpoint_inv:
  assumes "wal_inv X w es" "lsn \<le> wal_current_lsn w"
  shows "wal_inv X (wal_checkpoint w lsn) (if lsn = wal_current_lsn w then [] else es)"
  using assms by (auto simp: wal_inv_def wal_checkpoint_def Let_def)

lemma wal_read_inv:
  assumes "wal_inv X w es"
  shows "wal_read_uncheckpointed_records X w = Inr (filter (\<lambda>r. wal_checkpoint_lsn w < wr_lsn r) (map snd es))"
  using assms wal_read_entries [of X "wal_vault_key w" es "wal_log w" "[]"]
  by (simp add: wal_read_uncheckpointed_records_def wal_inv_def)

section \<open>Runs of the log\<close>

text \<open>
  Every way a log is used, with the records it owes to recovery: those appended and not yet
  checkpointed.  A failed append consumes a sequence number; the process may stop between operations or
  in the middle of an append, when only a part of the encoded record has reached the file.
\<close>

inductive wal_run :: "ext \<Rightarrow> vault_key option \<Rightarrow> wal_record list \<Rightarrow> wal \<Rightarrow> bool" for X vk where
  walrun_new: "wal_open X \<lparr>wd_log = [], wd_meta = None\<rparr> vk = Inr w \<Longrightarrow> wal_run X vk [] w"
| walrun_append: "wal_run X vk rs w \<Longrightarrow> length nonce = 24 \<Longrightarrow> wf_put put \<Longrightarrow> wal_current_lsn w < - 1
    \<Longrightarrow> wal_append_put_and_sync X nonce w put = (w', Inr lsn)
    \<Longrightarrow> wal_run X vk (rs @ [\<lparr>wr_lsn = lsn, wr_payload = PutObject put\<rparr>]) w'"
| walrun_append_error: "wal_run X vk rs w \<Longrightarrow> wal_current_lsn w < - 1
    \<Longrightarrow> wal_append_put_and_sync X nonce w put = (w', Inl e) \<Longrightarrow> wal_run X vk rs w'"
| walrun_checkpoint: "wal_run X vk rs w \<Longrightarrow> wal_checkpoint_lsn w \<le> lsn \<Longrightarrow> lsn \<le> wal_current_lsn w
    \<Longrightarrow> wal_run X vk (filter (\<lambda>r. lsn < wr_lsn r) rs) (wal_checkpoint w lsn)"
| walrun_reopen: "wal_run X vk rs w \<Longrightarrow> wal_open X (wal_on_disk w) vk = Inr w' \<Longrightarrow> wal_run X vk rs w'"
| walrun_torn_append: "wal_run X vk rs w \<Longrightarrow> length nonce = 24 \<Longrightarrow> wf_put put
    \<Longrightarrow> encode_put X nonce (wal_current_lsn w + 1) put vk = Inr encoded \<Longrightarrow> k < length encoded
    \<Longrightarrow> wal_open X (wal_on_disk w\<lparr>wd_log := wal_log w @ take k encoded\<rparr>) vk = Inr w'
    \<Longrightarrow> wal_run X vk rs w'"

definition wal_owes :: "ext \<Rightarrow> vault_key option \<Rightarrow> wal_record list \<Rightarrow> wal \<Rightarrow> bool" where
  "wal_owes X vk rs w \<longleftrightarrow> wal_vault_key w = vk
     \<and> (\<exists>es. wal_inv X w es \<and> rs = filter (\<lambda>r. wal_checkpoint_lsn w < wr_lsn r) (map snd es))"

lemma whole_length: "whole (length (wal_bytes es)) es = es"
  by (rule whole_all) simp

lemma whole_torn: "wal_entries X vk es \<Longrightarrow> k < length b \<Longrightarrow> whole (length (wal_bytes es) + k) (es @ [(b, r)]) = es"
  by (induction es) (auto simp: wal_bytes_def)

text \<open>What a crash leaves behind the last complete record: nothing, or a part of a further record.\<close>

definition torn_tail :: "ext \<Rightarrow> vault_key option \<Rightarrow> bytes \<Rightarrow> bool" where
  "torn_tail X vk t \<longleftrightarrow> t = [] \<or> (\<exists>nonce lsn put b k. length nonce = 24 \<and> wf_put put
     \<and> encode_put X nonce lsn put vk = Inr b \<and> k < length b \<and> t = take k b)"

lemma wal_open_torn:
  assumes es: "wal_inv X w es" and X: "ext_ok X" and t: "torn_tail X (wal_vault_key w) t"
  shows "\<exists>w'. wal_open X (wal_on_disk w\<lparr>wd_log := wal_log w @ t\<rparr>) (wal_vault_key w) = Inr w' \<and> wal_inv X w' es
     \<and> wal_vault_key w' = wal_vault_key w \<and> wal_checkpoint_lsn w' = wal_checkpoint_lsn w"
proof -
  let ?vk = "wal_vault_key w" and ?wd = "wal_on_disk w\<lparr>wd_log := wal_log w @ t\<rparr>"
  have "\<exists>es' n. wal_entries X ?vk es' \<and> wal_log w @ t = take n (wal_bytes es') \<and> whole n es' = es"
  proof (cases "t = []")
    case True
    then show ?thesis
      using es whole_length [of es] by (intro exI [of _ es] exI [of _ "length (wal_bytes es)"]) (simp add: wal_inv_def)
  next
    case False
    then obtain nonce lsn put b k where b: "length nonce = 24" "wf_put put"
      "encode_put X nonce lsn put ?vk = Inr b" "k < length b" "t = take k b"
      using t by (auto simp: torn_tail_def)
    let ?e = "(b, \<lparr>wr_lsn = lsn, wr_payload = PutObject put\<rparr>)" and ?n = "length (wal_bytes es) + k"
    have ent: "wal_entries X ?vk (es @ [?e])" "wal_entries X ?vk es"
      using es encode_put_entry [OF X b(1-3)] by (simp_all add: wal_inv_def)
    moreover have "wal_log w @ t = take ?n (wal_bytes (es @ [?e]))"
      using es b(5) by (simp add: wal_inv_def wal_bytes_def)
    moreover have "whole ?n (es @ [?e]) = es" by (rule whole_torn [OF ent(2) b(4)])
    ultimately show ?thesis by blast
  qed
  then obtain es' n where es': "wal_entries X ?vk es'" "wd_log ?wd = take n (wal_bytes es')" "whole n es' = es"
    by auto
  from wal_open_cut [OF es'(1,2)] es max_lsn_ge [of "wal_checkpoint_lsn w" es]
  show ?thesis by (simp add: es'(3) wal_inv_def wal_on_disk_def)
qed

text \<open>Opening what a crash left behind: the records the log owes are all there.\<close>

lemma wal_owes_open:
  assumes "wal_owes X vk rs w" "ext_ok X" "torn_tail X vk t"
  shows "\<exists>w'. wal_open X (wal_on_disk w\<lparr>wd_log := wal_log w @ t\<rparr>) vk = Inr w' \<and> wal_owes X vk rs w'"
proof -
  obtain es where es: "wal_inv X w es" "rs = filter (\<lambda>r. wal_checkpoint_lsn w < wr_lsn r) (map snd es)"
    and vk: "wal_vault_key w = vk" using assms(1) by (auto simp: wal_owes_def)
  have "torn_tail X (wal_vault_key w) t" using assms(3) vk by simp
  from wal_open_torn [OF es(1) assms(2) this] es(2) vk show ?thesis by (auto simp: wal_owes_def)
qed

lemma wal_on_disk_log [simp]: "wal_on_disk w\<lparr>wd_log := wal_log w\<rparr> = wal_on_disk w"
  by (simp add: wal_on_disk_def)

lemma wal_owes_reopen:
  "wal_owes X vk rs w \<Longrightarrow> ext_ok X \<Longrightarrow> \<exists>w'. wal_open X (wal_on_disk w) vk = Inr w' \<and> wal_owes X vk rs w'"
  using wal_owes_open [of X vk rs w "[]"] by (simp add: torn_tail_def)

lemma wal_owes_torn:
  assumes "wal_owes X vk rs w" "ext_ok X" "length nonce = 24" "wf_put put"
    and "encode_put X nonce lsn put vk = Inr b" "k < length b"
  shows "\<exists>w'. wal_open X (wal_on_disk w\<lparr>wd_log := wal_log w @ take k b\<rparr>) vk = Inr w' \<and> wal_owes X vk rs w'"
  by (rule wal_owes_open [OF assms(1,2)]) (use assms(3-6) in \<open>unfold torn_tail_def, blast\<close>)

lemma wal_owes_append:
  assumes "wal_owes X vk rs w" "ext_ok X" "length nonce = 24" "wf_put put" "wal_current_lsn w < - 1"
    and "wal_append_put_and_sync X nonce w put = (w', Inr lsn)"
  shows "wal_owes X vk (rs @ [\<lparr>wr_lsn = lsn, wr_payload = PutObject put\<rparr>]) w'"
proof -
  obtain es where es: "wal_inv X w es" "rs = filter (\<lambda>r. wal_checkpoint_lsn w < wr_lsn r) (map snd es)"
    and vk: "wal_vault_key w = vk" using assms(1) by (auto simp: wal_owes_def)
  note a = wal_append_inv [OF es(1) assms(2-4,6,5)]
  obtain b where "wal_inv X w' (es @ [(b, \<lparr>wr_lsn = lsn, wr_payload = PutObject put\<rparr>)])" using a(1) by blast
  moreover have "wal_checkpoint_lsn w < lsn" using a(2) es(1) by (auto simp: wal_inv_def)
  ultimately show ?thesis using es(2) a(4,6) vk by (force simp: wal_owes_def)
qed

lemma wal_owes_error:
  assumes "wal_owes X vk rs w" "wal_current_lsn w < - 1"
    and "wal_append_put_and_sync X nonce w put = (w', Inl e)"
  shows "wal_owes X vk rs w'"
proof -
  have w': "w' = w\<lparr>wal_current_lsn := wal_current_lsn w + 1\<rparr>"
    using assms(3) by (auto simp: wal_append_put_and_sync_def Let_def split: sum.splits)
  show ?thesis using assms(1) lsn_next [OF assms(2)]
    by (force simp: wal_owes_def w' wal_inv_def)
qed

lemma wal_owes_checkpoint:
  assumes "wal_owes X vk rs w" "wal_checkpoint_lsn w \<le> lsn" "lsn \<le> wal_current_lsn w"
  shows "wal_owes X vk (filter (\<lambda>r. lsn < wr_lsn r) rs) (wal_checkpoint w lsn)"
proof -
  obtain es where es: "wal_inv X w es" "rs = filter (\<lambda>r. wal_checkpoint_lsn w < wr_lsn r) (map snd es)"
    and vk: "wal_vault_key w = vk" using assms(1) by (auto simp: wal_owes_def)
  have c: "wal_checkpoint_lsn (wal_checkpoint w lsn) = lsn" "wal_vault_key (wal_checkpoint w lsn) = vk"
    using vk by (simp_all add: wal_checkpoint_def Let_def)
  have "filter (\<lambda>r. lsn < wr_lsn r) rs
      = filter (\<lambda>r. lsn < wr_lsn r) (map snd (if lsn = wal_current_lsn w then [] else es))"
    using es assms(2) by (fastforce simp: filter_empty_conv wal_inv_def intro: filter_cong)
  then show ?thesis
    using wal_checkpoint_inv [OF es(1) assms(3)] c unfolding wal_owes_def by metis
qed

lemma wal_run_owes:
  assumes "wal_run X vk rs w" "ext_ok X"
  shows "wal_owes X vk rs w"
  using assms
proof (induction rule: wal_run.induct)
  case (walrun_new w)
  then show ?case
    using wal_open_cut [of X vk "[]" "\<lparr>wd_log = [], wd_meta = None\<rparr>" 0]
    by (auto simp: wal_owes_def wal_inv_def meta_lsn_def intro!: exI [of _ "[]"])
next
  case (walrun_reopen rs w w')
  then show ?case using wal_owes_reopen by fastforce
next
  case (walrun_torn_append rs w nonce put encoded k w')
  then show ?case using wal_owes_torn by fastforce
qed (blast intro: wal_owes_append wal_owes_error wal_owes_checkpoint)+

lemma wal_owes_read: "wal_owes X vk rs w \<Longrightarrow> wal_read_uncheckpointed_records X w = Inr rs"
  using wal_read_inv by (auto simp: wal_owes_def)

section \<open>Properties\<close>

text \<open>
  C32. Durability of the redo log: after any run of appends, failed appends, checkpoints, restarts and
  appends cut short by a crash, recovery reads back exactly the records that were appended and not
  checkpointed, in order; and whatever prefix of a further record a crash leaves in the file, the log
  opens again and still owes the same records.
\<close>

theorem wal_durability:
  assumes "ext_ok X" "wal_run X vk rs w"
  shows "wal_read_uncheckpointed_records X w = Inr rs
    \<and> (\<forall>nonce put lsn b k. length nonce = 24 \<longrightarrow> wf_put put \<longrightarrow> encode_put X nonce lsn put vk = Inr b \<longrightarrow> k < length b
        \<longrightarrow> (\<exists>w'. wal_open X (wal_on_disk w\<lparr>wd_log := wal_log w @ take k b\<rparr>) vk = Inr w'
              \<and> wal_read_uncheckpointed_records X w' = Inr rs))"
proof (intro conjI allI impI)
  note ok = wal_run_owes [OF assms(2,1)]
  then show "wal_read_uncheckpointed_records X w = Inr rs" by (rule wal_owes_read)
  fix nonce put lsn b k
  assume "length nonce = 24" "wf_put put" "encode_put X nonce lsn put vk = Inr b" "k < length b"
  from wal_owes_torn [OF ok assms(1) this] wal_owes_read
  show "\<exists>w'. wal_open X (wal_on_disk w\<lparr>wd_log := wal_log w @ take k b\<rparr>) vk = Inr w'
      \<and> wal_read_uncheckpointed_records X w' = Inr rs" by blast
qed

theorem wal_durability_witness:
  "\<exists>w w' lsn. wal_open demo_ext \<lparr>wd_log = [], wd_meta = None\<rparr> None = Inr w
     \<and> wal_append_put_and_sync demo_ext (replicate 24 0) w demo_put = (w', Inr lsn)
     \<and> wal_read_uncheckpointed_records demo_ext w' = Inr [\<lparr>wr_lsn = lsn, wr_payload = PutObject demo_put\<rparr>]"
proof -
  obtain w where w: "wal_open demo_ext \<lparr>wd_log = [], wd_meta = None\<rparr> None = Inr w" "wal_vault_key w = None"
    "wal_current_lsn w = 0"
    using wal_open_cut [of demo_ext None "[]" "\<lparr>wd_log = [], wd_meta = None\<rparr>" 0] by (auto simp: meta_lsn_def)
  then obtain w' lsn where a: "wal_append_put_and_sync demo_ext (replicate 24 0) w demo_put = (w', Inr lsn)"
    using demo_put_encodes [of demo_ext "replicate 24 0" 1]
    by (auto simp: wal_append_put_and_sync_def Let_def)
  have "(0::u64) < - 1" by (simp add: word_less_nat_alt unsigned_minus_1_eq_mask)
  then have "wal_run demo_ext None ([] @ [\<lparr>wr_lsn = lsn, wr_payload = PutObject demo_put\<rparr>]) w'"
    using walrun_append [OF walrun_new [OF w(1)] _ demo_put_wf _ a] w(3) by simp
  from wal_durability [OF demo_ext_ok this, THEN conjunct1] w(1) a show ?thesis by auto
qed

end
