(* ===== verification/Oos_Chunker.thy ===== *)
theory Oos_Chunker
  imports Oos_Prelude
begin

text \<open>
  \<^verbatim>\<open>core/src/chunk/cdc.rs\<close>: content-defined chunking of a buffer and of a stream.  The cut points
  come from the third-party \<^verbatim>\<open>fastcdc\<close>; \<open>fastcdc_ok\<close> states its contract.  A reader is the list of
  blocks its successive \<^verbatim>\<open>read\<close> calls return, the end of the list (or an empty block) being the end
  of the stream.
\<close>

definition MIN_CHUNK_SIZE :: nat where "MIN_CHUNK_SIZE = 16384"
definition TARGET_CHUNK_SIZE :: nat where "TARGET_CHUNK_SIZE = 65536"
definition MAX_CHUNK_SIZE :: nat where "MAX_CHUNK_SIZE = 262144"

text \<open>The cuts are consecutive, not empty, at most \<open>mx\<close> long and cover the data.\<close>

fun covers :: "nat \<Rightarrow> nat \<Rightarrow> nat \<Rightarrow> (nat \<times> nat) list \<Rightarrow> bool" where
  "covers mx off n [] \<longleftrightarrow> off = n"
| "covers mx off n ((o', l) # cs) \<longleftrightarrow> o' = off \<and> 0 < l \<and> l \<le> mx \<and> covers mx (off + l) n cs"

definition fastcdc_ok :: "ext \<Rightarrow> bool" where
  "fastcdc_ok X \<longleftrightarrow> (\<forall>mn av mx d. 0 < mx \<longrightarrow> covers mx 0 (length d) (fastcdc X mn av mx d))"

lemma fixed_cuts_covers: "0 < mx \<Longrightarrow> covers mx off (off + n) (fixed_cuts mx off n)"
proof (induction mx off n rule: fixed_cuts.induct)
  case (1 mx off n)
  show ?case
  proof (cases "n = 0")
    case False
    then show ?thesis using 1 by (simp add: fixed_cuts.simps [of mx off n])
  next
    case True
    then show ?thesis using fixed_cuts.simps [of mx off 0] by simp
  qed
qed

lemma demo_fastcdc_ok: "fastcdc_ok demo_ext"
  using fixed_cuts_covers [of _ 0] by (simp add: fastcdc_ok_def demo_ext_def)

section \<open>A buffer\<close>

definition chunker_cuts :: "ext \<Rightarrow> nat \<Rightarrow> nat \<Rightarrow> nat \<Rightarrow> bytes \<Rightarrow> (nat \<times> nat) list" where
  "chunker_cuts X mn target mx data =
     (if data = [] then [] else if length data \<le> mn then [(0, length data)] else fastcdc X mn target mx data)"

definition chunker_chunks :: "ext \<Rightarrow> nat \<Rightarrow> nat \<Rightarrow> nat \<Rightarrow> bytes \<Rightarrow> bytes list" where
  "chunker_chunks X mn target mx data =
     (if data = [] then [] else if length data \<le> mn then [data]
      else map (\<lambda>(off, l). rslice off (off + l) data) (fastcdc X mn target mx data))"

section \<open>A stream\<close>

record stream_chunker =
  sc_reader :: "bytes list"
  sc_buffer :: bytes
  sc_min :: nat
  sc_target :: nat
  sc_max :: nat
  sc_eof :: bool

definition sc_new :: "bytes list \<Rightarrow> stream_chunker" where
  "sc_new blocks = \<lparr>sc_reader = blocks, sc_buffer = [], sc_min = MIN_CHUNK_SIZE,
     sc_target = TARGET_CHUNK_SIZE, sc_max = MAX_CHUNK_SIZE, sc_eof = False\<rparr>"

text \<open>One \<^verbatim>\<open>read\<close>: the next block, or nothing at the end.\<close>

definition sc_read :: "stream_chunker \<Rightarrow> stream_chunker" where
  "sc_read st =
     (case sc_reader st of
        [] \<Rightarrow> st\<lparr>sc_eof := True\<rparr>
      | b # bs \<Rightarrow> if b = [] then st\<lparr>sc_reader := bs, sc_eof := True\<rparr>
                  else st\<lparr>sc_reader := bs, sc_buffer := sc_buffer st @ b\<rparr>)"

text \<open>The loop of \<^verbatim>\<open>next_chunk\<close>; it returns the chunker as it leaves it.\<close>

function next_chunk :: "ext \<Rightarrow> stream_chunker \<Rightarrow> stream_chunker \<times> bytes option" where
  "next_chunk X st =
     (let buf = sc_buffer st; eof = sc_eof st
      in if sc_max st \<le> length buf \<or> eof \<and> buf \<noteq> [] then
           (if length buf \<le> sc_min st \<and> eof then (st\<lparr>sc_buffer := []\<rparr>, Some buf)
            else
              (case fastcdc X (sc_min st) (sc_target st) (sc_max st) buf of
                 (off, l) # _ \<Rightarrow>
                   (st\<lparr>sc_buffer := drop (off + l) buf\<rparr>, Some (rslice off (off + l) buf))
               | [] \<Rightarrow>
                   if eof then (if buf \<noteq> [] then (st\<lparr>sc_buffer := []\<rparr>, Some buf) else (st, None))
                   else next_chunk X (sc_read st)))
         else if eof then (if buf \<noteq> [] then (st\<lparr>sc_buffer := []\<rparr>, Some buf) else (st, None))
         else next_chunk X (sc_read st))"
  by pat_completeness auto

termination
  by (relation "measure (\<lambda>(X, st). 2 * length (sc_reader st) + (if sc_eof st then 0 else 1))")
    (auto simp: sc_read_def split: list.splits)

declare next_chunk.simps [simp del]

text \<open>
  The caller's loop: chunks until \<^verbatim>\<open>None\<close>.  It ends only if every cut makes progress, so it has fuel;
  \<open>None\<close> means that the fuel ran out.
\<close>

fun drain_chunks :: "ext \<Rightarrow> nat \<Rightarrow> stream_chunker \<Rightarrow> bytes list option" where
  "drain_chunks X 0 st = None"
| "drain_chunks X (Suc n) st =
     (case next_chunk X st of
        (_, None) \<Rightarrow> Some []
      | (st', Some c) \<Rightarrow> map_option ((#) c) (drain_chunks X n st'))"

section \<open>Correctness\<close>

lemma covers_le: "covers mx off n cs \<Longrightarrow> off \<le> n"
  by (induction mx off n cs rule: covers.induct) auto

lemma slice_join: "a \<le> b \<Longrightarrow> b \<le> c \<Longrightarrow> rslice a b d @ rslice b c d = rslice a c d"
proof -
  assume "a \<le> b" "b \<le> c"
  then have "drop b d = drop (b - a) (drop a d)" "c - a = (b - a) + (c - b)" by simp_all
  then show ?thesis by (simp only: rslice_def take_add)
qed

lemma covers_slices:
  "covers mx off n cs \<Longrightarrow> concat (map (\<lambda>(off, l). rslice off (off + l) d) cs) = rslice off n d"
proof (induction mx off n cs rule: covers.induct)
  case (2 mx off n o' l cs)
  then have "off + l \<le> n" by (auto dest: covers_le)
  with 2 show ?case by (simp add: slice_join)
qed simp

lemma covers_sizes: "covers mx off n cs \<Longrightarrow> (o', l) \<in> set cs \<Longrightarrow> 0 < l \<and> l \<le> mx \<and> o' + l \<le> n"
proof (induction mx off n cs rule: covers.induct)
  case (2 mx off n o'' l' cs)
  then show ?case by (auto dest: covers_le)
qed simp

text \<open>The chunks of a buffer are the buffer, cut.\<close>

lemma chunker_chunks_concat:
  assumes "fastcdc_ok X" "0 < mx"
  shows "concat (chunker_chunks X mn tg mx data) = data"
    and "\<forall>c \<in> set (chunker_chunks X mn tg mx data). c \<noteq> [] \<and> length c \<le> max mn mx"
    and "chunker_chunks X mn tg mx data = map (\<lambda>(off, l). rslice off (off + l) data) (chunker_cuts X mn tg mx data)"
proof -
  have cov: "covers mx 0 (length data) (fastcdc X mn tg mx data)"
    using assms by (simp add: fastcdc_ok_def)
  show "concat (chunker_chunks X mn tg mx data) = data"
    using covers_slices [OF cov, of data] by (simp add: chunker_chunks_def slice_simps)
  have "rslice o' (o' + l) data \<noteq> [] \<and> length (rslice o' (o' + l) data) \<le> max mn mx"
    if "(o', l) \<in> set (fastcdc X mn tg mx data)" for o' l
  proof -
    have "length (rslice o' (o' + l) data) = l" "0 < l" "l \<le> mx"
      using covers_sizes [OF cov that] by simp_all
    then show ?thesis by (metis length_greater_0_conv max.coboundedI2)
  qed
  then show "\<forall>c \<in> set (chunker_chunks X mn tg mx data). c \<noteq> [] \<and> length c \<le> max mn mx"
    by (auto simp: chunker_chunks_def)
  show "chunker_chunks X mn tg mx data = map (\<lambda>(off, l). rslice off (off + l) data) (chunker_cuts X mn tg mx data)"
    by (simp add: chunker_chunks_def chunker_cuts_def slice_simps)
qed

text \<open>The bytes a stream chunker has still to deliver.\<close>

definition sc_rest :: "stream_chunker \<Rightarrow> bytes" where
  "sc_rest st = sc_buffer st @ (if sc_eof st then [] else concat (takeWhile (\<lambda>b. b \<noteq> []) (sc_reader st)))"

lemma sc_rest_read: "\<not> sc_eof st \<Longrightarrow> sc_rest (sc_read st) = sc_rest st"
  by (simp add: sc_rest_def sc_read_def split: list.splits)

lemma sc_read_sizes [simp]: "sc_max (sc_read st) = sc_max st" "sc_min (sc_read st) = sc_min st"
  by (simp_all add: sc_read_def split: list.splits)

lemma next_chunk_spec:
  assumes "fastcdc_ok X" "0 < sc_max st" "next_chunk X st = (st', r)"
  shows "sc_max st' = sc_max st \<and> sc_min st' = sc_min st \<and>
    (case r of None \<Rightarrow> sc_rest st = []
     | Some c \<Rightarrow> c \<noteq> [] \<and> length c \<le> max (sc_min st) (sc_max st) \<and> sc_rest st = c @ sc_rest st')"
  using assms
proof (induction X st rule: next_chunk.induct)
  case (1 X st)
  let ?buf = "sc_buffer st"
  consider (last) "sc_max st \<le> length ?buf \<or> sc_eof st \<and> ?buf \<noteq> []" "length ?buf \<le> sc_min st \<and> sc_eof st"
    | (cut) "sc_max st \<le> length ?buf \<or> sc_eof st \<and> ?buf \<noteq> []" "\<not> (length ?buf \<le> sc_min st \<and> sc_eof st)"
    | (fin) "\<not> (sc_max st \<le> length ?buf \<or> sc_eof st \<and> ?buf \<noteq> [])" "sc_eof st"
    | (more) "\<not> (sc_max st \<le> length ?buf \<or> sc_eof st \<and> ?buf \<noteq> [])" "\<not> sc_eof st"
    by blast
  then show ?case
  proof cases
    case last
    then have "st' = st\<lparr>sc_buffer := []\<rparr>" "r = Some ?buf" "?buf \<noteq> []"
      using "1.prems" by (auto simp: next_chunk.simps [of X st] Let_def)
    with last show ?thesis by (auto simp: sc_rest_def)
  next
    case cut
    have ne: "?buf \<noteq> []" using cut(1) "1.prems"(2) by auto
    have cov: "covers (sc_max st) 0 (length ?buf) (fastcdc X (sc_min st) (sc_target st) (sc_max st) ?buf)"
      using "1.prems"(1,2) by (simp add: fastcdc_ok_def)
    then obtain l cs where c: "fastcdc X (sc_min st) (sc_target st) (sc_max st) ?buf = (0, l) # cs"
      "0 < l" "l \<le> sc_max st" "l \<le> length ?buf"
      using ne covers_le
      by (cases "fastcdc X (sc_min st) (sc_target st) (sc_max st) ?buf") fastforce+
    then have "st' = st\<lparr>sc_buffer := drop l ?buf\<rparr>" "r = Some (take l ?buf)"
      using "1.prems"(3) cut by (auto simp: next_chunk.simps [of X st] Let_def rslice_def)
    with c ne show ?thesis by (simp add: sc_rest_def)
  next
    case fin
    then have "st' = st" "r = None" "?buf = []"
      using "1.prems"(3) by (auto simp: next_chunk.simps [of X st] Let_def)
    with fin show ?thesis by (simp add: sc_rest_def)
  next
    case more
    then have "next_chunk X (sc_read st) = (st', r)"
      using "1.prems"(3) by (simp add: next_chunk.simps [of X st] Let_def)
    from "1.IH"(2) [OF refl refl more(1,2) "1.prems"(1) _ this] "1.prems"(2) sc_rest_read [OF more(2)]
    show ?thesis by (simp split: option.splits)
  qed
qed

text \<open>
  The loop ends, and the chunks it delivers are the stream, cut into pieces that are not empty and not
  larger than the limit.
\<close>

lemma drain_chunks_spec:
  assumes "fastcdc_ok X" "0 < sc_max st" "length (sc_rest st) < n"
  shows "\<exists>cs. drain_chunks X n st = Some cs \<and> concat cs = sc_rest st
     \<and> (\<forall>c \<in> set cs. c \<noteq> [] \<and> length c \<le> max (sc_min st) (sc_max st))"
  using assms(2,3)
proof (induction n arbitrary: st)
  case (Suc n)
  obtain st' r where nc: "next_chunk X st = (st', r)" by fastforce
  note spec = next_chunk_spec [OF assms(1) Suc.prems(1) nc]
  show ?case
  proof (cases r)
    case None
    then show ?thesis using spec by (simp add: nc)
  next
    case (Some c)
    with spec Suc.prems have "0 < sc_max st'" "length (sc_rest st') < n" by (auto simp: neq_Nil_conv)
    from Suc.IH [OF this] spec Some show ?thesis by (fastforce simp: nc)
  qed
qed simp

text \<open>The blocks a whole file is read in, and the chunks of the file.\<close>

definition stream_chunks :: "ext \<Rightarrow> bytes list \<Rightarrow> bytes list option" where
  "stream_chunks X blocks = drain_chunks X (Suc (length (concat blocks))) (sc_new blocks)"

lemma length_takeWhile_concat: "length (concat (takeWhile P bs)) \<le> length (concat bs)"
  by (induction bs) auto

lemma stream_chunks_spec:
  assumes "fastcdc_ok X"
  shows "\<exists>cs. stream_chunks X blocks = Some cs \<and> concat cs = concat (takeWhile (\<lambda>b. b \<noteq> []) blocks)
     \<and> (\<forall>c \<in> set cs. c \<noteq> [] \<and> length c \<le> MAX_CHUNK_SIZE)"
  using drain_chunks_spec [OF assms, of "sc_new blocks" "Suc (length (concat blocks))"]
    length_takeWhile_concat [of "\<lambda>b. b \<noteq> []" blocks]
  by (simp add: stream_chunks_def sc_new_def sc_rest_def MIN_CHUNK_SIZE_def MAX_CHUNK_SIZE_def less_Suc_eq_le)

section \<open>Properties\<close>

text \<open>
  C34. Streaming chunking always finishes: for every sequence of reads it yields a list of non-empty
  chunks of at most the maximal size whose concatenation is everything that was read before the end of
  the input.
\<close>

theorem stream_chunks_total:
  assumes "fastcdc_ok X"
  shows "\<exists>cs. stream_chunks X blocks = Some cs \<and> concat cs = concat (takeWhile (\<lambda>b. b \<noteq> []) blocks)
     \<and> (\<forall>c \<in> set cs. c \<noteq> [] \<and> length c \<le> MAX_CHUNK_SIZE)"
  by (rule stream_chunks_spec [OF assms])

theorem stream_chunks_total_witness:
  "\<exists>cs. stream_chunks demo_ext [[1, 2], [3], [], [4]] = Some cs \<and> concat cs = [1, 2, 3]"
  using stream_chunks_total [OF demo_fastcdc_ok, of "[[1, 2], [3], [], [4]]"] by auto

end
