(* ===== verification/Oos_Names.thy ===== *)
theory Oos_Names
  imports Oos_Text
begin

text \<open>
  Logical file names: \<^verbatim>\<open>validate_logical_name\<close> (\<^verbatim>\<open>core/src/engine.rs\<close>) and the part of
  \<^verbatim>\<open>std::path::Path\<close> it uses, on a Unix target (one separator, no prefixes).  The last section is
  about the relative path a snapshot entry is restored to.
\<close>

section \<open>Path components\<close>

datatype component = RootDir | CurDir | ParentDir | Normal rstring

text \<open>A piece between separators; empty and single-dot pieces yield nothing.\<close>

definition piece_components :: "rstring \<Rightarrow> component list" where
  "piece_components p =
     (if p = [] \<or> p = [46] then [] else if p = [46, 46] then [ParentDir] else [Normal p])"

text \<open>\<^verbatim>\<open>Path::components\<close>: a leading single dot of a relative path is kept as \<^verbatim>\<open>CurDir\<close>.\<close>

definition components :: "rstring \<Rightarrow> component list" where
  "components s =
     (let ps = split_on (\<lambda>b. b = 47) s
      in (if starts_with s [47] then [RootDir] else if hd ps = [46] then [CurDir] else [])
         @ concat (map piece_components ps))"

fun normal_of :: "component \<Rightarrow> rstring option" where
  "normal_of (Normal p) = Some p"
| "normal_of _ = None"

definition normals :: "rstring \<Rightarrow> rstring list" where
  "normals s = List.map_filter normal_of (components s)"

section \<open>validate_logical_name\<close>

definition to_ascii_uppercase :: "rstring \<Rightarrow> rstring" where
  "to_ascii_uppercase s = map (\<lambda>b. if 97 \<le> b \<and> b \<le> 122 then b - 32 else b) s"

definition dos_devices :: "rstring list" where
  "dos_devices = map bytes_of
     [''CON'', ''PRN'', ''AUX'', ''NUL'',
      ''COM1'', ''COM2'', ''COM3'', ''COM4'', ''COM5'', ''COM6'', ''COM7'', ''COM8'', ''COM9'',
      ''LPT1'', ''LPT2'', ''LPT3'', ''LPT4'', ''LPT5'', ''LPT6'', ''LPT7'', ''LPT8'', ''LPT9'']"

definition component_stem :: "rstring \<Rightarrow> rstring" where
  "component_stem c = to_ascii_uppercase (hd (split_on (\<lambda>b. b = 46) (from_utf8_lossy c)))"

fun check_component :: "rstring \<Rightarrow> component \<Rightarrow> unit result" where
  "check_component name ParentDir = Inl (InvalidName name ''Relative parent traversal '..' not allowed'')"
| "check_component name RootDir = Inl (InvalidName name ''Absolute paths not allowed in logical name'')"
| "check_component name (Normal c) =
     (if component_stem c \<in> set dos_devices
      then Inl (InvalidName name ''Reserved Windows device name not allowed in path components'')
      else Inr ())"
| "check_component name CurDir = Inr ()"

definition validate_logical_name :: "rstring \<Rightarrow> unit result" where
  "validate_logical_name name =
     (let trimmed = trim name
      in if trimmed = [] then Inl (InvalidName name ''Logical file name cannot be empty'')
         else if trimmed = [46] \<or> trimmed = [46, 46]
         then Inl (InvalidName name ''Logical file name cannot be '.' or '..' directory reference'')
         else if 0 \<in> set trimmed \<or> 13 \<in> set trimmed \<or> 10 \<in> set trimmed \<or> 58 \<in> set trimmed
         then Inl (InvalidName name ''Logical file name cannot contain control characters or colons'')
         else
           bindE (foldE (\<lambda>_ c. check_component name c) () (components trimmed)) (\<lambda>_.
           if length (normals trimmed) = 0
           then Inl (InvalidName name ''Logical file name must contain at least one valid path component'')
           else Inr ()))"

definition valid_name :: "rstring \<Rightarrow> bool" where
  "valid_name n \<longleftrightarrow> validate_logical_name n = Inr ()"

section \<open>Restoring under a directory\<close>

fun join_path :: "rstring list \<Rightarrow> rstring" where
  "join_path [] = []"
| "join_path [p] = p"
| "join_path (p # q # ps) = p @ [47] @ join_path (q # ps)"

text \<open>\<^verbatim>\<open>safe_relative_path\<close>: the normal components only, collected into a path.\<close>

definition safe_relative_path :: "rstring \<Rightarrow> rstring" where
  "safe_relative_path name = join_path (normals name)"

section \<open>Correctness\<close>

lemma foldE_unit: "foldE (\<lambda>_. f) () xs = Inr () \<longleftrightarrow> (\<forall>x \<in> set xs. f x = Inr ())"
  by (induction xs) (auto simp: bindE_eq_Inr)

text \<open>What an accepted name looks like.\<close>

lemma valid_name_iff:
  "valid_name n \<longleftrightarrow> (let t = trim n in
     set t \<inter> {0, 10, 13, 58} = {} \<and> normals t \<noteq> [] \<and> RootDir \<notin> set (components t)
     \<and> ParentDir \<notin> set (components t) \<and> (\<forall>c \<in> set (normals t). component_stem c \<notin> set dos_devices))"
proof -
  let ?t = "trim n"
  have chk: "check_component n c = Inr () \<longleftrightarrow> c \<noteq> RootDir \<and> c \<noteq> ParentDir
      \<and> (\<forall>p. normal_of c = Some p \<longrightarrow> component_stem p \<notin> set dos_devices)" for c
    by (cases c) auto
  have nrm: "(\<forall>c \<in> set (components ?t). \<forall>p. normal_of c = Some p \<longrightarrow> component_stem p \<notin> set dos_devices)
      \<longleftrightarrow> (\<forall>c \<in> set (normals ?t). component_stem c \<notin> set dos_devices)"
    by (auto simp: normals_def List.map_filter_def)
  have dots: "?t = [] \<or> ?t = [46] \<or> ?t = [46, 46] \<Longrightarrow> normals ?t = []"
    by (auto simp: normals_def components_def piece_components_def starts_with_def List.map_filter_def)
  have all: "(\<forall>c \<in> set (components ?t). check_component n c = Inr ()) \<longleftrightarrow> RootDir \<notin> set (components ?t)
      \<and> ParentDir \<notin> set (components ?t) \<and> (\<forall>c \<in> set (normals ?t). component_stem c \<notin> set dos_devices)"
    unfolding chk nrm [symmetric] by blast
  have "valid_name n \<longleftrightarrow> ?t \<noteq> [] \<and> \<not> (?t = [46] \<or> ?t = [46, 46])
      \<and> \<not> (0 \<in> set ?t \<or> 13 \<in> set ?t \<or> 10 \<in> set ?t \<or> 58 \<in> set ?t)
      \<and> (\<forall>c \<in> set (components ?t). check_component n c = Inr ()) \<and> normals ?t \<noteq> []"
    by (simp add: valid_name_def validate_logical_name_def Let_def bindE_eq_Inr foldE_unit)
  then show ?thesis unfolding all Let_def using dots by blast
qed

text \<open>The pieces that become normal components.\<close>

definition plain_piece :: "rstring \<Rightarrow> bool" where
  "plain_piece p \<longleftrightarrow> p \<noteq> [] \<and> p \<noteq> [46] \<and> p \<noteq> [46, 46] \<and> 47 \<notin> set p"

lemma piece_components_Normal: "Normal p \<in> set (piece_components q) \<Longrightarrow> p = q \<and> p \<noteq> [] \<and> p \<noteq> [46] \<and> p \<noteq> [46, 46]"
  by (simp add: piece_components_def split: if_splits)

lemma normal_of_Some: "normal_of c = Some p \<longleftrightarrow> c = Normal p"
  by (cases c) auto

lemma in_normals: "p \<in> set (normals s) \<longleftrightarrow> Normal p \<in> set (components s)"
  by (force simp: normals_def List.map_filter_def normal_of_Some)

lemma in_components: "Normal p \<in> set (components s) \<Longrightarrow> \<exists>q \<in> set (split_on (\<lambda>b. b = 47) s). Normal p \<in> set (piece_components q)"
  by (auto simp: components_def Let_def split: if_splits)

lemma normals_plain: "p \<in> set (normals s) \<Longrightarrow> plain_piece p"
  using split_on_no_sep [of p "\<lambda>b. b = 47" s 47]
  by (auto simp: in_normals plain_piece_def dest!: in_components piece_components_Normal)

lemma split_on_plain: "47 \<notin> set p \<Longrightarrow> split_on (\<lambda>b. b = 47) (p @ [47] @ r) = p # split_on (\<lambda>b. b = 47) r"
  by (induction p) simp_all

lemma split_on_single: "47 \<notin> set p \<Longrightarrow> split_on (\<lambda>b. b = 47) p = [p]"
  by (induction p) simp_all

lemma split_on_join:
  "ps \<noteq> [] \<Longrightarrow> \<forall>p \<in> set ps. plain_piece p \<Longrightarrow> split_on (\<lambda>b. b = 47) (join_path ps) = ps"
proof (induction ps rule: join_path.induct)
  case (3 p q ps)
  then show ?case using split_on_plain [of p "join_path (q # ps)"] by (simp add: plain_piece_def)
qed (simp_all add: plain_piece_def split_on_single)

lemma join_path_head: "ps \<noteq> [] \<Longrightarrow> \<forall>p \<in> set ps. plain_piece p \<Longrightarrow> \<not> starts_with (join_path ps) [47]"
proof (induction ps rule: join_path.induct)
  case (2 p)
  then show ?case by (cases p) (auto simp: plain_piece_def starts_with_def)
next
  case (3 p q ps)
  then show ?case by (cases p) (auto simp: plain_piece_def starts_with_def)
qed simp

lemma components_join:
  assumes "ps \<noteq> []" "\<forall>p \<in> set ps. plain_piece p"
  shows "components (join_path ps) = map Normal ps"
proof -
  have "hd ps \<noteq> [46]" using assms by (cases ps) (auto simp: plain_piece_def)
  moreover have "concat (map piece_components qs) = map Normal qs" if "\<forall>p \<in> set qs. plain_piece p" for qs
    using that by (induction qs) (simp_all add: piece_components_def plain_piece_def)
  ultimately show ?thesis
    using assms join_path_head [OF assms] split_on_join [OF assms] by (simp add: components_def Let_def)
qed

text \<open>
  The path an entry is restored to descends: whatever the stored name, it has only normal components,
  so joining it to the target directory cannot leave that directory.
\<close>

lemma safe_relative_path_components:
  "safe_relative_path name \<noteq> [] \<Longrightarrow> components (safe_relative_path name) = map Normal (normals name)"
  using components_join [of "normals name"] normals_plain
  by (cases "normals name = []") (auto simp: safe_relative_path_def)

lemma safe_relative_path_empty: "safe_relative_path name = [] \<longleftrightarrow> normals name = []"
proof (cases "normals name")
  case (Cons p ps)
  then have "plain_piece p" using normals_plain [of p name] by simp
  then show ?thesis using Cons by (cases ps) (auto simp: safe_relative_path_def plain_piece_def)
qed (simp add: safe_relative_path_def)

section \<open>Properties\<close>

text \<open>
  Validation of logical names accepts exactly the names that, once trimmed, contain no control
  separators and no colon, are relative, never step to a parent, have at least one normal component, and
  none of whose components is a reserved device name.
\<close>

theorem validate_name_iff:
  "validate_logical_name n = Inr () \<longleftrightarrow> (let t = trim n in
     set t \<inter> {0, 10, 13, 58} = {} \<and> normals t \<noteq> [] \<and> RootDir \<notin> set (components t)
     \<and> ParentDir \<notin> set (components t) \<and> component_stem ` set (normals t) \<inter> set dos_devices = {})"
  using valid_name_iff [of n] by (auto simp: valid_name_def Let_def disjoint_iff)

text \<open>
  C35. The path a snapshot entry is restored to consists of normal components only, whatever name the
  snapshot holds: joined to the target directory it cannot climb out of it.
\<close>

theorem restore_path_descends: "components (safe_relative_path name) = map Normal (normals name)"
  using safe_relative_path_components [of name] safe_relative_path_empty [of name]
  by (cases "safe_relative_path name = []") (simp_all add: components_def piece_components_def starts_with_iff)

end
