(* ===== verification/Oos_Engine.thy ===== *)
theory Oos_Engine
  imports Oos_Gc Oos_Wal Oos_Chunker Oos_Names
begin

text \<open>
  \<^verbatim>\<open>core/src/engine.rs\<close>: the storage engine over the segment store, the metadata tables and the redo
  log.  An operation is a function on the engine's state that returns the state it leaves, also when it
  fails.  The locks (\<^verbatim>\<open>put_lock\<close>, \<^verbatim>\<open>op_lock\<close>, \<^verbatim>\<open>gc_lock\<close>) make the operations that change state run one
  after the other; the operations below are those critical sections.  \<^verbatim>\<open>flush\<close> of the metadata store does
  nothing.  Files outside the store, which \<^verbatim>\<open>get\<close> and \<^verbatim>\<open>restore\<close> write, are a directory indexed by path.
\<close>

record 'db engine =
  eg_segments :: seg_store
  eg_db :: 'db
  eg_wal :: wal
  eg_vault_key :: "vault_key option"

section \<open>Calls on the parts\<close>

definition ask_db :: "('db \<Rightarrow> 'a result) \<Rightarrow> ('db engine, 'a) sm" where
  "ask_db f = (\<lambda>e. (e, f (eg_db e)))"

text \<open>A failed transaction is dropped and leaves the database as it was.\<close>

definition on_db :: "('db \<Rightarrow> ('db \<times> 'a) result) \<Rightarrow> ('db engine, 'a) sm" where
  "on_db f = (\<lambda>e. case f (eg_db e) of Inl err \<Rightarrow> (e, Inl err) | Inr (db', x) \<Rightarrow> (e\<lparr>eg_db := db'\<rparr>, Inr x))"

definition set_db :: "('db \<Rightarrow> 'db result) \<Rightarrow> ('db engine, unit) sm" where
  "set_db f = (\<lambda>e. case f (eg_db e) of Inl err \<Rightarrow> (e, Inl err) | Inr db' \<Rightarrow> (e\<lparr>eg_db := db'\<rparr>, Inr ()))"

definition on_wal :: "(wal, 'a) sm \<Rightarrow> ('db engine, 'a) sm" where
  "on_wal f = (\<lambda>e. case f (eg_wal e) of (w', r) \<Rightarrow> (e\<lparr>eg_wal := w'\<rparr>, r))"

definition on_segments :: "(seg_store, 'a) sm \<Rightarrow> ('db engine, 'a) sm" where
  "on_segments f = (\<lambda>e. case f (eg_segments e) of (s', r) \<Rightarrow> (e\<lparr>eg_segments := s'\<rparr>, r))"

section \<open>Applying a put to the tables\<close>

text \<open>Steps 3 to 5 of \<^verbatim>\<open>put_file_named\<close>, which the replay repeats: manifest, object record, name.\<close>

definition put_record :: "wal_put \<Rightarrow> rstring \<Rightarrow> object_record option \<Rightarrow> object_record option" where
  "put_record put mid r0 =
     (let r = (case r0 of
                 Some r \<Rightarrow> r
               | None \<Rightarrow> \<lparr>o_object_id = wp_object_id put, o_latest_version = wp_version put, o_versions = []\<rparr>)
      in if \<exists>v \<in> set (o_versions r). v_version v = wp_version put then None
         else Some (r\<lparr>o_latest_version := wp_version put,
           o_versions := o_versions r @
             [\<lparr>v_version = wp_version put, v_manifest_id = mid,
               v_created_at = m_created_at (wp_manifest put), v_size_bytes = m_total_size (wp_manifest put)\<rparr>]\<rparr>))"

definition apply_put :: "ext \<Rightarrow> 'db redb \<Rightarrow> wal_put \<Rightarrow> ('db engine, rstring) sm" where
  "apply_put X R put =
     bindS (on_db (\<lambda>db. save_manifest X R db (wp_manifest put))) (\<lambda>mid.
     bindS (ask_db (\<lambda>db. get_object R db (wp_object_id put))) (\<lambda>r0.
     bindS (case put_record put mid r0 of None \<Rightarrow> returnS () | Some r \<Rightarrow> set_db (\<lambda>db. put_object R db r)) (\<lambda>_.
     bindS (set_db (\<lambda>db. bind_name R db (wp_name put) (wp_object_id put))) (\<lambda>_.
     returnS mid))))"

section \<open>Opening and replay\<close>

text \<open>\<open>EV c\<close> is the clock and nonce the write of chunk \<open>c\<close> observes.\<close>

definition replay_chunk :: "ext \<Rightarrow> (chunk_id \<Rightarrow> env) \<Rightarrow> unit \<Rightarrow> chunk_id \<times> bytes \<Rightarrow> (seg_store, unit) sm" where
  "replay_chunk X EV u cd =
     (\<lambda>s. case cd of (c, data) \<Rightarrow>
        if data \<noteq> [] \<and> \<not> ss_has_chunk s c then
          (case ss_put_chunk X (EV c) s data of
             Inl err \<Rightarrow> (s, Inl err)
           | Inr (s', actual, _) \<Rightarrow>
               if actual \<noteq> c then (s', Inl (WalRecovery ''WAL chunk does not match its content hash''))
               else (s', Inr ()))
        else (s, Inr ()))"

definition replay_put :: "ext \<Rightarrow> 'db redb \<Rightarrow> (chunk_id \<Rightarrow> env) \<Rightarrow> wal_put \<Rightarrow> ('db engine, unit) sm" where
  "replay_put X R EV put =
     bindS (on_segments (foldS (replay_chunk X EV) () (wp_chunks put))) (\<lambda>_.
     bindS (on_segments (\<lambda>s. (s, ensure (\<forall>c \<in> set (m_chunks (wp_manifest put)). ss_has_chunk s c)
                                  (WalRecovery ''WAL manifest references missing durable chunk'')))) (\<lambda>_.
     bindS (apply_put X R put) (\<lambda>_. returnS ())))"

definition replay_record ::
    "ext \<Rightarrow> 'db redb \<Rightarrow> (chunk_id \<Rightarrow> env) \<Rightarrow> u64 \<Rightarrow> wal_record \<Rightarrow> ('db engine, u64) sm" where
  "replay_record X R EV mx r =
     bindS (case wr_payload r of PutObject put \<Rightarrow> replay_put X R EV put | Checkpoint _ \<Rightarrow> returnS ()) (\<lambda>_.
     returnS (if mx < wr_lsn r then wr_lsn r else mx))"

definition replay_wal :: "ext \<Rightarrow> 'db redb \<Rightarrow> (chunk_id \<Rightarrow> env) \<Rightarrow> ('db engine, unit) sm" where
  "replay_wal X R EV =
     bindS (\<lambda>e. (e, wal_read_uncheckpointed_records X (eg_wal e))) (\<lambda>rs.
     if rs = [] then returnS ()
     else
       bindS (\<lambda>e. foldS (replay_record X R EV) (wal_checkpoint_lsn (eg_wal e)) rs e) (\<lambda>mx.
       on_wal (\<lambda>w. (wal_checkpoint w mx, Inr ()))))"

text \<open>
  \<^verbatim>\<open>open_internal\<close>: the metadata database is given as \<^verbatim>\<open>MetadataStore::open\<close> returns it.
\<close>

definition open_internal ::
    "ext \<Rightarrow> 'db redb \<Rightarrow> env \<Rightarrow> (chunk_id \<Rightarrow> env) \<Rightarrow> seg_disk \<Rightarrow> 'db \<Rightarrow> wal_disk \<Rightarrow> vault_key option \<Rightarrow> 'db engine result" where
  "open_internal X R E EV sd db wd vk =
     bindE (ss_open X E sd 0 vk) (\<lambda>s.
     bindE (wal_open X wd vk) (\<lambda>w.
     case replay_wal X R EV \<lparr>eg_segments = s, eg_db = db, eg_wal = w, eg_vault_key = vk\<rparr> of
       (e, Inl err) \<Rightarrow> Inl err
     | (e, Inr _) \<Rightarrow> Inr e))"

section \<open>Storing a file\<close>

record fingerprint =
  fp_len :: u64
  fp_modified :: "(u64 \<times> u32) option"
  fp_identity :: "u64 \<times> u64"

text \<open>
  What one attempt to read the source file observes: the fingerprint of the opened handle, the blocks
  its reads return, the clock and nonce of each chunk write, and the fingerprints of the handle and of
  the path afterwards.
\<close>

record attempt =
  at_before :: fingerprint
  at_blocks :: "bytes list"
  at_env :: "nat \<Rightarrow> env"
  at_after_handle :: fingerprint
  at_after_path :: fingerprint

record source =
  src_exists :: bool
  src_attempt :: "nat \<Rightarrow> attempt"

definition MAX_STABLE_READ_ATTEMPTS :: nat where "MAX_STABLE_READ_ATTEMPTS = 3"

text \<open>The chunk loop: each chunk is stored, in order, and its id recorded.\<close>

fun put_chunks :: "ext \<Rightarrow> (env \<times> bytes) list \<Rightarrow> (seg_store, chunk_id list \<times> nat) sm" where
  "put_chunks X [] = returnS ([], 0)"
| "put_chunks X ((E, d) # eds) =
     bindS (\<lambda>s. case ss_put_chunk X E s d of Inl err \<Rightarrow> (s, Inl err) | Inr (s', c, is_new) \<Rightarrow> (s', Inr is_new)) (\<lambda>is_new.
     bindS (put_chunks X eds) (\<lambda>(cs, n).
     returnS (cid_from_data X d # cs, if is_new then Suc n else n)))"

definition with_envs :: "(nat \<Rightarrow> env) \<Rightarrow> bytes list \<Rightarrow> (env \<times> bytes) list" where
  "with_envs ev cs = zip (map ev [0..<length cs]) cs"

definition total_len :: "bytes list \<Rightarrow> u64" where
  "total_len cs = sum_list (map (\<lambda>c. word_of_nat (length c)) cs)"

text \<open>
  The read attempts.  \<open>None\<close> as a whole stands for a chunk loop that does not end; the inner \<open>None\<close> for
  a file that changed during every attempt.
\<close>

fun put_attempts ::
    "ext \<Rightarrow> attempt list \<Rightarrow> seg_store \<Rightarrow> (seg_store \<times> (chunk_id list \<times> u64 \<times> bytes \<times> nat) option result) option" where
  "put_attempts X [] s = Some (s, Inr None)"
| "put_attempts X (a # as) s =
     (case stream_chunks X (at_blocks a) of
        None \<Rightarrow> None
      | Some cs \<Rightarrow>
          (case put_chunks X (with_envs (at_env a) cs) s of
             (s', Inl err) \<Rightarrow> Some (s', Inl err)
           | (s', Inr (cids, new)) \<Rightarrow>
               if at_before a = at_after_handle a \<and> at_after_handle a = at_after_path a
                  \<and> total_len cs = fp_len (at_after_path a)
               then Some (s', Inr (Some (cids, total_len cs, blake3 X (concat cs), new)))
               else put_attempts X as s'))"

text \<open>The clock, process id, id counter and log nonce a put observes.\<close>

record put_env =
  pe_now :: u64
  pe_ts :: u64
  pe_pid :: u64
  pe_counter :: u64
  pe_nonce :: bytes

record put_summary =
  ps_object_id :: object_id
  ps_version :: u32
  ps_manifest_id :: rstring
  ps_total_bytes :: u64
  ps_chunk_count :: nat
  ps_new_chunks :: nat
  ps_dedup_chunks :: nat

definition max_version :: "object_record \<Rightarrow> u32" where
  "max_version r = foldr max (map v_version (o_versions r)) 0"

definition next_version :: "object_record \<Rightarrow> u32" where
  "next_version r = max (o_latest_version r) (max_version r) + 1"

definition put_target :: "'db redb \<Rightarrow> put_env \<Rightarrow> rstring \<Rightarrow> ('db engine, object_id \<times> u32) sm" where
  "put_target R P name =
     bindS (ask_db (\<lambda>db. resolve_name R db name)) (\<lambda>i.
     case i of
       None \<Rightarrow> returnS (fst (oid_generate (pe_ts P) (pe_pid P) (pe_counter P)), 1)
     | Some i \<Rightarrow>
         bindS (ask_db (\<lambda>db. get_object R db i)) (\<lambda>r.
         bindS (liftE (ok_or r (Internal ''Inconsistent state: Name points to non-existing Object''))) (\<lambda>r.
         returnS (i, next_version r))))"

definition put_commit ::
    "ext \<Rightarrow> 'db redb \<Rightarrow> put_env \<Rightarrow> rstring \<Rightarrow> chunk_id list \<times> u64 \<times> bytes \<times> nat \<Rightarrow> ('db engine, put_summary) sm" where
  "put_commit X R P name rd =
     (case rd of (cids, total_bytes, hash, new) \<Rightarrow>
      let m = manifest_new (pe_now P) cids total_bytes hash
      in bindS (put_target R P name) (\<lambda>(i, ver).
         let put = \<lparr>wp_name = name, wp_object_id = i, wp_version = ver, wp_manifest = m, wp_chunks = []\<rparr>
         in bindS (on_wal (\<lambda>w. wal_append_put_and_sync X (pe_nonce P) w put)) (\<lambda>lsn.
            bindS (apply_put X R put) (\<lambda>mid.
            bindS (on_wal (\<lambda>w. (wal_checkpoint w lsn, Inr ()))) (\<lambda>_.
            returnS \<lparr>ps_object_id = i, ps_version = ver, ps_manifest_id = mid, ps_total_bytes = total_bytes,
              ps_chunk_count = length (m_chunks m), ps_new_chunks = new,
              ps_dedup_chunks = length cids - new\<rparr>)))))"

definition put_file_named ::
    "ext \<Rightarrow> 'db redb \<Rightarrow> put_env \<Rightarrow> rstring \<Rightarrow> source \<Rightarrow> 'db engine \<Rightarrow> ('db engine \<times> put_summary result) option" where
  "put_file_named X R P name0 src e =
     (let name = trim name0
      in case validate_logical_name name of
           Inl err \<Rightarrow> Some (e, Inl err)
         | Inr _ \<Rightarrow>
             if \<not> src_exists src then Some (e, Inl (Io NotFound))
             else
               (case put_attempts X (map (src_attempt src) [1..<Suc MAX_STABLE_READ_ATTEMPTS]) (eg_segments e) of
                  None \<Rightarrow> None
                | Some (s', r) \<Rightarrow>
                    Some (bindS (liftE r) (\<lambda>rd.
                          bindS (liftE (ok_or rd (Io WouldBlock))) (put_commit X R P name))
                          (e\<lparr>eg_segments := s'\<rparr>))))"

end
