(* ===== verification/Oos_Engine_Ops.thy ===== *)
theory Oos_Engine_Ops
  imports Oos_Engine
begin

text \<open>
  \<^verbatim>\<open>core/src/engine.rs\<close>, second part: reading files back, snapshots, and the operations on names and
  version histories.
\<close>

section \<open>Reading\<close>

text \<open>The latest version of a record, if its manifest is stored.\<close>

definition latest_manifest :: "ext \<Rightarrow> 'db redb \<Rightarrow> 'db \<Rightarrow> object_id \<Rightarrow> manifest option result" where
  "latest_manifest X R db i =
     bindE (get_object R db i) (\<lambda>r.
     case r of None \<Rightarrow> Inr None | Some r \<Rightarrow> get_manifest X R db (rec_latest_manifest_id r))"

definition resolve_manifest :: "ext \<Rightarrow> 'db redb \<Rightarrow> 'db \<Rightarrow> rstring \<Rightarrow> manifest result" where
  "resolve_manifest X R db target0 =
     (let target = trim target0
      in bindE (resolve_name R db target) (\<lambda>i.
         bindE (case i of None \<Rightarrow> Inr None | Some i \<Rightarrow> latest_manifest X R db i) (\<lambda>m.
         case m of Some m \<Rightarrow> Inr m
         | None \<Rightarrow>
             bindE (case oid_from_str target of Inl _ \<Rightarrow> Inr None | Inr i \<Rightarrow> latest_manifest X R db i) (\<lambda>m.
             case m of Some m \<Rightarrow> Inr m
             | None \<Rightarrow>
                 bindE (get_manifest X R db target) (\<lambda>m.
                 case m of Some m \<Rightarrow> Inr m
                 | None \<Rightarrow> Inl (ObjectNotFound target))))))"

text \<open>
  The output is assembled in a temporary file, which is removed on every error and renamed over the
  destination only when the hash of the whole file is the manifest's.
\<close>

definition extract_manifest_to_file ::
    "ext \<Rightarrow> seg_store \<Rightarrow> manifest \<Rightarrow> rstring \<Rightarrow> rstring \<Rightarrow> (dir, u64) sm" where
  "extract_manifest_to_file X s m tmp out =
     (\<lambda>d. let d1 = dir_put d tmp []
          in case get_all (ss_get_chunk X s) (m_chunks m) of
               Inl err \<Rightarrow> (dir_del d1 tmp, Inl err)
             | Inr ds \<Rightarrow>
                 let d2 = dir_put d1 tmp (concat ds)
                 in if blake3 X (concat ds) \<noteq> m_content_hash m
                    then (dir_del d2 tmp, Inl (Internal ''Reconstructed file BLAKE3 mismatch''))
                    else (dir_rename d2 tmp out, Inr (total_len ds)))"

definition version_manifest :: "ext \<Rightarrow> 'db redb \<Rightarrow> 'db \<Rightarrow> rstring \<Rightarrow> u32 \<Rightarrow> manifest result" where
  "version_manifest X R db target v =
     bindE (resolve_name R db target) (\<lambda>i.
     bindE (case i of
              Some i \<Rightarrow> Inr i
            | None \<Rightarrow> map_err (\<lambda>_. ObjectNotFound target) (oid_from_str target)) (\<lambda>i.
     bindE (get_object R db i) (\<lambda>r.
     bindE (ok_or r (ObjectNotFound (oid_to_hex i))) (\<lambda>r.
     bindE (ok_or (find (\<lambda>x. v_version x = v) (o_versions r)) (ObjectNotFound target)) (\<lambda>x.
     bindE (get_manifest X R db (v_manifest_id x)) (\<lambda>m.
     ok_or m (Internal ''Manifest missing for version'')))))))"

definition get_file_version ::
    "ext \<Rightarrow> 'db redb \<Rightarrow> 'db engine \<Rightarrow> rstring \<Rightarrow> u32 option \<Rightarrow> rstring \<Rightarrow> rstring \<Rightarrow> (dir, u64) sm" where
  "get_file_version X R e target version tmp out =
     bindS (liftE (case version of
                     Some v \<Rightarrow> version_manifest X R (eg_db e) target v
                   | None \<Rightarrow> resolve_manifest X R (eg_db e) target)) (\<lambda>m.
     extract_manifest_to_file X (eg_segments e) m tmp out)"

definition get_file ::
    "ext \<Rightarrow> 'db redb \<Rightarrow> 'db engine \<Rightarrow> rstring \<Rightarrow> rstring \<Rightarrow> rstring \<Rightarrow> (dir, u64) sm" where
  "get_file X R e target tmp out = get_file_version X R e target None tmp out"

definition get_versions :: "'db redb \<Rightarrow> 'db engine \<Rightarrow> rstring \<Rightarrow> object_version list result" where
  "get_versions R e target0 =
     (let target = trim target0; db = eg_db e
      in bindE (resolve_name R db target) (\<lambda>i.
         bindE (case i of
                  Some i \<Rightarrow> Inr i
                | None \<Rightarrow> map_err (\<lambda>_. ObjectNotFound target) (oid_from_str target)) (\<lambda>i.
         bindE (get_object R db i) (\<lambda>r.
         bindE (ok_or r (ObjectNotFound (oid_to_hex i))) (\<lambda>r. Inr (o_versions r))))))"

definition list_files :: "'db redb \<Rightarrow> 'db engine \<Rightarrow> (rstring \<times> object_id \<times> object_record) list result" where
  "list_files R e = list_named_objects R (eg_db e)"

section \<open>Snapshots\<close>

definition snapshot_entries :: "(rstring \<times> object_id \<times> object_record) list \<Rightarrow> snapshot_entry list" where
  "snapshot_entries objs =
     concat (map (\<lambda>(name, i, r). case rec_latest r of
        None \<Rightarrow> []
      | Some v \<Rightarrow> [\<lparr>e_name = name, e_object_id = i, e_version = v_version v, e_manifest_id = v_manifest_id v,
                   e_size_bytes = v_size_bytes v\<rparr>]) objs)"

definition create_snapshot :: "ext \<Rightarrow> 'db redb \<Rightarrow> u64 \<Rightarrow> rstring \<Rightarrow> ('db engine, snapshot) sm" where
  "create_snapshot X R now label0 =
     (let label = trim label0
      in if label = [] then liftE (Inl (Internal ''Snapshot label cannot be empty''))
         else
           bindS (ask_db (\<lambda>db. get_snapshot X R db label)) (\<lambda>old.
           if old \<noteq> None then liftE (Inl (Internal ''Snapshot already exists''))
           else
             bindS (ask_db (list_named_objects R)) (\<lambda>objs.
             let snap = snapshot_new now label (snapshot_entries objs)
             in bindS (set_db (\<lambda>db. save_snapshot X R db snap)) (\<lambda>_. returnS snap))))"

definition eg_get_snapshot :: "ext \<Rightarrow> 'db redb \<Rightarrow> 'db engine \<Rightarrow> rstring \<Rightarrow> snapshot option result" where
  "eg_get_snapshot X R e label = get_snapshot X R (eg_db e) (trim label)"

definition eg_list_snapshots :: "ext \<Rightarrow> 'db redb \<Rightarrow> 'db engine \<Rightarrow> snapshot list result" where
  "eg_list_snapshots X R e = list_snapshots X R (eg_db e)"

text \<open>\<^verbatim>\<open>Path::join\<close> with a relative path.\<close>

definition path_join :: "rstring \<Rightarrow> rstring \<Rightarrow> rstring" where
  "path_join base rel = (if ends_with base [47] then base @ rel else base @ [47] @ rel)"

definition restore_entry ::
    "ext \<Rightarrow> 'db redb \<Rightarrow> 'db engine \<Rightarrow> rstring \<Rightarrow> (rstring \<Rightarrow> rstring) \<Rightarrow> unit \<Rightarrow> snapshot_entry \<Rightarrow> (dir, unit) sm" where
  "restore_entry X R e target_dir tmp u en =
     bindS (liftE (get_manifest X R (eg_db e) (e_manifest_id en))) (\<lambda>m.
     bindS (liftE (ok_or m (Internal ''Manifest not found for snapshot entry''))) (\<lambda>m.
     let rel = safe_relative_path (e_name en); out = path_join target_dir rel
     in if rel = [] then liftE (Inl (InvalidName (e_name en) ''Snapshot entry resolved to empty relative path''))
        else bindS (extract_manifest_to_file X (eg_segments e) m (tmp out) out) (\<lambda>_. returnS ())))"

definition restore_snapshot ::
    "ext \<Rightarrow> 'db redb \<Rightarrow> 'db engine \<Rightarrow> rstring \<Rightarrow> rstring \<Rightarrow> (rstring \<Rightarrow> rstring) \<Rightarrow> (dir, nat) sm" where
  "restore_snapshot X R e label0 target_dir tmp =
     (let label = trim label0
      in bindS (liftE (get_snapshot X R (eg_db e) label)) (\<lambda>snap.
         bindS (liftE (ok_or snap (SnapshotNotFound label))) (\<lambda>snap.
         if target_dir = []
         then liftE (Inl (InvalidName label ''Target directory for snapshot restore cannot be empty''))
         else bindS (foldS (restore_entry X R e target_dir tmp) () (s_entries snap)) (\<lambda>_.
              returnS (length (s_entries snap))))))"

definition eg_delete_snapshot :: "'db redb \<Rightarrow> rstring \<Rightarrow> ('db engine, bool) sm" where
  "eg_delete_snapshot R label = on_db (\<lambda>db. delete_snapshot R db (trim label))"

section \<open>Names\<close>

definition delete_file :: "'db redb \<Rightarrow> rstring \<Rightarrow> ('db engine, bool) sm" where
  "delete_file R name =
     bindS (on_db (\<lambda>db. delete_named_object R db (trim name))) (\<lambda>i. returnS (i \<noteq> None))"

definition delete_prefix :: "'db redb \<Rightarrow> rstring \<Rightarrow> ('db engine, nat) sm" where
  "delete_prefix R pre =
     bindS (ask_db (list_named_objects R)) (\<lambda>objs.
     foldS (\<lambda>n (name, _, _).
        if starts_with name pre
        then bindS (on_db (\<lambda>db. delete_named_object R db name)) (\<lambda>i. returnS (if i \<noteq> None then Suc n else n))
        else returnS n) 0 objs)"

definition unbind_file :: "'db redb \<Rightarrow> rstring \<Rightarrow> ('db engine, bool) sm" where
  "unbind_file R name = bindS (on_db (\<lambda>db. unbind_name R db (trim name))) (\<lambda>i. returnS (i \<noteq> None))"

definition rename_file :: "'db redb \<Rightarrow> rstring \<Rightarrow> rstring \<Rightarrow> ('db engine, bool) sm" where
  "rename_file R old new =
     bindS (liftE (validate_logical_name (trim new))) (\<lambda>_.
     on_db (\<lambda>db. rename_name_binding R db (trim old) (trim new)))"

text \<open>\<^verbatim>\<open>update_watched_prefix\<close>: the suffix of a name below \<open>from\<close>, and its new name.\<close>

definition strip_prefix :: "'a list \<Rightarrow> 'a list \<Rightarrow> 'a list option" where
  "strip_prefix p s = (if starts_with s p then Some (drop (length p) s) else None)"

definition watched_suffix :: "rstring \<Rightarrow> rstring \<Rightarrow> rstring option" where
  "watched_suffix from_name name =
     (if from_name = [] then Some name
      else if name = from_name then Some []
      else Option.bind (strip_prefix from_name name) (strip_prefix [47]))"

definition watched_target :: "rstring \<Rightarrow> rstring \<Rightarrow> rstring" where
  "watched_target pre suf =
     (if suf = [] then pre else if pre = [] then suf else pre @ [47] @ suf)"

fun watched_changes ::
    "rstring set \<Rightarrow> rstring \<Rightarrow> rstring option \<Rightarrow> (rstring \<Rightarrow> bool) \<Rightarrow> rstring list \<Rightarrow> (rstring \<times> rstring option) list result" where
  "watched_changes tracked from_name to_name incl [] = Inr []"
| "watched_changes tracked from_name to_name incl (name # names) =
     (case watched_suffix from_name name of
        None \<Rightarrow> watched_changes tracked from_name to_name incl names
      | Some suf \<Rightarrow>
          if to_name = None \<and> name \<notin> tracked then watched_changes tracked from_name to_name incl names
          else
            let target = (case to_name of
                            None \<Rightarrow> None
                          | Some p \<Rightarrow> (let t = watched_target p suf in if incl t then Some t else None))
            in bindE (case target of None \<Rightarrow> Inr () | Some t \<Rightarrow> validate_logical_name t) (\<lambda>_.
               bindE (watched_changes tracked from_name to_name incl names) (\<lambda>cs. Inr ((name, target) # cs))))"

definition update_watched_prefix ::
    "'db redb \<Rightarrow> rstring \<Rightarrow> rstring \<Rightarrow> rstring option \<Rightarrow> (rstring \<Rightarrow> bool)
       \<Rightarrow> ('db engine, (rstring \<times> rstring option) list) sm" where
  "update_watched_prefix R watch_root from_name to_name incl =
     bindS (ask_db (\<lambda>db. list_watcher_files R db watch_root)) (\<lambda>tracked.
     bindS (ask_db (list_named_objects R)) (\<lambda>objs.
     bindS (liftE (watched_changes (set tracked) from_name to_name incl (map fst objs))) (\<lambda>changes.
     bindS (on_db (\<lambda>db. update_watcher_bindings R db watch_root changes)) (\<lambda>_.
     returnS changes))))"

section \<open>Version histories\<close>

definition prune_file_versions :: "'db redb \<Rightarrow> rstring \<Rightarrow> nat \<Rightarrow> ('db engine, nat) sm" where
  "prune_file_versions R name keep_last_n =
     bindS (ask_db (\<lambda>db. resolve_name R db (trim name))) (\<lambda>i.
     case i of
       None \<Rightarrow> returnS 0
     | Some i \<Rightarrow>
         bindS (ask_db (\<lambda>db. get_object R db i)) (\<lambda>r.
         case r of
           None \<Rightarrow> returnS 0
         | Some r \<Rightarrow>
             if length (o_versions r) \<le> keep_last_n then returnS 0
             else
               let prune_count = length (o_versions r) - keep_last_n
               in bindS (set_db (\<lambda>db. put_object R db (r\<lparr>o_versions := drop prune_count (o_versions r)\<rparr>))) (\<lambda>_.
                  returnS prune_count)))"

definition prune_all :: "'db redb \<Rightarrow> nat \<Rightarrow> ('db engine, nat) sm" where
  "prune_all R keep_last_n =
     bindS (ask_db (list_named_objects R)) (\<lambda>files.
     foldS (\<lambda>n (name, _, _). bindS (prune_file_versions R name keep_last_n) (\<lambda>k. returnS (n + k))) 0 files)"

text \<open>The new version a rollback appends.\<close>

definition rollback_record :: "u64 \<Rightarrow> object_record \<Rightarrow> object_version \<Rightarrow> object_record" where
  "rollback_record now r x =
     r\<lparr>o_latest_version := next_version r,
       o_versions := o_versions r @
         [\<lparr>v_version = next_version r, v_manifest_id = v_manifest_id x, v_created_at = now,
           v_size_bytes = v_size_bytes x\<rparr>]\<rparr>"

definition rollback_commit ::
    "ext \<Rightarrow> 'db redb \<Rightarrow> u64 \<Rightarrow> rstring \<Rightarrow> u32 \<Rightarrow> ('db engine, u32 \<times> manifest) sm" where
  "rollback_commit X R now name target_version =
     bindS (ask_db (\<lambda>db. resolve_name R db name)) (\<lambda>i.
     bindS (liftE (ok_or i (ObjectNotFound name))) (\<lambda>i.
     bindS (ask_db (\<lambda>db. get_object R db i)) (\<lambda>r.
     bindS (liftE (ok_or r (ObjectNotFound (oid_to_hex i)))) (\<lambda>r.
     bindS (liftE (ok_or (find (\<lambda>x. v_version x = target_version) (o_versions r)) (ObjectNotFound name))) (\<lambda>x.
     bindS (ask_db (\<lambda>db. get_manifest X R db (v_manifest_id x))) (\<lambda>m.
     bindS (liftE (ok_or m (Internal ''Manifest missing for version''))) (\<lambda>m.
     bindS (set_db (\<lambda>db. put_object R db (rollback_record now r x))) (\<lambda>_.
     returnS (next_version r, m)))))))))"

definition rollback_file ::
    "ext \<Rightarrow> 'db redb \<Rightarrow> u64 \<Rightarrow> rstring \<Rightarrow> u32 \<Rightarrow> (rstring \<times> rstring) option \<Rightarrow> ('db engine \<times> dir, u32 \<times> u64) sm" where
  "rollback_file X R now name0 target_version out =
     (\<lambda>(e, d).
        let name = trim name0
        in case bindS (liftE (validate_logical_name name)) (\<lambda>_. rollback_commit X R now name target_version) e of
             (e', Inl err) \<Rightarrow> ((e', d), Inl err)
           | (e', Inr (ver, m)) \<Rightarrow>
               (case out of
                  None \<Rightarrow> ((e', d), Inr (ver, 0))
                | Some (tmp, path) \<Rightarrow>
                    (case extract_manifest_to_file X (eg_segments e') m tmp path d of
                       (d', Inl err) \<Rightarrow> ((e', d'), Inl err)
                     | (d', Inr n) \<Rightarrow> ((e', d'), Inr (ver, n)))))"

definition eg_gc :: "ext \<Rightarrow> 'db redb \<Rightarrow> env \<Rightarrow> (chunk_id \<Rightarrow> env) \<Rightarrow> rstring \<Rightarrow> ('db engine, gc_stats) sm" where
  "eg_gc X R E EC tmp =
     (\<lambda>e. case gc_collect X R E EC tmp (eg_segments e, eg_db e) of
            ((s', db'), r) \<Rightarrow> (e\<lparr>eg_segments := s', eg_db := db'\<rparr>, r))"

end
