(* ===== verification/Oos_Engine_Inv.thy ===== *)
theory Oos_Engine_Inv
  imports Oos_Engine_Ops
begin

text \<open>
  The integrity invariant of the engine.  \<open>U\<close> is the set of chunk contents ever stored; BLAKE3 is assumed
  not to collide on it.  Every manifest that an object version or a snapshot refers to is stored and
  describes data of \<open>U\<close> with the manifest's hash, and all its chunks are in the segment store; records of
  the redo log describe such data too.
\<close>

section \<open>The invariant\<close>

definition described :: "ext \<Rightarrow> bytes set \<Rightarrow> manifest \<Rightarrow> bool" where
  "described X U m \<longleftrightarrow> (\<exists>ds. set ds \<subseteq> U \<and> map (cid_from_data X) ds = m_chunks m
     \<and> blake3 X (concat ds) = m_content_hash m \<and> total_len ds = m_total_size m)"

definition seg_ok :: "ext \<Rightarrow> bytes set \<Rightarrow> seg_store \<Rightarrow> bool" where
  "seg_ok X U s \<longleftrightarrow> (\<exists>log. seg_log_inv X s log) \<and> (\<forall>c d. ss_get_chunk X s c = Inr d \<longrightarrow> d \<in> U)"

definition good_mid :: "ext \<Rightarrow> bytes set \<Rightarrow> tables \<Rightarrow> (chunk_id \<Rightarrow> bool) \<Rightarrow> rstring \<Rightarrow> bool" where
  "good_mid X U T has mid \<longleftrightarrow>
     (\<exists>m. stored_manifest X T mid m \<and> described X U m \<and> (\<forall>c \<in> set (m_chunks m). has c))"

definition live_ok :: "ext \<Rightarrow> bytes set \<Rightarrow> tables \<Rightarrow> (chunk_id \<Rightarrow> bool) \<Rightarrow> bool" where
  "live_ok X U T has \<longleftrightarrow> (\<forall>mid \<in> live_manifests X T. good_mid X U T has mid)"

definition good_put :: "ext \<Rightarrow> bytes set \<Rightarrow> wal_put \<Rightarrow> bool" where
  "good_put X U put \<longleftrightarrow> wp_chunks put = [] \<and> wf_oid (wp_object_id put) \<and> wf_manifest (wp_manifest put)
     \<and> described X U (wp_manifest put)"

definition good_wal :: "ext \<Rightarrow> bytes set \<Rightarrow> wal \<Rightarrow> (bytes \<times> wal_record) list \<Rightarrow> bool" where
  "good_wal X U w es \<longleftrightarrow> wal_inv X w es
     \<and> (\<forall>(b, r) \<in> set es. \<forall>put. wr_payload r = PutObject put \<longrightarrow> good_put X U put)"

text \<open>Every object record is stored under its own id.\<close>

definition keys_ok :: "tables \<Rightarrow> bool" where
  "keys_ok T \<longleftrightarrow> (\<forall>k b r. T OBJECT_INDEX k = Some b \<longrightarrow> rec_from_bytes b = Inr r \<longrightarrow> oid_bytes (o_object_id r) = k)"

definition eng_inv :: "ext \<Rightarrow> 'db view \<Rightarrow> bytes set \<Rightarrow> 'db engine \<Rightarrow> bool" where
  "eng_inv X V U e \<longleftrightarrow> ext_ok X \<and> collision_free X U \<and> seg_ok X U (eg_segments e)
     \<and> live_ok X U (V (eg_db e)) (ss_has_chunk (eg_segments e))
     \<and> (\<exists>es. good_wal X U (eg_wal e) es) \<and> keys_ok (V (eg_db e))
     \<and> ss_vault_key (eg_segments e) = eg_vault_key e \<and> wal_vault_key (eg_wal e) = eg_vault_key e"

text \<open>
  Capacity: \<open>n\<close> more versions fit the 32-bit count of every stored and every new record.
\<close>

definition room :: "tables \<Rightarrow> nat \<Rightarrow> bool" where
  "room T n \<longleftrightarrow> n < 2 ^ 32 \<and> (\<forall>k b r. T OBJECT_INDEX k = Some b \<longrightarrow> rec_from_bytes b = Inr r \<longrightarrow> length (o_versions r) + n < 2 ^ 32)"

section \<open>Chunks\<close>

lemma seg_ok_inv: "seg_ok X U s \<Longrightarrow> ext_ok X \<Longrightarrow> seg_invar X s"
  by (auto simp: seg_ok_def seg_invar_def intro: seg_log_ss_inv)

text \<open>A put only adds the chunk put: everything readable afterwards is old or the new data.\<close>

lemma ss_put_chunk_reads:
  assumes inv: "seg_invar X s" and E: "env_ok E" "storable d" and put: "ss_put_chunk X E s d = Inr (s', c, b)"
    and get: "ss_get_chunk X s' c' = Inr d'"
  shows "ss_get_chunk X s c' = Inr d' \<or> d' = d"
proof (cases "ss_has_chunk s c'")
  case True
  then obtain d0 where "ss_get_chunk X s c' = Inr d0" using seg.has_get [OF inv] by auto
  with seg.put_keeps [OF inv E put this] get show ?thesis by simp
next
  case False
  have "ss_has_chunk s' c'" using seg.has_get [OF seg.put_invar [OF inv E put]] get by auto
  with False have c': "c' = c" using seg.put_has [OF put] by simp
  show ?thesis
  proof (cases b)
    case True
    with put have "ss_put_chunk X E s d = Inr (s', c, True)" by simp
    from seg.put_new [OF inv E this] get c' show ?thesis by simp
  next
    case b: False
    with put have "ss_put_chunk X E s d = Inr (s', c, False)" by simp
    then have "ss_has_chunk s c" using seg.put_old by blast
    with False c' show ?thesis by simp
  qed
qed

lemma ss_put_chunk_mono:
  assumes inv: "seg_invar X s" and put: "ss_put_chunk X E s d = Inr (s', c, b)"
  shows "w_segment_id (ss_writer s) \<le> w_segment_id (ss_writer s')" "ss_vault_key s' = ss_vault_key s"
proof -
  have w: "w_inv (ss_files s) (ss_writer s)" using inv by (simp add: seg_invar_def ss_inv_def)
  from put show "w_segment_id (ss_writer s) \<le> w_segment_id (ss_writer s')"
    by (auto simp: ss_put_chunk_def Let_def bindE_eq_Inr dest: sw_append_mono [OF w] split: if_splits)
  from put show "ss_vault_key s' = ss_vault_key s"
    by (auto simp: ss_put_chunk_def Let_def bindE_eq_Inr split: if_splits)
qed

lemma ss_put_chunk_seg_ok:
  assumes ok: "seg_ok X U s" and X: "ext_ok X" and E: "env_ok E" "storable d" and d: "d \<in> U"
    and put: "ss_put_chunk X E s d = Inr (s', c, b)" and bnd: "w_segment_id (ss_writer s') < 2 ^ 64"
  shows "seg_ok X U s'"
proof -
  obtain log where log: "seg_log_inv X s log" using ok by (auto simp: seg_ok_def)
  have "\<exists>log'. seg_log_inv X s' log'"
    using put
  proof (cases rule: ss_put_chunk_cases)
    case new
    obtain d' w' idx' loc where a: "c = cid_from_data X d"
      "sw_append X E (ss_files s) (ss_writer s) (ss_index s) c d = Inr (d', w', idx', loc)"
      "s' = s\<lparr>ss_files := d', ss_index := idx', ss_writer := w'\<rparr>"
      by (rule ss_put_chunk_new [OF new(3) TrueI])
    have l: "sw_log X (ss_files s) (ss_writer s) (ss_index s) log" "w_vault_key (ss_writer s) = ss_vault_key s"
      using log by (auto simp: seg_log_inv_def)
    obtain log' where "sw_log X d' w' idx' log'"
      by (rule sw_append_log [OF l(1) a(2) X E(1) a(1) E(2)]) (use bnd a(3) in simp)
    moreover have "w_vault_key w' = w_vault_key (ss_writer s)"
      using sw_append_spec(3) [OF a(2) _ X E(1) a(1)] l(1) by (simp add: sw_log_def)
    ultimately have "seg_log_inv X s' log'" using a(3) l(2) by (simp add: seg_log_inv_def)
    then show ?thesis by blast
  qed (use log in auto)
  then show ?thesis
    using ss_put_chunk_reads [OF seg_ok_inv [OF ok X] E put] ok d unfolding seg_ok_def by metis
qed

text \<open>The chunk loop, whether it completes or fails.\<close>

lemma put_chunks_mono:
  "put_chunks X eds s = (s', r) \<Longrightarrow> seg_invar X s \<Longrightarrow> \<forall>(E, d) \<in> set eds. env_ok E \<and> storable d
   \<Longrightarrow> seg_invar X s' \<and> w_segment_id (ss_writer s) \<le> w_segment_id (ss_writer s') \<and> ss_vault_key s' = ss_vault_key s"
proof (induction X eds arbitrary: s r rule: put_chunks.induct)
  case (2 X E d eds)
  show ?case
  proof (cases "ss_put_chunk X E s d")
    case (Inl err)
    then show ?thesis using "2.prems"(1,2) by (auto simp: bindS_def)
  next
    case (Inr res)
    obtain s1 c b where p: "ss_put_chunk X E s d = Inr (s1, c, b)" using Inr by (cases res) auto
    obtain r1 where rest: "put_chunks X eds s1 = (s', r1)"
      using "2.prems"(1) by (auto simp: bindS_def p split: prod.splits sum.splits)
    have "seg_invar X s1" using seg.put_invar [OF "2.prems"(2) _ _ p] "2.prems"(3) by simp
    from "2.IH" [OF rest this] "2.prems"(3) ss_put_chunk_mono [OF "2.prems"(2) p] show ?thesis by auto
  qed
qed simp

lemma put_chunks_ok:
  "put_chunks X eds s = (s', r) \<Longrightarrow> seg_ok X U s \<Longrightarrow> ext_ok X
   \<Longrightarrow> \<forall>(E, d) \<in> set eds. env_ok E \<and> storable d \<and> d \<in> U \<Longrightarrow> w_segment_id (ss_writer s') < 2 ^ 64
   \<Longrightarrow> seg_ok X U s' \<and> (\<forall>c. ss_has_chunk s c \<longrightarrow> ss_has_chunk s' c)
     \<and> (\<forall>cs n. r = Inr (cs, n) \<longrightarrow> cs = map (cid_from_data X \<circ> snd) eds \<and> (\<forall>c \<in> set cs. ss_has_chunk s' c))"
proof (induction X eds arbitrary: s r rule: put_chunks.induct)
  case (2 X E d eds)
  have inv: "seg_invar X s" by (rule seg_ok_inv [OF "2.prems"(2,3)])
  have ed: "env_ok E" "storable d" "d \<in> U" and eds: "\<forall>(E, d) \<in> set eds. env_ok E \<and> storable d \<and> d \<in> U"
    using "2.prems"(4) by auto
  show ?case
  proof (cases "ss_put_chunk X E s d")
    case (Inl err)
    then show ?thesis using "2.prems"(1,2) by (auto simp: bindS_def)
  next
    case (Inr res)
    obtain s1 c b where p: "ss_put_chunk X E s d = Inr (s1, c, b)" using Inr by (cases res) auto
    obtain r1 where rest: "put_chunks X eds s1 = (s', r1)"
      and r: "r = (case r1 of Inl e \<Rightarrow> Inl e | Inr (cs, n) \<Rightarrow> Inr (cid_from_data X d # cs, if b then Suc n else n))"
      using "2.prems"(1) by (auto simp: bindS_def p split: prod.splits sum.splits)
    have inv1: "seg_invar X s1" by (rule seg.put_invar [OF inv ed(1,2) p])
    have "w_segment_id (ss_writer s1) < 2 ^ 64"
      using put_chunks_mono [OF rest inv1] eds "2.prems"(5) by fastforce
    then have ok1: "seg_ok X U s1" by (rule ss_put_chunk_seg_ok [OF "2.prems"(2,3) ed p])
    note IH = "2.IH" [OF rest ok1 "2.prems"(3) eds "2.prems"(5)]
    have "c = cid_from_data X d" by (rule seg.put_id [OF p])
    then have "ss_has_chunk s1 (cid_from_data X d)" "\<And>c. ss_has_chunk s c \<Longrightarrow> ss_has_chunk s1 c"
      using seg.put_has [OF p] by auto
    with IH show ?thesis by (cases r1) (auto simp: r)
  qed
qed simp

section \<open>Read attempts\<close>

definition attempt_ok :: "ext \<Rightarrow> bytes set \<Rightarrow> attempt \<Rightarrow> bool" where
  "attempt_ok X U a \<longleftrightarrow> (\<forall>i. env_ok (at_env a i)) \<and> (\<forall>cs. stream_chunks X (at_blocks a) = Some cs \<longrightarrow> set cs \<subseteq> U)"

lemma stream_chunks_storable:
  assumes "fastcdc_ok X" "stream_chunks X blocks = Some cs" "c \<in> set cs"
  shows "storable c"
proof -
  have "length c \<le> MAX_CHUNK_SIZE" using stream_chunks_spec [OF assms(1), of blocks] assms(2,3) by auto
  then show ?thesis by (simp add: storable_def MAX_CHUNK_SIZE_def DEFAULT_MAX_SEGMENT_SIZE_def)
qed

lemma with_envs_snd [simp]: "map snd (with_envs ev cs) = cs"
  by (simp add: with_envs_def)

lemma with_envs_ok:
  assumes "fastcdc_ok X" "attempt_ok X U a" "stream_chunks X (at_blocks a) = Some cs"
  shows "\<forall>(E, d) \<in> set (with_envs (at_env a) cs). env_ok E \<and> storable d \<and> d \<in> U"
proof -
  have "\<forall>d \<in> set cs. storable d \<and> d \<in> U"
    using assms(2,3) stream_chunks_storable [OF assms(1,3)] by (auto simp: attempt_ok_def)
  moreover have "\<forall>i. env_ok (at_env a i)" using assms(2) by (simp add: attempt_ok_def)
  ultimately show ?thesis by (fastforce simp: with_envs_def in_set_zip)
qed

text \<open>The chunks of a stable read: what the summary reports is described by them.\<close>

definition read_of :: "ext \<Rightarrow> bytes set \<Rightarrow> (chunk_id \<Rightarrow> bool) \<Rightarrow> chunk_id list \<times> u64 \<times> bytes \<times> nat \<Rightarrow> bytes list \<Rightarrow> bool" where
  "read_of X U has rd cs \<longleftrightarrow> set cs \<subseteq> U \<and> fst rd = map (cid_from_data X) cs \<and> (\<forall>c \<in> set (fst rd). has c)
     \<and> fst (snd rd) = total_len cs \<and> fst (snd (snd rd)) = blake3 X (concat cs)"

definition stable_attempt :: "attempt \<Rightarrow> bytes list \<Rightarrow> bool" where
  "stable_attempt a cs \<longleftrightarrow> at_before a = at_after_handle a \<and> at_after_handle a = at_after_path a
     \<and> total_len cs = fp_len (at_after_path a)"

lemma put_attempts_mono:
  "put_attempts X as s = Some (s', r) \<Longrightarrow> seg_invar X s \<Longrightarrow> fastcdc_ok X \<Longrightarrow> list_all (attempt_ok X U) as
   \<Longrightarrow> seg_invar X s' \<and> w_segment_id (ss_writer s) \<le> w_segment_id (ss_writer s') \<and> ss_vault_key s' = ss_vault_key s"
proof (induction X as s arbitrary: r rule: put_attempts.induct)
  case (2 X a as s)
  obtain cs where cs: "stream_chunks X (at_blocks a) = Some cs"
    using "2.prems"(1) by (auto split: option.splits)
  obtain s1 r1 where p: "put_chunks X (with_envs (at_env a) cs) s = (s1, r1)" by fastforce
  have "\<forall>(E, d) \<in> set (with_envs (at_env a) cs). env_ok E \<and> storable d"
    using with_envs_ok [OF "2.prems"(3) _ cs] "2.prems"(4) by fastforce
  note m = put_chunks_mono [OF p "2.prems"(2) this]
  show ?case
  proof (cases "s' = s1")
    case False
    then obtain cids new where r1: "r1 = Inr (cids, new)"
      "\<not> (at_before a = at_after_handle a \<and> at_after_handle a = at_after_path a \<and> total_len cs = fp_len (at_after_path a))"
      and rest: "put_attempts X as s1 = Some (s', r)"
      using "2.prems"(1) by (auto simp: cs p split: sum.splits if_splits)
    from "2.IH" [OF cs p [symmetric] r1(1) refl r1(2) rest] m "2.prems"(3,4) show ?thesis by auto
  qed (use m in simp)
qed simp

lemma put_attempts_ok:
  "put_attempts X as s = Some (s', r) \<Longrightarrow> seg_ok X U s \<Longrightarrow> ext_ok X \<Longrightarrow> fastcdc_ok X
   \<Longrightarrow> list_all (attempt_ok X U) as \<Longrightarrow> w_segment_id (ss_writer s') < 2 ^ 64
   \<Longrightarrow> seg_ok X U s' \<and> (\<forall>c. ss_has_chunk s c \<longrightarrow> ss_has_chunk s' c)
     \<and> (\<forall>rd. r = Inr (Some rd) \<longrightarrow> (\<exists>a \<in> set as. \<exists>cs. stream_chunks X (at_blocks a) = Some cs
          \<and> read_of X U (ss_has_chunk s') rd cs \<and> stable_attempt a cs))"
proof (induction X as s arbitrary: r rule: put_attempts.induct)
  case (2 X a as s)
  obtain cs where cs: "stream_chunks X (at_blocks a) = Some cs"
    using "2.prems"(1) by (auto split: option.splits)
  obtain s1 r1 where p: "put_chunks X (with_envs (at_env a) cs) s = (s1, r1)" by fastforce
  have eds: "\<forall>(E, d) \<in> set (with_envs (at_env a) cs). env_ok E \<and> storable d \<and> d \<in> U"
    using with_envs_ok [OF "2.prems"(4) _ cs] "2.prems"(5) by simp
  have csU: "set cs \<subseteq> U" using "2.prems"(5) cs by (auto simp: attempt_ok_def)
  have ids: "map (cid_from_data X \<circ> snd) (with_envs (at_env a) cs) = map (cid_from_data X) cs"
    by (simp flip: map_map)
  have inv1: "seg_invar X s1"
    using put_chunks_mono [OF p seg_ok_inv [OF "2.prems"(2,3)]] eds by fastforce
  show ?case
  proof (cases "(\<exists>rd. (s1, r1) = (s', Inr rd) \<and> r = Inr (Some (fst rd, total_len cs, blake3 X (concat cs), snd rd)) \<and> stable_attempt a cs)
      \<or> (\<exists>err. (s1, r1) = (s', Inl err) \<and> r = Inl err)")
    case True
    have "w_segment_id (ss_writer s1) < 2 ^ 64" using True "2.prems"(6) by auto
    from put_chunks_ok [OF p "2.prems"(2,3) eds this] True csU cs show ?thesis
      by (auto simp: read_of_def ids)
  next
    case False
    then obtain cids new where r1: "r1 = Inr (cids, new)"
      "\<not> (at_before a = at_after_handle a \<and> at_after_handle a = at_after_path a \<and> total_len cs = fp_len (at_after_path a))"
      and rest: "put_attempts X as s1 = Some (s', r)"
      using "2.prems"(1) by (auto simp: cs p stable_attempt_def split: sum.splits if_splits)
    have as: "list_all (attempt_ok X U) as" using "2.prems"(5) by simp
    have "w_segment_id (ss_writer s1) < 2 ^ 64"
      using put_attempts_mono [OF rest inv1 "2.prems"(4) as] "2.prems"(6) by simp
    from put_chunks_ok [OF p "2.prems"(2,3) eds this]
    have ok1: "seg_ok X U s1" "\<And>c. ss_has_chunk s c \<Longrightarrow> ss_has_chunk s1 c" by auto
    from "2.IH" [OF cs p [symmetric] r1(1) refl r1(2) rest ok1(1) "2.prems"(3,4) as "2.prems"(6)] ok1(2)
    show ?thesis by fastforce
  qed
qed simp

end
