(* ===== verification/Oos_Engine_Tables.thy ===== *)
theory Oos_Engine_Tables
  imports Oos_Engine_Inv
begin

text \<open>
  What the engine's changes of single table entries do to the integrity invariant, and the effect of a
  put on the tables as a function, \<open>put_tables\<close>, with the fact that repeating it changes nothing.
\<close>

definition db_ok :: "ext \<Rightarrow> bytes set \<Rightarrow> (chunk_id \<Rightarrow> bool) \<Rightarrow> tables \<Rightarrow> bool" where
  "db_ok X U has T \<longleftrightarrow> live_ok X U T has \<and> keys_ok T"

section \<open>The live manifests under a change of one entry\<close>

definition snapshot_manifests :: "ext \<Rightarrow> bytes \<Rightarrow> rstring set" where
  "snapshot_manifests X b = {e_manifest_id en | s en. snapshot_from_bytes X b = Inr s \<and> en \<in> set (s_entries s)}"

lemma live_iff:
  "mid \<in> live_manifests X T \<longleftrightarrow>
   (\<exists>k b. T OBJECT_INDEX k = Some b \<and> mid \<in> object_manifests b)
   \<or> (\<exists>k b. T SNAPSHOTS k = Some b \<and> mid \<in> snapshot_manifests X b)"
  unfolding live_manifests_def object_manifests_def snapshot_manifests_def by blast

lemma object_manifests_rec: "rec_from_bytes b = Inr r \<Longrightarrow> object_manifests b = v_manifest_id ` set (o_versions r)"
  by (auto simp: object_manifests_def)

lemma snapshot_manifests_snap:
  "snapshot_from_bytes X b = Inr s \<Longrightarrow> snapshot_manifests X b = e_manifest_id ` set (s_entries s)"
  by (auto simp: snapshot_manifests_def)

lemma live_other: "t \<noteq> OBJECT_INDEX \<Longrightarrow> t \<noteq> SNAPSHOTS \<Longrightarrow> live_manifests X (set_entry T t k v) = live_manifests X T"
  by (simp add: live_manifests_def)

lemma live_object: "v \<in> set (o_versions r) \<Longrightarrow> T OBJECT_INDEX k = Some b \<Longrightarrow> rec_from_bytes b = Inr r
  \<Longrightarrow> v_manifest_id v \<in> live_manifests X T"
  unfolding live_iff using object_manifests_rec [of b r] by blast

lemma live_snapshot: "en \<in> set (s_entries s) \<Longrightarrow> T SNAPSHOTS k = Some b \<Longrightarrow> snapshot_from_bytes X b = Inr s
  \<Longrightarrow> e_manifest_id en \<in> live_manifests X T"
  unfolding live_iff using snapshot_manifests_snap [of X b s] by blast

lemma live_set:
  assumes "mid \<in> live_manifests X (set_entry T t k v)"
  shows "mid \<in> live_manifests X T \<or> (\<exists>b. v = Some b \<and>
    (t = OBJECT_INDEX \<and> mid \<in> object_manifests b \<or> t = SNAPSHOTS \<and> mid \<in> snapshot_manifests X b))"
  using assms unfolding live_iff set_entry_apply by (metis option.distinct(1))

lemma live_remove: "live_manifests X (set_entry T t k None) \<subseteq> live_manifests X T"
  using live_set [of _ X T t k None] by blast

lemma live_put_object:
  assumes "wf_record r"
  shows "live_manifests X (set_entry T OBJECT_INDEX k (Some (rec_to_bytes r)))
    \<subseteq> live_manifests X T \<union> v_manifest_id ` set (o_versions r)"
  using live_set [of _ X T OBJECT_INDEX k "Some (rec_to_bytes r)"]
    object_manifests_rec [OF rec_from_to_bytes [OF assms]] by blast

lemma live_put_snapshot:
  assumes "wf_snapshot s"
  shows "live_manifests X (set_entry T SNAPSHOTS k (Some (snapshot_to_bytes X s)))
    \<subseteq> live_manifests X T \<union> e_manifest_id ` set (s_entries s)"
  using live_set [of _ X T SNAPSHOTS k "Some (snapshot_to_bytes X s)"]
    snapshot_manifests_snap [OF snapshot_from_to_bytes [OF assms, of X]] by blast

lemma stored_other: "t \<noteq> MANIFESTS \<Longrightarrow> stored_manifest X (set_entry T t k v) mid m \<longleftrightarrow> stored_manifest X T mid m"
  by (simp add: stored_manifest_def)

lemma good_mid_other: "t \<noteq> MANIFESTS \<Longrightarrow> good_mid X U (set_entry T t k v) has mid \<longleftrightarrow> good_mid X U T has mid"
  by (simp add: good_mid_def stored_other)

lemma good_mid_has: "good_mid X U T has mid \<Longrightarrow> (\<And>c. has c \<Longrightarrow> has' c) \<Longrightarrow> good_mid X U T has' mid"
  by (auto simp: good_mid_def)

section \<open>Preservation\<close>

lemma db_ok_more: "db_ok X U has T \<Longrightarrow> (\<And>c. has c \<Longrightarrow> has' c) \<Longrightarrow> db_ok X U has' T"
  by (auto simp: db_ok_def live_ok_def intro: good_mid_has)

lemma db_ok_other:
  "t \<noteq> OBJECT_INDEX \<Longrightarrow> t \<noteq> SNAPSHOTS \<Longrightarrow> t \<noteq> MANIFESTS \<Longrightarrow> db_ok X U has T \<Longrightarrow> db_ok X U has (set_entry T t k v)"
  by (simp add: db_ok_def live_ok_def keys_ok_def live_other good_mid_other)

lemma db_ok_remove:
  assumes "t \<noteq> MANIFESTS" "db_ok X U has T"
  shows "db_ok X U has (set_entry T t k None)"
proof -
  have "keys_ok (set_entry T t k None)"
    using assms(2) by (auto simp: db_ok_def keys_ok_def set_entry_apply split: if_splits)
  then show ?thesis
    using assms live_remove [of X T t k] by (auto simp: db_ok_def live_ok_def good_mid_other)
qed

lemma db_ok_manifest:
  assumes "db_ok X U has T" "wf_manifest m" "described X U m" "\<forall>c \<in> set (m_chunks m). has c"
  shows "db_ok X U has (set_entry T MANIFESTS mid (Some (manifest_to_bytes X m)))"
proof -
  have st: "stored_manifest X (set_entry T MANIFESTS mid (Some (manifest_to_bytes X m))) k m' \<longleftrightarrow>
      (if k = mid then m' = m else stored_manifest X T k m')" for k m'
    using manifest_from_to_bytes [OF assms(2), of X] by (auto simp: stored_manifest_def set_entry_apply)
  have "good_mid X U (set_entry T MANIFESTS mid (Some (manifest_to_bytes X m))) has k" if "good_mid X U T has k" for k
    using that assms(3,4) unfolding good_mid_def st by (cases "k = mid") auto
  then show ?thesis
    using assms(1) by (simp add: db_ok_def live_ok_def keys_ok_def live_other)
qed

lemma db_ok_object:
  assumes "db_ok X U has T" "wf_record r" "\<forall>v \<in> set (o_versions r). good_mid X U T has (v_manifest_id v)"
  shows "db_ok X U has (set_entry T OBJECT_INDEX (oid_bytes (o_object_id r)) (Some (rec_to_bytes r)))"
proof -
  let ?T = "set_entry T OBJECT_INDEX (oid_bytes (o_object_id r)) (Some (rec_to_bytes r))"
  have "keys_ok ?T"
    using assms(1) rec_from_to_bytes [OF assms(2)] by (auto simp: db_ok_def keys_ok_def set_entry_apply)
  moreover have "live_ok X U ?T has"
    using assms(1,3) live_put_object [OF assms(2), of X T "oid_bytes (o_object_id r)"]
    by (auto simp: db_ok_def live_ok_def good_mid_other)
  ultimately show ?thesis by (simp add: db_ok_def)
qed

lemma db_ok_snapshot:
  assumes "db_ok X U has T" "wf_snapshot s" "\<forall>en \<in> set (s_entries s). good_mid X U T has (e_manifest_id en)"
  shows "db_ok X U has (set_entry T SNAPSHOTS k (Some (snapshot_to_bytes X s)))"
proof -
  have "keys_ok (set_entry T SNAPSHOTS k (Some (snapshot_to_bytes X s)))"
    using assms(1) by (simp add: db_ok_def keys_ok_def)
  then show ?thesis
    using assms(1,3) live_put_snapshot [OF assms(2), of X T k] by (auto simp: db_ok_def live_ok_def good_mid_other)
qed

section \<open>The effect of a put\<close>

text \<open>The tables after the manifest, after the record and after the name are written.\<close>

definition put_manifest_table :: "ext \<Rightarrow> wal_put \<Rightarrow> tables \<Rightarrow> tables" where
  "put_manifest_table X put T = set_entry T MANIFESTS (content_id (wp_manifest put)) (Some (manifest_to_bytes X (wp_manifest put)))"

definition put_object_table :: "wal_put \<Rightarrow> tables \<Rightarrow> tables" where
  "put_object_table put T =
     (case decode_value rec_from_bytes (T OBJECT_INDEX (oid_bytes (wp_object_id put))) of
        Inl _ \<Rightarrow> T
      | Inr r0 \<Rightarrow>
          (case put_record put (content_id (wp_manifest put)) r0 of
             None \<Rightarrow> T
           | Some r \<Rightarrow> set_entry T OBJECT_INDEX (oid_bytes (o_object_id r)) (Some (rec_to_bytes r))))"

definition put_name_table :: "wal_put \<Rightarrow> tables \<Rightarrow> tables" where
  "put_name_table put T = set_entry T NAME_INDEX (wp_name put) (Some (oid_bytes (wp_object_id put)))"

definition put_tables :: "ext \<Rightarrow> wal_put \<Rightarrow> tables \<Rightarrow> tables" where
  "put_tables X put T = put_name_table put (put_object_table put (put_manifest_table X put T))"

lemma put_object_table_MANIFESTS [simp]: "t \<noteq> OBJECT_INDEX \<Longrightarrow> put_object_table put T t = T t"
  by (simp add: put_object_table_def split: sum.splits option.splits)

lemma put_object_table_cong:
  "put_object_table put (set_entry T t k v) = set_entry (put_object_table put T) t k v" if "t \<noteq> OBJECT_INDEX"
proof -
  have "set_entry (set_entry T t k v) OBJECT_INDEX k' v' = set_entry (set_entry T OBJECT_INDEX k' v') t k v" for k' v'
    using that by (auto simp: set_entry_def)
  then show ?thesis using that by (simp add: put_object_table_def split: sum.splits option.splits)
qed

text \<open>The object a put writes to: its record is well formed, stored under its own id and has room.\<close>

lemma put_record_SomeD:
  assumes "put_record put mid r0 = Some r"
  shows "\<exists>v. o_versions r = (case r0 of None \<Rightarrow> [] | Some r1 \<Rightarrow> o_versions r1) @ [v] \<and> v_version v = wp_version put
      \<and> v_manifest_id v = mid \<and> v_size_bytes v = m_total_size (wp_manifest put)"
    and "o_object_id r = (case r0 of None \<Rightarrow> wp_object_id put | Some r1 \<Rightarrow> o_object_id r1)"
    and "o_latest_version r = wp_version put"
  using assms by (auto simp: put_record_def Let_def split: option.splits if_splits)

lemma utf8_hex [simp]: "utf8_valid (hex_encode bs)"
  by (rule utf8_valid_ascii) simp

lemma put_record_wf:
  assumes "put_record put (content_id (wp_manifest put)) r0 = Some r"
    and "wf_oid (wp_object_id put)" "length (m_content_hash (wp_manifest put)) = 32"
    and "\<And>r1. r0 = Some r1 \<Longrightarrow> wf_record r1 \<and> length (o_versions r1) + 1 < 2 ^ 32"
  shows "wf_record r"
proof -
  obtain v where v: "o_versions r = (case r0 of None \<Rightarrow> [] | Some r1 \<Rightarrow> o_versions r1) @ [v]"
    "v_manifest_id v = content_id (wp_manifest put)"
    using put_record_SomeD(1) [OF assms(1)] by blast
  have "wf_version v" using assms(3) by (simp add: wf_version_def v(2) content_id_def)
  then show ?thesis
    using assms(2,4) v(1) put_record_SomeD(2) [OF assms(1)] by (cases r0) (auto simp: wf_record_def)
qed

lemma decode_value_Inr:
  "decode_value dec v = Inr r \<longleftrightarrow> (v = None \<and> r = None) \<or> (\<exists>b x. v = Some b \<and> dec b = Inr x \<and> r = Some x)"
  by (auto simp: decode_value_def bindE_eq_Inr split: option.splits)

lemma stored_record_room:
  assumes "room T n" "decode_value rec_from_bytes (T OBJECT_INDEX k) = Inr (Some r)"
  shows "wf_record r" "length (o_versions r) + n < 2 ^ 32"
  using assms objects.decoded_wf [OF assms(2)]
  by (auto simp: room_def decode_value_Inr)

text \<open>Once the record carries the version, writing it again does nothing.\<close>

lemma put_object_table_idem:
  assumes "keys_ok T" "room T 1" "wf_oid (wp_object_id put)" "length (m_content_hash (wp_manifest put)) = 32"
  shows "put_object_table put (put_object_table put T) = put_object_table put T"
proof (cases "decode_value rec_from_bytes (T OBJECT_INDEX (oid_bytes (wp_object_id put)))")
  case (Inr r0)
  show ?thesis
  proof (cases "put_record put (content_id (wp_manifest put)) r0")
    case (Some r)
    have "wf_record r"
      using put_record_wf [OF Some assms(3,4)] stored_record_room [OF assms(2)] Inr by auto
    moreover have "oid_bytes (o_object_id r) = oid_bytes (wp_object_id put)"
      using put_record_SomeD(2) [OF Some] Inr assms(1)
      by (auto simp: keys_ok_def decode_value_Inr)
    moreover have "put_record put (content_id (wp_manifest put)) (Some r) = None"
      using put_record_SomeD(1) [OF Some] by (auto simp: put_record_def)
    moreover have T': "put_object_table put T = set_entry T OBJECT_INDEX (oid_bytes (o_object_id r)) (Some (rec_to_bytes r))"
      by (simp add: put_object_table_def Inr Some)
    moreover have "decode_value rec_from_bytes (Some (rec_to_bytes r)) = Inr (Some r)" if "wf_record r"
      by (rule objects.decode_stored [OF refl that])
    ultimately show ?thesis by (simp add: put_object_table_def [of put "set_entry _ _ _ _"])
  qed (simp add: put_object_table_def Inr)
qed (simp add: put_object_table_def)

end
