(* ===== verification/Oos_Engine_Safe.thy ===== *)
theory Oos_Engine_Safe
  imports Oos_Engine_Tables
begin

text \<open>
  Every operation of the engine keeps the integrity invariant, whether it succeeds or fails, and so does
  every sequence of operations, with the store closed and opened again in between.
\<close>

section \<open>Calls on the parts\<close>

lemma on_db_cases:
  assumes "on_db f e = (e', r)"
  obtains err where "r = Inl err" "e' = e" | db' x where "f (eg_db e) = Inr (db', x)" "e' = e\<lparr>eg_db := db'\<rparr>" "r = Inr x"
  using assms by (auto simp: on_db_def split: sum.splits)

lemma set_db_cases:
  assumes "set_db f e = (e', r)"
  obtains err where "r = Inl err" "e' = e" | db' where "f (eg_db e) = Inr db'" "e' = e\<lparr>eg_db := db'\<rparr>" "r = Inr ()"
  using assms by (auto simp: set_db_def split: sum.splits)

lemma bindS_cases:
  assumes "bindS m f s = (s', r)"
  obtains err where "m s = (s', Inl err)" "r = Inl err" | s1 x where "m s = (s1, Inr x)" "f x s1 = (s', r)"
  using assms by (auto simp: bindS_def split: prod.splits sum.splits)

lemma ask_db_apply: "ask_db f e = (e, f (eg_db e))"
  by (simp add: ask_db_def)

lemma bind_ask_db: "bindS (ask_db f) g e = (case f (eg_db e) of Inl err \<Rightarrow> (e, Inl err) | Inr x \<Rightarrow> g x e)"
  by (simp add: bindS_def ask_db_def split: sum.splits)

text \<open>The tables an apply leaves: those after some number of its steps, all of them if it succeeds.\<close>

definition put_stages :: "ext \<Rightarrow> wal_put \<Rightarrow> tables \<Rightarrow> tables list" where
  "put_stages X put T =
     [T, put_manifest_table X put T, put_object_table put (put_manifest_table X put T), put_tables X put T]"

lemma apply_put_stages:
  assumes R: "redb_ok R V" and ap: "apply_put X R put e = (e', r)"
  shows "\<exists>db'. e' = e\<lparr>eg_db := db'\<rparr> \<and> V db' \<in> set (put_stages X put (V (eg_db e)))
    \<and> (\<forall>mid. r = Inr mid \<longrightarrow> V db' = put_tables X put (V (eg_db e)) \<and> mid = content_id (wp_manifest put))"
  using ap unfolding apply_put_def
proof (cases rule: bindS_cases)
  case (1 err)
  then show ?thesis by (auto elim!: on_db_cases simp: put_stages_def intro: exI [of _ "eg_db e"])
next
  case (2 e1 mid)
  let ?T1 = "put_manifest_table X put (V (eg_db e))"
  obtain db1 where e1: "e1 = e\<lparr>eg_db := db1\<rparr>" and mid: "mid = content_id (wp_manifest put)" and T1: "V db1 = ?T1"
    using 2(1) by (auto elim!: on_db_cases dest!: save_manifest_view [OF R] simp: put_manifest_table_def)
  show ?thesis
  proof (cases "get_object R db1 (wp_object_id put)")
    case (Inl err)
    then have "e' = e1" "r = Inl err" using 2(2) by (auto simp: bind_ask_db e1)
    then show ?thesis using e1 T1 by (auto simp: put_stages_def)
  next
    case (Inr r0)
    have dec: "decode_value rec_from_bytes (?T1 OBJECT_INDEX (oid_bytes (wp_object_id put))) = Inr r0"
      using get_object_view [OF R Inr] T1 by simp
    have rest: "bindS (case put_record put mid r0 of None \<Rightarrow> returnS () | Some r \<Rightarrow> set_db (\<lambda>db. put_object R db r)) (\<lambda>_.
        bindS (set_db (\<lambda>db. bind_name R db (wp_name put) (wp_object_id put))) (\<lambda>_. returnS mid)) e1 = (e', r)"
      using 2(2) Inr by (simp add: bind_ask_db e1)
    from rest show ?thesis
    proof (cases rule: bindS_cases)
      case (1 err)
      then have "e' = e1" by (auto elim!: set_db_cases split: option.splits)
      then show ?thesis using e1 T1 1 by (auto simp: put_stages_def)
    next
      case (2 e2 u)
      have "\<exists>db2. e2 = e\<lparr>eg_db := db2\<rparr> \<and> V db2 = put_object_table put ?T1"
      proof (cases "put_record put mid r0")
        case None
        then show ?thesis using 2(1) e1 T1 by (auto simp: put_object_table_def dec mid)
      next
        case (Some r1)
        then show ?thesis using 2(1) e1 T1
          by (auto elim!: set_db_cases dest!: put_object_view [OF R] simp: put_object_table_def dec mid)
      qed
      then obtain db2 where e2: "e2 = e\<lparr>eg_db := db2\<rparr>" and T2: "V db2 = put_object_table put ?T1" by blast
      from 2(2) show ?thesis
      proof (cases rule: bindS_cases)
        case (1 err)
        then have "e' = e2" by (auto elim!: set_db_cases)
        then show ?thesis using e2 T2 1 by (auto simp: put_stages_def)
      next
        case (2 e3 u')
        then obtain db3 where "e3 = e\<lparr>eg_db := db3\<rparr>" "V db3 = put_tables X put (V (eg_db e))"
          using e2 T2 by (auto elim!: set_db_cases dest!: bind_name_view [OF R] simp: put_tables_def put_name_table_def)
        then show ?thesis using 2(2) mid by (auto simp: put_stages_def)
      qed
    qed
  qed
qed

section \<open>The stages of a put keep the invariant\<close>

lemma room_other: "t \<noteq> OBJECT_INDEX \<Longrightarrow> room (set_entry T t k v) n \<longleftrightarrow> room T n"
  by (simp add: room_def)

lemma room_object:
  "wf_record r \<Longrightarrow> length (o_versions r) + n < 2 ^ 32 \<Longrightarrow> room T n \<Longrightarrow> room (set_entry T OBJECT_INDEX k (Some (rec_to_bytes r))) n"
  by (auto simp: room_def set_entry_apply rec_from_to_bytes)

lemma room_mono: "room T (Suc n) \<Longrightarrow> room T n"
  unfolding room_def by (auto intro: Suc_lessD)

lemma put_object_table_ok:
  assumes ok: "db_ok X U has T" and gp: "good_put X U put" and rm: "room T (Suc n)"
    and gm: "good_mid X U T has (content_id (wp_manifest put))"
  shows "db_ok X U has (put_object_table put T)" "room (put_object_table put T) n"
proof -
  have put: "wf_oid (wp_object_id put)" "length (m_content_hash (wp_manifest put)) = 32"
    using gp by (auto simp: good_put_def wf_manifest_def)
  have "db_ok X U has (put_object_table put T) \<and> room (put_object_table put T) n"
  proof (cases "\<exists>r0 r. decode_value rec_from_bytes (T OBJECT_INDEX (oid_bytes (wp_object_id put))) = Inr r0
      \<and> put_record put (content_id (wp_manifest put)) r0 = Some r")
    case False
    then have "put_object_table put T = T" by (auto simp: put_object_table_def split: sum.splits option.splits)
    then show ?thesis using ok room_mono [OF rm] by simp
  next
    case True
    then obtain r0 r where dec: "decode_value rec_from_bytes (T OBJECT_INDEX (oid_bytes (wp_object_id put))) = Inr r0"
      and r: "put_record put (content_id (wp_manifest put)) r0 = Some r" by blast
    have T': "put_object_table put T = set_entry T OBJECT_INDEX (oid_bytes (o_object_id r)) (Some (rec_to_bytes r))"
      by (simp add: put_object_table_def dec r)
    have wf: "wf_record r"
      using put_record_wf [OF r put] stored_record_room [OF rm] dec by force
    obtain v where v: "o_versions r = (case r0 of None \<Rightarrow> [] | Some r1 \<Rightarrow> o_versions r1) @ [v]"
      "v_manifest_id v = content_id (wp_manifest put)" using put_record_SomeD(1) [OF r] by blast
    have "good_mid X U T has (v_manifest_id x)" if "x \<in> set (o_versions r)" for x
      using that gm ok dec live_object [of x _ T _ _ X]
      by (auto simp: v db_ok_def live_ok_def decode_value_Inr split: option.splits)
    then have "db_ok X U has (put_object_table put T)" unfolding T' by (intro db_ok_object [OF ok wf]) blast
    moreover have len: "length (o_versions r) + n < 2 ^ 32"
      using rm stored_record_room(2) [OF rm] dec by (cases r0) (auto simp: v(1) room_def)
    then have "room (put_object_table put T) n"
      unfolding T' by (intro room_object [OF wf _ room_mono [OF rm]])
    ultimately show ?thesis ..
  qed
  then show "db_ok X U has (put_object_table put T)" "room (put_object_table put T) n" by auto
qed

lemma put_stages_ok:
  assumes ok: "db_ok X U has T" and gp: "good_put X U put" and rm: "room T (Suc n)"
    and has: "\<forall>c \<in> set (m_chunks (wp_manifest put)). has c" and T': "T' \<in> set (put_stages X put T)"
  shows "db_ok X U has T' \<and> room T' n"
proof -
  let ?T1 = "put_manifest_table X put T"
  have wf: "wf_manifest (wp_manifest put)" "described X U (wp_manifest put)" using gp by (auto simp: good_put_def)
  have ok1: "db_ok X U has ?T1" unfolding put_manifest_table_def by (rule db_ok_manifest [OF ok wf has])
  have rm1: "room ?T1 (Suc n)" using rm by (simp add: put_manifest_table_def room_other)
  have "good_mid X U ?T1 has (content_id (wp_manifest put))"
    using wf has manifest_from_to_bytes [OF wf(1), of X]
    by (auto simp: good_mid_def put_manifest_table_def stored_manifest_def)
  note ok2 = put_object_table_ok [OF ok1 gp rm1 this]
  have "db_ok X U has (put_tables X put T)" "room (put_tables X put T) n"
    using ok2 by (auto simp: put_tables_def put_name_table_def room_other intro: db_ok_other)
  moreover have "room T n" "room ?T1 n" using rm rm1 by (simp_all add: room_mono)
  ultimately show ?thesis using T' ok ok1 ok2 by (auto simp: put_stages_def)
qed

section \<open>Changing one part of the engine\<close>

lemma eng_inv_iff:
  "eng_inv X V U e \<longleftrightarrow> ext_ok X \<and> collision_free X U \<and> seg_ok X U (eg_segments e)
     \<and> db_ok X U (ss_has_chunk (eg_segments e)) (V (eg_db e)) \<and> (\<exists>es. good_wal X U (eg_wal e) es)
     \<and> ss_vault_key (eg_segments e) = eg_vault_key e \<and> wal_vault_key (eg_wal e) = eg_vault_key e"
  by (auto simp: eng_inv_def db_ok_def)

lemma eng_inv_db: "eng_inv X V U e \<Longrightarrow> db_ok X U (ss_has_chunk (eg_segments e)) (V db') \<Longrightarrow> eng_inv X V U (e\<lparr>eg_db := db'\<rparr>)"
  by (simp add: eng_inv_iff)

lemma eng_inv_wal:
  "eng_inv X V U e \<Longrightarrow> good_wal X U w es \<Longrightarrow> wal_vault_key w = wal_vault_key (eg_wal e) \<Longrightarrow> eng_inv X V U (e\<lparr>eg_wal := w\<rparr>)"
  by (auto simp: eng_inv_iff)

lemma eng_inv_segments:
  assumes "eng_inv X V U e" "seg_ok X U s" "\<And>c. ss_has_chunk (eg_segments e) c \<Longrightarrow> ss_has_chunk s c"
    and "ss_vault_key s = ss_vault_key (eg_segments e)"
  shows "eng_inv X V U (e\<lparr>eg_segments := s\<rparr>)"
  using assms by (auto simp: eng_inv_iff intro: db_ok_more)

lemma keeps_on_db:
  assumes "\<And>db db' x has. f db = Inr (db', x) \<Longrightarrow> db_ok X U has (V db) \<Longrightarrow> db_ok X U has (V db')"
  shows "keeps (eng_inv X V U) (on_db f)"
  by (rule keepsI) (auto elim!: on_db_cases simp: eng_inv_iff intro: assms)

lemma keeps_set_db:
  assumes "\<And>db db' has. f db = Inr db' \<Longrightarrow> db_ok X U has (V db) \<Longrightarrow> db_ok X U has (V db')"
  shows "keeps (eng_inv X V U) (set_db f)"
  by (rule keepsI) (auto elim!: set_db_cases simp: eng_inv_iff intro: assms)

lemma keeps_ask_db [keeps_intros]: "keeps I (ask_db f)"
  by (simp add: keeps_def ask_db_def)

section \<open>Names\<close>

lemma keeps_delete_named_object [keeps_intros]:
  assumes R: "redb_ok R V"
  shows "keeps (eng_inv X V U) (on_db (\<lambda>db. delete_named_object R db n))"
  by (rule keeps_on_db) (auto dest!: delete_named_object_view(2) [OF R] intro!: db_ok_remove split: option.splits)

lemma delete_file_keeps: "redb_ok R V \<Longrightarrow> keeps (eng_inv X V U) (delete_file R n)"
  unfolding delete_file_def by (intro keeps_intros)

lemma delete_prefix_keeps: "redb_ok R V \<Longrightarrow> keeps (eng_inv X V U) (delete_prefix R pre)"
  unfolding delete_prefix_def by (intro keeps_intros)

lemma unbind_file_keeps:
  assumes R: "redb_ok R V"
  shows "keeps (eng_inv X V U) (unbind_file R n)"
  unfolding unbind_file_def
  by (intro keeps_intros keeps_on_db) (auto dest!: unbind_name_view [OF R] intro: db_ok_other)

lemma rename_name_binding_ok:
  assumes R: "redb_ok R V" and "rename_name_binding R db a b = Inr (db', x)" "db_ok X U has (V db)"
  shows "db_ok X U has (V db')"
  using rename_name_binding_view(2) [OF R assms(2)] assms(3) by (auto intro!: db_ok_other split: if_splits)

lemma rename_file_keeps: "redb_ok R V \<Longrightarrow> keeps (eng_inv X V U) (rename_file R a b)"
  unfolding rename_file_def by (intro keeps_intros keeps_on_db rename_name_binding_ok)

lemma eg_delete_snapshot_keeps:
  assumes R: "redb_ok R V"
  shows "keeps (eng_inv X V U) (eg_delete_snapshot R l)"
  unfolding eg_delete_snapshot_def
  by (intro keeps_on_db) (simp add: delete_snapshot_view(1) [OF R] db_ok_remove)

end
