(* ===== verification/Oos_Engine_Keeps.thy ===== *)
theory Oos_Engine_Keeps
  imports Oos_Engine_Safe
begin

text \<open>
  The operations that read before they write keep the integrity invariant: watched prefixes, pruning,
  rollback, snapshots, garbage collection and the put itself, whether they succeed or fail.
\<close>

section \<open>Watched prefixes\<close>

lemma db_ok_cong:
  assumes "db_ok X U has T" "T' OBJECT_INDEX = T OBJECT_INDEX" "T' SNAPSHOTS = T SNAPSHOTS" "T' MANIFESTS = T MANIFESTS"
  shows "db_ok X U has T'"
  using assms by (simp add: db_ok_def live_ok_def keys_ok_def live_manifests_def good_mid_def stored_manifest_def)

text \<open>The tables of the integrity invariant are not touched.\<close>

definition same_data :: "tables \<Rightarrow> tables \<Rightarrow> bool" where
  "same_data T T' \<longleftrightarrow> (\<forall>t. t \<noteq> NAME_INDEX \<longrightarrow> t \<noteq> WATCHER_FILES \<longrightarrow> T' t = T t)"

lemma same_data_set: "same_data T T' \<Longrightarrow> t = NAME_INDEX \<or> t = WATCHER_FILES \<Longrightarrow> same_data T (set_entry T' t k v)"
  by (auto simp: same_data_def)

lemma unbind_changes_view:
  assumes R: "redb_ok R V"
  shows "unbind_changes R root cs tx = Inr (tx', moved) \<Longrightarrow> same_data T (V tx) \<Longrightarrow> same_data T (V tx')"
proof (induction cs arbitrary: tx moved)
  case (Cons c cs)
  obtain tx1 p tx2 q moved' where tx: "rd_remove R tx NAME_INDEX (fst c) = Inr (tx1, p)"
    "rd_remove R tx1 WATCHER_FILES (watcher_file_key root (fst c)) = Inr (tx2, q)"
    "unbind_changes R root cs tx2 = Inr (tx', moved')"
    using Cons.prems(1) by (cases c) (auto simp: bindE_eq_Inr)
  have "same_data T (V tx2)"
    using redb_okD(7) [OF R tx(1)] redb_okD(7) [OF R tx(2)] Cons.prems(2) by (simp add: same_data_set)
  from Cons.IH [OF tx(3) this] show ?case .
qed simp

lemma bind_moved_view:
  assumes R: "redb_ok R V"
  shows "foldE (bind_moved R root) tx moved = Inr tx' \<Longrightarrow> same_data T (V tx) \<Longrightarrow> same_data T (V tx')"
  by (induction moved arbitrary: tx)
    (use R in \<open>auto simp: bindE_eq_Inr bind_moved_def same_data_set dest!: redb_okD(6) [OF R] split: option.splits prod.splits\<close>)

lemma update_watcher_bindings_view:
  assumes R: "redb_ok R V" and u: "update_watcher_bindings R db root cs = Inr (db', n)"
  shows "same_data (V db) (V db')"
proof -
  obtain tx1 tx2 tx3 moved where tx: "rd_begin_write R db = Inr tx1" "unbind_changes R root cs tx1 = Inr (tx2, moved)"
    "foldE (bind_moved R root) tx2 moved = Inr tx3" "rd_commit R tx3 = Inr db'"
    using u by (auto simp: update_watcher_bindings_def bindE_eq_Inr)
  have "same_data (V db) (V tx1)" using redb_okD(5) [OF R tx(1)] by (simp add: same_data_def)
  from bind_moved_view [OF R tx(3) unbind_changes_view [OF R tx(2) this]] redb_okD(8) [OF R tx(4)]
  show ?thesis by simp
qed

lemma update_watched_prefix_keeps:
  assumes R: "redb_ok R V"
  shows "keeps (eng_inv X V U) (update_watched_prefix R root a b incl)"
  unfolding update_watched_prefix_def
proof (intro keeps_intros keeps_on_db)
  fix cs db db' n has
  assume "update_watcher_bindings R db root cs = Inr (db', n)" and ok: "db_ok X U has (V db)"
  from update_watcher_bindings_view [OF R this(1)] show "db_ok X U has (V db')"
    by (intro db_ok_cong [OF ok]) (simp_all add: same_data_def)
qed

section \<open>Version histories\<close>

text \<open>A step that only reads does not account for a change.\<close>

lemma ask_changes:
  assumes "bindS (ask_db f) g e = (e', r)" "e' \<noteq> e"
  obtains x where "f (eg_db e) = Inr x" "g x e = (e', r)"
  using assms by (auto simp: bind_ask_db split: sum.splits)

lemma lift_changes:
  assumes "bindS (liftE m) g e = (e', r)" "e' \<noteq> e"
  obtains x where "m = Inr x" "g x e = (e', r)"
  using assms by (auto simp: bindS_liftE split: sum.splits)

lemma ok_or_changes:
  assumes "bindS (liftE (ok_or x err)) g e = (e', r)" "e' \<noteq> e"
  obtains y where "x = Some y" "g y e = (e', r)"
  using assms by (auto simp: bindS_liftE ok_or_def split: option.splits)

lemma get_object_live:
  assumes R: "redb_ok R V" and "get_object R db i = Inr (Some r)"
  shows "wf_record r" "v \<in> set (o_versions r) \<Longrightarrow> v_manifest_id v \<in> live_manifests X (V db)"
    and "keys_ok (V db) \<Longrightarrow> o_object_id r = i"
proof -
  have d: "decode_value rec_from_bytes (V db OBJECT_INDEX (oid_bytes i)) = Inr (Some r)"
    by (rule get_object_view [OF assms])
  then show "wf_record r" by (rule objects.decoded_wf)
  show "v \<in> set (o_versions r) \<Longrightarrow> v_manifest_id v \<in> live_manifests X (V db)"
    using d live_object by (auto simp: decode_value_Inr)
  show "o_object_id r = i" if "keys_ok (V db)"
    using that d by (auto simp: keys_ok_def decode_value_Inr intro: object_id.expand)
qed

lemma put_object_ok:
  assumes R: "redb_ok R V" and "put_object R db r = Inr db'" "db_ok X U has (V db)" "wf_record r"
    and "\<And>v. v \<in> set (o_versions r) \<Longrightarrow> v_manifest_id v \<in> live_manifests X (V db)"
  shows "db_ok X U has (V db')"
  unfolding put_object_view [OF R assms(2)]
  by (rule db_ok_object [OF assms(3,4)]) (use assms(3,5) in \<open>auto simp: db_ok_def live_ok_def\<close>)

lemma set_db_return: "bindS (set_db f) (\<lambda>_. returnS x) e = (e', r) \<Longrightarrow> fst (set_db f e) = e'"
  by (auto elim: bindS_cases)

lemma set_put_object_keeps:
  assumes R: "redb_ok R V" and inv: "eng_inv X V U e" and s: "fst (set_db (\<lambda>db. put_object R db r) e) = e'"
    and "wf_record r" "\<And>v. v \<in> set (o_versions r) \<Longrightarrow> v_manifest_id v \<in> live_manifests X (V (eg_db e))"
  shows "eng_inv X V U e'"
proof (cases "put_object R (eg_db e) r")
  case (Inr db')
  have "db_ok X U (ss_has_chunk (eg_segments e)) (V (eg_db e))" using inv by (simp add: eng_inv_iff)
  from put_object_ok [OF R Inr this assms(4,5)] s show ?thesis
    by (auto simp: set_db_def Inr intro: eng_inv_db [OF inv])
qed (use s inv in \<open>simp add: set_db_def\<close>)

lemma bind_set_db:
  "bindS (set_db f) g e = (case f (eg_db e) of Inl err \<Rightarrow> (e, Inl err) | Inr db' \<Rightarrow> g () (e\<lparr>eg_db := db'\<rparr>))"
  by (simp add: bindS_def set_db_def split: sum.splits)

text \<open>A prune changes nothing or writes the shortened record of the object the name is bound to.\<close>

lemma prune_split:
  assumes p: "prune_file_versions R n k e = (e', r)"
  obtains (failed) err where "e' = e" "r = Inl err"
    | (unbound) "e' = e" "r = Inr 0" "resolve_name R (eg_db e) (trim n) = Inr None"
    | (missing) i where "e' = e" "r = Inr 0" "resolve_name R (eg_db e) (trim n) = Inr (Some i)" "get_object R (eg_db e) i = Inr None"
    | (short) i r0 where "e' = e" "r = Inr 0" "resolve_name R (eg_db e) (trim n) = Inr (Some i)" "get_object R (eg_db e) i = Inr (Some r0)"
        "length (o_versions r0) \<le> k"
    | (pruned) i r0 db' where "resolve_name R (eg_db e) (trim n) = Inr (Some i)" "get_object R (eg_db e) i = Inr (Some r0)"
        "k < length (o_versions r0)" "put_object R (eg_db e) (r0\<lparr>o_versions := drop (length (o_versions r0) - k) (o_versions r0)\<rparr>) = Inr db'"
        "e' = e\<lparr>eg_db := db'\<rparr>" "r = Inr (length (o_versions r0) - k)"
proof -
  note eq = p [unfolded prune_file_versions_def bind_ask_db Let_def]
  show thesis
  proof (cases "resolve_name R (eg_db e) (trim n)")
    case (Inl err)
    then show thesis using eq failed [of err] by simp
  next
    case (Inr i0)
    show thesis
    proof (cases i0)
      case None
      then show thesis using eq Inr unbound by simp
    next
      case (Some i)
      note i = Inr [unfolded Some]
      note eq = eq [unfolded i, simplified, unfolded bind_ask_db]
      show thesis
      proof (cases "get_object R (eg_db e) i")
        case (Inl err)
        then show thesis using eq failed [of err] by simp
      next
        case (Inr r1)
        show thesis
        proof (cases r1)
          case None
          then show thesis using eq Inr i missing by simp
        next
          case (Some r0)
          note r0 = Inr [unfolded Some]
          let ?r = "r0\<lparr>o_versions := drop (length (o_versions r0) - k) (o_versions r0)\<rparr>"
          show thesis
          proof (cases "length (o_versions r0) \<le> k")
            case True
            then show thesis using eq r0 short [OF _ _ i r0] by simp
          next
            case False
            show thesis
            proof (cases "put_object R (eg_db e) ?r")
              case (Inl err)
              then show thesis using eq r0 False by (intro failed [of err]) (auto simp: bind_set_db)
            next
              case (Inr db')
              then show thesis using eq r0 False by (intro pruned [OF i r0 _ Inr]) (auto simp: bind_set_db)
            qed
          qed
        qed
      qed
    qed
  qed
qed

lemma prune_file_versions_keeps:
  assumes R: "redb_ok R V"
  shows "keeps (eng_inv X V U) (prune_file_versions R n k)"
proof (rule keepsI)
  fix e e' r assume inv: "eng_inv X V U e" and p: "prune_file_versions R n k e = (e', r)"
  from p show "eng_inv X V U e'"
  proof (cases rule: prune_split)
    case (pruned i r0 db')
    let ?r = "r0\<lparr>o_versions := drop (length (o_versions r0) - k) (o_versions r0)\<rparr>"
    note live = get_object_live [OF R pruned(2)]
    have s: "fst (set_db (\<lambda>db. put_object R db ?r) e) = e'" by (simp add: set_db_def pruned(4,5))
    have "wf_record ?r" using live(1) by (auto simp: wf_record_def list_all_iff dest: in_set_dropD)
    then show ?thesis
      by (rule set_put_object_keeps [OF R inv s]) (use live(2) in \<open>auto dest: in_set_dropD\<close>)
  qed (use inv in simp_all)
qed

lemma prune_all_keeps: "redb_ok R V \<Longrightarrow> keeps (eng_inv X V U) (prune_all R k)"
  unfolding prune_all_def by (intro keeps_intros prune_file_versions_keeps)

lemma rollback_record_wf:
  "wf_record r \<Longrightarrow> x \<in> set (o_versions r) \<Longrightarrow> length (o_versions r) + 1 < 2 ^ 32 \<Longrightarrow> wf_record (rollback_record now r x)"
  by (auto simp: wf_record_def rollback_record_def wf_version_def list_all_iff)

text \<open>A rollback changes nothing or appends a version to the record of the object the name is bound to.\<close>

lemma rollback_split:
  assumes rb: "rollback_commit X R now name v e = (e', r)"
  obtains (idle) err where "e' = e" "r = Inl err"
    | (appended) i r0 x m db' where "resolve_name R (eg_db e) name = Inr (Some i)" "get_object R (eg_db e) i = Inr (Some r0)"
        "find (\<lambda>x. v_version x = v) (o_versions r0) = Some x" "get_manifest X R (eg_db e) (v_manifest_id x) = Inr (Some m)"
        "put_object R (eg_db e) (rollback_record now r0 x) = Inr db'" "e' = e\<lparr>eg_db := db'\<rparr>" "r = Inr (next_version r0, m)"
proof -
  note eq = rb [unfolded rollback_commit_def bind_ask_db]
  show thesis
  proof (cases "\<exists>i r0 x m. resolve_name R (eg_db e) name = Inr (Some i) \<and> get_object R (eg_db e) i = Inr (Some r0)
      \<and> find (\<lambda>x. v_version x = v) (o_versions r0) = Some x \<and> get_manifest X R (eg_db e) (v_manifest_id x) = Inr (Some m)")
    case True
    then obtain i r0 x m where i: "resolve_name R (eg_db e) name = Inr (Some i)" "get_object R (eg_db e) i = Inr (Some r0)"
      "find (\<lambda>x. v_version x = v) (o_versions r0) = Some x" "get_manifest X R (eg_db e) (v_manifest_id x) = Inr (Some m)" by blast
    show thesis
    proof (cases "put_object R (eg_db e) (rollback_record now r0 x)")
      case (Inl err)
      then show thesis using eq i by (intro idle [of err]) (auto simp: bind_ask_db bindS_liftE bind_set_db)
    next
      case (Inr db')
      then show thesis
        using eq i by (intro appended [OF i Inr]) (auto simp: bind_ask_db bindS_liftE bind_set_db)
    qed
  next
    case False
    with eq have "e' = e \<and> (\<exists>err. r = Inl err)"
      by (auto simp: bind_ask_db bindS_liftE ok_or_def split: sum.splits option.splits)
    then show thesis using idle by blast
  qed
qed

lemma rollback_commit_keeps:
  assumes R: "redb_ok R V" and "room (V (eg_db e)) 1" and inv: "eng_inv X V U e"
    and rb: "rollback_commit X R now name v e = (e', r)"
  shows "eng_inv X V U e'"
  using rb
proof (cases rule: rollback_split)
  case (appended i r0 x m db')
  note live = get_object_live [OF R appended(2)]
  have x: "x \<in> set (o_versions r0)" using appended(3) by (auto simp: find_Some_iff)
  have "length (o_versions r0) + 1 < 2 ^ 32"
    using stored_record_room(2) [OF assms(2) get_object_view [OF R appended(2)]] .
  with live(1) x have "wf_record (rollback_record now r0 x)" by (intro rollback_record_wf)
  moreover have "v_manifest_id y \<in> live_manifests X (V (eg_db e))" if "y \<in> set (o_versions (rollback_record now r0 x))" for y
    using that live(2) x by (auto simp: rollback_record_def)
  moreover have "fst (set_db (\<lambda>db. put_object R db (rollback_record now r0 x)) e) = e'" by (simp add: set_db_def appended(5,6))
  ultimately show ?thesis by (intro set_put_object_keeps [OF R inv])
qed (use inv in simp)

section \<open>Snapshots\<close>

lemma list_named_objects_mem:
  assumes "list_named_objects R db = Inr objs" "(n, i, r) \<in> set objs"
  shows "get_object R db i = Inr (Some r)"
proof -
  let ?f = "\<lambda>acc (name, i). bindE (get_object R db i) (\<lambda>r. case r of None \<Rightarrow> Inr acc | Some rc \<Rightarrow> Inr (acc @ [(name, i, rc)]))"
  let ?P = "\<lambda>x. get_object R db (fst (snd x)) = Inr (Some (snd (snd x)))"
  have *: "foldE ?f acc es = Inr objs \<Longrightarrow> list_all ?P acc \<Longrightarrow> list_all ?P objs" for acc es objs
  proof (induction es arbitrary: acc)
    case (Cons e es)
    obtain n i where e: "e = (n, i)" by (cases e)
    obtain acc' where acc': "?f acc e = Inr acc'" "foldE ?f acc' es = Inr objs"
      using Cons.prems(1) by (auto simp: bindE_eq_Inr)
    have "list_all ?P acc'"
      using acc'(1) Cons.prems(2) by (auto simp: e bindE_eq_Inr split: option.splits)
    from Cons.IH [OF acc'(2) this] show ?case .
  qed simp
  obtain items where "foldE ?f [] [(from_utf8_lossy k, oid_from_raw v). (k, v) \<leftarrow> items, length v = 16] = Inr objs"
    using assms(1) by (auto simp: list_named_objects_def bindE_eq_Inr Let_def)
  from * [OF this] assms(2) show ?thesis by (auto simp: list_all_iff)
qed

lemma snapshot_entries_mem:
  assumes "en \<in> set (snapshot_entries objs)"
  obtains n i r v where "(n, i, r) \<in> set objs" "v \<in> set (o_versions r)" "e_manifest_id en = v_manifest_id v"
proof -
  obtain n i r where o: "(n, i, r) \<in> set objs" and en: "en \<in> set (case rec_latest r of None \<Rightarrow> []
      | Some v \<Rightarrow> [\<lparr>e_name = n, e_object_id = i, e_version = v_version v, e_manifest_id = v_manifest_id v, e_size_bytes = v_size_bytes v\<rparr>])"
    using assms by (auto simp: snapshot_entries_def)
  from en obtain v where v: "rec_latest r = Some v" "e_manifest_id en = v_manifest_id v"
    by (cases "rec_latest r") auto
  then have "v \<in> set (o_versions r)" by (auto simp: rec_latest_def split: list.splits if_splits)
  from that [OF o this v(2)] show thesis .
qed

lemma create_snapshot_keeps:
  assumes R: "redb_ok R V" and inv: "eng_inv X V U e"
    and wf: "\<And>objs. list_named_objects R (eg_db e) = Inr objs \<Longrightarrow> wf_snapshot (snapshot_new now (trim l) (snapshot_entries objs))"
    and c: "create_snapshot X R now l e = (e', r)"
  shows "eng_inv X V U e'"
proof (cases "e' = e")
  case False
  then have "trim l \<noteq> []" using c by (auto simp: create_snapshot_def)
  then have "bindS (ask_db (\<lambda>db. get_snapshot X R db (trim l))) (\<lambda>old.
      if old \<noteq> None then liftE (Inl (Internal ''Snapshot already exists''))
      else bindS (ask_db (list_named_objects R)) (\<lambda>objs.
             let snap = snapshot_new now (trim l) (snapshot_entries objs)
             in bindS (set_db (\<lambda>db. save_snapshot X R db snap)) (\<lambda>_. returnS snap))) e = (e', r)"
    using c by (simp add: create_snapshot_def Let_def)
  then obtain old :: "snapshot option" where "(if old \<noteq> None then liftE (Inl (Internal ''Snapshot already exists''))
      else bindS (ask_db (list_named_objects R)) (\<lambda>objs.
             let snap = snapshot_new now (trim l) (snapshot_entries objs)
             in bindS (set_db (\<lambda>db. save_snapshot X R db snap)) (\<lambda>_. returnS snap))) e = (e', r)"
    using False by (rule ask_changes)
  then have "bindS (ask_db (list_named_objects R)) (\<lambda>objs.
             let snap = snapshot_new now (trim l) (snapshot_entries objs)
             in bindS (set_db (\<lambda>db. save_snapshot X R db snap)) (\<lambda>_. returnS snap)) e = (e', r)"
    using False by (auto split: if_splits)
  then obtain objs where objs: "list_named_objects R (eg_db e) = Inr objs"
    and s: "(let snap = snapshot_new now (trim l) (snapshot_entries objs)
             in bindS (set_db (\<lambda>db. save_snapshot X R db snap)) (\<lambda>_. returnS snap)) e = (e', r)"
    using False by (rule ask_changes)
  let ?snap = "snapshot_new now (trim l) (snapshot_entries objs)"
  have sd: "fst (set_db (\<lambda>db. save_snapshot X R db ?snap) e) = e'"
    using s unfolding Let_def by (rule set_db_return)
  have ok: "db_ok X U (ss_has_chunk (eg_segments e)) (V (eg_db e))" using inv by (simp add: eng_inv_iff)
  have live: "e_manifest_id en \<in> live_manifests X (V (eg_db e))" if "en \<in> set (s_entries ?snap)" for en
  proof -
    have "en \<in> set (snapshot_entries objs)" using that by (simp add: snapshot_new_def)
    then obtain n i r v where "(n, i, r) \<in> set objs" "v \<in> set (o_versions r)" "e_manifest_id en = v_manifest_id v"
      by (rule snapshot_entries_mem)
    then show ?thesis using get_object_live(2) [OF R list_named_objects_mem [OF objs]] by metis
  qed
  show ?thesis
  proof (cases "save_snapshot X R (eg_db e) ?snap")
    case (Inr db')
    have "db_ok X U (ss_has_chunk (eg_segments e)) (V db')"
      unfolding save_snapshot_view [OF R Inr]
      by (rule db_ok_snapshot [OF ok wf [OF objs]]) (use live ok in \<open>auto simp: db_ok_def live_ok_def\<close>)
    then show ?thesis using sd by (auto simp: set_db_def Inr intro: eng_inv_db [OF inv])
  qed (use sd False in \<open>simp add: set_db_def\<close>)
qed (use inv in simp)

section \<open>Garbage collection\<close>

lemma compact_and_reclaim_key:
  "compact_and_reclaim X E EC tmp R s dirs = Inr (s', dirs', n) \<Longrightarrow> ss_vault_key s' = ss_vault_key s"
  by (auto simp: compact_and_reclaim_def compact_swap_def Let_def bindE_eq_Inr split: if_splits)

lemma gc_collect_key: "keeps (\<lambda>(s, db). ss_vault_key s = k) (gc_collect X R E EC tmp)"
  unfolding gc_collect_def gc_sweep_def
  by (intro keeps_intros)
    (auto simp: keeps_def sweep_manifests_def sweep_chunks_def dest!: compact_and_reclaim_key split: if_splits sum.splits)

lemma live_cong: "T' OBJECT_INDEX = T OBJECT_INDEX \<Longrightarrow> T' SNAPSHOTS = T SNAPSHOTS \<Longrightarrow> live_manifests X T' = live_manifests X T"
  by (simp add: live_manifests_def)

lemma db_ok_live: "db_ok X U has T \<Longrightarrow> mid \<in> live_manifests X T \<Longrightarrow> good_mid X U T has mid"
  by (simp add: db_ok_def live_ok_def)

text \<open>Removing what is not live, from the tables and from the segments.\<close>

lemma db_ok_collect:
  assumes ok: "db_ok X U has T" and T: "\<And>t. t \<noteq> MANIFESTS \<Longrightarrow> T' t = T t"
    and M: "\<And>mid. mid \<in> live_manifests X T \<Longrightarrow> T' MANIFESTS mid = T MANIFESTS mid"
    and has: "\<And>c. c \<in> chunks_of X T (live_manifests X T) \<Longrightarrow> has c \<Longrightarrow> has' c"
  shows "db_ok X U has' T'"
proof -
  have L: "live_manifests X T' = live_manifests X T" by (rule live_cong) (simp_all add: T)
  have "good_mid X U T' has' mid" if "mid \<in> live_manifests X T" for mid
  proof -
    from db_ok_live [OF ok that] obtain m
      where m: "stored_manifest X T mid m" "described X U m" "\<forall>c \<in> set (m_chunks m). has c"
      unfolding good_mid_def by (elim exE conjE)
    have "\<forall>c \<in> set (m_chunks m). has' c" using m(1,3) that has by (auto simp: chunks_of_def)
    then show ?thesis using m M [OF that] by (auto simp: good_mid_def stored_manifest_def)
  qed
  then show ?thesis using ok by (simp add: db_ok_def live_ok_def L keys_ok_def T)
qed

lemma eg_gc_keeps:
  assumes R: "redb_ok R V" and inv: "eng_inv X V U e" and E: "\<And>c. env_ok (EC c)"
    and g: "eg_gc X R E EC tmp e = (e', r)" and bnd: "w_segment_id (ss_writer (eg_segments e')) < 2 ^ 64"
  shows "eng_inv X V U e'"
proof -
  obtain s' db' where gc: "gc_collect X R E EC tmp (eg_segments e, eg_db e) = ((s', db'), r)"
    and e': "e' = e\<lparr>eg_segments := s', eg_db := db'\<rparr>"
    using g by (auto simp: eg_gc_def split: prod.splits)
  have parts: "ext_ok X" "seg_ok X U (eg_segments e)" "db_ok X U (ss_has_chunk (eg_segments e)) (V (eg_db e))"
    using inv by (auto simp: eng_inv_iff)
  have key: "ss_vault_key s' = ss_vault_key (eg_segments e)"
    using keepsD [OF gc_collect_key gc] by simp
  show ?thesis
  proof (cases r)
    case (Inl err)
    note f = gc_collect_fails [OF R gc [unfolded Inl]]
    have "db_ok X U (ss_has_chunk s') (V db')"
      by (rule db_ok_collect [OF parts(3)]) (use f in auto)
    then show ?thesis using inv f(1) by (simp add: eng_inv_iff e')
  next
    case (Inr st)
    obtain log where log: "seg_log_inv X (eg_segments e) log" using parts(2) by (auto simp: seg_ok_def)
    note spec = gc_collect_spec [OF R gc [unfolded Inr] log parts(1) E]
    have b: "w_segment_id (ss_writer s') < 2 ^ 64" using bnd by (simp add: e')
    have "db_ok X U (ss_has_chunk s') (V db')"
      by (rule db_ok_collect [OF parts(3)]) (use spec(1,3,4) [OF b] in auto)
    moreover have "d \<in> U" if "ss_get_chunk X s' c = Inr d" for c d
    proof -
      have "ss_has_chunk s' c" using that not_has_get [of s' c X] by (cases "ss_has_chunk s' c") auto
      then show ?thesis using spec(4,5) [OF b] that parts(2) by (auto simp: seg_ok_def)
    qed
    then have "seg_ok X U s'" using spec(6) [OF b] by (auto simp: seg_ok_def)
    ultimately show ?thesis using inv key by (simp add: eng_inv_iff e')
  qed
qed

end
