(* ===== verification/Oos_Engine_Put.thy ===== *)
theory Oos_Engine_Put
  imports Oos_Engine_Keeps
begin

text \<open>
  Storing a file: the put keeps the integrity invariant whether it succeeds or fails, and what it leaves
  in the tables when it succeeds.
\<close>

section \<open>The redo log of the engine\<close>

lemma encode_put_chunks:
  assumes "encode_put X nonce lsn put vk = Inr b" "list_all wf_cid (m_chunks (wp_manifest put))"
  shows "length (m_chunks (wp_manifest put)) < 2 ^ 32"
proof -
  have "length (manifest_to_bytes X (wp_manifest put)) < 2 ^ 32"
    using assms(1) by (auto simp: encode_put_def Let_def split: if_splits)
  then show ?thesis using length_cids [OF assms(2)] by (simp add: manifest_to_bytes_def manifest_body_def)
qed

lemma on_wal_append:
  assumes "on_wal (\<lambda>w. wal_append_put_and_sync X nonce w put) e = (e1, r)"
  shows "e1 = e\<lparr>eg_wal := fst (wal_append_put_and_sync X nonce (eg_wal e) put)\<rparr>"
    and "r = snd (wal_append_put_and_sync X nonce (eg_wal e) put)"
  using assms by (auto simp: on_wal_def split: prod.splits)

lemma append_manifest_wf:
  assumes "wal_append_put_and_sync X nonce w put = (w', Inr lsn)" "list_all wf_cid (m_chunks (wp_manifest put))"
    and "length (m_content_hash (wp_manifest put)) = 32"
  shows "wf_manifest (wp_manifest put)"
proof -
  obtain b where "encode_put X nonce (wal_current_lsn w + 1) put (wal_vault_key w) = Inr b"
    using assms(1) by (auto simp: wal_append_put_and_sync_def Let_def split: sum.splits)
  from encode_put_chunks [OF this assms(2)] assms(2,3) show ?thesis by (simp add: wf_manifest_def)
qed

lemma append_keeps:
  assumes inv: "eng_inv X V U e" and "length nonce = 24" "utf8_valid (wp_name put)" "wf_oid (wp_object_id put)"
    and "wp_chunks put = []" "wal_current_lsn (eg_wal e) < - 1"
    and gp: "\<And>lsn. r = Inr lsn \<Longrightarrow> good_put X U put"
    and ap: "on_wal (\<lambda>w. wal_append_put_and_sync X nonce w put) e = (e1, r)"
  shows "eng_inv X V U e1 \<and> (\<forall>lsn. r = Inr lsn \<longrightarrow> wal_current_lsn (eg_wal e1) = lsn)"
proof -
  obtain w' where w': "wal_append_put_and_sync X nonce (eg_wal e) put = (w', r)" and e1: "e1 = e\<lparr>eg_wal := w'\<rparr>"
    using on_wal_append [OF ap] by (cases "wal_append_put_and_sync X nonce (eg_wal e) put") auto
  obtain es where es: "good_wal X U (eg_wal e) es" and X: "ext_ok X" using inv by (auto simp: eng_inv_iff)
  then have wi: "wal_inv X (eg_wal e) es" by (simp add: good_wal_def)
  show ?thesis
  proof (cases r)
    case (Inl err)
    have w: "w' = (eg_wal e)\<lparr>wal_current_lsn := wal_current_lsn (eg_wal e) + 1\<rparr>"
      using w' Inl by (auto simp: wal_append_put_and_sync_def Let_def split: sum.splits)
    have "good_wal X U w' es"
      using es lsn_next [OF assms(6)] by (fastforce simp: good_wal_def wal_inv_def w)
    then show ?thesis using Inl e1 w by (auto intro: eng_inv_wal [OF inv])
  next
    case (Inr lsn)
    have g: "good_put X U put" by (rule gp [OF Inr])
    then have "wf_put put" using assms(3-5) by (simp add: wf_put_def good_put_def)
    note a = wal_append_inv [OF wi X assms(2) this w' [unfolded Inr] assms(6)]
    obtain b where b: "wal_inv X w' (es @ [(b, \<lparr>wr_lsn = lsn, wr_payload = PutObject put\<rparr>)])" using a(1) by blast
    have "good_wal X U w' (es @ [(b, \<lparr>wr_lsn = lsn, wr_payload = PutObject put\<rparr>)])"
      using b es g by (auto simp: good_wal_def)
    then show ?thesis using Inr e1 a(3,4) by (auto intro: eng_inv_wal [OF inv])
  qed
qed

lemma checkpoint_keeps:
  assumes inv: "eng_inv X V U e" and "lsn \<le> wal_current_lsn (eg_wal e)"
  shows "eng_inv X V U (e\<lparr>eg_wal := wal_checkpoint (eg_wal e) lsn\<rparr>)"
proof -
  obtain es where es: "good_wal X U (eg_wal e) es" using inv by (auto simp: eng_inv_iff)
  then have "good_wal X U (wal_checkpoint (eg_wal e) lsn) (if lsn = wal_current_lsn (eg_wal e) then [] else es)"
    using wal_checkpoint_inv [OF _ assms(2)] by (auto simp: good_wal_def)
  then show ?thesis by (rule eng_inv_wal [OF inv]) (simp add: wal_checkpoint_def Let_def)
qed

section \<open>The commit of a put\<close>

text \<open>The object and version a put writes to.\<close>

definition target_of :: "'db redb \<Rightarrow> 'db view \<Rightarrow> put_env \<Rightarrow> rstring \<Rightarrow> 'db \<Rightarrow> object_id \<Rightarrow> u32 \<Rightarrow> bool" where
  "target_of R V P name db i ver \<longleftrightarrow>
     (Option.bind (V db NAME_INDEX name) oid_of_value = None
        \<and> i = fst (oid_generate (pe_ts P) (pe_pid P) (pe_counter P)) \<and> ver = 1)
     \<or> (\<exists>r. Option.bind (V db NAME_INDEX name) oid_of_value = Some i
          \<and> get_object R db i = Inr (Some r) \<and> ver = next_version r)"

lemma put_target_state: "put_target R P name e = (e1, r) \<Longrightarrow> e1 = e"
  unfolding put_target_def by (auto simp: bind_ask_db bindS_liftE split: sum.splits option.splits)

lemma put_target_spec:
  assumes R: "redb_ok R V" and "put_target R P name e = (e1, Inr (i, ver))"
  shows "target_of R V P name (eg_db e) i ver"
  using assms(2) unfolding put_target_def target_of_def
  by (auto simp: bind_ask_db bindS_liftE ok_or_def resolve_name_view [OF R, symmetric] split: sum.splits option.splits)

lemma oid_of_value_wf: "oid_of_value v = Some i \<Longrightarrow> wf_oid i"
  by (auto simp: oid_of_value_def wf_oid_def oid_from_raw_def split: if_splits)

lemma target_wf: "target_of R V P name db i ver \<Longrightarrow> wf_oid i"
  by (auto simp: target_of_def wf_oid_generate bind_eq_Some_conv dest: oid_of_value_wf)

definition put_of :: "rstring \<Rightarrow> put_env \<Rightarrow> chunk_id list \<times> u64 \<times> bytes \<times> nat \<Rightarrow> object_id \<Rightarrow> u32 \<Rightarrow> wal_put" where
  "put_of name P rd i ver =
     \<lparr>wp_name = name, wp_object_id = i, wp_version = ver,
      wp_manifest = manifest_new (pe_now P) (fst rd) (fst (snd rd)) (fst (snd (snd rd))), wp_chunks = []\<rparr>"

lemma put_of_simps [simp]:
  "wp_name (put_of name P rd i ver) = name" "wp_object_id (put_of name P rd i ver) = i"
  "wp_version (put_of name P rd i ver) = ver" "wp_chunks (put_of name P rd i ver) = []"
  "m_chunks (wp_manifest (put_of name P rd i ver)) = fst rd"
  "m_total_size (wp_manifest (put_of name P rd i ver)) = fst (snd rd)"
  "m_content_hash (wp_manifest (put_of name P rd i ver)) = fst (snd (snd rd))"
  by (simp_all add: put_of_def manifest_new_def)

lemma read_of_described: "read_of X U has rd cs \<Longrightarrow> described X U (wp_manifest (put_of name P rd i ver))"
  by (auto simp: described_def read_of_def)

lemma put_commit_split:
  assumes c: "put_commit X R P name rd e = (e', r)"
  obtains (target) err where "put_target R P name e = (e', Inl err)" "r = Inl err"
    | (append) i ver err where "put_target R P name e = (e, Inr (i, ver))"
        "on_wal (\<lambda>w. wal_append_put_and_sync X (pe_nonce P) w (put_of name P rd i ver)) e = (e', Inl err)" "r = Inl err"
    | (applying) i ver lsn e1 err where "put_target R P name e = (e, Inr (i, ver))"
        "on_wal (\<lambda>w. wal_append_put_and_sync X (pe_nonce P) w (put_of name P rd i ver)) e = (e1, Inr lsn)"
        "apply_put X R (put_of name P rd i ver) e1 = (e', Inl err)" "r = Inl err"
    | (committed) i ver lsn e1 mid e2 ps where "put_target R P name e = (e, Inr (i, ver))"
        "on_wal (\<lambda>w. wal_append_put_and_sync X (pe_nonce P) w (put_of name P rd i ver)) e = (e1, Inr lsn)"
        "apply_put X R (put_of name P rd i ver) e1 = (e2, Inr mid)"
        "e' = e2\<lparr>eg_wal := wal_checkpoint (eg_wal e2) lsn\<rparr>" "r = Inr ps"
        "ps_object_id ps = i" "ps_version ps = ver" "ps_manifest_id ps = mid" "ps_total_bytes ps = fst (snd rd)"
proof -
  obtain cids tot hash new where rd: "rd = (cids, tot, hash, new)" by (cases rd)
  obtain e0 t where t: "put_target R P name e = (e0, t)" by fastforce
  have e0: "e0 = e" by (rule put_target_state [OF t])
  show thesis
  proof (cases t)
    case (Inl err)
    then show thesis using c t target by (simp add: put_commit_def rd Let_def bindS_def)
  next
    case (Inr iv)
    obtain i ver where iv: "iv = (i, ver)" by (cases iv)
    let ?put = "put_of name P rd i ver"
    have t': "put_target R P name e = (e, Inr (i, ver))" using t e0 Inr iv by simp
    have p: "\<lparr>wp_name = name, wp_object_id = i, wp_version = ver, wp_manifest = manifest_new (pe_now P) cids tot hash,
        wp_chunks = []\<rparr> = ?put" by (simp add: put_of_def rd)
    obtain e1 r1 where a: "on_wal (\<lambda>w. wal_append_put_and_sync X (pe_nonce P) w ?put) e = (e1, r1)" by fastforce
    show thesis
    proof (cases r1)
      case (Inl err)
      then show thesis using c t' a append by (simp add: put_commit_def rd Let_def bindS_def p [unfolded rd])
    next
      case (Inr lsn)
      obtain e2 r2 where b: "apply_put X R ?put e1 = (e2, r2)" by fastforce
      show thesis
      proof (cases r2)
        case (Inl err)
        then show thesis
          using c t' a b Inr applying by (simp add: put_commit_def rd Let_def bindS_def p [unfolded rd])
      next
        case (Inr mid)
        let ?ps = "\<lparr>ps_object_id = i, ps_version = ver, ps_manifest_id = mid, ps_total_bytes = tot,
            ps_chunk_count = length (m_chunks (manifest_new (pe_now P) cids tot hash)), ps_new_chunks = new,
            ps_dedup_chunks = length cids - new\<rparr>"
        have "e' = e2\<lparr>eg_wal := wal_checkpoint (eg_wal e2) lsn\<rparr>" "r = Inr ?ps"
          using c t' a b Inr \<open>r1 = Inr lsn\<close> by (simp_all add: put_commit_def rd Let_def bindS_def p [unfolded rd] on_wal_def)
        from committed [OF t' a [unfolded \<open>r1 = Inr lsn\<close>] b [unfolded Inr] this] show thesis by (simp add: rd)
      qed
    qed
  qed
qed

lemma apply_put_segments: "keeps (\<lambda>e. eg_segments e = s) (apply_put X R put)"
  unfolding apply_put_def
  by (intro keeps_intros) (auto simp: keeps_def on_db_def set_db_def split: sum.splits)

lemma put_commit_segments:
  assumes "put_commit X R P name rd e = (e', r)"
  shows "eg_segments e' = eg_segments e"
  using assms
proof (cases rule: put_commit_split)
  case (target err)
  then show ?thesis using put_target_state by metis
next
  case (append i ver err)
  then show ?thesis using on_wal_append(1) [OF append(2)] by simp
next
  case (applying i ver lsn e1 err)
  then show ?thesis using on_wal_append(1) [OF applying(2)] keepsD [OF apply_put_segments applying(3)] by simp
next
  case (committed i ver lsn e1 mid e2 ps)
  then show ?thesis using on_wal_append(1) [OF committed(2)] keepsD [OF apply_put_segments committed(3)] by simp
qed

section \<open>The put keeps the invariant\<close>

text \<open>What a put needs from its surroundings: room for a version and a sequence number, a nonce, a name in UTF-8.\<close>

definition put_ready :: "'db view \<Rightarrow> put_env \<Rightarrow> rstring \<Rightarrow> 'db engine \<Rightarrow> bool" where
  "put_ready V P name e \<longleftrightarrow> room (V (eg_db e)) 1 \<and> length (pe_nonce P) = 24 \<and> utf8_valid name
     \<and> wal_current_lsn (eg_wal e) < - 1"

lemma read_of_put:
  assumes "ext_ok X" "read_of X U has rd cs"
    and "wal_append_put_and_sync X nonce w (put_of name P rd i ver) = (w', Inr lsn)" "wf_oid i"
  shows "good_put X U (put_of name P rd i ver)"
proof -
  have "list_all wf_cid (fst rd)" "length (fst (snd (snd rd))) = 32"
    using assms(1,2) ext_okD(1) [OF assms(1)] by (auto simp: read_of_def list_all_iff)
  then have "wf_manifest (wp_manifest (put_of name P rd i ver))"
    using append_manifest_wf [OF assms(3)] by simp
  then show ?thesis using read_of_described [OF assms(2)] assms(4) by (simp add: good_put_def)
qed

lemma apply_put_keeps:
  assumes R: "redb_ok R V" and inv: "eng_inv X V U e" and gp: "good_put X U put" and rm: "room (V (eg_db e)) (Suc n)"
    and has: "\<forall>c \<in> set (m_chunks (wp_manifest put)). ss_has_chunk (eg_segments e) c"
    and ap: "apply_put X R put e = (e', r)"
  shows "eng_inv X V U e' \<and> eg_segments e' = eg_segments e \<and> eg_wal e' = eg_wal e \<and> room (V (eg_db e')) n"
proof -
  obtain db' where db': "e' = e\<lparr>eg_db := db'\<rparr>" "V db' \<in> set (put_stages X put (V (eg_db e)))"
    using apply_put_stages [OF R ap] by blast
  have "db_ok X U (ss_has_chunk (eg_segments e)) (V (eg_db e))" using inv by (simp add: eng_inv_iff)
  from put_stages_ok [OF this gp rm has db'(2)] show ?thesis by (simp add: db'(1) eng_inv_db [OF inv])
qed

lemma put_commit_keeps:
  assumes R: "redb_ok R V" and inv: "eng_inv X V U e" and rdy: "put_ready V P name e"
    and rd: "read_of X U (ss_has_chunk (eg_segments e)) rd cs" and c: "put_commit X R P name rd e = (e', r)"
  shows "eng_inv X V U e'"
proof -
  have X: "ext_ok X" using inv by (simp add: eng_inv_iff)
  have app: "eng_inv X V U e1 \<and> (\<forall>lsn. r1 = Inr lsn \<longrightarrow> wal_current_lsn (eg_wal e1) = lsn \<and> good_put X U (put_of name P rd i ver))
      \<and> eg_segments e1 = eg_segments e \<and> eg_db e1 = eg_db e"
    if t: "put_target R P name e = (e, Inr (i, ver))"
      and a: "on_wal (\<lambda>w. wal_append_put_and_sync X (pe_nonce P) w (put_of name P rd i ver)) e = (e1, r1)" for i ver e1 r1
  proof -
    have i: "wf_oid i" using target_wf [OF put_target_spec [OF R t]] .
    have gp: "good_put X U (put_of name P rd i ver)" if "r1 = Inr lsn" for lsn
      using read_of_put [OF X rd _ i] on_wal_append(2) [OF a] that by (metis prod.collapse)
    from append_keeps [OF inv _ _ _ _ _ gp a] rdy i on_wal_append(1) [OF a] gp show ?thesis
      by (auto simp: put_ready_def)
  qed
  have has: "\<forall>c \<in> set (fst rd). ss_has_chunk (eg_segments e) c" using rd by (simp add: read_of_def)
  have rm: "room (V (eg_db e)) (Suc 0)" using rdy by (simp add: put_ready_def)
  from c show ?thesis
  proof (cases rule: put_commit_split)
    case (target err)
    then show ?thesis using inv put_target_state by metis
  next
    case (append i ver err)
    then show ?thesis using app by blast
  next
    case (applying i ver lsn e1 err)
    then show ?thesis using apply_put_keeps [OF R _ _ _ _ applying(3), where n = 0] app [OF applying(1,2)] rm has by simp
  next
    case (committed i ver lsn e1 mid e2 ps)
    have e2: "eng_inv X V U e2" "eg_wal e2 = eg_wal e1"
      using apply_put_keeps [OF R _ _ _ _ committed(3), where n = 0 and U = U] app [OF committed(1,2)] rm has by simp_all
    show ?thesis unfolding committed(4)
      by (rule checkpoint_keeps [OF e2(1)]) (use app [OF committed(1,2)] e2(2) in simp)
  qed
qed

lemma put_file_named_split:
  assumes p: "put_file_named X R P name src e = Some (e', r)"
  obtains (rejected) err where "e' = e" "r = Inl err"
    | (unread) s' err where "put_attempts X (map (src_attempt src) [1..<Suc MAX_STABLE_READ_ATTEMPTS]) (eg_segments e) = Some (s', err)"
        "e' = e\<lparr>eg_segments := s'\<rparr>" "\<exists>err. r = Inl err"
    | (stored) s' rd where "put_attempts X (map (src_attempt src) [1..<Suc MAX_STABLE_READ_ATTEMPTS]) (eg_segments e) = Some (s', Inr (Some rd))"
        "put_commit X R P (trim name) rd (e\<lparr>eg_segments := s'\<rparr>) = (e', r)"
proof (cases "(\<exists>err. e' = e \<and> r = Inl err)")
  case True
  then show thesis using rejected by blast
next
  case False
  then obtain s' r0 where at: "put_attempts X (map (src_attempt src) [1..<Suc MAX_STABLE_READ_ATTEMPTS]) (eg_segments e) = Some (s', r0)"
    and b: "bindS (liftE r0) (\<lambda>rd. bindS (liftE (ok_or rd (Io WouldBlock))) (put_commit X R P (trim name))) (e\<lparr>eg_segments := s'\<rparr>) = (e', r)"
    using p by (auto simp: put_file_named_def Let_def simp del: upt_Suc split: sum.splits if_splits option.splits)
  show thesis
  proof (cases "\<exists>rd. r0 = Inr (Some rd)")
    case True
    then obtain rd where "r0 = Inr (Some rd)" by blast
    then show thesis using stored [of s' rd] at b by (simp add: bindS_liftE ok_or_def del: upt_Suc)
  next
    case False
    then have "e' = e\<lparr>eg_segments := s'\<rparr> \<and> (\<exists>err. r = Inl err)"
      using b by (auto simp: bindS_liftE ok_or_def split: sum.splits option.splits)
    then show thesis using unread [OF at] by blast
  qed
qed

definition source_ok :: "ext \<Rightarrow> bytes set \<Rightarrow> source \<Rightarrow> bool" where
  "source_ok X U src \<longleftrightarrow> (\<forall>k. attempt_ok X U (src_attempt src k))"

lemma put_attempts_keeps:
  assumes inv: "eng_inv X V U e" and "fastcdc_ok X" "source_ok X U src"
    and at: "put_attempts X (map (src_attempt src) ks) (eg_segments e) = Some (s', r)"
    and bnd: "w_segment_id (ss_writer s') < 2 ^ 64"
  shows "eng_inv X V U (e\<lparr>eg_segments := s'\<rparr>)"
    and "r = Inr (Some rd) \<Longrightarrow> \<exists>k \<in> set ks. \<exists>cs. stream_chunks X (at_blocks (src_attempt src k)) = Some cs
        \<and> read_of X U (ss_has_chunk s') rd cs \<and> stable_attempt (src_attempt src k) cs"
proof -
  have X: "ext_ok X" and ok: "seg_ok X U (eg_segments e)" using inv by (auto simp: eng_inv_iff)
  have as: "list_all (attempt_ok X U) (map (src_attempt src) ks)"
    using assms(3) by (auto simp: source_ok_def list_all_iff)
  note a = put_attempts_ok [OF at ok X assms(2) as bnd]
  have "ss_vault_key s' = ss_vault_key (eg_segments e)"
    using put_attempts_mono [OF at seg_ok_inv [OF ok X] assms(2) as] by simp
  then show "eng_inv X V U (e\<lparr>eg_segments := s'\<rparr>)" using a by (intro eng_inv_segments [OF inv]) auto
  show "\<exists>k \<in> set ks. \<exists>cs. stream_chunks X (at_blocks (src_attempt src k)) = Some cs
      \<and> read_of X U (ss_has_chunk s') rd cs \<and> stable_attempt (src_attempt src k) cs"
    if "r = Inr (Some rd)" using a that by auto
qed

lemma put_file_named_keeps:
  assumes R: "redb_ok R V" and inv: "eng_inv X V U e" and F: "fastcdc_ok X" and src: "source_ok X U src"
    and rdy: "put_ready V P (trim name) e" and p: "put_file_named X R P name src e = Some (e', r)"
    and bnd: "w_segment_id (ss_writer (eg_segments e')) < 2 ^ 64"
  shows "eng_inv X V U e'"
  using p
proof (cases rule: put_file_named_split)
  case (rejected err)
  then show ?thesis using inv by simp
next
  case (unread s' err)
  then show ?thesis using put_attempts_keeps(1) [OF inv F src unread(1)] bnd by simp
next
  case (stored s' rd)
  have "eg_segments e' = s'" using put_commit_segments [OF stored(2)] by simp
  then have b: "w_segment_id (ss_writer s') < 2 ^ 64" using bnd by simp
  obtain cs where "read_of X U (ss_has_chunk s') rd cs"
    using put_attempts_keeps(2) [OF inv F src stored(1) b refl] by blast
  then show ?thesis
    using put_commit_keeps [OF R put_attempts_keeps(1) [OF inv F src stored(1) b] _ _ stored(2)] rdy
    by (simp add: put_ready_def)
qed

end
