(* ===== verification/Oos_Engine_Open.thy ===== *)
theory Oos_Engine_Open
  imports Oos_Engine_Put
begin

text \<open>
  Opening the engine after a crash: the segments whose newest file was cut, or whose compaction was
  interrupted, the redo log with a torn tail, and the replay of the records the log owes.
\<close>

section \<open>Replay\<close>

lemma replay_chunks_none: "foldS (replay_chunk X EV) () [] s = (s, Inr ())"
  by simp

lemma replay_put_keeps:
  assumes R: "redb_ok R V" and inv: "eng_inv X V U e" and gp: "good_put X U put" and rm: "room (V (eg_db e)) (Suc n)"
    and rp: "replay_put X R EV put e = (e', r)"
  shows "eng_inv X V U e' \<and> eg_segments e' = eg_segments e \<and> eg_wal e' = eg_wal e \<and> (\<forall>u. r = Inr u \<longrightarrow> room (V (eg_db e')) n)"
proof (cases "\<forall>c \<in> set (m_chunks (wp_manifest put)). ss_has_chunk (eg_segments e) c")
  case True
  obtain r' where ap: "apply_put X R put e = (e', r')"
    using rp gp True by (auto simp: replay_put_def on_segments_def bindS_def ensure_def good_put_def split: prod.splits sum.splits)
  from apply_put_keeps [OF R inv gp rm True ap] show ?thesis by simp
next
  case False
  have "wp_chunks put = []" using gp by (simp add: good_put_def)
  then have "replay_put X R EV put e = (e, Inl (WalRecovery ''WAL manifest references missing durable chunk''))"
    by (simp add: replay_put_def on_segments_def bindS_def ensure_def False)
  then show ?thesis using inv rp by simp
qed

definition good_rec :: "ext \<Rightarrow> bytes set \<Rightarrow> wal_record \<Rightarrow> bool" where
  "good_rec X U r \<longleftrightarrow> (\<forall>put. wr_payload r = PutObject put \<longrightarrow> good_put X U put)"

lemma replay_record_keeps:
  assumes R: "redb_ok R V" and inv: "eng_inv X V U e" and g: "good_rec X U rc" and rm: "room (V (eg_db e)) (Suc n)"
    and rp: "replay_record X R EV mx rc e = (e', r)"
  shows "eng_inv X V U e' \<and> eg_segments e' = eg_segments e \<and> eg_wal e' = eg_wal e
    \<and> (\<forall>mx'. r = Inr mx' \<longrightarrow> room (V (eg_db e')) n \<and> (mx' = mx \<or> mx' = wr_lsn rc))"
proof (cases "wr_payload rc")
  case (PutObject put)
  obtain r1 where r1: "replay_put X R EV put e = (e', r1)" "r = (case r1 of Inl e \<Rightarrow> Inl e | Inr _ \<Rightarrow> Inr (if mx < wr_lsn rc then wr_lsn rc else mx))"
    using rp by (auto simp: replay_record_def PutObject bindS_def split: prod.splits sum.splits)
  have "good_put X U put" using g PutObject by (simp add: good_rec_def)
  from replay_put_keeps [OF R inv this rm r1(1)] r1(2) show ?thesis by (auto split: sum.splits)
next
  case (Checkpoint l)
  then show ?thesis using rp inv room_mono [OF rm] by (auto simp: replay_record_def)
qed

lemma replay_records_keeps:
  assumes R: "redb_ok R V"
  shows "foldS (replay_record X R EV) mx rs e = (e', r) \<Longrightarrow> eng_inv X V U e \<Longrightarrow> \<forall>rc \<in> set rs. good_rec X U rc
    \<Longrightarrow> room (V (eg_db e)) (length rs)
    \<Longrightarrow> eng_inv X V U e' \<and> eg_segments e' = eg_segments e \<and> eg_wal e' = eg_wal e
      \<and> (\<forall>mx'. r = Inr mx' \<longrightarrow> mx' = mx \<or> mx' \<in> wr_lsn ` set rs)"
proof (induction rs arbitrary: mx e)
  case (Cons rc rs)
  obtain e1 r1 where r1: "replay_record X R EV mx rc e = (e1, r1)" by fastforce
  have rm: "room (V (eg_db e)) (Suc (length rs))" using Cons.prems(4) by simp
  have g: "good_rec X U rc" using Cons.prems(3) by simp
  note k = replay_record_keeps [OF R Cons.prems(2) g rm r1]
  show ?case
  proof (cases r1)
    case (Inl err)
    then show ?thesis using Cons.prems(1) k by (auto simp: bindS_def r1)
  next
    case (Inr mx1)
    have "foldS (replay_record X R EV) mx1 rs e1 = (e', r)" using Cons.prems(1) by (simp add: bindS_def r1 Inr)
    from Cons.IH [OF this] k Inr Cons.prems(3) show ?thesis by auto
  qed
qed auto

lemma replay_wal_keeps:
  assumes R: "redb_ok R V" and inv: "eng_inv X V U e"
    and rs: "wal_read_uncheckpointed_records X (eg_wal e) = Inr rs" and rm: "room (V (eg_db e)) (length rs)"
    and rp: "replay_wal X R EV e = (e', r)"
  shows "eng_inv X V U e'"
proof (cases "rs = []")
  case True
  then show ?thesis using rp inv rs by (simp add: replay_wal_def bindS_def)
next
  case False
  obtain es where es: "good_wal X U (eg_wal e) es" using inv by (auto simp: eng_inv_iff)
  then have wi: "wal_inv X (eg_wal e) es" by (simp add: good_wal_def)
  have rs': "rs = filter (\<lambda>r. wal_checkpoint_lsn (eg_wal e) < wr_lsn r) (map snd es)"
    using wal_read_inv [OF wi] rs by simp
  have g: "\<forall>rc \<in> set rs. good_rec X U rc" using es by (auto simp: rs' good_wal_def good_rec_def)
  obtain e1 r1 where f: "foldS (replay_record X R EV) (wal_checkpoint_lsn (eg_wal e)) rs e = (e1, r1)" by fastforce
  note k = replay_records_keeps [OF R f inv g rm]
  show ?thesis
  proof (cases r1)
    case (Inl err)
    then show ?thesis using rp rs False f k by (simp add: replay_wal_def bindS_def)
  next
    case (Inr mx)
    have e': "e' = e1\<lparr>eg_wal := wal_checkpoint (eg_wal e1) mx\<rparr>"
      using rp rs False f Inr by (simp add: replay_wal_def bindS_def on_wal_def)
    have "mx \<le> wal_current_lsn (eg_wal e)"
      using k Inr wi by (auto simp: wal_inv_def rs')
    then show ?thesis using checkpoint_keeps [of X V U e1 mx] k unfolding e' by simp
  qed
qed

section \<open>Opening\<close>

text \<open>
  The data the reopened segments hold, compared with what the live manifests need.
\<close>

definition needs :: "ext \<Rightarrow> 'db view \<Rightarrow> 'db \<Rightarrow> chunk_id set" where
  "needs X V db = chunks_of X (V db) (live_manifests X (V db))"

lemma open_internal_keeps:
  assumes R: "redb_ok R V" and inv: "eng_inv X V U e"
    and T: "\<And>t. t \<noteq> MANIFESTS \<Longrightarrow> V db t = V (eg_db e) t"
      "\<And>mid. mid \<in> live_manifests X (V (eg_db e)) \<Longrightarrow> V db MANIFESTS mid = V (eg_db e) MANIFESTS mid"
    and s: "ss_open X E sd 0 (eg_vault_key e) = Inr s" "\<exists>log. seg_log_inv X s log"
    and has: "\<And>c. c \<in> needs X V (eg_db e) \<Longrightarrow> ss_has_chunk (eg_segments e) c \<Longrightarrow> ss_has_chunk s c"
    and U: "\<And>c d. ss_get_chunk X s c = Inr d \<Longrightarrow> d \<in> U"
    and t: "torn_tail X (eg_vault_key e) t"
    and op: "open_internal X R E EV sd db (wal_on_disk (eg_wal e)\<lparr>wd_log := wal_log (eg_wal e) @ t\<rparr>) (eg_vault_key e) = Inr e'"
    and rm: "\<And>rs. wal_read_uncheckpointed_records X (eg_wal e) = Inr rs \<Longrightarrow> room (V db) (length rs)"
  shows "eng_inv X V U e'"
proof -
  have X: "ext_ok X" and vk: "wal_vault_key (eg_wal e) = eg_vault_key e"
    and dbk: "db_ok X U (ss_has_chunk (eg_segments e)) (V (eg_db e))" using inv by (auto simp: eng_inv_iff)
  obtain es where es: "good_wal X U (eg_wal e) es" using inv by (auto simp: eng_inv_iff)
  then have wi: "wal_inv X (eg_wal e) es" by (simp add: good_wal_def)
  obtain w where w: "wal_open X (wal_on_disk (eg_wal e)\<lparr>wd_log := wal_log (eg_wal e) @ t\<rparr>) (eg_vault_key e) = Inr w"
    "wal_inv X w es" "wal_vault_key w = eg_vault_key e" "wal_checkpoint_lsn w = wal_checkpoint_lsn (eg_wal e)"
    using wal_open_torn [OF wi X, of t] t vk by auto
  let ?e0 = "\<lparr>eg_segments = s, eg_db = db, eg_wal = w, eg_vault_key = eg_vault_key e\<rparr>"
  obtain r where rp: "replay_wal X R EV ?e0 = (e', r)"
    using op s(1) w(1) by (auto simp: open_internal_def split: prod.splits sum.splits)
  have "db_ok X U (ss_has_chunk s) (V db)"
    by (rule db_ok_collect [OF dbk T]) (use has in \<open>auto simp: needs_def\<close>)
  moreover have "good_wal X U w es" using es w(2) by (simp add: good_wal_def)
  moreover have "seg_ok X U s" using s(2) U by (auto simp: seg_ok_def)
  ultimately have e0: "eng_inv X V U ?e0"
    using inv ss_open_key [OF s(1)] w(3) by (auto simp: eng_inv_iff)
  have rs: "wal_read_uncheckpointed_records X w = wal_read_uncheckpointed_records X (eg_wal e)"
    using wal_read_inv [OF w(2)] wal_read_inv [OF wi] w(4) by simp
  obtain rs' where rs': "wal_read_uncheckpointed_records X w = Inr rs'" using wal_read_inv [OF w(2)] by blast
  show ?thesis
    by (rule replay_wal_keeps [OF R e0 _ _ rp]) (use rs' rs rm in simp_all)
qed

end
