(* ===== verification/Oos_Engine_Run.thy ===== *)
theory Oos_Engine_Run
  imports Oos_Engine_Open
begin

text \<open>
  Everything that can happen to a store: creation, every operation of the engine whether it succeeds or
  fails, and restarts after crashes, in any order.  The integrity invariant holds throughout.
\<close>

text \<open>
  The chunks of live manifests lie in what survives when the newest segment file is cut to \<open>n\<close> bytes;
  the engine syncs the segment file before it appends to the redo log.
\<close>

definition synced :: "ext \<Rightarrow> 'db view \<Rightarrow> 'db engine \<Rightarrow> nat \<Rightarrow> bool" where
  "synced X V e n \<longleftrightarrow> (\<forall>c \<in> needs X V (eg_db e). \<forall>loc. idx_get (ss_index (eg_segments e)) c = Some loc
     \<longrightarrow> cl_segment_id loc = w_segment_id (ss_writer (eg_segments e))
     \<longrightarrow> cl_record_offset loc + 80 + unat (cl_payload_len loc) \<le> n)"

text \<open>The redo log a crash leaves on disk, and the room its replay needs.\<close>

definition crashed_wal :: "'db engine \<Rightarrow> bytes \<Rightarrow> wal_disk" where
  "crashed_wal e t = wal_on_disk (eg_wal e)\<lparr>wd_log := wal_log (eg_wal e) @ t\<rparr>"

definition replay_room :: "ext \<Rightarrow> 'db view \<Rightarrow> 'db engine \<Rightarrow> 'db \<Rightarrow> bool" where
  "replay_room X V e db \<longleftrightarrow> (\<forall>rs. wal_read_uncheckpointed_records X (eg_wal e) = Inr rs \<longrightarrow> room (V db) (length rs))"

definition no_objects :: "tables \<Rightarrow> bool" where
  "no_objects T \<longleftrightarrow> T OBJECT_INDEX = (\<lambda>_. None) \<and> T SNAPSHOTS = (\<lambda>_. None)"

definition reads_in :: "ext \<Rightarrow> bytes set \<Rightarrow> seg_store \<Rightarrow> bool" where
  "reads_in X U s \<longleftrightarrow> (\<forall>c d. ss_get_chunk X s c = Inr d \<longrightarrow> d \<in> U)"

text \<open>The tables during a collection: some manifests that are not live may be gone.\<close>

definition swept :: "ext \<Rightarrow> 'db view \<Rightarrow> 'db \<Rightarrow> 'db \<Rightarrow> bool" where
  "swept X V db db' \<longleftrightarrow> (\<forall>t. t \<noteq> MANIFESTS \<longrightarrow> V db' t = V db t)
     \<and> (\<forall>mid \<in> live_manifests X (V db). V db' MANIFESTS mid = V db MANIFESTS mid)"

inductive eg_run :: "ext \<Rightarrow> 'db redb \<Rightarrow> 'db view \<Rightarrow> bytes set \<Rightarrow> 'db engine \<Rightarrow> bool" for X R V U where
  eg_new: "no_objects (V db) \<Longrightarrow>
    open_internal X R E EV \<lparr>sd_files = [], sd_dirs = dirs\<rparr> db \<lparr>wd_log = [], wd_meta = None\<rparr> vk = Inr e \<Longrightarrow> eg_run X R V U e"
| eg_put: "eg_run X R V U e \<Longrightarrow> source_ok X U src \<Longrightarrow> put_ready V P (trim name) e
    \<Longrightarrow> put_file_named X R P name src e = Some (e', r) \<Longrightarrow> w_segment_id (ss_writer (eg_segments e')) < 2 ^ 64 \<Longrightarrow> eg_run X R V U e'"
| eg_delete: "eg_run X R V U e \<Longrightarrow> delete_file R name e = (e', rb) \<Longrightarrow> eg_run X R V U e'"
| eg_delete_prefix: "eg_run X R V U e \<Longrightarrow> delete_prefix R pre e = (e', rn) \<Longrightarrow> eg_run X R V U e'"
| eg_unbind: "eg_run X R V U e \<Longrightarrow> unbind_file R name e = (e', rb) \<Longrightarrow> eg_run X R V U e'"
| eg_rename: "eg_run X R V U e \<Longrightarrow> rename_file R old new e = (e', rb) \<Longrightarrow> eg_run X R V U e'"
| eg_watched: "eg_run X R V U e \<Longrightarrow> update_watched_prefix R root a b incl e = (e', rc) \<Longrightarrow> eg_run X R V U e'"
| eg_prune: "eg_run X R V U e \<Longrightarrow> prune_file_versions R name k e = (e', rn) \<Longrightarrow> eg_run X R V U e'"
| eg_prune_all: "eg_run X R V U e \<Longrightarrow> prune_all R k e = (e', rn) \<Longrightarrow> eg_run X R V U e'"
| eg_rollback: "eg_run X R V U e \<Longrightarrow> room (V (eg_db e)) 1
    \<Longrightarrow> rollback_file X R now name ver out (e, d) = ((e', d'), rr) \<Longrightarrow> eg_run X R V U e'"
| eg_snapshot: "eg_run X R V U e
    \<Longrightarrow> (\<And>objs. list_named_objects R (eg_db e) = Inr objs \<Longrightarrow> wf_snapshot (snapshot_new now (trim label) (snapshot_entries objs)))
    \<Longrightarrow> create_snapshot X R now label e = (e', rs) \<Longrightarrow> eg_run X R V U e'"
| eg_unsnapshot: "eg_run X R V U e \<Longrightarrow> eg_delete_snapshot R label e = (e', rb) \<Longrightarrow> eg_run X R V U e'"
| eg_collect: "eg_run X R V U e \<Longrightarrow> (\<And>c. env_ok (EC c)) \<Longrightarrow> eg_gc X R E EC tmp e = (e', rg)
    \<Longrightarrow> w_segment_id (ss_writer (eg_segments e')) < 2 ^ 64 \<Longrightarrow> eg_run X R V U e'"
| eg_crash: "eg_run X R V U e \<Longrightarrow> 32 \<le> n \<Longrightarrow> synced X V e n \<Longrightarrow> torn_tail X (eg_vault_key e) t
    \<Longrightarrow> replay_room X V e (eg_db e)
    \<Longrightarrow> ss_open X E (cut_newest (eg_segments e) n dirs) 0 (eg_vault_key e) = Inr s \<Longrightarrow> reads_in X U s
    \<Longrightarrow> open_internal X R E EV (cut_newest (eg_segments e) n dirs) (eg_db e) (crashed_wal e t) (eg_vault_key e) = Inr e'
    \<Longrightarrow> eg_run X R V U e'"
| eg_collect_crash: "eg_run X R V U e \<Longrightarrow> gc_mark X R (eg_db e) = Inr (chunks, manifests, roots) \<Longrightarrow> swept X V (eg_db e) db
    \<Longrightarrow> (\<And>c. env_ok (EC c)) \<Longrightarrow> compact_stage X E EC chunks (eg_segments e) = Inr (nd, nw, nidx)
    \<Longrightarrow> w_segment_id nw < 2 ^ 64 \<Longrightarrow> prefix ops (compact_plan tmp (ss_files (eg_segments e)) nd (0 < idx_len nidx))
    \<Longrightarrow> sd = apply_ops \<lparr>sd_files = ss_files (eg_segments e), sd_dirs = AList.update tmp nd dirs\<rparr> ops
    \<Longrightarrow> torn_tail X (eg_vault_key e) t \<Longrightarrow> replay_room X V e db
    \<Longrightarrow> ss_open X E' sd 0 (eg_vault_key e) = Inr s \<Longrightarrow> reads_in X U s
    \<Longrightarrow> open_internal X R E' EV sd db (crashed_wal e t) (eg_vault_key e) = Inr e'
    \<Longrightarrow> eg_run X R V U e'"

section \<open>The steps\<close>

lemma open_new:
  "\<exists>e. open_internal X R E EV \<lparr>sd_files = [], sd_dirs = dirs\<rparr> db \<lparr>wd_log = [], wd_meta = None\<rparr> vk = Inr e
    \<and> eg_db e = db \<and> eg_vault_key e = vk \<and> ss_vault_key (eg_segments e) = vk \<and> wal_vault_key (eg_wal e) = vk
    \<and> (\<exists>sh. seg_log_inv X (eg_segments e) [(1, sh, [])]) \<and> wal_inv X (eg_wal e) [] \<and> wal_current_lsn (eg_wal e) = 0"
proof -
  obtain s sh where s: "ss_open X E \<lparr>sd_files = [], sd_dirs = dirs\<rparr> 0 vk = Inr s" "ss_vault_key s = vk" "seg_log_inv X s [(1, sh, [])]"
    using ss_open_new [of "\<lparr>sd_files = [], sd_dirs = dirs\<rparr>" X E 0 vk] by auto
  obtain w where w: "wal_open X \<lparr>wd_log = [], wd_meta = None\<rparr> vk = Inr w" "wal_inv X w []" "wal_vault_key w = vk"
    using wal_open_inv [of X vk "[]" "\<lparr>wd_log = [], wd_meta = None\<rparr>" 0] by auto
  have "wal_current_lsn w = 0"
    using wal_open_cut [of X vk "[]" "\<lparr>wd_log = [], wd_meta = None\<rparr>" 0] w(1) by (auto simp: meta_lsn_def)
  moreover have "wal_read_uncheckpointed_records X w = Inr []" using wal_read_inv [OF w(2)] by simp
  ultimately show ?thesis
    using s w by (auto simp: open_internal_def replay_wal_def bindS_def)
qed

lemma open_new_inv:
  assumes X: "ext_ok X" "collision_free X U" and none: "no_objects (V db)"
    and op: "open_internal X R E EV \<lparr>sd_files = [], sd_dirs = dirs\<rparr> db \<lparr>wd_log = [], wd_meta = None\<rparr> vk = Inr e"
  shows "eng_inv X V U e"
proof -
  obtain sh where e: "eg_db e = db" "eg_vault_key e = vk" "ss_vault_key (eg_segments e) = vk" "wal_vault_key (eg_wal e) = vk"
    "seg_log_inv X (eg_segments e) [(1, sh, [])]" "wal_inv X (eg_wal e) []"
    using open_new [of X R E EV dirs db vk] op by auto
  have "\<not> ss_has_chunk (eg_segments e) c" for c using seg_log_has [OF e(5)] by simp
  then have "seg_ok X U (eg_segments e)" using e(5) not_has_get [of "eg_segments e" _ X] by (auto simp: seg_ok_def)
  moreover have "db_ok X U (ss_has_chunk (eg_segments e)) (V db)"
    using none by (simp add: db_ok_def live_ok_def live_manifests_def keys_ok_def no_objects_def)
  ultimately show ?thesis
    using X e by (auto simp: eng_inv_iff good_wal_def intro!: exI [of _ "[]"])
qed

lemma rollback_file_keeps:
  assumes R: "redb_ok R V" and "room (V (eg_db e)) 1" and inv: "eng_inv X V U e"
    and rb: "rollback_file X R now name v out (e, d) = ((e', d'), r)"
  shows "eng_inv X V U e'"
proof -
  obtain e1 r1 where c: "bindS (liftE (validate_logical_name (trim name))) (\<lambda>_. rollback_commit X R now (trim name) v) e = (e1, r1)"
    by fastforce
  then have "e' = e1" using rb by (auto simp: rollback_file_def Let_def split: sum.splits option.splits prod.splits)
  moreover have "eng_inv X V U e1"
    using c rollback_commit_keeps [OF R assms(2) inv] inv by (auto simp: bindS_liftE split: sum.splits)
  ultimately show ?thesis by simp
qed

lemma eng_inv_has:
  assumes "eng_inv X V U e"
  shows "ss_has_chunk (eg_segments e) c \<longleftrightarrow> (\<exists>d. ss_get_chunk X (eg_segments e) c = Inr d)"
  by (rule seg.has_get) (use assms in \<open>auto simp: eng_inv_iff intro: seg_ok_inv\<close>)

lemma crash_keeps:
  assumes R: "redb_ok R V" and inv: "eng_inv X V U e" and n: "32 \<le> n" and sy: "synced X V e n"
    and t: "torn_tail X (eg_vault_key e) t" and rm: "replay_room X V e (eg_db e)"
    and s: "ss_open X E (cut_newest (eg_segments e) n dirs) 0 (eg_vault_key e) = Inr s" "reads_in X U s"
    and op: "open_internal X R E EV (cut_newest (eg_segments e) n dirs) (eg_db e) (crashed_wal e t) (eg_vault_key e) = Inr e'"
  shows "eng_inv X V U e'"
proof -
  have vk: "ss_vault_key (eg_segments e) = eg_vault_key e" using inv by (simp add: eng_inv_iff)
  obtain log where log: "seg_log_inv X (eg_segments e) log" using inv by (auto simp: eng_inv_iff seg_ok_def)
  from cut_newest_open [OF log n, of E dirs 0] s(1) obtain log' where log': "seg_log_inv X s log'"
    and get: "\<forall>c loc. idx_get (ss_index (eg_segments e)) c = Some loc
        \<longrightarrow> (cl_segment_id loc = w_segment_id (ss_writer (eg_segments e)) \<longrightarrow> cl_record_offset loc + 80 + unat (cl_payload_len loc) \<le> n)
        \<longrightarrow> ss_get_chunk X s c = ss_get_chunk X (eg_segments e) c"
    by (auto simp: vk)
  have "ss_has_chunk s c" if c: "c \<in> needs X V (eg_db e)" "ss_has_chunk (eg_segments e) c" for c
  proof -
    obtain loc where loc: "idx_get (ss_index (eg_segments e)) c = Some loc"
      using c(2) by (auto simp: ss_has_chunk_def idx_contains_def)
    obtain d where "ss_get_chunk X (eg_segments e) c = Inr d" using eng_inv_has [OF inv] c(2) by blast
    then have "ss_get_chunk X s c = Inr d" using get loc sy c(1) unfolding synced_def by metis
    then show ?thesis using not_has_get [of s c X] by (cases "ss_has_chunk s c") auto
  qed
  then show ?thesis
    by (intro open_internal_keeps [OF R inv _ _ s(1) _ _ _ t op [unfolded crashed_wal_def]])
      (use log' s(2) rm in \<open>auto simp: reads_in_def replay_room_def\<close>)
qed

lemma collect_crash_keeps:
  assumes R: "redb_ok R V" and inv: "eng_inv X V U e" and mk: "gc_mark X R (eg_db e) = Inr (chunks, manifests, roots)"
    and sw: "swept X V (eg_db e) db" and E: "\<And>c. env_ok (EC c)"
    and st: "compact_stage X E EC chunks (eg_segments e) = Inr (nd, nw, nidx)" "w_segment_id nw < 2 ^ 64"
    and ops: "prefix ops (compact_plan tmp (ss_files (eg_segments e)) nd (0 < idx_len nidx))"
    and sd: "sd = apply_ops \<lparr>sd_files = ss_files (eg_segments e), sd_dirs = AList.update tmp nd dirs\<rparr> ops"
    and t: "torn_tail X (eg_vault_key e) t" and rm: "replay_room X V e db"
    and s: "ss_open X E' sd 0 (eg_vault_key e) = Inr s" "reads_in X U s"
    and op: "open_internal X R E' EV sd db (crashed_wal e t) (eg_vault_key e) = Inr e'"
  shows "eng_inv X V U e'"
proof -
  have vk: "ss_vault_key (eg_segments e) = eg_vault_key e" and X: "ext_ok X" using inv by (auto simp: eng_inv_iff)
  obtain log where log: "seg_log_inv X (eg_segments e) log" using inv by (auto simp: eng_inv_iff seg_ok_def)
  have ch: "chunks = needs X V (eg_db e)" using gc_mark_spec [OF R mk] by (simp add: needs_def)
  from compact_crash_open [OF st(1) log X E st(2) ops sd, of E' 0] s(1)
  obtain log' where log': "seg_log_inv X s log'"
    and has: "(\<forall>c. ss_has_chunk s c \<longleftrightarrow> ss_has_chunk (eg_segments e) c)
       \<or> (\<forall>c. ss_has_chunk s c \<longleftrightarrow> ss_has_chunk (eg_segments e) c \<and> c \<in> chunks)" by (auto simp: vk)
  have "ss_has_chunk s c" if "c \<in> needs X V (eg_db e)" "ss_has_chunk (eg_segments e) c" for c
    using has that ch by metis
  note has' = this
  have T: "\<And>t. t \<noteq> MANIFESTS \<Longrightarrow> V db t = V (eg_db e) t"
    "\<And>mid. mid \<in> live_manifests X (V (eg_db e)) \<Longrightarrow> V db MANIFESTS mid = V (eg_db e) MANIFESTS mid"
    using sw by (simp_all add: swept_def)
  have U: "\<And>c d. ss_get_chunk X s c = Inr d \<Longrightarrow> d \<in> U" using s(2) by (simp add: reads_in_def)
  have rm': "\<And>rs. wal_read_uncheckpointed_records X (eg_wal e) = Inr rs \<Longrightarrow> room (V db) (length rs)"
    using rm by (simp add: replay_room_def)
  have ex: "\<exists>log. seg_log_inv X s log" using log' by (rule exI)
  show ?thesis
    by (rule open_internal_keeps [OF R inv _ _ s(1) ex _ _ t op [unfolded crashed_wal_def]])
      (assumption | rule T has' U rm')+
qed

lemma eg_run_inv:
  assumes "eg_run X R V U e" and R: "redb_ok R V" and X: "ext_ok X" "collision_free X U" "fastcdc_ok X"
  shows "eng_inv X V U e"
  using assms(1)
proof (induction rule: eg_run.induct)
  case (eg_new db E EV dirs vk e)
  then show ?case by (rule open_new_inv [OF X(1,2)])
next
  case (eg_put e src P name e' r)
  show ?case by (rule put_file_named_keeps [OF R eg_put.IH X(3) eg_put.hyps(2-5)])
next
  case (eg_rollback e now name ver out d e' d' rr)
  show ?case by (rule rollback_file_keeps [OF R eg_rollback.hyps(2) eg_rollback.IH eg_rollback.hyps(3)])
next
  case (eg_snapshot e now label e' rs)
  show ?case by (rule create_snapshot_keeps [OF R eg_snapshot.IH eg_snapshot.hyps(2,3)])
next
  case (eg_collect e EC E tmp e' rg)
  show ?case by (rule eg_gc_keeps [OF R eg_collect.IH eg_collect.hyps(2-4)])
next
  case (eg_crash e n t E dirs s EV e')
  show ?case by (rule crash_keeps [OF R eg_crash.IH eg_crash.hyps(2-8)])
next
  case (eg_collect_crash e chunks manifests roots db EC E nd nw nidx ops tmp sd dirs t E' s EV e')
  show ?case by (rule collect_crash_keeps [OF R eg_collect_crash.IH eg_collect_crash.hyps(2-13)])
qed (auto elim: keepsD [OF delete_file_keeps [OF R]] keepsD [OF delete_prefix_keeps [OF R]]
    keepsD [OF unbind_file_keeps [OF R]] keepsD [OF rename_file_keeps [OF R]]
    keepsD [OF update_watched_prefix_keeps [OF R]] keepsD [OF prune_file_versions_keeps [OF R]]
    keepsD [OF prune_all_keeps [OF R]] keepsD [OF eg_delete_snapshot_keeps [OF R]])

end
