(* ===== verification/Oos_Engine_Read.thy ===== *)
theory Oos_Engine_Read
  imports Oos_Engine_Run
begin

text \<open>
  Reading back: every manifest the invariant vouches for extracts to a file with its hash, and a
  successful put is followed by a read of exactly the bytes that were put.
\<close>

section \<open>Extraction\<close>

lemma get_described:
  assumes inv: "eng_inv X V U e" and U: "set ds \<subseteq> U"
    and has: "\<forall>c \<in> cid_from_data X ` set ds. ss_has_chunk (eg_segments e) c"
  shows "get_all (ss_get_chunk X (eg_segments e)) (map (cid_from_data X) ds) = Inr ds"
proof -
  have parts: "ext_ok X" "collision_free X U" "seg_ok X U (eg_segments e)" using inv by (auto simp: eng_inv_iff)
  have "ss_get_chunk X (eg_segments e) (cid_from_data X d) = Inr d" if d: "d \<in> set ds" for d
  proof -
    obtain d' where d': "ss_get_chunk X (eg_segments e) (cid_from_data X d) = Inr d'"
      using eng_inv_has [OF inv] has d by blast
    then have "d' \<in> U" "cid_from_data X d' = cid_from_data X d"
      using parts(3) seg.get_id [OF d'] by (auto simp: seg_ok_def)
    then show ?thesis using collision_freeD [OF parts(2), of d' d] U d d' by auto
  qed
  then show ?thesis by (auto simp: get_all_Inr list_all2_conv_all_nth)
qed

text \<open>The files outside the store: the output appears, nothing else but the temporary file changes.\<close>

definition writes_file :: "dir \<Rightarrow> rstring \<Rightarrow> rstring \<Rightarrow> bytes \<Rightarrow> dir \<Rightarrow> bool" where
  "writes_file d tmp out content d' \<longleftrightarrow> dir_get d' out = Some content
     \<and> (\<forall>p. p \<noteq> tmp \<longrightarrow> p \<noteq> out \<longrightarrow> dir_get d' p = dir_get d p)"

lemma extract_described:
  assumes inv: "eng_inv X V U e" and U: "set ds \<subseteq> U" "map (cid_from_data X) ds = m_chunks m"
    and hash: "blake3 X (concat ds) = m_content_hash m"
    and has: "\<forall>c \<in> set (m_chunks m). ss_has_chunk (eg_segments e) c"
  shows "\<exists>d'. extract_manifest_to_file X (eg_segments e) m tmp out d = (d', Inr (total_len ds))
    \<and> writes_file d tmp out (concat ds) d'"
proof -
  have "set (m_chunks m) = cid_from_data X ` set ds" using U(2) by (metis set_map)
  then have "get_all (ss_get_chunk X (eg_segments e)) (m_chunks m) = Inr ds"
    using get_described [OF inv U(1)] has U(2) by simp
  moreover have "writes_file d tmp out (concat ds) (dir_rename (dir_put (dir_put d tmp []) tmp (concat ds)) tmp out)"
    using dir_get_rename [of "dir_put (dir_put d tmp []) tmp (concat ds)" tmp "concat ds" out]
    by (simp add: writes_file_def)
  ultimately show ?thesis using hash by (simp add: extract_manifest_to_file_def Let_def)
qed

lemma extract_live:
  assumes inv: "eng_inv X V U e" and m: "stored_manifest X (V (eg_db e)) mid m" and live: "mid \<in> live_manifests X (V (eg_db e))"
  shows "\<exists>d' content n. extract_manifest_to_file X (eg_segments e) m tmp out d = (d', Inr n)
    \<and> writes_file d tmp out content d' \<and> blake3 X content = m_content_hash m"
proof -
  have "db_ok X U (ss_has_chunk (eg_segments e)) (V (eg_db e))" using inv by (simp add: eng_inv_iff)
  from db_ok_live [OF this live] obtain m' where m': "stored_manifest X (V (eg_db e)) mid m'" "described X U m'"
    "\<forall>c \<in> set (m_chunks m'). ss_has_chunk (eg_segments e) c" unfolding good_mid_def by (elim exE conjE)
  have "m' = m" by (rule stored_manifest_fun [OF m m'(1)])
  with m' obtain ds where ds: "set ds \<subseteq> U" "map (cid_from_data X) ds = m_chunks m" "blake3 X (concat ds) = m_content_hash m"
    unfolding described_def by blast
  from extract_described [OF inv ds, of tmp out d] m'(3) \<open>m' = m\<close> ds(3) show ?thesis by blast
qed

section \<open>Total reads\<close>

text \<open>When the database does not fail, reads of decodable entries succeed.\<close>

lemma read_value_total:
  assumes "redb_ok R V" "redb_total R"
  shows "read_value R db t k = Inr (V db t k)"
proof -
  have "\<exists>r. rd_get R db t k = Inr r" using assms(2) unfolding redb_total_def by blast
  then obtain r where r: "read_value R db t k = Inr r" by (auto simp: read_value_def)
  with read_value_view [OF assms(1) r] show ?thesis by simp
qed

lemma write_value_total: "redb_total R \<Longrightarrow> \<exists>db'. write_value R db t k v = Inr db'"
  unfolding redb_total_def write_value_def bindE_eq_Inr redbE_Inr by metis

lemma resolve_name_total: "redb_ok R V \<Longrightarrow> redb_total R \<Longrightarrow> resolve_name R db n = Inr (Option.bind (V db NAME_INDEX n) oid_of_value)"
  by (simp add: resolve_name_def read_value_total)

lemma get_object_total: "redb_ok R V \<Longrightarrow> redb_total R \<Longrightarrow> get_object R db i = decode_value rec_from_bytes (V db OBJECT_INDEX (oid_bytes i))"
  by (simp add: get_object_def read_value_total)

lemma get_manifest_total: "redb_ok R V \<Longrightarrow> redb_total R \<Longrightarrow> get_manifest X R db mid = decode_value (manifest_from_bytes X) (V db MANIFESTS mid)"
  by (simp add: get_manifest_def read_value_total)

lemma get_snapshot_total: "redb_ok R V \<Longrightarrow> redb_total R \<Longrightarrow> get_snapshot X R db l = decode_value (snapshot_from_bytes X) (V db SNAPSHOTS l)"
  by (simp add: get_snapshot_def read_value_total)

lemma get_stored_manifest: "redb_ok R V \<Longrightarrow> redb_total R \<Longrightarrow> stored_manifest X (V db) mid m \<Longrightarrow> get_manifest X R db mid = Inr (Some m)"
  by (auto simp: get_manifest_total stored_manifest_def decode_value_def)

section \<open>Every version can be read\<close>

lemma live_stored: "eng_inv X V U e \<Longrightarrow> mid \<in> live_manifests X (V (eg_db e)) \<Longrightarrow> \<exists>m. stored_manifest X (V (eg_db e)) mid m"
  using db_ok_live [of X U "ss_has_chunk (eg_segments e)" "V (eg_db e)" mid] by (auto simp: eng_inv_iff good_mid_def)

lemma version_extracts:
  assumes R: "redb_ok R V" "redb_total R" and inv: "eng_inv X V U e"
    and vs: "get_versions R e name = Inr vs" and v: "v \<in> set vs" and name: "trim name = name"
  shows "\<exists>x \<in> set vs. \<exists>m d' content n. v_version x = v_version v \<and> stored_manifest X (V (eg_db e)) (v_manifest_id x) m
    \<and> get_file_version X R e name (Some (v_version v)) tmp out d = (d', Inr n)
    \<and> writes_file d tmp out content d' \<and> blake3 X content = m_content_hash m"
proof -
  obtain i0 i r where r: "resolve_name R (eg_db e) name = Inr i0"
    "(case i0 of Some i \<Rightarrow> Inr i | None \<Rightarrow> map_err (\<lambda>_. ObjectNotFound name) (oid_from_str name)) = Inr i"
    "get_object R (eg_db e) i = Inr (Some r)" "vs = o_versions r"
    using vs unfolding get_versions_def Let_def name bindE_eq_Inr by auto
  obtain x where x: "find (\<lambda>x. v_version x = v_version v) vs = Some x"
    using v by (cases "find (\<lambda>x. v_version x = v_version v) vs") (auto simp: find_None_iff)
  then have x': "x \<in> set vs" "v_version x = v_version v" by (auto simp: find_Some_iff)
  have live: "v_manifest_id x \<in> live_manifests X (V (eg_db e))"
    using get_object_live(2) [OF R(1) r(3)] x'(1) r(4) by blast
  then obtain m where m: "stored_manifest X (V (eg_db e)) (v_manifest_id x) m" using live_stored [OF inv] by blast
  have "version_manifest X R (eg_db e) name (v_version v) = Inr m"
    using r x get_stored_manifest [OF R m] by (simp add: version_manifest_def ok_or_def)
  then have "get_file_version X R e name (Some (v_version v)) tmp out d = extract_manifest_to_file X (eg_segments e) m tmp out d"
    by (simp add: get_file_version_def bindS_liftE)
  with extract_live [OF inv m live, of tmp out d] x' m show ?thesis by metis
qed

section \<open>Snapshots can be restored\<close>

lemma get_snapshot_live:
  assumes R: "redb_ok R V" and g: "get_snapshot X R db l = Inr (Some s)" and en: "en \<in> set (s_entries s)"
  shows "e_manifest_id en \<in> live_manifests X (V db)"
  using get_snapshot_view [OF R g] live_snapshot [OF en] by (auto simp: decode_value_Inr)

definition restore_target :: "rstring \<Rightarrow> snapshot_entry \<Rightarrow> rstring" where
  "restore_target target en = path_join target (safe_relative_path (e_name en))"

text \<open>The file at \<open>p\<close> has the hash of the entry's manifest.\<close>

definition restores :: "ext \<Rightarrow> tables \<Rightarrow> dir \<Rightarrow> rstring \<Rightarrow> snapshot_entry \<Rightarrow> bool" where
  "restores X T d p en \<longleftrightarrow> (\<exists>m content. stored_manifest X T (e_manifest_id en) m \<and> dir_get d p = Some content
     \<and> blake3 X content = m_content_hash m)"

lemma restore_entry_ok:
  assumes R: "redb_ok R V" "redb_total R" and inv: "eng_inv X V U e"
    and live: "e_manifest_id en \<in> live_manifests X (V (eg_db e))" and rel: "safe_relative_path (e_name en) \<noteq> []"
  shows "\<exists>d' content. restore_entry X R e target tmp u en d = (d', Inr ())
    \<and> writes_file d (tmp (restore_target target en)) (restore_target target en) content d'
    \<and> restores X (V (eg_db e)) d' (restore_target target en) en"
proof -
  obtain m where m: "stored_manifest X (V (eg_db e)) (e_manifest_id en) m" using live_stored [OF inv live] by blast
  let ?out = "path_join target (safe_relative_path (e_name en))"
  obtain d' content n where *: "extract_manifest_to_file X (eg_segments e) m (tmp ?out) ?out d = (d', Inr n)"
    "writes_file d (tmp ?out) ?out content d'" "blake3 X content = m_content_hash m" using extract_live [OF inv m live] by blast
  moreover from * have "restore_entry X R e target tmp u en d = (d', Inr ())"
    using rel get_stored_manifest [OF R m] by (simp add: restore_entry_def bindS_liftE Let_def bindS_def)
  ultimately show ?thesis using m by (auto simp: restore_target_def restores_def writes_file_def)
qed

definition restored_paths :: "rstring \<Rightarrow> (rstring \<Rightarrow> rstring) \<Rightarrow> snapshot_entry list \<Rightarrow> rstring set" where
  "restored_paths target tmp es = (\<Union>en \<in> set es. {restore_target target en, tmp (restore_target target en)})"

definition separate_targets :: "rstring \<Rightarrow> (rstring \<Rightarrow> rstring) \<Rightarrow> snapshot_entry list \<Rightarrow> bool" where
  "separate_targets target tmp es \<longleftrightarrow> distinct (map (restore_target target) es)
     \<and> (\<forall>en \<in> set es. \<forall>en' \<in> set es. tmp (restore_target target en') \<noteq> restore_target target en)"

lemma restore_entries_ok:
  assumes R: "redb_ok R V" "redb_total R" and inv: "eng_inv X V U e"
  shows "\<forall>en \<in> set es. e_manifest_id en \<in> live_manifests X (V (eg_db e)) \<and> safe_relative_path (e_name en) \<noteq> [] \<Longrightarrow>
    \<exists>d'. foldS (restore_entry X R e target tmp) () es d = (d', Inr ())
      \<and> (\<forall>p. p \<notin> restored_paths target tmp es \<longrightarrow> dir_get d' p = dir_get d p)
      \<and> (separate_targets target tmp es \<longrightarrow> (\<forall>en \<in> set es. restores X (V (eg_db e)) d' (restore_target target en) en))"
proof (induction es arbitrary: d)
  case (Cons en es)
  obtain d1 content where d1: "restore_entry X R e target tmp () en d = (d1, Inr ())"
    "writes_file d (tmp (restore_target target en)) (restore_target target en) content d1"
    "restores X (V (eg_db e)) d1 (restore_target target en) en"
    using restore_entry_ok [OF R inv, of en target tmp "()" d] Cons.prems by auto
  obtain d' where d': "foldS (restore_entry X R e target tmp) () es d1 = (d', Inr ())"
    "\<forall>p. p \<notin> restored_paths target tmp es \<longrightarrow> dir_get d' p = dir_get d1 p"
    "separate_targets target tmp es \<longrightarrow> (\<forall>en \<in> set es. restores X (V (eg_db e)) d' (restore_target target en) en)"
    using Cons.IH [of d1] Cons.prems by auto
  have "restores X (V (eg_db e)) d' (restore_target target en) en" if sep: "separate_targets target tmp (en # es)"
  proof -
    have "restore_target target en \<notin> restored_paths target tmp es"
      using sep by (auto simp: separate_targets_def restored_paths_def)
    then show ?thesis using d'(2) d1(3) by (simp add: restores_def)
  qed
  moreover have "separate_targets target tmp (en # es) \<longrightarrow> separate_targets target tmp es"
    by (simp add: separate_targets_def)
  moreover have "dir_get d' p = dir_get d p" if "p \<notin> restored_paths target tmp (en # es)" for p
    using that d1(2) d'(2) by (simp add: restored_paths_def writes_file_def)
  ultimately show ?case using d1(1) d' by (simp add: bindS_def)
qed simp

section \<open>The record a put leaves\<close>

lemma oid_of_value_bytes: "wf_oid i \<Longrightarrow> oid_of_value (oid_bytes i) = Some i"
  by (simp add: oid_of_value_def wf_oid_def oid_from_raw_def)

lemma u32_succ: "a < - 1 \<Longrightarrow> a < a + 1" for a :: u32
proof -
  assume "a < - 1"
  moreover have "unat (- 1 :: u32) = 2 ^ 32 - 1" by (simp add: unsigned_minus_1_eq_mask mask_eq_exp_minus_1)
  ultimately show "a < a + 1" by (simp add: word_less_nat_alt unat_word_ariths)
qed

lemma max_version_ge: "v \<in> set (o_versions r) \<Longrightarrow> v_version v \<le> max_version r"
proof -
  have "v \<in> set vs \<Longrightarrow> v_version v \<le> foldr max (map v_version vs) 0" for vs
    by (induction vs) (auto simp: le_max_iff_disj)
  then show "v \<in> set (o_versions r) \<Longrightarrow> v_version v \<le> max_version r" by (simp add: max_version_def)
qed

text \<open>The version number of a put is new, unless the 32-bit counter is exhausted.\<close>

definition version_left :: "object_record \<Rightarrow> bool" where
  "version_left r \<longleftrightarrow> max (o_latest_version r) (max_version r) < - 1"

lemma next_version_new:
  assumes "version_left r" "v \<in> set (o_versions r)"
  shows "v_version v < next_version r"
proof -
  have "v_version v \<le> max (o_latest_version r) (max_version r)"
    using max_version_ge [OF assms(2)] by (simp add: le_max_iff_disj)
  also have "\<dots> < next_version r" unfolding next_version_def
    by (rule u32_succ [OF assms(1) [unfolded version_left_def]])
  finally show ?thesis .
qed

lemma put_tables_at:
  "put_tables X put T NAME_INDEX n = (if n = wp_name put then Some (oid_bytes (wp_object_id put)) else T NAME_INDEX n)"
  "put_tables X put T MANIFESTS k = (if k = content_id (wp_manifest put) then Some (manifest_to_bytes X (wp_manifest put)) else T MANIFESTS k)"
  "put_tables X put T OBJECT_INDEX = put_object_table put T OBJECT_INDEX"
  by (auto simp: put_tables_def put_name_table_def put_manifest_table_def put_object_table_cong set_entry_apply fun_eq_iff)

lemma put_object_table_at:
  assumes "keys_ok T" "room T 1" "wf_oid (wp_object_id put)" "length (m_content_hash (wp_manifest put)) = 32"
    and dec: "decode_value rec_from_bytes (T OBJECT_INDEX (oid_bytes (wp_object_id put))) = Inr r0"
    and r: "put_record put (content_id (wp_manifest put)) r0 = Some r"
  shows "decode_value rec_from_bytes (put_object_table put T OBJECT_INDEX (oid_bytes (wp_object_id put))) = Inr (Some r)"
    and "k \<noteq> oid_bytes (wp_object_id put) \<Longrightarrow> put_object_table put T OBJECT_INDEX k = T OBJECT_INDEX k"
proof -
  have wf: "wf_record r"
    using put_record_wf [OF r assms(3,4)] stored_record_room [OF assms(2)] dec by auto
  have k: "oid_bytes (o_object_id r) = oid_bytes (wp_object_id put)"
    using put_record_SomeD(2) [OF r] dec assms(1) by (auto simp: keys_ok_def decode_value_Inr)
  have T': "put_object_table put T = set_entry T OBJECT_INDEX (oid_bytes (wp_object_id put)) (Some (rec_to_bytes r))"
    by (simp add: put_object_table_def dec r k)
  show "decode_value rec_from_bytes (put_object_table put T OBJECT_INDEX (oid_bytes (wp_object_id put))) = Inr (Some r)"
    using objects.decode_stored [OF refl wf] by (simp add: T')
  show "k \<noteq> oid_bytes (wp_object_id put) \<Longrightarrow> put_object_table put T OBJECT_INDEX k = T OBJECT_INDEX k"
    by (simp add: T' set_entry_apply)
qed

text \<open>A new object gets an id that is not in use, and an existing one has a version number left.\<close>

definition target_free :: "'db redb \<Rightarrow> 'db view \<Rightarrow> put_env \<Rightarrow> rstring \<Rightarrow> 'db \<Rightarrow> bool" where
  "target_free R V P name db \<longleftrightarrow>
     (case Option.bind (V db NAME_INDEX name) oid_of_value of
        None \<Rightarrow> V db OBJECT_INDEX (oid_bytes (fst (oid_generate (pe_ts P) (pe_pid P) (pe_counter P)))) = None
      | Some i \<Rightarrow> \<forall>r. get_object R db i = Inr (Some r) \<longrightarrow> version_left r)"

lemma target_record:
  assumes R: "redb_ok R V" and t: "target_of R V P name db i ver" and free: "target_free R V P name db"
  shows "\<exists>r0 r v. decode_value rec_from_bytes (V db OBJECT_INDEX (oid_bytes i)) = Inr r0
    \<and> put_record (put_of name P rd i ver) mid r0 = Some r \<and> v_manifest_id v = mid \<and> v_version v = ver
    \<and> o_versions r = (case r0 of None \<Rightarrow> [] | Some r1 \<Rightarrow> o_versions r1) @ [v]"
proof -
  have "\<exists>r0. decode_value rec_from_bytes (V db OBJECT_INDEX (oid_bytes i)) = Inr r0
      \<and> (\<forall>r1. r0 = Some r1 \<longrightarrow> (\<forall>v \<in> set (o_versions r1). v_version v \<noteq> ver))"
    using t unfolding target_of_def
  proof (elim disjE exE conjE)
    fix r1 assume r1: "Option.bind (V db NAME_INDEX name) oid_of_value = Some i" "get_object R db i = Inr (Some r1)"
      "ver = next_version r1"
    then have "version_left r1" using free by (simp add: target_free_def)
    then show ?thesis using get_object_view [OF R r1(2)] next_version_new [of r1] r1(3) by fastforce
  next
    assume "Option.bind (V db NAME_INDEX name) oid_of_value = None" "i = fst (oid_generate (pe_ts P) (pe_pid P) (pe_counter P))"
    then show ?thesis using free by (auto simp: target_free_def decode_value_def)
  qed
  then obtain r0 where r0: "decode_value rec_from_bytes (V db OBJECT_INDEX (oid_bytes i)) = Inr r0"
    "\<forall>r1. r0 = Some r1 \<longrightarrow> (\<forall>v \<in> set (o_versions r1). v_version v \<noteq> ver)" by blast
  then obtain r where r: "put_record (put_of name P rd i ver) mid r0 = Some r"
    by (cases r0) (auto simp: put_record_def)
  from put_record_SomeD(1) [OF r] r0(1) r show ?thesis by auto
qed

lemma rec_latest_snoc: "o_versions r = vs @ [v] \<Longrightarrow> rec_latest r = Some v"
  by (cases vs) (simp_all add: rec_latest_def)

text \<open>After a successful commit the name resolves to the manifest of what was read.\<close>

lemma put_commit_resolves:
  assumes R: "redb_ok R V" "redb_total R" and inv: "eng_inv X V U e" and rdy: "put_ready V P (trim name) e"
    and rd: "read_of X U (ss_has_chunk (eg_segments e)) rd cs" and free: "target_free R V P (trim name) (eg_db e)"
    and c: "put_commit X R P (trim name) rd e = (e', Inr ps)"
  shows "\<exists>m. resolve_manifest X R (eg_db e') name = Inr m \<and> m_chunks m = fst rd \<and> m_content_hash m = fst (snd (snd rd))"
  using c
proof (cases rule: put_commit_split)
  case (committed i ver lsn e1 mid e2 ps')
  let ?put = "put_of (trim name) P rd i ver" and ?T = "V (eg_db e)"
  let ?m = "wp_manifest ?put"
  have X: "ext_ok X" and keys: "keys_ok ?T" using inv by (auto simp: eng_inv_iff db_ok_def)
  have t: "target_of R V P (trim name) (eg_db e) i ver" by (rule put_target_spec [OF R(1) committed(1)])
  have i: "wf_oid i" by (rule target_wf [OF t])
  have gp: "good_put X U ?put"
    using read_of_put [OF X rd _ i, of "pe_nonce P" "eg_wal e" "trim name" P ver _ lsn] on_wal_append(2) [OF committed(2)]
    by (metis prod.collapse)
  then have wf: "wf_manifest ?m" "length (m_content_hash ?m) = 32" by (auto simp: good_put_def wf_manifest_def)
  have T': "V (eg_db e') = put_tables X ?put ?T"
    using apply_put_stages [OF R(1) committed(3)] on_wal_append(1) [OF committed(2)] committed(4) by auto
  obtain r0 r v where r0: "decode_value rec_from_bytes (?T OBJECT_INDEX (oid_bytes i)) = Inr r0"
    "put_record ?put (content_id ?m) r0 = Some r" "v_manifest_id v = content_id ?m"
    "o_versions r = (case r0 of None \<Rightarrow> [] | Some r1 \<Rightarrow> o_versions r1) @ [v]"
    using target_record [OF R(1) t free, of rd "content_id ?m"] by blast
  have rm: "room ?T 1" using rdy by (simp add: put_ready_def)
  have "get_object R (eg_db e') i = Inr (Some r)"
    using put_object_table_at(1) [OF keys rm _ wf(2), of r0 r] i r0(1,2) by (simp add: get_object_total [OF R] T' put_tables_at)
  moreover have "rec_latest_manifest_id r = content_id ?m"
    by (simp add: rec_latest_manifest_id_def rec_latest_snoc [OF r0(4)] r0(3))
  moreover have "get_manifest X R (eg_db e') (content_id ?m) = Inr (Some ?m)"
    using manifests.decode_stored [OF refl wf(1)] by (simp add: get_manifest_total [OF R] T' put_tables_at)
  moreover have "resolve_name R (eg_db e') (trim name) = Inr (Some i)"
    using oid_of_value_bytes [OF i] by (simp add: resolve_name_total [OF R] T' put_tables_at)
  ultimately have "resolve_manifest X R (eg_db e') name = Inr ?m"
    by (simp add: resolve_manifest_def latest_manifest_def Let_def)
  then show ?thesis by auto
qed auto

lemma put_then_get:
  assumes R: "redb_ok R V" "redb_total R" and inv: "eng_inv X V U e" and F: "fastcdc_ok X" and src: "source_ok X U src"
    and rdy: "put_ready V P (trim name) e" and free: "target_free R V P (trim name) (eg_db e)"
    and p: "put_file_named X R P name src e = Some (e', Inr ps)"
    and bnd: "w_segment_id (ss_writer (eg_segments e')) < 2 ^ 64"
  shows "\<exists>k \<in> {1..MAX_STABLE_READ_ATTEMPTS}. \<exists>cs d'. stream_chunks X (at_blocks (src_attempt src k)) = Some cs
    \<and> stable_attempt (src_attempt src k) cs
    \<and> get_file X R e' name tmp out d = (d', Inr (total_len cs)) \<and> writes_file d tmp out (concat cs) d'"
  using p
proof (cases rule: put_file_named_split)
  case (stored s' rd)
  have e': "eng_inv X V U e'" by (rule put_file_named_keeps [OF R(1) inv F src rdy p bnd])
  have seg: "eg_segments e' = s'" using put_commit_segments [OF stored(2)] by simp
  note k = put_attempts_keeps [OF inv F src stored(1)]
  obtain k cs where cs: "k \<in> {1..MAX_STABLE_READ_ATTEMPTS}" "stream_chunks X (at_blocks (src_attempt src k)) = Some cs"
    "read_of X U (ss_has_chunk s') rd cs" "stable_attempt (src_attempt src k) cs"
    using k(2) [OF _ refl] bnd seg by (auto simp: atLeastLessThanSuc_atLeastAtMost simp del: upt_Suc)
  have inv1: "eng_inv X V U (e\<lparr>eg_segments := s'\<rparr>)" using k(1) bnd seg by simp
  obtain m where m: "resolve_manifest X R (eg_db e') name = Inr m" "m_chunks m = fst rd" "m_content_hash m = fst (snd (snd rd))"
    using put_commit_resolves [OF R inv1 _ _ _ stored(2)] rdy free cs(3) by (auto simp: put_ready_def)
  have "get_file X R e' name tmp out d = extract_manifest_to_file X (eg_segments e') m tmp out d"
    by (simp add: get_file_def get_file_version_def m(1) bindS_liftE)
  moreover have "\<exists>d'. extract_manifest_to_file X (eg_segments e') m tmp out d = (d', Inr (total_len cs))
      \<and> writes_file d tmp out (concat cs) d'"
    using cs(3) m seg by (intro extract_described [OF e']) (auto simp: read_of_def)
  ultimately have "\<exists>d'. get_file X R e' name tmp out d = (d', Inr (total_len cs)) \<and> writes_file d tmp out (concat cs) d'"
    by simp
  then show ?thesis using cs(1,2,4) by blast
qed auto

end
