(* ===== verification/Oos_Engine_Atomic.thy ===== *)
theory Oos_Engine_Atomic
  imports Oos_Engine_Read
begin

text \<open>
  Atomicity of a put: wherever the process stops while a put is committed, the store opens again with
  the tables of before the put or the tables of after it, and nothing in between.
\<close>

section \<open>Reopening the same segments\<close>

lemma ss_reopen:
  assumes log: "seg_log_inv X s log"
  shows "\<exists>s'. ss_open X E \<lparr>sd_files = ss_files s, sd_dirs = dirs\<rparr> mx (ss_vault_key s) = Inr s' \<and> seg_log_inv X s' log
    \<and> ss_vault_key s' = ss_vault_key s"
proof -
  let ?sd = "\<lparr>sd_files = ss_files s, sd_dirs = dirs\<rparr>"
  have sw: "sw_log X (ss_files s) (ss_writer s) (ss_index s) log" "w_vault_key (ss_writer s) = ss_vault_key s"
    using log by (auto simp: seg_log_inv_def)
  have cl: "sd_files (compact_cleanup ?sd) = ss_files s"
    using compact_cleanup_clean [of ?sd] sw by (simp add: sw_log_def log_files_def)
  have "\<exists>s'. ss_open X E ?sd mx (ss_vault_key s) = Inr s' \<and> ss_vault_key s' = ss_vault_key s \<and> seg_log_inv X s' log"
    by (rule ss_open_log) (use sw cl in \<open>auto simp: sw_log_def w_inv_def\<close>)
  then show ?thesis by blast
qed

section \<open>Stages of a put\<close>

lemma put_manifest_idem: "put_manifest_table X put (put_manifest_table X put T) = put_manifest_table X put T"
  by (auto simp: put_manifest_table_def set_entry_def)

lemma put_name_idem: "put_name_table put (put_name_table put T) = put_name_table put T"
  by (auto simp: put_name_table_def set_entry_def)

lemma put_tables_comm:
  "put_object_table put (put_manifest_table X put T) = put_manifest_table X put (put_object_table put T)"
  "put_object_table put (put_name_table put T) = put_name_table put (put_object_table put T)"
  "put_manifest_table X put (put_name_table put T) = put_name_table put (put_manifest_table X put T)"
  by (simp_all add: put_manifest_table_def put_name_table_def put_object_table_cong)
    (auto simp: set_entry_def fun_eq_iff)

lemma put_tables_stage:
  assumes "keys_ok T" "room T 1" "wf_oid (wp_object_id put)" "length (m_content_hash (wp_manifest put)) = 32"
    and "T' \<in> set (put_stages X put T)"
  shows "put_tables X put T' = put_tables X put T"
  using assms(5) put_object_table_idem [OF assms(1-4)]
  by (auto simp: put_stages_def put_tables_def put_tables_comm put_manifest_idem put_name_idem)

lemma put_stage_record:
  assumes "keys_ok T" "room T 1" "wf_oid (wp_object_id put)" "length (m_content_hash (wp_manifest put)) = 32"
    and dec: "decode_value rec_from_bytes (T OBJECT_INDEX (oid_bytes (wp_object_id put))) = Inr r0"
    and r: "put_record put (content_id (wp_manifest put)) r0 = Some r" and T': "T' \<in> set (put_stages X put T)"
  shows "\<exists>r1. decode_value rec_from_bytes (T' OBJECT_INDEX (oid_bytes (wp_object_id put))) = Inr r1"
proof -
  have "T' OBJECT_INDEX = T OBJECT_INDEX \<or> T' OBJECT_INDEX = put_object_table put T OBJECT_INDEX"
    using T' by (auto simp: put_stages_def put_tables_def put_manifest_table_def put_name_table_def put_object_table_cong)
  then show ?thesis using dec put_object_table_at(1) [OF assms(1-4) dec r] by auto
qed

lemma save_manifest_total: "redb_total R \<Longrightarrow> \<exists>r. save_manifest X R db m = Inr r"
  using write_value_total [of R db MANIFESTS "content_id m" "manifest_to_bytes X m"]
  by (auto simp: save_manifest_def Let_def)

lemma apply_put_total:
  assumes R: "redb_ok R V" "redb_total R"
    and dec: "decode_value rec_from_bytes (V (eg_db e) OBJECT_INDEX (oid_bytes (wp_object_id put))) = Inr r0"
  shows "\<exists>e' mid. apply_put X R put e = (e', Inr mid)"
proof -
  obtain db1 mid where s: "save_manifest X R (eg_db e) (wp_manifest put) = Inr (db1, mid)"
    using save_manifest_total [OF R(2), of X "eg_db e" "wp_manifest put"] by auto
  have o: "get_object R db1 (wp_object_id put) = Inr r0"
    using save_manifest_view [OF R(1) s] dec by (simp add: get_object_total [OF R])
  have "\<exists>db2. (case put_record put mid r0 of None \<Rightarrow> returnS () | Some r \<Rightarrow> set_db (\<lambda>db. put_object R db r)) (e\<lparr>eg_db := db1\<rparr>)
      = (e\<lparr>eg_db := db2\<rparr>, Inr ())"
  proof (cases "put_record put mid r0")
    case (Some r)
    obtain db2 where "put_object R db1 r = Inr db2" using write_value_total [OF R(2)] unfolding put_object_def by blast
    then show ?thesis using Some by (auto simp: set_db_def)
  qed auto
  then obtain db2 where b: "(case put_record put mid r0 of None \<Rightarrow> returnS () | Some r \<Rightarrow> set_db (\<lambda>db. put_object R db r)) (e\<lparr>eg_db := db1\<rparr>)
      = (e\<lparr>eg_db := db2\<rparr>, Inr ())" by blast
  obtain db3 where n: "bind_name R db2 (wp_name put) (wp_object_id put) = Inr db3"
    using write_value_total [OF R(2)] unfolding bind_name_def by blast
  have "apply_put X R put e = (e\<lparr>eg_db := db3\<rparr>, Inr mid)"
    by (simp add: apply_put_def bindS_def on_db_def s ask_db_def o b set_db_def n)
  then show ?thesis by blast
qed

section \<open>Replaying one record\<close>

lemma wal_pending_append:
  assumes wi: "wal_inv X w es" and X: "ext_ok X" and "length nonce = 24" "wf_put put" "wal_current_lsn w < - 1"
    and none: "wal_read_uncheckpointed_records X w = Inr []"
    and ap: "wal_append_put_and_sync X nonce w put = (w1, Inr lsn)"
  shows "\<exists>es'. wal_inv X w1 es' \<and> wal_read_uncheckpointed_records X w1 = Inr [\<lparr>wr_lsn = lsn, wr_payload = PutObject put\<rparr>]"
proof -
  note a = wal_append_inv [OF wi X assms(3,4) ap assms(5)]
  obtain b where b: "wal_inv X w1 (es @ [(b, \<lparr>wr_lsn = lsn, wr_payload = PutObject put\<rparr>)])" using a(1) by blast
  have "filter (\<lambda>r. wal_checkpoint_lsn w < wr_lsn r) (map snd es) = []"
    using wal_read_inv [OF wi] none by simp
  moreover have "wal_checkpoint_lsn w < lsn" using a(2) wi by (auto simp: wal_inv_def)
  ultimately show ?thesis using wal_read_inv [OF b] b a(6) by (auto simp: filter_empty_conv)
qed

lemma replay_one:
  assumes R: "redb_ok R V" "redb_total R"
    and rd: "wal_read_uncheckpointed_records X (eg_wal e) = Inr [\<lparr>wr_lsn = lsn, wr_payload = PutObject put\<rparr>]"
    and ch: "wp_chunks put = []" and has: "\<forall>c \<in> set (m_chunks (wp_manifest put)). ss_has_chunk (eg_segments e) c"
    and dec: "decode_value rec_from_bytes (V (eg_db e) OBJECT_INDEX (oid_bytes (wp_object_id put))) = Inr r0"
  shows "\<exists>e'. replay_wal X R EV e = (e', Inr ()) \<and> V (eg_db e') = put_tables X put (V (eg_db e)) \<and> eg_segments e' = eg_segments e"
proof -
  obtain e1 mid where ap: "apply_put X R put e = (e1, Inr mid)" using apply_put_total [OF R dec] by blast
  have e1: "V (eg_db e1) = put_tables X put (V (eg_db e))" "eg_segments e1 = eg_segments e"
    using apply_put_stages [OF R(1) ap] by auto
  have "replay_put X R EV put e = (e1, Inr ())"
    using ch has ap by (simp add: replay_put_def on_segments_def bindS_def ensure_def)
  then show ?thesis
    using rd e1 by (auto simp: replay_wal_def bindS_def replay_record_def on_wal_def)
qed

section \<open>A crash while a put is committed\<close>

text \<open>
  What may be on disk: the old tables and a part of the redo record; the complete record and the tables
  of some stage; or the new tables with the record checkpointed.
\<close>

inductive put_crash ::
    "ext \<Rightarrow> 'db redb \<Rightarrow> 'db view \<Rightarrow> put_env \<Rightarrow> rstring \<Rightarrow> chunk_id list \<times> u64 \<times> bytes \<times> nat \<Rightarrow> 'db engine
       \<Rightarrow> wal_put \<Rightarrow> 'db \<Rightarrow> wal_disk \<Rightarrow> bool" for X R V P name rd e where
  crash_before: "put_target R P name e = (e, Inr (i, ver)) \<Longrightarrow> torn_tail X (eg_vault_key e) t
    \<Longrightarrow> put_crash X R V P name rd e (put_of name P rd i ver) (eg_db e) (crashed_wal e t)"
| crash_logged: "put_target R P name e = (e, Inr (i, ver))
    \<Longrightarrow> on_wal (\<lambda>w. wal_append_put_and_sync X (pe_nonce P) w (put_of name P rd i ver)) e = (e1, Inr lsn)
    \<Longrightarrow> V db \<in> set (put_stages X (put_of name P rd i ver) (V (eg_db e)))
    \<Longrightarrow> put_crash X R V P name rd e (put_of name P rd i ver) db (wal_on_disk (eg_wal e1))"
| crash_checkpointed: "put_target R P name e = (e, Inr (i, ver))
    \<Longrightarrow> on_wal (\<lambda>w. wal_append_put_and_sync X (pe_nonce P) w (put_of name P rd i ver)) e = (e1, Inr lsn)
    \<Longrightarrow> V db = put_tables X (put_of name P rd i ver) (V (eg_db e))
    \<Longrightarrow> put_crash X R V P name rd e (put_of name P rd i ver) db (wal_on_disk (wal_checkpoint (eg_wal e1) lsn))"

lemma open_quiet:
  assumes "ss_open X E sd 0 vk = Inr s" "wal_open X wd vk = Inr w" "wal_read_uncheckpointed_records X w = Inr []"
  shows "open_internal X R E EV sd db wd vk = Inr \<lparr>eg_segments = s, eg_db = db, eg_wal = w, eg_vault_key = vk\<rparr>"
  using assms by (simp add: open_internal_def replay_wal_def bindS_def)

lemma wal_reopen_same:
  assumes "wal_inv X w es" "ext_ok X" "torn_tail X (wal_vault_key w) t"
  shows "\<exists>w'. wal_open X (wal_on_disk w\<lparr>wd_log := wal_log w @ t\<rparr>) (wal_vault_key w) = Inr w'
    \<and> wal_read_uncheckpointed_records X w' = wal_read_uncheckpointed_records X w"
  using wal_open_torn [OF assms] wal_read_inv [OF assms(1)] wal_read_inv [of X _ es] by force

lemma put_crash_recovers:
  assumes R: "redb_ok R V" "redb_total R" and inv: "eng_inv X V U e" and rdy: "put_ready V P name e"
    and free: "target_free R V P name (eg_db e)" and none: "wal_read_uncheckpointed_records X (eg_wal e) = Inr []"
    and rd: "read_of X U (ss_has_chunk (eg_segments e)) rd cs" and cr: "put_crash X R V P name rd e put db wd"
  shows "\<exists>e'. open_internal X R E EV \<lparr>sd_files = ss_files (eg_segments e), sd_dirs = dirs\<rparr> db wd (eg_vault_key e) = Inr e'
    \<and> (V (eg_db e') = V (eg_db e) \<or> V (eg_db e') = put_tables X put (V (eg_db e)))"
proof -
  let ?sd = "\<lparr>sd_files = ss_files (eg_segments e), sd_dirs = dirs\<rparr>" and ?vk = "eg_vault_key e"
  have X: "ext_ok X" and vk: "ss_vault_key (eg_segments e) = ?vk" "wal_vault_key (eg_wal e) = ?vk"
    and keys: "keys_ok (V (eg_db e))" using inv by (auto simp: eng_inv_iff db_ok_def)
  obtain log where log: "seg_log_inv X (eg_segments e) log" using inv by (auto simp: eng_inv_iff seg_ok_def)
  obtain s where s: "ss_open X E ?sd 0 ?vk = Inr s" "seg_log_inv X s log" using ss_reopen [OF log, of E dirs 0] vk by auto
  obtain es where es: "wal_inv X (eg_wal e) es" using inv by (auto simp: eng_inv_iff good_wal_def)
  have app: "\<exists>es'. good_put X U (put_of name P rd i ver) \<and> wf_oid i \<and> wal_inv X (eg_wal e1) es' \<and> wal_vault_key (eg_wal e1) = ?vk
      \<and> wal_current_lsn (eg_wal e1) = lsn
      \<and> wal_read_uncheckpointed_records X (eg_wal e1) = Inr [\<lparr>wr_lsn = lsn, wr_payload = PutObject (put_of name P rd i ver)\<rparr>]"
    if t: "put_target R P name e = (e, Inr (i, ver))"
      and a: "on_wal (\<lambda>w. wal_append_put_and_sync X (pe_nonce P) w (put_of name P rd i ver)) e = (e1, Inr lsn)" for i ver e1 lsn
  proof -
    have i: "wf_oid i" using target_wf [OF put_target_spec [OF R(1) t]] .
    have w: "wal_append_put_and_sync X (pe_nonce P) (eg_wal e) (put_of name P rd i ver) = (eg_wal e1, Inr lsn)"
      using on_wal_append [OF a] by (cases "wal_append_put_and_sync X (pe_nonce P) (eg_wal e) (put_of name P rd i ver)") auto
    have g: "good_put X U (put_of name P rd i ver)" by (rule read_of_put [OF X rd w i])
    have wf: "wf_put (put_of name P rd i ver)" using g rdy by (simp add: wf_put_def good_put_def put_ready_def)
    have n: "length (pe_nonce P) = 24" "wal_current_lsn (eg_wal e) < - 1" using rdy by (auto simp: put_ready_def)
    from wal_pending_append [OF es X n(1) wf n(2) none w] wal_append_inv(3,4) [OF es X n(1) wf w n(2)] g i vk
    show ?thesis by auto
  qed
  from cr show ?thesis
  proof (cases rule: put_crash.cases)
    case (crash_before i ver t)
    obtain w' where "wal_open X (crashed_wal e t) ?vk = Inr w'" "wal_read_uncheckpointed_records X w' = Inr []"
      using wal_reopen_same [OF es X, of t] crash_before none vk by (auto simp: crashed_wal_def)
    from open_quiet [OF s(1) this, of R EV db] crash_before show ?thesis by auto
  next
    case (crash_logged i ver e1 lsn)
    note a = app [OF crash_logged(3,4)]
    then obtain es' where w1: "wal_inv X (eg_wal e1) es'" "wal_vault_key (eg_wal e1) = ?vk" by blast
    obtain w' where w': "wal_open X wd ?vk = Inr w'"
      "wal_read_uncheckpointed_records X w' = Inr [\<lparr>wr_lsn = lsn, wr_payload = PutObject put\<rparr>]"
      using wal_reopen_same [OF w1(1) X, of "[]"] a w1(2) crash_logged(1,2) by (auto simp: torn_tail_def)
    let ?e0 = "\<lparr>eg_segments = s, eg_db = db, eg_wal = w', eg_vault_key = ?vk\<rparr>"
    have rm: "room (V (eg_db e)) 1" using rdy by (simp add: put_ready_def)
    have h: "length (m_content_hash (wp_manifest put)) = 32" "wf_oid (wp_object_id put)" "wp_chunks put = []"
      using a crash_logged(1) by (auto simp: good_put_def wf_manifest_def)
    obtain r0 r where r0: "decode_value rec_from_bytes (V (eg_db e) OBJECT_INDEX (oid_bytes (wp_object_id put))) = Inr r0"
      "put_record put (content_id (wp_manifest put)) r0 = Some r"
      using target_record [OF R(1) put_target_spec [OF R(1) crash_logged(3)] free, of rd "content_id (wp_manifest put)"]
      by (auto simp: crash_logged(1))
    obtain r1 where dec: "decode_value rec_from_bytes (V db OBJECT_INDEX (oid_bytes (wp_object_id put))) = Inr r1"
      using put_stage_record [OF keys rm h(2,1) r0] crash_logged(1,5) by blast
    have has: "\<forall>c \<in> set (m_chunks (wp_manifest put)). ss_has_chunk s c"
      using rd seg_log_has [OF s(2)] seg_log_has [OF log] by (simp add: crash_logged(1) read_of_def)
    obtain e' where e': "replay_wal X R EV ?e0 = (e', Inr ())" "V (eg_db e') = put_tables X put (V db)"
      using replay_one [OF R, of X ?e0 lsn put r1 EV] w'(2) h(3) has dec by auto
    have "open_internal X R E EV ?sd db wd ?vk = Inr e'" using s(1) w'(1) e'(1) by (simp add: open_internal_def)
    moreover have "V (eg_db e') = put_tables X put (V (eg_db e))"
      using e'(2) put_tables_stage [OF keys rm h(2,1)] crash_logged(1,5) by simp
    ultimately show ?thesis by blast
  next
    case (crash_checkpointed i ver e1 lsn)
    obtain es' where w1: "wal_inv X (eg_wal e1) es'" "wal_vault_key (eg_wal e1) = ?vk" "wal_current_lsn (eg_wal e1) = lsn"
      using app [OF crash_checkpointed(3,4)] by blast
    have c: "wal_inv X (wal_checkpoint (eg_wal e1) lsn) []" using wal_checkpoint_inv [OF w1(1), of lsn] w1(3) by simp
    have "wal_vault_key (wal_checkpoint (eg_wal e1) lsn) = ?vk" using w1(2) by (simp add: wal_checkpoint_def Let_def)
    then obtain w' where "wal_open X wd ?vk = Inr w'" "wal_read_uncheckpointed_records X w' = Inr []"
      using wal_reopen_same [OF c X, of "[]"] wal_read_inv [OF c] crash_checkpointed(2) by (auto simp: torn_tail_def)
    from open_quiet [OF s(1) this, of R EV db] crash_checkpointed show ?thesis by auto
  qed
qed

end
