(* ===== verification/Oos_Engine_Total.thy ===== *)
theory Oos_Engine_Total
  imports Oos_Engine_Atomic
begin

text \<open>
  Puts succeed: on a store without encryption whose database does not fail, putting a file that can be
  read stably under a valid name completes.
\<close>

section \<open>Chunks\<close>

lemma ss_put_chunk_total:
  assumes "seg_invar X s" "ss_vault_key s = None"
  shows "\<exists>s' c b. ss_put_chunk X E s d = Inr (s', c, b)"
proof (cases "ss_has_chunk s (cid_from_data X d)")
  case True
  then have "ss_put_chunk X E s d = Inr (s, cid_from_data X d, False)" by (simp add: ss_put_chunk_def Let_def ss_has_chunk_def)
  then show ?thesis by blast
next
  case False
  have "w_vault_key (ss_writer s) = None" "w_file_open (ss_writer s)"
    using assms by (auto simp: seg_invar_def ss_inv_def w_inv_def)
  from ss_put_chunk_plain [OF this False] show ?thesis by blast
qed

text \<open>A chunk starts at most one new segment file.\<close>

lemma sw_append_step:
  assumes "w_inv d w" "sw_append X E d w idx cid data = Inr (d', w', idx', loc)"
  shows "w_segment_id w' \<le> Suc (w_segment_id w)"
proof (rule sw_append_Inr [OF assms(2,1)])
  fix p d1 w1 f
  assume t: "sw_target E d w (length p) = (d1, w1)"
    and "w' = w1\<lparr>w_offset := length f + (RECORD_HEADER_SIZE_V3 + length p)\<rparr>"
  moreover have "w_segment_id w1 \<le> Suc (w_segment_id w)"
    using t sw_rotate_inv(4) [OF _ assms(1), of E d1 w1] by (auto simp: sw_target_def split: if_splits)
  ultimately show ?thesis by simp
qed

lemma ss_put_chunk_step:
  assumes "seg_invar X s" "ss_put_chunk X E s d = Inr (s', c, b)"
  shows "w_segment_id (ss_writer s') \<le> Suc (w_segment_id (ss_writer s))"
  using assms(2)
proof (cases rule: ss_put_chunk_cases)
  case new
  have "w_inv (ss_files s) (ss_writer s)" using assms(1) by (simp add: seg_invar_def ss_inv_def)
  from sw_append_step [OF this] show ?thesis by (rule ss_put_chunk_new [OF new(3) TrueI]) auto
qed simp

lemma put_chunks_total:
  "seg_invar X s \<Longrightarrow> ss_vault_key s = None \<Longrightarrow> \<forall>(E, d) \<in> set eds. env_ok E \<and> storable d
   \<Longrightarrow> \<exists>s' cs n. put_chunks X eds s = (s', Inr (cs, n)) \<and> w_segment_id (ss_writer s') \<le> w_segment_id (ss_writer s) + length eds"
proof (induction eds arbitrary: s)
  case (Cons ed eds)
  obtain E d where ed: "ed = (E, d)" by (cases ed)
  obtain s1 c b where p: "ss_put_chunk X E s d = Inr (s1, c, b)" using ss_put_chunk_total [OF Cons.prems(1,2)] by blast
  have "seg_invar X s1" using seg.put_invar [OF Cons.prems(1) _ _ p] Cons.prems(3) by (simp add: ed)
  moreover have "ss_vault_key s1 = None" using ss_put_chunk_mono(2) [OF Cons.prems(1) p] Cons.prems(2) by simp
  ultimately obtain s' cs n where "put_chunks X eds s1 = (s', Inr (cs, n))"
    "w_segment_id (ss_writer s') \<le> w_segment_id (ss_writer s1) + length eds" using Cons.IH [of s1] Cons.prems(3) by auto
  then show ?case using ss_put_chunk_step [OF Cons.prems(1) p] by (simp add: ed bindS_def p)
qed simp

section \<open>The redo record\<close>

lemma encode_put_total:
  assumes "length (wp_name put) < 2 ^ 16" "wp_chunks put = []" "wf_oid (wp_object_id put)"
    and "64 + length (concat (map cid_bytes (m_chunks (wp_manifest put)))) < 2 ^ 31" "length (m_content_hash (wp_manifest put)) = 32"
  shows "\<exists>b. encode_put X nonce lsn put None = Inr b"
proof -
  have m: "length (manifest_to_bytes X (wp_manifest put)) < 2 ^ 31"
    using assms(4,5) by (simp add: manifest_to_bytes_def manifest_body_def MANIFEST_MAGIC_def)
  then have "length (put_payload X put) < 2 ^ 32"
    using assms(1-3) by (simp add: put_payload_def wf_oid_def Let_def)
  then show ?thesis
    using m assms(1,2) by (simp add: encode_put_def Let_def checked_put_payload_len_def checked_add_def)
qed

section \<open>The put\<close>

lemma put_chunks_ids: "put_chunks X eds s = (s', Inr (cids, n)) \<Longrightarrow> cids = map (cid_from_data X \<circ> snd) eds"
proof (induction eds arbitrary: s cids n)
  case (Cons ed eds)
  then show ?case by (cases ed) (fastforce simp: bindS_Inr split: sum.splits prod.splits)
qed simp

text \<open>The name, if it is bound, is bound to a stored record.\<close>

definition name_resolves :: "'db view \<Rightarrow> rstring \<Rightarrow> 'db \<Rightarrow> bool" where
  "name_resolves V name db \<longleftrightarrow> (\<forall>i. Option.bind (V db NAME_INDEX name) oid_of_value = Some i
     \<longrightarrow> (\<exists>r. decode_value rec_from_bytes (V db OBJECT_INDEX (oid_bytes i)) = Inr (Some r)))"

lemma put_target_total:
  assumes R: "redb_ok R V" "redb_total R" and n: "name_resolves V name (eg_db e)"
  shows "\<exists>i ver. put_target R P name e = (e, Inr (i, ver))"
proof (cases "Option.bind (V (eg_db e) NAME_INDEX name) oid_of_value")
  case None
  then have "put_target R P name e = (e, Inr (fst (oid_generate (pe_ts P) (pe_pid P) (pe_counter P)), 1))"
    by (simp add: put_target_def bind_ask_db resolve_name_total [OF R])
  then show ?thesis by blast
next
  case (Some i)
  then obtain r where "decode_value rec_from_bytes (V (eg_db e) OBJECT_INDEX (oid_bytes i)) = Inr (Some r)"
    using n by (auto simp: name_resolves_def)
  then have "put_target R P name e = (e, Inr (i, next_version r))"
    using Some by (simp add: put_target_def bind_ask_db resolve_name_total [OF R] get_object_total [OF R] bindS_liftE)
  then show ?thesis by blast
qed

lemma put_commit_total:
  assumes R: "redb_ok R V" "redb_total R" and vk: "wal_vault_key (eg_wal e) = None"
    and n: "name_resolves V name (eg_db e)" "target_free R V P name (eg_db e)" "length name < 2 ^ 16"
    and rd: "64 + length (concat (map cid_bytes (fst rd))) < 2 ^ 31" "length (fst (snd (snd rd))) = 32"
  shows "\<exists>e' ps. put_commit X R P name rd e = (e', Inr ps)"
proof -
  obtain i ver where t: "put_target R P name e = (e, Inr (i, ver))" using put_target_total [OF R n(1)] by blast
  have to: "target_of R V P name (eg_db e) i ver" by (rule put_target_spec [OF R(1) t])
  let ?put = "put_of name P rd i ver"
  obtain b where b: "encode_put X (pe_nonce P) (wal_current_lsn (eg_wal e) + 1) ?put None = Inr b"
    using encode_put_total [of ?put X "pe_nonce P"] n(3) rd target_wf [OF to] by auto
  obtain e1 lsn where a: "on_wal (\<lambda>w. wal_append_put_and_sync X (pe_nonce P) w ?put) e = (e1, Inr lsn)"
    using b vk by (simp add: on_wal_def wal_append_put_and_sync_def Let_def)
  obtain r0 where r0: "decode_value rec_from_bytes (V (eg_db e) OBJECT_INDEX (oid_bytes i)) = Inr r0"
    using target_record [OF R(1) to n(2), of rd "[]"] by blast
  have "eg_db e1 = eg_db e" using on_wal_append(1) [OF a] by simp
  then obtain e2 mid where ap: "apply_put X R ?put e1 = (e2, Inr mid)"
    using apply_put_total [OF R, of e1 ?put r0 X] r0 by auto
  obtain e' r where c: "put_commit X R P name rd e = (e', r)" by fastforce
  from c show ?thesis by (cases rule: put_commit_split) (use t a ap c in auto)
qed

lemma three_attempts: "[1..<Suc MAX_STABLE_READ_ATTEMPTS] = [1, 2, 3]"
  by code_simp

text \<open>A file that can be read stably is read at the first attempt.\<close>

lemma put_attempts_total:
  assumes inv: "eng_inv X V U e" and vk: "eg_vault_key e = None" and F: "fastcdc_ok X" and src: "source_ok X U src"
    and cs: "stream_chunks X (at_blocks (src_attempt src 1)) = Some cs" "stable_attempt (src_attempt src 1) cs"
  shows "\<exists>s' new. put_attempts X (map (src_attempt src) [1..<Suc MAX_STABLE_READ_ATTEMPTS]) (eg_segments e)
      = Some (s', Inr (Some (map (cid_from_data X) cs, total_len cs, blake3 X (concat cs), new)))
    \<and> w_segment_id (ss_writer s') \<le> w_segment_id (ss_writer (eg_segments e)) + length cs"
proof -
  have X: "ext_ok X" and ok: "seg_ok X U (eg_segments e)" and keys: "ss_vault_key (eg_segments e) = None"
    using inv vk by (auto simp: eng_inv_iff)
  have "attempt_ok X U (src_attempt src 1)" using src(1) by (simp add: source_ok_def)
  from with_envs_ok [OF F this cs(1)] have eds: "\<forall>(E, d) \<in> set (with_envs (at_env (src_attempt src 1)) cs). env_ok E \<and> storable d"
    by fastforce
  obtain s' cids new where p: "put_chunks X (with_envs (at_env (src_attempt src 1)) cs) (eg_segments e) = (s', Inr (cids, new))"
    and st: "w_segment_id (ss_writer s') \<le> w_segment_id (ss_writer (eg_segments e)) + length cs"
    using put_chunks_total [OF seg_ok_inv [OF ok X] keys eds] by (auto simp: with_envs_def)
  have "cids = map (cid_from_data X) cs" using put_chunks_ids [OF p] by (simp flip: map_map)
  then show ?thesis using cs p st unfolding three_attempts by (simp add: stable_attempt_def)
qed

lemma put_file_total:
  assumes R: "redb_ok R V" "redb_total R" and inv: "eng_inv X V U e" and vk: "eg_vault_key e = None"
    and F: "fastcdc_ok X" and src: "source_ok X U src" "src_exists src"
    and cs: "stream_chunks X (at_blocks (src_attempt src 1)) = Some cs" "stable_attempt (src_attempt src 1) cs"
    and name: "validate_logical_name (trim name) = Inr ()" "length (trim name) < 2 ^ 16"
    and n: "name_resolves V (trim name) (eg_db e)" "target_free R V P (trim name) (eg_db e)"
    and sz: "64 + 32 * length cs < 2 ^ 31"
  shows "\<exists>e' ps. put_file_named X R P name src e = Some (e', Inr ps)
    \<and> w_segment_id (ss_writer (eg_segments e')) \<le> w_segment_id (ss_writer (eg_segments e)) + length cs"
proof -
  have X: "ext_ok X" and wk: "wal_vault_key (eg_wal e) = None" using inv vk by (auto simp: eng_inv_iff)
  obtain s' new where at: "put_attempts X (map (src_attempt src) [1..<Suc MAX_STABLE_READ_ATTEMPTS]) (eg_segments e)
      = Some (s', Inr (Some (map (cid_from_data X) cs, total_len cs, blake3 X (concat cs), new)))"
    and st: "w_segment_id (ss_writer s') \<le> w_segment_id (ss_writer (eg_segments e)) + length cs"
    using put_attempts_total [OF inv vk F src(1) cs] by blast
  let ?rd = "(map (cid_from_data X) cs, total_len cs, blake3 X (concat cs), new)"
  have "list_all wf_cid (map (cid_from_data X) cs)" using X by (auto simp: list_all_iff)
  from length_cids [OF this] obtain e' ps where c: "put_commit X R P (trim name) ?rd (e\<lparr>eg_segments := s'\<rparr>) = (e', Inr ps)"
    using put_commit_total [OF R, of "e\<lparr>eg_segments := s'\<rparr>" "trim name" P ?rd X] wk n name(2) sz ext_okD(1) [OF X] by auto
  then show ?thesis
    using at st name(1) src(2) put_commit_segments [OF c] by (simp add: put_file_named_def Let_def bindS_liftE del: upt_Suc)
qed

end
