(* ===== verification/Oos_Engine_Demo.thy ===== *)
theory Oos_Engine_Demo
  imports Oos_Engine_Total
begin

text \<open>
  A closed example for the theorems on the engine: a new store over the example libraries, and a
  file of one byte that is put into it.
\<close>

definition demo_fp :: fingerprint where
  "demo_fp = \<lparr>fp_len = 1, fp_modified = None, fp_identity = (0, 0)\<rparr>"

definition demo_source :: source where
  "demo_source = \<lparr>src_exists = True, src_attempt = (\<lambda>_. \<lparr>at_before = demo_fp, at_blocks = [[7]], at_env = (\<lambda>_. demo_env),
     at_after_handle = demo_fp, at_after_path = demo_fp\<rparr>)\<rparr>"

definition demo_penv :: put_env where
  "demo_penv = \<lparr>pe_now = 0, pe_ts = 1, pe_pid = 1, pe_counter = 1, pe_nonce = replicate 24 0\<rparr>"

definition demo_name :: rstring where "demo_name = bytes_of ''a''"

lemma concat_single: "concat cs = [x] \<Longrightarrow> \<forall>c \<in> set cs. c \<noteq> [] \<Longrightarrow> cs = [[x]]"
  by (cases cs) (auto simp: append_eq_Cons_conv)

lemma demo_stream: "stream_chunks demo_ext [[7]] = Some [[7]]"
proof -
  obtain cs where cs: "stream_chunks demo_ext [[7]] = Some cs" "concat cs = [7]" "\<forall>c \<in> set cs. c \<noteq> []"
    using stream_chunks_spec [OF demo_fastcdc_ok, of "[[7]]"] by auto
  then show ?thesis using concat_single [of cs 7] by simp
qed

lemma demo_source_ok: "source_ok demo_ext {[7]} demo_source"
  by (simp add: source_ok_def demo_source_def attempt_ok_def demo_stream)

lemma demo_collision_free: "collision_free X {d}"
  by (simp add: collision_free_def)

lemma demo_name_eq: "demo_name = [97]"
  by code_simp

lemma demo_name_ok: "trim demo_name = demo_name" "validate_logical_name demo_name = Inr ()" "utf8_valid demo_name"
  unfolding demo_name_eq by code_simp+

lemma demo_name_len: "length demo_name < 2 ^ 16"
  by (simp add: demo_name_eq)

lemma demo_engine:
  "\<exists>e. eg_run demo_ext R demo_view {[7]} e \<and> eg_vault_key e = None \<and> eg_db e = demo_empty
     \<and> put_ready demo_view demo_penv demo_name e \<and> target_free R demo_view demo_penv demo_name (eg_db e)
     \<and> name_resolves demo_view demo_name (eg_db e) \<and> wal_read_uncheckpointed_records demo_ext (eg_wal e) = Inr []
     \<and> w_segment_id (ss_writer (eg_segments e)) = 1"
proof -
  obtain e sh where e: "open_internal demo_ext R demo_env (\<lambda>_. demo_env) \<lparr>sd_files = [], sd_dirs = []\<rparr> demo_empty
      \<lparr>wd_log = [], wd_meta = None\<rparr> None = Inr e" "eg_db e = demo_empty" "eg_vault_key e = None"
      "seg_log_inv demo_ext (eg_segments e) [(1, sh, [])]" "wal_inv demo_ext (eg_wal e) []" "wal_current_lsn (eg_wal e) = 0"
    using open_new [of demo_ext R demo_env "\<lambda>_. demo_env" "[]" demo_empty None] by auto
  have V: "demo_view demo_empty t = (\<lambda>_. None)" for t by (simp add: demo_view_def demo_empty_def)
  have "eg_run demo_ext R demo_view {[7]} e" by (rule eg_new [OF _ e(1)]) (simp add: no_objects_def V)
  moreover have "put_ready demo_view demo_penv demo_name e"
    using e(2,6) demo_name_ok by (simp add: put_ready_def room_def V demo_penv_def word_less_nat_alt unsigned_minus_1_eq_mask mask_eq_exp_minus_1)
  moreover have "target_free R demo_view demo_penv demo_name (eg_db e)" "name_resolves demo_view demo_name (eg_db e)"
    by (simp_all add: target_free_def name_resolves_def e(2) V)
  moreover have "w_segment_id (ss_writer (eg_segments e)) = 1" using e(4) by (simp add: seg_log_inv_def sw_log_def)
  ultimately show ?thesis using e(2,3) wal_read_inv [OF e(5)] by auto
qed

lemma demo_source_reads: "src_exists demo_source" "at_blocks (src_attempt demo_source k) = [[7]]"
  "stable_attempt (src_attempt demo_source k) [[7]]"
  by (simp_all add: stable_attempt_def demo_source_def total_len_def demo_fp_def)

lemma demo_put:
  assumes "eg_run demo_ext demo_redb demo_view {[7]} e" "eg_vault_key e = None"
    and "target_free demo_redb demo_view demo_penv demo_name (eg_db e)" "name_resolves demo_view demo_name (eg_db e)"
  shows "\<exists>e' ps. put_file_named demo_ext demo_redb demo_penv demo_name demo_source e = Some (e', Inr ps)
     \<and> w_segment_id (ss_writer (eg_segments e')) \<le> w_segment_id (ss_writer (eg_segments e)) + 1"
proof -
  have inv: "eng_inv demo_ext demo_view {[7]} e"
    by (rule eg_run_inv [OF assms(1) demo_redb_ok demo_ext_ok demo_collision_free demo_fastcdc_ok])
  from put_file_total [OF demo_redb_ok demo_redb_total inv assms(2) demo_fastcdc_ok demo_source_ok, of "[[7]]" demo_name demo_penv]
  show ?thesis using assms(3,4) demo_source_reads demo_stream demo_name_ok demo_name_len by simp
qed

lemma encode_put_nonempty: "encode_put X nonce lsn put vk = Inr b \<Longrightarrow> b \<noteq> []"
  by (cases vk) (auto simp: encode_put_def wal_frame_def Let_def bindE_eq_Inr split: if_splits)

text \<open>An empty file whose put stops after its redo record is written.\<close>

lemma demo_crash:
  assumes "eg_run demo_ext demo_redb demo_view {[7]} e" "eg_vault_key e = None" "eg_db e = demo_empty"
    and "target_free demo_redb demo_view demo_penv demo_name (eg_db e)"
  shows "\<exists>put wd. put_crash demo_ext demo_redb demo_view demo_penv demo_name ([], 0, blake3 demo_ext [], 0) e put (eg_db e) wd
    \<and> wd_log wd \<noteq> wal_log (eg_wal e)"
proof -
  let ?rd = "([], 0, blake3 demo_ext [], 0) :: chunk_id list \<times> u64 \<times> bytes \<times> nat"
  have "eng_inv demo_ext demo_view {[7]} e"
    by (rule eg_run_inv [OF assms(1) demo_redb_ok demo_ext_ok demo_collision_free demo_fastcdc_ok])
  then have vk: "wal_vault_key (eg_wal e) = None" using assms(2) by (simp add: eng_inv_iff)
  have "name_resolves demo_view demo_name (eg_db e)" using assms(3) by (simp add: name_resolves_def demo_view_def demo_empty_def)
  then obtain e' ps where c: "put_commit demo_ext demo_redb demo_penv demo_name ?rd e = (e', Inr ps)"
    using put_commit_total [OF demo_redb_ok demo_redb_total vk _ assms(4), of ?rd demo_ext] ext_okD(1) [OF demo_ext_ok] demo_name_len by auto
  from c show ?thesis
  proof (cases rule: put_commit_split)
    case (committed i ver lsn e1 mid e2 ps')
    have "put_crash demo_ext demo_redb demo_view demo_penv demo_name ?rd e (put_of demo_name demo_penv ?rd i ver) (eg_db e) (wal_on_disk (eg_wal e1))"
      by (rule crash_logged [OF committed(1,2)]) (simp add: put_stages_def)
    moreover have "wd_log (wal_on_disk (eg_wal e1)) \<noteq> wal_log (eg_wal e)"
      using committed(2) encode_put_nonempty by (auto simp: on_wal_def wal_append_put_and_sync_def wal_on_disk_def Let_def split: sum.splits)
    ultimately show ?thesis by blast
  qed auto
qed

end
