(* ===== verification/Oos_Engine_Refine.thy ===== *)
theory Oos_Engine_Refine
  imports Oos_Engine_Demo
begin

text \<open>
  What the engine promises its users, without ids, tables and logs: a map from names to version
  histories.  Every operation on names and histories is shown to implement its abstract counterpart.
\<close>

section \<open>Simulation\<close>

inductive trace :: "('s \<Rightarrow> 'l \<Rightarrow> 's \<Rightarrow> bool) \<Rightarrow> 's \<Rightarrow> 'l list \<Rightarrow> 's \<Rightarrow> bool" for step where
  trace_Nil: "trace step s [] s"
| trace_Cons: "step s l s' \<Longrightarrow> trace step s' ls s'' \<Longrightarrow> trace step s (l # ls) s''"

locale simulation =
  fixes cstep :: "'c \<Rightarrow> 'l \<Rightarrow> 'c \<Rightarrow> bool" and astep :: "'a \<Rightarrow> 'l \<Rightarrow> 'a \<Rightarrow> bool"
    and abs :: "'c \<Rightarrow> 'a" and inv :: "'c \<Rightarrow> bool"
  assumes step_inv: "inv c \<Longrightarrow> cstep c l c' \<Longrightarrow> inv c'"
    and step_sim: "inv c \<Longrightarrow> cstep c l c' \<Longrightarrow> astep (abs c) l (abs c')"
begin

lemma trace_sim: "trace cstep c ls c' \<Longrightarrow> inv c \<Longrightarrow> inv c' \<and> trace astep (abs c) ls (abs c')"
  by (induction rule: trace.induct) (auto intro: trace.intros step_inv step_sim)

end

section \<open>The abstract state\<close>

type_synonym history = "(u32 \<times> rstring) list"

definition object_of :: "tables \<Rightarrow> rstring \<Rightarrow> object_id option" where
  "object_of T n = Option.bind (T NAME_INDEX n) oid_of_value"

definition record_of :: "tables \<Rightarrow> object_id \<Rightarrow> object_record option" where
  "record_of T i = (case decode_value rec_from_bytes (T OBJECT_INDEX (oid_bytes i)) of Inr r \<Rightarrow> r | Inl _ \<Rightarrow> None)"

definition versions_of :: "object_record \<Rightarrow> history" where
  "versions_of r = map (\<lambda>v. (v_version v, v_manifest_id v)) (o_versions r)"

definition histories :: "tables \<Rightarrow> rstring \<rightharpoonup> history" where
  "histories T n = map_option versions_of (Option.bind (object_of T n) (record_of T))"

text \<open>Every binding leads to a record, and no two names share an object.\<close>

definition names_ok :: "tables \<Rightarrow> bool" where
  "names_ok T \<longleftrightarrow> (\<forall>n b. T NAME_INDEX n = Some b \<longrightarrow> length b = 16)
     \<and> (\<forall>n i. object_of T n = Some i \<longrightarrow> record_of T i \<noteq> None)
     \<and> (\<forall>n n' i. object_of T n = Some i \<longrightarrow> object_of T n' = Some i \<longrightarrow> n = n')"

text \<open>What a client observes of an operation.\<close>

datatype act =
  Idle | Stored rstring "u32 \<times> rstring" | Store_failed rstring | Forgot rstring
  | Renamed rstring rstring bool | Pruned rstring nat nat | Rolled_back rstring u32 u32

definition past :: "(rstring \<rightharpoonup> history) \<Rightarrow> rstring \<Rightarrow> history" where
  "past A n = (case A n of None \<Rightarrow> [] | Some h \<Rightarrow> h)"

inductive spec_step :: "(rstring \<rightharpoonup> history) \<Rightarrow> act \<Rightarrow> (rstring \<rightharpoonup> history) \<Rightarrow> bool" where
  spec_idle: "spec_step A Idle A"
| spec_put: "spec_step A (Stored n vm) (A(n \<mapsto> past A n @ [vm]))"
| spec_put_undone: "spec_step A (Store_failed n) A"
| spec_put_done: "spec_step A (Store_failed n) (A(n \<mapsto> past A n @ [vm]))"
| spec_forget: "spec_step A (Forgot n) (A(n := None))"
| spec_rename: "A a = Some h \<Longrightarrow> spec_step A (Renamed a b True) ((A(a := None))(b \<mapsto> h))"
| spec_rename_none: "A a = None \<Longrightarrow> spec_step A (Renamed a b False) A"
| spec_prune: "A n = Some h \<Longrightarrow> c = length h - k \<Longrightarrow> spec_step A (Pruned n k c) (A(n \<mapsto> drop c h))"
| spec_prune_none: "A n = None \<Longrightarrow> spec_step A (Pruned n k 0) A"
| spec_rollback: "A n = Some h \<Longrightarrow> find (\<lambda>(u, _). u = v) h = Some (u, mid)
    \<Longrightarrow> spec_step A (Rolled_back n v w) (A(n \<mapsto> h @ [(w, mid)]))"

section \<open>Changes of the tables\<close>

lemma object_of_simps [simp]:
  "t \<noteq> NAME_INDEX \<Longrightarrow> object_of (set_entry T t k v) = object_of T"
  "object_of (set_entry T NAME_INDEX n v) = (object_of T)(n := Option.bind v oid_of_value)"
  by (auto simp: object_of_def fun_eq_iff set_entry_apply)

lemma record_of_simps [simp]:
  "t \<noteq> OBJECT_INDEX \<Longrightarrow> record_of (set_entry T t k v) = record_of T"
  "record_of (set_entry T OBJECT_INDEX (oid_bytes i) None) = (record_of T)(i := None)"
  "wf_record r \<Longrightarrow> record_of (set_entry T OBJECT_INDEX (oid_bytes i) (Some (rec_to_bytes r))) = (record_of T)(i \<mapsto> r)"
  by (auto simp: record_of_def fun_eq_iff set_entry_apply decode_value_def rec_from_to_bytes object_id.expand)

lemma histories_eq: "object_of T = object_of T' \<Longrightarrow> record_of T = record_of T' \<Longrightarrow> histories T = histories T'"
  by (intro ext) (simp add: histories_def)

lemma names_ok_eq:
  "T NAME_INDEX = T' NAME_INDEX \<Longrightarrow> record_of T = record_of T' \<Longrightarrow> names_ok T \<longleftrightarrow> names_ok T'"
  by (simp add: names_ok_def object_of_def)

lemma names_okD:
  assumes "names_ok T"
  shows "T NAME_INDEX n = Some b \<Longrightarrow> object_of T n = Some (oid_from_raw b)"
    and "object_of T n = Some i \<Longrightarrow> \<exists>r. record_of T i = Some r"
    and "object_of T n = Some i \<Longrightarrow> object_of T n' = Some i \<Longrightarrow> n = n'"
  using assms by (auto simp: names_ok_def object_of_def oid_of_value_def)

lemma histories_None: "names_ok T \<Longrightarrow> histories T n = None \<longleftrightarrow> T NAME_INDEX n = None"
  using names_okD(1) [of T n] names_okD(2) [of T n]
  by (cases "T NAME_INDEX n") (auto simp: histories_def object_of_def)

text \<open>Rewriting the record of a bound object changes the history of its one name.\<close>

lemma histories_object:
  assumes "names_ok T" "object_of T n = Some i" "wf_record r"
  shows "histories (set_entry T OBJECT_INDEX (oid_bytes i) (Some (rec_to_bytes r))) = (histories T)(n \<mapsto> versions_of r)"
    and "names_ok (set_entry T OBJECT_INDEX (oid_bytes i) (Some (rec_to_bytes r)))"
proof -
  show "histories (set_entry T OBJECT_INDEX (oid_bytes i) (Some (rec_to_bytes r))) = (histories T)(n \<mapsto> versions_of r)"
  proof
    fix m
    show "histories (set_entry T OBJECT_INDEX (oid_bytes i) (Some (rec_to_bytes r))) m = ((histories T)(n \<mapsto> versions_of r)) m"
      using assms(2,3) names_okD(3) [OF assms(1,2), of m] by (cases "object_of T m") (auto simp: histories_def)
  qed
  show "names_ok (set_entry T OBJECT_INDEX (oid_bytes i) (Some (rec_to_bytes r)))"
    using assms(1,3) by (auto simp: names_ok_def)
qed

lemma histories_unbound:
  assumes "\<forall>n. object_of T n \<noteq> Some i" "wf_record r"
  shows "histories (set_entry T OBJECT_INDEX (oid_bytes i) (Some (rec_to_bytes r))) = histories T"
proof
  fix m
  show "histories (set_entry T OBJECT_INDEX (oid_bytes i) (Some (rec_to_bytes r))) m = histories T m"
    using assms by (cases "object_of T m") (auto simp: histories_def)
qed

lemma names_ok_object: "names_ok T \<Longrightarrow> wf_record r \<Longrightarrow> names_ok (set_entry T OBJECT_INDEX (oid_bytes i) (Some (rec_to_bytes r)))"
  by (auto simp: names_ok_def)

lemma drop_object:
  assumes "\<forall>n. object_of T n \<noteq> Some i"
  shows "histories (set_entry T OBJECT_INDEX (oid_bytes i) None) = histories T"
    and "names_ok T \<Longrightarrow> names_ok (set_entry T OBJECT_INDEX (oid_bytes i) None)"
proof -
  have "histories (set_entry T OBJECT_INDEX (oid_bytes i) None) m = histories T m" for m
    using assms by (cases "object_of T m") (auto simp: histories_def)
  then show "histories (set_entry T OBJECT_INDEX (oid_bytes i) None) = histories T" by blast
  show "names_ok T \<Longrightarrow> names_ok (set_entry T OBJECT_INDEX (oid_bytes i) None)"
    unfolding names_ok_def using assms by simp
qed

lemma names_ok_unbind: "names_ok T \<Longrightarrow> names_ok (set_entry T NAME_INDEX n None)"
  by (auto simp: names_ok_def set_entry_apply [of T NAME_INDEX n None NAME_INDEX] split: if_splits)

lemma histories_unbind: "histories (set_entry T NAME_INDEX n None) = (histories T)(n := None)"
  by (auto simp: fun_eq_iff histories_def)

text \<open>Binding a name to an object that no other name has.\<close>

lemma bind_name_histories:
  assumes "names_ok T" "wf_oid i" "\<forall>m. m \<noteq> n \<longrightarrow> object_of T m \<noteq> Some i" "record_of T i = Some r"
  shows "histories (set_entry T NAME_INDEX n (Some (oid_bytes i))) = (histories T)(n \<mapsto> versions_of r)"
    and "names_ok (set_entry T NAME_INDEX n (Some (oid_bytes i)))"
proof -
  have i: "oid_of_value (oid_bytes i) = Some i" by (rule oid_of_value_bytes [OF assms(2)])
  show "histories (set_entry T NAME_INDEX n (Some (oid_bytes i))) = (histories T)(n \<mapsto> versions_of r)"
    by (auto simp: fun_eq_iff histories_def i assms(4))
  show "names_ok (set_entry T NAME_INDEX n (Some (oid_bytes i)))"
    using assms unfolding names_ok_def
    by (auto simp: set_entry_apply [of T NAME_INDEX n _ NAME_INDEX] i wf_oid_def split: if_splits)
qed

section \<open>The operations\<close>

lemma delete_histories:
  assumes R: "redb_ok R V" and ok: "names_ok (V (eg_db e))" and d: "delete_file R name e = (e', r)"
  shows "names_ok (V (eg_db e'))"
    and "histories (V (eg_db e')) = (case r of Inl _ \<Rightarrow> histories (V (eg_db e)) | Inr _ \<Rightarrow> (histories (V (eg_db e)))(trim name := None))"
proof -
  let ?T = "V (eg_db e)"
  have "names_ok (V (eg_db e')) \<and>
    histories (V (eg_db e')) = (case r of Inl _ \<Rightarrow> histories ?T | Inr _ \<Rightarrow> (histories ?T)(trim name := None))"
  proof (cases "delete_named_object R (eg_db e) (trim name)")
    case (Inl err)
    then show ?thesis using d ok by (auto simp: delete_file_def bindS_def on_db_def)
  next
    case (Inr x)
    then obtain db' i where x: "delete_named_object R (eg_db e) (trim name) = Inr (db', i)" by (cases x) auto
    note v = delete_named_object_view [OF R x]
    have e': "e' = e\<lparr>eg_db := db'\<rparr>" "\<exists>b. r = Inr b" using d x by (auto simp: delete_file_def bindS_def on_db_def)
    have i: "i = object_of ?T (trim name)" using v(1) by (simp add: object_of_def)
    let ?T1 = "set_entry ?T NAME_INDEX (trim name) None"
    have T1: "names_ok ?T1" "histories ?T1 = (histories ?T)(trim name := None)" using ok by (simp_all add: names_ok_unbind histories_unbind)
    have "\<forall>m. object_of ?T1 m \<noteq> Some j" if "i = Some j" for j using names_okD(3) [OF ok, of "trim name" j] i that by auto
    then have "names_ok (set_entry ?T1 OBJECT_INDEX (oid_bytes j) None) \<and> histories (set_entry ?T1 OBJECT_INDEX (oid_bytes j) None) = histories ?T1"
      if "i = Some j" for j using drop_object [of ?T1 j] T1(1) that by blast
    then show ?thesis using T1 v(2) e' by (cases i) auto
  qed
  then show "names_ok (V (eg_db e'))"
    "histories (V (eg_db e')) = (case r of Inl _ \<Rightarrow> histories ?T | Inr _ \<Rightarrow> (histories ?T)(trim name := None))" by auto
qed

lemma unbind_histories:
  assumes R: "redb_ok R V" and ok: "names_ok (V (eg_db e))" and d: "unbind_file R name e = (e', r)"
  shows "names_ok (V (eg_db e'))"
    and "histories (V (eg_db e')) = (case r of Inl _ \<Rightarrow> histories (V (eg_db e)) | Inr _ \<Rightarrow> (histories (V (eg_db e)))(trim name := None))"
proof -
  have "V (eg_db e') = (case r of Inl _ \<Rightarrow> V (eg_db e) | Inr _ \<Rightarrow> set_entry (V (eg_db e)) NAME_INDEX (trim name) None)"
    using d unbind_name_view [OF R, of "eg_db e" "trim name"]
    by (cases "unbind_name R (eg_db e) (trim name)") (auto simp: unbind_file_def bindS_def on_db_def)
  then show "names_ok (V (eg_db e'))"
    "histories (V (eg_db e')) = (case r of Inl _ \<Rightarrow> histories (V (eg_db e)) | Inr _ \<Rightarrow> (histories (V (eg_db e)))(trim name := None))"
    using ok by (auto simp: names_ok_unbind histories_unbind split: sum.splits)
qed

lemma rename_histories:
  assumes R: "redb_ok R V" and ok: "names_ok (V (eg_db e))" and d: "rename_file R a b e = (e', Inr moved)"
  shows "names_ok (V (eg_db e'))" and "spec_step (histories (V (eg_db e))) (Renamed (trim a) (trim b) moved) (histories (V (eg_db e')))"
proof -
  let ?T = "V (eg_db e)"
  obtain db' where db': "rename_name_binding R (eg_db e) (trim a) (trim b) = Inr (db', moved)" "e' = e\<lparr>eg_db := db'\<rparr>"
    using d by (auto simp: rename_file_def bindS_liftE on_db_def split: sum.splits)
  note v = rename_name_binding_view [OF R db'(1)]
  have "names_ok (V db') \<and> spec_step (histories ?T) (Renamed (trim a) (trim b) moved) (histories (V db'))"
  proof (cases "?T NAME_INDEX (trim a)")
    case None
    then show ?thesis using v ok histories_None [OF ok] by (auto intro: spec_rename_none)
  next
    case (Some k)
    let ?i = "oid_from_raw k" and ?T1 = "set_entry ?T NAME_INDEX (trim a) None"
    have o: "object_of ?T (trim a) = Some ?i" by (rule names_okD(1) [OF ok Some])
    obtain r where r: "record_of ?T ?i = Some r" using names_okD(2) [OF ok o] by blast
    have k: "k = oid_bytes ?i" "wf_oid ?i" using o Some by (auto simp: object_of_def oid_of_value_def oid_from_raw_def wf_oid_def split: if_splits)
    have T': "V db' = set_entry ?T1 NAME_INDEX (trim b) (Some (oid_bytes ?i))" "moved" using v Some k by auto
    have free: "\<forall>m. m \<noteq> trim b \<longrightarrow> object_of ?T1 m \<noteq> Some ?i" using names_okD(3) [OF ok o] by auto
    have "record_of ?T1 ?i = Some r" using r by simp
    note b = bind_name_histories [OF names_ok_unbind [OF ok] k(2) free this]
    have "histories ?T (trim a) = Some (versions_of r)" using o r by (simp add: histories_def)
    then show ?thesis unfolding T' using b T'(2) by (auto simp: histories_unbind intro: spec_rename)
  qed
  then show "names_ok (V (eg_db e'))" "spec_step (histories ?T) (Renamed (trim a) (trim b) moved) (histories (V (eg_db e')))"
    by (simp_all add: db'(2))
qed


lemma written_record:
  assumes R: "redb_ok R V" and ok: "names_ok (V (eg_db e))" and keys: "keys_ok (V (eg_db e))"
    and res: "resolve_name R (eg_db e) n = Inr (Some i)" and get: "get_object R (eg_db e) i = Inr (Some r0)"
    and put: "put_object R (eg_db e) r = Inr db'" and r: "wf_record r" "o_object_id r = o_object_id r0"
  shows "histories (V (eg_db e)) n = Some (versions_of r0)"
    and "histories (V db') = (histories (V (eg_db e)))(n \<mapsto> versions_of r)" "names_ok (V db')"
proof -
  have o: "object_of (V (eg_db e)) n = Some i" using resolve_name_view [OF R res] by (simp add: object_of_def)
  have i: "o_object_id r0 = i" by (rule get_object_live(3) [OF R get keys])
  show "histories (V (eg_db e)) n = Some (versions_of r0)"
    using o get_object_view [OF R get] by (simp add: histories_def record_of_def)
  show "histories (V db') = (histories (V (eg_db e)))(n \<mapsto> versions_of r)" "names_ok (V db')"
    using histories_object [OF ok o r(1)] put_object_view [OF R put] i r(2) by simp_all
qed

lemma prune_histories:
  assumes R: "redb_ok R V" and ok: "names_ok (V (eg_db e))" "keys_ok (V (eg_db e))"
    and p: "prune_file_versions R n k e = (e', Inr c)"
  shows "names_ok (V (eg_db e'))" and "spec_step (histories (V (eg_db e))) (Pruned (trim n) k c) (histories (V (eg_db e')))"
proof -
  let ?A = "histories (V (eg_db e))"
  have hist: "?A (trim n) = map_option versions_of r1" if "resolve_name R (eg_db e) (trim n) = Inr (Some i)" "get_object R (eg_db e) i = Inr r1" for i r1
  proof -
    have "object_of (V (eg_db e)) (trim n) = Some i" using resolve_name_view [OF R that(1)] by (simp add: object_of_def)
    then show ?thesis using get_object_view [OF R that(2)] by (simp add: histories_def record_of_def)
  qed
  have "names_ok (V (eg_db e')) \<and> spec_step ?A (Pruned (trim n) k c) (histories (V (eg_db e')))"
    using p
  proof (cases rule: prune_split)
    case unbound
    then have "?A (trim n) = None" using resolve_name_view [OF R unbound(3)] by (simp add: histories_def object_of_def)
    then show ?thesis using unbound ok by (auto intro: spec_prune_none)
  next
    case (missing i)
    then show ?thesis using hist [OF missing(3,4)] ok by (auto intro: spec_prune_none)
  next
    case (short i r0)
    then have h: "?A (trim n) = Some (versions_of r0)" "0 = length (versions_of r0) - k"
      using hist [OF short(3,4)] by (simp_all add: versions_of_def)
    moreover have "?A(trim n \<mapsto> drop 0 (versions_of r0)) = ?A" using h(1) by auto
    ultimately show ?thesis using spec_prune [of ?A "trim n" "versions_of r0" 0 k] short(1,2) ok by simp
  next
    case (pruned i r0 db')
    let ?r = "r0\<lparr>o_versions := drop (length (o_versions r0) - k) (o_versions r0)\<rparr>"
    have wf: "wf_record ?r"
      using get_object_live(1) [OF R pruned(2)] by (auto simp: wf_record_def list_all_iff dest: in_set_dropD)
    note w = written_record [OF R ok pruned(1,2,4) wf]
    have "versions_of ?r = drop c (versions_of r0)" "c = length (versions_of r0) - k"
      using pruned(6) by (simp_all add: versions_of_def drop_map)
    then show ?thesis using w pruned(5) spec_prune [of ?A "trim n" "versions_of r0" c k] by simp
  qed simp
  then show "names_ok (V (eg_db e'))" "spec_step ?A (Pruned (trim n) k c) (histories (V (eg_db e')))" by auto
qed

lemma find_versions:
  "find (\<lambda>(u, _). u = v) (map (\<lambda>x. (v_version x, v_manifest_id x)) xs) = map_option (\<lambda>x. (v_version x, v_manifest_id x)) (find (\<lambda>x. v_version x = v) xs)"
  by (induction xs) auto

lemma rollback_histories:
  assumes R: "redb_ok R V" and ok: "names_ok (V (eg_db e))" "keys_ok (V (eg_db e))" and room: "room (V (eg_db e)) 1"
    and p: "rollback_commit X R now n v e = (e', Inr (w, m))"
  shows "names_ok (V (eg_db e'))" and "spec_step (histories (V (eg_db e))) (Rolled_back n v w) (histories (V (eg_db e')))"
proof -
  have "names_ok (V (eg_db e')) \<and> spec_step (histories (V (eg_db e))) (Rolled_back n v w) (histories (V (eg_db e')))"
    using p
  proof (cases rule: rollback_split)
    case (appended i r0 x m db')
    have x: "x \<in> set (o_versions r0)" "v_version x = v" using appended(3) by (auto simp: find_Some_iff)
    have wf: "wf_record (rollback_record now r0 x)"
      using get_object_live(1) [OF R appended(2)] x(1) stored_record_room(2) [OF room get_object_view [OF R appended(2)]]
      by (intro rollback_record_wf)
    note w = written_record [OF R ok appended(1,2,5) wf]
    have "find (\<lambda>(u, _). u = v) (versions_of r0) = Some (v, v_manifest_id x)"
      using appended(3) x(2) by (simp add: versions_of_def find_versions)
    moreover have "versions_of (rollback_record now r0 x) = versions_of r0 @ [(w, v_manifest_id x)]"
      using appended(7) by (simp add: versions_of_def rollback_record_def)
    ultimately show ?thesis using w appended(6) spec_rollback by (simp add: rollback_record_def)
  qed simp
  then show "names_ok (V (eg_db e'))" "spec_step (histories (V (eg_db e))) (Rolled_back n v w) (histories (V (eg_db e')))" by auto
qed

section \<open>Puts\<close>

lemma put_stage_histories:
  assumes R: "redb_ok R V" and ok: "names_ok (V db)" and keys: "keys_ok (V db)" and room: "room (V db) 1"
    and t: "target_of R V P n db i ver" and free: "target_free R V P n db"
    and h: "length (m_content_hash (wp_manifest (put_of n P rd i ver))) = 32"
  defines "put \<equiv> put_of n P rd i ver" and "A \<equiv> histories (V db)"
  shows "T' \<in> set (put_stages X put (V db)) \<Longrightarrow> names_ok T' \<and> histories T' \<in> {A, A(n \<mapsto> past A n @ [(ver, content_id (wp_manifest put))])}"
    and "histories (put_tables X put (V db)) = A(n \<mapsto> past A n @ [(ver, content_id (wp_manifest put))])"
proof -
  let ?T1 = "put_manifest_table X put (V db)"
  let ?T2 = "put_object_table put ?T1"
  obtain r0 r v where r: "decode_value rec_from_bytes (V db OBJECT_INDEX (oid_bytes i)) = Inr r0"
    "put_record put (content_id (wp_manifest put)) r0 = Some r" "v_manifest_id v = content_id (wp_manifest put)" "v_version v = ver"
    "o_versions r = (case r0 of None \<Rightarrow> [] | Some r1 \<Rightarrow> o_versions r1) @ [v]"
    using target_record [OF R t free, of rd "content_id (wp_manifest put)"] unfolding put_def by blast
  have wfi: "wf_oid i" by (rule target_wf [OF t])
  have wf: "wf_record r"
    using put_record_wf [OF r(2)] wfi h stored_record_room [OF room] r(1) by (auto simp: put_def)
  have id: "o_object_id r = i"
    using put_record_SomeD(2) [OF r(2)] r(1) keys
    by (cases r0) (auto simp: put_def keys_ok_def decode_value_Inr intro: object_id.expand)
  have T2: "?T2 = set_entry ?T1 OBJECT_INDEX (oid_bytes i) (Some (rec_to_bytes r))"
    using r(1,2) id by (simp add: put_object_table_def put_def put_manifest_table_def)
  have T1: "names_ok ?T1" "histories ?T1 = A"
    unfolding put_manifest_table_def A_def using ok names_ok_eq [of "set_entry (V db) MANIFESTS (content_id (wp_manifest put)) (Some (manifest_to_bytes X (wp_manifest put)))" "V db"]
    by (simp, intro histories_eq, simp_all)
  have o1: "object_of ?T1 = object_of (V db)" by (simp add: put_manifest_table_def)
  have T2': "names_ok ?T2" "record_of ?T2 i = Some r" using T1(1) wf by (simp_all add: T2 names_ok_object)
  have h2: "versions_of r = past A n @ [(ver, content_id (wp_manifest put))] \<and> (\<forall>m. m \<noteq> n \<longrightarrow> object_of (V db) m \<noteq> Some i)
      \<and> histories ?T2 \<in> {A, A(n \<mapsto> versions_of r)}"
  proof (cases "object_of (V db) n")
    case None
    have f: "V db OBJECT_INDEX (oid_bytes i) = None" "r0 = None"
      using t free None r(1) by (auto simp: target_of_def target_free_def object_of_def decode_value_def)
    then have "record_of (V db) i = None" by (simp add: record_of_def decode_value_def)
    then have o: "\<forall>m. object_of (V db) m \<noteq> Some i" using names_okD(2) [OF ok] by fastforce
    then have "histories ?T2 = A" unfolding T2 using histories_unbound [of ?T1 i r] wf T1(2) by (simp add: o1)
    then show ?thesis using o r(3-5) f(2) None by (simp add: versions_of_def past_def A_def histories_def)
  next
    case (Some j)
    then have j: "j = i" using t by (auto simp: target_of_def object_of_def)
    then have "\<exists>r1. r0 = Some r1" using names_okD(2) [OF ok Some] r(1) by (auto simp: record_of_def)
    then obtain r1 where "r0 = Some r1" by blast
    moreover have "histories ?T2 = A(n \<mapsto> versions_of r)"
      unfolding T2 using histories_object(1) [OF T1(1) _ wf, of n i] T1(2) Some j by (simp add: o1)
    moreover from calculation have "A n = Some (versions_of r1)" using r(1) Some j by (simp add: A_def histories_def record_of_def)
    moreover have "\<forall>m. m \<noteq> n \<longrightarrow> object_of (V db) m \<noteq> Some i" using names_okD(3) [OF ok Some] j by blast
    ultimately show ?thesis using r(3-5) by (simp add: versions_of_def past_def)
  qed
  have "put_tables X put (V db) = set_entry ?T2 NAME_INDEX n (Some (oid_bytes i))" by (simp add: put_tables_def put_name_table_def put_def)
  moreover have "\<forall>m. m \<noteq> n \<longrightarrow> object_of ?T2 m \<noteq> Some i" unfolding T2 using h2 by (simp add: o1)
  ultimately have T3: "histories (put_tables X put (V db)) = (histories ?T2)(n \<mapsto> versions_of r)" "names_ok (put_tables X put (V db))"
    using bind_name_histories [OF T2'(1) wfi _ T2'(2), of n] by auto
  then show "histories (put_tables X put (V db)) = A(n \<mapsto> past A n @ [(ver, content_id (wp_manifest put))])" using h2 by auto
  show "T' \<in> set (put_stages X put (V db)) \<Longrightarrow> names_ok T' \<and> histories T' \<in> {A, A(n \<mapsto> past A n @ [(ver, content_id (wp_manifest put))])}"
    using h2 T1 T2'(1) T3 ok by (auto simp: put_stages_def A_def)
qed

lemma put_histories:
  assumes R: "redb_ok R V" and F: "fastcdc_ok X" and inv: "eng_inv X V U e" and ok: "names_ok (V (eg_db e))"
    and src: "source_ok X U src" "put_ready V P (trim name) e" "target_free R V P (trim name) (eg_db e)"
    and p: "put_file_named X R P name src e = Some (e', r)" and bnd: "w_segment_id (ss_writer (eg_segments e')) < 2 ^ 64"
  defines "A \<equiv> histories (V (eg_db e))"
  shows "names_ok (V (eg_db e'))"
    and "spec_step A (case r of Inl _ \<Rightarrow> Store_failed (trim name) | Inr ps \<Rightarrow> Stored (trim name) (ps_version ps, ps_manifest_id ps)) (histories (V (eg_db e')))"
proof -
  have keys: "keys_ok (V (eg_db e))" and X: "ext_ok X" using inv by (auto simp: eng_inv_iff db_ok_def)
  have "names_ok (V (eg_db e')) \<and> spec_step A (case r of Inl _ \<Rightarrow> Store_failed (trim name)
      | Inr ps \<Rightarrow> Stored (trim name) (ps_version ps, ps_manifest_id ps)) (histories (V (eg_db e')))"
    using p
  proof (cases rule: put_file_named_split)
    case (stored s' rd)
    let ?e = "e\<lparr>eg_segments := s'\<rparr>"
    have bnd': "w_segment_id (ss_writer s') < 2 ^ 64" using put_commit_segments [OF stored(2)] bnd by simp
    from put_attempts_keeps(2) [OF inv F src(1) stored(1) bnd' refl] obtain cs where rd: "read_of X U (ss_has_chunk s') rd cs" by blast
    have hash: "length (m_content_hash (wp_manifest (put_of (trim name) P rd i ver))) = 32" for i ver
      using rd ext_okD(1) [OF X] by (auto simp: read_of_def)
    have st: "names_ok T' \<and> histories T' \<in> {A, A(trim name \<mapsto> past A (trim name) @ [(ver, content_id (wp_manifest (put_of (trim name) P rd i ver)))])}"
      if t: "put_target R P (trim name) ?e = (?e, Inr (i, ver))" and T': "T' \<in> set (put_stages X (put_of (trim name) P rd i ver) (V (eg_db e)))" for i ver T'
      unfolding A_def
      by (rule put_stage_histories(1) [OF R ok keys _ _ src(3) hash T'])
        (use src(2) put_target_spec [OF R t] in \<open>auto simp: put_ready_def\<close>)
    from stored(2) show ?thesis
    proof (cases rule: put_commit_split)
      case (target err)
      then show ?thesis using put_target_state [OF target(1)] ok by (auto simp: A_def intro: spec_put_undone)
    next
      case (append i ver err)
      then show ?thesis using on_wal_append(1) [OF append(2)] ok by (auto simp: A_def intro: spec_put_undone)
    next
      case (applying i ver lsn e1 err)
      have "eg_db e1 = eg_db e" using on_wal_append(1) [OF applying(2)] by simp
      then have T': "V (eg_db e') \<in> set (put_stages X (put_of (trim name) P rd i ver) (V (eg_db e)))"
        using apply_put_stages [OF R applying(3)] by auto
      show ?thesis using st [OF applying(1) T'] applying(4) spec_put_undone spec_put_done by auto
    next
      case (committed i ver lsn e1 mid e2 ps)
      have "eg_db e1 = eg_db e" using on_wal_append(1) [OF committed(2)] by simp
      then have T': "V (eg_db e') = put_tables X (put_of (trim name) P rd i ver) (V (eg_db e))"
        "mid = content_id (wp_manifest (put_of (trim name) P rd i ver))"
        using apply_put_stages [OF R committed(3)] committed(4) by auto
      have "histories (V (eg_db e')) = A(trim name \<mapsto> past A (trim name) @ [(ver, mid)])"
        unfolding T' A_def
        by (rule put_stage_histories(2) [OF R ok keys _ _ src(3) hash])
          (use src(2) put_target_spec [OF R committed(1)] in \<open>auto simp: put_ready_def\<close>)
      then show ?thesis
        using st [OF committed(1), of "V (eg_db e')"] T'(1) committed(5,7,8) spec_put [of A "trim name" "(ver, mid)"]
        by (simp add: put_stages_def)
    qed
  qed (use ok in \<open>auto simp: A_def intro: spec_put_undone\<close>)
  then show "names_ok (V (eg_db e'))"
    "spec_step A (case r of Inl _ \<Rightarrow> Store_failed (trim name) | Inr ps \<Rightarrow> Stored (trim name) (ps_version ps, ps_manifest_id ps)) (histories (V (eg_db e')))"
    by auto
qed

section \<open>The remaining operations\<close>

lemma same_names:
  assumes "T' NAME_INDEX = T NAME_INDEX" "T' OBJECT_INDEX = T OBJECT_INDEX"
  shows "histories T' = histories T" "names_ok T' \<longleftrightarrow> names_ok T"
proof -
  have "record_of T' = record_of T" "object_of T' = object_of T" using assms by (simp_all add: record_of_def object_of_def fun_eq_iff)
  then show "histories T' = histories T" "names_ok T' \<longleftrightarrow> names_ok T"
    using histories_eq names_ok_eq assms(1) by blast+
qed

text \<open>A rollback that reports an error has changed nothing: the data of a listed version can be extracted.\<close>

lemma rollback_file_outcome:
  assumes R: "redb_ok R V" and inv: "eng_inv X V U e" and rb: "rollback_file X R now name v out (e, d) = ((e', d'), r)"
  shows "(\<exists>err. r = Inl err \<and> e' = e) \<or> (\<exists>w n m. r = Inr (w, n) \<and> rollback_commit X R now (trim name) v e = (e', Inr (w, m)))"
proof (cases "validate_logical_name (trim name)")
  case (Inr u)
  obtain e1 r1 where c: "rollback_commit X R now (trim name) v e = (e1, r1)" by fastforce
  note eq = rb [unfolded rollback_file_def, simplified, unfolded Let_def bindS_liftE Inr, simplified, unfolded c, simplified]
  from c show ?thesis
  proof (cases rule: rollback_split)
    case (appended i r0 x m db')
    have x: "x \<in> set (o_versions r0)" using appended(3) by (auto simp: find_Some_iff)
    have live: "v_manifest_id x \<in> live_manifests X (V (eg_db e))" by (rule get_object_live(2) [OF R appended(2) x])
    have m: "stored_manifest X (V (eg_db e)) (v_manifest_id x) m"
      using get_manifest_view [OF R appended(4)] by (auto simp: stored_manifest_def decode_value_Inr)
    have "\<exists>d1 n. extract_manifest_to_file X (eg_segments e1) m tmp p d = (d1, Inr n)" for tmp p
      using extract_live [OF inv m live, of tmp p d] appended(6) by auto
    note ex = this
    show ?thesis
    proof (cases out)
      case None
      then show ?thesis using eq appended(7) c by auto
    next
      case (Some tp)
      obtain tmp p where tp: "tp = (tmp, p)" by (cases tp)
      obtain d1 n where "extract_manifest_to_file X (eg_segments e1) m tmp p d = (d1, Inr n)" using ex [of tmp p] by blast
      then show ?thesis using eq appended(7) c Some tp by auto
    qed
  qed (use eq c in auto)
qed (use rb in \<open>auto simp: rollback_file_def bindS_liftE\<close>)

lemma create_snapshot_names:
  assumes R: "redb_ok R V" and c: "create_snapshot X R now l e = (e', r)"
  shows "V (eg_db e') NAME_INDEX = V (eg_db e) NAME_INDEX" "V (eg_db e') OBJECT_INDEX = V (eg_db e) OBJECT_INDEX"
proof -
  have "keeps (\<lambda>e'. V (eg_db e') NAME_INDEX = V (eg_db e) NAME_INDEX \<and> V (eg_db e') OBJECT_INDEX = V (eg_db e) OBJECT_INDEX)
     (create_snapshot X R now l)"
    unfolding create_snapshot_def Let_def
    by (intro keeps_intros) (auto simp: keeps_def set_db_def dest: save_snapshot_view [OF R] split: sum.splits)
  from keepsD [OF this c] show "V (eg_db e') NAME_INDEX = V (eg_db e) NAME_INDEX" "V (eg_db e') OBJECT_INDEX = V (eg_db e) OBJECT_INDEX"
    by auto
qed

lemma delete_snapshot_names:
  assumes R: "redb_ok R V" and c: "eg_delete_snapshot R l e = (e', r)"
  shows "V (eg_db e') NAME_INDEX = V (eg_db e) NAME_INDEX" "V (eg_db e') OBJECT_INDEX = V (eg_db e) OBJECT_INDEX"
  using c delete_snapshot_view(1) [OF R, of "eg_db e" "trim l"] by (auto simp: eg_delete_snapshot_def on_db_def split: sum.splits prod.splits)

lemma collect_names:
  assumes R: "redb_ok R V" and inv: "eng_inv X V U e" and E: "\<And>c. env_ok (EC c)" and g: "eg_gc X R E EC tmp e = (e', r)"
    and bnd: "w_segment_id (ss_writer (eg_segments e')) < 2 ^ 64"
  shows "V (eg_db e') NAME_INDEX = V (eg_db e) NAME_INDEX" "V (eg_db e') OBJECT_INDEX = V (eg_db e) OBJECT_INDEX"
proof -
  obtain s' db' where gc: "gc_collect X R E EC tmp (eg_segments e, eg_db e) = ((s', db'), r)"
    and e': "e' = e\<lparr>eg_segments := s', eg_db := db'\<rparr>" using g by (auto simp: eg_gc_def split: prod.splits)
  obtain log where log: "seg_log_inv X (eg_segments e) log" and X: "ext_ok X" using inv by (auto simp: eng_inv_iff seg_ok_def)
  have "t \<noteq> MANIFESTS \<Longrightarrow> V db' t = V (eg_db e) t" for t
    using gc gc_collect_fails(2) [OF R, of X E EC tmp "eg_segments e" "eg_db e"] gc_collect_spec(3) [OF R _ log X E]
      bnd by (cases r) (auto simp: e')
  then show "V (eg_db e') NAME_INDEX = V (eg_db e) NAME_INDEX" "V (eg_db e') OBJECT_INDEX = V (eg_db e) OBJECT_INDEX"
    by (simp_all add: e')
qed

section \<open>The engine implements the specification\<close>

inductive eg_act :: "ext \<Rightarrow> 'db redb \<Rightarrow> 'db view \<Rightarrow> bytes set \<Rightarrow> 'db engine \<Rightarrow> act \<Rightarrow> 'db engine \<Rightarrow> bool" for X R V U where
  act_put: "source_ok X U src \<Longrightarrow> put_ready V P (trim name) e \<Longrightarrow> target_free R V P (trim name) (eg_db e)
    \<Longrightarrow> put_file_named X R P name src e = Some (e', r) \<Longrightarrow> w_segment_id (ss_writer (eg_segments e')) < 2 ^ 64
    \<Longrightarrow> eg_act X R V U e (case r of Inl _ \<Rightarrow> Store_failed (trim name) | Inr ps \<Rightarrow> Stored (trim name) (ps_version ps, ps_manifest_id ps)) e'"
| act_delete: "delete_file R name e = (e', rb) \<Longrightarrow> eg_act X R V U e (case rb of Inl _ \<Rightarrow> Idle | Inr _ \<Rightarrow> Forgot (trim name)) e'"
| act_unbind: "unbind_file R name e = (e', rb) \<Longrightarrow> eg_act X R V U e (case rb of Inl _ \<Rightarrow> Idle | Inr _ \<Rightarrow> Forgot (trim name)) e'"
| act_rename: "rename_file R a b e = (e', rm)
    \<Longrightarrow> eg_act X R V U e (case rm of Inl _ \<Rightarrow> Idle | Inr moved \<Rightarrow> Renamed (trim a) (trim b) moved) e'"
| act_prune: "prune_file_versions R name k e = (e', rc)
    \<Longrightarrow> eg_act X R V U e (case rc of Inl _ \<Rightarrow> Idle | Inr c \<Rightarrow> Pruned (trim name) k c) e'"
| act_rollback: "room (V (eg_db e)) 1 \<Longrightarrow> rollback_file X R now name v out (e, d) = ((e', d'), rw)
    \<Longrightarrow> eg_act X R V U e (case rw of Inl _ \<Rightarrow> Idle | Inr (w, _) \<Rightarrow> Rolled_back (trim name) v w) e'"
| act_snapshot: "(\<And>objs. list_named_objects R (eg_db e) = Inr objs \<Longrightarrow> wf_snapshot (snapshot_new now (trim label) (snapshot_entries objs)))
    \<Longrightarrow> create_snapshot X R now label e = (e', rs) \<Longrightarrow> eg_act X R V U e Idle e'"
| act_unsnapshot: "eg_delete_snapshot R label e = (e', rd) \<Longrightarrow> eg_act X R V U e Idle e'"
| act_collect: "(\<And>c. env_ok (EC c)) \<Longrightarrow> eg_gc X R E EC tmp e = (e', rg) \<Longrightarrow> w_segment_id (ss_writer (eg_segments e')) < 2 ^ 64
    \<Longrightarrow> eg_act X R V U e Idle e'"

definition refine_inv :: "ext \<Rightarrow> 'db redb \<Rightarrow> 'db view \<Rightarrow> bytes set \<Rightarrow> 'db engine \<Rightarrow> bool" where
  "refine_inv X R V U e \<longleftrightarrow> redb_ok R V \<and> fastcdc_ok X \<and> eng_inv X V U e \<and> names_ok (V (eg_db e))"

lemma eng_inv_keys: "eng_inv X V U e \<Longrightarrow> keys_ok (V (eg_db e))"
  by (simp add: eng_inv_iff db_ok_def)

lemma failed_rename: "rename_file R a b e = (e', Inl err) \<Longrightarrow> e' = e"
  by (auto simp: rename_file_def bindS_liftE on_db_def split: sum.splits prod.splits)

lemma failed_prune: "prune_file_versions R n k e = (e', Inl err) \<Longrightarrow> e' = e"
  by (erule prune_split) auto

lemma act_sim:
  assumes "eg_act X R V U e a e'" "refine_inv X R V U e"
  shows "refine_inv X R V U e' \<and> spec_step (histories (V (eg_db e))) a (histories (V (eg_db e')))"
proof -
  have R: "redb_ok R V" and F: "fastcdc_ok X" and inv: "eng_inv X V U e" and ok: "names_ok (V (eg_db e))"
    using assms(2) by (auto simp: refine_inv_def)
  note keys = eng_inv_keys [OF inv]
  have "eng_inv X V U e' \<and> names_ok (V (eg_db e')) \<and> spec_step (histories (V (eg_db e))) a (histories (V (eg_db e')))"
    using assms(1)
  proof cases
    case (act_put src P name r)
    then show ?thesis
      using put_file_named_keeps [OF R inv F act_put(2,3,5,6)] put_histories [OF R F inv ok act_put(2-6)] by simp
  next
    case (act_delete name rb)
    then show ?thesis
      using keepsD [OF delete_file_keeps [OF R] act_delete(2) inv] delete_histories [OF R ok act_delete(2)]
      by (cases rb) (auto intro: spec_idle spec_forget)
  next
    case (act_unbind name rb)
    then show ?thesis
      using keepsD [OF unbind_file_keeps [OF R] act_unbind(2) inv] unbind_histories [OF R ok act_unbind(2)]
      by (cases rb) (auto intro: spec_idle spec_forget)
  next
    case (act_rename x y rm)
    then show ?thesis
      using keepsD [OF rename_file_keeps [OF R] act_rename(2) inv] rename_histories [OF R ok] ok
      by (cases rm) (auto dest: failed_rename intro: spec_idle)
  next
    case (act_prune name k rc)
    then show ?thesis
      using keepsD [OF prune_file_versions_keeps [OF R] act_prune(2) inv] prune_histories [OF R ok keys] ok
      by (cases rc) (auto dest: failed_prune intro: spec_idle)
  next
    case (act_rollback now name v out d d' rw)
    then show ?thesis
      using rollback_file_keeps [OF R act_rollback(2) inv act_rollback(3)] rollback_file_outcome [OF R inv act_rollback(3)]
        rollback_histories [OF R ok keys act_rollback(2)] ok by (auto intro: spec_idle)
  next
    case (act_snapshot now label rs)
    have "eng_inv X V U e'" by (rule create_snapshot_keeps [OF R inv act_snapshot(2,3)])
    with same_names [OF create_snapshot_names [OF R act_snapshot(3)]] ok act_snapshot(1) show ?thesis by (simp add: spec_idle)
  next
    case (act_unsnapshot label rd)
    with same_names [OF delete_snapshot_names [OF R act_unsnapshot(2)]] keepsD [OF eg_delete_snapshot_keeps [OF R] act_unsnapshot(2) inv] ok
    show ?thesis by (simp add: spec_idle)
  next
    case (act_collect EC E tmp rg)
    have "eng_inv X V U e'" by (rule eg_gc_keeps [OF R inv act_collect(2-4)])
    with same_names [OF collect_names [OF R inv act_collect(2-4)]] ok act_collect(1) show ?thesis by (simp add: spec_idle)
  qed
  then show ?thesis using R F by (simp add: refine_inv_def)
qed

interpretation engine: simulation "eg_act X R V U" spec_step "\<lambda>e. histories (V (eg_db e))" "refine_inv X R V U"
  for X :: ext and R :: "'db redb" and V U
  using act_sim by unfold_locales blast+

text \<open>The engine's listing of versions is the abstract history.\<close>

lemma get_versions_history:
  assumes R: "redb_ok R V" "redb_total R" and h: "histories (V (eg_db e)) (trim n) = Some h"
  shows "\<exists>vs. get_versions R e n = Inr vs \<and> map (\<lambda>v. (v_version v, v_manifest_id v)) vs = h"
proof -
  obtain i r where i: "object_of (V (eg_db e)) (trim n) = Some i" "record_of (V (eg_db e)) i = Some r" "h = versions_of r"
    using h by (auto simp: histories_def bind_eq_Some_conv)
  have "decode_value rec_from_bytes (V (eg_db e) OBJECT_INDEX (oid_bytes i)) = Inr (Some r)"
    using i(2) by (auto simp: record_of_def split: sum.splits)
  then have "get_versions R e n = Inr (o_versions r)"
    using i(1) by (simp add: get_versions_def Let_def resolve_name_total [OF R] object_of_def get_object_total [OF R] ok_or_def)
  then show ?thesis using i(3) by (simp add: versions_of_def)
qed

section \<open>An example\<close>

lemma put_snapshots:
  assumes R: "redb_ok R V" and p: "put_file_named X R P name src e = Some (e', r)"
  shows "V (eg_db e') SNAPSHOTS = V (eg_db e) SNAPSHOTS"
proof -
  have st: "T' SNAPSHOTS = T SNAPSHOTS" if "T' \<in> set (put_stages X put T)" for T T' put
    using that by (auto simp: put_stages_def put_tables_def put_name_table_def put_manifest_table_def)
  show ?thesis using p
  proof (cases rule: put_file_named_split)
    case (stored s' rd)
    from stored(2) show ?thesis
    proof (cases rule: put_commit_split)
      case (target err)
      then show ?thesis using put_target_state [OF target(1)] by simp
    next
      case (append i ver err)
      then show ?thesis using on_wal_append(1) [OF append(2)] by simp
    next
      case (applying i ver lsn e1 err)
      then show ?thesis using on_wal_append(1) [OF applying(2)] apply_put_stages [OF R applying(3)] st by fastforce
    next
      case (committed i ver lsn e1 mid e2 ps)
      then show ?thesis using on_wal_append(1) [OF committed(2)] apply_put_stages [OF R committed(3)] st by fastforce
    qed
  qed auto
qed

lemma demo_no_names: "histories (demo_view demo_empty) = Map.empty" "names_ok (demo_view demo_empty)"
  by (auto simp: histories_def names_ok_def object_of_def demo_view_def demo_empty_def)

lemma demo_trace:
  "\<exists>e e' vm. eg_run demo_ext demo_redb demo_view {[7]} e \<and> eg_db e = demo_empty \<and> eg_run demo_ext demo_redb demo_view {[7]} e'
     \<and> demo_view (eg_db e') SNAPSHOTS = Map.empty \<and> trace (eg_act demo_ext demo_redb demo_view {[7]}) e [Stored demo_name vm] e'"
proof -
  obtain e where e: "eg_run demo_ext demo_redb demo_view {[7]} e" "eg_vault_key e = None" "eg_db e = demo_empty"
    "put_ready demo_view demo_penv (trim demo_name) e" "target_free demo_redb demo_view demo_penv (trim demo_name) (eg_db e)"
    "name_resolves demo_view demo_name (eg_db e)" "w_segment_id (ss_writer (eg_segments e)) = 1"
    using demo_engine [of demo_redb] by (auto simp: demo_name_ok)
  obtain e' ps where p: "put_file_named demo_ext demo_redb demo_penv demo_name demo_source e = Some (e', Inr ps)"
    "w_segment_id (ss_writer (eg_segments e')) < 2 ^ 64"
    using demo_put [OF e(1,2) _ e(6)] e(5,7) by (auto simp: demo_name_ok)
  have "eg_act demo_ext demo_redb demo_view {[7]} e (Stored demo_name (ps_version ps, ps_manifest_id ps)) e'"
    using act_put [OF demo_source_ok e(4,5) p] by (simp add: demo_name_ok)
  then have "trace (eg_act demo_ext demo_redb demo_view {[7]}) e [Stored demo_name (ps_version ps, ps_manifest_id ps)] e'"
    by (blast intro: trace.intros)
  moreover have "demo_view (eg_db e') SNAPSHOTS = Map.empty"
    using put_snapshots [OF demo_redb_ok p(1)] e(3) by (auto simp: demo_view_def demo_empty_def)
  ultimately show ?thesis using e(1,3) eg_put [OF e(1) demo_source_ok e(4) p] by blast
qed

lemma demo_stored:
  "\<exists>e vm. eg_run demo_ext demo_redb demo_view {[7]} e \<and> histories (demo_view (eg_db e)) = [demo_name \<mapsto> [vm]]
     \<and> names_ok (demo_view (eg_db e)) \<and> demo_view (eg_db e) SNAPSHOTS = Map.empty"
proof -
  obtain e e' vm where e: "eg_run demo_ext demo_redb demo_view {[7]} e" "eg_db e = demo_empty" "eg_run demo_ext demo_redb demo_view {[7]} e'"
    "demo_view (eg_db e') SNAPSHOTS = Map.empty" "trace (eg_act demo_ext demo_redb demo_view {[7]}) e [Stored demo_name vm] e'"
    using demo_trace by blast
  have "refine_inv demo_ext demo_redb demo_view {[7]} e"
    using eg_run_inv [OF e(1) demo_redb_ok demo_ext_ok demo_collision_free demo_fastcdc_ok] demo_redb_ok demo_fastcdc_ok
      e(2) demo_no_names by (simp add: refine_inv_def)
  note sim = engine.trace_sim [OF e(5) this]
  have ok: "names_ok (demo_view (eg_db e'))" using sim by (simp add: refine_inv_def)
  have "trace spec_step Map.empty [Stored demo_name vm] (histories (demo_view (eg_db e')))"
    using sim e(2) by (simp add: demo_no_names)
  then have "histories (demo_view (eg_db e')) = [demo_name \<mapsto> [vm]]"
    by (auto elim!: trace.cases spec_step.cases simp: past_def)
  then show ?thesis using e(3,4) ok by blast
qed

end
