(* ===== verification/Oos_Engine_Listing.thy ===== *)
theory Oos_Engine_Listing
  imports Oos_Engine_Refine
begin

text \<open>
  Listing the files of a store, and what a snapshot taken from the listing contains.
\<close>

section \<open>The listing is the map of histories\<close>

lemma list_loop:
  "\<forall>(n, i) \<in> set es. get_object R db i = Inr (Some (rc i))
   \<Longrightarrow> foldE (\<lambda>acc (name, i). bindE (get_object R db i) (\<lambda>r. case r of None \<Rightarrow> Inr acc | Some rc \<Rightarrow> Inr (acc @ [(name, i, rc)]))) acc es
     = Inr (acc @ map (\<lambda>(n, i). (n, i, rc i)) es)"
  by (induction es arbitrary: acc) auto

lemma filtered_names:
  "list_all (\<lambda>(k, v). utf8_valid k \<and> length v = 16) items
   \<Longrightarrow> [(from_utf8_lossy k, oid_from_raw v). (k, v) \<leftarrow> items, length v = 16] = map (\<lambda>(k, v). (k, oid_from_raw v)) items"
  by (induction items) auto

lemma list_named_objects_spec:
  assumes R: "redb_ok R V" "redb_total R" and ok: "names_ok (V db)" and utf: "\<forall>n \<in> dom (V db NAME_INDEX). utf8_valid n"
  shows "\<exists>objs. list_named_objects R db = Inr objs \<and> sorted_wrt (<) (map fst objs)
    \<and> map_of (map (\<lambda>(n, i, r). (n, versions_of r)) objs) = histories (V db)
    \<and> (\<forall>(n, i, r) \<in> set objs. object_of (V db) n = Some i \<and> record_of (V db) i = Some r)"
proof -
  have "\<exists>items. rd_iter R db NAME_INDEX = Inr items" using R(2) unfolding redb_total_def by simp
  then obtain items where it: "rd_iter R db NAME_INDEX = Inr items" by blast
  have s: "sorted_wrt (<) (map fst items)" "map_of items = V db NAME_INDEX" using redb_okD(2) [OF R(1) it] by auto
  have d: "distinct (map fst items)" using s(1) strict_sorted_iff by blast
  have mem: "V db NAME_INDEX k = Some v" if "(k, v) \<in> set items" for k v using that d s(2) by (metis map_of_is_SomeI)
  have ob: "object_of (V db) k = Some (oid_from_raw v)" if "(k, v) \<in> set items" for k v by (rule names_okD(1) [OF ok mem [OF that]])
  define rc where "rc i = the (record_of (V db) i)" for i
  have rec: "record_of (V db) (oid_from_raw v) = Some (rc (oid_from_raw v))" if "(k, v) \<in> set items" for k v
    using names_okD(2) [OF ok ob [OF that]] by (auto simp: rc_def)
  then have get: "get_object R db (oid_from_raw v) = Inr (Some (rc (oid_from_raw v)))" if "(k, v) \<in> set items" for k v
    using rec [OF that] by (auto simp: get_object_total [OF R] record_of_def split: sum.splits)
  have all: "list_all (\<lambda>(k, v). utf8_valid k \<and> length v = 16) items"
    using mem utf ok unfolding names_ok_def list_all_iff by fastforce
  let ?objs = "map (\<lambda>(k, v). (k, oid_from_raw v, rc (oid_from_raw v))) items"
  have "\<forall>(n, i) \<in> set (map (\<lambda>(k, v). (k, oid_from_raw v)) items). get_object R db i = Inr (Some (rc i))"
    using get by fastforce
  from list_loop [OF this, of "[]"] have "list_named_objects R db = Inr (map (\<lambda>(n, i). (n, i, rc i)) (map (\<lambda>(k, v). (k, oid_from_raw v)) items))"
    by (simp add: list_named_objects_def redbE_def it filtered_names [OF all])
  moreover have "map (\<lambda>(n, i). (n, i, rc i)) (map (\<lambda>(k, v). (k, oid_from_raw v)) items) = ?objs" by auto
  ultimately have "list_named_objects R db = Inr ?objs" by simp
  note lst = this
  have "map_of (map (\<lambda>(n, i, r). (n, versions_of r)) ?objs) n = histories (V db) n" for n
  proof -
    have "map (\<lambda>(n, i, r). (n, versions_of r)) ?objs = map (\<lambda>(k, v). (k, versions_of (rc (oid_from_raw v)))) items" by auto
    then have "map_of (map (\<lambda>(n, i, r). (n, versions_of r)) ?objs) n = map_of (map (\<lambda>(k, v). (k, versions_of (rc (oid_from_raw v)))) items) n"
      by (rule arg_cong [of _ _ "\<lambda>xs. map_of xs n"])
    also have "\<dots> = map_option (\<lambda>v. versions_of (rc (oid_from_raw v))) (V db NAME_INDEX n)"
      by (simp add: map_of_map s(2))
    also have "\<dots> = histories (V db) n"
      using names_okD(1) [OF ok] names_okD(2) [OF ok]
      by (cases "V db NAME_INDEX n") (fastforce simp: histories_def object_of_def rc_def)+
    finally show ?thesis .
  qed
  then have hist: "map_of (map (\<lambda>(n, i, r). (n, versions_of r)) ?objs) = histories (V db)" by (rule ext)
  have "map fst ?objs = map fst items" by auto
  with s(1) have srt: "sorted_wrt (<) (map fst ?objs)" by (simp only:)
  have "\<forall>(n, i, r) \<in> set ?objs. object_of (V db) n = Some i \<and> record_of (V db) i = Some r" using ob rec by auto
  with lst hist srt show ?thesis by (intro exI [of _ ?objs] conjI)
qed

section \<open>Properties\<close>

lemma demo_names_utf8:
  assumes "histories (demo_view db) = [demo_name \<mapsto> [vm]]" "names_ok (demo_view db)"
  shows "\<forall>n \<in> dom (demo_view db NAME_INDEX). utf8_valid n"
proof
  fix n assume "n \<in> dom (demo_view db NAME_INDEX)"
  then have "n = demo_name" using histories_None [OF assms(2), of n] assms(1) by (auto split: if_splits)
  then show "utf8_valid n" using demo_name_ok(3) by simp
qed

text \<open>
  C16. Listing the files yields, in the order of the names, exactly the names that are bound, each with
  the history of its object: the listing and the abstract map are the same.
\<close>

theorem list_files_exact:
  assumes "redb_ok R V" "redb_total R" "names_ok (V (eg_db e))" "\<forall>n \<in> dom (V (eg_db e) NAME_INDEX). utf8_valid n"
  shows "\<exists>objs. list_files R e = Inr objs \<and> sorted_wrt (<) (map fst objs)
    \<and> map_of (map (\<lambda>(n, i, r). (n, versions_of r)) objs) = histories (V (eg_db e))"
  using list_named_objects_spec [OF assms] by (auto simp: list_files_def)

theorem list_files_exact_witness:
  "\<exists>e objs vm. list_files demo_redb (e :: demo_db engine) = Inr objs
     \<and> map_of (map (\<lambda>(n, i, r). (n, versions_of r)) objs) = [demo_name \<mapsto> [vm]]"
proof -
  obtain e :: "demo_db engine" and vm where e: "histories (demo_view (eg_db e)) = [demo_name \<mapsto> [vm]]" "names_ok (demo_view (eg_db e))"
    using demo_stored by blast
  have "\<forall>n \<in> dom (demo_view (eg_db e) NAME_INDEX). utf8_valid n" by (rule demo_names_utf8 [OF e])
  with list_files_exact [OF demo_redb_ok demo_redb_total, of e] e obtain objs
    where "list_files demo_redb e = Inr objs" "map_of (map (\<lambda>(n, i, r). (n, versions_of r)) objs) = [demo_name \<mapsto> [vm]]" by metis
  then show ?thesis by blast
qed

section \<open>A snapshot in the example store\<close>

lemma distinct_single: "set xs = {x} \<Longrightarrow> distinct xs \<Longrightarrow> xs = [x]"
  by (cases xs) (auto simp: subset_singleton_iff set_empty)

lemma single_listing:
  fixes m :: rstring
  assumes "sorted_wrt (<) (map fst objs)" "map_of (map (\<lambda>(n, i, r). (n, versions_of r)) objs) = [m \<mapsto> h]"
  obtains i r where "objs = [(m, i, r)]" "versions_of r = h"
proof -
  define M where "M = map (\<lambda>(n, i, r). (n, versions_of r)) objs"
  have "distinct (map fst objs)" using assms(1) strict_sorted_iff by blast
  moreover have "map fst M = map fst objs" by (auto simp: M_def)
  ultimately have d: "distinct (map fst M)" by (simp only:)
  have "(k, x) \<in> set M \<longleftrightarrow> k = m \<and> x = h" for k x
    using map_of_eq_Some_iff [OF d, of k x] unfolding assms(2) [folded M_def] by (auto split: if_splits)
  then have "set M = {(m, h)}" by auto
  moreover have "distinct M" using d distinct_map by blast
  ultimately have "M = [(m, h)]" by (rule distinct_single)
  then have "map (\<lambda>(n, i, r). (n, versions_of r)) objs = [(m, h)]" by (simp add: M_def)
  then show thesis using that by auto
qed

lemma demo_snapshot:
  "\<exists>e s. eg_run demo_ext demo_redb demo_view {[7]} e \<and> eg_get_snapshot demo_ext demo_redb e demo_name = Inr (Some s)
     \<and> map e_name (s_entries s) = [demo_name]"
proof -
  obtain e vm where e: "eg_run demo_ext demo_redb demo_view {[7]} e" "histories (demo_view (eg_db e)) = [demo_name \<mapsto> [vm]]"
    "names_ok (demo_view (eg_db e))" "demo_view (eg_db e) SNAPSHOTS = Map.empty" using demo_stored by blast
  have "\<forall>n \<in> dom (demo_view (eg_db e) NAME_INDEX). utf8_valid n" by (rule demo_names_utf8 [OF e(2,3)])
  with list_named_objects_spec [OF demo_redb_ok demo_redb_total, of "eg_db e"] e(3) obtain objs
    where objs: "list_named_objects demo_redb (eg_db e) = Inr objs" "sorted_wrt (<) (map fst objs)"
      "map_of (map (\<lambda>(n, i, r). (n, versions_of r)) objs) = [demo_name \<mapsto> [vm]]"
      "\<forall>(n, i, r) \<in> set objs. object_of (demo_view (eg_db e)) n = Some i \<and> record_of (demo_view (eg_db e)) i = Some r"
    unfolding e(2) by blast
  obtain i r where o: "objs = [(demo_name, i, r)]" "versions_of r = [vm]" by (rule single_listing [OF objs(2,3)])
  obtain v where v: "o_versions r = [v]" using o(2) by (auto simp: versions_of_def)
  have "get_object demo_redb (eg_db e) i = Inr (Some r)" by (rule list_named_objects_mem [OF objs(1)]) (simp add: o)
  note wf = get_object_live(1) [OF demo_redb_ok this]
  have wfi: "wf_oid i" using objs(4) o by (auto simp: object_of_def bind_eq_Some_conv dest: oid_of_value_wf)
  have en: "snapshot_entries objs = [\<lparr>e_name = demo_name, e_object_id = i, e_version = v_version v, e_manifest_id = v_manifest_id v,
      e_size_bytes = v_size_bytes v\<rparr>]"
    using rec_latest_snoc [of r "[]" v] v by (simp add: snapshot_entries_def o)
  let ?s = "snapshot_new 0 demo_name (snapshot_entries objs)"
  have s: "wf_snapshot ?s"
    using wf wfi v demo_name_ok(3) demo_name_len by (simp add: wf_snapshot_def snapshot_new_def en wf_entry_def wf_str16_def wf_record_def wf_version_def)
  have none: "get_snapshot demo_ext demo_redb (eg_db e) demo_name = Inr None"
    using e(4) by (simp add: get_snapshot_total [OF demo_redb_ok demo_redb_total] decode_value_def)
  obtain db' where db': "save_snapshot demo_ext demo_redb (eg_db e) ?s = Inr db'"
    using write_value_total [OF demo_redb_total] unfolding save_snapshot_def by blast
  have ne: "demo_name \<noteq> []" by (simp add: demo_name_eq)
  have c: "create_snapshot demo_ext demo_redb 0 demo_name e = (e\<lparr>eg_db := db'\<rparr>, Inr ?s)"
    using none objs(1) db' ne by (simp add: create_snapshot_def demo_name_ok bind_ask_db bind_set_db Let_def)
  have "eg_run demo_ext demo_redb demo_view {[7]} (e\<lparr>eg_db := db'\<rparr>)"
    by (rule eg_snapshot [OF e(1) _ c]) (use objs(1) s in \<open>simp add: demo_name_ok\<close>)
  moreover have "eg_get_snapshot demo_ext demo_redb (e\<lparr>eg_db := db'\<rparr>) demo_name = Inr (Some ?s)"
    using save_snapshot_view [OF demo_redb_ok db'] snapshot_from_to_bytes [OF s]
    by (simp add: eg_get_snapshot_def demo_name_ok get_snapshot_total [OF demo_redb_ok demo_redb_total] decode_value_def snapshot_new_def)
  moreover have "map e_name (s_entries ?s) = [demo_name]" by (simp add: snapshot_new_def en)
  ultimately show ?thesis by (intro exI [of _ "e\<lparr>eg_db := db'\<rparr>"] exI [of _ ?s] conjI)
qed

end
