(* ===== verification/Oos_Engine_Lost.thy ===== *)
theory Oos_Engine_Lost
  imports Oos_Engine_Listing
begin

text \<open>
  A gap between the redo log and the collector: a put that fails after its redo record is written leaves
  the record behind, and the collector, which does not read the log, removes the record's chunks.
\<close>

definition missing_chunk :: oos_error where
  "missing_chunk = WalRecovery ''WAL manifest references missing durable chunk''"

lemma replay_missing:
  assumes rd: "wal_read_uncheckpointed_records X (eg_wal e) = Inr [\<lparr>wr_lsn = lsn, wr_payload = PutObject put\<rparr>]"
    and ch: "wp_chunks put = []" and c: "c \<in> set (m_chunks (wp_manifest put))" "\<not> ss_has_chunk (eg_segments e) c"
  shows "\<exists>e'. replay_wal X R EV e = (e', Inl missing_chunk)"
proof -
  have "\<exists>e'. replay_put X R EV put e = (e', Inl missing_chunk)"
    using ch c by (auto simp: replay_put_def on_segments_def bindS_def ensure_def missing_chunk_def)
  then obtain e' where "replay_put X R EV put e = (e', Inl missing_chunk)" by blast
  then show ?thesis using rd by (auto simp: replay_wal_def bindS_def replay_record_def)
qed

lemma wal_inv_good:
  assumes "good_wal X U w es" "wal_read_uncheckpointed_records X w = Inr rs" "r \<in> set rs" "wr_payload r = PutObject put"
  shows "good_put X U put"
proof -
  have "rs = filter (\<lambda>r. wal_checkpoint_lsn w < wr_lsn r) (map snd es)"
    using wal_read_inv [of X w es] assms(1,2) by (auto simp: good_wal_def)
  then have "r \<in> snd ` set es" using assms(3) by auto
  then obtain b where "(b, r) \<in> set es" by force
  then show ?thesis using assms(1,4) by (auto simp: good_wal_def)
qed

lemma lost_put:
  assumes R: "redb_ok R V" and inv: "eng_inv X V U e"
    and rd: "wal_read_uncheckpointed_records X (eg_wal e) = Inr [\<lparr>wr_lsn = lsn, wr_payload = PutObject put\<rparr>]"
    and c: "c \<in> set (m_chunks (wp_manifest put))" "c \<notin> needs X V (eg_db e)"
    and E: "\<And>c. env_ok (EC c)" and gc: "eg_gc X R E EC tmp e = (e', Inr st)"
    and bnd: "w_segment_id (ss_writer (eg_segments e')) < 2 ^ 64"
  shows "open_internal X R E' EV \<lparr>sd_files = ss_files (eg_segments e'), sd_dirs = dirs\<rparr> (eg_db e') (wal_on_disk (eg_wal e')) (eg_vault_key e')
    = Inl missing_chunk"
proof -
  have inv': "eng_inv X V U e'" by (rule eg_gc_keeps [OF R inv E gc bnd])
  obtain s' db' where g: "gc_collect X R E EC tmp (eg_segments e, eg_db e) = ((s', db'), Inr st)"
    and e': "e' = e\<lparr>eg_segments := s', eg_db := db'\<rparr>" using gc by (auto simp: eg_gc_def split: prod.splits)
  obtain log where log: "seg_log_inv X (eg_segments e) log" and X: "ext_ok X" using inv by (auto simp: eng_inv_iff seg_ok_def)
  have no: "\<not> ss_has_chunk (eg_segments e') c"
    using gc_collect_spec(4) [OF R g log X E, of c] bnd c(2) by (simp add: e' needs_def)
  obtain log' where log': "seg_log_inv X (eg_segments e') log'" using inv' by (auto simp: eng_inv_iff seg_ok_def)
  have vk: "ss_vault_key (eg_segments e') = eg_vault_key e'" "wal_vault_key (eg_wal e') = eg_vault_key e'"
    using inv' by (auto simp: eng_inv_iff)
  obtain s where s: "ss_open X E' \<lparr>sd_files = ss_files (eg_segments e'), sd_dirs = dirs\<rparr> 0 (eg_vault_key e') = Inr s" "seg_log_inv X s log'"
    using ss_reopen [OF log', of E' dirs 0] vk by auto
  have "\<not> ss_has_chunk s c" using no seg_log_has [OF s(2)] seg_log_has [OF log'] by simp
  note no = this
  obtain es where es: "good_wal X U (eg_wal e') es" using inv' by (auto simp: eng_inv_iff)
  then have wi: "wal_inv X (eg_wal e') es" by (simp add: good_wal_def)
  have rd': "wal_read_uncheckpointed_records X (eg_wal e') = Inr [\<lparr>wr_lsn = lsn, wr_payload = PutObject put\<rparr>]"
    using rd by (simp add: e')
  obtain w where w: "wal_open X (wal_on_disk (eg_wal e')) (eg_vault_key e') = Inr w"
    "wal_read_uncheckpointed_records X w = Inr [\<lparr>wr_lsn = lsn, wr_payload = PutObject put\<rparr>]"
    using wal_reopen_same [OF wi X, of "[]"] rd' vk by (auto simp: torn_tail_def wal_on_disk_def)
  have "wp_chunks put = []" using wal_inv_good [OF es rd'] by (auto simp: good_put_def)
  then obtain e1 where "replay_wal X R EV \<lparr>eg_segments = s, eg_db = eg_db e', eg_wal = w, eg_vault_key = eg_vault_key e'\<rparr> = (e1, Inl missing_chunk)"
    using replay_missing [of X "\<lparr>eg_segments = s, eg_db = eg_db e', eg_wal = w, eg_vault_key = eg_vault_key e'\<rparr>" lsn put c R EV] w(2) c(1) no by auto
  then show ?thesis using s(1) w(1) by (simp add: open_internal_def)
qed

section \<open>An example\<close>

text \<open>A database that can no longer be written to.\<close>

definition full_redb :: "demo_db redb" where
  "full_redb = demo_redb\<lparr>rd_insert := \<lambda>db t k v. Inl ''full''\<rparr>"

lemma full_redb_ok: "redb_ok full_redb demo_view"
  using demo_redb_ok by (simp add: redb_ok_def full_redb_def)

lemma compact_nothing: "compact_copy X EC vk d {} es nd nw nidx = Inr (nd, nw, nidx)"
  by (induction es) auto

lemma full_gc:
  assumes "w_segment_id (ss_writer s) \<le> 2"
  shows "\<exists>s' st. gc_collect demo_ext full_redb demo_env EC tmp (s, demo_empty) = ((s', demo_empty), Inr st)
    \<and> w_segment_id (ss_writer s') < 2 ^ 64"
proof -
  have "gc_mark demo_ext full_redb demo_empty = Inr ({}, {}, 0)"
    by (simp add: gc_mark_def visit_objects_def list_snapshots_def full_redb_def demo_redb_def demo_empty_def entries_empty redbE_def)
  moreover have "list_all_manifest_ids full_redb demo_empty = Inr []"
    by (simp add: list_all_manifest_ids_def full_redb_def demo_redb_def demo_empty_def entries_empty redbE_def)
  moreover have "\<exists>s' dirs n. compact_and_reclaim demo_ext demo_env EC tmp {} s [] = Inr (s', dirs, n) \<and> w_segment_id (ss_writer s') < 2 ^ 64"
    using assms by (auto simp: compact_and_reclaim_def compact_nothing compact_swap_def Let_def idx_len_def idx_new_def sw_open_def)
  ultimately show ?thesis
    by (auto simp: gc_collect_def gc_sweep_def sweep_chunks_def bindS_def returnS_def)
qed

lemma full_put:
  "\<exists>e e1 lsn put err. eg_run demo_ext full_redb demo_view {[7]} e \<and> put_file_named demo_ext full_redb demo_penv demo_name demo_source e = Some (e1, Inl err)
     \<and> eg_run demo_ext full_redb demo_view {[7]} e1 \<and> eg_db e1 = demo_empty
     \<and> wal_read_uncheckpointed_records demo_ext (eg_wal e1) = Inr [\<lparr>wr_lsn = lsn, wr_payload = PutObject put\<rparr>]
     \<and> m_chunks (wp_manifest put) = [cid_from_data demo_ext [7]] \<and> w_segment_id (ss_writer (eg_segments e1)) \<le> 2"
proof -
  obtain e where e: "eg_run demo_ext full_redb demo_view {[7]} e" "eg_vault_key e = None" "eg_db e = demo_empty"
    "put_ready demo_view demo_penv demo_name e" "target_free full_redb demo_view demo_penv demo_name (eg_db e)"
    "wal_read_uncheckpointed_records demo_ext (eg_wal e) = Inr []" "w_segment_id (ss_writer (eg_segments e)) = 1"
    using demo_engine [of full_redb] by blast
  have inv: "eng_inv demo_ext demo_view {[7]} e"
    by (rule eg_run_inv [OF e(1) full_redb_ok demo_ext_ok demo_collision_free demo_fastcdc_ok])
  let ?rd = "\<lambda>new. (map (cid_from_data demo_ext) [[7]], total_len [[7]], blake3 demo_ext (concat [[7]]), new)"
  obtain s' new where at: "put_attempts demo_ext (map (src_attempt demo_source) [1..<Suc MAX_STABLE_READ_ATTEMPTS]) (eg_segments e)
      = Some (s', Inr (Some (?rd new)))" "w_segment_id (ss_writer s') \<le> w_segment_id (ss_writer (eg_segments e)) + length [[7 :: 8 word]]"
    using put_attempts_total [OF inv e(2) demo_fastcdc_ok demo_source_ok, of "[[7]]"] demo_source_reads(2,3) demo_stream by auto
  have id: "w_segment_id (ss_writer s') \<le> 2" using at(2) e(7) by simp
  let ?e = "e\<lparr>eg_segments := s'\<rparr>" and ?i = "fst (oid_generate (pe_ts demo_penv) (pe_pid demo_penv) (pe_counter demo_penv))"
  let ?put = "put_of demo_name demo_penv (?rd new) ?i 1"
  have t: "put_target full_redb demo_penv demo_name ?e = (?e, Inr (?i, 1))"
    using e(3) by (simp add: put_target_def bind_ask_db resolve_name_def read_value_def redbE_def full_redb_def demo_redb_def demo_empty_def)
  have vk: "wal_vault_key (eg_wal e) = None" using inv e(2) by (simp add: eng_inv_iff)
  obtain es where es: "wal_inv demo_ext (eg_wal e) es" using inv by (auto simp: eng_inv_iff good_wal_def)
  obtain b where b: "encode_put demo_ext (pe_nonce demo_penv) (wal_current_lsn (eg_wal e) + 1) ?put None = Inr b"
    using encode_put_total [of ?put demo_ext "pe_nonce demo_penv" "wal_current_lsn (eg_wal e) + 1"] demo_name_len wf_oid_generate ext_okD(1) [OF demo_ext_ok] length_cids [of "[cid_from_data demo_ext [7]]"] demo_ext_ok
    by auto
  obtain w1 lsn where a: "wal_append_put_and_sync demo_ext (pe_nonce demo_penv) (eg_wal e) ?put = (w1, Inr lsn)"
    using b vk by (simp add: wal_append_put_and_sync_def Let_def)
  have "w_segment_id (ss_writer s') < 2 ^ 64" using id by simp
  from put_attempts_keeps(2) [OF inv demo_fastcdc_ok demo_source_ok at(1) this refl] obtain cs
    where "read_of demo_ext {[7]} (ss_has_chunk s') (?rd new) cs" by blast
  from read_of_put [OF demo_ext_ok this a wf_oid_generate] have wf: "wf_put ?put"
    using demo_name_ok(3) by (simp add: wf_put_def good_put_def)
  have pend: "wal_read_uncheckpointed_records demo_ext w1 = Inr [\<lparr>wr_lsn = lsn, wr_payload = PutObject ?put\<rparr>]"
    using wal_pending_append [OF es demo_ext_ok _ wf _ e(6) a] e(4) by (auto simp: put_ready_def)
  have "apply_put demo_ext full_redb ?put (?e\<lparr>eg_wal := w1\<rparr>) = (?e\<lparr>eg_wal := w1\<rparr>, Inl (Redb ''full''))"
    by (simp add: apply_put_def bindS_def on_db_def save_manifest_def write_value_def redbE_def full_redb_def demo_redb_def map_err_def Let_def)
  then have "put_commit demo_ext full_redb demo_penv demo_name (?rd new) ?e = (?e\<lparr>eg_wal := w1\<rparr>, Inl (Redb ''full''))"
    using t a by (simp add: put_commit_def bindS_def on_wal_def put_of_def Let_def)
  then have p: "put_file_named demo_ext full_redb demo_penv demo_name demo_source e = Some (?e\<lparr>eg_wal := w1\<rparr>, Inl (Redb ''full''))"
    using at(1) demo_name_ok demo_source_reads(1) by (simp add: put_file_named_def Let_def bindS_liftE del: upt_Suc)
  have "eg_run demo_ext full_redb demo_view {[7]} (?e\<lparr>eg_wal := w1\<rparr>)"
    by (rule eg_put [OF e(1) demo_source_ok _ p]) (use e(4) id in \<open>auto simp: demo_name_ok\<close>)
  then show ?thesis using e(1,3) p pend id by (intro exI [of _ e] exI [of _ "?e\<lparr>eg_wal := w1\<rparr>"]) auto
qed

end
