(* ===== verification/Oos_Chunk_Store.thy ===== *)
theory Oos_Chunk_Store
  imports Oos_Chunk_Interface Oos_Fs
begin

text \<open>
  \<^verbatim>\<open>core/src/chunk/store.rs\<close>: the store that keeps every chunk in a file of its own, in a
  subdirectory named by the first two hex digits of the id.  A file is named by its path relative to
  the root.  The last section shows that it implements the interface \<open>chunk_store\<close>.
\<close>

definition CHUNK_MAGIC :: bytes where "CHUNK_MAGIC = bytes_of ''OOSC''"
definition CHUNK_HEADER_SIZE :: nat where "CHUNK_HEADER_SIZE = 12"

definition chunk_path :: "chunk_id \<Rightarrow> rstring" where
  "chunk_path cid = (let h = cid_to_hex cid in rslice 0 2 h @ [47] @ h @ bytes_of ''.chunk'')"

text \<open>\<^verbatim>\<open>path.with_extension(format!("tmp.{}", pid))\<close>\<close>

definition chunk_tmp_path :: "nat \<Rightarrow> chunk_id \<Rightarrow> rstring" where
  "chunk_tmp_path pid cid =
     (let h = cid_to_hex cid in rslice 0 2 h @ [47] @ h @ bytes_of ''.tmp.'' @ dec_digits pid)"

definition chunk_file :: "ext \<Rightarrow> bytes \<Rightarrow> bytes" where
  "chunk_file X data = CHUNK_MAGIC @ le32 (crc32 X data) @ le32 (word_of_nat (length data)) @ data"

definition cs_has_chunk :: "dir \<Rightarrow> chunk_id \<Rightarrow> bool" where
  "cs_has_chunk d cid \<longleftrightarrow> dir_get d (chunk_path cid) \<noteq> None"

definition cs_put_chunk :: "ext \<Rightarrow> nat \<Rightarrow> dir \<Rightarrow> bytes \<Rightarrow> (dir \<times> chunk_id \<times> bool) result" where
  "cs_put_chunk X pid d data =
     (let cid = cid_from_data X data
      in if cs_has_chunk d cid then Inr (d, cid, False)
         else bindE (ensure (length data < 2 ^ 32) (Internal ''Chunk data size exceeds u32 limit'')) (\<lambda>_.
           let tmp = chunk_tmp_path pid cid;
               d1 = dir_put d tmp (chunk_file X data)
           in Inr (dir_rename d1 tmp (chunk_path cid), cid, True)))"

definition cs_get_chunk :: "ext \<Rightarrow> dir \<Rightarrow> chunk_id \<Rightarrow> bytes result" where
  "cs_get_chunk X d cid =
     (case dir_get d (chunk_path cid) of
        None \<Rightarrow> Inl (ChunkNotFound (cid_to_hex cid))
      | Some f \<Rightarrow>
          bindE (cread CHUNK_HEADER_SIZE f) (\<lambda>(hdr, r).
          if rslice 0 4 hdr \<noteq> CHUNK_MAGIC then Inl (CorruptedSegment 0 ''Invalid magic header for chunk'')
          else
            let stored = from_le32 (rslice 4 8 hdr);
                data_len = unat (from_le32 (rslice 8 12 hdr))
            in bindE (cread data_len r) (\<lambda>(data, _).
               if stored \<noteq> crc32 X data then Inl (ChecksumMismatch (cid_to_hex cid) stored (crc32 X data))
               else if cid_from_data X data \<noteq> cid
               then Inl (Internal ''Content-addressed hash mismatch for chunk'')
               else Inr data)))"

definition cs_delete_chunk :: "dir \<Rightarrow> chunk_id \<Rightarrow> dir \<times> bool" where
  "cs_delete_chunk d cid =
     (if cs_has_chunk d cid then (dir_del d (chunk_path cid), True) else (d, False))"

text \<open>Files of the subdirectories whose extension is \<^verbatim>\<open>chunk\<close>.\<close>

definition is_chunk_path :: "rstring \<Rightarrow> bool" where
  "is_chunk_path n \<longleftrightarrow> 47 \<in> set n \<and> ends_with n (bytes_of ''.chunk'')
     \<and> 6 < length (takeWhile (\<lambda>b. b \<noteq> 47) (rev n))"

definition cs_count_chunks :: "dir \<Rightarrow> nat" where
  "cs_count_chunks d = length (filter is_chunk_path (dir_names d))"

section \<open>Paths\<close>

lemma length_cid_to_hex: "length (cid_to_hex c) = 2 * length (cid_bytes c)"
  by (simp add: cid_to_hex_def)

lemma chunk_path_inject [simp]: "chunk_path a = chunk_path b \<longleftrightarrow> a = b"
proof
  assume eq: "chunk_path a = chunk_path b"
  let ?a = "cid_to_hex a" and ?b = "cid_to_hex b"
  have "length (chunk_path a) = length (chunk_path b)" using eq by simp
  then have "length ?a = length ?b"
    by (cases "length (cid_bytes a)"; cases "length (cid_bytes b)")
      (simp_all add: chunk_path_def Let_def rslice_def length_cid_to_hex)
  then have "?a = ?b" using eq by (simp add: chunk_path_def Let_def rslice_def)
  then show "a = b" by simp
qed simp

lemma tmp_not_chunk: "chunk_path c \<noteq> chunk_tmp_path pid c'"
proof
  assume "chunk_path c = chunk_tmp_path pid c'"
  then have "last (chunk_path c) = last (chunk_tmp_path pid c')" by simp
  then have "107 = last (dec_digits pid)"
    by (simp add: chunk_path_def chunk_tmp_path_def Let_def bytes_of_def)
  moreover have "digit10 (last (dec_digits pid)) \<noteq> None"
    using digit10_digit [of pid] digit10_digit [of "pid mod 10"] by (simp add: dec_digits.simps [of pid])
  ultimately show False by (simp add: digit10_def)
qed

section \<open>Correctness\<close>

definition cs_storable :: "bytes \<Rightarrow> bool" where
  "cs_storable data \<longleftrightarrow> length data < 2 ^ 32"

text \<open>Every chunk file reads as a chunk of its id.\<close>

definition cs_inv :: "ext \<Rightarrow> dir \<Rightarrow> bool" where
  "cs_inv X d \<longleftrightarrow> (\<forall>c. cs_has_chunk d c \<longrightarrow> (\<exists>data. cs_get_chunk X d c = Inr data))"

lemma cs_get_cong: "dir_get d (chunk_path c) = dir_get d' (chunk_path c) \<Longrightarrow> cs_get_chunk X d c = cs_get_chunk X d' c"
  by (simp add: cs_get_chunk_def)

lemma cs_get_file:
  assumes "dir_get d (chunk_path c) = Some (chunk_file X data)" "length data < 2 ^ 32" "c = cid_from_data X data"
  shows "cs_get_chunk X d c = Inr data"
proof -
  have "chunk_file X data = (CHUNK_MAGIC @ le32 (crc32 X data) @ le32 (word_of_nat (length data))) @ data"
    by (simp add: chunk_file_def)
  moreover have "length CHUNK_MAGIC = 4" by (simp add: CHUNK_MAGIC_def)
  moreover have "cread (length data) data = Inr (data, [])" by (simp add: cread_Inr)
  ultimately show ?thesis
    using assms by (simp add: cs_get_chunk_def CHUNK_HEADER_SIZE_def slice_simps del: append_assoc)
qed

lemma cs_put_new:
  assumes "cs_put_chunk X pid d data = Inr (d', c, True)"
  shows "c = cid_from_data X data" "\<not> cs_has_chunk d c" "length data < 2 ^ 32"
    "dir_get d' (chunk_path k) = (if k = c then Some (chunk_file X data) else dir_get d (chunk_path k))"
proof -
  show c: "c = cid_from_data X data" "\<not> cs_has_chunk d c" "length data < 2 ^ 32"
    using assms by (auto simp: cs_put_chunk_def Let_def bindE_eq_Inr split: if_splits)
  have d': "d' = dir_rename (dir_put d (chunk_tmp_path pid c) (chunk_file X data)) (chunk_tmp_path pid c) (chunk_path c)"
    using assms by (auto simp: cs_put_chunk_def Let_def bindE_eq_Inr split: if_splits)
  have "dir_get (dir_put d (chunk_tmp_path pid c) (chunk_file X data)) (chunk_tmp_path pid c) = Some (chunk_file X data)"
    by simp
  from dir_get_rename [OF this, of "chunk_path c" "chunk_path k"] tmp_not_chunk [of k pid c]
  show "dir_get d' (chunk_path k) = (if k = c then Some (chunk_file X data) else dir_get d (chunk_path k))"
    by (simp add: d')
qed

lemma cs_put_old:
  "cs_put_chunk X pid d data = Inr (d', c, False) \<Longrightarrow> d' = d \<and> cs_has_chunk d c \<and> c = cid_from_data X data"
  by (auto simp: cs_put_chunk_def Let_def bindE_eq_Inr split: if_splits)

lemma cs_get_id: "cs_get_chunk X d c = Inr data \<Longrightarrow> cid_from_data X data = c"
  by (auto simp: cs_get_chunk_def Let_def bindE_eq_Inr split: option.splits if_splits)

lemma cs_get_has: "cs_get_chunk X d c = Inr data \<Longrightarrow> cs_has_chunk d c"
  by (auto simp: cs_get_chunk_def cs_has_chunk_def split: option.splits)

lemma cs_put_new_get:
  assumes "cs_put_chunk X pid d data = Inr (d', c, True)"
  shows "cs_get_chunk X d' c = Inr data" "k \<noteq> c \<Longrightarrow> cs_get_chunk X d' k = cs_get_chunk X d k"
    "cs_has_chunk d' k \<longleftrightarrow> cs_has_chunk d k \<or> k = c"
  using cs_put_new [OF assms] cs_get_file [of d' c X data] cs_get_cong [of d' k d X]
  by (auto simp: cs_has_chunk_def)

lemma cs_put_cases:
  assumes "cs_put_chunk X e s d = Inr (s', c, b)"
  obtains (new) "b" "cs_put_chunk X e s d = Inr (s', c, True)"
    | (old) "\<not> b" "s' = s" "cs_has_chunk s c" "c = cid_from_data X d"
proof (cases b)
  case False
  with assms have "cs_put_chunk X e s d = Inr (s', c, False)" by simp
  from cs_put_old [OF this] False old show thesis by blast
qed (use assms new in simp)

interpretation files: chunk_store X "cs_put_chunk X" "cs_get_chunk X" cs_has_chunk "\<lambda>_. True" cs_storable "cs_inv X"
proof
  fix e s d s' c b c' d'
  assume put: "cs_put_chunk X e s d = Inr (s', c, b)"
  note put_cases = cs_put_cases [OF put]
  show "c = cid_from_data X d" by (cases rule: put_cases) (auto dest: cs_put_new(1))
  show "cs_has_chunk s' c' \<longleftrightarrow> cs_has_chunk s c' \<or> c' = c"
    by (cases rule: put_cases) (auto dest: cs_put_new_get(3))
  assume inv: "cs_inv X s"
  show "cs_inv X s'"
    using put
  proof (cases rule: cs_put_cases)
    case new
    show ?thesis
      unfolding cs_inv_def
    proof (intro allI impI)
      fix k
      assume "cs_has_chunk s' k"
      then show "\<exists>data. cs_get_chunk X s' k = Inr data"
        using cs_put_new_get [OF new(2)] inv by (cases "k = c") (auto simp: cs_inv_def)
    qed
  qed (use inv in simp)
  assume "cs_get_chunk X s c' = Inr d'"
  then show "cs_get_chunk X s' c' = Inr d'"
    using cs_put_new_get(2) [of X e s d s' c c'] cs_put_new(2) [of X e s d s' c] cs_get_has
    by (cases rule: put_cases) auto
next
  fix e s d s' c
  show "cs_put_chunk X e s d = Inr (s', c, False) \<Longrightarrow> s' = s \<and> cs_has_chunk s c"
    by (auto dest: cs_put_old)
  show "cs_put_chunk X e s d = Inr (s', c, True) \<Longrightarrow> \<not> cs_has_chunk s c \<and> cs_get_chunk X s' c = Inr d"
    by (auto dest: cs_put_new(2) cs_put_new_get(1))
next
  fix s c
  assume "cs_inv X s"
  then show "cs_has_chunk s c \<longleftrightarrow> (\<exists>d. cs_get_chunk X s c = Inr d)"
    by (auto simp: cs_inv_def dest: cs_get_has)
qed (rule cs_get_id)

text \<open>Deleting a chunk removes exactly that chunk.\<close>

lemma cs_delete_spec:
  assumes "cs_delete_chunk d c = (d', b)"
  shows "b \<longleftrightarrow> cs_has_chunk d c" "cs_has_chunk d' k \<longleftrightarrow> cs_has_chunk d k \<and> k \<noteq> c"
    "k \<noteq> c \<Longrightarrow> cs_get_chunk X d' k = cs_get_chunk X d k"
  using assms cs_get_cong [of d' k d X] by (auto simp: cs_delete_chunk_def cs_has_chunk_def split: if_splits)

section \<open>Properties\<close>

text \<open>
  The one-file-per-chunk store: storing a chunk returns its content hash, afterwards it reads as data
  with that hash (the very data when it was new), every other chunk reads as before, and deleting it
  removes exactly that chunk.
\<close>

theorem file_store_put_get_delete:
  assumes "cs_inv X d" "cs_put_chunk X pid d data = Inr (d', c, is_new)" "cs_storable data"
  shows "c = cid_from_data X data
    \<and> (\<exists>r. cs_get_chunk X d' c = Inr r \<and> cid_from_data X r = c \<and> (is_new \<longrightarrow> r = data))
    \<and> (\<forall>k r. cs_get_chunk X d k = Inr r \<longrightarrow> cs_get_chunk X d' k = Inr r)
    \<and> (\<forall>k. cs_has_chunk (fst (cs_delete_chunk d' c)) k \<longleftrightarrow> cs_has_chunk d' k \<and> k \<noteq> c)"
proof (intro conjI)
  show c: "c = cid_from_data X data" by (rule files.put_id [OF assms(2)])
  have "\<exists>r. cs_get_chunk X d' c = Inr r \<and> cid_from_data X r = c"
    using files.put_get [OF assms(1) TrueI assms(3,2)] c by auto
  then show "\<exists>r. cs_get_chunk X d' c = Inr r \<and> cid_from_data X r = c \<and> (is_new \<longrightarrow> r = data)"
    using files.put_new [OF assms(1) TrueI assms(3)] assms(2) by (cases is_new) auto
  show "\<forall>k r. cs_get_chunk X d k = Inr r \<longrightarrow> cs_get_chunk X d' k = Inr r"
    by (intro allI impI) (rule files.put_keeps [OF assms(1) TrueI assms(3,2)])
  show "\<forall>k. cs_has_chunk (fst (cs_delete_chunk d' c)) k \<longleftrightarrow> cs_has_chunk d' k \<and> k \<noteq> c"
    using cs_delete_spec(2) [of d' c] by (metis prod.collapse)
qed

theorem file_store_put_get_delete_witness:
  "\<exists>d c. cs_put_chunk demo_ext 7 [] [1, 2, 3] = Inr (d, c, True) \<and> cs_get_chunk demo_ext d c = Inr [1, 2, 3]"
proof -
  have inv: "cs_inv demo_ext []" by (simp add: cs_inv_def cs_has_chunk_def)
  obtain d c where p: "cs_put_chunk demo_ext 7 [] [1, 2, 3] = Inr (d, c, True)"
    by (simp add: cs_put_chunk_def Let_def cs_has_chunk_def)
  have "cs_storable [1, 2, 3]" by (simp add: cs_storable_def)
  from file_store_put_get_delete [OF inv p this, THEN conjunct2, THEN conjunct1]
  have "cs_get_chunk demo_ext d c = Inr [1, 2, 3]" by (elim exE conjE) simp
  with p show ?thesis by blast
qed

end
