(* ===== verification/Oos_Fsck.thy ===== *)
theory Oos_Fsck
  imports Oos_Engine_Read
begin

text \<open>
  \<^verbatim>\<open>core/src/fsck/mod.rs\<close>: the consistency check.  It scans every segment file record by record and then
  follows every reference from objects and snapshots to manifests and from manifests to chunks.  The
  messages of the report are values of \<open>fsck_error\<close>, one constructor per message.
\<close>

section \<open>The report\<close>

datatype fsck_error =
    SegmentTooShort rstring nat
  | InvalidSegmentHeader rstring oos_error
  | TruncatedRecordHeader rstring nat
  | PayloadExceedsEof rstring nat
  | CrcMismatch rstring chunk_id nat u32 u32
  | FailedDecryption rstring chunk_id oos_error
  | NoVaultKey rstring chunk_id
  | DecompressionFailed rstring chunk_id nat
  | ChunkIdMismatch rstring nat chunk_id chunk_id
  | CorruptedRecordHeader rstring nat io_kind
  | MissingChunk rstring chunk_id
  | WrongChunk chunk_id chunk_id
  | UnreadableChunk chunk_id rstring oos_error
  | UnretrievableManifest rstring
  | ObjectManifestMissing object_id u32 rstring
  | SnapshotManifestMissing rstring rstring rstring

record fsck_report =
  fr_objects_checked :: nat
  fr_manifests_checked :: nat
  fr_chunks_checked :: nat
  fr_segments_checked :: nat
  fr_corrupted_chunks :: nat
  fr_missing_chunks :: nat
  fr_is_healthy :: bool
  fr_errors :: "fsck_error list"

definition report_default :: fsck_report where
  "report_default = \<lparr>fr_objects_checked = 0, fr_manifests_checked = 0, fr_chunks_checked = 0, fr_segments_checked = 0,
     fr_corrupted_chunks = 0, fr_missing_chunks = 0, fr_is_healthy = False, fr_errors = []\<rparr>"

definition add_error :: "fsck_error \<Rightarrow> fsck_report \<Rightarrow> fsck_report" where
  "add_error err r = r\<lparr>fr_errors := fr_errors r @ [err]\<rparr>"

definition add_corrupted :: "fsck_error \<Rightarrow> fsck_report \<Rightarrow> fsck_report" where
  "add_corrupted err r = (add_error err r)\<lparr>fr_corrupted_chunks := Suc (fr_corrupted_chunks r)\<rparr>"

definition add_missing :: "fsck_error \<Rightarrow> fsck_report \<Rightarrow> fsck_report" where
  "add_missing err r = (add_error err r)\<lparr>fr_missing_chunks := Suc (fr_missing_chunks r)\<rparr>"

section \<open>Segment files\<close>

definition check_payload ::
    "ext \<Rightarrow> vault_key option \<Rightarrow> rstring \<Rightarrow> nat \<Rightarrow> record_header \<Rightarrow> bytes \<Rightarrow> fsck_report \<Rightarrow> fsck_report" where
  "check_payload X vk path off h payload r0 =
     (let r1 = r0\<lparr>fr_chunks_checked := Suc (fr_chunks_checked r0)\<rparr>;
          actual_crc = crc32 X payload;
          r2 = (if actual_crc \<noteq> rh_payload_crc h
                then add_corrupted (CrcMismatch path (rh_chunk_id h) off (rh_payload_crc h) actual_crc) r1 else r1);
          decrypted = (case rh_encryption_scheme h of
                         SchemeNone \<Rightarrow> Inr payload
                       | XChaCha20Poly1305 \<Rightarrow>
                           (case vk of
                              Some k \<Rightarrow> map_err (FailedDecryption path (rh_chunk_id h)) (decrypt_chunk X k payload (rh_nonce h) (rh_aad h))
                            | None \<Rightarrow> Inl (NoVaultKey path (rh_chunk_id h))));
          decompressed = bindE decrypted (\<lambda>p.
                           case rh_compression_codec h of
                             CodecNone \<Rightarrow> Inr p
                           | CodecZstd \<Rightarrow> ok_or (zstd_decode X p) (DecompressionFailed path (rh_chunk_id h) off))
      in case decompressed of
           Inr raw \<Rightarrow>
             let actual_id = cid_from_data X raw
             in if actual_id \<noteq> rh_chunk_id h then add_corrupted (ChunkIdMismatch path off (rh_chunk_id h) actual_id) r2 else r2
         | Inl err \<Rightarrow> add_corrupted err r2)"

text \<open>The report, and the ids of the records seen, which the check collects and does not use.\<close>

type_synonym fsck_state = "fsck_report \<times> chunk_id set"

function check_records ::
    "ext \<Rightarrow> vault_key option \<Rightarrow> rstring \<Rightarrow> bytes \<Rightarrow> nat \<Rightarrow> fsck_state \<Rightarrow> fsck_state" where
  "check_records X vk path f off st =
     (if off < length f then
        if length f < off + RECORD_HEADER_SIZE_V2
        then (add_corrupted (TruncatedRecordHeader path off) (fst st), snd st)
        else
          (case rh_read_from X (drop off f) of
             Inr (Some (h, rest)) \<Rightarrow>
               (let record_len = rh_header_size h + unat (rh_payload_len h)
                in if length f < off + record_len
                   then (add_corrupted (PayloadExceedsEof path off) (fst st), snd st)
                   else
                     check_records X vk path f (off + record_len)
                       (check_payload X vk path off h (take (unat (rh_payload_len h)) rest) (fst st), insert (rh_chunk_id h) (snd st)))
           | Inr None \<Rightarrow> st
           | Inl err \<Rightarrow> (add_corrupted (CorruptedRecordHeader path off err) (fst st), snd st))
      else st)"
  by pat_completeness auto

termination
  by (relation "measure (\<lambda>(X, vk, path, f, off, st). length f - off)") (auto dest: rh_read_Some(1))

declare check_records.simps [simp del]

definition check_segment_file :: "ext \<Rightarrow> vault_key option \<Rightarrow> rstring \<Rightarrow> bytes \<Rightarrow> fsck_state \<Rightarrow> fsck_state" where
  "check_segment_file X vk path f st =
     (if length f < SEGMENT_HEADER_SIZE then (add_error (SegmentTooShort path (length f)) (fst st), snd st)
      else case sh_read f of
             Inl err \<Rightarrow> (add_error (InvalidSegmentHeader path err) (fst st), snd st)
           | Inr _ \<Rightarrow> check_records X vk path f SEGMENT_HEADER_SIZE st)"

definition check_segments :: "ext \<Rightarrow> seg_store \<Rightarrow> fsck_state result" where
  "check_segments X s =
     foldE (\<lambda>st path.
        case dir_get (ss_files s) path of
          None \<Rightarrow> Inl (Io NotFound)
        | Some f \<Rightarrow> Inr (check_segment_file X (ss_vault_key s) path f
                       ((fst st)\<lparr>fr_segments_checked := Suc (fr_segments_checked (fst st))\<rparr>, snd st)))
       (report_default, {}) (sort (filter is_segment_name (dir_names (ss_files s))))"

section \<open>References\<close>

definition check_chunk :: "ext \<Rightarrow> seg_store \<Rightarrow> rstring \<Rightarrow> fsck_report \<Rightarrow> chunk_id \<Rightarrow> fsck_report" where
  "check_chunk X s mid r cid =
     (if \<not> ss_has_chunk s cid then add_missing (MissingChunk mid cid) r
      else case ss_get_chunk X s cid of
             Inr d \<Rightarrow>
               let actual_id = cid_from_data X d
               in if actual_id \<noteq> cid then add_corrupted (WrongChunk cid actual_id) r else r
           | Inl err \<Rightarrow> add_corrupted (UnreadableChunk cid mid err) r)"

definition check_manifest :: "ext \<Rightarrow> 'db redb \<Rightarrow> seg_store \<Rightarrow> 'db \<Rightarrow> fsck_report \<Rightarrow> rstring \<Rightarrow> fsck_report result" where
  "check_manifest X R s db r0 mid =
     (let r = r0\<lparr>fr_manifests_checked := Suc (fr_manifests_checked r0)\<rparr>
      in bindE (get_manifest X R db mid) (\<lambda>m.
         case m of
           Some m \<Rightarrow> Inr (foldl (check_chunk X s mid) r (m_chunks m))
         | None \<Rightarrow> Inr (add_error (UnretrievableManifest mid) r)))"

definition check_version ::
    "ext \<Rightarrow> 'db redb \<Rightarrow> 'db \<Rightarrow> object_id \<Rightarrow> fsck_report \<Rightarrow> object_version \<Rightarrow> fsck_report result" where
  "check_version X R db oid r v =
     bindE (get_manifest X R db (v_manifest_id v)) (\<lambda>m.
     Inr (if m = None then add_error (ObjectManifestMissing oid (v_version v) (v_manifest_id v)) r else r))"

definition check_object :: "ext \<Rightarrow> 'db redb \<Rightarrow> 'db \<Rightarrow> fsck_report \<Rightarrow> object_record \<Rightarrow> fsck_report result" where
  "check_object X R db r obj =
     foldE (check_version X R db (o_object_id obj)) (r\<lparr>fr_objects_checked := Suc (fr_objects_checked r)\<rparr>) (o_versions obj)"

definition check_entry :: "ext \<Rightarrow> 'db redb \<Rightarrow> 'db \<Rightarrow> rstring \<Rightarrow> fsck_report \<Rightarrow> snapshot_entry \<Rightarrow> fsck_report result" where
  "check_entry X R db label r en =
     bindE (get_manifest X R db (e_manifest_id en)) (\<lambda>m.
     Inr (if m = None then add_error (SnapshotManifestMissing label (e_name en) (e_manifest_id en)) r else r))"

definition check_snapshot :: "ext \<Rightarrow> 'db redb \<Rightarrow> 'db \<Rightarrow> fsck_report \<Rightarrow> snapshot \<Rightarrow> fsck_report result" where
  "check_snapshot X R db r snap = foldE (check_entry X R db (s_label snap)) r (s_entries snap)"

definition fsck_check :: "ext \<Rightarrow> 'db redb \<Rightarrow> seg_store \<Rightarrow> 'db \<Rightarrow> fsck_report result" where
  "fsck_check X R s db =
     bindE (check_segments X s) (\<lambda>(r1, _).
     bindE (list_all_manifest_ids R db) (\<lambda>ids.
     bindE (foldE (check_manifest X R s db) r1 ids) (\<lambda>r2.
     bindE (visit_objects R db (check_object X R db) r2) (\<lambda>r3.
     bindE (list_snapshots X R db) (\<lambda>snaps.
     bindE (foldE (check_snapshot X R db) r3 snaps) (\<lambda>r4.
     Inr (r4\<lparr>fr_is_healthy := fr_corrupted_chunks r4 = 0 \<and> fr_missing_chunks r4 = 0 \<and> fr_errors r4 = []\<rparr>)))))))"

section \<open>When a step finds nothing\<close>

definition clean :: "fsck_report \<Rightarrow> bool" where
  "clean r \<longleftrightarrow> fr_errors r = [] \<and> fr_corrupted_chunks r = 0 \<and> fr_missing_chunks r = 0"

lemma clean_simps [simp]:
  "\<not> clean (add_error err r)" "\<not> clean (add_corrupted err r)" "\<not> clean (add_missing err r)"
  "clean (r\<lparr>fr_chunks_checked := n\<rparr>) = clean r" "clean (r\<lparr>fr_segments_checked := n\<rparr>) = clean r"
  "clean (r\<lparr>fr_manifests_checked := n\<rparr>) = clean r" "clean (r\<lparr>fr_objects_checked := n\<rparr>) = clean r"
  "clean (r\<lparr>fr_is_healthy := b\<rparr>) = clean r" "clean report_default"
  by (simp_all add: clean_def add_error_def add_corrupted_def add_missing_def report_default_def)

text \<open>A fold of steps each of which keeps a report clean exactly under a condition.\<close>

lemma foldE_clean:
  assumes "\<And>s x s'. f s x = Inr s' \<Longrightarrow> P s' \<longleftrightarrow> P s \<and> Q x"
  shows "foldE f s xs = Inr s' \<Longrightarrow> P s' \<longleftrightarrow> P s \<and> (\<forall>x \<in> set xs. Q x)"
proof (induction xs arbitrary: s)
  case (Cons x xs)
  then obtain s1 where "f s x = Inr s1" "foldE f s1 xs = Inr s'" by (auto simp: bindE_eq_Inr)
  then show ?case using Cons.IH [of s1] assms [of s x s1] by simp
qed simp

lemma foldl_clean:
  assumes "\<And>s x. P (f s x) \<longleftrightarrow> P s \<and> Q x"
  shows "P (foldl f s xs) \<longleftrightarrow> P s \<and> (\<forall>x \<in> set xs. Q x)"
  by (induction xs arbitrary: s) (auto simp: assms)

lemma foldE_total: "(\<And>s x. x \<in> set xs \<Longrightarrow> \<exists>s'. f s x = Inr s') \<Longrightarrow> \<exists>s'. foldE f s xs = Inr s'"
proof (induction xs arbitrary: s)
  case (Cons x xs)
  obtain s1 where "f s x = Inr s1" using Cons.prems [of x s] by auto
  moreover obtain s' where "foldE f s1 xs = Inr s'" using Cons.IH [of s1] Cons.prems by fastforce
  ultimately show ?case by simp
qed simp

lemma check_payload_clean:
  "clean (check_payload X vk path off h payload r) \<longleftrightarrow>
     clean r \<and> (\<exists>d. read_payload X vk 0 (rh_chunk_id h) h payload = Inr d)"
proof (cases "crc32 X payload = rh_payload_crc h")
  case True
  then show ?thesis
    by (cases "rh_encryption_scheme h"; cases "rh_compression_codec h"; cases vk)
      (auto simp: check_payload_def read_payload_def Let_def map_err_def ok_or_def bindE_def split: sum.splits option.splits)
next
  case False
  then show ?thesis by (auto simp: check_payload_def read_payload_def Let_def split: sum.splits)
qed

lemma check_payload_same:
  assumes "read_payload X vk 0 (rh_chunk_id h) h payload = Inr d"
  shows "check_payload X vk path off h payload r = r\<lparr>fr_chunks_checked := Suc (fr_chunks_checked r)\<rparr>"
  using assms
  by (cases "rh_encryption_scheme h"; cases "rh_compression_codec h"; cases vk)
    (auto simp: check_payload_def read_payload_def Let_def map_err_def ok_or_def bindE_def split: sum.splits option.splits if_splits)

section \<open>A clean segment file\<close>

text \<open>The recovery scan reads it to its end and cuts nothing off.\<close>

definition scans_whole :: "ext \<Rightarrow> bytes \<Rightarrow> nat \<Rightarrow> bool" where
  "scans_whole X f off \<longleftrightarrow> (\<forall>sid newest idx. \<exists>idx'. scan_records X sid newest f off idx = Inr (f, length f, idx'))"

lemma check_records_clean:
  "clean (fst (check_records X vk path f off st)) \<Longrightarrow> off \<le> length f \<Longrightarrow> clean (fst st) \<and> scans_whole X f off"
proof (induction X vk path f off st rule: check_records.induct)
  case (1 X vk path f off st)
  show ?case
  proof (cases "off < length f")
    case False
    then have "off = length f" using "1.prems"(2) by simp
    then show ?thesis using "1.prems"(1) by (simp add: check_records.simps scans_whole_def scan_records_end)
  next
    case True
    have long: "\<not> length f < off + RECORD_HEADER_SIZE_V2"
      using "1.prems"(1) True by (auto simp: check_records.simps [of X vk path f off st])
    have "rh_read_from X (drop off f) \<noteq> Inr None"
      using long by (auto simp: rh_read_from_def read_exact_def bindE_def RECORD_HEADER_SIZE_V2_def split: sum.splits if_splits)
    then obtain h rest where h: "rh_read_from X (drop off f) = Inr (Some (h, rest))"
      using "1.prems"(1) True long
      by (cases "rh_read_from X (drop off f)") (auto simp: check_records.simps [of X vk path f off st])
    let ?len = "rh_header_size h + unat (rh_payload_len h)"
    let ?p = "take (unat (rh_payload_len h)) rest"
    have fits: "\<not> length f < off + ?len"
      using "1.prems"(1) True long h by (auto simp: check_records.simps [of X vk path f off st] Let_def)
    have step: "check_records X vk path f off st = check_records X vk path f (off + ?len)
        (check_payload X vk path off h ?p (fst st), insert (rh_chunk_id h) (snd st))"
      using True long h fits by (simp add: check_records.simps [of X vk path f off st] Let_def)
    have IH: "clean (check_payload X vk path off h ?p (fst st)) \<and> scans_whole X f (off + ?len)"
      using "1.IH" [OF True long h refl refl refl fits] "1.prems"(1) fits step by simp
    have crc: "crc32 X ?p = rh_payload_crc h"
      using IH by (auto simp: check_payload_clean read_payload_def Let_def split: if_splits)
    have "unat (rh_payload_len h) \<le> length rest" using rh_read_Some(2) [OF h] fits True by simp
    then have "cread (unat (rh_payload_len h)) rest = Inr (?p, drop (unat (rh_payload_len h)) rest)" by (simp add: cread_def read_exact_def)
    then have "scan_records X sid newest f off idx = scan_records X sid newest f (off + ?len)
        (idx_insert idx (rh_chunk_id h) \<lparr>cl_segment_id = sid, cl_record_offset = off, cl_payload_offset = off + rh_header_size h,
           cl_payload_len = rh_payload_len h, cl_raw_len = rh_raw_len h\<rparr>)" for sid newest idx
      using True h fits crc by (subst scan_records.simps) (simp add: Let_def)
    then show ?thesis using IH by (simp add: scans_whole_def check_payload_clean)
  qed
qed

definition file_ok :: "ext \<Rightarrow> bytes \<Rightarrow> bool" where
  "file_ok X f \<longleftrightarrow> (\<exists>h r. sh_read f = Inr (h, r)) \<and> scans_whole X f SEGMENT_HEADER_SIZE"

lemma check_segment_file_clean: "clean (fst (check_segment_file X vk path f st)) \<Longrightarrow> clean (fst st) \<and> file_ok X f"
  using check_records_clean [of X vk path f SEGMENT_HEADER_SIZE st]
  by (auto simp: check_segment_file_def file_ok_def not_less split: if_splits sum.splits)

lemma check_segments_clean:
  assumes "check_segments X s = Inr st" "clean (fst st)" "dir_get (ss_files s) n = Some f" "is_segment_name n"
  shows "file_ok X f"
proof -
  let ?f = "\<lambda>st path. case dir_get (ss_files s) path of
          None \<Rightarrow> Inl (Io NotFound)
        | Some f \<Rightarrow> Inr (check_segment_file X (ss_vault_key s) path f
                       ((fst st)\<lparr>fr_segments_checked := Suc (fr_segments_checked (fst st))\<rparr>, snd st))"
  have mono: "foldE ?f st0 ns = Inr st1 \<Longrightarrow> clean (fst st1) \<Longrightarrow> clean (fst st0) \<and> (\<forall>n \<in> set ns. \<forall>f. dir_get (ss_files s) n = Some f \<longrightarrow> file_ok X f)"
    for ns st0 st1
  proof (induction ns arbitrary: st0)
    case (Cons x ns)
    obtain g where g: "dir_get (ss_files s) x = Some g" using Cons.prems(1) by (auto split: option.splits)
    have "foldE ?f (check_segment_file X (ss_vault_key s) x g ((fst st0)\<lparr>fr_segments_checked := Suc (fr_segments_checked (fst st0))\<rparr>, snd st0)) ns = Inr st1"
      using Cons.prems(1) g by simp
    from check_segment_file_clean [OF conjunct1 [OF Cons.IH [OF this Cons.prems(2)]]] Cons.IH [OF this Cons.prems(2)] g show ?case by auto
  qed simp
  have "n \<in> set (sort (filter is_segment_name (dir_names (ss_files s))))" using assms(3,4) by (simp add: in_dir_names)
  then show ?thesis using mono [OF assms(1) [unfolded check_segments_def] assms(2)] assms(3) by blast
qed

section \<open>Records of the log\<close>

lemma check_records_step:
  assumes "sealed X vk r" and f: "f = pre @ rec_bytes X r @ rest"
  shows "check_records X vk path f (length pre) (rep, ids) = check_records X vk path f (length (pre @ rec_bytes X r))
    (rep\<lparr>fr_chunks_checked := Suc (fr_chunks_checked rep)\<rparr>, insert (rh_chunk_id (fst r)) ids)"
proof -
  have wfr: "wf_rec X r" using assms(1) by (simp add: sealed_def)
  then have wf: "wf_header (fst r)" and hs: "rh_header_size (fst r) = 80" by (simp_all add: wf_rec_def wf_header_def)
  note len = length_rec_bytes [OF wfr] and pl = wf_rec_payload_len [OF wfr]
  have rd: "rh_read_from X (drop (length pre) f) = Inr (Some (fst r, snd r @ rest))"
    using rh_read_write [OF wf, of X "snd r @ rest"] by (simp add: f rec_bytes_def)
  obtain d where "read_payload X vk 0 (rh_chunk_id (fst r)) (fst r) (snd r) = Inr d" using assms(1) by (auto simp: sealed_def)
  note same = check_payload_same [OF this]
  have "length pre < length f" "\<not> length f < length pre + RECORD_HEADER_SIZE_V2" "\<not> length f < length pre + (80 + length (snd r))"
    using len by (simp_all add: f RECORD_HEADER_SIZE_V2_def)
  then show ?thesis by (subst check_records.simps) (simp add: rd hs pl same len Let_def)
qed

lemma check_records_log:
  "list_all (sealed X vk) rs \<Longrightarrow> f = pre @ recs_bytes X rs
   \<Longrightarrow> \<exists>ids'. check_records X vk path f (length pre) (rep, ids) = (rep\<lparr>fr_chunks_checked := fr_chunks_checked rep + length rs\<rparr>, ids')"
proof (induction rs arbitrary: pre rep ids)
  case Nil
  then show ?case by (simp add: check_records.simps)
next
  case (Cons r rs)
  let ?rep = "rep\<lparr>fr_chunks_checked := Suc (fr_chunks_checked rep)\<rparr>"
  have "check_records X vk path f (length pre) (rep, ids) = check_records X vk path f (length (pre @ rec_bytes X r)) (?rep, insert (rh_chunk_id (fst r)) ids)"
    using Cons.prems by (intro check_records_step) simp_all
  then show ?case using Cons.IH [of "pre @ rec_bytes X r" ?rep] Cons.prems by simp
qed

lemma check_segment_file_log:
  assumes "list_all (sealed X vk) rs"
  shows "\<exists>ids'. check_segment_file X vk path (seg_bytes X sh rs) (rep, ids) = (rep\<lparr>fr_chunks_checked := fr_chunks_checked rep + length rs\<rparr>, ids')"
  using check_records_log [OF assms, of "seg_bytes X sh rs" "sh_write sh" path rep ids] sh_read_write [of sh "recs_bytes X rs"]
  by (simp add: check_segment_file_def seg_bytes_def SEGMENT_HEADER_SIZE_def)

section \<open>Clean references\<close>

definition chunk_ok :: "ext \<Rightarrow> seg_store \<Rightarrow> chunk_id \<Rightarrow> bool" where
  "chunk_ok X s c \<longleftrightarrow> ss_has_chunk s c \<and> (\<exists>d. ss_get_chunk X s c = Inr d \<and> cid_from_data X d = c)"

lemma check_chunk_clean: "clean (check_chunk X s mid r c) \<longleftrightarrow> clean r \<and> chunk_ok X s c"
  by (auto simp: check_chunk_def chunk_ok_def Let_def split: sum.splits)

definition manifest_ok :: "ext \<Rightarrow> 'db redb \<Rightarrow> seg_store \<Rightarrow> 'db \<Rightarrow> rstring \<Rightarrow> bool" where
  "manifest_ok X R s db mid \<longleftrightarrow> (\<exists>m. get_manifest X R db mid = Inr (Some m) \<and> (\<forall>c \<in> set (m_chunks m). chunk_ok X s c))"

lemma check_manifest_clean:
  assumes "check_manifest X R s db r mid = Inr r'"
  shows "clean r' \<longleftrightarrow> clean r \<and> manifest_ok X R s db mid"
proof -
  obtain m where "get_manifest X R db mid = Inr m" using assms by (auto simp: check_manifest_def bindE_eq_Inr Let_def)
  then show ?thesis
    using assms foldl_clean [of clean "check_chunk X s mid" "chunk_ok X s"]
    by (cases m) (auto simp: check_manifest_def manifest_ok_def Let_def check_chunk_clean)
qed

definition gets_manifest :: "ext \<Rightarrow> 'db redb \<Rightarrow> 'db \<Rightarrow> rstring \<Rightarrow> bool" where
  "gets_manifest X R db mid \<longleftrightarrow> (\<exists>m. get_manifest X R db mid = Inr (Some m))"

lemma check_version_clean:
  assumes "check_version X R db oid r v = Inr r'"
  shows "clean r' \<longleftrightarrow> clean r \<and> gets_manifest X R db (v_manifest_id v)"
proof -
  obtain m where "get_manifest X R db (v_manifest_id v) = Inr m" using assms by (auto simp: check_version_def bindE_eq_Inr)
  then show ?thesis using assms by (cases m) (auto simp: check_version_def gets_manifest_def)
qed

lemma check_entry_clean:
  assumes "check_entry X R db l r en = Inr r'"
  shows "clean r' \<longleftrightarrow> clean r \<and> gets_manifest X R db (e_manifest_id en)"
proof -
  obtain m where "get_manifest X R db (e_manifest_id en) = Inr m" using assms by (auto simp: check_entry_def bindE_eq_Inr)
  then show ?thesis using assms by (cases m) (auto simp: check_entry_def gets_manifest_def)
qed

lemma check_object_clean:
  "check_object X R db r obj = Inr r' \<Longrightarrow> clean r' \<longleftrightarrow> clean r \<and> (\<forall>v \<in> set (o_versions obj). gets_manifest X R db (v_manifest_id v))"
  unfolding check_object_def by (drule foldE_clean [where P = clean, OF check_version_clean, rotated]) auto

lemma check_snapshot_clean:
  "check_snapshot X R db r snap = Inr r' \<Longrightarrow> clean r' \<longleftrightarrow> clean r \<and> (\<forall>en \<in> set (s_entries snap). gets_manifest X R db (e_manifest_id en))"
  unfolding check_snapshot_def by (drule foldE_clean [where P = clean, OF check_entry_clean, rotated]) auto

lemma check_objects_clean:
  assumes "foldE (\<lambda>s (_, v). bindE (rec_from_bytes v) (check_object X R db s)) r items = Inr r'"
  shows "clean r' \<longleftrightarrow> clean r \<and> (\<forall>(k, b) \<in> set items. \<exists>obj. rec_from_bytes b = Inr obj \<and> (\<forall>v \<in> set (o_versions obj). gets_manifest X R db (v_manifest_id v)))"
  by (rule foldE_clean [where P = clean, OF _ assms]) (auto simp: bindE_eq_Inr dest: check_object_clean split: prod.splits)

lemma check_snapshots_clean:
  "foldE (check_snapshot X R db) r snaps = Inr r' \<Longrightarrow>
     clean r' \<longleftrightarrow> clean r \<and> (\<forall>snap \<in> set snaps. \<forall>en \<in> set (s_entries snap). gets_manifest X R db (e_manifest_id en))"
  by (rule foldE_clean [OF check_snapshot_clean])

lemma check_manifests_clean:
  "foldE (check_manifest X R s db) r ids = Inr r' \<Longrightarrow> clean r' \<longleftrightarrow> clean r \<and> (\<forall>mid \<in> set ids. manifest_ok X R s db mid)"
  by (rule foldE_clean [OF check_manifest_clean])

text \<open>The whole check, stage by stage.\<close>

lemma fsck_check_stages:
  assumes "fsck_check X R s db = Inr rep"
  obtains st ids r2 items r3 snaps r4 where "check_segments X s = Inr st" "list_all_manifest_ids R db = Inr ids"
    "foldE (check_manifest X R s db) (fst st) ids = Inr r2" "rd_iter R db OBJECT_INDEX = Inr items"
    "foldE (\<lambda>s (_, v). bindE (rec_from_bytes v) (check_object X R db s)) r2 items = Inr r3"
    "list_snapshots X R db = Inr snaps" "foldE (check_snapshot X R db) r3 snaps = Inr r4"
    "fr_is_healthy rep \<longleftrightarrow> clean r4"
proof -
  obtain st ids r2 items r3 snaps r4 where g: "check_segments X s = Inr st" "list_all_manifest_ids R db = Inr ids"
    "foldE (check_manifest X R s db) (fst st) ids = Inr r2" "rd_iter R db OBJECT_INDEX = Inr items"
    "foldE (\<lambda>s (_, v). bindE (rec_from_bytes v) (check_object X R db s)) r2 items = Inr r3"
    "list_snapshots X R db = Inr snaps" "foldE (check_snapshot X R db) r3 snaps = Inr r4"
    "rep = r4\<lparr>fr_is_healthy := fr_corrupted_chunks r4 = 0 \<and> fr_missing_chunks r4 = 0 \<and> fr_errors r4 = []\<rparr>"
    using assms by (auto simp: fsck_check_def visit_objects_def bindE_eq_Inr)
  show thesis by (rule that [OF g(1-7)]) (auto simp: g(8) clean_def)
qed

lemma fsck_clean:
  assumes R: "redb_ok R V" and c: "fsck_check X R s db = Inr rep" and h: "fr_is_healthy rep"
  shows "\<exists>st. check_segments X s = Inr st \<and> clean (fst st)"
    and "mid \<in> live_manifests X (V db) \<Longrightarrow> gets_manifest X R db mid"
    and "V db MANIFESTS k = Some b \<Longrightarrow> manifest_ok X R s db (from_utf8_lossy k)"
proof -
  obtain st ids r2 items r3 snaps r4 where g: "check_segments X s = Inr st" "list_all_manifest_ids R db = Inr ids"
    "foldE (check_manifest X R s db) (fst st) ids = Inr r2" "rd_iter R db OBJECT_INDEX = Inr items"
    "foldE (\<lambda>s (_, v). bindE (rec_from_bytes v) (check_object X R db s)) r2 items = Inr r3"
    "list_snapshots X R db = Inr snaps" "foldE (check_snapshot X R db) r3 snaps = Inr r4" "fr_is_healthy rep \<longleftrightarrow> clean r4"
    by (rule fsck_check_stages [OF c])
  have s: "clean r3" "\<forall>snap \<in> set snaps. \<forall>en \<in> set (s_entries snap). gets_manifest X R db (e_manifest_id en)"
    using check_snapshots_clean [OF g(7)] h g(8) by auto
  have o: "clean r2" "\<forall>(k, b) \<in> set items. \<exists>obj. rec_from_bytes b = Inr obj \<and> (\<forall>v \<in> set (o_versions obj). gets_manifest X R db (v_manifest_id v))"
    using check_objects_clean [OF g(5)] s(1) by auto
  have m: "clean (fst st)" "\<forall>mid \<in> set ids. manifest_ok X R s db mid"
    using check_manifests_clean [OF g(3)] o(1) by auto
  show "\<exists>st. check_segments X s = Inr st \<and> clean (fst st)" using g(1) m(1) by blast
  show "gets_manifest X R db mid" if "mid \<in> live_manifests X (V db)"
    using that unfolding live_manifests_def
  proof (elim UnE CollectE exE conjE)
    fix k b r v assume "V db OBJECT_INDEX k = Some b" "rec_from_bytes b = Inr r" "v \<in> set (o_versions r)" "mid = v_manifest_id v"
    moreover from this(1) have "(k, b) \<in> set items" unfolding redb_iter_mem [OF R g(4)] .
    ultimately show ?thesis using o(2) by fastforce
  next
    fix k b sn en assume "V db SNAPSHOTS k = Some b" "snapshot_from_bytes X b = Inr sn" "en \<in> set (s_entries sn)" "mid = e_manifest_id en"
    then show ?thesis using s(2) list_snapshots_mem [OF R g(6)] by blast
  qed
  show "manifest_ok X R s db (from_utf8_lossy k)" if "V db MANIFESTS k = Some b"
  proof -
    obtain its where its: "rd_iter R db MANIFESTS = Inr its" "ids = map (\<lambda>(k, _). from_utf8_lossy k) its"
      using g(2) by (auto simp: list_all_manifest_ids_def bindE_eq_Inr)
    then have "(k, b) \<in> set its" using redb_iter_mem [OF R its(1)] that by blast
    then show ?thesis using m(2) its(2) by force
  qed
qed

lemma live_mid_utf8: "mid \<in> live_manifests X T \<Longrightarrow> utf8_valid mid"
  unfolding live_manifests_def
  by (auto dest!: rec_from_bytes_wf snapshot_from_bytes_wf simp: wf_record_def wf_version_def wf_snapshot_def wf_entry_def wf_str16_def list_all_iff)

section \<open>No false alarms\<close>

text \<open>A database whose entries decode and whose references lead somewhere.\<close>

definition refs_ok :: "ext \<Rightarrow> tables \<Rightarrow> (chunk_id \<Rightarrow> bool) \<Rightarrow> bool" where
  "refs_ok X T has \<longleftrightarrow> (\<forall>k b. T OBJECT_INDEX k = Some b \<longrightarrow> (\<exists>r. rec_from_bytes b = Inr r))
     \<and> (\<forall>k b. T SNAPSHOTS k = Some b \<longrightarrow> (\<exists>s. snapshot_from_bytes X b = Inr s))
     \<and> (\<forall>k b. T MANIFESTS k = Some b \<longrightarrow> utf8_valid k \<and> (\<exists>m. manifest_from_bytes X b = Inr m \<and> (\<forall>c \<in> set (m_chunks m). has c)))
     \<and> (\<forall>mid \<in> live_manifests X T. T MANIFESTS mid \<noteq> None)"

text \<open>Segment files have the names the writer gives them.\<close>

definition plain_names :: "dir \<Rightarrow> bool" where
  "plain_names d \<longleftrightarrow> (\<forall>n \<in> set (dir_names d). is_segment_name n \<longrightarrow> segment_name_id n \<noteq> None)"

lemma check_segments_log:
  assumes inv: "seg_log_inv X s log" and nm: "plain_names (ss_files s)"
  shows "\<exists>st. check_segments X s = Inr st \<and> clean (fst st)"
proof -
  have l: "log_files X (ss_files s) log" "list_all (sealed X (ss_vault_key s)) (log_recs log)"
    using inv by (auto simp: seg_log_inv_def sw_log_def)
  let ?f = "\<lambda>st path. case dir_get (ss_files s) path of
          None \<Rightarrow> Inl (Io NotFound)
        | Some f \<Rightarrow> Inr (check_segment_file X (ss_vault_key s) path f
                       ((fst st)\<lparr>fr_segments_checked := Suc (fr_segments_checked (fst st))\<rparr>, snd st))"
  have seg: "\<exists>sh rs. dir_get (ss_files s) n = Some (seg_bytes X sh rs) \<and> list_all (sealed X (ss_vault_key s)) rs"
    if n: "n \<in> set (dir_names (ss_files s))" "is_segment_name n" for n
  proof -
    have sn: "n \<in> set (seg_names (ss_files s))" using n by (simp add: seg_names_def)
    obtain i where i: "segment_name_id n = Some i" using nm n by (auto simp: plain_names_def)
    have "i \<in> set (segment_ids (ss_files s))" by (rule segment_name_in_ids [OF sn i])
    then obtain sh rs where e: "(i, sh, rs) \<in> set log" using l(1) by (auto simp: log_files_def)
    then have "list_all (sealed X (ss_vault_key s)) rs" using l(2) by (force simp: list_all_iff log_recs_def)
    then show ?thesis using log_files_get [OF l(1) e] log_name_canonical [OF l(1) sn i] by auto
  qed
  have "clean (fst st) \<Longrightarrow> \<forall>n \<in> set ns. n \<in> set (dir_names (ss_files s)) \<and> is_segment_name n
      \<Longrightarrow> \<exists>st'. foldE ?f st ns = Inr st' \<and> clean (fst st')" for ns st
  proof (induction ns arbitrary: st)
    case (Cons n ns)
    obtain sh rs where f: "dir_get (ss_files s) n = Some (seg_bytes X sh rs)" "list_all (sealed X (ss_vault_key s)) rs"
      using seg [of n] Cons.prems(2) by auto
    obtain rep ids where st: "st = (rep, ids)" by (cases st)
    obtain ids' where c: "check_segment_file X (ss_vault_key s) n (seg_bytes X sh rs) (rep\<lparr>fr_segments_checked := Suc (fr_segments_checked rep)\<rparr>, ids)
        = (rep\<lparr>fr_segments_checked := Suc (fr_segments_checked rep), fr_chunks_checked := fr_chunks_checked rep + length rs\<rparr>, ids')"
      using check_segment_file_log [OF f(2), of n sh "rep\<lparr>fr_segments_checked := Suc (fr_segments_checked rep)\<rparr>" ids] by auto
    show ?case using Cons.IH [OF _ , of "(rep\<lparr>fr_segments_checked := Suc (fr_segments_checked rep), fr_chunks_checked := fr_chunks_checked rep + length rs\<rparr>, ids')"]
        Cons.prems f(1) c st by simp
  qed simp
  from this [of "(report_default, {})" "sort (filter is_segment_name (dir_names (ss_files s)))"] show ?thesis
    by (simp add: check_segments_def)
qed

lemma gets_manifest_iff:
  assumes "redb_ok R V" "redb_total R"
  shows "gets_manifest X R db mid \<longleftrightarrow> (\<exists>m. stored_manifest X (V db) mid m)"
  by (auto simp: gets_manifest_def stored_manifest_def get_manifest_total [OF assms] decode_value_def bindE_eq_Inr split: option.splits)

lemma decode_all_total: "\<forall>(k, v) \<in> set kvs. \<exists>x. dec v = Inr x \<Longrightarrow> \<exists>xs. decode_all dec kvs = Inr xs"
  by (induction kvs) auto

lemma refs_get:
  assumes R: "redb_ok R V" "redb_total R" and ok: "refs_ok X (V db) has" and mid: "mid \<in> live_manifests X (V db)"
  shows "gets_manifest X R db mid"
  using ok mid unfolding gets_manifest_iff [OF R] stored_manifest_def refs_ok_def by fastforce

lemma iter_total: "redb_total R \<Longrightarrow> \<exists>items. rd_iter R db t = Inr items"
  unfolding redb_total_def by simp

lemma check_manifests_total:
  assumes R: "redb_ok R V" "redb_total R" and inv: "seg_invar X s" and ok: "refs_ok X (V db) (ss_has_chunk s)" and r: "clean r"
  shows "\<exists>ids r'. list_all_manifest_ids R db = Inr ids \<and> foldE (check_manifest X R s db) r ids = Inr r' \<and> clean r'"
proof -
  obtain ms where ms: "rd_iter R db MANIFESTS = Inr ms" using iter_total [OF R(2)] by blast
  let ?ids = "map (\<lambda>(k, _). from_utf8_lossy k) ms"
  have mok: "manifest_ok X R s db mid" if mid: "mid \<in> set ?ids" for mid
  proof -
    obtain k b where "(k, b) \<in> set ms" "mid = from_utf8_lossy k" using mid by auto
    then have k: "V db MANIFESTS k = Some b" "mid = from_utf8_lossy k" using redb_iter_mem [OF R(1) ms] by simp_all
    then obtain m where m: "mid = k" "manifest_from_bytes X b = Inr m" "\<forall>c \<in> set (m_chunks m). ss_has_chunk s c"
      using ok unfolding refs_ok_def by (metis from_utf8_lossy_valid)
    then have "get_manifest X R db mid = Inr (Some m)" using k(1) by (simp add: get_manifest_total [OF R] decode_value_def)
    moreover have "chunk_ok X s c" if "ss_has_chunk s c" for c
      using that seg.has_get [OF inv, of c] seg.get_id by (auto simp: chunk_ok_def)
    ultimately show ?thesis using m(3) by (auto simp: manifest_ok_def)
  qed
  have "\<exists>r'. check_manifest X R s db r mid = Inr r'" if "mid \<in> set ?ids" for r mid
    using mok [OF that] by (auto simp: check_manifest_def manifest_ok_def Let_def)
  then obtain r' where r': "foldE (check_manifest X R s db) r ?ids = Inr r'" using foldE_total [of ?ids] by metis
  moreover have "clean r'" using check_manifests_clean [OF r'] r mok by simp
  ultimately show ?thesis by (auto simp: list_all_manifest_ids_def ms redbE_def)
qed

lemma check_objects_total:
  assumes R: "redb_ok R V" "redb_total R" and ok: "refs_ok X (V db) has" and r: "clean r"
  shows "\<exists>r'. visit_objects R db (check_object X R db) r = Inr r' \<and> clean r'"
proof -
  obtain os where os: "rd_iter R db OBJECT_INDEX = Inr os" using iter_total [OF R(2)] by blast
  have dec: "\<exists>obj. rec_from_bytes b = Inr obj \<and> (\<forall>v \<in> set (o_versions obj). gets_manifest X R db (v_manifest_id v))"
    if kb: "(k, b) \<in> set os" for k b
  proof -
    have T: "V db OBJECT_INDEX k = Some b" using kb unfolding redb_iter_mem [OF R(1) os] .
    then obtain obj where obj: "rec_from_bytes b = Inr obj" using ok unfolding refs_ok_def by blast
    moreover have "gets_manifest X R db (v_manifest_id v)" if "v \<in> set (o_versions obj)" for v
      using T obj that by (intro refs_get [OF R ok]) (auto simp: live_manifests_def)
    ultimately show ?thesis by blast
  qed
  have "\<exists>r'. (\<lambda>s (_, v). bindE (rec_from_bytes v) (check_object X R db s)) r x = Inr r'" if mem: "x \<in> set os" for r x
  proof -
    obtain k b where x: "x = (k, b)" by (cases x)
    obtain obj where obj: "rec_from_bytes b = Inr obj" "\<forall>v \<in> set (o_versions obj). gets_manifest X R db (v_manifest_id v)"
      using dec [OF mem [unfolded x]] by blast
    then have "\<exists>r'. check_object X R db r obj = Inr r'"
      unfolding check_object_def by (intro foldE_total) (auto simp: check_version_def gets_manifest_def)
    then show ?thesis by (simp add: x obj)
  qed
  then have "\<exists>r'. foldE (\<lambda>s (_, v). bindE (rec_from_bytes v) (check_object X R db s)) r os = Inr r'" by (rule foldE_total)
  then obtain r' where r': "foldE (\<lambda>s (_, v). bindE (rec_from_bytes v) (check_object X R db s)) r os = Inr r'" by (rule exE)
  moreover have "clean r'" unfolding check_objects_clean [OF r'] using r dec by (intro conjI ballI) auto
  ultimately show ?thesis by (simp add: visit_objects_def os redbE_def)
qed

lemma check_snapshots_total:
  assumes R: "redb_ok R V" "redb_total R" and ok: "refs_ok X (V db) has" and r: "clean r"
  shows "\<exists>snaps r'. list_snapshots X R db = Inr snaps \<and> foldE (check_snapshot X R db) r snaps = Inr r' \<and> clean r'"
proof -
  obtain ss where ss: "rd_iter R db SNAPSHOTS = Inr ss" using iter_total [OF R(2)] by blast
  have "\<forall>(k, v) \<in> set ss. \<exists>x. snapshot_from_bytes X v = Inr x"
    using ok redb_iter_mem [OF R(1) ss] unfolding refs_ok_def by blast
  from decode_all_total [OF this] obtain snaps where sn: "list_snapshots X R db = Inr snaps" by (auto simp: list_snapshots_def ss redbE_def)
  have live: "gets_manifest X R db (e_manifest_id en)" if "snap \<in> set snaps" "en \<in> set (s_entries snap)" for snap en
    using that list_snapshots_mem [OF R(1) sn] live_snapshot [of en snap] by (intro refs_get [OF R ok]) blast
  have "\<exists>r'. check_snapshot X R db r snap = Inr r'" if "snap \<in> set snaps" for r snap
    unfolding check_snapshot_def using live [OF that] by (intro foldE_total) (fastforce simp: check_entry_def gets_manifest_def)
  then obtain r' where r': "foldE (check_snapshot X R db) r snaps = Inr r'" using foldE_total [of snaps] by metis
  moreover have "clean r'" using check_snapshots_clean [OF r'] r live by simp
  ultimately show ?thesis using sn by blast
qed

lemma fsck_total:
  assumes R: "redb_ok R V" "redb_total R" and inv: "seg_log_inv X s log" and X: "ext_ok X" and nm: "plain_names (ss_files s)"
    and ok: "refs_ok X (V db) (ss_has_chunk s)"
  shows "\<exists>rep. fsck_check X R s db = Inr rep \<and> fr_is_healthy rep"
proof -
  obtain st where st: "check_segments X s = Inr st" "clean (fst st)" using check_segments_log [OF inv nm] by blast
  have "seg_invar X s" using seg_log_ss_inv [OF inv] X by (simp add: seg_invar_def)
  then obtain ids r2 where 2: "list_all_manifest_ids R db = Inr ids" "foldE (check_manifest X R s db) (fst st) ids = Inr r2" "clean r2"
    using check_manifests_total [OF R _ ok st(2)] by blast
  obtain r3 where 3: "visit_objects R db (check_object X R db) r2 = Inr r3" "clean r3" using check_objects_total [OF R ok 2(3)] by blast
  obtain snaps r4 where 4: "list_snapshots X R db = Inr snaps" "foldE (check_snapshot X R db) r3 snaps = Inr r4" "clean r4"
    using check_snapshots_total [OF R ok 3(2)] by blast
  show ?thesis using st(1) 2(1,2) 3(1) 4 by (cases st) (simp add: fsck_check_def clean_def)
qed

section \<open>Properties\<close>

text \<open>
  C22. A healthy report can be trusted, whatever happened to the files: every version and every snapshot
  entry has a stored manifest all of whose chunks read back with the right hash, and every segment file
  is read to its end by the recovery scan, so that opening the store again cuts nothing off.
\<close>

theorem fsck_sound:
  assumes "redb_ok R V" "fsck_check X R s db = Inr rep" "fr_is_healthy rep"
  shows "(\<forall>mid \<in> live_manifests X (V db). \<exists>m. stored_manifest X (V db) mid m
        \<and> (\<forall>c \<in> set (m_chunks m). \<exists>d. ss_get_chunk X s c = Inr d \<and> cid_from_data X d = c))
    \<and> (\<forall>n f. dir_get (ss_files s) n = Some f \<longrightarrow> is_segment_name n \<longrightarrow>
        (\<forall>sid newest idx. \<exists>idx'. scan_records X sid newest f SEGMENT_HEADER_SIZE idx = Inr (f, length f, idx')))"
proof (intro conjI ballI allI impI)
  fix mid assume mid: "mid \<in> live_manifests X (V db)"
  obtain m where m: "get_manifest X R db mid = Inr (Some m)" using fsck_clean(2) [OF assms mid] by (auto simp: gets_manifest_def)
  have st: "stored_manifest X (V db) mid m" by (rule get_manifest_stored [OF assms(1) m])
  then obtain b where "V db MANIFESTS mid = Some b" by (auto simp: stored_manifest_def)
  from fsck_clean(3) [OF assms this] have "manifest_ok X R s db mid" using live_mid_utf8 [OF mid] by simp
  with m st show "\<exists>m. stored_manifest X (V db) mid m \<and> (\<forall>c \<in> set (m_chunks m). \<exists>d. ss_get_chunk X s c = Inr d \<and> cid_from_data X d = c)"
    by (auto simp: manifest_ok_def chunk_ok_def)
next
  fix n f sid newest idx assume f: "dir_get (ss_files s) n = Some f" "is_segment_name n"
  obtain st where "check_segments X s = Inr st" "clean (fst st)" using fsck_clean(1) [OF assms] by blast
  then have "file_ok X f" using check_segments_clean f by blast
  then show "\<exists>idx'. scan_records X sid newest f SEGMENT_HEADER_SIZE idx = Inr (f, length f, idx')"
    by (simp add: file_ok_def scans_whole_def)
qed

lemma demo_fsck_store:
  "\<exists>s sh. ss_open demo_ext demo_env \<lparr>sd_files = [], sd_dirs = []\<rparr> 0 None = Inr s \<and> seg_log_inv demo_ext s [(1, sh, [])] \<and> plain_names (ss_files s)"
proof -
  obtain s sh where s: "ss_open demo_ext demo_env \<lparr>sd_files = [], sd_dirs = []\<rparr> 0 None = Inr s" "seg_log_inv demo_ext s [(1, sh, [])]"
    using ss_open_new [of "\<lparr>sd_files = [], sd_dirs = []\<rparr>" demo_ext demo_env 0 None] by auto
  have "dir_names (ss_files s) = [segment_file_name 1]"
    using s(1) by (simp add: ss_open_def recover_and_index_def compact_cleanup_def segment_ids_def dir_names_def Let_def sw_open_def dir_put_def)
      (auto simp: dir_names_def)
  then have "plain_names (ss_files s)" by (simp add: plain_names_def segment_name_id_file_name)
  then show ?thesis using s by blast
qed

lemma demo_refs_ok: "refs_ok demo_ext (demo_view demo_empty) has"
  by (simp add: refs_ok_def live_manifests_def demo_view_def demo_empty_def)

theorem fsck_sound_witness:
  "\<exists>s rep. fsck_check demo_ext demo_redb s demo_empty = Inr rep \<and> fr_is_healthy rep \<and> segment_file_name 1 \<in> set (dir_names (ss_files s))
     \<and> (\<forall>f. dir_get (ss_files s) (segment_file_name 1) = Some f \<longrightarrow>
          (\<exists>idx'. scan_records demo_ext 1 1 f SEGMENT_HEADER_SIZE idx_new = Inr (f, length f, idx')))"
proof -
  obtain s sh where s: "seg_log_inv demo_ext s [(1, sh, [])]" "plain_names (ss_files s)" using demo_fsck_store by blast
  obtain rep where rep: "fsck_check demo_ext demo_redb s demo_empty = Inr rep" "fr_is_healthy rep"
    using fsck_total [where V = demo_view and db = demo_empty, OF demo_redb_ok demo_redb_total s(1) demo_ext_ok s(2) demo_refs_ok] by blast
  have "dir_get (ss_files s) (segment_file_name 1) = Some (seg_bytes demo_ext sh [])"
    using s(1) by (auto simp: seg_log_inv_def sw_log_def log_files_def)
  then have "segment_file_name 1 \<in> set (dir_names (ss_files s))" by (simp add: in_dir_names)
  moreover have "\<exists>idx'. scan_records demo_ext 1 1 f SEGMENT_HEADER_SIZE idx_new = Inr (f, length f, idx')"
    if "dir_get (ss_files s) (segment_file_name 1) = Some f" for f
    using fsck_sound [OF demo_redb_ok rep] that is_segment_file_name [of 1] by blast
  ultimately show ?thesis using rep by blast
qed

text \<open>
  C23. The check raises no false alarm: on a store whose segment files are as its operations leave them and
  whose metadata entries decode and refer to stored manifests and chunks, it completes and reports health.
\<close>

theorem fsck_no_false_alarm:
  assumes "ext_ok X" "redb_ok R V" "redb_total R" "seg_log_inv X s log" "plain_names (ss_files s)" "refs_ok X (V db) (ss_has_chunk s)"
  shows "\<exists>rep. fsck_check X R s db = Inr rep \<and> fr_is_healthy rep"
  by (rule fsck_total [OF assms(2-4,1,5,6)])

theorem fsck_no_false_alarm_witness:
  "\<exists>s rep. ss_open demo_ext demo_env \<lparr>sd_files = [], sd_dirs = []\<rparr> 0 None = Inr s
     \<and> fsck_check demo_ext demo_redb s demo_empty = Inr rep \<and> fr_is_healthy rep"
proof -
  obtain s sh where s: "ss_open demo_ext demo_env \<lparr>sd_files = [], sd_dirs = []\<rparr> 0 None = Inr s" "seg_log_inv demo_ext s [(1, sh, [])]"
    "plain_names (ss_files s)" using demo_fsck_store by blast
  from fsck_no_false_alarm [where V = demo_view and db = demo_empty, OF demo_ext_ok demo_redb_ok demo_redb_total s(2,3) demo_refs_ok] s(1) show ?thesis by blast
qed

end
