(* ===== verification/Oos_Watcher_Queue.thy ===== *)
theory Oos_Watcher_Queue
  imports Oos_Names "HOL-Library.AList" "HOL-Library.Multiset"
begin

text \<open>
  The queue and the status of the directory watcher (\<^verbatim>\<open>core/src/watcher/service.rs\<close>) and its ignore rules
  (\<^verbatim>\<open>core/src/watcher/ignore.rs\<close>).  Paths are lists of components; times and durations are natural
  numbers of milliseconds; the iteration order of a hash map is the order of the association list that
  stands for it.  Glob patterns belong to the \<^verbatim>\<open>glob\<close> crate: compilation and matching are parameters.
\<close>

section \<open>Paths\<close>

type_synonym path = "component list"

definition is_absolute :: "path \<Rightarrow> bool" where
  "is_absolute p \<longleftrightarrow> (case p of RootDir # _ \<Rightarrow> True | _ \<Rightarrow> False)"

text \<open>Joining an absolute path replaces, joining a relative one appends.\<close>

definition path_push :: "path \<Rightarrow> path \<Rightarrow> path" where
  "path_push p q = (if is_absolute q then q else p @ q)"

definition path_pop :: "path \<Rightarrow> path" where
  "path_pop p = (if p = [] \<or> last p = RootDir then p else butlast p)"

fun lexical_step :: "path \<Rightarrow> component \<Rightarrow> path" where
  "lexical_step out CurDir = out"
| "lexical_step out ParentDir = path_pop out"
| "lexical_step out RootDir = path_push out [RootDir]"
| "lexical_step out (Normal c) = path_push out [Normal c]"

definition lexical_path :: "path \<Rightarrow> path" where
  "lexical_path p = foldl lexical_step [] p"

section \<open>Ignore rules\<close>

text \<open>The glob crate: patterns compile or not, and match strings.\<close>

record 'p globs =
  gl_new :: "rstring \<Rightarrow> 'p option"
  gl_matches :: "'p \<Rightarrow> rstring \<Rightarrow> bool"

definition backslashes :: "rstring \<Rightarrow> rstring" where
  "backslashes s = map (\<lambda>b. if b = 92 then 47 else b) s"

definition trim_end_slashes :: "rstring \<Rightarrow> rstring" where
  "trim_end_slashes s = rev (dropWhile (\<lambda>b. b = 47) (rev s))"

definition push_pattern :: "'p globs \<Rightarrow> rstring \<Rightarrow> 'p list \<Rightarrow> 'p list" where
  "push_pattern G s ps = (case gl_new G s of None \<Rightarrow> ps | Some p \<Rightarrow> ps @ [p])"

definition add_pattern :: "'p globs \<Rightarrow> 'p list \<Rightarrow> rstring \<Rightarrow> 'p list" where
  "add_pattern G ps s0 =
     (let s = trim s0
      in if s = [] then ps
         else
           let normalized = backslashes s;
               is_dir_pattern = ends_with normalized [47];
               clean = trim_end_slashes normalized;
               ps1 = push_pattern G clean ps
           in if is_dir_pattern \<or> 46 \<notin> set clean
              then push_pattern G (bytes_of ''**/'' @ clean @ bytes_of ''/**'') (push_pattern G (clean @ bytes_of ''/**'') ps1)
              else ps1)"

definition default_patterns :: "rstring list" where
  "default_patterns = map bytes_of
     [''~$*'', ''*.tmp'', ''*.temp'', ''*.crdownload'', ''Thumbs.db'', ''desktop.ini'', ''.DS_Store'', ''*.swp'', ''*.swo'',
      ''.git'', ''.git/**'', ''node_modules'', ''node_modules/**'', ''target'', ''target/**'', ''.oos-store'', ''.oos-store/**'',
      ''.oosignore'']"

definition default_rules :: "'p globs \<Rightarrow> 'p list" where
  "default_rules G = foldl (add_pattern G) [] default_patterns"

text \<open>\<^verbatim>\<open>str::lines\<close>: split at line feeds, drop a trailing carriage return and an empty last line.\<close>

definition strip_cr :: "rstring \<Rightarrow> rstring" where
  "strip_cr l = (if l \<noteq> [] \<and> last l = 13 then butlast l else l)"

definition str_lines :: "rstring \<Rightarrow> rstring list" where
  "str_lines s = (let ls = split_on (\<lambda>b. b = 10) s in map strip_cr (if last ls = [] then butlast ls else ls))"

text \<open>The content of the ignore file, when it exists and is readable text.\<close>

definition rules_load :: "'p globs \<Rightarrow> rstring option \<Rightarrow> 'p list" where
  "rules_load G content =
     (case content of
        None \<Rightarrow> default_rules G
      | Some text_content \<Rightarrow>
          foldl (\<lambda>ps line. let t = trim line in if t = [] \<or> starts_with t [35] then ps else add_pattern G ps t)
            (default_rules G) (str_lines text_content))"

definition file_name :: "path \<Rightarrow> rstring" where
  "file_name p = (if p = [] then [] else case last p of Normal c \<Rightarrow> from_utf8_lossy c | _ \<Rightarrow> [])"

fun component_str :: "component \<Rightarrow> rstring" where
  "component_str (Normal c) = c"
| "component_str CurDir = [46]"
| "component_str ParentDir = [46, 46]"
| "component_str RootDir = []"

definition path_string :: "path \<Rightarrow> rstring" where
  "path_string p = (if p = [RootDir] then [47] else from_utf8_lossy (join_path (map component_str p)))"

definition is_ignored :: "'p globs \<Rightarrow> 'p list \<Rightarrow> path \<Rightarrow> bool" where
  "is_ignored G ps rel \<longleftrightarrow>
     (let rel_str = backslashes (path_string rel)
      in list_ex (\<lambda>pat. gl_matches G pat (file_name rel) \<or> gl_matches G pat rel_str
           \<or> list_ex (\<lambda>c. case normal_of c of None \<Rightarrow> False | Some s \<Rightarrow> gl_matches G pat (from_utf8_lossy s)) rel) ps)"

section \<open>The status\<close>

datatype watcher_phase = Scanning | Watching | Stopping | Stopped | Degraded

record watcher_status =
  st_phase :: watcher_phase
  st_scanned_files :: nat
  st_saved_files :: nat
  st_removed_files :: nat
  st_pending_files :: nat
  st_last_sync_at :: "u64 option"
  st_last_error :: "oos_error option"

text \<open>The errors by key, sorted; a message is the error it was made from.\<close>

record progress =
  pg_status :: watcher_status
  pg_errors :: "(rstring \<times> oos_error) list"

fun btree_insert :: "rstring \<Rightarrow> 'v \<Rightarrow> (rstring \<times> 'v) list \<Rightarrow> (rstring \<times> 'v) list" where
  "btree_insert k v [] = [(k, v)]"
| "btree_insert k v ((k', v') # kvs) =
     (if k < k' then (k, v) # (k', v') # kvs else if k = k' then (k, v) # kvs else (k', v') # btree_insert k v kvs)"

definition progress_new :: progress where
  "progress_new = \<lparr>pg_status = \<lparr>st_phase = Stopped, st_scanned_files = 0, st_saved_files = 0, st_removed_files = 0, st_pending_files = 0,
     st_last_sync_at = None, st_last_error = None\<rparr>, pg_errors = []\<rparr>"

definition set_phase :: "watcher_phase \<Rightarrow> progress \<Rightarrow> progress" where
  "set_phase ph p = p\<lparr>pg_status := (pg_status p)\<lparr>st_phase := ph\<rparr>\<rparr>"

definition refresh :: "progress \<Rightarrow> progress" where
  "refresh p =
     (let err = (case pg_errors p of [] \<Rightarrow> None | (_, e) # _ \<Rightarrow> Some e);
          s = (pg_status p)\<lparr>st_last_error := err\<rparr>
      in p\<lparr>pg_status := (if err \<noteq> None \<and> st_phase s \<noteq> Stopping \<and> st_phase s \<noteq> Stopped then s\<lparr>st_phase := Degraded\<rparr> else s)\<rparr>)"

definition set_error :: "rstring \<Rightarrow> oos_error \<Rightarrow> progress \<Rightarrow> progress" where
  "set_error k e p = refresh (p\<lparr>pg_errors := btree_insert k e (pg_errors p)\<rparr>)"

definition clear_error :: "rstring \<Rightarrow> progress \<Rightarrow> progress" where
  "clear_error k p = refresh (p\<lparr>pg_errors := filter (\<lambda>(k', _). k' \<noteq> k) (pg_errors p)\<rparr>)"

definition has_errors :: "progress \<Rightarrow> bool" where
  "has_errors p \<longleftrightarrow> pg_errors p \<noteq> []"

section \<open>The queue\<close>

definition RENAME_TIMEOUT :: nat where "RENAME_TIMEOUT = 2000"

record pending_update =
  pu_due :: nat
  pu_retry_delay :: nat

record rename_action =
  rn_from :: path
  rn_to :: "path option"

record pending =
  pd_updates :: "(path \<times> pending_update) list"
  pd_renames :: "rename_action list"
  pd_tracked_from :: "(nat \<times> path \<times> nat) list"
  pd_untracked_from :: "(path \<times> nat) list"
  pd_generation :: u64

definition pending_default :: pending where
  "pending_default = \<lparr>pd_updates = [], pd_renames = [], pd_tracked_from = [], pd_untracked_from = [], pd_generation = 0\<rparr>"

definition has_renames :: "pending \<Rightarrow> bool" where
  "has_renames p \<longleftrightarrow> pd_renames p \<noteq> [] \<or> pd_tracked_from p \<noteq> [] \<or> pd_untracked_from p \<noteq> []"

definition pending_len :: "pending \<Rightarrow> nat" where
  "pending_len p = length (pd_updates p) + length (pd_renames p) + length (pd_tracked_from p) + length (pd_untracked_from p)"

definition enqueue :: "nat \<Rightarrow> path \<Rightarrow> nat \<Rightarrow> pending \<Rightarrow> pending" where
  "enqueue now p delay q = q\<lparr>pd_updates := AList.update p \<lparr>pu_due = now + delay, pu_retry_delay = 0\<rparr> (pd_updates q)\<rparr>"

definition expired :: "nat \<Rightarrow> nat \<Rightarrow> bool" where
  "expired now t \<longleftrightarrow> RENAME_TIMEOUT \<le> now - t"

definition push_renames :: "rename_action list \<Rightarrow> pending \<Rightarrow> pending" where
  "push_renames rs q = q\<lparr>pd_renames := pd_renames q @ rs\<rparr>"

definition expire_renames :: "nat \<Rightarrow> pending \<Rightarrow> pending" where
  "expire_renames now q =
     (let tracked = map (\<lambda>(_, p, _). p) (filter (\<lambda>(_, _, t). expired now t) (pd_tracked_from q));
          untracked = map fst (takeWhile (\<lambda>(_, t). expired now t) (pd_untracked_from q))
      in push_renames (map (\<lambda>p. \<lparr>rn_from = p, rn_to = None\<rparr>) (tracked @ untracked))
           (q\<lparr>pd_tracked_from := filter (\<lambda>(_, _, t). \<not> expired now t) (pd_tracked_from q),
              pd_untracked_from := dropWhile (\<lambda>(_, t). expired now t) (pd_untracked_from q)\<rparr>))"

section \<open>Events\<close>

text \<open>The kinds of the notify crate that the code distinguishes.\<close>

datatype event_kind = EvCreate | EvRemove | EvRenameBoth | EvRenameFrom | EvRenameTo | EvModify | EvOther

record event =
  ev_kind :: event_kind
  ev_paths :: "path list"
  ev_tracker :: "nat option"

definition rename_from :: "nat \<Rightarrow> nat option \<Rightarrow> path \<Rightarrow> pending \<Rightarrow> pending" where
  "rename_from now tracker p q =
     (case tracker of
        Some k \<Rightarrow>
          (let q1 = q\<lparr>pd_tracked_from := AList.update k (p, now) (pd_tracked_from q)\<rparr>
           in case map_of (pd_tracked_from q) k of
                None \<Rightarrow> q1
              | Some (old, _) \<Rightarrow> push_renames [\<lparr>rn_from = old, rn_to = None\<rparr>] q1)
      | None \<Rightarrow> q\<lparr>pd_untracked_from := pd_untracked_from q @ [(p, now)]\<rparr>)"

definition rename_to :: "nat \<Rightarrow> nat \<Rightarrow> nat option \<Rightarrow> path \<Rightarrow> pending \<Rightarrow> pending" where
  "rename_to now debounce tracker to_path q =
     (case tracker of
        Some k \<Rightarrow>
          (case map_of (pd_tracked_from q) k of
             Some (from_path, _) \<Rightarrow> push_renames [\<lparr>rn_from = from_path, rn_to = Some to_path\<rparr>] (q\<lparr>pd_tracked_from := AList.delete k (pd_tracked_from q)\<rparr>)
           | None \<Rightarrow> enqueue now to_path debounce q)
      | None \<Rightarrow>
          (case pd_untracked_from q of
             (from_path, _) # rest \<Rightarrow> push_renames [\<lparr>rn_from = from_path, rn_to = Some to_path\<rparr>] (q\<lparr>pd_untracked_from := rest\<rparr>)
           | [] \<Rightarrow> enqueue now to_path debounce q))"

definition enqueue_all :: "nat \<Rightarrow> nat \<Rightarrow> path list \<Rightarrow> pending \<Rightarrow> pending" where
  "enqueue_all now debounce ps q = foldl (\<lambda>q p. enqueue now p debounce q) q ps"

definition event_paths :: "path \<Rightarrow> event \<Rightarrow> path list" where
  "event_paths root ev = map (\<lambda>p. lexical_path (path_push root p)) (ev_paths ev)"

definition receive_event :: "nat \<Rightarrow> path \<Rightarrow> nat \<Rightarrow> event \<Rightarrow> pending \<Rightarrow> pending" where
  "receive_event now root debounce ev q0 =
     (if ev_kind ev = EvOther then q0
      else
        let ps = event_paths root ev;
            q = expire_renames now (q0\<lparr>pd_generation := pd_generation q0 + 1\<rparr>)
        in case ev_kind ev of
             EvRenameBoth \<Rightarrow>
               (case ps of
                  [a, b] \<Rightarrow> push_renames [\<lparr>rn_from = a, rn_to = Some b\<rparr>] q
                | _ \<Rightarrow> enqueue_all now debounce ps q)
           | EvRenameFrom \<Rightarrow> (case ps of [] \<Rightarrow> q | p # _ \<Rightarrow> rename_from now (ev_tracker ev) p q)
           | EvRenameTo \<Rightarrow> (case ps of [] \<Rightarrow> q | p # _ \<Rightarrow> rename_to now debounce (ev_tracker ev) p q)
           | EvRemove \<Rightarrow> push_renames (map (\<lambda>p. \<lparr>rn_from = p, rn_to = None\<rparr>) ps) q
           | _ \<Rightarrow> enqueue_all now debounce ps q)"

section \<open>Retries\<close>

definition retry_delay :: "nat \<Rightarrow> nat \<Rightarrow> nat" where
  "retry_delay debounce previous =
     (if previous = 0 then min (max debounce 50) 30000 else min (2 * previous) 30000)"

section \<open>Normalised paths\<close>

text \<open>Nothing but normal components, below the root or relative.\<close>

definition lexical :: "path \<Rightarrow> bool" where
  "lexical p \<longleftrightarrow> (\<exists>q. p = map Normal q \<or> p = RootDir # map Normal q)"

lemma lexical_pop: "lexical p \<Longrightarrow> lexical (path_pop p)"
  unfolding lexical_def
proof (elim exE disjE)
  fix q assume "p = map Normal q"
  then show "\<exists>q. path_pop p = map Normal q \<or> path_pop p = RootDir # map Normal q"
    by (cases q rule: rev_cases) (auto simp: path_pop_def)
next
  fix q assume "p = RootDir # map Normal q"
  then show "\<exists>q. path_pop p = map Normal q \<or> path_pop p = RootDir # map Normal q"
    by (cases q rule: rev_cases) (auto simp: path_pop_def)
qed

lemma lexical_push: "lexical p \<Longrightarrow> lexical (p @ [Normal c])"
  unfolding lexical_def
proof (elim exE disjE)
  fix q assume "p = map Normal q"
  then show "\<exists>q. p @ [Normal c] = map Normal q \<or> p @ [Normal c] = RootDir # map Normal q" by (intro exI [of _ "q @ [c]"]) simp
next
  fix q assume "p = RootDir # map Normal q"
  then show "\<exists>q. p @ [Normal c] = map Normal q \<or> p @ [Normal c] = RootDir # map Normal q" by (intro exI [of _ "q @ [c]"]) simp
qed

lemma lexical_step_ok: "lexical p \<Longrightarrow> lexical (lexical_step p c)"
  by (cases c) (auto simp: lexical_pop lexical_push path_push_def is_absolute_def, auto simp: lexical_def)

lemma lexical_path_ok: "lexical (lexical_path p)"
proof -
  have "lexical q \<Longrightarrow> lexical (foldl lexical_step q p)" for q
    by (induction p arbitrary: q) (auto intro: lexical_step_ok)
  then show ?thesis by (simp add: lexical_path_def lexical_def)
qed

lemma lexical_path_id: "lexical p \<Longrightarrow> lexical_path p = p"
proof -
  have app: "foldl lexical_step p (map Normal q) = p @ map Normal q" for p q
    by (induction q arbitrary: p) (auto simp: path_push_def is_absolute_def)
  show "lexical p \<Longrightarrow> lexical_path p = p"
    by (auto simp: lexical_def lexical_path_def app path_push_def is_absolute_def)
qed

section \<open>Rename halves\<close>

text \<open>The paths whose disappearance is known and not yet applied, wherever they are queued.\<close>

definition froms :: "pending \<Rightarrow> path multiset" where
  "froms q = mset (map rn_from (pd_renames q)) + mset (map (\<lambda>(_, p, _). p) (pd_tracked_from q)) + mset (map fst (pd_untracked_from q))"

definition queue_ok :: "pending \<Rightarrow> bool" where
  "queue_ok q \<longleftrightarrow> distinct (map fst (pd_tracked_from q)) \<and> distinct (map fst (pd_updates q))"

lemma mset_map_partition: "mset (map f xs) = mset (map f (filter P xs)) + mset (map f (filter (\<lambda>x. \<not> P x) xs))"
  by (induction xs) auto

lemma mset_map_while: "mset (map f xs) = mset (map f (takeWhile P xs)) + mset (map f (dropWhile P xs))"
  by (metis map_append mset_append takeWhile_dropWhile_id)

lemma push_renames_simps [simp]:
  "pd_renames (push_renames rs q) = pd_renames q @ rs" "pd_updates (push_renames rs q) = pd_updates q"
  "pd_tracked_from (push_renames rs q) = pd_tracked_from q" "pd_untracked_from (push_renames rs q) = pd_untracked_from q"
  "pd_generation (push_renames rs q) = pd_generation q"
  by (simp_all add: push_renames_def)

lemma froms_push [simp]: "froms (push_renames rs q) = froms q + mset (map rn_from rs)"
  by (simp add: froms_def)

lemma froms_enqueue [simp]: "froms (enqueue now p d q) = froms q"
  by (simp add: froms_def enqueue_def)

lemma expire_froms: "froms (expire_renames now q) = froms q"
proof -
  let ?e = "\<lambda>(_, _, t). expired now t"
  have 1: "mset (map (\<lambda>(_, p, _). p) (pd_tracked_from q)) = mset (map (\<lambda>(_, p, _). p) (filter ?e (pd_tracked_from q)))
      + mset (map (\<lambda>(_, p, _). p) (filter (\<lambda>x. \<not> ?e x) (pd_tracked_from q)))" by (rule mset_map_partition)
  have 2: "mset (map fst (pd_untracked_from q)) = mset (map fst (takeWhile (\<lambda>(_, t). expired now t) (pd_untracked_from q)))
      + mset (map fst (dropWhile (\<lambda>(_, t). expired now t) (pd_untracked_from q)))" by (rule mset_map_while)
  from 1 2 show ?thesis by (simp add: expire_renames_def Let_def froms_def comp_def split_def)
qed

lemma mset_update: "distinct (map fst kvs) \<Longrightarrow> mset (AList.update k v kvs) = mset (AList.delete k kvs) + {#(k, v)#}"
  by (induction kvs) auto

lemma mset_delete: "distinct (map fst kvs) \<Longrightarrow> map_of kvs k = Some v \<Longrightarrow> mset kvs = mset (AList.delete k kvs) + {#(k, v)#}"
  by (induction kvs) (auto split: if_splits)

text \<open>The disappearances an event announces.\<close>

definition event_froms :: "path \<Rightarrow> event \<Rightarrow> path list" where
  "event_froms root ev =
     (case ev_kind ev of
        EvRemove \<Rightarrow> event_paths root ev
      | EvRenameFrom \<Rightarrow> take 1 (event_paths root ev)
      | EvRenameBoth \<Rightarrow> (if length (event_paths root ev) = 2 then take 1 (event_paths root ev) else [])
      | _ \<Rightarrow> [])"

lemma expire_ok: "queue_ok q \<Longrightarrow> queue_ok (expire_renames now q)"
  by (auto simp: queue_ok_def expire_renames_def Let_def distinct_map_filter)

lemma enqueue_ok: "queue_ok q \<Longrightarrow> queue_ok (enqueue now p d q)"
  by (simp add: queue_ok_def enqueue_def distinct_update)

lemma push_ok [simp]: "queue_ok (push_renames rs q) = queue_ok q"
  by (simp add: queue_ok_def)

lemma enqueue_all_simps: "froms (enqueue_all now d ps q) = froms q" "pd_renames (enqueue_all now d ps q) = pd_renames q"
  "queue_ok q \<Longrightarrow> queue_ok (enqueue_all now d ps q)"
  unfolding enqueue_all_def by (induction ps arbitrary: q) (auto simp: enqueue_ok, simp add: enqueue_def)

lemma rename_from_froms:
  assumes "queue_ok q"
  shows "froms (rename_from now k p q) = froms q + {#p#}"
proof (cases k)
  case (Some i)
  have d: "distinct (map fst (pd_tracked_from q))" using assms by (simp add: queue_ok_def)
  have up: "mset (AList.update i (p, now) (pd_tracked_from q)) = mset (AList.delete i (pd_tracked_from q)) + {#(i, p, now)#}" by (rule mset_update [OF d])
  show ?thesis
  proof (cases "map_of (pd_tracked_from q) i")
    case None
    then have "AList.delete i (pd_tracked_from q) = pd_tracked_from q" by (simp add: map_of_eq_None_iff)
    then show ?thesis using up Some None by (simp add: rename_from_def froms_def)
  next
    case (Some old)
    obtain po t where "old = (po, t)" by (cases old)
    then show ?thesis using up mset_delete [OF d Some] Some \<open>k = Some i\<close> by (simp add: rename_from_def froms_def)
  qed
qed (simp add: rename_from_def froms_def)

lemma rename_to_froms:
  assumes "queue_ok q"
  shows "froms (rename_to now d k p q) = froms q"
proof (cases k)
  case None
  then show ?thesis by (auto simp: rename_to_def froms_def split: list.splits) (simp add: enqueue_def)
next
  case (Some i)
  have d: "distinct (map fst (pd_tracked_from q))" using assms by (simp add: queue_ok_def)
  show ?thesis
  proof (cases "map_of (pd_tracked_from q) i")
    case None
    then show ?thesis using Some by (simp add: rename_to_def)
  next
    case (Some old)
    obtain po t where "old = (po, t)" by (cases old)
    then show ?thesis using mset_delete [OF d Some] Some \<open>k = Some i\<close> by (simp add: rename_to_def froms_def)
  qed
qed

lemma rename_ok: "queue_ok q \<Longrightarrow> queue_ok (rename_from now k p q)" "queue_ok q \<Longrightarrow> queue_ok (rename_to now d k p q)"
  by (auto simp: rename_from_def rename_to_def queue_ok_def Let_def distinct_update distinct_delete enqueue_def split: option.splits list.splits)

lemma receive_other: "ev_kind ev = EvOther \<Longrightarrow> receive_event now root d ev q = q"
  by (simp add: receive_event_def)

text \<open>An event adds the disappearances it announces, and nothing is lost.\<close>

lemma receive_froms:
  assumes "queue_ok q"
  shows "froms (receive_event now root d ev q) = froms q + mset (event_froms root ev)" "queue_ok (receive_event now root d ev q)"
proof -
  let ?q = "expire_renames now (q\<lparr>pd_generation := pd_generation q + 1\<rparr>)"
  have q: "queue_ok ?q" "froms ?q = froms q"
    using assms expire_ok [of "q\<lparr>pd_generation := pd_generation q + 1\<rparr>" now] by (simp_all add: expire_froms) (simp_all add: queue_ok_def froms_def)
  show "froms (receive_event now root d ev q) = froms q + mset (event_froms root ev)"
    using q by (cases "ev_kind ev"; cases "event_paths root ev" rule: list.exhaust)
      (auto simp: receive_event_def event_froms_def Let_def enqueue_all_simps rename_from_froms rename_to_froms comp_def split: list.splits)
  show "queue_ok (receive_event now root d ev q)"
    using q assms by (auto simp: receive_event_def Let_def enqueue_all_simps rename_ok split: event_kind.splits list.splits)
qed

text \<open>Events are appended: what is at the front of the queue of renames stays there.\<close>

lemma receive_appends: "\<exists>rs. pd_renames (receive_event now root d ev q) = pd_renames q @ rs"
proof -
  have e: "\<exists>rs. pd_renames (expire_renames now q) = pd_renames q @ rs" for q by (auto simp: expire_renames_def Let_def)
  obtain rs where rs: "pd_renames (expire_renames now (q\<lparr>pd_generation := pd_generation q + 1\<rparr>)) = pd_renames q @ rs"
    using e [of "q\<lparr>pd_generation := pd_generation q + 1\<rparr>"] by auto
  then show ?thesis
    by (auto simp: receive_event_def Let_def enqueue_all_simps rename_from_def rename_to_def enqueue_def split: event_kind.splits list.splits option.splits)
qed

section \<open>Sequences of steps\<close>

text \<open>
  The event thread receives events, the worker moves overdue halves and takes the front action; the lock
  makes each of these one step.  The second component collects the actions taken.
\<close>

datatype queue_act = Receive nat event | Expire nat | Take nat

fun queue_step :: "path \<Rightarrow> nat \<Rightarrow> pending \<times> rename_action list \<Rightarrow> queue_act \<Rightarrow> pending \<times> rename_action list" where
  "queue_step root debounce (q, taken) (Receive now ev) = (receive_event now root debounce ev q, taken)"
| "queue_step root debounce (q, taken) (Expire now) = (expire_renames now q, taken)"
| "queue_step root debounce (q, taken) (Take now) =
     (case pd_renames q of [] \<Rightarrow> (q, taken) | a # rest \<Rightarrow> (q\<lparr>pd_renames := rest\<rparr>, taken @ [a]))"

fun announced :: "path \<Rightarrow> queue_act \<Rightarrow> path list" where
  "announced root (Receive now ev) = event_froms root ev"
| "announced root _ = []"

lemma queue_step_conserves:
  assumes "queue_ok q"
  shows "(case queue_step root d (q, taken) s of (q', taken') \<Rightarrow> queue_ok q'
    \<and> mset (map rn_from taken') + froms q' = mset (map rn_from taken) + froms q + mset (announced root s))"
proof (cases s)
  case (Receive now ev)
  then show ?thesis using receive_froms [OF assms] by simp
next
  case (Expire now)
  then show ?thesis using expire_ok [OF assms] by (simp add: expire_froms)
next
  case (Take now)
  then show ?thesis using assms by (auto simp: froms_def queue_ok_def split: list.splits)
qed

lemma queue_steps_conserve:
  assumes "queue_ok q"
  shows "(case foldl (queue_step root d) (q, taken) steps of (q', taken') \<Rightarrow> queue_ok q'
    \<and> mset (map rn_from taken') + froms q' = mset (map rn_from taken) + froms q + mset (concat (map (announced root) steps)))"
  using assms
proof (induction steps arbitrary: q taken)
  case (Cons s steps)
  obtain q1 t1 where 1: "queue_step root d (q, taken) s = (q1, t1)" by fastforce
  from queue_step_conserves [OF Cons.prems, where root = root and d = d and taken = taken and s = s] 1 have "queue_ok q1"
    "mset (map rn_from t1) + froms q1 = mset (map rn_from taken) + froms q + mset (announced root s)" by simp_all
  with Cons.IH [where q = q1 and taken = t1] 1 show ?case by (auto simp: ac_simps split: prod.splits)
qed simp

section \<open>Properties\<close>


text \<open>
  Retries back off exponentially within bounds: the delay before the retry number \<open>n + 1\<close> of a busy
  file is the debounce time, at least 50 ms, doubled \<open>n\<close> times, and never more than 30 s.
\<close>

theorem retry_delay_closed_form:
  "(retry_delay debounce ^^ Suc n) 0 = min (2 ^ n * max debounce 50) 30000"
proof (induction n)
  case (Suc n)
  have "0 < (2 :: nat) ^ n * max debounce 50" by simp
  then have "(retry_delay debounce ^^ Suc n) 0 \<noteq> 0" unfolding Suc.IH by simp
  then have "(retry_delay debounce ^^ Suc (Suc n)) 0 = min (2 * (retry_delay debounce ^^ Suc n) 0) 30000"
    by (simp add: retry_delay_def)
  then show ?case unfolding Suc.IH by (simp add: min_def)
qed (simp add: retry_delay_def)

end
