(* ===== verification/Oos_Watcher.thy ===== *)
theory Oos_Watcher
  imports Oos_Watcher_Queue Oos_Engine_Ops
begin

text \<open>
  The worker of the directory watcher (\<^verbatim>\<open>core/src/watcher/service.rs\<close>).  The watched directory is a
  \<open>world\<close>: what the file system answers while one operation runs, with the time of that operation.  Each
  operation takes the worker's state and the engine to the state it leaves; a loop takes fuel, and \<open>None\<close>
  means that it has not come to an end.
\<close>

section \<open>The world and the worker\<close>

datatype file_meta = FileMeta u64 | DirMeta | OtherMeta

text \<open>
  \<open>ww_walk\<close> is the walk of the \<^verbatim>\<open>walkdir\<close> crate below a directory with a filter on entries; \<open>ww_read\<close> reads a file
  to its end; \<open>ww_ignore\<close> is the text of the ignore file; \<open>ww_stop n\<close> tells whether the watcher has been
  stopped when it is asked for the \<open>n\<close>-th time.
\<close>

record world =
  ww_meta :: "path \<Rightarrow> io_kind + file_meta"
  ww_lmeta :: "path \<Rightarrow> io_kind + unit"
  ww_walk :: "path \<Rightarrow> (path \<Rightarrow> bool) \<Rightarrow> (io_kind + path \<times> bool) list"
  ww_read :: "path \<Rightarrow> bytes result"
  ww_source :: "path \<Rightarrow> source"
  ww_penv :: "path \<Rightarrow> put_env"
  ww_ignore :: "rstring option"
  ww_now :: nat
  ww_epoch :: u64
  ww_stop :: "nat \<Rightarrow> bool"

record watcher_config =
  wc_watch_dir :: path
  wc_debounce :: nat
  wc_cooldown :: nat
  wc_throttle_ms :: u64
  wc_reconcile_interval :: nat

definition watcher_config_new :: "path \<Rightarrow> watcher_config" where
  "watcher_config_new d = \<lparr>wc_watch_dir = d, wc_debounce = 3000, wc_cooldown = 60000, wc_throttle_ms = 10,
     wc_reconcile_interval = 3600000\<rparr>"

record ('db, 'p) worker =
  wk_engine :: "'db engine"
  wk_config :: watcher_config
  wk_rules :: "'p list"
  wk_watch_key :: rstring
  wk_pending :: pending
  wk_progress :: progress
  wk_last_synced :: "(path \<times> nat) list"
  wk_cancellable :: bool
  wk_dirty :: bool

text \<open>The parameters that do not change: libraries, database and patterns.\<close>

record ('db, 'p) deps =
  dp_ext :: ext
  dp_redb :: "'db redb"
  dp_globs :: "'p globs"

definition cancelled :: "world \<Rightarrow> nat \<Rightarrow> ('db, 'p) worker \<Rightarrow> bool" where
  "cancelled W n w \<longleftrightarrow> wk_cancellable w \<and> ww_stop W n"

definition logical_name :: "('db, 'p) worker \<Rightarrow> path \<Rightarrow> rstring option" where
  "logical_name w p = map_option (\<lambda>rel. backslashes (path_string rel)) (strip_prefix (wc_watch_dir (wk_config w)) p)"

definition ignored_name :: "('db, 'p) deps \<Rightarrow> ('db, 'p) worker \<Rightarrow> rstring \<Rightarrow> bool" where
  "ignored_name D w name = is_ignored (dp_globs D) (wk_rules w) (components name)"

definition included :: "('db, 'p) deps \<Rightarrow> ('db, 'p) worker \<Rightarrow> path \<Rightarrow> bool" where
  "included D w p = (case logical_name w p of None \<Rightarrow> False | Some name \<Rightarrow> \<not> ignored_name D w name)"

definition on_pending :: "(pending \<Rightarrow> pending) \<Rightarrow> ('db, 'p) worker \<Rightarrow> ('db, 'p) worker" where
  "on_pending f w = w\<lparr>wk_pending := f (wk_pending w)\<rparr>"

definition on_progress :: "(progress \<Rightarrow> progress) \<Rightarrow> ('db, 'p) worker \<Rightarrow> ('db, 'p) worker" where
  "on_progress f w = w\<lparr>wk_progress := f (wk_progress w)\<rparr>"

definition on_status :: "(watcher_status \<Rightarrow> watcher_status) \<Rightarrow> ('db, 'p) worker \<Rightarrow> ('db, 'p) worker" where
  "on_status f = on_progress (\<lambda>p. p\<lparr>pg_status := f (pg_status p)\<rparr>)"

definition on_engine :: "('db engine, 'a) sm \<Rightarrow> (('db, 'p) worker, 'a) sm" where
  "on_engine m w = (case m (wk_engine w) of (e, r) \<Rightarrow> (w\<lparr>wk_engine := e\<rparr>, r))"

text \<open>\<^verbatim>\<open>entry(path).or_insert(update)\<close>\<close>

definition or_insert :: "path \<Rightarrow> pending_update \<Rightarrow> pending \<Rightarrow> pending" where
  "or_insert p u q = (if map_of (pd_updates q) p = None then q\<lparr>pd_updates := AList.update p u (pd_updates q)\<rparr> else q)"

definition debounced :: "world \<Rightarrow> ('db, 'p) worker \<Rightarrow> pending_update" where
  "debounced W w = \<lparr>pu_due = ww_now W + wc_debounce (wk_config w), pu_retry_delay = 0\<rparr>"

definition defer_error :: "world \<Rightarrow> path \<Rightarrow> nat \<Rightarrow> oos_error \<Rightarrow> ('db, 'p) worker \<Rightarrow> ('db, 'p) worker" where
  "defer_error W p previous err w0 =
     (let w = on_progress (set_error (path_string p) err) w0;
          delay = retry_delay (wc_debounce (wk_config w)) previous
      in if err = Io WouldBlock
         then on_pending (or_insert p \<lparr>pu_due = ww_now W + delay, pu_retry_delay = delay\<rparr>) w
         else w)"

section \<open>Storing a file\<close>

definition file_needs_put :: "('db, 'p) deps \<Rightarrow> world \<Rightarrow> 'db \<Rightarrow> rstring \<Rightarrow> path \<Rightarrow> u64 \<Rightarrow> bool result" where
  "file_needs_put D W db name p len =
     bindE (resolve_name (dp_redb D) db name) (\<lambda>i. case i of None \<Rightarrow> Inr True | Some i \<Rightarrow>
     bindE (get_object (dp_redb D) db i) (\<lambda>r. case r of None \<Rightarrow> Inr True | Some r \<Rightarrow>
     bindE (get_manifest (dp_ext D) (dp_redb D) db (rec_latest_manifest_id r)) (\<lambda>m. case m of None \<Rightarrow> Inr True | Some m \<Rightarrow>
     if len \<noteq> m_total_size m then Inr True
     else bindE (ww_read W p) (\<lambda>content. Inr (blake3 (dp_ext D) content \<noteq> m_content_hash m)))))"

definition mark_managed :: "('db, 'p) deps \<Rightarrow> rstring \<Rightarrow> (('db, 'p) worker, unit) sm" where
  "mark_managed D name w = on_engine (set_db (\<lambda>db. mark_watcher_file (dp_redb D) db (wk_watch_key w) name)) w"

definition ingest_put :: "('db, 'p) deps \<Rightarrow> world \<Rightarrow> rstring \<Rightarrow> path \<Rightarrow> bool \<Rightarrow> ('db, 'p) worker \<Rightarrow> (('db, 'p) worker \<times> unit result) option" where
  "ingest_put D W name p cooldown w =
     (case put_file_named (dp_ext D) (dp_redb D) (ww_penv W p) name (ww_source W p) (wk_engine w) of
        None \<Rightarrow> None
      | Some (e, Inl err) \<Rightarrow> Some (w\<lparr>wk_engine := e\<rparr>, Inl err)
      | Some (e, Inr _) \<Rightarrow>
          (case mark_managed D name (w\<lparr>wk_engine := e\<rparr>) of
             (w1, Inl err) \<Rightarrow> Some (w1, Inl err)
           | (w1, Inr _) \<Rightarrow>
               (let w2 = (if cooldown then w1\<lparr>wk_last_synced := AList.update p (ww_now W) (wk_last_synced w1)\<rparr> else w1)
                in Some (on_progress (clear_error (path_string p)) (on_status (\<lambda>s. s\<lparr>st_saved_files := Suc (st_saved_files s)\<rparr>) w2), Inr ()))))"

definition ingest :: "('db, 'p) deps \<Rightarrow> world \<Rightarrow> path \<Rightarrow> u64 \<Rightarrow> bool \<Rightarrow> ('db, 'p) worker \<Rightarrow> (('db, 'p) worker \<times> unit result) option" where
  "ingest D W p len cooldown w =
     (case logical_name w p of
        None \<Rightarrow> Some (w, Inr ())
      | Some name \<Rightarrow>
          (case file_needs_put D W (eg_db (wk_engine w)) name p len of
             Inl err \<Rightarrow> Some (w, Inl err)
           | Inr needs \<Rightarrow>
               if \<not> needs
               then (case mark_managed D name w of
                       (w1, Inl err) \<Rightarrow> Some (w1, Inl err)
                     | (w1, Inr _) \<Rightarrow> Some (on_progress (clear_error (path_string p)) w1, Inr ()))
               else
                 (case (if cooldown then map_of (wk_last_synced w) p else None) of
                    Some t \<Rightarrow>
                      if ww_now W - t < wc_cooldown (wk_config w)
                      then Some (on_pending (or_insert p \<lparr>pu_due = t + wc_cooldown (wk_config w), pu_retry_delay = 0\<rparr>) w, Inr ())
                      else ingest_put D W name p cooldown w
                  | None \<Rightarrow> ingest_put D W name p cooldown w)))"

section \<open>Renames\<close>

fun enqueue_entries :: "world \<Rightarrow> (io_kind + path \<times> bool) list \<Rightarrow> (('db, 'p) worker, unit) sm" where
  "enqueue_entries W [] w = (w, Inr ())"
| "enqueue_entries W (Inl k # es) w = (w, Inl (Io OtherIo))"
| "enqueue_entries W (Inr (p, is_file) # es) w =
     enqueue_entries W es (if is_file then on_pending (or_insert p (debounced W w)) w else w)"

definition enqueue_tree :: "('db, 'p) deps \<Rightarrow> world \<Rightarrow> path \<Rightarrow> (('db, 'p) worker, unit) sm" where
  "enqueue_tree D W root w = enqueue_entries W (ww_walk W root (included D w)) w"

text \<open>A deferred write below the old path moves to the new one, or is dropped.\<close>

definition remap_update :: "('db, 'p) deps \<Rightarrow> rename_action \<Rightarrow> ('db, 'p) worker \<Rightarrow> path \<Rightarrow> ('db, 'p) worker" where
  "remap_update D a w old =
     (case map_of (pd_updates (wk_pending w)) old of
        None \<Rightarrow> w
      | Some u \<Rightarrow>
          (let w1 = on_progress (clear_error (path_string old)) (on_pending (\<lambda>q. q\<lparr>pd_updates := AList.delete old (pd_updates q)\<rparr>) w)
           in case rn_to a of
                None \<Rightarrow> w1
              | Some to_path \<Rightarrow>
                  (let new = to_path @ drop (length (rn_from a)) old
                   in if included D w1 new
                      then on_pending (\<lambda>q. q\<lparr>pd_updates := AList.update new
                             (case map_of (pd_updates q) new of
                                Some ex \<Rightarrow> ex\<lparr>pu_due := max (pu_due ex) (pu_due u), pu_retry_delay := max (pu_retry_delay ex) (pu_retry_delay u)\<rparr>
                              | None \<Rightarrow> u) (pd_updates q)\<rparr>) w1
                      else w1)))"

definition remap_change :: "world \<Rightarrow> ('db, 'p) worker \<Rightarrow> rstring \<times> rstring option \<Rightarrow> ('db, 'p) worker" where
  "remap_change W w change =
     (case change of (old, new) \<Rightarrow>
        (let dir = wc_watch_dir (wk_config w);
             old_path = path_push dir (components old);
             w1 = on_progress (clear_error (path_string old_path)) w;
             w2 = (case map_of (wk_last_synced w1) old_path of
                     None \<Rightarrow> w1
                   | Some t \<Rightarrow> w1\<lparr>wk_last_synced := (let m = AList.delete old_path (wk_last_synced w1)
                                 in case new of None \<Rightarrow> m | Some n \<Rightarrow> AList.update (path_push dir (components n)) t m)\<rparr>)
         in case new of
              None \<Rightarrow> w2
            | Some n \<Rightarrow> on_pending (or_insert (path_push dir (components n)) (debounced W w2)) w2))"

definition enqueue_target :: "('db, 'p) deps \<Rightarrow> world \<Rightarrow> path option \<Rightarrow> (('db, 'p) worker, unit) sm" where
  "enqueue_target D W target w =
     (case target of
        None \<Rightarrow> (w, Inr ())
      | Some p \<Rightarrow>
          if included D w p
          then (case ww_meta W p of
                  Inr DirMeta \<Rightarrow> enqueue_tree D W p w
                | Inr (FileMeta _) \<Rightarrow> (on_pending (or_insert p (debounced W w)) w, Inr ())
                | Inr OtherMeta \<Rightarrow> (w, Inr ())
                | Inl k \<Rightarrow> if k = NotFound then (w, Inr ()) else (w, Inl (Io k)))
          else (w, Inr ()))"

definition rename_from_name :: "('db, 'p) deps \<Rightarrow> ('db, 'p) worker \<Rightarrow> rename_action \<Rightarrow> rstring option" where
  "rename_from_name D w a = (if included D w (rn_from a) then logical_name w (rn_from a) else None)"

definition rename_to_name :: "('db, 'p) deps \<Rightarrow> ('db, 'p) worker \<Rightarrow> rename_action \<Rightarrow> rstring option" where
  "rename_to_name D w a =
     Option.bind (rn_to a) (\<lambda>p. Option.bind (logical_name w p) (\<lambda>name. if ignored_name D w name then None else Some name))"

definition rename_changes :: "('db, 'p) deps \<Rightarrow> rename_action \<Rightarrow> (('db, 'p) worker, (rstring \<times> rstring option) list) sm" where
  "rename_changes D a w =
     (case rename_from_name D w a of
        None \<Rightarrow> (w, Inr [])
      | Some from_name \<Rightarrow> on_engine (update_watched_prefix (dp_redb D) (wk_watch_key w) from_name (rename_to_name D w a)
                            (\<lambda>name. \<not> ignored_name D w name)) w)"

definition rename_work :: "('db, 'p) deps \<Rightarrow> world \<Rightarrow> rename_action \<Rightarrow> (('db, 'p) worker, unit) sm" where
  "rename_work D W a =
     bindS (rename_changes D a) (\<lambda>changes w.
       let paths = filter (\<lambda>p. starts_with p (rn_from a)) (map fst (pd_updates (wk_pending w)));
           w1 = foldl (remap_update D a) w paths;
           w2 = foldl (remap_change W) w1 changes;
           w3 = on_status (\<lambda>s. s\<lparr>st_removed_files := st_removed_files s + length (filter (\<lambda>(_, new). new = None) changes)\<rparr>) w2
       in enqueue_target D W (rn_to a) w3)"

definition apply_rename :: "('db, 'p) deps \<Rightarrow> world \<Rightarrow> rename_action \<Rightarrow> (('db, 'p) worker, unit) sm" where
  "apply_rename D W a w =
     (if rn_to a = None \<and> rename_from_name D w a \<noteq> None
      then (case ww_meta W (rn_from a) of
              Inr _ \<Rightarrow> (on_pending (enqueue (ww_now W) (rn_from a) (wc_debounce (wk_config w))) w, Inr ())
            | Inl k \<Rightarrow> if k = NotFound then rename_work D W a w else (w, Inl (Io k)))
      else rename_work D W a w)"

fun process_renames :: "nat \<Rightarrow> ('db, 'p) deps \<Rightarrow> world \<Rightarrow> ('db, 'p) worker \<Rightarrow> (('db, 'p) worker \<times> unit result) option" where
  "process_renames 0 D W w = None"
| "process_renames (Suc n) D W w =
     (if cancelled W n w then Some (w, Inr ())
      else
        let w1 = on_pending (expire_renames (ww_now W)) w
        in case pd_renames (wk_pending w1) of
             [] \<Rightarrow> Some (w1, Inr ())
           | a # _ \<Rightarrow>
               (case apply_rename D W a (w1\<lparr>wk_dirty := True\<rparr>) of
                  (w2, Inl err) \<Rightarrow> Some (w2, Inl err)
                | (w2, Inr _) \<Rightarrow>
                    process_renames n D W (on_progress (clear_error (bytes_of ''rename''))
                      (on_pending (\<lambda>q. q\<lparr>pd_renames := drop 1 (pd_renames q)\<rparr>) w2))))"

section \<open>Updates\<close>

definition process_update :: "('db, 'p) deps \<Rightarrow> world \<Rightarrow> path \<Rightarrow> ('db, 'p) worker \<Rightarrow> (('db, 'p) worker \<times> unit result) option" where
  "process_update D W p w =
     (case ww_meta W p of
        Inr (FileMeta len) \<Rightarrow> ingest D W p len True w
      | Inr DirMeta \<Rightarrow> Some (enqueue_tree D W p w)
      | Inr OtherMeta \<Rightarrow> Some (w, Inr ())
      | Inl k \<Rightarrow> if k = NotFound then Some (on_progress (clear_error (path_string p)) w, Inr ()) else Some (w, Inl (Io k)))"

fun process_updates :: "nat \<Rightarrow> ('db, 'p) deps \<Rightarrow> world \<Rightarrow> ('db, 'p) worker \<Rightarrow> ('db, 'p) worker option" where
  "process_updates 0 D W w = None"
| "process_updates (Suc n) D W w =
     (if cancelled W n w then Some w
      else if has_renames (wk_pending w) then Some w
      else
        case find (\<lambda>(_, u). pu_due u \<le> ww_now W) (pd_updates (wk_pending w)) of
          None \<Rightarrow> Some w
        | Some (p, u) \<Rightarrow>
            (let w1 = on_pending (\<lambda>q. q\<lparr>pd_updates := AList.delete p (pd_updates q)\<rparr>) (w\<lparr>wk_dirty := True\<rparr>)
             in if \<not> included D w1 p then process_updates n D W (on_progress (clear_error (path_string p)) w1)
                else case process_update D W p w1 of
                       None \<Rightarrow> None
                     | Some (w2, Inr _) \<Rightarrow> process_updates n D W w2
                     | Some (w2, Inl err) \<Rightarrow> process_updates n D W (defer_error W p (pu_retry_delay u) err w2)))"

section \<open>The reconciliation scan\<close>

text \<open>The names seen, the first error of the walk and the first error of a put.\<close>

record scan_state =
  sc_seen :: "rstring set"
  sc_scan_error :: "oos_error option"
  sc_ingest_error :: "oos_error option"

definition or_first :: "oos_error \<Rightarrow> oos_error option \<Rightarrow> oos_error option" where
  "or_first e m = (case m of None \<Rightarrow> Some e | Some x \<Rightarrow> Some x)"

definition scan_file ::
    "('db, 'p) deps \<Rightarrow> world \<Rightarrow> path \<Rightarrow> u64 \<Rightarrow> scan_state \<Rightarrow> ('db, 'p) worker \<Rightarrow> (('db, 'p) worker \<times> scan_state) option" where
  "scan_file D W p len sc w0 =
     (let name = the (logical_name w0 p);
          sc1 = sc\<lparr>sc_seen := insert name (sc_seen sc)\<rparr>;
          w = on_status (\<lambda>s. s\<lparr>st_scanned_files := Suc (st_scanned_files s)\<rparr>) w0
      in if has_renames (wk_pending w) \<or> (wk_cancellable w \<and> map_of (pd_updates (wk_pending w)) p \<noteq> None)
         then Some (on_pending (or_insert p (debounced W w)) w, sc1)
         else
           let w1 = (if wk_cancellable w then w else on_pending (\<lambda>q. q\<lparr>pd_updates := AList.delete p (pd_updates q)\<rparr>) w)
           in case ingest D W p len False w1 of
                None \<Rightarrow> None
              | Some (w2, Inr _) \<Rightarrow> Some (w2, sc1)
              | Some (w2, Inl err) \<Rightarrow> Some (defer_error W p 0 err w2, sc1\<lparr>sc_ingest_error := or_first err (sc_ingest_error sc1)\<rparr>))"

fun scan_entries ::
    "('db, 'p) deps \<Rightarrow> world \<Rightarrow> (io_kind + path \<times> bool) list \<Rightarrow> scan_state \<Rightarrow> ('db, 'p) worker
       \<Rightarrow> (('db, 'p) worker \<times> scan_state result) option" where
  "scan_entries D W [] sc w = Some (w, if cancelled W 0 w then Inl (Io Interrupted) else Inr sc)"
| "scan_entries D W (entry # es) sc w =
     (if cancelled W (Suc (length es)) w then Some (w, Inl (Io Interrupted))
      else case entry of
             Inl k \<Rightarrow> scan_entries D W es (sc\<lparr>sc_scan_error := or_first (Io OtherIo) (sc_scan_error sc)\<rparr>) w
           | Inr (p, _) \<Rightarrow>
               (case ww_meta W p of
                  Inl k \<Rightarrow> scan_entries D W es (sc\<lparr>sc_scan_error := or_first (Io k) (sc_scan_error sc)\<rparr>) w
                | Inr (FileMeta len) \<Rightarrow>
                    (case scan_file D W p len sc w of None \<Rightarrow> None | Some (w1, sc1) \<Rightarrow> scan_entries D W es sc1 w1)
                | Inr _ \<Rightarrow> scan_entries D W es sc w))"

text \<open>The managed files that were not seen and do not exist.\<close>

fun missing_files :: "world \<Rightarrow> path \<Rightarrow> rstring set \<Rightarrow> rstring list \<Rightarrow> path list result" where
  "missing_files W root seen [] = Inr []"
| "missing_files W root seen (name # names) =
     (if name \<in> seen then missing_files W root seen names
      else
        let p = path_push root (components name)
        in case ww_lmeta W p of
             Inr _ \<Rightarrow> missing_files W root seen names
           | Inl k \<Rightarrow> if k = NotFound then bindE (missing_files W root seen names) (\<lambda>ps. Inr (p # ps)) else Inl (Io k))"

definition scan_walk :: "('db, 'p) deps \<Rightarrow> world \<Rightarrow> path \<Rightarrow> (io_kind + path \<times> bool) list" where
  "scan_walk D W root =
     (let rules = rules_load (dp_globs D) (ww_ignore W)
      in ww_walk W root (\<lambda>p. case strip_prefix root p of None \<Rightarrow> False
           | Some rel \<Rightarrow> rel = [] \<or> \<not> is_ignored (dp_globs D) rules rel))"

definition scan_inner :: "nat \<Rightarrow> ('db, 'p) deps \<Rightarrow> world \<Rightarrow> ('db, 'p) worker \<Rightarrow> (('db, 'p) worker \<times> oos_error option result) option" where
  "scan_inner fuel D W w =
     (let root = wc_watch_dir (wk_config w);
          generation = pd_generation (wk_pending w)
      in case ww_meta W root of
           Inl k \<Rightarrow> Some (w, Inl (Io k))
         | Inr (FileMeta _) \<Rightarrow> Some (w, Inl (Io OtherIo))
         | Inr OtherMeta \<Rightarrow> Some (w, Inl (Io OtherIo))
         | Inr DirMeta \<Rightarrow>
             (case scan_entries D W (scan_walk D W root) \<lparr>sc_seen = {}, sc_scan_error = None, sc_ingest_error = None\<rparr> w of
                None \<Rightarrow> None
              | Some (w1, Inl err) \<Rightarrow> Some (w1, Inl err)
              | Some (w1, Inr sc) \<Rightarrow>
                  (case sc_scan_error sc of
                     Some err \<Rightarrow> Some (w1, Inl err)
                   | None \<Rightarrow>
                       if sc_ingest_error sc \<noteq> None then Some (w1, Inr (sc_ingest_error sc))
                       else if has_renames (wk_pending w1) \<or> pd_generation (wk_pending w1) \<noteq> generation then Some (w1, Inr None)
                       else
                         (case bindE (list_watcher_files (dp_redb D) (eg_db (wk_engine w1)) (wk_watch_key w1)) (missing_files W root (sc_seen sc)) of
                            Inl err \<Rightarrow> Some (w1, Inl err)
                          | Inr missing \<Rightarrow>
                              (case process_renames fuel D W (on_pending (push_renames (map (\<lambda>p. \<lparr>rn_from = p, rn_to = None\<rparr>) missing)) w1) of
                                 None \<Rightarrow> None
                               | Some (w2, Inl err) \<Rightarrow> Some (w2, Inl err)
                               | Some (w2, Inr _) \<Rightarrow> Some (w2, Inr None))))))"

definition scan :: "nat \<Rightarrow> ('db, 'p) deps \<Rightarrow> world \<Rightarrow> ('db, 'p) worker \<Rightarrow> (('db, 'p) worker \<times> unit result) option" where
  "scan fuel D W w0 =
     (let w1 = on_progress (\<lambda>p. set_phase Scanning (clear_error (bytes_of ''scan'') p))
                 (w0\<lparr>wk_dirty := True, wk_rules := rules_load (dp_globs D) (ww_ignore W)\<rparr>);
          w2 = on_status (\<lambda>s. s\<lparr>st_scanned_files := 0, st_saved_files := 0, st_removed_files := 0\<rparr>) w1
      in case scan_inner fuel D W w2 of
           None \<Rightarrow> None
         | Some (w3, Inr None) \<Rightarrow> Some (on_progress refresh w3, Inr ())
         | Some (w3, Inr (Some err)) \<Rightarrow> Some (on_progress refresh w3, Inl err)
         | Some (w3, Inl err) \<Rightarrow> Some (on_progress refresh (on_progress (set_error (bytes_of ''scan'') err) w3), Inl err))"

section \<open>The loop\<close>

text \<open>Flushing the database always succeeds: every transaction is committed durably.\<close>

definition finish_work :: "world \<Rightarrow> ('db, 'p) worker \<Rightarrow> ('db, 'p) worker" where
  "finish_work W w0 =
     (if cancelled W 0 w0 then w0
      else
        let idle = pending_len (wk_pending w0) = 0;
            w = (if wk_dirty w0 \<and> idle then on_progress (clear_error (bytes_of ''flush'')) w0 else w0)
        in if has_errors (wk_progress w) then on_progress (set_phase Degraded) w
           else
             let w1 = on_progress (set_phase Watching) w
             in if wk_dirty w1 \<and> idle
                then (on_status (\<lambda>s. s\<lparr>st_last_sync_at := Some (ww_epoch W)\<rparr>) w1)\<lparr>wk_dirty := False\<rparr>
                else w1)"

text \<open>One round of the worker thread; \<open>due\<close> tells whether a scan is requested or overdue.\<close>

definition worker_round :: "nat \<Rightarrow> ('db, 'p) deps \<Rightarrow> world \<Rightarrow> bool \<Rightarrow> ('db, 'p) worker \<Rightarrow> ('db, 'p) worker option" where
  "worker_round fuel D W due w =
     (case process_renames fuel D W w of
        None \<Rightarrow> None
      | Some (w0, r) \<Rightarrow>
          (let w1 = (case r of Inl err \<Rightarrow> on_progress (set_error (bytes_of ''rename'') err) w0 | Inr _ \<Rightarrow> w0)
           in case (if due
                    then (case scan fuel D W w1 of
                            None \<Rightarrow> None
                          | Some (w2, Inr _) \<Rightarrow> Some (on_progress (clear_error (bytes_of ''events'')) w2)
                          | Some (w2, Inl _) \<Rightarrow> Some w2)
                    else Some w1) of
                None \<Rightarrow> None
              | Some w2 \<Rightarrow> map_option (finish_work W) (process_updates fuel D W w2)))"

text \<open>A manual scan, with a worker that cannot be stopped.\<close>

definition reconciliation_scan ::
    "nat \<Rightarrow> ('db, 'p) deps \<Rightarrow> world \<Rightarrow> bool \<Rightarrow> ('db, 'p) worker \<Rightarrow> (('db, 'p) worker \<times> unit result) option" where
  "reconciliation_scan fuel D W running w =
     (if running then Some (w, Inl (Internal ''Cannot run a manual scan while the watcher is running''))
      else
        case process_renames fuel D W (on_pending (\<lambda>q. q\<lparr>pd_updates := map (\<lambda>(p, u). (p, u\<lparr>pu_due := ww_now W\<rparr>)) (pd_updates q)\<rparr>) w) of
          None \<Rightarrow> None
        | Some (w1, Inl err) \<Rightarrow> Some (w1, Inl err)
        | Some (w1, Inr _) \<Rightarrow>
            (case process_updates fuel D W w1 of
               None \<Rightarrow> None
             | Some w2 \<Rightarrow>
                 (case scan fuel D W w2 of
                    None \<Rightarrow> None
                  | Some (w3, Inl err) \<Rightarrow> Some (w3, Inl err)
                  | Some (w3, Inr _) \<Rightarrow>
                      (let w4 = finish_work W w3
                       in Some (if has_errors (wk_progress w4) then w4 else on_progress (set_phase Stopped) w4, Inr ())))))"

section \<open>Starting\<close>

text \<open>\<^verbatim>\<open>normalized_root\<close>: the watched directory and the store must not contain each other.\<close>

definition normalized_root :: "(path \<Rightarrow> io_kind + path) \<Rightarrow> (path \<Rightarrow> bool) \<Rightarrow> path \<Rightarrow> path \<Rightarrow> path result" where
  "normalized_root canonicalize is_directory store_dir p =
     bindE (map_err Io (canonicalize p)) (\<lambda>c.
     let root = lexical_path c
     in if \<not> is_directory root then Inl (Internal ''Watched path is not a directory'')
        else
          bindE (map_err Io (canonicalize store_dir)) (\<lambda>sc.
          let store = lexical_path sc
          in if starts_with root store \<or> starts_with store root
             then Inl (Internal ''Watched directory must not overlap OOS-Lite store'')
             else Inr root))"

text \<open>\<^verbatim>\<open>WatcherService\<close>: what outlives a worker.\<close>

record 'db service =
  sv_engine :: "'db engine"
  sv_config :: watcher_config
  sv_running :: bool
  sv_pending :: pending
  sv_progress :: progress

definition service_new :: "'db engine \<Rightarrow> watcher_config \<Rightarrow> 'db service" where
  "service_new e c = \<lparr>sv_engine = e, sv_config = c, sv_running = False, sv_pending = pending_default, sv_progress = progress_new\<rparr>"

definition service_worker ::
    "'p globs \<Rightarrow> (path \<Rightarrow> io_kind + path) \<Rightarrow> (path \<Rightarrow> bool) \<Rightarrow> path \<Rightarrow> rstring option \<Rightarrow> bool \<Rightarrow> 'db service \<Rightarrow> ('db, 'p) worker result" where
  "service_worker G canonicalize is_directory store_dir ignore_text cancellable sv =
     bindE (normalized_root canonicalize is_directory store_dir (wc_watch_dir (sv_config sv))) (\<lambda>root.
     bindE (map_err Io (canonicalize root)) (\<lambda>key.
     Inr \<lparr>wk_engine = sv_engine sv, wk_config = (sv_config sv)\<lparr>wc_watch_dir := root\<rparr>, wk_rules = rules_load G ignore_text,
          wk_watch_key = path_string key, wk_pending = sv_pending sv, wk_progress = sv_progress sv, wk_last_synced = [],
          wk_cancellable = cancellable, wk_dirty = True\<rparr>))"

text \<open>
  \<^verbatim>\<open>start\<close> up to the threads: \<open>watch\<close> is the answer of the notification crate.  The worker thread then works
  off renames and scans once, whatever comes of it, before its rounds.
\<close>

definition service_start :: "(path \<Rightarrow> unit result) \<Rightarrow> ('db, 'p) worker \<Rightarrow> 'db service \<Rightarrow> 'db service \<times> ('db, 'p) worker result" where
  "service_start watch w sv =
     (case watch (wc_watch_dir (wk_config w)) of
        Inl err \<Rightarrow> (sv, Inl err)
      | Inr _ \<Rightarrow>
          if sv_running sv then (sv, Inl (Internal ''Watcher service is already running''))
          else
            let p = set_phase Scanning (refresh ((sv_progress sv)\<lparr>pg_errors := []\<rparr>))
            in (sv\<lparr>sv_running := True, sv_pending := pending_default, sv_progress := p\<rparr>,
                Inr (w\<lparr>wk_pending := pending_default, wk_progress := p\<rparr>)))"

definition first_round :: "nat \<Rightarrow> ('db, 'p) deps \<Rightarrow> world \<Rightarrow> ('db, 'p) worker \<Rightarrow> ('db, 'p) worker option" where
  "first_round fuel D W w = Option.bind (process_renames fuel D W w) (\<lambda>(w1, _). map_option fst (scan fuel D W w1))"

definition handle_status :: "'db service \<Rightarrow> watcher_status" where
  "handle_status sv = (pg_status (sv_progress sv))\<lparr>st_pending_files := pending_len (sv_pending sv)\<rparr>"

definition handle_shutdown :: "'db service \<Rightarrow> 'db service" where
  "handle_shutdown sv =
     (let sv1 = sv\<lparr>sv_progress := set_phase Stopping (sv_progress sv), sv_running := False\<rparr>
      in sv1\<lparr>sv_progress := set_phase Stopped (sv_progress sv1)\<rparr>)"

end
