(* ===== verification/Oos_Watcher_Scan.thy ===== *)
theory Oos_Watcher_Scan
  imports Oos_Watcher_Safe Oos_Engine_Refine
begin

text \<open>
  The reconciliation scan unbinds a name only when the file is gone: after a complete walk, and only
  names at or below a managed path that does not exist.
\<close>

section \<open>Bound names\<close>

definition bound :: "('db \<Rightarrow> tables) \<Rightarrow> ('db, 'p) worker \<Rightarrow> rstring set" where
  "bound V w = dom (V (eg_db (wk_engine w)) NAME_INDEX)"

lemma bound_simps [simp]:
  "bound V (on_progress f w) = bound V w" "bound V (on_pending g w) = bound V w" "bound V (on_status h w) = bound V w"
  "bound V (w\<lparr>wk_dirty := d\<rparr>) = bound V w" "bound V (w\<lparr>wk_last_synced := l\<rparr>) = bound V w" "bound V (w\<lparr>wk_rules := rs\<rparr>) = bound V w"
  by (simp_all add: bound_def worker_defs)

lemma config_simps [simp]:
  "wk_config (on_progress f w) = wk_config w" "wk_config (on_pending g w) = wk_config w" "wk_config (on_status h w) = wk_config w"
  by (simp_all add: worker_defs)

lemma put_keeps_names:
  assumes R: "redb_ok R V" and p: "put_file_named X R P name src e = Some (e', r)"
  shows "dom (V (eg_db e) NAME_INDEX) \<subseteq> dom (V (eg_db e') NAME_INDEX)"
proof -
  have st: "dom (T NAME_INDEX) \<subseteq> dom (T' NAME_INDEX)" if "T' \<in> set (put_stages X put T)" for T T' put
    using that by (auto simp: put_stages_def put_tables_def put_name_table_def put_manifest_table_def put_object_table_cong set_entry_def)
  show ?thesis using p
  proof (cases rule: put_file_named_split)
    case (stored s' rd)
    from stored(2) show ?thesis
    proof (cases rule: put_commit_split)
      case (target err)
      then show ?thesis using put_target_state [OF target(1)] by simp
    next
      case (append i ver err)
      then show ?thesis using on_wal_append(1) [OF append(2)] by simp
    next
      case (applying i ver lsn e1 err)
      then show ?thesis using on_wal_append(1) [OF applying(2)] apply_put_stages [OF R applying(3)] st by fastforce
    next
      case (committed i ver lsn e1 mid e2 ps)
      then show ?thesis using on_wal_append(1) [OF committed(2)] apply_put_stages [OF R committed(3)] st by fastforce
    qed
  qed auto
qed

lemma mark_managed_bound:
  assumes R: "redb_ok (dp_redb D) V" and m: "mark_managed D name w = (w', r)"
  shows "bound V w' = bound V w"
  using m write_value_view [OF R]
  by (auto simp: mark_managed_def on_engine_def set_db_def mark_watcher_file_def bound_def set_entry_def split: sum.splits prod.splits)

lemma ingest_put_bound:
  assumes R: "redb_ok (dp_redb D) V" and i: "ingest_put D W name p c w = Some (w', r)"
  shows "bound V w \<subseteq> bound V w'"
proof -
  obtain e r0 where p: "put_file_named (dp_ext D) (dp_redb D) (ww_penv W p) name (ww_source W p) (wk_engine w) = Some (e, r0)"
    using i by (auto simp: ingest_put_def split: option.splits)
  have le: "bound V w \<subseteq> bound V (w\<lparr>wk_engine := e\<rparr>)" using put_keeps_names [OF R p] by (simp add: bound_def)
  obtain w1 r1 where m: "mark_managed D name (w\<lparr>wk_engine := e\<rparr>) = (w1, r1)" by fastforce
  from mark_managed_bound [OF R m] le i p m show ?thesis
    by (auto simp: ingest_put_def Let_def split: sum.splits if_splits)
qed

lemma ingest_bound:
  assumes R: "redb_ok (dp_redb D) V" and i: "ingest D W p len c w = Some (w', r)"
  shows "bound V w \<subseteq> bound V w'"
  using i ingest_put_bound [OF R]
  by (auto simp: ingest_def dest!: mark_managed_bound [OF R] split: option.splits sum.splits prod.splits if_splits)

lemma defer_error_engine [simp]: "bound V (defer_error W p prev err w) = bound V w" "wk_config (defer_error W p prev err w) = wk_config w"
  by (simp_all add: defer_error_def Let_def)

lemma scan_file_bound:
  assumes R: "redb_ok (dp_redb D) V" and s: "scan_file D W p len sc w = Some (w', sc')"
  shows "bound V w \<subseteq> bound V w'" "wk_config w' = wk_config w" "sc_scan_error sc' = sc_scan_error sc"
proof -
  have i: "bound V w0 \<subseteq> bound V w1 \<and> wk_config w1 = wk_config w0" if "ingest D W p len False w0 = Some (w1, r)" for w0 w1 r
    using ingest_bound [OF R that] ingest_later [OF that] by (auto simp: later_def)
  show "bound V w \<subseteq> bound V w'" "wk_config w' = wk_config w" "sc_scan_error sc' = sc_scan_error sc"
    using s by (auto simp: scan_file_def Let_def dest!: i split: option.splits sum.splits if_splits) blast+
qed

text \<open>The walk met no error, and every file it found has metadata.\<close>

definition walk_complete :: "world \<Rightarrow> (io_kind + path \<times> bool) list \<Rightarrow> bool" where
  "walk_complete W es \<longleftrightarrow> list_all (\<lambda>en. case en of Inl _ \<Rightarrow> False | Inr (p, _) \<Rightarrow> \<exists>m. ww_meta W p = Inr m) es"

lemma scan_entries_bound:
  assumes R: "redb_ok (dp_redb D) V"
  shows "scan_entries D W es sc w = Some (w', r) \<Longrightarrow> bound V w \<subseteq> bound V w' \<and> wk_config w' = wk_config w
    \<and> (\<forall>sc'. r = Inr sc' \<longrightarrow> sc_scan_error sc' = None \<longrightarrow> sc_scan_error sc = None \<and> walk_complete W es)"
proof (induction es arbitrary: sc w)
  case (Cons entry es)
  show ?case
  proof (cases "cancelled W (Suc (length es)) w")
    case False
    note s = Cons.prems [unfolded scan_entries.simps if_not_P [OF False]]
    show ?thesis
    proof (cases entry)
      case (Inl k)
      with s have "scan_entries D W es (sc\<lparr>sc_scan_error := or_first (Io OtherIo) (sc_scan_error sc)\<rparr>) w = Some (w', r)" by simp
      from Cons.IH [OF this] show ?thesis by (auto simp: or_first_def split: option.splits)
    next
      case (Inr pb)
      obtain p b where pb: "pb = (p, b)" by (cases pb)
      show ?thesis
      proof (cases "ww_meta W p")
        case (Inl k)
        with s Inr pb have "scan_entries D W es (sc\<lparr>sc_scan_error := or_first (Io k) (sc_scan_error sc)\<rparr>) w = Some (w', r)" by simp
        from Cons.IH [OF this] show ?thesis by (auto simp: or_first_def split: option.splits)
      next
        case meta: (Inr m)
        have c: "walk_complete W (entry # es) = walk_complete W es" using meta Inr pb by (simp add: walk_complete_def)
        show ?thesis
        proof (cases m)
          case (FileMeta len)
          then obtain w1 sc1 where f: "scan_file D W p len sc w = Some (w1, sc1)" and rest: "scan_entries D W es sc1 w1 = Some (w', r)"
            using s Inr pb meta by (auto split: option.splits)
          from Cons.IH [OF rest] scan_file_bound [OF R f] c show ?thesis by auto
        qed (use Cons.IH [of sc w] s Inr pb meta c in auto)
      qed
    qed
  qed (use Cons.prems in auto)
qed (auto simp: walk_complete_def split: if_splits)

lemma missing_files_gone: "missing_files W root seen names = Inr ps \<Longrightarrow> p \<in> set ps \<Longrightarrow> ww_lmeta W p = Inl NotFound"
  by (induction names arbitrary: ps) (auto simp: Let_def bindE_eq_Inr split: if_splits sum.splits)

section \<open>Unbinding\<close>

lemma watched_changes_below:
  "watched_changes tracked a b incl names = Inr cs \<Longrightarrow> (n, t) \<in> set cs \<Longrightarrow> watched_suffix a n \<noteq> None"
  by (induction names arbitrary: cs) (auto simp: Let_def bindE_eq_Inr split: option.splits if_splits)

lemma unbind_changes_names:
  assumes R: "redb_ok R V"
  shows "unbind_changes R root cs tx = Inr (tx', moved) \<Longrightarrow> dom (V tx NAME_INDEX) - fst ` set cs \<subseteq> dom (V tx' NAME_INDEX)"
proof (induction cs arbitrary: tx tx' moved)
  case (Cons c cs)
  obtain old new where c: "c = (old, new)" by (cases c)
  obtain tx1 i tx2 j moved' where u: "rd_remove R tx NAME_INDEX old = Inr (tx1, i)"
    "rd_remove R tx1 WATCHER_FILES (watcher_file_key root old) = Inr (tx2, j)" "unbind_changes R root cs tx2 = Inr (tx', moved')"
    using Cons.prems c by (auto simp: bindE_eq_Inr)
  have "dom (V tx2 NAME_INDEX) = dom (V tx NAME_INDEX) - {old}"
    using redb_okD(7) [OF R u(1)] redb_okD(7) [OF R u(2)] by (auto simp: set_entry_def)
  with Cons.IH [OF u(3)] show ?case using c by (simp, blast)
qed simp

lemma bind_moved_names:
  assumes R: "redb_ok R V"
  shows "foldE (bind_moved R root) tx moved = Inr tx' \<Longrightarrow> dom (V tx NAME_INDEX) \<subseteq> dom (V tx' NAME_INDEX)"
  by (induction moved arbitrary: tx)
    (fastforce simp: bindE_eq_Inr bind_moved_def set_entry_def dest!: redb_okD(6) [OF R] split: option.splits prod.splits)+

lemma update_watched_names:
  assumes R: "redb_ok R V" and u: "update_watched_prefix R root a b incl e = (e', r)"
  shows "dom (V (eg_db e) NAME_INDEX) - {n. watched_suffix a n \<noteq> None} \<subseteq> dom (V (eg_db e') NAME_INDEX)"
proof (cases "e' = e")
  case False
  then have "\<exists>tracked names cs db' k. watched_changes tracked a b incl names = Inr cs
      \<and> update_watcher_bindings R (eg_db e) root cs = Inr (db', k) \<and> eg_db e' = db'"
    using u by (auto simp: update_watched_prefix_def ask_db_apply bindS_def on_db_def returnS_def split: sum.splits prod.splits) blast
  then obtain tracked names cs db' k where w: "watched_changes tracked a b incl names = Inr cs"
    "update_watcher_bindings R (eg_db e) root cs = Inr (db', k)" "eg_db e' = db'" by blast
  obtain tx1 tx2 tx3 moved where tx: "rd_begin_write R (eg_db e) = Inr tx1" "unbind_changes R root cs tx1 = Inr (tx2, moved)"
    "foldE (bind_moved R root) tx2 moved = Inr tx3" "rd_commit R tx3 = Inr db'"
    using w(2) by (auto simp: update_watcher_bindings_def bindE_eq_Inr)
  have "fst ` set cs \<subseteq> {n. watched_suffix a n \<noteq> None}" using watched_changes_below [OF w(1)] by auto
  moreover have "dom (V (eg_db e) NAME_INDEX) - fst ` set cs \<subseteq> dom (V (eg_db e') NAME_INDEX)"
    using unbind_changes_names [OF R tx(2)] bind_moved_names [OF R tx(3)]
    unfolding redb_okD(5) [OF R tx(1)] redb_okD(8) [OF R tx(4)] w(3) by (rule subset_trans)
  ultimately show ?thesis by blast
qed simp

section \<open>Renames\<close>

text \<open>The names at or below a path that does not exist.\<close>

definition gone :: "world \<Rightarrow> ('db, 'p) worker \<Rightarrow> rstring set" where
  "gone W w = {n. \<exists>p name. ww_lmeta W p = Inl NotFound \<and> ww_meta W p = Inl NotFound
     \<and> logical_name w p = Some name \<and> watched_suffix name n \<noteq> None}"

lemma gone_cong: "wk_config w' = wk_config w \<Longrightarrow> gone W w' = gone W w"
  by (simp add: gone_def logical_name_def)

text \<open>Only removals of missing paths are queued.\<close>

definition removals :: "world \<Rightarrow> ('db, 'p) worker \<Rightarrow> bool" where
  "removals W w \<longleftrightarrow> list_all (\<lambda>a. rn_to a = None \<and> ww_lmeta W (rn_from a) = Inl NotFound) (pd_renames (wk_pending w))
     \<and> pd_tracked_from (wk_pending w) = [] \<and> pd_untracked_from (wk_pending w) = []"

lemma removals_expire: "removals W w \<Longrightarrow> on_pending (expire_renames now) w = w"
  by (simp add: removals_def on_pending_def expire_renames_def push_renames_def)

text \<open>What a step on the queue leaves alone.\<close>

definition same_renames :: "('db, 'p) worker \<Rightarrow> ('db, 'p) worker \<Rightarrow> bool" where
  "same_renames w w' \<longleftrightarrow> wk_config w' = wk_config w \<and> pd_renames (wk_pending w') = pd_renames (wk_pending w)
     \<and> pd_tracked_from (wk_pending w') = pd_tracked_from (wk_pending w) \<and> pd_untracked_from (wk_pending w') = pd_untracked_from (wk_pending w)
     \<and> wk_engine w' = wk_engine w"

lemma same_renames_refl [simp]: "same_renames w w"
  by (simp add: same_renames_def)

lemma same_renames_trans: "same_renames w w' \<Longrightarrow> same_renames w' w'' \<Longrightarrow> same_renames w w''"
  by (simp add: same_renames_def)

lemma remap_update_same: "same_renames w (remap_update D a w old)"
  by (auto simp: remap_update_def same_renames_def worker_defs Let_def split: option.splits)

lemma remap_change_same: "same_renames w (remap_change W w c)"
  by (auto simp: remap_change_def same_renames_def worker_defs or_insert_def Let_def split: option.splits prod.splits)

lemma foldl_same: "(\<And>w x. same_renames w (f w x)) \<Longrightarrow> same_renames w (foldl f w xs)"
  by (induction xs arbitrary: w) (auto intro: same_renames_trans)

lemma apply_removal:
  assumes R: "redb_ok (dp_redb D) V" and a: "rn_to a = None" "ww_lmeta W (rn_from a) = Inl NotFound"
    and r: "apply_rename D W a w = (w', r)"
  shows "bound V w - gone W w \<subseteq> bound V w'" "same_renames (w\<lparr>wk_engine := wk_engine w'\<rparr>) w'"
proof -
  have "bound V w - gone W w \<subseteq> bound V w' \<and> same_renames (w\<lparr>wk_engine := wk_engine w'\<rparr>) w'" if wk: "rename_work D W a w = (w', r)"
    "rename_from_name D w a \<noteq> None \<Longrightarrow> ww_meta W (rn_from a) = Inl NotFound"
  proof -
    obtain w1 r1 where c: "rename_changes D a w = (w1, r1)" by fastforce
    have 1: "bound V w - gone W w \<subseteq> bound V w1 \<and> w1 = w\<lparr>wk_engine := wk_engine w1\<rparr>"
    proof (cases "rename_from_name D w a")
      case (Some from_name)
      obtain e1 where u: "update_watched_prefix (dp_redb D) (wk_watch_key w) from_name (rename_to_name D w a) (\<lambda>name. \<not> ignored_name D w name) (wk_engine w) = (e1, r1)"
        "w1 = w\<lparr>wk_engine := e1\<rparr>" using c Some by (auto simp: rename_changes_def on_engine_def split: prod.splits)
      have "logical_name w (rn_from a) = Some from_name" using Some by (auto simp: rename_from_name_def split: if_splits)
      then have "{n. watched_suffix from_name n \<noteq> None} \<subseteq> gone W w" using a(2) wk(2) Some by (auto simp: gone_def)
      then show ?thesis using update_watched_names [OF R u(1)] u(2) by (simp add: bound_def) blast
    qed (use c in \<open>simp add: rename_changes_def\<close>)
    have "same_renames w1 w'"
    proof (cases r1)
      case (Inl err)
      then show ?thesis using wk(1) c by (simp add: rename_work_def bindS_def)
    next
      case (Inr cs)
      let ?w2 = "foldl (remap_update D a) w1 (filter (\<lambda>p. starts_with p (rn_from a)) (map fst (pd_updates (wk_pending w1))))"
      let ?w3 = "foldl (remap_change W) ?w2 cs"
      have "same_renames w1 ?w3"
        by (rule same_renames_trans [OF foldl_same [OF remap_update_same] foldl_same [OF remap_change_same]])
      then show ?thesis using wk(1) c Inr a(1)
        by (auto simp: rename_work_def bindS_def Let_def enqueue_target_def same_renames_def on_status_def on_progress_def)
    qed
    then show ?thesis using 1 by (auto simp: same_renames_def bound_def)
  qed
  then show "bound V w - gone W w \<subseteq> bound V w'" "same_renames (w\<lparr>wk_engine := wk_engine w'\<rparr>) w'"
    using r a(1) by (auto simp: apply_rename_def same_renames_def on_pending_def enqueue_def bound_def split: if_splits sum.splits)
qed

lemma process_removals:
  assumes R: "redb_ok (dp_redb D) V"
  shows "process_renames n D W w = Some (w', r) \<Longrightarrow> removals W w \<Longrightarrow> bound V w - gone W w \<subseteq> bound V w'"
proof (induction n arbitrary: w)
  case (Suc n)
  show ?case
  proof (cases "cancelled W n w \<or> pd_renames (wk_pending w) = []")
    case True
    then show ?thesis using Suc.prems removals_expire [OF Suc.prems(2)] by (auto split: if_splits)
  next
    case False
    then obtain a as where a: "pd_renames (wk_pending w) = a # as" by (auto simp: neq_Nil_conv)
    obtain w2 r2 where ap: "apply_rename D W a (w\<lparr>wk_dirty := True\<rparr>) = (w2, r2)" by fastforce
    have "rn_to a = None" "ww_lmeta W (rn_from a) = Inl NotFound" using Suc.prems(2) a by (simp_all add: removals_def)
    note a' = apply_removal [OF R this ap]
    have b: "bound V w - gone W w \<subseteq> bound V w2" using a'(1) gone_cong [of "w\<lparr>wk_dirty := True\<rparr>" w W] by simp
    have cfg: "wk_config w2 = wk_config w" using a'(2) by (simp add: same_renames_def)
    let ?w3 = "on_progress (clear_error (bytes_of ''rename'')) (on_pending (\<lambda>q. q\<lparr>pd_renames := drop 1 (pd_renames q)\<rparr>) w2)"
    show ?thesis
    proof (cases r2)
      case (Inl err)
      then show ?thesis using Suc.prems(1) False a ap b removals_expire [OF Suc.prems(2)] by simp
    next
      case (Inr u)
      then have "process_renames n D W ?w3 = Some (w', r)" using Suc.prems(1) False a ap removals_expire [OF Suc.prems(2)] by simp
      moreover have "removals W ?w3" using Suc.prems(2) a a'(2) by (simp add: removals_def same_renames_def worker_defs)
      ultimately have "bound V ?w3 - gone W ?w3 \<subseteq> bound V w'" by (rule Suc.IH)
      then show ?thesis using b gone_cong [of ?w3 w W] cfg by auto
    qed
  qed
qed simp

section \<open>The scan\<close>

lemma strip_prefixD: "strip_prefix p s = Some t \<Longrightarrow> s = p @ t"
  by (auto simp: strip_prefix_def starts_with_def split: if_splits) (metis append_take_drop_id)

lemma watched_below: "watched_suffix a n \<noteq> None \<Longrightarrow> a = [] \<or> n = a \<or> starts_with n (a @ [47])"
  by (auto simp: watched_suffix_def bind_eq_Some_conv starts_with_def dest!: strip_prefixD split: if_splits)

lemma scan_inner_bound:
  assumes R: "redb_ok (dp_redb D) V" and s: "scan_inner n D W w = Some (w', r)" and lost: "x \<in> bound V w" "x \<notin> bound V w'"
  shows "walk_complete W (scan_walk D W (wc_watch_dir (wk_config w)))" "x \<in> gone W w"
proof -
  have "w' \<noteq> w" using lost by auto
  then obtain w1 r1 where en: "scan_entries D W (scan_walk D W (wc_watch_dir (wk_config w))) \<lparr>sc_seen = {}, sc_scan_error = None, sc_ingest_error = None\<rparr> w = Some (w1, r1)"
    using s by (auto simp: scan_inner_def Let_def split: option.splits sum.splits file_meta.splits)
  note e = scan_entries_bound [OF R en]
  have "w' \<noteq> w1" using lost e by auto
  then obtain sc ps names where r1: "r1 = Inr sc" "sc_scan_error sc = None" and hr: "\<not> has_renames (wk_pending w1)"
    and ms: "missing_files W (wc_watch_dir (wk_config w)) (sc_seen sc) names = Inr ps"
    and pr: "\<exists>r2. process_renames n D W (on_pending (push_renames (map (\<lambda>p. \<lparr>rn_from = p, rn_to = None\<rparr>) ps)) w1) = Some (w', r2)"
    using s en \<open>w' \<noteq> w\<close>
    by (auto simp: scan_inner_def Let_def bindE_def split: option.splits sum.splits file_meta.splits if_splits)
  have ps: "\<forall>p\<in>set ps. ww_lmeta W p = Inl NotFound" using missing_files_gone [OF ms] by blast
  show "walk_complete W (scan_walk D W (wc_watch_dir (wk_config w)))" using e r1 by auto
  let ?w2 = "on_pending (push_renames (map (\<lambda>p. \<lparr>rn_from = p, rn_to = None\<rparr>) ps)) w1"
  have "removals W ?w2" using hr ps by (auto simp: removals_def has_renames_def on_pending_def push_renames_def list_all_iff)
  with pr process_removals [OF R] have "bound V ?w2 - gone W ?w2 \<subseteq> bound V w'" by blast
  then show "x \<in> gone W w" using lost e gone_cong [of ?w2 w W] by auto
qed

lemma scan_scan_inner:
  assumes "scan n D W w = Some (w', r)"
  obtains w2 w3 r3 where "scan_inner n D W w2 = Some (w3, r3)" "wk_config w2 = wk_config w" "bound V w2 = bound V w" "bound V w' = bound V w3"
proof -
  let ?w2 = "on_status (\<lambda>s. s\<lparr>st_scanned_files := 0, st_saved_files := 0, st_removed_files := 0\<rparr>)
    (on_progress (\<lambda>p. set_phase Scanning (clear_error (bytes_of ''scan'') p)) (w\<lparr>wk_dirty := True, wk_rules := rules_load (dp_globs D) (ww_ignore W)\<rparr>))"
  obtain w3 r3 where i: "scan_inner n D W ?w2 = Some (w3, r3)" using assms by (auto simp: scan_def Let_def split: option.splits)
  have "bound V w' = bound V w3" using assms i by (auto simp: scan_def Let_def split: sum.splits option.splits)
  then show ?thesis using that [OF i] by simp
qed

section \<open>An example\<close>

text \<open>One managed file is stored, and the watched directory is empty.\<close>

definition demo_record :: object_record where
  "demo_record = rec_new 0 (ObjectId (replicate 16 1)) [] 0"

definition lost_db :: demo_db where
  "lost_db = demo_empty(NAME_INDEX := RBT.insert [97] (replicate 16 1) RBT.empty,
     OBJECT_INDEX := RBT.insert (replicate 16 1) (rec_to_bytes demo_record) RBT.empty,
     WATCHER_FILES := RBT.insert [107, 0, 97] [] RBT.empty)"

definition demo_root :: path where "demo_root = [RootDir, Normal [119]]"

definition lost_world :: world where
  "lost_world = \<lparr>ww_meta = \<lambda>p. if p = demo_root then Inr DirMeta else Inl NotFound,
     ww_lmeta = \<lambda>p. if p = demo_root then Inr () else Inl NotFound, ww_walk = \<lambda>root _. [Inr (root, False)],
     ww_read = \<lambda>_. Inl (Io NotFound), ww_source = \<lambda>_. demo_source, ww_penv = \<lambda>_. demo_penv, ww_ignore = None,
     ww_now = 0, ww_epoch = 0, ww_stop = \<lambda>_. False\<rparr>"

definition lost_worker :: "seg_store \<Rightarrow> wal \<Rightarrow> (demo_db, unit) worker" where
  "lost_worker ss wl = \<lparr>wk_engine = \<lparr>eg_segments = ss, eg_db = lost_db, eg_wal = wl, eg_vault_key = None\<rparr>,
     wk_config = watcher_config_new demo_root, wk_rules = [], wk_watch_key = [107], wk_pending = pending_default,
     wk_progress = progress_new, wk_last_synced = [], wk_cancellable = True, wk_dirty = False\<rparr>"

definition lost_deps :: "(demo_db, unit) deps" where
  "lost_deps = \<lparr>dp_ext = demo_ext, dp_redb = demo_redb, dp_globs = \<lparr>gl_new = \<lambda>_. None, gl_matches = \<lambda>_ _. False\<rparr>\<rparr>"

lemma single_entries: "sorted_wrt (<) (map fst xs) \<Longrightarrow> map_of xs = [k \<mapsto> v] \<Longrightarrow> xs = [(k :: bytes, v)]"
proof (cases xs)
  case (Cons x ys)
  assume s: "sorted_wrt (<) (map fst xs)" and m: "map_of xs = [k \<mapsto> v]"
  have "map_of xs (fst x) = Some (snd x)" using Cons by (cases x) simp
  then have x: "x = (k, v)" using m by (cases x) (auto split: if_splits)
  have "\<forall>y\<in>set ys. fst y = k"
  proof
    fix y assume "y \<in> set ys"
    then show "fst y = k" using m Cons weak_map_of_SomeI [of "fst y" "snd y" xs] by (auto split: if_splits)
  qed
  then have "ys = []" using s Cons x by (cases ys) auto
  then show ?thesis using Cons x by simp
qed (auto simp: fun_eq_iff split: if_splits)

lemma rbt_single: "RBT.entries (RBT.insert k v RBT.empty) = [(k :: bytes, v :: bytes)]"
  by (rule single_entries) (simp_all add: strict_sorted_entries)

lemma no_rules: "gl_new G = (\<lambda>_. None) \<Longrightarrow> rules_load G None = []"
proof -
  assume "gl_new G = (\<lambda>_. None)"
  then have "add_pattern G ps s = ps" for ps s by (simp add: add_pattern_def push_pattern_def Let_def)
  then have "foldl (add_pattern G) [] xs = []" for xs by (induction xs) simp_all
  then show ?thesis by (simp add: rules_load_def default_rules_def)
qed

lemma lost_listed:
  "list_watcher_files demo_redb lost_db [107] = Inr [[97]]"
  "list_named_objects demo_redb lost_db = Inr [([97], ObjectId (replicate 16 1), demo_record)]"
proof -
  have "starts_with [107, 0, 97 :: 8 word] [107, 0]" "[107, 0] \<le> [107, 0, 97 :: 8 word]" "from_utf8_lossy [97] = [97]" by code_simp+
  then show "list_watcher_files demo_redb lost_db [107] = Inr [[97]]"
    by (simp add: list_watcher_files_def watcher_file_prefix_def demo_redb_def lost_db_def rbt_single redbE_def bindE_def)
  have "wf_record demo_record" unfolding demo_record_def by (rule wf_record_new) (simp_all add: wf_oid_def)
  then show "list_named_objects demo_redb lost_db = Inr [([97], ObjectId (replicate 16 1), demo_record)]"
    using \<open>from_utf8_lossy [97] = [97]\<close>
    by (simp add: list_named_objects_def get_object_def read_value_def demo_redb_def lost_db_def rbt_single redbE_def bindE_def oid_from_raw_def
        decode_value_def rec_from_to_bytes)
qed

lemma lost_update:
  "\<exists>db. update_watched_prefix demo_redb [107] [97] None incl \<lparr>eg_segments = ss, eg_db = lost_db, eg_wal = wl, eg_vault_key = None\<rparr>
     = (\<lparr>eg_segments = ss, eg_db = db, eg_wal = wl, eg_vault_key = None\<rparr>, Inr [([97], None)]) \<and> demo_view db NAME_INDEX [97] = None"
proof -
  have c: "watched_changes {[97]} [97] None incl [[97]] = Inr [([97], None)]" by (simp add: watched_suffix_def bindE_def)
  obtain db where "update_watcher_bindings demo_redb lost_db [107] [([97], None)] = Inr (db, 1)" "demo_view db NAME_INDEX [97] = None"
    by (simp add: update_watcher_bindings_def demo_redb_def bindE_def redbE_def demo_view_def lost_db_def bind_moved_def)
  then show ?thesis using c by (simp del: watched_changes.simps add: update_watched_prefix_def ask_db_apply lost_listed bindS_def on_db_def returnS_def)
qed

lemma lost_paths:
  "components [97] = [Normal [97]]" "path_string [Normal [97]] = [97]" "backslashes [97] = [97]"
  "starts_with [RootDir, Normal [119], Normal [97]] [RootDir, Normal [119 :: 8 word]]"
  by code_simp+

text \<open>The scan, from the inside out.\<close>

definition lost_state :: "seg_store \<Rightarrow> wal \<Rightarrow> (demo_db, unit) worker \<Rightarrow> bool" where
  "lost_state ss wl w \<longleftrightarrow> wk_engine w = \<lparr>eg_segments = ss, eg_db = lost_db, eg_wal = wl, eg_vault_key = None\<rparr>
     \<and> wc_watch_dir (wk_config w) = demo_root \<and> wk_rules w = [] \<and> wk_watch_key w = [107] \<and> wk_pending w = pending_default"

abbreviation demo_path :: path where "demo_path \<equiv> [RootDir, Normal [119], Normal [97]]"

abbreviation lost_action :: rename_action where "lost_action \<equiv> \<lparr>rn_from = demo_path, rn_to = None\<rparr>"

lemma lost_apply:
  assumes w: "lost_state ss wl (on_pending (\<lambda>_. pending_default) w)" and q: "pd_updates (wk_pending w) = []"
  obtains w1 where "apply_rename lost_deps lost_world lost_action w = (w1, Inr ())" "demo_view (eg_db (wk_engine w1)) NAME_INDEX [97] = None"
    "wk_pending w1 = wk_pending w"
proof -
  obtain db where u: "update_watched_prefix demo_redb [107] [97] None (\<lambda>name. True) \<lparr>eg_segments = ss, eg_db = lost_db, eg_wal = wl, eg_vault_key = None\<rparr>
     = (\<lparr>eg_segments = ss, eg_db = db, eg_wal = wl, eg_vault_key = None\<rparr>, Inr [([97], None)])" "demo_view db NAME_INDEX [97] = None"
    using lost_update [of "\<lambda>name. True" ss wl] by auto
  have l: "logical_name w demo_path = Some [97]" using w lost_paths by (simp add: logical_name_def strip_prefix_def lost_state_def on_pending_def demo_root_def)
  have ig: "\<not> ignored_name lost_deps w name" for name using w by (simp add: ignored_name_def is_ignored_def lost_state_def on_pending_def)
  have f: "rename_from_name lost_deps w lost_action = Some [97]" using l ig by (simp add: rename_from_name_def included_def)
  have c: "rename_changes lost_deps lost_action w = (w\<lparr>wk_engine := \<lparr>eg_segments = ss, eg_db = db, eg_wal = wl, eg_vault_key = None\<rparr>\<rparr>, Inr [([97], None)])"
    using f ig u(1) w by (simp add: rename_changes_def on_engine_def rename_to_name_def lost_state_def on_pending_def lost_deps_def)
  have "ww_meta lost_world demo_path = Inl NotFound" by (simp add: lost_world_def demo_root_def)
  then have "\<exists>w1. apply_rename lost_deps lost_world lost_action w = (w1, Inr ()) \<and> demo_view (eg_db (wk_engine w1)) NAME_INDEX [97] = None
      \<and> wk_pending w1 = wk_pending w"
    using f c q u(2) by (auto simp: apply_rename_def rename_work_def bindS_def enqueue_target_def remap_change_def Let_def worker_defs split: option.splits)
  then show ?thesis using that by blast
qed

lemma lost_renames:
  assumes w: "lost_state ss wl w"
  obtains w1 r where "process_renames 2 lost_deps lost_world (on_pending (push_renames [lost_action]) w) = Some (w1, r)"
    "demo_view (eg_db (wk_engine w1)) NAME_INDEX [97] = None"
proof -
  let ?w = "on_pending (push_renames [lost_action]) w"
  have stop: "\<not> cancelled lost_world k v" for k v by (simp add: cancelled_def lost_world_def)
  have e: "on_pending (expire_renames t) ?w = ?w" for t
    using w by (simp add: worker_defs expire_renames_def lost_state_def pending_default_def push_renames_def)
  have p: "wk_pending (?w\<lparr>wk_dirty := True\<rparr>) = pending_default\<lparr>pd_renames := [lost_action]\<rparr>"
    using w by (simp add: on_pending_def lost_state_def pending_default_def push_renames_def)
  have "lost_state ss wl (on_pending (\<lambda>_. pending_default) (?w\<lparr>wk_dirty := True\<rparr>))" using w by (simp add: on_pending_def lost_state_def)
  moreover have "pd_updates (wk_pending (?w\<lparr>wk_dirty := True\<rparr>)) = []" unfolding p by (simp add: pending_default_def)
  ultimately obtain w1 where a: "apply_rename lost_deps lost_world lost_action (?w\<lparr>wk_dirty := True\<rparr>) = (w1, Inr ())"
    "demo_view (eg_db (wk_engine w1)) NAME_INDEX [97] = None" "wk_pending w1 = wk_pending (?w\<lparr>wk_dirty := True\<rparr>)"
    by (rule lost_apply)
  have "\<exists>w1 r. process_renames 2 lost_deps lost_world ?w = Some (w1, r) \<and> demo_view (eg_db (wk_engine w1)) NAME_INDEX [97] = None"
    using a p e [of "ww_now lost_world"]
    by (simp add: stop numeral_2_eq_2 Let_def) (simp add: stop worker_defs expire_renames_def pending_default_def Let_def push_renames_def)
  then show ?thesis using that by blast
qed

lemma lost_facts: "dp_redb lost_deps = demo_redb" "ww_meta lost_world demo_root = Inr DirMeta"
  by (simp_all add: lost_deps_def lost_world_def)

lemma lost_scan_inner:
  assumes w: "lost_state ss wl w"
  obtains w1 r where "scan_inner 2 lost_deps lost_world w = Some (w1, r)" "demo_view (eg_db (wk_engine w1)) NAME_INDEX [97] = None"
proof -
  obtain w1 r where r: "process_renames 2 lost_deps lost_world (on_pending (push_renames [lost_action]) w) = Some (w1, r)"
    "demo_view (eg_db (wk_engine w1)) NAME_INDEX [97] = None" by (rule lost_renames [OF w])
  have sc: "scan_entries lost_deps lost_world (scan_walk lost_deps lost_world demo_root) sc w = Some (w, Inr sc)" for sc
    by (simp add: scan_walk_def Let_def lost_world_def cancelled_def)
  have m: "missing_files lost_world demo_root {} [[97]] = Inr [demo_path]"
    using lost_paths(1) by (simp add: Let_def lost_world_def path_push_def is_absolute_def demo_root_def bindE_def)
  have "scan_inner 2 lost_deps lost_world w = Some (w1, case r of Inl err \<Rightarrow> Inl err | Inr _ \<Rightarrow> Inr None)"
    using w r(1) by (simp add: lost_facts scan_inner_def Let_def lost_state_def has_renames_def pending_default_def bindE_def sc m lost_listed(1)
        del: missing_files.simps split: sum.splits)
  then show ?thesis using that r(2) by blast
qed

lemma lost_scan:
  "\<exists>w' r. scan 2 lost_deps lost_world (lost_worker ss wl) = Some (w', r) \<and> demo_view (eg_db (wk_engine w')) NAME_INDEX [97] = None"
proof -
  let ?w = "on_status (\<lambda>s. s\<lparr>st_scanned_files := 0, st_saved_files := 0, st_removed_files := 0\<rparr>)
    (on_progress (\<lambda>p. set_phase Scanning (clear_error (bytes_of ''scan'') p)) ((lost_worker ss wl)\<lparr>wk_dirty := True,
       wk_rules := rules_load (dp_globs lost_deps) (ww_ignore lost_world)\<rparr>))"
  have "rules_load (dp_globs lost_deps) None = []" by (rule no_rules) (simp add: lost_deps_def)
  then have "lost_state ss wl ?w" by (simp add: lost_state_def lost_worker_def worker_defs lost_world_def watcher_config_new_def)
  then obtain w1 r where "scan_inner 2 lost_deps lost_world ?w = Some (w1, r)" "demo_view (eg_db (wk_engine w1)) NAME_INDEX [97] = None"
    by (rule lost_scan_inner)
  then show ?thesis by (auto simp: scan_def Let_def worker_defs split: sum.splits option.splits)
qed

text \<open>
  C30. The reconciliation scan forgets a file only when it is gone.  If a name is bound before a scan and
  not after it, however the scan ended, then the walk of the directory was complete and without errors,
  and the name is at or below the logical name of a path that does not exist: neither it nor what it
  might link to is there.  A scan with an unreadable directory, a failing \<^verbatim>\<open>stat\<close> or a cancelled one
  unbinds nothing.
\<close>

theorem scan_unbinds_only_missing:
  assumes R: "redb_ok (dp_redb D) V" and s: "scan n D W w = Some (w', r)"
    and lost: "V (eg_db (wk_engine w)) NAME_INDEX name \<noteq> None" "V (eg_db (wk_engine w')) NAME_INDEX name = None"
  shows "walk_complete W (scan_walk D W (wc_watch_dir (wk_config w)))
     \<and> (\<exists>p managed. ww_lmeta W p = Inl NotFound \<and> ww_meta W p = Inl NotFound \<and> logical_name w p = Some managed
           \<and> (managed = [] \<or> name = managed \<or> starts_with name (managed @ [47])))"
proof -
  obtain w2 w3 r3 where i: "scan_inner n D W w2 = Some (w3, r3)" "wk_config w2 = wk_config w" "bound V w2 = bound V w" "bound V w' = bound V w3"
    by (rule scan_scan_inner [OF s])
  have l: "name \<in> bound V w2" "name \<notin> bound V w3" using lost i(3,4) by (auto simp: bound_def)
  note sb = scan_inner_bound [OF R i(1) l]
  have "name \<in> gone W w" using sb(2) gone_cong [OF i(2)] by simp
  then obtain p managed where p: "ww_lmeta W p = Inl NotFound" "ww_meta W p = Inl NotFound" "logical_name w p = Some managed"
    "watched_suffix managed name \<noteq> None" by (auto simp: gone_def)
  show ?thesis using sb(1) i(2) p(1-3) watched_below [OF p(4)] by auto
qed

theorem scan_unbinds_only_missing_witness:
  "\<forall>ss wl. \<exists>w' r. scan 2 lost_deps lost_world (lost_worker ss wl) = Some (w', r)
     \<and> demo_view (eg_db (wk_engine (lost_worker ss wl))) NAME_INDEX [97] \<noteq> None \<and> demo_view (eg_db (wk_engine w')) NAME_INDEX [97] = None
     \<and> walk_complete lost_world (scan_walk lost_deps lost_world demo_root)
     \<and> (\<exists>p managed. ww_lmeta lost_world p = Inl NotFound \<and> ww_meta lost_world p = Inl NotFound
          \<and> logical_name (lost_worker ss wl) p = Some managed \<and> (managed = [] \<or> [97] = managed \<or> starts_with [97] (managed @ [47])))"
proof (intro allI)
  fix ss wl
  obtain w' r where s: "scan 2 lost_deps lost_world (lost_worker ss wl) = Some (w', r)" "demo_view (eg_db (wk_engine w')) NAME_INDEX [97] = None"
    using lost_scan by blast
  have b: "demo_view (eg_db (wk_engine (lost_worker ss wl))) NAME_INDEX [97] \<noteq> None" by (simp add: lost_worker_def lost_db_def demo_view_def)
  have R: "redb_ok (dp_redb lost_deps) demo_view" by (simp add: lost_facts demo_redb_ok)
  have d: "wc_watch_dir (wk_config (lost_worker ss wl)) = demo_root" by (simp add: lost_worker_def watcher_config_new_def)
  show "\<exists>w' r. scan 2 lost_deps lost_world (lost_worker ss wl) = Some (w', r)
     \<and> demo_view (eg_db (wk_engine (lost_worker ss wl))) NAME_INDEX [97] \<noteq> None \<and> demo_view (eg_db (wk_engine w')) NAME_INDEX [97] = None
     \<and> walk_complete lost_world (scan_walk lost_deps lost_world demo_root)
     \<and> (\<exists>p managed. ww_lmeta lost_world p = Inl NotFound \<and> ww_meta lost_world p = Inl NotFound
          \<and> logical_name (lost_worker ss wl) p = Some managed \<and> (managed = [] \<or> [97] = managed \<or> starts_with [97] (managed @ [47])))"
    using scan_unbinds_only_missing [where V = demo_view and w = "lost_worker ss wl" and name = "[97]", OF R s(1) b s(2)] s b unfolding d by blast
qed


text \<open>A due update of a file that is gone again.\<close>

definition busy_worker :: "seg_store \<Rightarrow> wal \<Rightarrow> (demo_db, unit) worker" where
  "busy_worker ss wl = (lost_worker ss wl)\<lparr>wk_pending := enqueue 0 demo_path 0 pending_default\<rparr>"


end
