(* ===== verification/Oos_Migration.thy ===== *)
theory Oos_Migration
  imports Oos_Metadata "HOL-Library.AList"
begin

text \<open>
  The migration of a legacy metadata directory (\<^verbatim>\<open>core/src/index/migration.rs\<close>).  The model is about what
  is on the disk: every step leaves a state of the disk, and a program that stops leaves one of these
  states behind.  The file format of the database and the legacy database are parameters.
\<close>

section \<open>The disk\<close>

datatype node = FileNode bytes | DirNode "(rstring \<times> node) list" | LinkNode

text \<open>The metadata path itself, and its siblings by the suffix of their names.\<close>

record mdisk =
  md_input :: "node option"
  md_side :: "(rstring \<times> node) list"

datatype place = Input | Side rstring | In rstring

definition entries :: "mdisk \<Rightarrow> (rstring \<times> node) list" where
  "entries d = (case md_input d of Some (DirNode es) \<Rightarrow> es | _ \<Rightarrow> [])"

fun node_at :: "mdisk \<Rightarrow> place \<Rightarrow> node option" where
  "node_at d Input = md_input d"
| "node_at d (Side s) = map_of (md_side d) s"
| "node_at d (In n) = map_of (entries d) n"

fun put_node :: "place \<Rightarrow> node \<Rightarrow> mdisk \<Rightarrow> mdisk" where
  "put_node Input v d = d\<lparr>md_input := Some v\<rparr>"
| "put_node (Side s) v d = d\<lparr>md_side := AList.update s v (md_side d)\<rparr>"
| "put_node (In n) v d = d\<lparr>md_input := Some (DirNode (AList.update n v (entries d)))\<rparr>"

fun del_node :: "place \<Rightarrow> mdisk \<Rightarrow> mdisk" where
  "del_node Input d = d\<lparr>md_input := None\<rparr>"
| "del_node (Side s) d = d\<lparr>md_side := AList.delete s (md_side d)\<rparr>"
| "del_node (In n) d = d\<lparr>md_input := Some (DirNode (AList.delete n (entries d)))\<rparr>"

fun sibling :: "place \<Rightarrow> rstring \<Rightarrow> place" where
  "sibling Input s = Side s"
| "sibling (Side p) s = Side (p @ s)"
| "sibling (In n) s = In (n @ s)"

definition present :: "place \<Rightarrow> mdisk \<Rightarrow> bool" where
  "present p d \<longleftrightarrow> node_at d p \<noteq> None"

definition read_file :: "place \<Rightarrow> mdisk \<Rightarrow> io_kind + bytes" where
  "read_file p d = (case node_at d p of None \<Rightarrow> Inl NotFound | Some (FileNode b) \<Rightarrow> Inr b | Some _ \<Rightarrow> Inl OtherIo)"

section \<open>Steps\<close>

text \<open>A computation yields the disks it leaves after each of its steps, the last one being the current one.\<close>

type_synonym 'a mig = "mdisk \<Rightarrow> mdisk list \<times> 'a result"

definition final :: "mdisk \<Rightarrow> mdisk list \<Rightarrow> mdisk" where
  "final d ds = last (d # ds)"

definition returnM :: "'a \<Rightarrow> 'a mig" where "returnM x d = ([], Inr x)"
definition liftM :: "'a result \<Rightarrow> 'a mig" where "liftM r d = ([], r)"
definition askM :: "(mdisk \<Rightarrow> 'a result) \<Rightarrow> 'a mig" where "askM f d = ([], f d)"
definition stepM :: "(mdisk \<Rightarrow> mdisk) \<Rightarrow> unit mig" where "stepM f d = ([f d], Inr ())"

definition bindM :: "'a mig \<Rightarrow> ('a \<Rightarrow> 'b mig) \<Rightarrow> 'b mig" where
  "bindM m f d =
     (case m d of
        (ds, Inl err) \<Rightarrow> (ds, Inl err)
      | (ds, Inr x) \<Rightarrow> (case f x (final d ds) of (ds', r) \<Rightarrow> (ds @ ds', r)))"

definition publish :: "place \<Rightarrow> place \<Rightarrow> unit mig" where
  "publish source destination =
     bindM (askM (\<lambda>d. case node_at d source of None \<Rightarrow> Inl (Io NotFound) | Some v \<Rightarrow> Inr v)) (\<lambda>v.
     stepM (\<lambda>d. put_node destination v (del_node source d)))"

text \<open>The temporary file grows byte by byte until it is renamed.\<close>

fun write_all :: "place \<Rightarrow> bytes list \<Rightarrow> unit mig" where
  "write_all p [] = returnM ()"
| "write_all p (b # bs) = bindM (stepM (put_node p (FileNode b))) (\<lambda>_. write_all p bs)"

definition write_marker :: "place \<Rightarrow> bytes \<Rightarrow> unit mig" where
  "write_marker p bs =
     (let temporary = sibling p (bytes_of ''.tmp'')
      in bindM (write_all temporary (map (\<lambda>n. take n bs) [0..<Suc (length bs)])) (\<lambda>_. publish temporary p))"

definition check_marker :: "place \<Rightarrow> bool mig" where
  "check_marker p = askM (\<lambda>d.
     case read_file p d of
       Inr b \<Rightarrow> if b = MIGRATION_VERSION then Inr True else Inl (Internal ''Unsupported or corrupt migration state'')
     | Inl k \<Rightarrow> if k = NotFound then Inr False else Inl (Io k))"

section \<open>The legacy database\<close>

definition BLOCKER :: bytes where
  "BLOCKER = bytes_of ''OOS-Lite redb: opening this metadata with sled is prohibited'' @ [10]"

definition CONF :: rstring where "CONF = bytes_of ''conf''"
definition CONF_BACKUP :: rstring where "CONF_BACKUP = bytes_of ''conf.sled-backup''"
definition LEGACY_DB :: rstring where "LEGACY_DB = bytes_of ''db''"
definition IMPORT :: rstring where "IMPORT = bytes_of ''.redb-sled-import''"

definition block_sled :: "unit mig" where
  "block_sled =
     bindM (askM (\<lambda>d. Inr (present (In CONF) d, present (In LEGACY_DB) d \<and> \<not> present (In CONF_BACKUP) d))) (\<lambda>(conf, unsaved).
     if conf
     then bindM (askM (\<lambda>d. map_err Io (read_file (In CONF) d))) (\<lambda>b.
          if b = BLOCKER then returnM ()
          else bindM (write_marker (In CONF_BACKUP) b) (\<lambda>_. write_marker (In CONF) BLOCKER))
     else if unsaved then liftM (Inl (Internal ''Legacy sled configuration is missing; refusing migration''))
     else write_marker (In CONF) BLOCKER)"

text \<open>A copy of a tree, or an error when it contains a link.\<close>

fun copy_tree :: "node \<Rightarrow> node result" and copy_trees :: "(rstring \<times> node) list \<Rightarrow> (rstring \<times> node) list result" where
  "copy_tree (FileNode b) = Inr (FileNode b)"
| "copy_tree (DirNode es) = bindE (copy_trees es) (\<lambda>es'. Inr (DirNode es'))"
| "copy_tree LinkNode = Inl (Internal ''Symlinks are not supported in legacy metadata'')"
| "copy_trees [] = Inr []"
| "copy_trees ((n, v) # es) = bindE (copy_tree v) (\<lambda>v'. bindE (copy_trees es) (\<lambda>es'. Inr ((n, v') # es')))"

definition legacy_name :: "rstring \<Rightarrow> bool" where
  "legacy_name n \<longleftrightarrow> n = LEGACY_DB \<or> n = bytes_of ''blobs'' \<or> starts_with n (bytes_of ''snap.'')"

text \<open>The entries are copied one after the other; what has been copied so far is on the disk.\<close>

fun import_entries :: "(rstring \<times> node) list \<Rightarrow> (rstring \<times> node) list \<Rightarrow> (rstring \<times> node) list mig" where
  "import_entries [] acc = returnM acc"
| "import_entries ((n, v) # es) acc =
     (if legacy_name n
      then bindM (liftM (copy_tree v)) (\<lambda>v'.
           bindM (stepM (put_node (In IMPORT) (DirNode (AList.update n v' acc)))) (\<lambda>_. import_entries es (AList.update n v' acc)))
      else import_entries es acc)"

type_synonym trees = "db_table \<Rightarrow> (bytes \<times> bytes) list"

text \<open>
  The parameters: opening the content of a database file, creating a database, the content of the file
  of a database, what the file may hold before it is complete, and \<^verbatim>\<open>sled::open\<close>, which yields the trees
  and may change its directory.
\<close>

record 'db mig_env =
  mi_redb :: "'db redb"
  mi_open :: "bytes \<Rightarrow> string + 'db"
  mi_create :: "string + 'db"
  mi_file :: "'db \<Rightarrow> bytes"
  mi_torn :: "bytes list"
  mi_sled :: "(rstring \<times> node) list \<Rightarrow> (rstring \<times> node) list \<times> (string + trees)"
  mi_locked :: bool

definition legacy_copy :: "'db mig_env \<Rightarrow> trees option mig" where
  "legacy_copy M =
     bindM (askM (\<lambda>d. Inr (present (In LEGACY_DB) d))) (\<lambda>db_exists.
     if \<not> db_exists then returnM None
     else
       bindM (askM (\<lambda>d. Inr (present (In IMPORT) d))) (\<lambda>old.
       bindM (if old then stepM (del_node (In IMPORT)) else returnM ()) (\<lambda>_.
       bindM (stepM (put_node (In IMPORT) (DirNode []))) (\<lambda>_.
       bindM (askM (\<lambda>d. map_err Io (read_file (In CONF_BACKUP) d))) (\<lambda>conf.
       bindM (stepM (put_node (In IMPORT) (DirNode [(CONF, FileNode conf)]))) (\<lambda>_.
       bindM (askM (\<lambda>d. Inr (entries d))) (\<lambda>es.
       bindM (import_entries es [(CONF, FileNode conf)]) (\<lambda>copy.
       case mi_sled M copy of (copy', r) \<Rightarrow>
       bindM (stepM (put_node (In IMPORT) (DirNode copy'))) (\<lambda>_.
       bindM (liftM (map_err Database r)) (\<lambda>trees. returnM (Some trees)))))))))))"

section \<open>Opening\<close>

definition open_database :: "'db mig_env \<Rightarrow> place \<Rightarrow> 'db mig" where
  "open_database M p = askM (\<lambda>d.
     case node_at d p of
       Some (FileNode b) \<Rightarrow> redbE (mi_open M b)
     | _ \<Rightarrow> Inl (Redb ''cannot open the database file''))"

definition opened_database :: "'db mig_env \<Rightarrow> place \<Rightarrow> 'db mig" where
  "opened_database M p =
     bindM (open_database M p) (\<lambda>db. bindM (liftM (validate_database (mi_redb M) db)) (\<lambda>_. returnM db))"

definition ACTIVE :: place where "ACTIVE = In (bytes_of ''metadata.redb'')"
definition STAGING :: place where "STAGING = In (bytes_of ''metadata.redb.staging'')"
definition COMMITTED :: place where "COMMITTED = In (bytes_of ''.redb-active'')"
definition MIGRATING :: place where "MIGRATING = In (bytes_of ''.redb-migrating'')"
definition CORRUPT :: place where "CORRUPT = In (bytes_of ''metadata.redb.corrupt'')"
definition FILE_STATE :: place where "FILE_STATE = Side (bytes_of ''.redb-active'')"
definition ARCHIVE :: place where "ARCHIVE = Side (bytes_of ''.sled'')"

text \<open>The earlier layout, in which the database is the file itself.\<close>

definition open_file_layout :: "'db mig_env \<Rightarrow> 'db mig" where
  "open_file_layout M =
     bindM (opened_database M Input) (\<lambda>db.
     bindM (check_marker FILE_STATE) (\<lambda>marked.
     bindM (if marked then returnM () else write_marker FILE_STATE MIGRATION_VERSION) (\<lambda>_. returnM db)))"

definition open_committed :: "'db mig_env \<Rightarrow> 'db mig" where
  "open_committed M =
     bindM (askM (\<lambda>d. Inr (\<not> present ACTIVE d \<and> present STAGING d))) (\<lambda>unpublished.
     bindM (if unpublished
            then bindM (opened_database M STAGING) (\<lambda>_. publish STAGING ACTIVE)
            else returnM ()) (\<lambda>_.
     bindM (opened_database M ACTIVE) (\<lambda>db.
     bindM block_sled (\<lambda>_. returnM db))))"

definition open_adopted :: "'db mig_env \<Rightarrow> 'db mig" where
  "open_adopted M =
     bindM (opened_database M ACTIVE) (\<lambda>db.
     bindM block_sled (\<lambda>_.
     bindM (write_marker COMMITTED MIGRATION_VERSION) (\<lambda>_. returnM db)))"

text \<open>The staging file is created, filled and synced; only then is the commitment written and the file published.\<close>

definition stage :: "'db mig_env \<Rightarrow> trees option \<Rightarrow> unit mig" where
  "stage M legacy =
     bindM (liftM (redbE (mi_create M))) (\<lambda>db0.
     bindM (write_all STAGING (mi_file M db0 # mi_torn M)) (\<lambda>_.
     bindM (liftM (initialize_database (mi_redb M) db0 legacy)) (\<lambda>db.
     bindM (stepM (put_node STAGING (FileNode (mi_file M db)))) (\<lambda>_.
     liftM (validate_database (mi_redb M) db)))))"

definition open_migrating :: "'db mig_env \<Rightarrow> 'db mig" where
  "open_migrating M =
     bindM (check_marker MIGRATING) (\<lambda>started.
     bindM (if started then returnM ()
            else bindM (askM (\<lambda>d. if present STAGING d \<or> present CORRUPT d
                                  then Inl (Internal ''Untracked metadata artifacts; refusing automatic migration'') else Inr ())) (\<lambda>_.
                 write_marker MIGRATING MIGRATION_VERSION)) (\<lambda>_.
     bindM block_sled (\<lambda>_.
     bindM (askM (\<lambda>d. Inr (present STAGING d))) (\<lambda>staged.
     bindM (if staged then stepM (del_node STAGING) else returnM ()) (\<lambda>_.
     bindM (legacy_copy M) (\<lambda>legacy.
     bindM (stage M legacy) (\<lambda>_.
     bindM (write_marker COMMITTED MIGRATION_VERSION) (\<lambda>_.
     bindM (publish STAGING ACTIVE) (\<lambda>_.
     open_database M ACTIVE)))))))))"

definition migration_open :: "'db mig_env \<Rightarrow> 'db mig" where
  "migration_open M =
     (if mi_locked M then liftM (Inl (Io WouldBlock))
      else
        bindM (askM (\<lambda>d. Inr (case md_input d of Some (FileNode _) \<Rightarrow> True | _ \<Rightarrow> present FILE_STATE d, present ARCHIVE d))) (\<lambda>(file_layout, archive).
        if file_layout then open_file_layout M
        else if archive then liftM (Inl (Internal ''Ambiguous legacy migration archive''))
        else
          bindM (stepM (\<lambda>d. if md_input d = None then d\<lparr>md_input := Some (DirNode [])\<rparr> else d)) (\<lambda>_.
          bindM (check_marker COMMITTED) (\<lambda>committed.
          if committed then open_committed M
          else
            bindM (askM (\<lambda>d. Inr (present ACTIVE d))) (\<lambda>active.
            if active then open_adopted M else open_migrating M)))))"

end
