(* ===== verification/Oos_Migration_Safe.thy ===== *)
theory Oos_Migration_Safe
  imports Oos_Migration
begin

text \<open>
  What the migration guarantees wherever it is interrupted: the next attempt resumes it and ends with
  the tables of the legacy database, and once it is committed the legacy database is never read again.
\<close>

section \<open>A calculus for steps on the disk\<close>

text \<open>The computation succeeds with \<open>Q\<close>, and every disk it leaves on the way satisfies \<open>I\<close>.\<close>

definition runs :: "(mdisk \<Rightarrow> bool) \<Rightarrow> 'a mig \<Rightarrow> mdisk \<Rightarrow> ('a \<Rightarrow> mdisk \<Rightarrow> bool) \<Rightarrow> bool" where
  "runs I m d Q \<longleftrightarrow> (\<forall>d'\<in>set (fst (m d)). I d') \<and> (\<exists>x. snd (m d) = Inr x \<and> Q x (final d (fst (m d))))"

lemma final_simps [simp]: "final d [] = d" "final d (d' # ds) = final d' ds" "final (final d ds) ds' = final d (ds @ ds')"
  by (simp_all add: final_def)

lemma runs_weaken: "runs I m d Q' \<Longrightarrow> (\<And>x d'. Q' x d' \<Longrightarrow> Q x d') \<Longrightarrow> runs I m d Q"
  by (auto simp: runs_def)

lemma runs_bind:
  assumes m: "runs I m d Q'" and f: "\<And>x d'. Q' x d' \<Longrightarrow> runs I (f x) d' Q"
  shows "runs I (bindM m f) d Q"
proof -
  obtain ds x where m': "m d = (ds, Inr x)" "Q' x (final d ds)" "\<forall>d'\<in>set ds. I d'"
    using m by (cases "m d") (auto simp: runs_def)
  from f [OF m'(2)] m' show ?thesis by (auto simp: runs_def bindM_def split: prod.splits)
qed

lemma runs_return [simp]: "runs I (returnM x) d Q \<longleftrightarrow> Q x d"
  by (simp add: runs_def returnM_def)

lemma runs_bind_return [simp]: "runs I (bindM (returnM x) f) d Q \<longleftrightarrow> runs I (f x) d Q"
  by (auto simp: runs_def returnM_def bindM_def split: prod.splits)

lemma runs_lift [simp]: "runs I (liftM r) d Q \<longleftrightarrow> (case r of Inl _ \<Rightarrow> False | Inr x \<Rightarrow> Q x d)"
  by (simp add: runs_def liftM_def split: sum.splits)

lemma runs_bind_lift [simp]: "runs I (bindM (liftM r) f) d Q \<longleftrightarrow> (case r of Inl _ \<Rightarrow> False | Inr x \<Rightarrow> runs I (f x) d Q)"
  by (auto simp: runs_def liftM_def bindM_def split: prod.splits sum.splits)

lemma runs_ask [simp]: "runs I (askM g) d Q \<longleftrightarrow> (case g d of Inl _ \<Rightarrow> False | Inr x \<Rightarrow> Q x d)"
  by (simp add: runs_def askM_def split: sum.splits)

lemma runs_bind_ask [simp]: "runs I (bindM (askM g) f) d Q \<longleftrightarrow> (case g d of Inl _ \<Rightarrow> False | Inr x \<Rightarrow> runs I (f x) d Q)"
  by (auto simp: runs_def askM_def bindM_def split: prod.splits sum.splits)

lemma runs_step [simp]: "runs I (stepM h) d Q \<longleftrightarrow> I (h d) \<and> Q () (h d)"
  by (simp add: runs_def stepM_def)

lemma runs_bind_step [simp]: "runs I (bindM (stepM h) f) d Q \<longleftrightarrow> I (h d) \<and> runs I (f ()) (h d) Q"
  by (auto simp: runs_def stepM_def bindM_def split: prod.splits)

lemma runs_bind_assoc: "runs I (bindM (bindM m f) g) d Q \<Longrightarrow> runs I (bindM m (\<lambda>x. bindM (f x) g)) d Q"
  by (auto simp: runs_def bindM_def split: prod.splits sum.splits)

section \<open>What a step leaves alone\<close>

definition legacy_part :: "mdisk \<Rightarrow> (rstring \<times> node) list" where
  "legacy_part d = filter (\<lambda>(n, _). legacy_name n) (entries d)"

text \<open>Only the entries in \<open>P\<close> of the metadata directory have changed, and no legacy one.\<close>

definition only :: "rstring set \<Rightarrow> mdisk \<Rightarrow> mdisk \<Rightarrow> bool" where
  "only P d d' \<longleftrightarrow> md_side d' = md_side d \<and> (\<exists>es. md_input d' = Some (DirNode es)) \<and> legacy_part d' = legacy_part d
     \<and> (\<forall>n. n \<notin> P \<longrightarrow> node_at d' (In n) = node_at d (In n))"

lemma only_trans: "only P d d' \<Longrightarrow> only P d' d'' \<Longrightarrow> only P d d''"
  by (simp add: only_def)

lemma only_mono: "only P d d' \<Longrightarrow> P \<subseteq> P' \<Longrightarrow> only P' d d'"
  by (auto simp: only_def)

lemma only_refl: "md_input d = Some (DirNode es) \<Longrightarrow> only P d d"
  by (simp add: only_def)

lemma entries_dir [simp]: "entries (d\<lparr>md_input := Some (DirNode es)\<rparr>) = es"
  by (simp add: entries_def)

lemma filter_update: "\<not> P k \<Longrightarrow> filter (\<lambda>(n, _). P n) (AList.update k v es) = filter (\<lambda>(n, _). P n) es"
  by (induction es) auto

lemma filter_delete: "\<not> P k \<Longrightarrow> filter (\<lambda>(n, _). P n) (AList.delete k es) = filter (\<lambda>(n, _). P n) es"
  by (induction es) auto

lemma put_only: "\<not> legacy_name n \<Longrightarrow> only {n} d (put_node (In n) v d)"
  by (simp add: only_def legacy_part_def filter_update update_conv)

lemma del_only: "\<not> legacy_name n \<Longrightarrow> only {n} d (del_node (In n) d)"
  by (simp add: only_def legacy_part_def filter_delete delete_conv)

lemma node_at_put [simp]: "node_at (put_node (In n) v d) (In m) = (if m = n then Some v else node_at d (In m))"
  by (simp add: update_conv)

lemma node_at_del [simp]: "node_at (del_node (In n) d) (In m) = (if m = n then None else node_at d (In m))"
  by (simp add: delete_conv)

declare node_at.simps(3) [simp del] put_node.simps(3) [simp del] del_node.simps(3) [simp del]

section \<open>The parts\<close>

lemma runs_write_all:
  assumes n: "\<not> legacy_name n" and I: "\<And>d'. only {n} d d' \<Longrightarrow> I d'"
  shows "only {n} d d0 \<Longrightarrow> runs I (write_all (In n) bs) d0 (\<lambda>_ d'. only {n} d d' \<and> (bs \<noteq> [] \<longrightarrow> node_at d' (In n) = Some (FileNode (last bs))))"
proof (induction bs arbitrary: d0)
  case (Cons b bs)
  let ?d = "put_node (In n) (FileNode b) d0"
  have o: "only {n} d ?d" by (rule only_trans [OF Cons.prems put_only [OF n]])
  have "runs I (write_all (In n) bs) ?d (\<lambda>_ d'. only {n} d d' \<and> node_at d' (In n) = Some (FileNode (last (b # bs))))"
  proof (cases "bs = []")
    case True
    then show ?thesis using o by auto
  qed (rule runs_weaken [OF Cons.IH [OF o]], simp)
  then show ?case by (auto intro: I o)
qed auto

lemma runs_write_marker:
  assumes n: "\<not> legacy_name n" "\<not> legacy_name (n @ bytes_of ''.tmp'')" and dir: "md_input d = Some (DirNode es)"
    and I: "\<And>d'. only {n @ bytes_of ''.tmp''} d d' \<Longrightarrow> I d'"
    and Q: "\<And>d'. only {n @ bytes_of ''.tmp'', n} d d' \<Longrightarrow> node_at d' (In n) = Some (FileNode bs) \<Longrightarrow> I d' \<and> Q () d'"
  shows "runs I (write_marker (In n) bs) d Q"
  unfolding write_marker_def Let_def sibling.simps
proof (rule runs_bind [OF runs_write_all [OF n(2) I only_refl [OF dir]]])
  let ?t = "n @ bytes_of ''.tmp''"
  fix x d1
  assume "only {?t} d d1 \<and> (map (\<lambda>n. take n bs) [0..<Suc (length bs)] \<noteq> []
    \<longrightarrow> node_at d1 (In ?t) = Some (FileNode (last (map (\<lambda>n. take n bs) [0..<Suc (length bs)]))))"
  then have d1: "only {?t} d d1" "node_at d1 (In ?t) = Some (FileNode bs)" by (auto simp: last_map)
  let ?d = "put_node (In n) (FileNode bs) (del_node (In ?t) d1)"
  have o1: "only {?t, n} d1 ?d"
    by (rule only_trans [OF only_mono [OF del_only [OF n(2)]] only_mono [OF put_only [OF n(1)]]]) auto
  have o: "only {?t, n} d ?d" by (rule only_trans [OF only_mono [OF d1(1)] o1]) auto
  show "runs I (publish (In ?t) (In n)) d1 Q"
    unfolding publish_def using Q [OF o] d1(2) by simp
qed

lemma runs_check_marker:
  "read_file p d = Inr MIGRATION_VERSION \<Longrightarrow> Q True d \<Longrightarrow> runs I (check_marker p) d Q"
  "node_at d p = None \<Longrightarrow> Q False d \<Longrightarrow> runs I (check_marker p) d Q"
  unfolding check_marker_def by (auto simp: read_file_def)

text \<open>The names in the metadata directory, written out, so that simplification tells them apart.\<close>

lemma name_eqs:
  "CONF = [99, 111, 110, 102]"
  "CONF_BACKUP = [99, 111, 110, 102, 46, 115, 108, 101, 100, 45, 98, 97, 99, 107, 117, 112]"
  "LEGACY_DB = [100, 98]"
  "IMPORT = [46, 114, 101, 100, 98, 45, 115, 108, 101, 100, 45, 105, 109, 112, 111, 114, 116]"
  "ACTIVE = In [109, 101, 116, 97, 100, 97, 116, 97, 46, 114, 101, 100, 98]"
  "STAGING = In [109, 101, 116, 97, 100, 97, 116, 97, 46, 114, 101, 100, 98, 46, 115, 116, 97, 103, 105, 110, 103]"
  "COMMITTED = In [46, 114, 101, 100, 98, 45, 97, 99, 116, 105, 118, 101]"
  "MIGRATING = In [46, 114, 101, 100, 98, 45, 109, 105, 103, 114, 97, 116, 105, 110, 103]"
  "CORRUPT = In [109, 101, 116, 97, 100, 97, 116, 97, 46, 114, 101, 100, 98, 46, 99, 111, 114, 114, 117, 112, 116]"
  "bytes_of ''.tmp'' = [46, 116, 109, 112]"
  unfolding CONF_def CONF_BACKUP_def LEGACY_DB_def IMPORT_def ACTIVE_def STAGING_def COMMITTED_def MIGRATING_def CORRUPT_def
  by code_simp+

lemma legacy_simp: "legacy_name (b # bs) \<longleftrightarrow> b # bs = [100, 98] \<or> b # bs = [98, 108, 111, 98, 115] \<or> take 5 (b # bs) = [115, 110, 97, 112, 46]"
proof -
  have "bytes_of ''blobs'' = [98, 108, 111, 98, 115]" "bytes_of ''snap.'' = [115, 110, 97, 112, 46]" by code_simp+
  then show ?thesis by (simp add: legacy_name_def starts_with_def name_eqs eval_nat_numeral)
qed

text \<open>The state of the legacy configuration: as it was, or replaced after it has been saved.\<close>

definition conf_ok :: "bytes option \<Rightarrow> mdisk \<Rightarrow> bool" where
  "conf_ok c d \<longleftrightarrow>
     (case c of
        None \<Rightarrow> map_of (legacy_part d) LEGACY_DB = None \<and> (node_at d (In CONF) = None \<or> node_at d (In CONF) = Some (FileNode BLOCKER))
      | Some b \<Rightarrow> b \<noteq> BLOCKER \<and> (node_at d (In CONF) = Some (FileNode b)
          \<or> node_at d (In CONF) = Some (FileNode BLOCKER) \<and> node_at d (In CONF_BACKUP) = Some (FileNode b)))"

lemma map_of_filter: "P k \<Longrightarrow> map_of (filter (\<lambda>(n, _). P n) es) k = map_of es k"
  by (induction es) auto

lemma legacy_present: "map_of (legacy_part d) LEGACY_DB = node_at d (In LEGACY_DB)"
  by (simp add: legacy_part_def map_of_filter legacy_name_def node_at.simps(3))

lemma conf_cong:
  assumes "only P d d'" "CONF \<notin> P" "CONF_BACKUP \<notin> P"
  shows "conf_ok c d' = conf_ok c d"
  using assms by (simp add: conf_ok_def only_def split: option.split)

abbreviation conf_names :: "rstring set" where
  "conf_names \<equiv> {CONF, CONF @ bytes_of ''.tmp'', CONF_BACKUP, CONF_BACKUP @ bytes_of ''.tmp''}"

lemma runs_block_sled:
  assumes c: "conf_ok c d" and dir: "md_input d = Some (DirNode es)"
    and I: "\<And>d'. only conf_names d d' \<Longrightarrow> conf_ok c d' \<Longrightarrow> I d'"
    and Q: "\<And>d'. only conf_names d d' \<Longrightarrow> conf_ok c d' \<Longrightarrow> node_at d' (In CONF) = Some (FileNode BLOCKER) \<Longrightarrow> Q () d'"
  shows "runs I block_sled d Q"
proof -
  have tmp: "\<not> legacy_name CONF" "\<not> legacy_name (CONF @ bytes_of ''.tmp'')" "\<not> legacy_name CONF_BACKUP" "\<not> legacy_name (CONF_BACKUP @ bytes_of ''.tmp'')"
    by (simp_all add: name_eqs legacy_simp)
  have last: "runs I (write_marker (In CONF) BLOCKER) d1 Q"
    if o1: "only conf_names d d1" and c1: "conf_ok c d1" and sv: "\<forall>b. c = Some b \<longrightarrow> node_at d1 (In CONF_BACKUP) = Some (FileNode b)" for d1
  proof -
    obtain es1 where dir1: "md_input d1 = Some (DirNode es1)" using o1 by (auto simp: only_def)
    show ?thesis
    proof (rule runs_write_marker [OF tmp(1,2) dir1])
      fix d' assume o: "only {CONF @ bytes_of ''.tmp''} d1 d'"
      have "conf_ok c d'" using conf_cong [OF o] c1 by (simp add: name_eqs)
      then show "I d'" by (intro I only_trans [OF o1 only_mono [OF o]]) auto
    next
      fix d' assume o: "only {CONF @ bytes_of ''.tmp'', CONF} d1 d'" and n: "node_at d' (In CONF) = Some (FileNode BLOCKER)"
      have "node_at d' (In CONF_BACKUP) = node_at d1 (In CONF_BACKUP)" using o by (simp add: only_def name_eqs)
      moreover have "legacy_part d' = legacy_part d1" using o by (simp add: only_def)
      ultimately have c': "conf_ok c d'" using n c1 sv by (auto simp: conf_ok_def split: option.splits)
      have o': "only conf_names d d'" by (rule only_trans [OF o1 only_mono [OF o]]) auto
      show "I d' \<and> Q () d'" using I [OF o' c'] Q [OF o' c' n] by blast
    qed
  qed
  have o: "only conf_names d d" by (rule only_refl [OF dir])
  show ?thesis
  proof (cases "node_at d (In CONF)")
    case None
    then have "c = None" "node_at d (In LEGACY_DB) = None" using c by (auto simp: conf_ok_def legacy_present split: option.splits)
    then show ?thesis using None last [OF o c] by (auto simp: block_sled_def present_def)
  next
    case (Some v)
    then obtain b where v: "node_at d (In CONF) = Some (FileNode b)" using c by (auto simp: conf_ok_def split: option.splits)
    then have r: "read_file (In CONF) d = Inr b" by (simp add: read_file_def)
    show ?thesis
    proof (cases "b = BLOCKER")
      case True
      then show ?thesis using v r Q [OF o c] by (auto simp: block_sled_def present_def map_err_def)
    next
      case False
      then have cb: "c = Some b" using c v by (auto simp: conf_ok_def split: option.splits)
      have "runs I (bindM (write_marker (In CONF_BACKUP) b) (\<lambda>_. write_marker (In CONF) BLOCKER)) d Q"
      proof (rule runs_bind [OF runs_write_marker [OF tmp(3,4) dir, where I = I and Q = "\<lambda>_ d'. only conf_names d d' \<and> conf_ok c d'
            \<and> node_at d' (In CONF_BACKUP) = Some (FileNode b)"]])
        fix d' assume o1: "only {CONF_BACKUP @ bytes_of ''.tmp''} d d'"
        have "conf_ok c d'" using conf_cong [OF o1] c by (simp add: name_eqs)
        then show "I d'" by (intro I only_mono [OF o1]) auto
      next
        fix d' assume o1: "only {CONF_BACKUP @ bytes_of ''.tmp'', CONF_BACKUP} d d'" and n: "node_at d' (In CONF_BACKUP) = Some (FileNode b)"
        have "node_at d' (In CONF) = node_at d (In CONF)" using o1 by (simp add: only_def name_eqs)
        then have c': "conf_ok c d'" using v cb False by (simp add: conf_ok_def)
        have o': "only conf_names d d'" by (rule only_mono [OF o1]) auto
        show "I d' \<and> only conf_names d d' \<and> conf_ok c d' \<and> node_at d' (In CONF_BACKUP) = Some (FileNode b)" using I [OF o' c'] o' c' n by blast
      next
        fix x d1 assume d1: "only conf_names d d1 \<and> conf_ok c d1 \<and> node_at d1 (In CONF_BACKUP) = Some (FileNode b)"
        show "runs I (write_marker (In CONF) BLOCKER) d1 Q" by (rule last) (use d1 cb in simp_all)
      qed
      then show ?thesis using v r False by (auto simp: block_sled_def present_def map_err_def)
    qed
  qed
qed

section \<open>The copy of the legacy database\<close>

text \<open>The copied entries, and the trees found in them.\<close>

fun import_result :: "(rstring \<times> node) list \<Rightarrow> (rstring \<times> node) list \<Rightarrow> (rstring \<times> node) list result" where
  "import_result [] acc = Inr acc"
| "import_result ((n, v) # es) acc = bindE (copy_tree v) (\<lambda>v'. import_result es (AList.update n v' acc))"

definition legacy_trees :: "'db mig_env \<Rightarrow> bytes option \<Rightarrow> (rstring \<times> node) list \<Rightarrow> trees option \<Rightarrow> bool" where
  "legacy_trees M c S L \<longleftrightarrow>
     (if map_of S LEGACY_DB = None then L = None
      else \<exists>b copy copy' T. c = Some b \<and> import_result S [(CONF, FileNode b)] = Inr copy \<and> mi_sled M copy = (copy', Inr T) \<and> L = Some T)"

lemma import_quiet: "\<not> legacy_name IMPORT"
  by (simp add: name_eqs legacy_simp)

lemma runs_import_entries:
  assumes I: "\<And>d'. only {IMPORT} d d' \<Longrightarrow> I d'"
  shows "import_result (filter (\<lambda>(n, _). legacy_name n) es) acc = Inr copy \<Longrightarrow> only {IMPORT} d d0
    \<Longrightarrow> runs I (import_entries es acc) d0 (\<lambda>r d'. r = copy \<and> only {IMPORT} d d')"
proof (induction es arbitrary: acc d0)
  case (Cons e es)
  obtain n v where e: "e = (n, v)" by (cases e)
  show ?case
  proof (cases "legacy_name n")
    case True
    then obtain v' where v': "copy_tree v = Inr v'" "import_result (filter (\<lambda>(n, _). legacy_name n) es) (AList.update n v' acc) = Inr copy"
      using Cons.prems(1) e by (auto simp: bindE_eq_Inr)
    have o: "only {IMPORT} d (put_node (In IMPORT) (DirNode (AList.update n v' acc)) d0)"
      by (rule only_trans [OF Cons.prems(2) put_only [OF import_quiet]])
    show ?thesis using True e v'(1) Cons.IH [OF v'(2) o] I [OF o] by simp
  qed (use Cons e in simp)
qed simp

lemma runs_legacy_copy:
  assumes L: "legacy_trees M c (legacy_part d) L" and dir: "md_input d = Some (DirNode es)"
    and c: "\<And>b. c = Some b \<Longrightarrow> node_at d (In CONF_BACKUP) = Some (FileNode b)"
    and I: "\<And>d'. only {IMPORT} d d' \<Longrightarrow> I d'"
  shows "runs I (legacy_copy M) d (\<lambda>r d'. r = L \<and> only {IMPORT} d d')"
proof (cases "node_at d (In LEGACY_DB)")
  case None
  then show ?thesis using L only_refl [OF dir] by (simp add: legacy_copy_def present_def legacy_trees_def legacy_present)
next
  case (Some v)
  then obtain b copy copy' T where b: "c = Some b" and i: "import_result (legacy_part d) [(CONF, FileNode b)] = Inr copy"
    and s: "mi_sled M copy = (copy', Inr T)" and LT: "L = Some T"
    using L by (auto simp: legacy_trees_def legacy_present)
  let ?J = "only {IMPORT} d"
  have put: "?J (put_node (In IMPORT) w d')" if "?J d'" for w d' by (rule only_trans [OF that put_only [OF import_quiet]])
  have del: "?J (del_node (In IMPORT) d')" if "?J d'" for d' by (rule only_trans [OF that del_only [OF import_quiet]])
  have d: "?J d" by (rule only_refl [OF dir])
  have fill: "runs I (bindM (stepM (put_node (In IMPORT) (DirNode []))) (\<lambda>_.
       bindM (askM (\<lambda>d. map_err Io (read_file (In CONF_BACKUP) d))) (\<lambda>conf.
       bindM (stepM (put_node (In IMPORT) (DirNode [(CONF, FileNode conf)]))) (\<lambda>_.
       bindM (askM (\<lambda>d. Inr (entries d))) (\<lambda>es.
       bindM (import_entries es [(CONF, FileNode conf)]) (\<lambda>copy.
       case mi_sled M copy of (copy', r) \<Rightarrow>
       bindM (stepM (put_node (In IMPORT) (DirNode copy'))) (\<lambda>_.
       bindM (liftM (map_err Database r)) (\<lambda>trees. returnM (Some trees))))))))) d1 (\<lambda>r d'. r = L \<and> ?J d')" if d1: "?J d1" for d1
  proof -
    let ?d2 = "put_node (In IMPORT) (DirNode []) d1"
    let ?d3 = "put_node (In IMPORT) (DirNode [(CONF, FileNode b)]) ?d2"
    have o: "?J ?d2" "?J ?d3" using put d1 by blast+
    have "node_at ?d2 (In CONF_BACKUP) = Some (FileNode b)" using c [OF b] o(1) by (simp add: only_def name_eqs)
    then have r: "read_file (In CONF_BACKUP) ?d2 = Inr b" by (simp add: read_file_def)
    have p: "import_result (filter (\<lambda>(n, _). legacy_name n) (entries ?d3)) [(CONF, FileNode b)] = Inr copy"
      using o(2) i by (simp add: only_def legacy_part_def)
    have "runs I (bindM (import_entries (entries ?d3) [(CONF, FileNode b)]) (\<lambda>copy.
       case mi_sled M copy of (copy', r) \<Rightarrow>
       bindM (stepM (put_node (In IMPORT) (DirNode copy'))) (\<lambda>_.
       bindM (liftM (map_err Database r)) (\<lambda>trees. returnM (Some trees))))) ?d3 (\<lambda>r d'. r = L \<and> ?J d')"
      by (rule runs_bind [OF runs_import_entries [OF I p o(2)]]) (simp_all add: s LT map_err_def put I)
    then show ?thesis using o I r by (simp add: map_err_def)
  qed
  show ?thesis
    using Some fill [OF d] fill [OF del [OF d]] I [OF del [OF d]] by (simp add: legacy_copy_def present_def)
qed

section \<open>The tables after the migration\<close>

definition migrated_tables :: "trees option \<Rightarrow> db_table \<Rightarrow> bytes \<Rightarrow> bytes option" where
  "migrated_tables L t k =
     (if t = WATCHER_CONFIG \<and> k = MIGRATION_MARKER then Some MIGRATION_VERSION
      else case L of None \<Rightarrow> None | Some T \<Rightarrow> map_of (rev (T t)) k)"

lemma copy_legacy_tree_view:
  assumes R: "redb_ok R V"
  shows "copy_legacy_tree R t tx items = Inr tx' \<Longrightarrow> V tx' = (V tx)(t := V tx t ++ map_of (rev items))"
  unfolding copy_legacy_tree_def
proof (induction items arbitrary: tx)
  case (Cons kv items)
  obtain k v where kv: "kv = (k, v)" by (cases kv)
  then obtain tx1 where 1: "rd_insert R tx t k v = Inr tx1" "foldE (\<lambda>tx (k, v). redbE (rd_insert R tx t k v)) tx1 items = Inr tx'"
    using Cons.prems by (auto simp: bindE_eq_Inr)
  show ?case using Cons.IH [OF 1(2)] redb_okD(6) [OF R 1(1)] kv by (auto simp: set_entry_def fun_eq_iff map_add_def split: option.splits)
qed simp

lemma initialize_view:
  assumes R: "redb_ok R V" and e: "V db0 = (\<lambda>_ _. None)" and i: "initialize_database R db0 L = Inr db"
  shows "V db = migrated_tables L"
proof -
  obtain tx1 tx2 tx3 where tx: "rd_begin_write R db0 = Inr tx1" "rd_insert R tx2 WATCHER_CONFIG MIGRATION_MARKER MIGRATION_VERSION = Inr tx3"
    "rd_commit R tx3 = Inr db" and
    c: "(case L of None \<Rightarrow> Inr tx1 | Some T \<Rightarrow> foldE (\<lambda>tx t. copy_legacy_tree R t tx (T t)) tx1
          [NAME_INDEX, OBJECT_INDEX, MANIFESTS, SNAPSHOTS, WATCHER_FILES, WATCHER_CONFIG]) = Inr tx2"
    using i by (auto simp: initialize_database_def bindE_eq_Inr)
  have v1: "V tx1 = (\<lambda>_ _. None)" using redb_okD(5) [OF R tx(1)] e by simp
  have "V tx2 t k = (case L of None \<Rightarrow> None | Some T \<Rightarrow> map_of (rev (T t)) k)" for t k
  proof (cases L)
    case None
    then show ?thesis using c v1 by simp
  next
    case (Some T)
    then obtain a1 a2 a3 a4 a5 where a: "copy_legacy_tree R NAME_INDEX tx1 (T NAME_INDEX) = Inr a1" "copy_legacy_tree R OBJECT_INDEX a1 (T OBJECT_INDEX) = Inr a2"
      "copy_legacy_tree R MANIFESTS a2 (T MANIFESTS) = Inr a3" "copy_legacy_tree R SNAPSHOTS a3 (T SNAPSHOTS) = Inr a4"
      "copy_legacy_tree R WATCHER_FILES a4 (T WATCHER_FILES) = Inr a5" "copy_legacy_tree R WATCHER_CONFIG a5 (T WATCHER_CONFIG) = Inr tx2"
      using c by (auto simp: bindE_eq_Inr)
    note vs = a [THEN copy_legacy_tree_view [OF R]]
    show ?thesis using Some by (cases t) (simp_all add: vs v1)
  qed
  then show ?thesis using redb_okD(6) [OF R tx(2)] redb_okD(8) [OF R tx(3)] by (auto simp: migrated_tables_def set_entry_def fun_eq_iff)
qed

lemma foldE_total_view: "(\<And>s x. \<exists>s'. f s x = Inr s') \<Longrightarrow> \<exists>s'. foldE f s xs = Inr s'"
proof (induction xs arbitrary: s)
  case (Cons x xs)
  obtain s1 where "f s x = Inr s1" using Cons.prems by blast
  moreover obtain s2 where "foldE f s1 xs = Inr s2" using Cons by blast
  ultimately show ?case by simp
qed simp

lemma initialize_total:
  assumes t: "redb_total R"
  shows "\<exists>db. initialize_database R db0 L = Inr db"
proof -
  have ins: "\<exists>tx'. rd_insert R tx t k v = Inr tx'" for tx t k v using t by (simp add: redb_total_def)
  have c: "\<exists>tx'. copy_legacy_tree R t tx items = Inr tx'" for t tx items
    unfolding copy_legacy_tree_def by (rule foldE_total_view) (simp add: split_def ins)
  have "\<exists>r. rd_begin_write R db0 = Inr r" "\<And>tx. \<exists>r. rd_commit R tx = Inr r" using t by (simp_all add: redb_total_def)
  note calls = this ins
  obtain tx1 where 1: "rd_begin_write R db0 = Inr tx1" using calls(1) by (rule exE)
  obtain tx2 where 2: "(case L of None \<Rightarrow> Inr tx1 | Some T \<Rightarrow> foldE (\<lambda>tx t. copy_legacy_tree R t tx (T t)) tx1
        [NAME_INDEX, OBJECT_INDEX, MANIFESTS, SNAPSHOTS, WATCHER_FILES, WATCHER_CONFIG]) = Inr tx2"
  proof (cases L)
    case None
    then show ?thesis using that by simp
  next
    case (Some T)
    have "\<exists>tx2. foldE (\<lambda>tx t. copy_legacy_tree R t tx (T t)) tx1
        [NAME_INDEX, OBJECT_INDEX, MANIFESTS, SNAPSHOTS, WATCHER_FILES, WATCHER_CONFIG] = Inr tx2" by (rule foldE_total_view) (rule c)
    then show ?thesis using that Some by (simp only: option.case) blast
  qed
  obtain tx3 where 3: "rd_insert R tx2 WATCHER_CONFIG MIGRATION_MARKER MIGRATION_VERSION = Inr tx3" using calls(3) by (rule exE)
  obtain db where 4: "rd_commit R tx3 = Inr db" using calls(2) by (rule exE)
  have "initialize_database R db0 L = Inr db" unfolding initialize_database_def bindE_eq_Inr redbE_Inr using 1 2 3 4 by blast
  then show ?thesis by blast
qed

lemma validate_total:
  assumes "redb_ok R V" "redb_total R" "V db WATCHER_CONFIG MIGRATION_MARKER = Some MIGRATION_VERSION"
  shows "validate_database R db = Inr ()"
proof -
  obtain r where r: "rd_get R db WATCHER_CONFIG MIGRATION_MARKER = Inr r" using assms(2) by (force simp: redb_total_def)
  then have "r = Some MIGRATION_VERSION" using redb_okD(1) [OF assms(1) r] assms(3) by simp
  then show ?thesis using r assms(2) by (simp add: validate_database_def redb_total_def redbE_def map_err_def)
qed

section \<open>The phases of a migration\<close>

text \<open>
  The disk before the migration: no database and no marker, an optional legacy configuration \<open>c\<close> that is
  not the blocker, and the legacy entries \<open>S\<close>.
\<close>

definition layout_ok :: "bytes option \<Rightarrow> (rstring \<times> node) list \<Rightarrow> mdisk \<Rightarrow> bool" where
  "layout_ok c S d \<longleftrightarrow> map_of (md_side d) (bytes_of ''.redb-active'') = None \<and> map_of (md_side d) (bytes_of ''.sled'') = None
     \<and> (md_input d = None \<or> (\<exists>es. md_input d = Some (DirNode es))) \<and> legacy_part d = S \<and> conf_ok c d"

definition unmarked :: "mdisk \<Rightarrow> bool" where
  "unmarked d \<longleftrightarrow> node_at d ACTIVE = None \<and> node_at d STAGING = None \<and> node_at d COMMITTED = None \<and> node_at d MIGRATING = None \<and> node_at d CORRUPT = None"

definition started :: "mdisk \<Rightarrow> bool" where
  "started d \<longleftrightarrow> node_at d ACTIVE = None \<and> node_at d COMMITTED = None \<and> node_at d MIGRATING = Some (FileNode MIGRATION_VERSION)"

definition committed_staged :: "bytes \<Rightarrow> mdisk \<Rightarrow> bool" where
  "committed_staged fb d \<longleftrightarrow> node_at d COMMITTED = Some (FileNode MIGRATION_VERSION) \<and> node_at d ACTIVE = None \<and> node_at d STAGING = Some (FileNode fb)"

definition migrated :: "bytes \<Rightarrow> mdisk \<Rightarrow> bool" where
  "migrated fb d \<longleftrightarrow> node_at d COMMITTED = Some (FileNode MIGRATION_VERSION) \<and> node_at d ACTIVE = Some (FileNode fb)"

definition resumable :: "bytes \<Rightarrow> bytes option \<Rightarrow> (rstring \<times> node) list \<Rightarrow> mdisk \<Rightarrow> bool" where
  "resumable fb c S d \<longleftrightarrow> layout_ok c S d \<and> (unmarked d \<or> started d \<or> committed_staged fb d \<or> migrated fb d)"

definition marker_names :: "rstring set" where
  "marker_names = {[109, 101, 116, 97, 100, 97, 116, 97, 46, 114, 101, 100, 98],
     [109, 101, 116, 97, 100, 97, 116, 97, 46, 114, 101, 100, 98, 46, 115, 116, 97, 103, 105, 110, 103],
     [46, 114, 101, 100, 98, 45, 97, 99, 116, 105, 118, 101],
     [46, 114, 101, 100, 98, 45, 109, 105, 103, 114, 97, 116, 105, 110, 103],
     [109, 101, 116, 97, 100, 97, 116, 97, 46, 114, 101, 100, 98, 46, 99, 111, 114, 114, 117, 112, 116]}"

lemma phases_cong:
  assumes "only P d d'" "P \<inter> marker_names = {}"
  shows "unmarked d' = unmarked d" "started d' = started d" "committed_staged fb d' = committed_staged fb d" "migrated fb d' = migrated fb d"
proof -
  have "node_at d' (In n) = node_at d (In n)" if "n \<in> marker_names" for n using assms that by (auto simp: only_def)
  then show "unmarked d' = unmarked d" "started d' = started d" "committed_staged fb d' = committed_staged fb d" "migrated fb d' = migrated fb d"
    by (simp_all add: unmarked_def started_def committed_staged_def migrated_def name_eqs marker_names_def)
qed

lemma layout_only: "layout_ok c S d \<Longrightarrow> only P d d' \<Longrightarrow> conf_ok c d' \<Longrightarrow> layout_ok c S d'"
  by (auto simp: layout_ok_def only_def)

lemma layout_keep: "layout_ok c S d \<Longrightarrow> only P d d' \<Longrightarrow> CONF \<notin> P \<Longrightarrow> CONF_BACKUP \<notin> P \<Longrightarrow> layout_ok c S d'"
  using layout_only conf_cong by (metis layout_ok_def)

lemma resumable_keep:
  "resumable fb c S d \<Longrightarrow> only P d d' \<Longrightarrow> P \<inter> marker_names = {} \<Longrightarrow> CONF \<notin> P \<Longrightarrow> CONF_BACKUP \<notin> P \<Longrightarrow> resumable fb c S d'"
  using layout_keep phases_cong by (auto simp: resumable_def)

lemma conf_names_quiet: "conf_names \<inter> marker_names = {}" "{IMPORT} \<inter> marker_names = {}"
  by (simp_all add: marker_names_def name_eqs)

lemma runs_block_phase:
  assumes r: "resumable fb c S d" and dir: "md_input d = Some (DirNode es)"
    and Q: "\<And>d'. only conf_names d d' \<Longrightarrow> layout_ok c S d' \<Longrightarrow> node_at d' (In CONF) = Some (FileNode BLOCKER) \<Longrightarrow> Q () d'"
  shows "runs (resumable fb c S) block_sled d Q"
proof (rule runs_block_sled [where c = c, OF _ dir])
  have l: "layout_ok c S d" using r by (simp add: resumable_def)
  then show "conf_ok c d" by (simp add: layout_ok_def)
  fix d' assume o: "only conf_names d d'" and c: "conf_ok c d'"
  have l': "layout_ok c S d'" by (rule layout_only [OF l o c])
  then show "resumable fb c S d'" using r phases_cong [OF o conf_names_quiet(1)] by (simp add: resumable_def)
  show "Q () d'" if "node_at d' (In CONF) = Some (FileNode BLOCKER)" by (rule Q [OF o l' that])
qed

section \<open>The migration resumes\<close>

text \<open>The database that the migration builds.\<close>

definition migration_env :: "'db mig_env \<Rightarrow> 'db view \<Rightarrow> bytes option \<Rightarrow> (rstring \<times> node) list \<Rightarrow> trees option \<Rightarrow> 'db \<Rightarrow> bool" where
  "migration_env M V c S L db1 \<longleftrightarrow> redb_ok (mi_redb M) V \<and> redb_total (mi_redb M) \<and> \<not> mi_locked M \<and> legacy_trees M c S L
     \<and> mi_open M (mi_file M db1) = Inr db1
     \<and> (\<exists>db0. mi_create M = Inr db0 \<and> V db0 = (\<lambda>_ _. None) \<and> initialize_database (mi_redb M) db0 L = Inr db1)"

lemma migration_envD:
  assumes "migration_env M V c S L db1"
  shows "V db1 = migrated_tables L" "validate_database (mi_redb M) db1 = Inr ()" "redbE (mi_open M (mi_file M db1)) = Inr db1"
proof -
  show v: "V db1 = migrated_tables L" using assms initialize_view by (auto simp: migration_env_def)
  show "validate_database (mi_redb M) db1 = Inr ()"
    using assms by (intro validate_total [where V = V]) (auto simp: migration_env_def v migrated_tables_def)
  show "redbE (mi_open M (mi_file M db1)) = Inr db1" using assms by (simp add: migration_env_def)
qed

lemma runs_bind_pure: "m d = ([], Inr x) \<Longrightarrow> runs I (bindM m f) d Q \<longleftrightarrow> runs I (f x) d Q"
  by (auto simp: runs_def bindM_def split: prod.splits)

lemma opened:
  assumes E: "migration_env M V c S L db1" and n: "node_at d p = Some (FileNode (mi_file M db1))"
  shows "open_database M p d = ([], Inr db1)" "opened_database M p d = ([], Inr db1)"
  using migration_envD [OF E] n
  by (simp_all add: opened_database_def open_database_def bindM_def askM_def liftM_def returnM_def redbE_def map_err_def)

text \<open>The end of a migration: the database is published and the legacy configuration blocked.\<close>

definition done_with :: "bytes \<Rightarrow> bytes option \<Rightarrow> (rstring \<times> node) list \<Rightarrow> mdisk \<Rightarrow> bool" where
  "done_with fb c S d \<longleftrightarrow> layout_ok c S d \<and> migrated fb d \<and> node_at d (In CONF) = Some (FileNode BLOCKER)"

lemma quiet_markers:
  "ACTIVE = In an \<Longrightarrow> \<not> legacy_name an" "STAGING = In sn \<Longrightarrow> \<not> legacy_name sn \<and> sn \<noteq> CONF \<and> sn \<noteq> CONF_BACKUP \<and> \<not> legacy_name (sn @ bytes_of ''.tmp'')"
  by (auto simp: name_eqs legacy_simp)

lemma publish_staged:
  assumes l: "layout_ok c S d" and cs: "committed_staged fb d" and dir: "md_input d = Some (DirNode es)"
    and Q: "\<And>d'. layout_ok c S d' \<Longrightarrow> migrated fb d' \<Longrightarrow> md_input d' = Some (DirNode (entries d')) \<Longrightarrow>
       node_at d' (In CONF) = node_at d (In CONF) \<Longrightarrow> Q () d'"
  shows "runs (resumable fb c S) (publish STAGING ACTIVE) d Q"
proof -
  obtain an sn where n: "ACTIVE = In an" "STAGING = In sn" by (simp add: name_eqs)
  have q: "\<not> legacy_name an" "\<not> legacy_name sn" using quiet_markers n by blast+
  let ?d = "put_node ACTIVE (FileNode fb) (del_node STAGING d)"
  have o: "only {an, sn} d ?d"
    unfolding n by (rule only_trans [OF only_mono [OF del_only [OF q(2)]] only_mono [OF put_only [OF q(1)]]]) auto
  have l': "layout_ok c S ?d" by (rule layout_keep [OF l o]) (use n in \<open>auto simp: name_eqs\<close>)
  have m: "migrated fb ?d" using cs by (simp add: migrated_def committed_staged_def name_eqs)
  have c: "node_at ?d (In CONF) = node_at d (In CONF)" by (simp add: name_eqs)
  have "md_input ?d = Some (DirNode (entries ?d))" using o by (auto simp: only_def entries_def)
  with l' m c Q show ?thesis using cs by (simp add: publish_def committed_staged_def resumable_def)
qed

lemma runs_committed:
  assumes E: "migration_env M V c S L db1" and l: "layout_ok c S d" and dir: "md_input d = Some (DirNode es)"
    and ph: "committed_staged (mi_file M db1) d \<or> migrated (mi_file M db1) d"
  shows "runs (resumable (mi_file M db1) c S) (open_committed M) d (\<lambda>db d'. db = db1 \<and> done_with (mi_file M db1) c S d')"
proof -
  let ?I = "resumable (mi_file M db1) c S"
  have tail: "runs ?I (bindM (opened_database M ACTIVE) (\<lambda>db. bindM block_sled (\<lambda>_. returnM db))) d1
      (\<lambda>db d'. db = db1 \<and> done_with (mi_file M db1) c S d')"
    if l1: "layout_ok c S d1" and m: "migrated (mi_file M db1) d1" and dir1: "md_input d1 = Some (DirNode es1)" for d1 es1
  proof -
    have a: "node_at d1 ACTIVE = Some (FileNode (mi_file M db1))" using m by (simp add: migrated_def)
    have "runs ?I (bindM block_sled (\<lambda>_. returnM db1)) d1 (\<lambda>db d'. db = db1 \<and> done_with (mi_file M db1) c S d')"
    proof (rule runs_bind [OF runs_block_phase [OF _ dir1, where Q = "\<lambda>_ d'. done_with (mi_file M db1) c S d'"]])
      show "?I d1" using l1 m by (simp add: resumable_def)
    next
      fix d' assume "only conf_names d1 d'" "layout_ok c S d'" "node_at d' (In CONF) = Some (FileNode BLOCKER)"
      then show "done_with (mi_file M db1) c S d'" using m phases_cong(4) [OF _ conf_names_quiet(1)] by (simp add: done_with_def)
    qed simp
    then show ?thesis by (simp add: runs_bind_pure [where m = "opened_database M ACTIVE", OF opened(2) [OF E a]])
  qed
  show ?thesis
  proof (cases "migrated (mi_file M db1) d")
    case True
    then show ?thesis using tail [OF l True dir] by (simp add: open_committed_def present_def migrated_def)
  next
    case False
    then have cs: "committed_staged (mi_file M db1) d" using ph by blast
    have st: "node_at d STAGING = Some (FileNode (mi_file M db1))" "node_at d ACTIVE = None" using cs by (simp_all add: committed_staged_def)
    have "runs ?I (bindM (bindM (opened_database M STAGING) (\<lambda>_. publish STAGING ACTIVE))
        (\<lambda>_. bindM (opened_database M ACTIVE) (\<lambda>db. bindM block_sled (\<lambda>_. returnM db)))) d
        (\<lambda>db d'. db = db1 \<and> done_with (mi_file M db1) c S d')"
    proof (rule runs_bind [where Q' = "\<lambda>_ d'. layout_ok c S d' \<and> migrated (mi_file M db1) d' \<and> md_input d' = Some (DirNode (entries d'))"])
      show "runs ?I (bindM (opened_database M STAGING) (\<lambda>_. publish STAGING ACTIVE)) d
          (\<lambda>_ d'. layout_ok c S d' \<and> migrated (mi_file M db1) d' \<and> md_input d' = Some (DirNode (entries d')))"
        unfolding runs_bind_pure [where m = "opened_database M STAGING", OF opened(2) [OF E st(1)]] by (rule publish_staged [OF l cs dir]) simp
    qed (use tail in blast)
    then show ?thesis using st by (simp add: open_committed_def present_def)
  qed
qed

text \<open>A migration under way, with the legacy configuration replaced.\<close>

definition under_way :: "bytes option \<Rightarrow> (rstring \<times> node) list \<Rightarrow> mdisk \<Rightarrow> bool" where
  "under_way c S d \<longleftrightarrow> layout_ok c S d \<and> started d \<and> node_at d (In CONF) = Some (FileNode BLOCKER) \<and> (\<exists>es. md_input d = Some (DirNode es))"

lemma under_way_resumable: "under_way c S d \<Longrightarrow> resumable fb c S d"
  by (simp add: under_way_def resumable_def)

lemma started_staging: "only {n} d d' \<Longrightarrow> STAGING = In n \<Longrightarrow> started d' = started d"
  by (auto simp: started_def only_def name_eqs)

lemma under_way_staging:
  assumes u: "under_way c S d" and o: "only {n} d d'" and n: "STAGING = In n"
  shows "under_way c S d'"
proof -
  have "n \<noteq> CONF" "n \<noteq> CONF_BACKUP" using n by (auto simp: name_eqs)
  then have "layout_ok c S d'" "node_at d' (In CONF) = node_at d (In CONF)" using u layout_keep [OF _ o] o by (auto simp: under_way_def only_def)
  then show ?thesis using u o started_staging [OF o n] by (auto simp: under_way_def only_def)
qed

lemma under_way_import:
  assumes u: "under_way c S d" and o: "only {IMPORT} d d'"
  shows "under_way c S d'"
proof -
  have "layout_ok c S d'" by (rule layout_keep [OF _ o]) (use u in \<open>simp_all add: under_way_def name_eqs\<close>)
  moreover have "node_at d' (In CONF) = node_at d (In CONF)" using o by (simp add: only_def name_eqs)
  ultimately show ?thesis using u o phases_cong(2) [OF o conf_names_quiet(2)] by (auto simp: under_way_def only_def)
qed

lemma under_way_saved: "under_way c S d \<Longrightarrow> c = Some b \<Longrightarrow> node_at d (In CONF_BACKUP) = Some (FileNode b)"
  by (auto simp: under_way_def layout_ok_def conf_ok_def)

lemma runs_start:
  assumes l: "layout_ok c S d" and dir: "md_input d = Some (DirNode es)" and ph: "unmarked d \<or> started d"
  shows "runs (resumable fb c S) (bindM (check_marker MIGRATING) (\<lambda>st.
     if st then returnM ()
     else bindM (askM (\<lambda>d. if present STAGING d \<or> present CORRUPT d
                           then Inl (Internal ''Untracked metadata artifacts; refusing automatic migration'') else Inr ())) (\<lambda>_.
          write_marker MIGRATING MIGRATION_VERSION))) d
     (\<lambda>_ d'. layout_ok c S d' \<and> started d' \<and> (\<exists>es. md_input d' = Some (DirNode es)))"
proof (cases "started d")
  case True
  then show ?thesis using l dir by (simp add: check_marker_def read_file_def started_def)
next
  case False
  then have u: "unmarked d" using ph by blast
  obtain n where n: "MIGRATING = In n" "\<not> legacy_name n" "\<not> legacy_name (n @ bytes_of ''.tmp'')" "CONF \<notin> {n @ bytes_of ''.tmp'', n}"
    "CONF_BACKUP \<notin> {n @ bytes_of ''.tmp'', n}" "{n @ bytes_of ''.tmp''} \<inter> marker_names = {}" "In n \<noteq> ACTIVE" "In n \<noteq> COMMITTED"
    "In (n @ bytes_of ''.tmp'') \<noteq> ACTIVE" "In (n @ bytes_of ''.tmp'') \<noteq> COMMITTED"
    by (simp add: name_eqs legacy_simp marker_names_def)
  have r: "resumable fb c S d" using l u by (simp add: resumable_def)
  have "runs (resumable fb c S) (write_marker (In n) MIGRATION_VERSION) d
      (\<lambda>_ d'. layout_ok c S d' \<and> started d' \<and> (\<exists>es. md_input d' = Some (DirNode es)))"
  proof (rule runs_write_marker [OF n(2,3) dir])
    fix d' assume "only {n @ bytes_of ''.tmp''} d d'"
    then show "resumable fb c S d'" by (rule resumable_keep [OF r]) (use n(4-6) in auto)
  next
    fix d' assume o: "only {n @ bytes_of ''.tmp'', n} d d'" and m: "node_at d' (In n) = Some (FileNode MIGRATION_VERSION)"
    have "layout_ok c S d'" by (rule layout_keep [OF l o n(4,5)])
    moreover have "started d'" using o m u n(1,7-10) by (simp add: started_def unmarked_def only_def name_eqs)
    ultimately show "resumable fb c S d' \<and> layout_ok c S d' \<and> started d' \<and> (\<exists>es. md_input d' = Some (DirNode es))"
      using o by (simp add: resumable_def only_def)
  qed
  then show ?thesis using u by (simp add: check_marker_def read_file_def unmarked_def present_def n(1))
qed

lemma runs_stage:
  assumes E: "migration_env M V c S L db1" and u: "under_way c S d"
  shows "runs (resumable fb c S) (stage M L) d (\<lambda>_ d'. under_way c S d' \<and> node_at d' STAGING = Some (FileNode (mi_file M db1)))"
proof -
  obtain db0 where db0: "mi_create M = Inr db0" "initialize_database (mi_redb M) db0 L = Inr db1" using E by (auto simp: migration_env_def)
  obtain n where n: "STAGING = In n" by (simp add: name_eqs)
  have q: "\<not> legacy_name n" using quiet_markers(2) n by blast
  obtain es where dir: "md_input d = Some (DirNode es)" using u by (auto simp: under_way_def)
  have w: "runs (resumable fb c S) (write_all (In n) (mi_file M db0 # mi_torn M)) d (\<lambda>_ d'. under_way c S d')"
    by (rule runs_weaken [OF runs_write_all [OF q under_way_resumable [OF under_way_staging [OF u _ n]] only_refl [OF dir]]])
      (auto intro: under_way_staging [OF u _ n])
  have r: "redbE (Inr db0 :: string + 'a) = Inr db0" by (simp add: redbE_def map_err_def)
  have "runs (resumable fb c S) (bindM (write_all (In n) (mi_file M db0 # mi_torn M)) (\<lambda>_.
      bindM (liftM (initialize_database (mi_redb M) db0 L)) (\<lambda>db. bindM (stepM (put_node (In n) (FileNode (mi_file M db)))) (\<lambda>_.
      liftM (validate_database (mi_redb M) db))))) d (\<lambda>_ d'. under_way c S d' \<and> node_at d' (In n) = Some (FileNode (mi_file M db1)))"
  proof (rule runs_bind [OF w])
    fix x :: unit and d' assume "under_way c S d'"
    then have "under_way c S (put_node (In n) (FileNode (mi_file M db1)) d')" by (rule under_way_staging [OF _ put_only [OF q] n])
    then show "runs (resumable fb c S) (bindM (liftM (initialize_database (mi_redb M) db0 L)) (\<lambda>db. bindM (stepM (put_node (In n) (FileNode (mi_file M db)))) (\<lambda>_.
      liftM (validate_database (mi_redb M) db)))) d' (\<lambda>_ d'. under_way c S d' \<and> node_at d' (In n) = Some (FileNode (mi_file M db1)))"
      using migration_envD(2) [OF E] under_way_resumable by (simp add: db0(2))
  qed
  then show ?thesis by (simp add: stage_def n db0(1) r)
qed

lemma runs_commit:
  assumes E: "migration_env M V c S L db1" and u: "under_way c S d" and st: "node_at d STAGING = Some (FileNode (mi_file M db1))"
  shows "runs (resumable (mi_file M db1) c S) (bindM (write_marker COMMITTED MIGRATION_VERSION) (\<lambda>_.
     bindM (publish STAGING ACTIVE) (\<lambda>_. open_database M ACTIVE))) d (\<lambda>db d'. db = db1 \<and> done_with (mi_file M db1) c S d')"
proof -
  let ?fb = "mi_file M db1"
  obtain n where n: "COMMITTED = In n" "\<not> legacy_name n" "\<not> legacy_name (n @ bytes_of ''.tmp'')" "CONF \<notin> {n @ bytes_of ''.tmp'', n}"
    "CONF_BACKUP \<notin> {n @ bytes_of ''.tmp'', n}" "{n @ bytes_of ''.tmp''} \<inter> marker_names = {}"
    by (simp add: name_eqs legacy_simp marker_names_def)
  obtain es where dir: "md_input d = Some (DirNode es)" using u by (auto simp: under_way_def)
  have l: "layout_ok c S d" "node_at d ACTIVE = None" "node_at d (In CONF) = Some (FileNode BLOCKER)" using u by (simp_all add: under_way_def started_def)
  show ?thesis
  proof (rule runs_bind [where Q' = "\<lambda>_ d'. layout_ok c S d' \<and> committed_staged ?fb d' \<and> node_at d' (In CONF) = Some (FileNode BLOCKER)
      \<and> md_input d' = Some (DirNode (entries d'))"])
    show "runs (resumable ?fb c S) (write_marker COMMITTED MIGRATION_VERSION) d (\<lambda>_ d'. layout_ok c S d' \<and> committed_staged ?fb d'
        \<and> node_at d' (In CONF) = Some (FileNode BLOCKER) \<and> md_input d' = Some (DirNode (entries d')))"
      unfolding n(1)
    proof (rule runs_write_marker [OF n(2,3) dir])
      fix d' assume "only {n @ bytes_of ''.tmp''} d d'"
      then show "resumable ?fb c S d'" by (rule resumable_keep [OF under_way_resumable [OF u]]) (use n(4-6) in auto)
    next
      fix d' assume o: "only {n @ bytes_of ''.tmp'', n} d d'" and m: "node_at d' (In n) = Some (FileNode MIGRATION_VERSION)"
      have "layout_ok c S d'" by (rule layout_keep [OF l(1) o n(4,5)])
      moreover have "committed_staged ?fb d'" using o m st l(2) n(1) by (auto simp: committed_staged_def only_def name_eqs)
      moreover have "node_at d' (In CONF) = Some (FileNode BLOCKER)" using o l(3) n(4) by (simp add: only_def)
      moreover have "md_input d' = Some (DirNode (entries d'))" using o by (auto simp: only_def entries_def)
      ultimately show "resumable ?fb c S d' \<and> layout_ok c S d' \<and> committed_staged ?fb d' \<and> node_at d' (In CONF) = Some (FileNode BLOCKER)
        \<and> md_input d' = Some (DirNode (entries d'))" by (simp add: resumable_def)
    qed
  next
    fix x d1 assume d1: "layout_ok c S d1 \<and> committed_staged ?fb d1 \<and> node_at d1 (In CONF) = Some (FileNode BLOCKER) \<and> md_input d1 = Some (DirNode (entries d1))"
    show "runs (resumable ?fb c S) (bindM (publish STAGING ACTIVE) (\<lambda>_. open_database M ACTIVE)) d1 (\<lambda>db d'. db = db1 \<and> done_with ?fb c S d')"
    proof (rule runs_bind [where Q' = "\<lambda>_ d'. done_with ?fb c S d'"])
      show "runs (resumable ?fb c S) (publish STAGING ACTIVE) d1 (\<lambda>_ d'. done_with ?fb c S d')"
        by (rule publish_staged [where es = "entries d1"]) (use d1 in \<open>simp_all add: done_with_def\<close>)
    next
      fix x d2 assume d2: "done_with ?fb c S d2"
      then have "open_database M ACTIVE d2 = ([], Inr db1)" by (intro opened [OF E]) (simp add: done_with_def migrated_def)
      then show "runs (resumable ?fb c S) (open_database M ACTIVE) d2 (\<lambda>db d'. db = db1 \<and> done_with ?fb c S d')"
        using d2 by (simp add: runs_def)
    qed
  qed
qed

lemma runs_migrating:
  assumes E: "migration_env M V c S L db1" and l: "layout_ok c S d" and dir: "md_input d = Some (DirNode es)" and ph: "unmarked d \<or> started d"
  shows "runs (resumable (mi_file M db1) c S) (open_migrating M) d (\<lambda>db d'. db = db1 \<and> done_with (mi_file M db1) c S d')"
proof -
  let ?I = "resumable (mi_file M db1) c S" and ?Q = "\<lambda>db d'. db = db1 \<and> done_with (mi_file M db1) c S d'"
  let ?rest = "\<lambda>legacy. bindM (stage M legacy) (\<lambda>_. bindM (write_marker COMMITTED MIGRATION_VERSION) (\<lambda>_.
     bindM (publish STAGING ACTIVE) (\<lambda>_. open_database M ACTIVE)))"
  have copied: "runs ?I (bindM (legacy_copy M) ?rest) d1 ?Q" if u: "under_way c S d1" for d1
  proof -
    have S: "legacy_part d1 = S" using u by (simp add: under_way_def layout_ok_def)
    obtain es where dir1: "md_input d1 = Some (DirNode es)" using u by (auto simp: under_way_def)
    have LT: "legacy_trees M c (legacy_part d1) L" using E S by (simp add: migration_env_def)
    have "runs ?I (legacy_copy M) d1 (\<lambda>r d'. r = L \<and> only {IMPORT} d1 d')"
      by (rule runs_legacy_copy [OF LT dir1 under_way_saved [OF u] under_way_resumable [OF under_way_import [OF u]]])
    then show ?thesis
    proof (rule runs_bind)
      fix r d2 assume "r = L \<and> only {IMPORT} d1 d2"
      then have r: "r = L" and u2: "under_way c S d2" using under_way_import [OF u] by auto
      show "runs ?I (?rest r) d2 ?Q" unfolding r by (rule runs_bind [OF runs_stage [OF E u2]]) (auto intro: runs_commit [OF E])
    qed
  qed
  obtain n where n: "STAGING = In n" by (simp add: name_eqs)
  have staged: "runs ?I (bindM (askM (\<lambda>d. Inr (present STAGING d))) (\<lambda>staged.
      bindM (if staged then stepM (del_node STAGING) else returnM ()) (\<lambda>_. bindM (legacy_copy M) ?rest))) d1 ?Q" if u: "under_way c S d1" for d1
  proof -
    have "under_way c S (del_node STAGING d1)"
      unfolding n by (rule under_way_staging [OF u del_only n]) (use quiet_markers(2) n in blast)
    then show ?thesis using copied u under_way_resumable by simp
  qed
  show ?thesis
    unfolding open_migrating_def
  proof (rule runs_bind_assoc, rule runs_bind [OF runs_start [OF l dir ph]])
    fix x d1 assume d1: "layout_ok c S d1 \<and> started d1 \<and> (\<exists>es. md_input d1 = Some (DirNode es))"
    then obtain es1 where dir1: "md_input d1 = Some (DirNode es1)" by blast
    have r: "?I d1" using d1 by (simp add: resumable_def)
    have "runs ?I block_sled d1 (\<lambda>_ d'. under_way c S d')"
    proof (rule runs_block_phase [OF r dir1])
      fix d' assume o: "only conf_names d1 d'" and "layout_ok c S d'" "node_at d' (In CONF) = Some (FileNode BLOCKER)"
      then show "under_way c S d'" using d1 phases_cong(2) [OF o conf_names_quiet(1)] by (auto simp: under_way_def only_def)
    qed
    then show "runs ?I (bindM block_sled (\<lambda>_. bindM (askM (\<lambda>d. Inr (present STAGING d))) (\<lambda>staged.
      bindM (if staged then stepM (del_node STAGING) else returnM ()) (\<lambda>_. bindM (legacy_copy M) ?rest)))) d1 ?Q"
      by (rule runs_bind) (rule staged)
  qed
qed

text \<open>An open from any state of a migration succeeds with its database and leaves only such states.\<close>

lemma runs_migration_open:
  assumes E: "migration_env M V c S L db1" and r: "resumable (mi_file M db1) c S d"
  shows "runs (resumable (mi_file M db1) c S) (migration_open M) d (\<lambda>db d'. db = db1 \<and> done_with (mi_file M db1) c S d')"
proof -
  let ?I = "resumable (mi_file M db1) c S" and ?Q = "\<lambda>db d'. db = db1 \<and> done_with (mi_file M db1) c S d'"
  define d0 where d0: "d0 = (if md_input d = None then d\<lparr>md_input := Some (DirNode [])\<rparr> else d)"
  have l: "layout_ok c S d" using r by (simp add: resumable_def)
  have e: "entries d0 = entries d" by (simp add: entries_def d0)
  then have n: "node_at d0 (In k) = node_at d (In k)" "legacy_part d0 = legacy_part d" for k by (simp_all add: node_at.simps(3) legacy_part_def)
  have cf: "conf_ok c d0 = conf_ok c d" by (simp add: conf_ok_def n split: option.splits)
  have l': "layout_ok c S d0" using l by (simp add: layout_ok_def n cf) (auto simp: d0)
  obtain es where dir: "md_input d0 = Some (DirNode es)" using l by (auto simp: layout_ok_def d0)
  have ph: "unmarked d0 = unmarked d" "started d0 = started d" "committed_staged fb d0 = committed_staged fb d" "migrated fb d0 = migrated fb d" for fb
    by (simp_all add: unmarked_def started_def committed_staged_def migrated_def name_eqs n del: node_at.simps)
  have r': "?I d0" using r l' ph by (simp add: resumable_def)
  have "runs ?I (bindM (check_marker COMMITTED) (\<lambda>committed. if committed then open_committed M
      else bindM (askM (\<lambda>d. Inr (present ACTIVE d))) (\<lambda>active. if active then open_adopted M else open_migrating M))) d0 ?Q"
  proof (cases "unmarked d \<or> started d")
    case True
    then have p: "unmarked d0 \<or> started d0" unfolding ph .
    then have "node_at d0 COMMITTED = None" "node_at d0 ACTIVE = None" by (auto simp: unmarked_def started_def)
    then show ?thesis using runs_migrating [OF E l' dir p] by (simp add: check_marker_def read_file_def present_def)
  next
    case False
    then have p: "committed_staged (mi_file M db1) d0 \<or> migrated (mi_file M db1) d0" using r unfolding ph by (auto simp: resumable_def)
    then have "node_at d0 COMMITTED = Some (FileNode MIGRATION_VERSION)" by (auto simp: committed_staged_def migrated_def)
    then show ?thesis using runs_committed [OF E l' dir p] by (simp add: check_marker_def read_file_def)
  qed
  moreover have "\<not> mi_locked M" using E by (simp add: migration_env_def)
  moreover have "\<not> present FILE_STATE d" "\<not> present ARCHIVE d" "\<forall>b. md_input d \<noteq> Some (FileNode b)"
    using l by (auto simp: layout_ok_def present_def FILE_STATE_def ARCHIVE_def)
  ultimately show ?thesis using r' l unfolding migration_open_def by (auto simp: layout_ok_def d0 [symmetric] split: option.splits node.splits)
qed

section \<open>After the commitment\<close>

lemma bindM_Inr:
  "bindM m f d = (ds, Inr y) \<longleftrightarrow> (\<exists>ds1 x ds2. m d = (ds1, Inr x) \<and> f x (final d ds1) = (ds2, Inr y) \<and> ds = ds1 @ ds2)"
  by (auto simp: bindM_def split: prod.splits sum.splits)

lemma opened_database_Inr:
  "opened_database M p d = (ds, Inr db) \<Longrightarrow> ds = [] \<and> (\<exists>b. node_at d p = Some (FileNode b) \<and> mi_open M b = Inr db)"
  by (auto simp: opened_database_def open_database_def bindM_Inr askM_def liftM_def returnM_def split: option.splits node.splits)

lemma open_committed_Inr:
  assumes "open_committed M d = (ds, Inr db)"
  shows "\<exists>b. mi_open M b = Inr db \<and> (node_at d ACTIVE = Some (FileNode b) \<or> node_at d ACTIVE = None \<and> node_at d STAGING = Some (FileNode b))"
proof (cases "node_at d ACTIVE = None \<and> node_at d STAGING \<noteq> None")
  case True
  then have p: "(\<not> present ACTIVE d \<and> present STAGING d) = True" by (simp add: present_def)
  have "bindM (bindM (opened_database M STAGING) (\<lambda>_. publish STAGING ACTIVE)) (\<lambda>_. bindM (opened_database M ACTIVE) (\<lambda>db.
      bindM block_sled (\<lambda>_. returnM db))) d = (ds, Inr db)"
    using assms unfolding open_committed_def bindM_def [of "askM _"] askM_def p by simp
  from bindM_Inr [THEN iffD1, OF this] obtain ds1 u ds2 where s1: "bindM (opened_database M STAGING) (\<lambda>_. publish STAGING ACTIVE) d = (ds1, Inr u)"
    and rest: "bindM (opened_database M ACTIVE) (\<lambda>db. bindM block_sled (\<lambda>_. returnM db)) (final d ds1) = (ds2, Inr db)" by blast
  from bindM_Inr [THEN iffD1, OF rest] obtain ds3 where s2: "opened_database M ACTIVE (final d ds1) = (ds3, Inr db)"
    by (auto simp: bindM_Inr returnM_def)
  note s = s1 s2
  obtain ds0 x where o: "opened_database M STAGING d = (ds0, Inr x)" "publish STAGING ACTIVE (final d ds0) = (drop (length ds0) ds1, Inr u)"
    using s(1) unfolding bindM_Inr by auto
  have "ds0 = []" using opened_database_Inr [OF o(1)] by simp
  then obtain v where v: "node_at d STAGING = Some v" "final d ds1 = put_node ACTIVE v (del_node STAGING d)"
    using o(2) by (cases "node_at d STAGING") (auto simp: bindM_def publish_def askM_def stepM_def)
  have "node_at (final d ds1) ACTIVE = Some v" unfolding v(2) by (simp add: name_eqs)
  then show ?thesis using opened_database_Inr [OF s(2)] v(1) True by auto
next
  case False
  then have p: "(\<not> present ACTIVE d \<and> present STAGING d) = False" by (simp add: present_def)
  have "bindM (opened_database M ACTIVE) (\<lambda>db. bindM block_sled (\<lambda>_. returnM db)) d = (ds, Inr db)"
    using assms unfolding open_committed_def bindM_def [of "askM _"] askM_def p by (simp add: bindM_def [of "returnM _"] returnM_def)
  from bindM_Inr [THEN iffD1, OF this] obtain ds1 x ds2 where a: "opened_database M ACTIVE d = (ds1, Inr x)"
    "bindM block_sled (\<lambda>_. returnM x) (final d ds1) = (ds2, Inr db)" by blast
  have "x = db" using bindM_Inr [THEN iffD1, OF a(2)] by (auto simp: returnM_def)
  then show ?thesis using opened_database_Inr [OF a(1)] by auto
qed

section \<open>Properties\<close>

text \<open>
  C28. A migration can be interrupted anywhere, any number of times.  Let the metadata directory hold a
  legacy database with configuration \<open>c\<close> and trees \<open>L\<close>, or nothing, and no marker of a migration.  On
  every disk that interrupted attempts to open it leave, the next attempt to open succeeds, with exactly
  the legacy tables and the version marker; afterwards the legacy configuration is blocked, its original
  is saved and the legacy entries are untouched.  This assumes that the database calls and the copy and
  opening of the legacy database do not fail, and that the file of the new database opens as what was
  written to it.
\<close>

theorem migration_resumes:
  assumes R: "redb_ok (mi_redb M) V" "redb_total (mi_redb M)" and lock: "\<not> mi_locked M"
    and files: "mi_create M = Inr db0" "V db0 = (\<lambda>_ _. None)" "\<forall>db. initialize_database (mi_redb M) db0 L = Inr db \<longrightarrow> mi_open M (mi_file M db) = Inr db"
    and legacy: "legacy_trees M c S L"
    and start: "layout_ok c S d" "unmarked d"
    and attempts: "(\<lambda>d d'. d' \<in> set (fst (migration_open M d)))\<^sup>*\<^sup>* d d'"
  shows "\<exists>ds db. migration_open M d' = (ds, Inr db) \<and> V db = migrated_tables L
    \<and> node_at (final d' ds) (In CONF) = Some (FileNode BLOCKER) \<and> legacy_part (final d' ds) = S
    \<and> (\<forall>b. c = Some b \<longrightarrow> node_at (final d' ds) (In CONF_BACKUP) = Some (FileNode b))"
proof -
  obtain db1 where i: "initialize_database (mi_redb M) db0 L = Inr db1" using initialize_total [OF R(2)] by blast
  have E: "migration_env M V c S L db1" using R lock files legacy i by (auto simp: migration_env_def)
  let ?I = "resumable (mi_file M db1) c S"
  have "?I d'" using attempts
  proof (induction rule: rtranclp_induct)
    case base
    show ?case using start by (simp add: resumable_def)
  next
    case (step d1 d2)
    then show ?case using runs_migration_open [OF E step.IH] by (simp add: runs_def)
  qed
  from runs_migration_open [OF E this] obtain ds where "migration_open M d' = (ds, Inr db1)" "done_with (mi_file M db1) c S (final d' ds)"
    by (cases "migration_open M d'") (auto simp: runs_def)
  then show ?thesis using migration_envD(1) [OF E] by (auto simp: done_with_def layout_ok_def conf_ok_def)
qed

text \<open>A legacy directory with one name.\<close>

definition legacy_disk :: mdisk where
  "legacy_disk = \<lparr>md_input = Some (DirNode [(CONF, FileNode [1]), (LEGACY_DB, DirNode [([120], FileNode [2])])]), md_side = []\<rparr>"

definition imported_db :: demo_db where
  "imported_db = demo_empty(NAME_INDEX := RBT.insert [97] (replicate 16 1) RBT.empty,
     WATCHER_CONFIG := RBT.insert MIGRATION_MARKER MIGRATION_VERSION RBT.empty)"

definition demo_trees :: trees where
  "demo_trees t = (if t = NAME_INDEX then [([97], replicate 16 1)] else [])"

definition demo_mig :: "demo_db mig_env" where
  "demo_mig = \<lparr>mi_redb = demo_redb, mi_open = \<lambda>b. if b = [1] then Inr imported_db else Inl ''not a database'', mi_create = Inr demo_empty,
     mi_file = \<lambda>db. if RBT.lookup (db WATCHER_CONFIG) MIGRATION_MARKER = None then [0] else [1], mi_torn = [[0, 0]],
     mi_sled = \<lambda>es. (es, Inr demo_trees), mi_locked = False\<rparr>"

lemma demo_initialize: "initialize_database demo_redb demo_empty (Some demo_trees) = Inr imported_db"
  by (simp add: initialize_database_def copy_legacy_tree_def demo_redb_def redbE_def map_err_def demo_trees_def imported_db_def demo_empty_def)

lemma legacy_disk_ok: "layout_ok (Some [1]) [(LEGACY_DB, DirNode [([120], FileNode [2])])] legacy_disk" "unmarked legacy_disk"
proof -
  have e: "entries legacy_disk = [(CONF, FileNode [1]), (LEGACY_DB, DirNode [([120], FileNode [2])])]" by (simp add: entries_def legacy_disk_def)
  then have "legacy_part legacy_disk = [(LEGACY_DB, DirNode [([120], FileNode [2])])]" by (simp add: legacy_part_def name_eqs legacy_simp)
  moreover have "BLOCKER \<noteq> [1]" unfolding BLOCKER_def by code_simp
  ultimately show "layout_ok (Some [1]) [(LEGACY_DB, DirNode [([120], FileNode [2])])] legacy_disk" "unmarked legacy_disk"
    using e by (auto simp: layout_ok_def conf_ok_def unmarked_def node_at.simps(3) name_eqs legacy_disk_def)
qed

theorem migration_resumes_witness:
  "\<exists>d' ds db. d' \<noteq> legacy_disk \<and> d' \<in> set (fst (migration_open demo_mig legacy_disk))
     \<and> migration_open demo_mig d' = (ds, Inr db) \<and> demo_view db = migrated_tables (Some demo_trees)
     \<and> node_at (final d' ds) (In CONF) = Some (FileNode BLOCKER) \<and> node_at (final d' ds) (In CONF_BACKUP) = Some (FileNode [1])
     \<and> migrated_tables (Some demo_trees) NAME_INDEX [97] = Some (replicate 16 1)"
proof -
  have m: "mi_redb demo_mig = demo_redb" "mi_create demo_mig = Inr demo_empty" "\<not> mi_locked demo_mig"
    "mi_file demo_mig imported_db = [1]" "mi_open demo_mig [1] = Inr imported_db"
    by (simp_all add: demo_mig_def imported_db_def)
  have files: "\<forall>db. initialize_database (mi_redb demo_mig) demo_empty (Some demo_trees) = Inr db \<longrightarrow> mi_open demo_mig (mi_file demo_mig db) = Inr db"
    using m demo_initialize by auto
  have L: "legacy_trees demo_mig (Some [1]) [(LEGACY_DB, DirNode [([120], FileNode [2])])] (Some demo_trees)"
    by (simp add: legacy_trees_def demo_mig_def)
  have R: "redb_ok (mi_redb demo_mig) demo_view" "redb_total (mi_redb demo_mig)" by (simp_all add: m demo_redb_ok demo_redb_total)
  have V: "demo_view demo_empty = (\<lambda>_ _. None)" by (simp add: demo_view_def demo_empty_def fun_eq_iff)
  note again = migration_resumes [OF R m(3) m(2) V files L legacy_disk_ok]
  let ?attempt = "\<lambda>d d'. d' \<in> set (fst (migration_open demo_mig d))"
  obtain ds where f: "fst (migration_open demo_mig legacy_disk) = ds" "node_at (final legacy_disk ds) (In CONF) = Some (FileNode BLOCKER)"
    using again [OF rtranclp.rtrancl_refl] by auto
  have "BLOCKER \<noteq> [1]" unfolding BLOCKER_def by code_simp
  then have "node_at legacy_disk (In CONF) \<noteq> Some (FileNode BLOCKER)"
    by (simp add: node_at.simps(3) entries_def legacy_disk_def)
  then have "ds \<noteq> []" "last ds \<noteq> legacy_disk" using f(2) by (auto simp: final_def split: if_splits)
  then have l: "?attempt legacy_disk (last ds)" using f(1) by simp
  then have "?attempt\<^sup>*\<^sup>* legacy_disk (last ds)" by (rule r_into_rtranclp)
  from again [OF this] l \<open>last ds \<noteq> legacy_disk\<close> show ?thesis by (auto simp: migrated_tables_def demo_trees_def)
qed

text \<open>
  C29. Once a migration is committed, the legacy database is never read again and no new database is
  created, whatever has become of the files: the result does not depend on them, a store that opens is
  the content of the published file, or of the staged file when there is no published one, and a missing
  or damaged database is an error.
\<close>

theorem committed_never_reimports:
  assumes "node_at d COMMITTED = Some (FileNode b)"
  shows "migration_open (M\<lparr>mi_sled := f, mi_create := k\<rparr>) d = migration_open M d
    \<and> (case migration_open M d of
         (_, Inl _) \<Rightarrow> True
       | (_, Inr db) \<Rightarrow> b = MIGRATION_VERSION \<and> (\<exists>content. mi_open M content = Inr db
           \<and> (node_at d ACTIVE = Some (FileNode content) \<or> node_at d ACTIVE = None \<and> node_at d STAGING = Some (FileNode content))))"
proof -
  let ?M = "M\<lparr>mi_sled := f, mi_create := k\<rparr>"
  obtain n where n: "COMMITTED = In n" by (simp add: name_eqs)
  have dir: "\<exists>es. md_input d = Some (DirNode es)" using assms
    by (auto simp: n node_at.simps(3) entries_def split: option.splits node.splits)
  have "open_database ?M = open_database M"
    by (intro ext) (simp add: open_database_def askM_def split: option.split node.split)
  then have o: "opened_database ?M = opened_database M" by (intro ext) (simp add: opened_database_def)
  have same: "open_file_layout ?M = open_file_layout M" "open_committed ?M = open_committed M"
    unfolding open_file_layout_def open_committed_def o by (rule refl)+
  have marker: "check_marker COMMITTED d = ([], if b = MIGRATION_VERSION then Inr True else Inl (Internal ''Unsupported or corrupt migration state''))"
    using assms by (simp add: check_marker_def askM_def read_file_def)
  have eq: "migration_open N d = (if mi_locked N then ([], Inl (Io WouldBlock)) else if present FILE_STATE d then open_file_layout N d
      else if present ARCHIVE d then ([], Inl (Internal ''Ambiguous legacy migration archive''))
      else (case open_committed N d of (ds, r) \<Rightarrow> (d # (if b = MIGRATION_VERSION then ds else []),
        if b = MIGRATION_VERSION then r else Inl (Internal ''Unsupported or corrupt migration state''))))" for N :: "'a mig_env"
    using dir marker by (auto simp: migration_open_def bindM_def liftM_def askM_def stepM_def split: prod.splits)
  have "\<not> (\<exists>ds db. open_file_layout M d = (ds, Inr db))" using dir
    by (auto simp: open_file_layout_def bindM_Inr dest!: opened_database_Inr)
  then show ?thesis using eq [of M] eq [of ?M] same open_committed_Inr [of M d] by (auto split: prod.splits sum.splits if_splits)
qed

text \<open>A committed directory whose database is gone, while the legacy database is still there.\<close>

theorem committed_never_reimports_witness:
  "let d = put_node COMMITTED (FileNode MIGRATION_VERSION) legacy_disk in
     node_at d COMMITTED = Some (FileNode MIGRATION_VERSION) \<and> node_at d (In LEGACY_DB) \<noteq> None
     \<and> migration_open (demo_mig\<lparr>mi_sled := \<lambda>es. (es, Inl ''unreadable''), mi_create := Inl ''denied''\<rparr>) d = migration_open demo_mig d
     \<and> (case migration_open demo_mig d of (_, Inl _) \<Rightarrow> True | (_, Inr db) \<Rightarrow> False)"
proof -
  let ?d = "put_node COMMITTED (FileNode MIGRATION_VERSION) legacy_disk"
  have n: "node_at ?d COMMITTED = Some (FileNode MIGRATION_VERSION)" by (simp add: name_eqs)
  have "node_at ?d (In LEGACY_DB) \<noteq> None" "node_at ?d ACTIVE = None" "node_at ?d STAGING = None"
    by (simp_all add: name_eqs) (simp_all add: node_at.simps(3) entries_def legacy_disk_def name_eqs)
  then show ?thesis
    using n committed_never_reimports [OF n, where M = demo_mig and f = "\<lambda>es. (es, Inl ''unreadable'')" and k = "Inl ''denied''"]
    by (auto simp: Let_def split: prod.splits sum.splits)
qed

end
