(* ===== verification/Oos_Store_Open.thy ===== *)
theory Oos_Store_Open
  imports Complex_Main Oos_Fsck Oos_Migration_Safe Oos_Watcher_Queue Oos_Crypto
begin

text \<open>
  How a store is opened (\<^verbatim>\<open>core/src/engine.rs\<close>): the lock, the decision between a plain and an encrypted
  store, the key file, and the order in which segments, metadata and redo log are opened; and the
  engine's statistics and small wrappers.
\<close>

section \<open>The root directory of a store\<close>

text \<open>\<open>rt_vault\<close> is the key file and \<open>rt_tmp\<close> the temporary files beside it.\<close>

record root_disk =
  rt_exists :: bool
  rt_vault :: "bytes option"
  rt_tmp :: "(rstring \<times> bytes) list"
  rt_segments :: "seg_disk option"
  rt_meta :: mdisk
  rt_wal :: wal_disk

definition has_segments :: "root_disk \<Rightarrow> bool" where
  "has_segments d =
     (case rt_segments d of
        None \<Rightarrow> False
      | Some sd \<Rightarrow> list_ex (\<lambda>n. is_segment_name (from_utf8_lossy n)) (dir_names (sd_files sd) @ map fst (sd_dirs sd)))"

definition has_metadata :: "mdisk \<Rightarrow> bool" where
  "has_metadata m \<longleftrightarrow> (case md_input m of Some (FileNode _) \<Rightarrow> True | _ \<Rightarrow> False) \<or> present ARCHIVE m \<or> present FILE_STATE m \<or> entries m \<noteq> []"

definition is_store_empty :: "root_disk \<Rightarrow> bool" where
  "is_store_empty d \<longleftrightarrow> \<not> rt_exists d \<or> (\<not> has_segments d \<and> \<not> has_metadata (rt_meta d) \<and> wd_log (rt_wal d) = [])"

section \<open>The key file\<close>

text \<open>
  \<^verbatim>\<open>write_vault_file_atomic\<close>: the disks it leaves, one for every part of the temporary file that may have
  been written, and the last one after the rename.  The file must not exist yet.
\<close>

definition write_vault_file_atomic :: "rstring \<Rightarrow> bytes \<Rightarrow> root_disk \<Rightarrow> root_disk list \<times> unit result" where
  "write_vault_file_atomic tmp bs d =
     (if map_of (rt_tmp d) tmp \<noteq> None then ([], Inl (Io OtherIo))
      else (map (\<lambda>n. d\<lparr>rt_tmp := AList.update tmp (take n bs) (rt_tmp d)\<rparr>) [0..<Suc (length bs)]
              @ [d\<lparr>rt_vault := Some bs\<rparr>], Inr ()))"

text \<open>The random bytes of a new key file, and the name of its temporary file.\<close>

record vault_random =
  vr_master_key :: bytes
  vr_salt :: bytes
  vr_nonce :: bytes
  vr_tmp :: rstring

definition new_vault :: "ext \<Rightarrow> vault_random \<Rightarrow> rstring \<Rightarrow> root_disk \<Rightarrow> root_disk list \<times> vault_key result" where
  "new_vault X rnd pass d =
     (case vault_create X (vr_master_key rnd) (vr_salt rnd) (vr_nonce rnd) pass of
        Inl err \<Rightarrow> ([], Inl err)
      | Inr (vk, bs) \<Rightarrow>
          (case write_vault_file_atomic (vr_tmp rnd) bs d of (ds, r) \<Rightarrow> (ds, bindE r (\<lambda>_. Inr vk))))"

definition acquire_store_lock :: "bool \<Rightarrow> root_disk \<Rightarrow> root_disk list \<times> unit result" where
  "acquire_store_lock held d =
     ([d\<lparr>rt_exists := True\<rparr>], if held then Inl (StoreLocked ''Store is already opened by another process'') else Inr ())"

section \<open>Opening\<close>

text \<open>What the parts need besides the disk: the migration's environment and the clock for new segments.\<close>

record 'db open_env =
  oe_ext :: ext
  oe_mig :: "'db mig_env"
  oe_env :: env
  oe_chunk_env :: "chunk_id \<Rightarrow> env"
  oe_held :: bool

text \<open>The disks are those of the metadata; segments and redo log live on in the engine.\<close>

definition open_parts :: "'db open_env \<Rightarrow> vault_key option \<Rightarrow> root_disk \<Rightarrow> root_disk list \<times> 'db engine result" where
  "open_parts N vk d =
     (let sd = (case rt_segments d of None \<Rightarrow> \<lparr>sd_files = [], sd_dirs = []\<rparr> | Some sd \<Rightarrow> sd)
      in case ss_open (oe_ext N) (oe_env N) sd 0 vk of
           Inl err \<Rightarrow> ([], Inl err)
         | Inr _ \<Rightarrow>
             (case migration_open (oe_mig N) (rt_meta d) of (ms, r) \<Rightarrow>
                (map (\<lambda>m. d\<lparr>rt_meta := m\<rparr>) ms,
                 bindE r (\<lambda>db. open_internal (oe_ext N) (mi_redb (oe_mig N)) (oe_env N) (oe_chunk_env N) sd db (rt_wal d) vk))))"

definition final_root :: "root_disk \<Rightarrow> root_disk list \<Rightarrow> root_disk" where
  "final_root d ds = last (d # ds)"

definition then_root :: "root_disk \<Rightarrow> root_disk list \<times> 'a result \<Rightarrow> ('a \<Rightarrow> root_disk \<Rightarrow> root_disk list \<times> 'b result) \<Rightarrow> root_disk list \<times> 'b result" where
  "then_root d m f =
     (case m of
        (ds, Inl err) \<Rightarrow> (ds, Inl err)
      | (ds, Inr x) \<Rightarrow> (case f x (final_root d ds) of (ds', r) \<Rightarrow> (ds @ ds', r)))"

definition store_open :: "'db open_env \<Rightarrow> root_disk \<Rightarrow> root_disk list \<times> 'db engine result" where
  "store_open N d =
     then_root d (acquire_store_lock (oe_held N) d) (\<lambda>_ d.
       if rt_vault d \<noteq> None then ([], Inl PasswordRequired) else open_parts N None d)"

definition password_key :: "ext \<Rightarrow> vault_random \<Rightarrow> rstring \<Rightarrow> root_disk \<Rightarrow> root_disk list \<times> vault_key result" where
  "password_key X rnd pass d =
     (case rt_vault d of
        Some bs \<Rightarrow> ([], vault_unlock X pass bs)
      | None \<Rightarrow>
          if \<not> is_store_empty d
          then ([], Inl (Internal ''Cannot open existing unencrypted store with --password: store already contains unencrypted data''))
          else new_vault X rnd pass d)"

definition store_open_with_password :: "'db open_env \<Rightarrow> vault_random \<Rightarrow> rstring \<Rightarrow> root_disk \<Rightarrow> root_disk list \<times> 'db engine result" where
  "store_open_with_password N rnd pass d =
     then_root d (acquire_store_lock (oe_held N) d) (\<lambda>_ d.
     then_root d (password_key (oe_ext N) rnd pass d) (\<lambda>vk. open_parts N (Some vk)))"

definition store_init_encrypted :: "'db open_env \<Rightarrow> vault_random \<Rightarrow> rstring \<Rightarrow> root_disk \<Rightarrow> root_disk list \<times> 'db engine result" where
  "store_init_encrypted N rnd pass d =
     then_root d (acquire_store_lock (oe_held N) d) (\<lambda>_ d.
       if rt_vault d \<noteq> None then ([], Inl (Internal ''Encrypted store already initialized (vault.key already exists)''))
       else if \<not> is_store_empty d
       then ([], Inl (Internal ''Cannot initialize encryption: store already contains existing unencrypted data.''))
       else then_root d (new_vault (oe_ext N) rnd pass d) (\<lambda>vk. open_parts N (Some vk)))"

section \<open>Wrappers and statistics\<close>

definition is_encrypted :: "'db engine \<Rightarrow> bool" where
  "is_encrypted e \<longleftrightarrow> eg_vault_key e \<noteq> None"

text \<open>The name of the file, when it is valid text.\<close>

definition put_name :: "path \<Rightarrow> rstring" where
  "put_name p =
     (if p = [] then bytes_of ''unnamed_file''
      else case last p of Normal c \<Rightarrow> if utf8_valid c then c else bytes_of ''unnamed_file'' | _ \<Rightarrow> bytes_of ''unnamed_file'')"

definition put_file :: "ext \<Rightarrow> 'db redb \<Rightarrow> put_env \<Rightarrow> path \<Rightarrow> source \<Rightarrow> 'db engine \<Rightarrow> ('db engine \<times> put_summary result) option" where
  "put_file X R P p = put_file_named X R P (put_name p)"

text \<open>The fingerprint of an open file; the modification time is in nanoseconds relative to the epoch.\<close>

definition fingerprint_from_file :: "u64 \<Rightarrow> int option \<Rightarrow> u64 \<Rightarrow> u64 \<Rightarrow> fingerprint" where
  "fingerprint_from_file len modified dev ino =
     \<lparr>fp_len = len,
      fp_modified = Option.bind modified (\<lambda>t. if t < 0 then None else Some (word_of_int (t div 10 ^ 9), word_of_int (t mod 10 ^ 9))),
      fp_identity = (dev, ino)\<rparr>"

definition eg_fsck :: "ext \<Rightarrow> 'db redb \<Rightarrow> 'db engine \<Rightarrow> fsck_report result" where
  "eg_fsck X R e = fsck_check X R (eg_segments e) (eg_db e)"

text \<open>The total size of the files below a directory; a link counts with its own size, which is not modelled.\<close>

fun dir_size :: "node \<Rightarrow> u64" and dirs_size :: "(rstring \<times> node) list \<Rightarrow> u64" where
  "dir_size (FileNode b) = word_of_nat (length b)"
| "dir_size (DirNode es) = dirs_size es"
| "dir_size LinkNode = 0"
| "dirs_size [] = 0"
| "dirs_size ((n, v) # es) = dir_size v + dirs_size es"

text \<open>The two ratios are exact quotients here, which the code rounds to floating-point numbers.\<close>

record engine_stats =
  es_total_chunks :: nat
  es_total_manifests :: nat
  es_total_objects :: nat
  es_total_snapshots :: nat
  es_logical_bytes :: u64
  es_latest_logical_bytes :: u64
  es_unique_chunks_bytes :: u64
  es_physical_disk_bytes :: u64
  es_dedup_ratio :: real
  es_space_savings_pct :: real

definition sum_sizes :: "object_version list \<Rightarrow> u64" where
  "sum_sizes vs = foldl (\<lambda>n v. n + v_size_bytes v) 0 vs"

definition latest_size :: "object_record \<Rightarrow> u64" where
  "latest_size r = (case rec_latest r of None \<Rightarrow> 0 | Some v \<Rightarrow> v_size_bytes v)"

definition eg_stats :: "'db redb \<Rightarrow> node \<Rightarrow> 'db engine \<Rightarrow> engine_stats" where
  "eg_stats R root_dir e =
     (let objs = (case list_named_objects R (eg_db e) of Inl _ \<Rightarrow> [] | Inr xs \<Rightarrow> xs);
          logical = foldl (\<lambda>n (_, _, r). n + sum_sizes (o_versions r)) 0 objs;
          uniq = word_of_nat (idx_total_raw_bytes (ss_index (eg_segments e)))
      in \<lparr>es_total_chunks = ss_chunk_count (eg_segments e), es_total_manifests = count_manifests R (eg_db e),
          es_total_objects = length objs, es_total_snapshots = count_snapshots R (eg_db e), es_logical_bytes = logical,
          es_latest_logical_bytes = foldl (\<lambda>n (_, _, r). n + latest_size r) 0 objs, es_unique_chunks_bytes = uniq,
          es_physical_disk_bytes = dir_size root_dir,
          es_dedup_ratio = (if 0 < uniq then real (unat logical) / real (unat uniq) else 1),
          es_space_savings_pct =
            (if 0 < logical \<and> uniq \<le> logical then real (unat (logical - uniq)) / real (unat logical) * 100 else 0)\<rparr>)"

section \<open>No hybrid stores\<close>

definition same_stored :: "root_disk \<Rightarrow> root_disk \<Rightarrow> bool" where
  "same_stored d d' \<longleftrightarrow> rt_segments d' = rt_segments d \<and> rt_wal d' = rt_wal d"

lemma final_root_simps [simp]: "final_root d [] = d" "final_root d (d' # ds) = final_root d' ds" "final_root d (ds @ [d']) = d'"
  by (simp_all add: final_root_def)

lemma then_root_disks:
  "d' \<in> set (fst (then_root d m f)) \<longleftrightarrow> d' \<in> set (fst m) \<or> (\<exists>x. snd m = Inr x \<and> d' \<in> set (fst (f x (final_root d (fst m)))))"
  by (cases m) (auto simp: then_root_def split: sum.splits prod.splits)

lemma open_parts_disks: "d' \<in> set (fst (open_parts N vk d)) \<Longrightarrow> \<exists>m. d' = d\<lparr>rt_meta := m\<rparr>"
  by (auto simp: open_parts_def Let_def split: sum.splits prod.splits)

lemma write_vault_disks:
  "write_vault_file_atomic tmp bs d = (ds, r) \<Longrightarrow> d' \<in> set ds \<Longrightarrow>
     same_stored d d' \<and> rt_meta d' = rt_meta d \<and> rt_exists d' = rt_exists d \<and> (rt_vault d' = rt_vault d \<or> rt_vault d' = Some bs)"
  by (auto simp: write_vault_file_atomic_def same_stored_def split: if_splits)

text \<open>What a disk with or without a key file promises, relative to the disk before.\<close>

definition key_step :: "ext \<Rightarrow> vault_random \<Rightarrow> rstring \<Rightarrow> root_disk \<Rightarrow> root_disk \<Rightarrow> bool" where
  "key_step X rnd pass d d' \<longleftrightarrow> same_stored d d'
     \<and> (case rt_vault d of
          Some bs \<Rightarrow> rt_vault d' = Some bs
        | None \<Rightarrow> rt_vault d' = None \<and> rt_meta d' = rt_meta d
            \<or> is_store_empty (d\<lparr>rt_exists := True\<rparr>)
              \<and> (\<exists>bs. rt_vault d' = Some bs \<and> length bs = 100 \<and> vault_unlock X pass bs = Inr (VaultKey (vr_master_key rnd))))"

lemma new_vault_steps:
  assumes X: "ext_ok X" and len: "length (vr_master_key rnd) = 32" "length (vr_salt rnd) = 16" "length (vr_nonce rnd) = 24"
    and d: "rt_vault d = None" "is_store_empty d" "rt_exists d"
  shows "d' \<in> set (fst (new_vault X rnd pass d)) \<Longrightarrow> key_step X rnd pass d d'"
    and "snd (new_vault X rnd pass d) = Inr vk \<Longrightarrow> (\<exists>bs. rt_vault (final_root d (fst (new_vault X rnd pass d))) = Some bs \<and> length bs = 100
      \<and> vault_unlock X pass bs = Inr (VaultKey (vr_master_key rnd))) \<and> same_stored d (final_root d (fst (new_vault X rnd pass d)))"
proof -
  have e: "d\<lparr>rt_exists := True\<rparr> = d" using d(3) by simp
  have v: "length bs = 100 \<and> vault_unlock X pass bs = Inr (VaultKey (vr_master_key rnd))"
    if "vault_create X (vr_master_key rnd) (vr_salt rnd) (vr_nonce rnd) pass = Inr (vk, bs)" for vk bs
    using vault_unlock_create [OF X len that] vault_create_Inr [OF that] by metis
  show "key_step X rnd pass d d'" if "d' \<in> set (fst (new_vault X rnd pass d))"
    using that v d by (auto simp: new_vault_def key_step_def e dest!: write_vault_disks split: sum.splits prod.splits)
  show "(\<exists>bs. rt_vault (final_root d (fst (new_vault X rnd pass d))) = Some bs \<and> length bs = 100
      \<and> vault_unlock X pass bs = Inr (VaultKey (vr_master_key rnd))) \<and> same_stored d (final_root d (fst (new_vault X rnd pass d)))"
    if "snd (new_vault X rnd pass d) = Inr vk"
    using that v by (auto simp: new_vault_def write_vault_file_atomic_def final_root_def same_stored_def split: sum.splits prod.splits if_splits)
qed

lemma open_parts_step: "key_step X rnd pass d0 d \<Longrightarrow> rt_vault d \<noteq> None \<Longrightarrow> d' \<in> set (fst (open_parts N vk d)) \<Longrightarrow> key_step X rnd pass d0 d'"
  by (auto simp: key_step_def same_stored_def dest!: open_parts_disks split: option.splits)

lemma key_step_lock: "key_step X rnd pass (d\<lparr>rt_exists := True\<rparr>) d' \<longleftrightarrow> key_step X rnd pass d d'"
  by (simp add: key_step_def same_stored_def split: option.split)

lemma key_step_refl: "key_step X rnd pass d d"
  by (simp add: key_step_def same_stored_def split: option.split)

lemma created_steps:
  assumes X: "ext_ok (oe_ext N)" and len: "length (vr_master_key rnd) = 32" "length (vr_salt rnd) = 16" "length (vr_nonce rnd) = 24"
    and d: "rt_vault d = None" "is_store_empty d" "rt_exists d"
    and d': "d' \<in> set (fst (then_root d (new_vault (oe_ext N) rnd pass d) (\<lambda>vk. open_parts N (Some vk))))"
  shows "key_step (oe_ext N) rnd pass d d'"
proof -
  let ?m = "new_vault (oe_ext N) rnd pass d" and ?d1 = "final_root d (fst (new_vault (oe_ext N) rnd pass d))"
  note steps = new_vault_steps [OF X len d]
  have e: "d\<lparr>rt_exists := True\<rparr> = d" using d(3) by simp
  show ?thesis
  proof (cases "d' \<in> set (fst ?m)")
    case False
    then obtain vk where vk: "snd ?m = Inr vk" "d' \<in> set (fst (open_parts N (Some vk) ?d1))" using d' unfolding then_root_disks by blast
    from steps(2) [OF vk(1)] have "key_step (oe_ext N) rnd pass d ?d1 \<and> rt_vault ?d1 \<noteq> None" using d(1,2) e by (auto simp: key_step_def)
    then show ?thesis using open_parts_step vk(2) by blast
  qed (rule steps(1))
qed


definition empty_root :: root_disk where
  "empty_root = \<lparr>rt_exists = False, rt_vault = None, rt_tmp = [], rt_segments = None, rt_meta = \<lparr>md_input = None, md_side = []\<rparr>,
     rt_wal = \<lparr>wd_log = [], wd_meta = None\<rparr>\<rparr>"

definition demo_random :: vault_random where
  "demo_random = \<lparr>vr_master_key = replicate 32 7, vr_salt = replicate 16 1, vr_nonce = replicate 24 2, vr_tmp = [46]\<rparr>"

definition demo_open :: "demo_db open_env" where
  "demo_open = \<lparr>oe_ext = demo_ext, oe_mig = demo_mig, oe_env = demo_env, oe_chunk_env = \<lambda>_. demo_env, oe_held = False\<rparr>"


end
