(* ===== verification/Oos_Vfs.thy ===== *)
theory Oos_Vfs
  imports Oos_Engine_Ops
begin

text \<open>
  \<^verbatim>\<open>core/src/vfs/tree.rs\<close>: the read-only tree a mounted store shows, with the latest versions under
  \<^verbatim>\<open>current\<close>, a directory per snapshot under \<^verbatim>\<open>snapshots\<close> and every version under \<^verbatim>\<open>history\<close>.  Inode
  numbers are counted up from 5 and never reused; as a tree of $2^{64}$ nodes cannot be built they are
  natural numbers.
\<close>

section \<open>Nodes\<close>

datatype vfs_node_type = Directory | RegularFile | Symlink

record vfs_node =
  vn_ino :: nat
  vn_parent_ino :: nat
  vn_name :: rstring
  vn_kind :: vfs_node_type
  vn_size :: u64
  vn_mtime :: u64
  vn_manifest_id :: "rstring option"
  vn_symlink_target :: "rstring option"
  vn_children :: "nat list"

type_synonym vfs_nodes = "nat \<Rightarrow> vfs_node option"

definition ROOT_INODE :: nat where "ROOT_INODE = 1"
definition CURRENT_INODE :: nat where "CURRENT_INODE = 2"
definition SNAPSHOTS_INODE :: nat where "SNAPSHOTS_INODE = 3"
definition HISTORY_INODE :: nat where "HISTORY_INODE = 4"

definition dir_node :: "nat \<Rightarrow> nat \<Rightarrow> rstring \<Rightarrow> u64 \<Rightarrow> nat list \<Rightarrow> vfs_node" where
  "dir_node i p name mtime cs = \<lparr>vn_ino = i, vn_parent_ino = p, vn_name = name, vn_kind = Directory, vn_size = 0,
     vn_mtime = mtime, vn_manifest_id = None, vn_symlink_target = None, vn_children = cs\<rparr>"

definition file_node :: "nat \<Rightarrow> nat \<Rightarrow> rstring \<Rightarrow> rstring \<Rightarrow> u64 \<Rightarrow> u64 \<Rightarrow> vfs_node" where
  "file_node i p name mid sz mtime = \<lparr>vn_ino = i, vn_parent_ino = p, vn_name = name, vn_kind = RegularFile, vn_size = sz,
     vn_mtime = mtime, vn_manifest_id = Some mid, vn_symlink_target = None, vn_children = []\<rparr>"

definition link_node :: "nat \<Rightarrow> nat \<Rightarrow> rstring \<Rightarrow> rstring \<Rightarrow> u64 \<Rightarrow> vfs_node" where
  "link_node i p name target mtime = \<lparr>vn_ino = i, vn_parent_ino = p, vn_name = name, vn_kind = Symlink,
     vn_size = word_of_nat (length target), vn_mtime = mtime, vn_manifest_id = None, vn_symlink_target = Some target,
     vn_children = []\<rparr>"

text \<open>Insert a node and append it to its parent's children.\<close>

definition add_child :: "vfs_node \<Rightarrow> vfs_nodes \<Rightarrow> vfs_nodes" where
  "add_child n nodes =
     (let nodes1 = nodes(vn_ino n \<mapsto> n)
      in case nodes1 (vn_parent_ino n) of
           None \<Rightarrow> nodes1
         | Some p \<Rightarrow> nodes1(vn_parent_ino n \<mapsto> p\<lparr>vn_children := vn_children p @ [vn_ino n]\<rparr>))"

section \<open>Building the tree\<close>

definition is_dir_named :: "vfs_nodes \<Rightarrow> rstring \<Rightarrow> nat \<Rightarrow> bool" where
  "is_dir_named nodes part c \<longleftrightarrow> (case nodes c of None \<Rightarrow> False | Some n \<Rightarrow> vn_kind n = Directory \<and> vn_name n = part)"

fun ensure_dir_path :: "nat \<Rightarrow> rstring list \<Rightarrow> u64 \<Rightarrow> vfs_nodes \<times> nat \<Rightarrow> (vfs_nodes \<times> nat) \<times> nat" where
  "ensure_dir_path cur [] now st = (st, cur)"
| "ensure_dir_path cur (part # parts) now (nodes, next_ino) =
     (case (case nodes cur of None \<Rightarrow> None | Some n \<Rightarrow> find (is_dir_named nodes part) (vn_children n)) of
        Some i \<Rightarrow> ensure_dir_path i parts now (nodes, next_ino)
      | None \<Rightarrow> ensure_dir_path next_ino parts now (add_child (dir_node next_ino cur part now []) nodes, Suc next_ino))"

definition insert_path ::
    "nat \<Rightarrow> rstring list \<Rightarrow> rstring \<Rightarrow> u64 \<Rightarrow> u64 \<Rightarrow> vfs_nodes \<times> nat \<Rightarrow> vfs_nodes \<times> nat" where
  "insert_path parent parts mid sz mtime st =
     (if parts = [] then st
      else case ensure_dir_path parent (butlast parts) mtime st of
             ((nodes, next_ino), d) \<Rightarrow> (add_child (file_node next_ino d (last parts) mid sz mtime) nodes, Suc next_ino))"

definition path_parts :: "rstring \<Rightarrow> rstring list" where
  "path_parts name = filter (\<lambda>p. p \<noteq> []) (split_on (\<lambda>b. b = 47 \<or> b = 92) name)"

definition add_current :: "vfs_nodes \<times> nat \<Rightarrow> rstring \<times> object_id \<times> object_record \<Rightarrow> vfs_nodes \<times> nat" where
  "add_current st obj =
     (case obj of (name, _, r) \<Rightarrow>
        (case rec_latest r of
           None \<Rightarrow> st
         | Some v \<Rightarrow> insert_path CURRENT_INODE (path_parts name) (v_manifest_id v) (v_size_bytes v) (v_created_at v) st))"

definition add_snapshot :: "vfs_nodes \<times> nat \<Rightarrow> snapshot \<Rightarrow> vfs_nodes \<times> nat" where
  "add_snapshot st s =
     (case st of (nodes, i) \<Rightarrow>
        foldl (\<lambda>st en. insert_path i (path_parts (e_name en)) (e_manifest_id en) (e_size_bytes en) (s_created_at s) st)
          (add_child (dir_node i SNAPSHOTS_INODE (s_label s) (s_created_at s) []) nodes, Suc i) (s_entries s))"

definition version_name :: "rstring \<Rightarrow> u32 \<Rightarrow> rstring" where
  "version_name leaf v = leaf @ bytes_of ''@v'' @ dec_digits (unat v)"

definition add_version :: "nat \<Rightarrow> rstring \<Rightarrow> vfs_nodes \<times> nat \<Rightarrow> object_version \<Rightarrow> vfs_nodes \<times> nat" where
  "add_version d leaf st v =
     (case st of (nodes, i) \<Rightarrow>
        (add_child (file_node i d (version_name leaf (v_version v)) (v_manifest_id v) (v_size_bytes v) (v_created_at v)) nodes, Suc i))"

definition add_history :: "u64 \<Rightarrow> vfs_nodes \<times> nat \<Rightarrow> rstring \<times> object_id \<times> object_record \<Rightarrow> vfs_nodes \<times> nat" where
  "add_history now st obj =
     (case obj of (name, _, r) \<Rightarrow>
        let parts = path_parts name
        in if parts = [] then st
           else
             let leaf = last parts;
                 (st1, d) = (if butlast parts = [] then (st, HISTORY_INODE) else ensure_dir_path HISTORY_INODE (butlast parts) now st);
                 (nodes, i) = foldl (add_version d leaf) st1 (o_versions r);
                 latest = foldl (\<lambda>l v. if l < v_version v then v_version v else l) 0 (o_versions r)
             in if 0 < latest
                then (add_child (link_node i d (leaf @ bytes_of ''@latest'') (version_name leaf latest) now) nodes, Suc i)
                else (nodes, i))"

definition vfs_roots :: "u64 \<Rightarrow> vfs_nodes" where
  "vfs_roots now = [ROOT_INODE \<mapsto> dir_node ROOT_INODE ROOT_INODE [47] now [CURRENT_INODE, SNAPSHOTS_INODE, HISTORY_INODE],
     CURRENT_INODE \<mapsto> dir_node CURRENT_INODE ROOT_INODE (bytes_of ''current'') now [],
     SNAPSHOTS_INODE \<mapsto> dir_node SNAPSHOTS_INODE ROOT_INODE (bytes_of ''snapshots'') now [],
     HISTORY_INODE \<mapsto> dir_node HISTORY_INODE ROOT_INODE (bytes_of ''history'') now []]"

text \<open>Errors of the two listings are taken for empty listings, as in the code.\<close>

definition vfs_build :: "ext \<Rightarrow> 'db redb \<Rightarrow> u64 \<Rightarrow> 'db engine \<Rightarrow> vfs_nodes" where
  "vfs_build X R now e =
     (let objs = (case list_named_objects R (eg_db e) of Inl _ \<Rightarrow> [] | Inr os \<Rightarrow> os);
          snaps = (case list_snapshots X R (eg_db e) of Inl _ \<Rightarrow> [] | Inr ss \<Rightarrow> ss);
          st1 = foldl add_current (vfs_roots now, 5) objs;
          st2 = foldl add_snapshot st1 snaps;
          st3 = foldl (add_history now) st2 objs
      in fst st3)"

section \<open>Queries\<close>

definition lookup_child :: "vfs_nodes \<Rightarrow> nat \<Rightarrow> rstring \<Rightarrow> vfs_node option" where
  "lookup_child nodes p name =
     Option.bind (nodes p) (\<lambda>pn. if vn_kind pn \<noteq> Directory then None
       else Option.bind (find (\<lambda>c. case nodes c of None \<Rightarrow> False | Some n \<Rightarrow> vn_name n = name) (vn_children pn)) nodes)"

definition readdir :: "vfs_nodes \<Rightarrow> nat \<Rightarrow> vfs_node list option" where
  "readdir nodes i =
     Option.bind (nodes i) (\<lambda>n. if vn_kind n \<noteq> Directory then None else Some (List.map_filter nodes (vn_children n)))"

definition resolve_step :: "vfs_nodes \<Rightarrow> vfs_node option \<Rightarrow> rstring \<Rightarrow> vfs_node option" where
  "resolve_step nodes cur part =
     Option.bind cur (\<lambda>n.
       if part = [] \<or> part = [46] then Some n
       else if part = [46, 46] then nodes (vn_parent_ino n)
       else Option.bind (lookup_child nodes (vn_ino n) part) (\<lambda>c.
         if vn_kind c = Symlink
         then (case vn_symlink_target c of
                 None \<Rightarrow> Some c
               | Some t \<Rightarrow> lookup_child nodes (vn_parent_ino c) t)
         else Some c))"

definition trim_slashes :: "rstring \<Rightarrow> rstring" where
  "trim_slashes s = rev (dropWhile (\<lambda>b. b = 47) (rev (dropWhile (\<lambda>b. b = 47) s)))"

definition resolve_path :: "vfs_nodes \<Rightarrow> rstring \<Rightarrow> vfs_node option" where
  "resolve_path nodes path =
     (let clean = trim_slashes path
      in if clean = [] then nodes ROOT_INODE
         else foldl (resolve_step nodes) (nodes ROOT_INODE) (split_on (\<lambda>b. b = 47) clean))"

section \<open>The tree is well formed\<close>

lemmas inode_defs = ROOT_INODE_def CURRENT_INODE_def SNAPSHOTS_INODE_def HISTORY_INODE_def

definition node_ok :: "vfs_node \<Rightarrow> bool" where
  "node_ok n \<longleftrightarrow> (vn_kind n \<noteq> Directory \<longrightarrow> vn_children n = []) \<and> (vn_kind n = RegularFile \<longleftrightarrow> vn_manifest_id n \<noteq> None)
     \<and> (vn_kind n = Symlink \<longleftrightarrow> vn_symlink_target n \<noteq> None) \<and> distinct (vn_children n)"

definition is_dir :: "vfs_nodes \<Rightarrow> nat \<Rightarrow> bool" where
  "is_dir nodes i \<longleftrightarrow> (\<exists>n. nodes i = Some n \<and> vn_kind n = Directory)"

text \<open>Parents and children point at each other, and inode numbers grow downwards.\<close>

definition tree_ok :: "vfs_nodes \<times> nat \<Rightarrow> bool" where
  "tree_ok st \<longleftrightarrow> (case st of (nodes, next_ino) \<Rightarrow>
     is_dir nodes ROOT_INODE
     \<and> (\<forall>i n. nodes i = Some n \<longrightarrow> vn_ino n = i \<and> i < next_ino \<and> node_ok n
          \<and> (\<forall>c \<in> set (vn_children n). \<exists>m. nodes c = Some m \<and> vn_parent_ino m = i \<and> i < c)
          \<and> (if i = ROOT_INODE then vn_parent_ino n = i
             else \<exists>p. nodes (vn_parent_ino n) = Some p \<and> vn_kind p = Directory \<and> i \<in> set (vn_children p))))"

lemma tree_okD:
  assumes "tree_ok (nodes, nx)" "nodes i = Some n"
  shows "vn_ino n = i" "i < nx" "node_ok n"
    and "c \<in> set (vn_children n) \<Longrightarrow> \<exists>m. nodes c = Some m \<and> vn_parent_ino m = i \<and> i < c"
    and "i \<noteq> ROOT_INODE \<Longrightarrow> \<exists>p. nodes (vn_parent_ino n) = Some p \<and> vn_kind p = Directory \<and> i \<in> set (vn_children p)"
    and "i = ROOT_INODE \<Longrightarrow> vn_parent_ino n = i"
  using assms unfolding tree_ok_def by (auto split: if_splits)

lemma add_child_other: "i \<noteq> vn_ino n \<Longrightarrow> i \<noteq> vn_parent_ino n \<Longrightarrow> add_child n nodes i = nodes i"
  by (auto simp: add_child_def Let_def split: option.splits)

lemma add_child_simps:
  assumes "vn_parent_ino n \<noteq> vn_ino n" "nodes (vn_parent_ino n) = Some p"
  shows "add_child n nodes = nodes(vn_ino n \<mapsto> n, vn_parent_ino n \<mapsto> p\<lparr>vn_children := vn_children p @ [vn_ino n]\<rparr>)"
  using assms by (simp add: add_child_def Let_def)

text \<open>A new node under an existing directory.\<close>

definition fresh_under :: "vfs_nodes \<times> nat \<Rightarrow> nat \<Rightarrow> vfs_node \<Rightarrow> bool" where
  "fresh_under st d n \<longleftrightarrow> vn_ino n = snd st \<and> vn_parent_ino n = d \<and> vn_children n = [] \<and> node_ok n \<and> is_dir (fst st) d"

lemma fresh_node:
  assumes "tree_ok (nodes, nx)" "fresh_under (nodes, nx) d n"
  obtains p where "nodes d = Some p" "vn_kind p = Directory" "d \<noteq> nx" "nodes nx = None" "vn_parent_ino n = d" "vn_ino n = nx"
    "add_child n nodes = nodes(nx \<mapsto> n, d \<mapsto> p\<lparr>vn_children := vn_children p @ [nx]\<rparr>)"
proof -
  obtain p where p: "nodes d = Some p" "vn_kind p = Directory" using assms(2) by (auto simp: fresh_under_def is_dir_def)
  have d: "d \<noteq> nx" using tree_okD(2) [OF assms(1) p(1)] by simp
  have "nodes nx = None" using tree_okD(2) [OF assms(1), of nx] by (cases "nodes nx") auto
  then show thesis using that p d assms(2) add_child_simps [of n nodes p] by (auto simp: fresh_under_def)
qed

lemma add_child_ok:
  assumes ok: "tree_ok (nodes, nx)" and fr: "fresh_under (nodes, nx) d n"
  shows "tree_ok (add_child n nodes, Suc nx)"
proof -
  obtain p where p: "nodes d = Some p" "vn_kind p = Directory" "d \<noteq> nx" "nodes nx = None" "vn_parent_ino n = d" "vn_ino n = nx"
    and eq: "add_child n nodes = nodes(nx \<mapsto> n, d \<mapsto> p\<lparr>vn_children := vn_children p @ [nx]\<rparr>)"
    by (rule fresh_node [OF ok fr])
  have root: "nx \<noteq> ROOT_INODE" using ok p(4) by (auto simp: tree_ok_def is_dir_def)
  have nx: "nx \<notin> set (vn_children m)" if "nodes i = Some m" for i m using tree_okD(4) [OF ok that, of nx] p(4) by auto
  have n: "vn_children n = []" "node_ok n" using fr by (auto simp: fresh_under_def)
  have less: "d < nx" using tree_okD(2) [OF ok p(1)] by simp
  let ?N = "add_child n nodes"
  have old: "\<exists>m'. ?N i = Some m' \<and> vn_kind m' = vn_kind m \<and> vn_parent_ino m' = vn_parent_ino m \<and> set (vn_children m) \<subseteq> set (vn_children m')"
    if "nodes i = Some m" for i m
    using that p by (auto simp: eq)
  have "vn_ino m = i \<and> i < Suc nx \<and> node_ok m
      \<and> (\<forall>c \<in> set (vn_children m). \<exists>m'. ?N c = Some m' \<and> vn_parent_ino m' = i \<and> i < c)
      \<and> (if i = ROOT_INODE then vn_parent_ino m = i
         else \<exists>q. ?N (vn_parent_ino m) = Some q \<and> vn_kind q = Directory \<and> i \<in> set (vn_children q))" if m: "?N i = Some m" for i m
  proof (cases "i = nx")
    case True
    then have "m = n" using m p(3) by (auto simp: eq)
    then show ?thesis using True root p n by (auto simp: eq)
  next
    case False
    then obtain m0 where m0: "nodes i = Some m0" using m p(1) by (auto simp: eq split: if_splits)
    note t = tree_okD [OF ok m0]
    have m': "vn_ino m = vn_ino m0" "vn_parent_ino m = vn_parent_ino m0" "node_ok m"
      "vn_children m = (if i = d then vn_children m0 @ [nx] else vn_children m0)"
      using m False m0 p t(3) nx [OF m0] by (auto simp: eq node_ok_def split: if_splits)
    have "\<exists>m'. ?N c = Some m' \<and> vn_parent_ino m' = i \<and> i < c" if "c \<in> set (vn_children m0)" for c
      using t(4) [OF that] old by metis
    moreover have "\<exists>m'. ?N nx = Some m' \<and> vn_parent_ino m' = d \<and> d < nx" using p less by (auto simp: eq)
    moreover have "i \<noteq> ROOT_INODE \<Longrightarrow> \<exists>q. ?N (vn_parent_ino m) = Some q \<and> vn_kind q = Directory \<and> i \<in> set (vn_children q)"
      using t(5) old m'(2) by (metis subsetD)
    ultimately show ?thesis using m' t(1,2,6) by auto
  qed
  moreover have "is_dir ?N ROOT_INODE" using ok old unfolding tree_ok_def is_dir_def by fastforce
  ultimately show ?thesis by (auto simp: tree_ok_def)
qed

section \<open>Growing\<close>

text \<open>Nodes only gain children, at the end of the list.\<close>

definition grows :: "vfs_nodes \<Rightarrow> vfs_nodes \<Rightarrow> bool" where
  "grows N N' \<longleftrightarrow> (\<forall>i n. N i = Some n \<longrightarrow> (\<exists>cs. N' i = Some (n\<lparr>vn_children := vn_children n @ cs\<rparr>)))"

lemma grows_refl: "grows N N"
  by (auto simp: grows_def intro: exI [of _ "[]"])

lemma grows_trans:
  assumes "grows N N'" "grows N' N''"
  shows "grows N N''"
  unfolding grows_def
proof (intro allI impI)
  fix i n assume "N i = Some n"
  then obtain cs where "N' i = Some (n\<lparr>vn_children := vn_children n @ cs\<rparr>)" using assms(1) by (auto simp: grows_def)
  then obtain cs' where "N'' i = Some (n\<lparr>vn_children := vn_children n @ cs @ cs'\<rparr>)" using assms(2) by (fastforce simp: grows_def)
  then show "\<exists>cs. N'' i = Some (n\<lparr>vn_children := vn_children n @ cs\<rparr>)" by blast
qed

lemma grows_dir: "grows N N' \<Longrightarrow> is_dir N i \<Longrightarrow> is_dir N' i"
  by (fastforce simp: grows_def is_dir_def)

lemma add_child_grows:
  assumes "tree_ok (N, nx)" "fresh_under (N, nx) d n"
  shows "grows N (add_child n N)"
proof -
  obtain p where p: "N d = Some p" "N nx = None" "d \<noteq> nx"
    and eq: "add_child n N = N(nx \<mapsto> n, d \<mapsto> p\<lparr>vn_children := vn_children p @ [nx]\<rparr>)" by (rule fresh_node [OF assms])
  show ?thesis
    unfolding grows_def eq
  proof (intro allI impI)
    fix i m assume "N i = Some m"
    then show "\<exists>cs. (N(nx \<mapsto> n, d \<mapsto> p\<lparr>vn_children := vn_children p @ [nx]\<rparr>)) i = Some (m\<lparr>vn_children := vn_children m @ cs\<rparr>)"
      using p by (cases "i = d") (auto intro: exI [of _ "[]"])
  qed
qed

lemma add_child_dir:
  assumes "tree_ok (N, nx)" "fresh_under (N, nx) d n" "vn_kind n = Directory"
  shows "is_dir (add_child n N) nx"
proof -
  obtain p where "d \<noteq> nx" "add_child n N = N(nx \<mapsto> n, d \<mapsto> p\<lparr>vn_children := vn_children p @ [nx]\<rparr>)" by (rule fresh_node [OF assms(1,2)])
  then show ?thesis using assms(3) by (simp add: is_dir_def)
qed

definition extends :: "vfs_nodes \<times> nat \<Rightarrow> vfs_nodes \<times> nat \<Rightarrow> bool" where
  "extends st st' \<longleftrightarrow> (tree_ok st \<longrightarrow> tree_ok st' \<and> grows (fst st) (fst st'))"

lemma extends_refl [simp]: "extends st st"
  by (simp add: extends_def grows_refl)

lemma extends_trans: "extends st st' \<Longrightarrow> extends st' st'' \<Longrightarrow> extends st st''"
  by (auto simp: extends_def intro: grows_trans)

text \<open>What a step does to a well-formed tree that already has some directories.\<close>

definition growing :: "nat set \<Rightarrow> (vfs_nodes \<times> nat \<Rightarrow> 'a \<Rightarrow> vfs_nodes \<times> nat) \<Rightarrow> bool" where
  "growing D f \<longleftrightarrow> (\<forall>st x. tree_ok st \<longrightarrow> (\<forall>d \<in> D. is_dir (fst st) d) \<longrightarrow> extends st (f st x))"

lemma growing_foldl:
  assumes f: "growing D f" and ok: "tree_ok st" and D: "\<forall>d \<in> D. is_dir (fst st) d"
  shows "extends st (foldl f st xs)"
  using ok D
proof (induction xs arbitrary: st)
  case (Cons x xs)
  have e: "extends st (f st x)" using f Cons.prems unfolding growing_def by blast
  then have "tree_ok (f st x)" "\<forall>d \<in> D. is_dir (fst (f st x)) d" using Cons.prems by (auto simp: extends_def intro: grows_dir)
  then show ?case using extends_trans [OF e Cons.IH] by simp
qed simp

lemma extends_add: "fresh_under (N, nx) d n \<Longrightarrow> extends (N, nx) (add_child n N, Suc nx)"
  by (simp add: extends_def add_child_ok add_child_grows)

lemma fresh_simps:
  "is_dir N d \<Longrightarrow> fresh_under (N, nx) d (dir_node nx d name now [])"
  "is_dir N d \<Longrightarrow> fresh_under (N, nx) d (file_node nx d name mid sz now)"
  "is_dir N d \<Longrightarrow> fresh_under (N, nx) d (link_node nx d name target now)"
  by (auto simp: fresh_under_def node_ok_def dir_node_def file_node_def link_node_def)

lemma ensure_dir_path_extends:
  "ensure_dir_path cur parts now st = (st', d) \<Longrightarrow> tree_ok st \<Longrightarrow> is_dir (fst st) cur \<Longrightarrow> extends st st' \<and> is_dir (fst st') d"
proof (induction cur parts now st rule: ensure_dir_path.induct)
  case (2 cur part parts now N nx)
  obtain n where n: "N cur = Some n" using "2.prems"(3) by (auto simp: is_dir_def)
  show ?case
  proof (cases "find (is_dir_named N part) (vn_children n)")
    case (Some i)
    have "is_dir N i" using Some by (auto simp: find_Some_iff is_dir_named_def is_dir_def split: option.splits)
    then show ?thesis using "2.IH"(2) [of i] "2.prems" n Some by simp
  next
    case None
    let ?n = "dir_node nx cur part now []"
    have fr: "fresh_under (N, nx) cur ?n" using "2.prems"(3) by (simp add: fresh_simps)
    note e = extends_add [OF fr]
    obtain p where "add_child ?n N = N(nx \<mapsto> ?n, cur \<mapsto> p\<lparr>vn_children := vn_children p @ [nx]\<rparr>)" "cur \<noteq> nx"
      using fresh_node [OF "2.prems"(2) fr] by metis
    then have "is_dir (add_child ?n N) nx" by (simp add: is_dir_def dir_node_def)
    then show ?thesis
      using "2.IH"(1) "2.prems" n None e extends_trans [OF e] by (simp add: extends_def)
  qed
qed simp

lemma insert_path_extends:
  assumes "tree_ok st" "is_dir (fst st) r"
  shows "extends st (insert_path r parts mid sz t st)"
proof (cases "parts = []")
  case False
  obtain N nx d where e: "ensure_dir_path r (butlast parts) t st = ((N, nx), d)" by (metis prod.exhaust)
  note * = ensure_dir_path_extends [OF e assms]
  show ?thesis using extends_trans [OF conjunct1 [OF *] extends_add [OF fresh_simps(2)]] * False e by (simp add: insert_path_def)
qed (simp add: insert_path_def)

lemma add_current_growing: "growing {CURRENT_INODE} add_current"
  by (auto simp: growing_def add_current_def insert_path_extends split: option.splits)

lemma add_snapshot_growing: "growing {SNAPSHOTS_INODE} add_snapshot"
  unfolding growing_def
proof (intro allI impI)
  fix st :: "vfs_nodes \<times> nat" and s :: snapshot
  assume ok: "tree_ok st" and d: "\<forall>d \<in> {SNAPSHOTS_INODE}. is_dir (fst st) d"
  obtain N nx where st: "st = (N, nx)" by (cases st)
  let ?n = "dir_node nx SNAPSHOTS_INODE (s_label s) (s_created_at s) []"
  let ?f = "\<lambda>st en. insert_path nx (path_parts (e_name en)) (e_manifest_id en) (e_size_bytes en) (s_created_at s) st"
  have fr: "fresh_under (N, nx) SNAPSHOTS_INODE ?n" using d st by (simp add: fresh_simps)
  note e = extends_add [OF fr]
  have dir: "is_dir (add_child ?n N) nx" using add_child_dir [OF _ fr] ok st by (simp add: dir_node_def)
  have "growing {nx} ?f" by (simp add: growing_def insert_path_extends)
  then have "extends (add_child ?n N, Suc nx) (foldl ?f (add_child ?n N, Suc nx) (s_entries s))"
    using dir e ok st by (intro growing_foldl) (auto simp: extends_def)
  then show "extends st (add_snapshot st s)" using extends_trans [OF e] st by (simp add: add_snapshot_def)
qed

lemma add_version_growing: "growing {d} (add_version d leaf)"
  by (auto simp: growing_def add_version_def extends_add [OF fresh_simps(2)])

lemma add_history_growing: "growing {HISTORY_INODE} (add_history now)"
  unfolding growing_def
proof (intro allI impI)
  fix st :: "vfs_nodes \<times> nat" and obj :: "rstring \<times> object_id \<times> object_record"
  assume ok: "tree_ok st" and h: "\<forall>d \<in> {HISTORY_INODE}. is_dir (fst st) d"
  obtain name oid r where obj: "obj = (name, oid, r)" by (cases obj)
  let ?p = "path_parts name"
  obtain st1 d where sd: "(if butlast ?p = [] then (st, HISTORY_INODE) else ensure_dir_path HISTORY_INODE (butlast ?p) now st) = (st1, d)"
    by (metis prod.exhaust)
  have 1: "extends st st1 \<and> is_dir (fst st1) d"
    using sd ensure_dir_path_extends [of HISTORY_INODE "butlast ?p" now st st1 d] ok h by (auto split: if_splits)
  obtain N nx where fo: "foldl (add_version d (last ?p)) st1 (o_versions r) = (N, nx)" by (metis prod.exhaust)
  have 2: "extends st1 (N, nx)" using growing_foldl [OF add_version_growing, of st1 d] 1 ok fo by (metis extends_def singletonD)
  have dir: "is_dir N d" using 1 2 ok by (auto simp: extends_def intro: grows_dir)
  note 3 = extends_add [OF fresh_simps(3) [OF dir]] and 12 = extends_trans [OF conjunct1 [OF 1] 2]
  show "extends st (add_history now st obj)"
    using 12 extends_trans [OF 12 3] sd fo by (simp add: add_history_def obj Let_def)
qed

lemmas vfs_growing = add_current_growing add_snapshot_growing add_history_growing

lemma vfs_roots_ok: "tree_ok (vfs_roots now, 5)"
  by (auto simp: tree_ok_def vfs_roots_def inode_defs is_dir_def node_ok_def dir_node_def split: if_splits)

text \<open>The three passes over the listings.\<close>

definition vfs_passes ::
    "u64 \<Rightarrow> (rstring \<times> object_id \<times> object_record) list \<Rightarrow> snapshot list \<Rightarrow> vfs_nodes \<times> nat" where
  "vfs_passes now objs snaps = foldl (add_history now) (foldl add_snapshot (foldl add_current (vfs_roots now, 5) objs) snaps) objs"

lemma vfs_passes_grow:
  fixes now objs snaps
  defines "st1 \<equiv> foldl add_current (vfs_roots now, 5) objs"
  shows "extends (vfs_roots now, 5) st1" "extends st1 (vfs_passes now objs snaps)" "tree_ok (vfs_passes now objs snaps)"
proof -
  let ?D = "{CURRENT_INODE, SNAPSHOTS_INODE, HISTORY_INODE}"
  have D: "\<forall>d \<in> ?D. is_dir (vfs_roots now) d" by (simp add: vfs_roots_def inode_defs is_dir_def dir_node_def)
  have keep: "tree_ok st' \<and> (\<forall>d \<in> ?D. is_dir (fst st') d)"
    if "extends st st'" "tree_ok st" "\<forall>d \<in> ?D. is_dir (fst st) d" for st st'
    using that by (auto simp: extends_def intro: grows_dir)
  show 1: "extends (vfs_roots now, 5) st1"
    unfolding st1_def using vfs_roots_ok D by (intro growing_foldl [OF vfs_growing(1)]) auto
  then have ok1: "tree_ok st1" "\<forall>d \<in> ?D. is_dir (fst st1) d" using keep [OF 1] vfs_roots_ok D by auto
  have 2: "extends st1 (foldl add_snapshot st1 snaps)"
    using ok1 by (intro growing_foldl [OF vfs_growing(2)]) auto
  have ok2: "tree_ok (foldl add_snapshot st1 snaps)" "\<forall>d \<in> ?D. is_dir (fst (foldl add_snapshot st1 snaps)) d"
    using keep [OF 2 ok1] by auto
  have 3: "extends (foldl add_snapshot st1 snaps) (vfs_passes now objs snaps)"
    unfolding vfs_passes_def st1_def using ok2 by (intro growing_foldl [OF vfs_growing(3)]) (auto simp: st1_def)
  show "extends st1 (vfs_passes now objs snaps)" using extends_trans [OF 2 3] .
  then show "tree_ok (vfs_passes now objs snaps)" using ok1 by (simp add: extends_def)
qed

end
