(* ===== verification/Oos_Vfs_Walk.thy ===== *)
theory Oos_Vfs_Walk
  imports Oos_Vfs "HOL-Library.Sublist"
begin

text \<open>
  Paths in the tree of \<^verbatim>\<open>core/src/vfs/tree.rs\<close>: a path leads to at most one node, a node is reached by at
  most one path, and files with unrelated names all stay reachable while the tree is built.
\<close>

section \<open>Walking down\<close>

definition named :: "vfs_nodes \<Rightarrow> rstring \<Rightarrow> nat \<Rightarrow> bool" where
  "named N x c \<longleftrightarrow> (case N c of None \<Rightarrow> False | Some n \<Rightarrow> vn_name n = x)"

definition child :: "vfs_nodes \<Rightarrow> nat \<Rightarrow> rstring \<Rightarrow> nat option" where
  "child N p x = (case N p of None \<Rightarrow> None | Some n \<Rightarrow> if vn_kind n = Directory then find (named N x) (vn_children n) else None)"

primrec walk :: "vfs_nodes \<Rightarrow> nat \<Rightarrow> rstring list \<Rightarrow> nat option" where
  "walk N i [] = Some i"
| "walk N i (x # xs) = Option.bind (child N i x) (\<lambda>c. walk N c xs)"

lemma lookup_child_child: "lookup_child N p x = Option.bind (child N p x) N"
  by (auto simp: lookup_child_def child_def named_def [abs_def] split: option.splits)

lemma walk_append: "walk N i (xs @ ys) = Option.bind (walk N i xs) (\<lambda>c. walk N c ys)"
  by (induction xs arbitrary: i) (auto split: bind_splits)

lemma walk_snoc: "walk N i (xs @ [x]) = Some c \<longleftrightarrow> (\<exists>p. walk N i xs = Some p \<and> child N p x = Some c)"
  by (auto simp: walk_append Option.bind_eq_Some_conv)

lemma find_append: "find P (xs @ ys) = (case find P xs of None \<Rightarrow> find P ys | Some x \<Rightarrow> Some x)"
  by (induction xs) auto

lemma child_Some:
  assumes "child N p x = Some c"
  obtains n m where "N p = Some n" "vn_kind n = Directory" "c \<in> set (vn_children n)" "N c = Some m" "vn_name m = x"
proof -
  obtain n where n: "N p = Some n" "vn_kind n = Directory" and f: "find (named N x) (vn_children n) = Some c"
    using assms by (auto simp: child_def split: option.splits if_splits)
  then have "c \<in> set (vn_children n)" "named N x c" by (auto simp: find_Some_iff)
  then show thesis using that n by (auto simp: named_def split: option.splits)
qed

lemma child_parent:
  assumes "tree_ok (N, nx)" "child N p x = Some c"
  shows "p < c" "\<exists>m. N c = Some m \<and> vn_parent_ino m = p \<and> vn_name m = x"
proof -
  obtain n m where *: "N p = Some n" "c \<in> set (vn_children n)" "N c = Some m" "vn_name m = x" by (rule child_Some [OF assms(2)])
  then show "p < c" "\<exists>m. N c = Some m \<and> vn_parent_ino m = p \<and> vn_name m = x" using tree_okD(4) [OF assms(1) *(1,2)] by auto
qed

lemma walk_le: "tree_ok (N, nx) \<Longrightarrow> walk N r q = Some i \<Longrightarrow> r \<le> i"
  by (induction q arbitrary: r) (fastforce simp: Option.bind_eq_Some_conv dest: child_parent(1))+

lemma walk_inj: "tree_ok (N, nx) \<Longrightarrow> walk N r q = Some i \<Longrightarrow> walk N r q' = Some i \<Longrightarrow> q = q'"
proof (induction q arbitrary: q' i rule: rev_induct)
  case Nil
  then show ?case
    using child_parent(1) [OF Nil.prems(1)] walk_le [OF Nil.prems(1)]
    by (cases q' rule: rev_cases) (fastforce simp: walk_snoc)+
next
  case (snoc x q)
  obtain p where p: "walk N r q = Some p" "child N p x = Some i" using snoc.prems(2) by (auto simp: walk_snoc)
  show ?case
  proof (cases q' rule: rev_cases)
    case Nil
    then show ?thesis using snoc.prems p walk_le [OF snoc.prems(1) p(1)] child_parent(1) [OF snoc.prems(1) p(2)] by simp
  next
    case (snoc s y)
    obtain p' where p': "walk N r s = Some p'" "child N p' y = Some i" using snoc.prems(3) snoc by (auto simp: walk_snoc)
    have "p = p'" "x = y" using child_parent(2) [OF snoc.prems(1) p(2)] child_parent(2) [OF snoc.prems(1) p'(2)] by auto
    then show ?thesis using snoc.IH [OF snoc.prems(1) p(1)] p' snoc by simp
  qed
qed

section \<open>Walking while the tree grows\<close>

lemma grows_child:
  assumes ok: "tree_ok (N, nx)" and g: "grows N N'" and c: "child N p x = Some c"
  shows "child N' p x = Some c"
proof -
  obtain n where n: "N p = Some n" "vn_kind n = Directory" "find (named N x) (vn_children n) = Some c"
    using c by (auto simp: child_def split: option.splits if_splits)
  obtain cs where N': "N' p = Some (n\<lparr>vn_children := vn_children n @ cs\<rparr>)" using g n(1) by (auto simp: grows_def)
  have "named N' x i = named N x i" if i: "i \<in> set (vn_children n)" for i
  proof -
    obtain m where m: "N i = Some m" using tree_okD(4) [OF ok n(1) i] by auto
    then obtain cs where "N' i = Some (m\<lparr>vn_children := vn_children m @ cs\<rparr>)" using g by (auto simp: grows_def)
    then show ?thesis using m by (simp add: named_def)
  qed
  then have "find (named N' x) (vn_children n) = Some c" using n(3) by (metis find_cong)
  then show ?thesis using N' n(2) by (simp add: child_def find_append)
qed

lemma grows_walk: "tree_ok (N, nx) \<Longrightarrow> grows N N' \<Longrightarrow> walk N r q = Some i \<Longrightarrow> walk N' r q = Some i"
  by (induction q arbitrary: r) (auto simp: Option.bind_eq_Some_conv dest: grows_child)

lemma child_add:
  assumes ok: "tree_ok (N, nx)" and fr: "fresh_under (N, nx) d n"
  shows "child (add_child n N) p x =
     (case child N p x of Some c \<Rightarrow> Some c | None \<Rightarrow> if p = d \<and> x = vn_name n then Some nx else None)"
proof -
  obtain pn where p: "N d = Some pn" "vn_kind pn = Directory" "d \<noteq> nx" "N nx = None"
    and eq: "add_child n N = N(nx \<mapsto> n, d \<mapsto> pn\<lparr>vn_children := vn_children pn @ [nx]\<rparr>)" by (rule fresh_node [OF ok fr])
  have nm: "named (add_child n N) x i = named N x i" if "i \<noteq> nx" for i using that p(1) by (simp add: named_def eq)
  have nx: "named (add_child n N) x nx \<longleftrightarrow> x = vn_name n" using p(3) by (auto simp: named_def eq)
  have new: "vn_children n = []" using fr by (simp add: fresh_under_def)
  have f: "find (named (add_child n N) x) (vn_children m) = find (named N x) (vn_children m)" if "N i = Some m" for i m
  proof (rule find_cong [OF refl])
    fix c assume "c \<in> set (vn_children m)"
    then have "c \<noteq> nx" using tree_okD(4) [OF ok that, of c] p(4) by auto
    then show "named (add_child n N) x c = named N x c" by (rule nm)
  qed
  show ?thesis
  proof (cases "p = d")
    case True
    then show ?thesis using p f [OF p(1)] nx by (auto simp: child_def find_append eq split: option.splits)
  next
    case False
    then show ?thesis using f new p by (auto simp: child_def eq split: option.splits)
  qed
qed

lemma walk_add_back:
  assumes ok: "tree_ok (N, nx)" and fr: "fresh_under (N, nx) d n" and r: "r \<noteq> nx"
    and w: "walk (add_child n N) r qs = Some i"
  shows "walk N r qs = Some i \<or> (\<exists>q. walk N r q = Some d \<and> qs = q @ [vn_name n] \<and> i = nx)"
  using w
proof (induction qs arbitrary: i rule: rev_induct)
  case (snoc x qs)
  obtain j where j: "walk (add_child n N) r qs = Some j" "child (add_child n N) j x = Some i" using snoc.prems by (auto simp: walk_snoc)
  obtain p where "d \<noteq> nx" "N nx = None" by (rule fresh_node [OF ok fr])
  then have "d \<noteq> nx" "child N nx x = None" by (simp_all add: child_def)
  then have "j \<noteq> nx" using j(2) by (auto simp: child_add [OF ok fr])
  then have "walk N r qs = Some j" using snoc.IH [OF j(1)] by auto
  then show ?case using j(2) by (auto simp: child_add [OF ok fr] walk_snoc split: option.splits if_splits)
qed simp

section \<open>What a subtree holds\<close>

text \<open>Every path from \<^term>\<open>r\<close> leads to a directory of \<^term>\<open>D\<close> or to a file of \<^term>\<open>F\<close>.\<close>

definition shape :: "vfs_nodes \<Rightarrow> nat \<Rightarrow> rstring list set \<Rightarrow> rstring list set \<Rightarrow> bool" where
  "shape N r D F \<longleftrightarrow> (\<forall>qs i. walk N r qs = Some i \<longrightarrow> (if is_dir N i then qs \<in> D else qs \<in> F))"

lemma shapeD: "shape N r D F \<Longrightarrow> walk N r qs = Some i \<Longrightarrow> if is_dir N i then qs \<in> D else qs \<in> F"
  by (auto simp: shape_def)

lemma is_dir_add:
  assumes "tree_ok (N, nx)" "fresh_under (N, nx) d n"
  shows "is_dir (add_child n N) i = (if i = nx then vn_kind n = Directory else is_dir N i)"
proof -
  obtain p where "N d = Some p" "vn_kind p = Directory" "d \<noteq> nx" "add_child n N = N(nx \<mapsto> n, d \<mapsto> p\<lparr>vn_children := vn_children p @ [nx]\<rparr>)"
    by (rule fresh_node [OF assms])
  then show ?thesis by (auto simp: is_dir_def)
qed

lemma walk_old: "tree_ok (N, nx) \<Longrightarrow> r < nx \<Longrightarrow> walk N r q = Some i \<Longrightarrow> i < nx"
  by (cases q rule: rev_cases) (auto simp: walk_snoc dest: child_parent(2) tree_okD(2))

lemma shape_add:
  assumes ok: "tree_ok (N, nx)" and fr: "fresh_under (N, nx) d n" and r: "r < nx" and w: "walk N r q = Some d" and s: "shape N r D F"
  shows "shape (add_child n N) r (if vn_kind n = Directory then insert (q @ [vn_name n]) D else D)
     (if vn_kind n = Directory then F else insert (q @ [vn_name n]) F)"
  unfolding shape_def
proof (intro allI impI)
  fix qs i assume "walk (add_child n N) r qs = Some i"
  then consider "walk N r qs = Some i" | q' where "walk N r q' = Some d" "qs = q' @ [vn_name n]" "i = nx"
    using walk_add_back [OF ok fr, of r qs i] r by auto
  then show "if is_dir (add_child n N) i then qs \<in> (if vn_kind n = Directory then insert (q @ [vn_name n]) D else D)
      else qs \<in> (if vn_kind n = Directory then F else insert (q @ [vn_name n]) F)"
  proof cases
    case 1
    then show ?thesis using shapeD [OF s 1] walk_old [OF ok r 1] by (auto simp: is_dir_add [OF ok fr])
  next
    case 2
    then show ?thesis using walk_inj [OF ok w] by (auto simp: is_dir_add [OF ok fr])
  qed
qed

lemma ensure_dir_path_walk:
  "ensure_dir_path cur parts now st = (st', d) \<Longrightarrow> tree_ok st \<Longrightarrow> is_dir (fst st) cur \<Longrightarrow> r < snd st
     \<Longrightarrow> walk (fst st) r q = Some cur \<Longrightarrow> shape (fst st) r D F \<Longrightarrow> \<forall>f \<in> F. \<not> prefix f (q @ parts)
     \<Longrightarrow> walk (fst st') r (q @ parts) = Some d \<and> r < snd st' \<and> shape (fst st') r (D \<union> {p. prefix p (q @ parts)}) F"
proof (induction cur parts now st arbitrary: q D rule: ensure_dir_path.induct)
  case (1 cur now st)
  then show ?case by (auto simp: shape_def split: if_splits)
next
  case (2 cur part parts now N nx)
  have ok: "tree_ok (N, nx)" and r: "r < nx" and w: "walk N r q = Some cur" and s: "shape N r D F" using "2.prems" by simp_all
  obtain n where n: "N cur = Some n" "vn_kind n = Directory" using "2.prems"(3) by (auto simp: is_dir_def)
  have dir: "is_dir N c" if "child N cur part = Some c" for c
    using shapeD [OF s, of "q @ [part]" c] that w "2.prems"(7) by (auto simp: walk_snoc split: if_splits)
  show ?case
  proof (cases "child N cur part")
    case (Some c)
    have "find (is_dir_named N part) (vn_children n) = Some c"
      using Some n dir [OF Some] by (auto simp: child_def find_Some_iff named_def is_dir_named_def is_dir_def split: option.splits)
    then show ?thesis
      using "2.IH"(2) [of c "q @ [part]" D] "2.prems" Some n dir [OF Some] by (simp add: walk_snoc)
  next
    case None
    then have find: "find (is_dir_named N part) (vn_children n) = None"
      using n by (auto simp: child_def find_None_iff named_def is_dir_named_def split: option.splits)
    let ?n = "dir_node nx cur part now []"
    have fr: "fresh_under (N, nx) cur ?n" using "2.prems"(3) by (simp add: fresh_simps)
    have k: "vn_kind ?n = Directory" "vn_name ?n = part" by (simp_all add: dir_node_def)
    have g: "walk (add_child ?n N) r q = Some cur" by (rule grows_walk [OF ok add_child_grows [OF ok fr] w])
    have "walk (add_child ?n N) r (q @ [part]) = Some nx"
      using g None k by (simp add: walk_snoc child_add [OF ok fr])
    moreover have "shape (add_child ?n N) r (insert (q @ [part]) D) F" using shape_add [OF ok fr r w s] k by simp
    moreover have "insert (q @ [part]) D \<union> {p. prefix p (q @ part # parts)} = D \<union> {p. prefix p (q @ part # parts)}" by auto
    ultimately show ?thesis
      using "2.IH"(1) [of "q @ [part]" "insert (q @ [part]) D"] "2.prems" n find r add_child_ok [OF ok fr] add_child_dir [OF ok fr k(1)] by simp
  qed
qed

lemma prefix_butlast_iff: "ps \<noteq> [] \<Longrightarrow> prefix p (butlast ps) \<longleftrightarrow> strict_prefix p ps"
  by (cases ps rule: rev_cases) (auto simp: strict_prefix_def dest: prefix_length_le)

lemma insert_path_walk:
  assumes ok: "tree_ok (N, nx)" and r: "is_dir N r" "r < nx" and s: "shape N r D F" and ne: "parts \<noteq> []"
    and F: "\<forall>f \<in> F. \<not> prefix f parts" and D: "parts \<notin> D"
    and ins: "insert_path r parts mid sz t (N, nx) = (N', nx')"
  shows "\<exists>i d. walk N' r parts = Some i \<and> N' i = Some (file_node i d (last parts) mid sz t)"
    and "shape N' r (D \<union> {p. strict_prefix p parts}) (insert parts F)"
proof -
  obtain N1 n1 d where e: "ensure_dir_path r (butlast parts) t (N, nx) = ((N1, n1), d)" by (metis prod.exhaust)
  note x = ensure_dir_path_extends [OF e ok] ensure_dir_path_walk [OF e ok, of r "[]" D F]
  have parts: "parts = butlast parts @ [last parts]" using ne by simp
  have pre: "prefix p (butlast parts) \<longleftrightarrow> strict_prefix p parts" for p by (rule prefix_butlast_iff [OF ne])
  have ok1: "tree_ok (N1, n1)" and d: "is_dir N1 d" using x(1) ok r by (auto simp: extends_def)
  have "\<not> prefix f (butlast parts)" if "f \<in> F" for f using F that pre by (auto simp: strict_prefix_def)
  then have w: "walk N1 r (butlast parts) = Some d" and r1: "r < n1" and s1: "shape N1 r (D \<union> {p. strict_prefix p parts}) F"
    using x(2) r s pre by (auto simp: is_dir_def)
  let ?n = "file_node n1 d (last parts) mid sz t"
  have fr: "fresh_under (N1, n1) d ?n" using d by (rule fresh_simps)
  have k: "vn_kind ?n \<noteq> Directory" "vn_name ?n = last parts" by (simp_all add: file_node_def)
  have N': "N' = add_child ?n N1" using ins e ne by (simp add: insert_path_def)
  have "child N1 d (last parts) = None"
  proof (rule ccontr)
    assume "child N1 d (last parts) \<noteq> None"
    then obtain c where "walk N1 r (butlast parts @ [last parts]) = Some c" using w by (auto simp: walk_snoc)
    then show False using shapeD [OF s1, of parts c] F D parts by (auto split: if_splits)
  qed
  then have "child N' d (last parts) = Some n1" by (simp add: N' child_add [OF ok1 fr] k)
  moreover have "walk N' r (butlast parts) = Some d" unfolding N' by (rule grows_walk [OF ok1 add_child_grows [OF ok1 fr] w])
  ultimately have "walk N' r parts = Some n1" using walk_snoc parts by metis
  moreover have "N' n1 = Some ?n"
  proof -
    obtain p where "d \<noteq> n1" "add_child ?n N1 = N1(n1 \<mapsto> ?n, d \<mapsto> p\<lparr>vn_children := vn_children p @ [n1]\<rparr>)" by (rule fresh_node [OF ok1 fr])
    then show ?thesis using N' by simp
  qed
  ultimately show "\<exists>i d. walk N' r parts = Some i \<and> N' i = Some (file_node i d (last parts) mid sz t)" by blast
  show "shape N' r (D \<union> {p. strict_prefix p parts}) (insert parts F)"
    using shape_add [OF ok1 fr r1 w s1] k N' parts by simp
qed

section \<open>Unrelated files\<close>

text \<open>No file's path leads to or through another's.\<close>

definition unrelated :: "rstring list list \<Rightarrow> bool" where
  "unrelated pss \<longleftrightarrow> distinct pss \<and> (\<forall>p \<in> set pss. \<forall>q \<in> set pss. prefix p q \<longrightarrow> p = q)"

type_synonym vfs_file = "rstring list \<times> rstring \<times> u64 \<times> u64"

definition insert_file :: "nat \<Rightarrow> vfs_nodes \<times> nat \<Rightarrow> vfs_file \<Rightarrow> vfs_nodes \<times> nat" where
  "insert_file r st f = (case f of (ps, mid, sz, t) \<Rightarrow> insert_path r ps mid sz t st)"

text \<open>The path leads to this file.\<close>

definition finds :: "vfs_nodes \<Rightarrow> nat \<Rightarrow> vfs_file \<Rightarrow> bool" where
  "finds N r f \<longleftrightarrow> (case f of (ps, mid, sz, t) \<Rightarrow>
     \<exists>i n. walk N r ps = Some i \<and> N i = Some n \<and> vn_kind n = RegularFile \<and> vn_manifest_id n = Some mid \<and> vn_size n = sz \<and> vn_mtime n = t)"

lemma grows_finds:
  assumes "tree_ok (N, nx)" "grows N N'" "finds N r f"
  shows "finds N' r f"
proof -
  obtain ps mid sz t i n where f: "f = (ps, mid, sz, t)" "walk N r ps = Some i" and n: "N i = Some n" "vn_kind n = RegularFile"
    "vn_manifest_id n = Some mid" "vn_size n = sz" "vn_mtime n = t" using assms(3) by (auto simp: finds_def)
  obtain cs where "N' i = Some (n\<lparr>vn_children := vn_children n @ cs\<rparr>)" using assms(2) n(1) by (auto simp: grows_def)
  then show ?thesis using grows_walk [OF assms(1,2) f(2)] f(1) n by (auto simp: finds_def)
qed

lemma insert_files_found:
  assumes "tree_ok st" "is_dir (fst st) r" "r < snd st"
    and "shape (fst st) r {p. p = [] \<or> (\<exists>f \<in> F. strict_prefix p f)} F"
    and "\<forall>f \<in> F. \<forall>g \<in> fst ` set fs. \<not> prefix f g \<and> \<not> prefix g f"
    and "unrelated (map fst fs)" "[] \<notin> fst ` set fs" "f \<in> set fs"
  shows "finds (fst (foldl (insert_file r) st fs)) r f"
  using assms
proof (induction fs arbitrary: st F)
  case (Cons g fs)
  obtain N nx where st: "st = (N, nx)" by (cases st)
  obtain ps mid sz t where g: "g = (ps, mid, sz, t)" by (cases g) auto
  obtain N' nx' where ins: "insert_path r ps mid sz t (N, nx) = (N', nx')" by (metis prod.exhaust)
  have ok: "tree_ok (N, nx)" and r: "is_dir N r" "r < nx" using Cons.prems st by simp_all
  have e: "extends (N, nx) (N', nx')" using insert_path_extends [of "(N, nx)" r ps mid sz t] ok r ins by simp
  then have ok': "tree_ok (N', nx')" and gr: "grows N N'" using ok by (auto simp: extends_def)
  have "ps \<noteq> []" "\<forall>f \<in> F. \<not> prefix f ps" "ps \<notin> {p. p = [] \<or> (\<exists>f \<in> F. strict_prefix p f)}"
    using Cons.prems(5,7) g by (auto simp: strict_prefix_def)
  note w = insert_path_walk [OF ok r Cons.prems(4) [unfolded st fst_conv] this ins]
  have here: "finds N' r g" using w(1) g by (auto simp: finds_def file_node_def)
  have r': "is_dir N' r" "r < nx'" using grows_dir [OF gr r(1)] ok' by (auto simp: is_dir_def dest: tree_okD(2))
  have "growing {r} (insert_file r)" by (simp add: growing_def insert_file_def insert_path_extends split: prod.splits)
  then have rest: "extends (N', nx') (foldl (insert_file r) (N', nx') fs)" using ok' r' by (intro growing_foldl) auto
  have gi: "insert_file r st g = (N', nx')" using st g ins by (simp add: insert_file_def)
  show ?case
  proof (cases "f = g")
    case True
    then show ?thesis using grows_finds [OF ok' _ here] rest ok' gi by (simp add: extends_def)
  next
    case False
    have un: "unrelated (map fst fs)" "\<forall>h \<in> fst ` set fs. \<not> prefix ps h \<and> \<not> prefix h ps"
      using Cons.prems(6) g by (auto simp: unrelated_def)
    have D: "{p. p = [] \<or> (\<exists>f \<in> F. strict_prefix p f)} \<union> {p. strict_prefix p ps} = {p. p = [] \<or> (\<exists>f \<in> insert ps F. strict_prefix p f)}" by auto
    have "finds (fst (foldl (insert_file r) (N', nx') fs)) r f"
      using Cons.IH [of "(N', nx')" "insert ps F"] ok' r' w(2) un Cons.prems(5,7,8) False unfolding D by auto
    then show ?thesis using gi by simp
  qed
qed simp

lemma new_dir_files_found:
  assumes "tree_ok st" "N = fst st" "N r = Some n" "vn_kind n = Directory" "vn_children n = []"
    and "unrelated (map fst fs)" "[] \<notin> fst ` set fs" "f \<in> set fs"
  shows "finds (fst (foldl (insert_file r) st fs)) r f"
proof -
  have "child N r x = None" for x using assms(3-5) by (simp add: child_def)
  then have "walk N r q = (if q = [] then Some r else None)" for q by (cases q) simp_all
  then have "shape N r {[]} {}" using assms(3,4) by (auto simp: shape_def is_dir_def split: if_splits)
  moreover have "r < snd st" using tree_okD(2) [of N "snd st"] assms(1-3) by simp
  ultimately show ?thesis using insert_files_found [of st r "{}" fs f] assms by (simp add: is_dir_def)
qed

section \<open>Resolving a path\<close>

lemma resolve_walk:
  assumes "tree_ok (N, nx)" "walk N i ps = Some j" "N j = Some n" "vn_kind n \<noteq> Symlink" "\<forall>p \<in> set ps. plain_piece p"
  shows "foldl (resolve_step N) (N i) ps = Some n"
  using assms(2,5)
proof (induction ps arbitrary: i)
  case (Cons p ps)
  obtain c where c: "child N i p = Some c" and w: "walk N c ps = Some j" using Cons.prems(1) by (auto simp: Option.bind_eq_Some_conv)
  obtain pn m where m: "N i = Some pn" "N c = Some m" by (rule child_Some [OF c])
  have "vn_kind m \<noteq> Symlink"
  proof (cases ps)
    case Nil
    then show ?thesis using w assms(3,4) m by simp
  next
    case (Cons q qs)
    then obtain c' where "child N c q = Some c'" using w by (auto simp: Option.bind_eq_Some_conv)
    then show ?thesis using m(2) by (auto elim: child_Some)
  qed
  then have "resolve_step N (N i) p = N c"
    using m c Cons.prems(2) tree_okD(1) [OF assms(1) m(1)] by (simp add: resolve_step_def plain_piece_def lookup_child_child)
  then show ?case using Cons.IH [OF w] Cons.prems(2) by simp
qed (use assms(3) in simp)

lemma trim_join:
  assumes "ps \<noteq> []" "\<forall>p \<in> set ps. plain_piece p"
  shows "trim_slashes (47 # join_path ps) = join_path ps"
proof -
  have front: "join_path ps \<noteq> [] \<and> hd (join_path ps) \<noteq> 47" using assms
    by (cases ps rule: join_path.cases) (fastforce simp: plain_piece_def hd_append dest: hd_in_set)+
  have lst: "last (join_path ps) \<noteq> 47" using assms
  proof (induction ps rule: join_path.induct)
    case (3 p q ps)
    have "join_path (q # ps) \<noteq> []" using 3(3) by (cases ps) (auto simp: plain_piece_def)
    then show ?case using 3 by simp
  next
    case (2 p)
    then show ?case by (metis plain_piece_def last_in_set list.set_intros(1) join_path.simps(2))
  qed simp
  have "dropWhile (\<lambda>b. b = 47) s = s" if "s \<noteq> []" "hd s \<noteq> 47" for s :: rstring using that by (cases s) auto
  then show ?thesis using front lst by (simp add: trim_slashes_def hd_rev)
qed

lemma resolve_path_walk:
  assumes "tree_ok (N, nx)" "walk N ROOT_INODE ps = Some j" "N j = Some n" "vn_kind n \<noteq> Symlink" "ps \<noteq> []" "\<forall>p \<in> set ps. plain_piece p"
  shows "resolve_path N (47 # join_path ps) = Some n"
proof -
  have "join_path ps \<noteq> []" using assms(5,6) by (cases ps rule: join_path.cases) (auto simp: plain_piece_def)
  then show ?thesis using resolve_walk [OF assms(1-4,6)] trim_join [OF assms(5,6)] split_on_join [OF assms(5,6)]
    by (simp add: resolve_path_def Let_def)
qed

end
