(* ===== verification/Oos_Caches.thy ===== *)
theory Oos_Caches
  imports Oos_Ids
begin

text \<open>
  The two least-recently-used caches: open segment files (\<^verbatim>\<open>SegmentFdCache\<close> in
  \<^verbatim>\<open>core/src/segment/reader.rs\<close>) and decompressed chunks (\<^verbatim>\<open>core/src/vfs/cache.rs\<close>).  Both keep a
  hash map, here an association list without duplicate keys, and a queue of keys from least to most
  recently used.  The locale \<open>read_through\<close> states what their callers rely on.
\<close>

section \<open>The interface\<close>

locale read_through =
  fixes cached :: "'c \<Rightarrow> 'k \<Rightarrow> 'v option"
    and fetch :: "'c \<Rightarrow> 'k \<Rightarrow> 'v \<Rightarrow> 'c \<times> 'v"
    and invar :: "'c \<Rightarrow> bool"
  assumes fetch_invar: "invar c \<Longrightarrow> invar (fst (fetch c k v))"
    and fetch_hit: "invar c \<Longrightarrow> cached c k = Some w \<Longrightarrow> snd (fetch c k v) = w \<and> cached (fst (fetch c k v)) = cached c"
    and fetch_miss: "invar c \<Longrightarrow> cached c k = None \<Longrightarrow> snd (fetch c k v) = v \<and> cached (fst (fetch c k v)) k = Some v"
    and fetch_other: "invar c \<Longrightarrow> k' \<noteq> k \<Longrightarrow> cached (fst (fetch c k v)) k' = Some w \<Longrightarrow> cached c k' = Some w"
begin

text \<open>The cache holds only values of the source \<open>src\<close>.\<close>

definition coherent :: "('k \<Rightarrow> 'v) \<Rightarrow> 'c \<Rightarrow> bool" where
  "coherent src c \<longleftrightarrow> invar c \<and> (\<forall>k v. cached c k = Some v \<longrightarrow> v = src k)"

lemma fetch_coherent:
  assumes "coherent src c"
  shows "snd (fetch c k (src k)) = src k" and "coherent src (fst (fetch c k (src k)))"
proof -
  have inv: "invar c" and val: "\<And>k v. cached c k = Some v \<Longrightarrow> v = src k"
    using assms by (auto simp: coherent_def)
  show "snd (fetch c k (src k)) = src k"
    using fetch_hit [OF inv] fetch_miss [OF inv] val by (cases "cached c k") fastforce+
  have "v = src k'" if "cached (fst (fetch c k (src k))) k' = Some v" for k' v
  proof (cases "k' = k")
    case False
    then show ?thesis using fetch_other [OF inv False that] val by blast
  next
    case True
    then show ?thesis
      using that fetch_miss [OF inv, of k "src k"] fetch_hit [OF inv, of k _ "src k"] val
      by (cases "cached c k") auto
  qed
  with fetch_invar [OF inv] show "coherent src (fst (fetch c k (src k)))"
    by (auto simp: coherent_def)
qed

text \<open>Any sequence of accesses through the cache returns what the source returns.\<close>

fun fetches :: "('k \<Rightarrow> 'v) \<Rightarrow> 'c \<Rightarrow> 'k list \<Rightarrow> 'c \<times> 'v list" where
  "fetches src c [] = (c, [])"
| "fetches src c (k # ks) =
     (let (c', v) = fetch c k (src k); (c'', vs) = fetches src c' ks in (c'', v # vs))"

lemma fetches_transparent:
  "coherent src c \<Longrightarrow> snd (fetches src c ks) = map src ks \<and> coherent src (fst (fetches src c ks))"
proof (induction ks arbitrary: c)
  case (Cons k ks)
  then show ?case
    using fetch_coherent [OF Cons.prems, of k] Cons.IH [of "fst (fetch c k (src k))"]
    by (auto simp: Let_def split_def)
qed simp

end

section \<open>The cache of open segment files\<close>

record 'f fd_cache =
  fc_files :: "(nat \<times> 'f) list"
  fc_access_order :: "nat list"
  fc_max_entries :: nat

definition DEFAULT_MAX_OPEN_SEGMENTS :: nat where "DEFAULT_MAX_OPEN_SEGMENTS = 128"

definition fd_new :: "nat \<Rightarrow> 'f fd_cache" where
  "fd_new mx = \<lparr>fc_files = [], fc_access_order = [], fc_max_entries = mx\<rparr>"

definition fd_clear :: "'f fd_cache \<Rightarrow> 'f fd_cache" where
  "fd_clear c = c\<lparr>fc_files := [], fc_access_order := []\<rparr>"

text \<open>Remove the first occurrence, append at the back.\<close>

definition promote :: "'k list \<Rightarrow> 'k \<Rightarrow> 'k list" where
  "promote order k = remove1 k order @ [k]"

text \<open>The eviction loop: pop the front of the queue while the map is full.\<close>

fun fd_evict :: "nat \<Rightarrow> (nat \<times> 'f) list \<Rightarrow> nat list \<Rightarrow> (nat \<times> 'f) list \<times> nat list" where
  "fd_evict mx files [] = (files, [])"
| "fd_evict mx files (oldest # order) =
     (if mx \<le> length files then fd_evict mx (AList.delete oldest files) order
      else (files, oldest # order))"

text \<open>\<open>open\<close> is the result of the caller's closure, which runs after the eviction.\<close>

definition fd_get_mut_or_open ::
    "'f fd_cache \<Rightarrow> nat \<Rightarrow> 'f result \<Rightarrow> 'f fd_cache \<times> 'f result" where
  "fd_get_mut_or_open c sid open_fn =
     (case map_of (fc_files c) sid of
        Some f \<Rightarrow> (c\<lparr>fc_access_order := promote (fc_access_order c) sid\<rparr>, Inr f)
      | None \<Rightarrow>
          (case fd_evict (fc_max_entries c) (fc_files c) (fc_access_order c) of (files, order) \<Rightarrow>
             (case open_fn of
                Inl e \<Rightarrow> (c\<lparr>fc_files := files, fc_access_order := order\<rparr>, Inl e)
              | Inr f \<Rightarrow> (c\<lparr>fc_files := AList.update sid f files, fc_access_order := order @ [sid]\<rparr>, Inr f))))"

text \<open>The queue holds every key of the map exactly once.\<close>

definition queue_inv :: "('k \<times> 'v) list \<Rightarrow> 'k list \<Rightarrow> bool" where
  "queue_inv m order \<longleftrightarrow> distinct (map fst m) \<and> distinct order \<and> set order = fst ` set m"

definition fd_inv :: "'f fd_cache \<Rightarrow> bool" where
  "fd_inv c \<longleftrightarrow> queue_inv (fc_files c) (fc_access_order c)
     \<and> length (fc_files c) \<le> max 1 (fc_max_entries c)"

section \<open>The cache of decompressed chunks\<close>

record lru_state =
  lru_chunks :: "(chunk_id \<times> bytes) list"
  lru_access_order :: "chunk_id list"
  lru_current_bytes :: nat
  lru_max_bytes :: nat

definition lru_new :: "nat \<Rightarrow> lru_state" where
  "lru_new mx = \<lparr>lru_chunks = [], lru_access_order = [], lru_current_bytes = 0,
     lru_max_bytes = (if mx = 0 then 134217728 else mx)\<rparr>"

definition lru_get :: "lru_state \<Rightarrow> chunk_id \<Rightarrow> lru_state \<times> bytes option" where
  "lru_get c k =
     (case map_of (lru_chunks c) k of
        Some d \<Rightarrow> (c\<lparr>lru_access_order := promote (lru_access_order c) k\<rparr>, Some d)
      | None \<Rightarrow> (c, None))"

fun lru_evict ::
    "nat \<Rightarrow> nat \<Rightarrow> (chunk_id \<times> bytes) list \<Rightarrow> nat \<Rightarrow> chunk_id list
       \<Rightarrow> (chunk_id \<times> bytes) list \<times> nat \<times> chunk_id list" where
  "lru_evict mx sz m cur [] = (m, cur, [])"
| "lru_evict mx sz m cur (old # order) =
     (if mx < cur + sz then
        (case map_of m old of
           None \<Rightarrow> lru_evict mx sz m cur order
         | Some d \<Rightarrow> lru_evict mx sz (AList.delete old m) (cur - length d) order)
      else (m, cur, old # order))"

definition lru_insert :: "lru_state \<Rightarrow> chunk_id \<Rightarrow> bytes \<Rightarrow> lru_state \<times> bytes" where
  "lru_insert c k data =
     (case map_of (lru_chunks c) k of
        Some d \<Rightarrow> (c\<lparr>lru_access_order := promote (lru_access_order c) k\<rparr>, d)
      | None \<Rightarrow>
          (case lru_evict (lru_max_bytes c) (length data) (lru_chunks c) (lru_current_bytes c)
                  (lru_access_order c) of
             (m, cur, order) \<Rightarrow>
               (c\<lparr>lru_chunks := AList.update k data m, lru_access_order := order @ [k],
                  lru_current_bytes := cur + length data\<rparr>, data)))"

definition lru_clear :: "lru_state \<Rightarrow> lru_state" where
  "lru_clear c = c\<lparr>lru_chunks := [], lru_access_order := [], lru_current_bytes := 0\<rparr>"

text \<open>
  The byte counter is exact, and it stays within the limit unless a single chunk that is larger than
  the limit is all the cache holds.
\<close>

definition lru_bytes :: "('k \<times> bytes) list \<Rightarrow> nat" where
  "lru_bytes m = sum_list (map (\<lambda>(k, d). length d) m)"

definition lru_inv :: "lru_state \<Rightarrow> bool" where
  "lru_inv c \<longleftrightarrow> queue_inv (lru_chunks c) (lru_access_order c)
     \<and> lru_current_bytes c = lru_bytes (lru_chunks c)
     \<and> (lru_current_bytes c \<le> lru_max_bytes c \<or> length (lru_chunks c) = 1)"

section \<open>Queue and map\<close>

lemma queue_inv_promote: "queue_inv m order \<Longrightarrow> map_of m k = Some v \<Longrightarrow> queue_inv m (promote order k)"
  by (auto simp: queue_inv_def promote_def dest: map_of_SomeD intro: rev_image_eqI)

lemma queue_inv_pop:
  assumes "queue_inv m (x # order)"
  shows "queue_inv (AList.delete x m) order" "map_of m x \<noteq> None"
proof -
  have "fst ` set (AList.delete x m) = fst ` set m - {x}"
    using delete_keys [of x m] by (metis set_map set_removeAll removeAll_filter_not_eq)
  then show "queue_inv (AList.delete x m) order"
    using assms by (auto simp: queue_inv_def distinct_delete)
  show "map_of m x \<noteq> None" using assms by (auto simp: queue_inv_def map_of_eq_None_iff)
qed

lemma queue_inv_push:
  "queue_inv m order \<Longrightarrow> map_of m k = None \<Longrightarrow> queue_inv (AList.update k v m) (order @ [k])"
  by (auto simp: queue_inv_def distinct_update map_of_eq_None_iff update_keys simp flip: set_map)

lemma queue_inv_length: "queue_inv m order \<Longrightarrow> length order = length m"
  by (metis distinct_card length_map queue_inv_def set_map)

lemma delete_sub: "map_of (AList.delete x m) k = Some v \<Longrightarrow> map_of m k = Some v"
  by (simp add: delete_conv split: if_splits)

lemma drop_more: "\<exists>n. ys = drop n xs \<Longrightarrow> \<exists>n. ys = drop n (x # xs)"
  by (metis drop_Suc_Cons)

section \<open>Open files\<close>

lemma fd_evict_spec:
  assumes "fd_evict mx files order = (files', order')" "queue_inv files order"
  shows "queue_inv files' order' \<and> (files' = [] \<or> length files' < mx)
    \<and> (\<forall>k v. map_of files' k = Some v \<longrightarrow> map_of files k = Some v) \<and> (\<exists>n. order' = drop n order)"
  using assms
proof (induction mx files order rule: fd_evict.induct)
  case (1 mx files)
  then show ?case by (auto simp: queue_inv_def)
next
  case (2 mx files oldest order)
  show ?case
  proof (cases "mx \<le> length files")
    case True
    note ih = "2.IH" [OF True _ queue_inv_pop(1) [OF "2.prems"(2)]]
    have "fd_evict mx (AList.delete oldest files) order = (files', order')"
      using "2.prems"(1) True by simp
    from ih [OF this] show ?thesis
      by (blast intro: delete_sub drop_more)
  next
    case False
    then have "files' = files" "order' = oldest # order" using "2.prems"(1) by auto
    with "2.prems"(2) False show ?thesis by (auto intro: exI [of _ 0])
  qed
qed

lemma fd_inv_new [simp]: "fd_inv (fd_new mx)" "fd_inv (fd_clear c)"
  by (simp_all add: fd_inv_def fd_new_def fd_clear_def queue_inv_def)

text \<open>One access: the map stays bounded, a miss evicts from the least recently used end.\<close>

lemma fd_get_spec:
  assumes "fd_get_mut_or_open c sid op = (c', r)" "fd_inv c"
  shows "fd_inv c'"
    and "map_of (fc_files c) sid = Some f \<Longrightarrow> r = Inr f \<and> fc_files c' = fc_files c"
    and "map_of (fc_files c) sid = None \<Longrightarrow> r = op \<and> (\<forall>f. op = Inr f \<longrightarrow> map_of (fc_files c') sid = Some f)"
    and "k \<noteq> sid \<Longrightarrow> map_of (fc_files c') k = Some v \<Longrightarrow> map_of (fc_files c) k = Some v"
    and "r = Inr f \<Longrightarrow> last (fc_access_order c') = sid"
proof -
  obtain files order where ev: "fd_evict (fc_max_entries c) (fc_files c) (fc_access_order c) = (files, order)"
    by fastforce
  have q: "queue_inv (fc_files c) (fc_access_order c)" using assms(2) by (simp add: fd_inv_def)
  have e: "queue_inv files order" "files = [] \<or> length files < fc_max_entries c"
    "\<And>k v. map_of files k = Some v \<Longrightarrow> map_of (fc_files c) k = Some v"
    using fd_evict_spec [OF ev q] by auto
  have none: "map_of files sid = None" if "map_of (fc_files c) sid = None"
    using e(3) that by (cases "map_of files sid") auto
  have len: "length (AList.update sid f files) \<le> Suc (length files)" for f
    by (induction files) auto
  show "fd_inv c'"
  proof (cases "map_of (fc_files c) sid")
    case None
    have "length files \<le> max 1 (fc_max_entries c)" "length (AList.update sid f files) \<le> max 1 (fc_max_entries c)" for f
      using e(2) len [of f] by auto
    then show ?thesis
      using assms None e(1) queue_inv_push [OF e(1) none]
      by (auto simp: fd_get_mut_or_open_def ev fd_inv_def split: sum.splits)
  qed (use assms queue_inv_promote [OF q, of sid] in \<open>auto simp: fd_get_mut_or_open_def fd_inv_def\<close>)
  show "map_of (fc_files c) sid = Some f \<Longrightarrow> r = Inr f \<and> fc_files c' = fc_files c"
    "map_of (fc_files c) sid = None \<Longrightarrow> r = op \<and> (\<forall>f. op = Inr f \<longrightarrow> map_of (fc_files c') sid = Some f)"
    using assms by (auto simp: fd_get_mut_or_open_def ev update_conv split: sum.splits)
  show "k \<noteq> sid \<Longrightarrow> map_of (fc_files c') k = Some v \<Longrightarrow> map_of (fc_files c) k = Some v"
    using assms e(3) by (auto simp: fd_get_mut_or_open_def ev update_conv split: option.splits sum.splits)
  show "r = Inr f \<Longrightarrow> last (fc_access_order c') = sid"
    using assms by (auto simp: fd_get_mut_or_open_def ev promote_def split: option.splits sum.splits)
qed

text \<open>
  A reader that opens files through the cache sees what it would see by opening them afresh, as long as
  the opening succeeds and the files are not replaced under it.
\<close>

definition fd_fetch :: "'f fd_cache \<Rightarrow> nat \<Rightarrow> 'f \<Rightarrow> 'f fd_cache \<times> 'f" where
  "fd_fetch c sid f =
     (case fd_get_mut_or_open c sid (Inr f) of (c', r) \<Rightarrow> (c', case r of Inr g \<Rightarrow> g | Inl _ \<Rightarrow> f))"

interpretation fd: read_through "\<lambda>c. map_of (fc_files c)" fd_fetch fd_inv
proof
  fix c :: "'f fd_cache" and k v w k'
  assume inv: "fd_inv c"
  obtain c' r where g: "fd_get_mut_or_open c k (Inr v) = (c', r)" by fastforce
  note s = fd_get_spec [OF g inv]
  show "fd_inv (fst (fd_fetch c k v))" using s(1) by (simp add: fd_fetch_def g)
  show "map_of (fc_files c) k = Some w \<Longrightarrow> snd (fd_fetch c k v) = w \<and> map_of (fc_files (fst (fd_fetch c k v))) = map_of (fc_files c)"
    using s(2) by (simp add: fd_fetch_def g)
  show "map_of (fc_files c) k = None \<Longrightarrow> snd (fd_fetch c k v) = v \<and> map_of (fc_files (fst (fd_fetch c k v))) k = Some v"
    using s(3) by (simp add: fd_fetch_def g)
  show "k' \<noteq> k \<Longrightarrow> map_of (fc_files (fst (fd_fetch c k v))) k' = Some w \<Longrightarrow> map_of (fc_files c) k' = Some w"
    using s(4) by (simp add: fd_fetch_def g)
qed

section \<open>Decompressed chunks\<close>

lemma lru_bytes_delete:
  "distinct (map fst m) \<Longrightarrow> map_of m k = Some d \<Longrightarrow> lru_bytes (AList.delete k m) = lru_bytes m - length d \<and> length d \<le> lru_bytes m"
proof (induction m)
  case (Cons e m)
  obtain k' d' where e: "e = (k', d')" by (cases e)
  show ?case
  proof (cases "k' = k")
    case True
    then have "AList.delete k m = m" using Cons.prems(1) by (intro delete_id) (auto simp: e)
    then show ?thesis using True Cons.prems(2) by (auto simp: e lru_bytes_def)
  next
    case False
    then show ?thesis using Cons by (auto simp: e lru_bytes_def)
  qed
qed simp

lemma lru_bytes_update: "map_of m k = None \<Longrightarrow> lru_bytes (AList.update k d m) = lru_bytes m + length d"
  by (induction m) (auto simp: lru_bytes_def split: if_splits)

lemma length_update_new: "map_of m k = None \<Longrightarrow> length (AList.update k d m) = Suc (length m)"
  by (induction m) (auto split: if_splits)

lemma lru_evict_spec:
  assumes "lru_evict mx sz m cur order = (m', cur', order')" "queue_inv m order" "cur = lru_bytes m"
  shows "queue_inv m' order' \<and> cur' = lru_bytes m' \<and> (m' = [] \<or> cur' + sz \<le> mx)
    \<and> (\<forall>k v. map_of m' k = Some v \<longrightarrow> map_of m k = Some v) \<and> (\<exists>n. order' = drop n order)"
  using assms
proof (induction mx sz m cur order rule: lru_evict.induct)
  case (1 mx sz m cur)
  then show ?case by (auto simp: queue_inv_def)
next
  case (2 mx sz m cur old order)
  show ?case
  proof (cases "mx < cur + sz")
    case True
    obtain d where d: "map_of m old = Some d" using queue_inv_pop(2) [OF "2.prems"(2)] by auto
    have "lru_evict mx sz (AList.delete old m) (cur - length d) order = (m', cur', order')"
      using "2.prems"(1) True d by simp
    moreover have "cur - length d = lru_bytes (AList.delete old m)"
      using lru_bytes_delete [OF _ d] "2.prems"(2,3) by (simp add: queue_inv_def)
    ultimately show ?thesis
      using "2.IH"(2) [OF True d _ queue_inv_pop(1) [OF "2.prems"(2)]]
      by (blast intro: delete_sub drop_more)
  next
    case False
    then have "m' = m" "cur' = cur" "order' = old # order" using "2.prems"(1) by auto
    with "2.prems"(2,3) False show ?thesis by (auto intro: exI [of _ 0])
  qed
qed

lemma lru_inv_new [simp]: "lru_inv (lru_new mx)" "lru_inv (lru_clear c)"
  by (simp_all add: lru_inv_def lru_new_def lru_clear_def queue_inv_def lru_bytes_def)

lemma lru_insert_spec:
  assumes "lru_insert c k data = (c', r)" "lru_inv c"
  shows "lru_inv c'" "lru_max_bytes c' = lru_max_bytes c"
    and "map_of (lru_chunks c) k = Some d \<Longrightarrow> r = d \<and> lru_chunks c' = lru_chunks c"
    and "map_of (lru_chunks c) k = None \<Longrightarrow> r = data \<and> map_of (lru_chunks c') k = Some data"
    and "k' \<noteq> k \<Longrightarrow> map_of (lru_chunks c') k' = Some v \<Longrightarrow> map_of (lru_chunks c) k' = Some v"
    and "last (lru_access_order c') = k"
proof -
  obtain m cur order where ev: "lru_evict (lru_max_bytes c) (length data) (lru_chunks c) (lru_current_bytes c)
      (lru_access_order c) = (m, cur, order)"
    using prod_cases3 by blast
  have q: "queue_inv (lru_chunks c) (lru_access_order c)" "lru_current_bytes c = lru_bytes (lru_chunks c)"
    using assms(2) by (auto simp: lru_inv_def)
  have e: "queue_inv m order" "cur = lru_bytes m" "m = [] \<or> cur + length data \<le> lru_max_bytes c"
    "\<And>k v. map_of m k = Some v \<Longrightarrow> map_of (lru_chunks c) k = Some v"
    using lru_evict_spec [OF ev q] by auto
  have none: "map_of m k = None" if "map_of (lru_chunks c) k = None"
    using e(4) that by (cases "map_of m k") auto
  show "lru_inv c'"
  proof (cases "map_of (lru_chunks c) k")
    case None
    then show ?thesis
      using assms e(1-3) queue_inv_push [OF e(1) none] lru_bytes_update [OF none] length_update_new [OF none]
      by (auto simp: lru_insert_def ev lru_inv_def)
  qed (use assms queue_inv_promote [OF q(1), of k] in \<open>auto simp: lru_insert_def lru_inv_def\<close>)
  show "lru_max_bytes c' = lru_max_bytes c" "last (lru_access_order c') = k"
    using assms by (auto simp: lru_insert_def ev promote_def split: option.splits)
  show "map_of (lru_chunks c) k = Some d \<Longrightarrow> r = d \<and> lru_chunks c' = lru_chunks c"
    "map_of (lru_chunks c) k = None \<Longrightarrow> r = data \<and> map_of (lru_chunks c') k = Some data"
    using assms by (auto simp: lru_insert_def ev update_conv)
  show "k' \<noteq> k \<Longrightarrow> map_of (lru_chunks c') k' = Some v \<Longrightarrow> map_of (lru_chunks c) k' = Some v"
    using assms e(4) by (auto simp: lru_insert_def ev update_conv split: option.splits)
qed

interpretation lru: read_through "\<lambda>c. map_of (lru_chunks c)" lru_insert lru_inv
  using lru_insert_spec by unfold_locales (metis prod.collapse)+

section \<open>Properties\<close>

text \<open>Every state a cache of decompressed chunks can reach.\<close>

inductive lru_run :: "nat \<Rightarrow> lru_state \<Rightarrow> bool" for mx where
  lrurun_new: "lru_run mx (lru_new mx)"
| lrurun_get: "lru_run mx c \<Longrightarrow> lru_run mx (fst (lru_get c k))"
| lrurun_insert: "lru_run mx c \<Longrightarrow> lru_run mx (fst (lru_insert c k data))"
| lrurun_clear: "lru_run mx c \<Longrightarrow> lru_run mx (lru_clear c)"

lemma lru_get_inv: "lru_inv c \<Longrightarrow> lru_inv (fst (lru_get c k)) \<and> lru_max_bytes (fst (lru_get c k)) = lru_max_bytes c"
  using queue_inv_promote by (auto simp: lru_get_def lru_inv_def split: option.splits)

lemma lru_run_inv: "lru_run mx c \<Longrightarrow> lru_inv c \<and> lru_max_bytes c = (if mx = 0 then 134217728 else mx)"
proof (induction rule: lru_run.induct)
  case lrurun_new
  then show ?case by (simp add: lru_new_def [of mx] lru_inv_new(1) [of mx, unfolded lru_new_def])
next
  case (lrurun_get c k)
  then show ?case using lru_get_inv [of c k] by simp
next
  case (lrurun_insert c k data)
  obtain c' r where "lru_insert c k data = (c', r)" by fastforce
  then show ?case using lru_insert_spec(1,2) [of c k data c' r] lrurun_insert by simp
next
  case (lrurun_clear c)
  then show ?case by (simp add: lru_clear_def [of c] lru_inv_new(2) [of c, unfolded lru_clear_def])
qed

text \<open>
  C36. The cache of decompressed chunks: the byte counter is the sum of the cached sizes, the recency
  queue lists exactly the cached chunks, each once, and the bytes stay within the limit unless a single
  chunk is cached; that chunk may be larger than the limit.
\<close>

theorem lru_bounded:
  assumes "lru_run mx c"
  shows "lru_current_bytes c = sum_list (map (length \<circ> snd) (lru_chunks c))
    \<and> distinct (lru_access_order c) \<and> set (lru_access_order c) = fst ` set (lru_chunks c)
    \<and> (lru_current_bytes c \<le> (if mx = 0 then 134217728 else mx) \<or> length (lru_chunks c) = 1)"
  using lru_run_inv [OF assms] by (auto simp: lru_inv_def queue_inv_def lru_bytes_def comp_def split_def)

theorem lru_bounded_witness:
  "\<exists>c. c = fst (lru_insert (lru_new 2) (ChunkId [1]) [5, 6, 7]) \<and> lru_current_bytes c = 3 \<and> length (lru_chunks c) = 1
     \<and> lru_current_bytes c = sum_list (map (length \<circ> snd) (lru_chunks c))"
proof -
  let ?c = "fst (lru_insert (lru_new 2) (ChunkId [1]) [5, 6, 7])"
  have "lru_current_bytes ?c = 3" "length (lru_chunks ?c) = 1"
    by (simp_all add: lru_insert_def lru_new_def)
  with lru_bounded [OF lrurun_insert [OF lrurun_new], of 2 "ChunkId [1]" "[5, 6, 7]"] show ?thesis by blast
qed

text \<open>Every state the cache of segment file handles can reach.\<close>

inductive fd_run :: "nat \<Rightarrow> 'f fd_cache \<Rightarrow> bool" for mx where
  fd_run_new: "fd_run mx (fd_new mx)"
| fd_run_open: "fd_run mx c \<Longrightarrow> fd_run mx (fst (fd_get_mut_or_open c sid op))"
| fd_run_clear: "fd_run mx c \<Longrightarrow> fd_run mx (fd_clear c)"

lemma fd_run_inv: "fd_run mx c \<Longrightarrow> fd_inv c \<and> fc_max_entries c = mx"
proof (induction rule: fd_run.induct)
  case (fd_run_open c sid op)
  obtain c' r where c': "fd_get_mut_or_open c sid op = (c', r)" by fastforce
  moreover have "fc_max_entries c' = fc_max_entries c"
    using c' by (auto simp: fd_get_mut_or_open_def split: option.splits prod.splits sum.splits)
  ultimately show ?case using fd_get_spec(1) [of c sid op c' r] fd_run_open by simp
next
  case (fd_run_clear c)
  then show ?case by (simp add: fd_clear_def [of c] fd_inv_new(2) [of c, unfolded fd_clear_def])
qed (simp add: fd_new_def [of mx] fd_inv_new(1) [of mx, unfolded fd_new_def])

text \<open>
  The cache of segment file handles never keeps more open files than its limit (at least one), its
  recency queue lists exactly the open files, and asking for a segment that is open returns that handle
  without opening anything.
\<close>

theorem fd_cache_bounded:
  assumes "fd_run mx c"
  shows "length (fc_files c) \<le> max 1 mx
    \<and> distinct (fc_access_order c) \<and> set (fc_access_order c) = fst ` set (fc_files c)
    \<and> (\<forall>sid f op. map_of (fc_files c) sid = Some f \<longrightarrow>
         snd (fd_get_mut_or_open c sid op) = Inr f \<and> fc_files (fst (fd_get_mut_or_open c sid op)) = fc_files c)"
  using fd_run_inv [OF assms] by (auto simp: fd_inv_def queue_inv_def fd_get_mut_or_open_def)

theorem fd_cache_bounded_witness:
  "\<exists>c :: nat fd_cache. c = fst (fd_get_mut_or_open (fst (fd_get_mut_or_open (fd_new 1) 1 (Inr 10))) 2 (Inr 20))
     \<and> length (fc_files c) \<le> max 1 1"
  using fd_cache_bounded [OF fd_run_open [OF fd_run_open [OF fd_run_new]], of 1 1 "Inr 10" 2 "Inr 20"] by blast

end
