(* ===== verification/Oos_Vfs_Read.thy ===== *)
theory Oos_Vfs_Read
  imports Oos_Vfs_Walk Oos_Caches Oos_Engine_Listing
begin

text \<open>
  \<^verbatim>\<open>VfsTree::read_range\<close> (\<^verbatim>\<open>core/src/vfs/tree.rs\<close>): a part of a file is read chunk by chunk through the
  cache of decompressed chunks.  A manifest has less than $2^{32}$ chunks and a chunk's recorded length is a
  32-bit number, so the running offset of the code cannot overflow and is a natural number here.
\<close>

section \<open>Reading a range\<close>

definition cached_chunk :: "ext \<Rightarrow> seg_store \<Rightarrow> chunk_id \<Rightarrow> (lru_state, bytes) sm" where
  "cached_chunk X s cid c =
     (case lru_get c cid of
        (c1, Some d) \<Rightarrow> (c1, Inr d)
      | (c1, None) \<Rightarrow>
          (case ss_get_chunk X s cid of
             Inl err \<Rightarrow> (c1, Inl err)
           | Inr d \<Rightarrow> (case lru_insert c1 cid d of (c2, d') \<Rightarrow> (c2, Inr d'))))"

text \<open>The part of a chunk at offset \<open>cur\<close> that lies between \<open>offset\<close> and \<open>end_offset\<close>.\<close>

definition chunk_part :: "nat \<Rightarrow> nat \<Rightarrow> nat \<Rightarrow> nat \<Rightarrow> bytes \<Rightarrow> bytes" where
  "chunk_part offset end_offset cur chunk_end d =
     (let slice_start = (if cur < offset then offset - cur else 0);
          slice_end = (if end_offset < chunk_end then end_offset - cur else length d)
      in if slice_start < length d \<and> slice_end \<le> length d \<and> slice_start < slice_end
         then take (slice_end - slice_start) (drop slice_start d) else [])"

fun range_loop :: "ext \<Rightarrow> seg_store \<Rightarrow> nat \<Rightarrow> nat \<Rightarrow> nat \<Rightarrow> bytes \<Rightarrow> chunk_id list \<Rightarrow> (lru_state, bytes) sm" where
  "range_loop X s offset end_offset cur acc [] c = (c, Inr acc)"
| "range_loop X s offset end_offset cur acc (cid # cids) c =
     (case ss_get_location s cid of
        None \<Rightarrow> (c, Inl (ChunkNotFound (cid_to_hex cid)))
      | Some location \<Rightarrow>
          (let chunk_end = cur + unat (cl_raw_len location);
               (c1, r) = (if offset < chunk_end \<and> cur < end_offset
                          then (case cached_chunk X s cid c of
                                  (c1, Inl err) \<Rightarrow> (c1, Inl err)
                                | (c1, Inr d) \<Rightarrow> (c1, Inr (acc @ chunk_part offset end_offset cur chunk_end d)))
                          else (c, Inr acc))
           in case r of
                Inl err \<Rightarrow> (c1, Inl err)
              | Inr acc' \<Rightarrow>
                  if end_offset \<le> chunk_end then (c1, Inr acc')
                  else range_loop X s offset end_offset chunk_end acc' cids c1))"

definition read_range :: "ext \<Rightarrow> 'db redb \<Rightarrow> 'db engine \<Rightarrow> rstring \<Rightarrow> u64 \<Rightarrow> u64 \<Rightarrow> (lru_state, bytes) sm" where
  "read_range X R e mid offset sz c =
     (if sz = 0 then (c, Inr [])
      else case get_manifest X R (eg_db e) mid of
             Inl err \<Rightarrow> (c, Inl err)
           | Inr None \<Rightarrow> (c, Inl (ObjectNotFound mid))
           | Inr (Some m) \<Rightarrow>
               if m_total_size m \<le> offset then (c, Inr [])
               else
                 let actual_read_len = min sz (m_total_size m - offset);
                     end_offset = offset + actual_read_len
                 in range_loop X (eg_segments e) (unat offset) (unat end_offset) 0 [] (m_chunks m) c)"

section \<open>The parts make up the range\<close>

lemma chunk_part_take:
  assumes "offset < end_offset" "offset < cur + length d" "cur < end_offset"
  shows "chunk_part offset end_offset cur (cur + length d) d = take (end_offset - max offset cur) (drop (offset - cur) d)"
  using assms by (auto simp: chunk_part_def Let_def max_def)

lemma range_step:
  assumes "offset < end_offset"
  shows "take (end_offset - max offset cur) (drop (offset - cur) (d @ rest))
    = (if offset < cur + length d \<and> cur < end_offset then chunk_part offset end_offset cur (cur + length d) d else [])
      @ (if end_offset \<le> cur + length d then []
         else take (end_offset - max offset (cur + length d)) (drop (offset - (cur + length d)) rest))"
proof (cases "offset \<le> cur \<and> \<not> offset < cur + length d")
  case True
  then have "offset = cur \<and> length d = 0" by linarith
  then have "offset = cur" "d = []" by auto
  then show ?thesis using assms by simp
next
  case False
  then show ?thesis using assms by (auto simp: chunk_part_take max_def)
qed

text \<open>Contents known by their ids; the cache holds nothing else.\<close>

definition content_of :: "ext \<Rightarrow> bytes set \<Rightarrow> chunk_id \<Rightarrow> bytes" where
  "content_of X U k = (SOME d. d \<in> U \<and> cid_from_data X d = k)"

lemma content_of_eq: "collision_free X U \<Longrightarrow> d \<in> U \<Longrightarrow> content_of X U (cid_from_data X d) = d"
  unfolding content_of_def by (rule some_equality) (auto dest: collision_freeD)

lemma lru_get_coherent: "lru.coherent src c \<Longrightarrow> lru.coherent src (fst (lru_get c k))"
  using lru_get_inv [of c k] by (auto simp: lru.coherent_def lru_get_def split: option.splits)

lemma new_coherent: "lru.coherent src (lru_new mx)"
  by (simp add: lru.coherent_def) (simp add: lru_new_def)

lemma cached_chunk_reads:
  assumes co: "lru.coherent src c" and g: "ss_get_chunk X s cid = Inr (src cid)"
  shows "\<exists>c'. cached_chunk X s cid c = (c', Inr (src cid)) \<and> lru.coherent src c'"
proof (cases "map_of (lru_chunks c) cid")
  case None
  then have "lru_get c cid = (c, None)" by (simp add: lru_get_def)
  then show ?thesis using lru.fetch_coherent [OF co, of cid] g by (auto simp: cached_chunk_def split: prod.splits)
next
  case (Some d)
  then have "d = src cid" using co by (simp add: lru.coherent_def)
  then show ?thesis using lru_get_coherent [OF co, of cid] Some by (auto simp: cached_chunk_def lru_get_def)
qed

lemma range_loop_reads:
  assumes off: "offset < end_offset"
  shows "lru.coherent src c \<Longrightarrow> \<forall>k \<in> set cids. ss_get_chunk X s k = Inr (src k) \<and> (\<exists>loc. ss_get_location s k = Some loc \<and> unat (cl_raw_len loc) = length (src k))
    \<Longrightarrow> \<exists>c'. range_loop X s offset end_offset cur acc cids c
          = (c', Inr (acc @ take (end_offset - max offset cur) (drop (offset - cur) (concat (map src cids))))) \<and> lru.coherent src c'"
proof (induction cids arbitrary: cur acc c)
  case (Cons k cids)
  obtain loc where loc: "ss_get_location s k = Some loc" "unat (cl_raw_len loc) = length (src k)" using Cons.prems(2) by auto
  let ?p = "if offset < cur + length (src k) \<and> cur < end_offset then chunk_part offset end_offset cur (cur + length (src k)) (src k) else []"
  obtain c2 where c2: "cached_chunk X s k c = (c2, Inr (src k))" "lru.coherent src c2"
    using cached_chunk_reads [OF Cons.prems(1), of X s k] Cons.prems(2) by auto
  define c1 where "c1 = (if offset < cur + length (src k) \<and> cur < end_offset then c2 else c)"
  have c1: "lru.coherent src c1"
    "(if offset < cur + length (src k) \<and> cur < end_offset
      then (case cached_chunk X s k c of (c1, Inl err) \<Rightarrow> (c1, Inl err)
            | (c1, Inr d) \<Rightarrow> (c1, Inr (acc @ chunk_part offset end_offset cur (cur + length (src k)) d)))
      else (c, Inr acc)) = (c1, Inr (acc @ ?p))"
    using c2 Cons.prems(1) by (auto simp: c1_def)
  have step: "range_loop X s offset end_offset cur acc (k # cids) c
      = (if end_offset \<le> cur + length (src k) then (c1, Inr (acc @ ?p)) else range_loop X s offset end_offset (cur + length (src k)) (acc @ ?p) cids c1)"
    by (simp only: range_loop.simps loc option.case Let_def c1(2) prod.case sum.case)
  show ?case
  proof (cases "end_offset \<le> cur + length (src k)")
    case True
    then show ?thesis using step c1(1) range_step [OF off, of cur "src k" "concat (map src cids)"] by simp
  next
    case False
    then show ?thesis
      using step Cons.IH [OF c1(1), of "cur + length (src k)" "acc @ ?p"] Cons.prems(2) range_step [OF off, of cur "src k" "concat (map src cids)"] by simp
  qed
qed simp

section \<open>Lengths\<close>

lemma total_len_eq: "total_len ds = word_of_nat (length (concat ds))"
  by (induction ds) (simp_all add: total_len_def)

lemma unat_total_len: "length (concat ds) < 2 ^ 64 \<Longrightarrow> unat (total_len ds) = length (concat ds)"
  by (simp add: total_len_eq unsigned_of_nat take_bit_nat_eq_self del: length_concat)

lemma concat_bound:
  assumes "\<forall>d \<in> set ds. length d < 2 ^ 32" "length ds < 2 ^ 32"
  shows "length (concat ds) < 2 ^ 64"
proof -
  have "length (concat ds) \<le> length ds * (2 ^ 32)" using assms(1) by (induction ds) auto
  also have "\<dots> < 2 ^ 32 * 2 ^ 32" using assms(2) by simp
  finally show ?thesis by simp
qed

section \<open>A mounted file reads as the stored one\<close>

lemma described_chunk:
  assumes inv: "eng_inv X V U e" and d: "d \<in> U" and has: "ss_has_chunk (eg_segments e) (cid_from_data X d)"
  shows "ss_get_chunk X (eg_segments e) (cid_from_data X d) = Inr d"
    "\<exists>loc. ss_get_location (eg_segments e) (cid_from_data X d) = Some loc \<and> unat (cl_raw_len loc) = length d"
proof -
  show g: "ss_get_chunk X (eg_segments e) (cid_from_data X d) = Inr d"
    using get_described [OF inv, of "[d]"] d has by (simp add: bindE_eq_Inr)
  obtain loc where loc: "idx_get (ss_index (eg_segments e)) (cid_from_data X d) = Some loc"
    using g by (cases "idx_get (ss_index (eg_segments e)) (cid_from_data X d)") (auto simp: ss_get_chunk_def ok_or_def)
  obtain log where "seg_log_inv X (eg_segments e) log" using inv by (auto simp: eng_inv_def seg_ok_def)
  then show "\<exists>loc. ss_get_location (eg_segments e) (cid_from_data X d) = Some loc \<and> unat (cl_raw_len loc) = length d"
    using seg_log_raw_len [OF _ loc g] loc by (auto simp: ss_get_location_def)
qed

text \<open>The total size of a described manifest is the length of its content.\<close>

lemma described_size:
  assumes inv: "eng_inv X V U e" and m: "stored_manifest X (V (eg_db e)) mid m"
    and ds: "set ds \<subseteq> U" "map (cid_from_data X) ds = m_chunks m" "total_len ds = m_total_size m"
    and has: "\<forall>c \<in> set (m_chunks m). ss_has_chunk (eg_segments e) c"
  shows "unat (m_total_size m) = length (concat ds)"
proof -
  have len: "length d < 2 ^ 32" if d: "d \<in> set ds" for d
  proof -
    have "cid_from_data X d \<in> set (m_chunks m)" using d unfolding ds(2) [symmetric] by simp
    with has have "ss_has_chunk (eg_segments e) (cid_from_data X d)" by blast
    then obtain loc :: chunk_location where "unat (cl_raw_len loc) = length d" using described_chunk(2) [OF inv subsetD [OF ds(1) d]] by blast
    then show ?thesis using unsigned_less [of "cl_raw_len loc", where ?'a = nat] by simp
  qed
  have "wf_manifest m" using m by (auto simp: stored_manifest_def dest: manifest_from_bytes_wf)
  then have "length ds < 2 ^ 32" using arg_cong [OF ds(2), of length] by (simp add: wf_manifest_def)
  then show ?thesis
    using unat_total_len [OF concat_bound, of ds] len ds(3) by auto
qed

text \<open>Every range of a described manifest, through any coherent cache.\<close>

lemma read_range_described:
  assumes R: "redb_ok R V" "redb_total R" and inv: "eng_inv X V U e" and m: "stored_manifest X (V (eg_db e)) mid m"
    and ds: "set ds \<subseteq> U" "map (cid_from_data X) ds = m_chunks m" "total_len ds = m_total_size m"
    and has: "\<forall>c \<in> set (m_chunks m). ss_has_chunk (eg_segments e) c" and co: "lru.coherent (content_of X U) c"
  shows "\<exists>c'. read_range X R e mid offset sz c = (c', Inr (take (unat sz) (drop (unat offset) (concat ds)))) \<and> lru.coherent (content_of X U) c'"
proof -
  let ?src = "content_of X U"
  have cf: "collision_free X U" using inv by (simp add: eng_inv_def)
  have src: "map ?src (m_chunks m) = ds" using ds(1) content_of_eq [OF cf] by (subst ds(2) [symmetric]) (auto intro!: map_idI)
  have rd: "ss_get_chunk X (eg_segments e) k = Inr (?src k)
      \<and> (\<exists>loc. ss_get_location (eg_segments e) k = Some loc \<and> unat (cl_raw_len loc) = length (?src k))" if k: "k \<in> set (m_chunks m)" for k
  proof -
    obtain d where d: "d \<in> U" "k = cid_from_data X d" using k ds(1) unfolding ds(2) [symmetric] by auto
    then show ?thesis using described_chunk [OF inv d(1)] has k content_of_eq [OF cf d(1)] by simp
  qed
  have tot: "unat (m_total_size m) = length (concat ds)" by (rule described_size [OF inv m ds has])
  have get: "get_manifest X R (eg_db e) mid = Inr (Some m)" by (rule get_stored_manifest [OF R m])
  consider "sz = 0" | "m_total_size m \<le> offset" | "sz \<noteq> 0" "offset < m_total_size m" by fastforce
  then show ?thesis
  proof cases
    case 1
    then show ?thesis using co by (simp add: read_range_def)
  next
    case 2
    then have "length (concat ds) \<le> unat offset" by (simp add: word_le_nat_alt tot)
    then show ?thesis using 2 co get by (simp add: read_range_def)
  next
    case 3
    let ?len = "min sz (m_total_size m - offset)"
    have diff: "unat (m_total_size m - offset) = length (concat ds) - unat offset"
      using 3(2) tot by (simp add: unat_sub less_imp_le)
    have len: "unat ?len = min (unat sz) (length (concat ds) - unat offset)"
      using diff by (auto simp: min_def word_le_nat_alt)
    have lt: "unat offset < length (concat ds)" using 3(2) tot by (simp add: word_less_nat_alt)
    have "unat offset + unat ?len \<le> length (concat ds)" using len lt by simp
    then have en: "unat (offset + ?len) = unat offset + unat ?len"
      using unsigned_less [of "m_total_size m", where ?'a = nat] tot by (intro unat_add_lem [THEN iffD1]) simp
    have pos: "0 < unat ?len" using len lt 3(1) by (simp add: unat_gt_0)
    obtain c' where "range_loop X (eg_segments e) (unat offset) (unat (offset + ?len)) 0 [] (m_chunks m) c
        = (c', Inr (take (unat ?len) (drop (unat offset) (concat ds))))" "lru.coherent ?src c'"
      using range_loop_reads [OF _ co, of "unat offset" "unat (offset + ?len)" "m_chunks m" X "eg_segments e" 0 "[]"] rd en pos src by auto
    moreover have "take (unat ?len) (drop (unat offset) (concat ds)) = take (unat sz) (drop (unat offset) (concat ds))"
      unfolding len by (auto simp: min_def)
    moreover have "\<not> m_total_size m \<le> offset" using 3(2) by simp
    ultimately show ?thesis using 3(1) get by (simp add: read_range_def Let_def)
  qed
qed

section \<open>Finding the file\<close>

definition current_file :: "rstring \<times> object_id \<times> object_record \<Rightarrow> vfs_file option" where
  "current_file obj = (case obj of (name, _, r) \<Rightarrow>
     if path_parts name = [] then None
     else map_option (\<lambda>v. (path_parts name, v_manifest_id v, v_size_bytes v, v_created_at v)) (rec_latest r))"

lemma current_fold: "foldl add_current st objs = foldl (insert_file CURRENT_INODE) st (List.map_filter current_file objs)"
proof (induction objs arbitrary: st)
  case (Cons obj objs)
  have "add_current st obj = (case current_file obj of None \<Rightarrow> st | Some f \<Rightarrow> insert_file CURRENT_INODE st f)"
    by (cases obj; cases "rec_latest (snd (snd obj))") (auto simp: add_current_def current_file_def insert_file_def insert_path_def)
  then show ?case using Cons by (simp add: map_filter_simps split: option.splits)
qed (simp add: map_filter_simps)

lemma current_fileD: "current_file x = Some f \<Longrightarrow> fst f = path_parts (fst x) \<and> fst f \<noteq> []"
  by (auto simp: current_file_def split: prod.splits if_splits)

lemma in_map_filter: "y \<in> set (List.map_filter f xs) \<longleftrightarrow> (\<exists>x \<in> set xs. f x = Some y)"
  by (force simp: List.map_filter_def)

lemma current_paths: "map fst (List.map_filter current_file objs) = map (path_parts \<circ> fst) (filter (\<lambda>x. current_file x \<noteq> None) objs)"
  by (auto simp: List.map_filter_def) (metis current_fileD fst_conv)

lemma unrelated_filter: "unrelated (map f xs) \<Longrightarrow> unrelated (map f (filter P xs))"
  by (auto simp: unrelated_def distinct_map_filter)

definition mount_path :: "rstring list \<Rightarrow> rstring" where
  "mount_path ps = 47 # join_path ps"

text \<open>Unrelated files at the head of the listing are found, whatever follows.\<close>

lemma current_found:
  assumes un: "unrelated (map (path_parts \<circ> fst) objs)" and obj: "obj \<in> set objs" "current_file obj = Some f"
  shows "finds (fst (vfs_passes now (objs @ objs2) snaps)) CURRENT_INODE f"
proof -
  let ?st = "foldl add_current (vfs_roots now, 5) objs"
  have dir: "fst (vfs_roots now, 5) CURRENT_INODE = Some (dir_node CURRENT_INODE ROOT_INODE (bytes_of ''current'') now [])"
    by (simp add: vfs_roots_def inode_defs)
  have "finds (fst ?st) CURRENT_INODE f"
    unfolding current_fold
  proof (rule new_dir_files_found [OF vfs_roots_ok refl dir])
    show "unrelated (map fst (List.map_filter current_file objs))" using un by (simp add: current_paths unrelated_filter)
    show "[] \<notin> fst ` set (List.map_filter current_file objs)"
      using current_fileD by (fastforce simp: in_map_filter)
    show "f \<in> set (List.map_filter current_file objs)" using obj by (auto simp: in_map_filter)
  qed (simp_all add: dir_node_def)
  moreover have e: "extends (vfs_roots now, 5) ?st" by (rule vfs_passes_grow(1))
  moreover have "is_dir (vfs_roots now) CURRENT_INODE" using dir by (simp add: is_dir_def dir_node_def)
  then have "is_dir (fst ?st) CURRENT_INODE" using e vfs_roots_ok by (auto simp: extends_def intro: grows_dir)
  then have "extends ?st (foldl add_current ?st objs2)"
    using e vfs_roots_ok by (intro growing_foldl [OF add_current_growing]) (auto simp: extends_def)
  from extends_trans [OF this] vfs_passes_grow(2) [of now "objs @ objs2" snaps]
  have "extends ?st (vfs_passes now (objs @ objs2) snaps)" by simp
  ultimately show ?thesis using grows_finds [of "fst ?st" "snd ?st"] vfs_roots_ok by (simp add: extends_def)
qed

lemma current_child: "walk (fst (vfs_passes now objs snaps)) ROOT_INODE (bytes_of ''current'' # ps) = walk (fst (vfs_passes now objs snaps)) CURRENT_INODE ps"
proof -
  let ?N = "fst (vfs_passes now objs snaps)"
  have "child (vfs_roots now) ROOT_INODE (bytes_of ''current'') = Some CURRENT_INODE"
    by (simp add: child_def vfs_roots_def inode_defs dir_node_def named_def)
  moreover have "grows (vfs_roots now) ?N"
    using extends_trans [OF vfs_passes_grow(1,2)] vfs_roots_ok by (auto simp: extends_def)
  ultimately have "child ?N ROOT_INODE (bytes_of ''current'') = Some CURRENT_INODE" using grows_child [OF vfs_roots_ok] by blast
  then show ?thesis by simp
qed

lemma plain_current: "plain_piece (bytes_of ''current'')"
  by code_simp

lemma current_walks:
  assumes un: "unrelated (map (path_parts \<circ> fst) objs)" and obj: "(name, i, r) \<in> set objs" and v: "rec_latest r = Some v"
    and ne: "path_parts name \<noteq> []"
  shows "\<exists>j n. walk (fst (vfs_passes now objs snaps)) ROOT_INODE (bytes_of ''current'' # path_parts name) = Some j
    \<and> fst (vfs_passes now objs snaps) j = Some n
    \<and> vn_kind n = RegularFile \<and> vn_manifest_id n = Some (v_manifest_id v) \<and> vn_size n = v_size_bytes v \<and> vn_mtime n = v_created_at v"
proof -
  let ?N = "fst (vfs_passes now objs snaps)"
  have "finds ?N CURRENT_INODE (path_parts name, v_manifest_id v, v_size_bytes v, v_created_at v)"
    using current_found [OF un obj, of _ now "[]" snaps] v ne by (simp add: current_file_def)
  then obtain j n where n: "walk ?N CURRENT_INODE (path_parts name) = Some j" "?N j = Some n" "vn_kind n = RegularFile"
    "vn_manifest_id n = Some (v_manifest_id v)" "vn_size n = v_size_bytes v" "vn_mtime n = v_created_at v" by (auto simp: finds_def)
  moreover have "walk ?N ROOT_INODE (bytes_of ''current'' # path_parts name) = Some j" using n(1) by (simp only: current_child)
  ultimately show ?thesis by blast
qed

lemma current_resolves:
  assumes un: "unrelated (map (path_parts \<circ> fst) objs)" and obj: "(name, i, r) \<in> set objs" and v: "rec_latest r = Some v"
    and ne: "path_parts name \<noteq> []" and plain: "\<forall>p \<in> set (path_parts name). plain_piece p"
  shows "\<exists>n. resolve_path (fst (vfs_passes now objs snaps)) (mount_path (bytes_of ''current'' # path_parts name)) = Some n
    \<and> vn_kind n = RegularFile \<and> vn_manifest_id n = Some (v_manifest_id v) \<and> vn_size n = v_size_bytes v \<and> vn_mtime n = v_created_at v"
proof -
  let ?N = "fst (vfs_passes now objs snaps)"
  obtain j n where n: "walk ?N ROOT_INODE (bytes_of ''current'' # path_parts name) = Some j" "?N j = Some n" "vn_kind n = RegularFile"
    "vn_manifest_id n = Some (v_manifest_id v)" "vn_size n = v_size_bytes v" "vn_mtime n = v_created_at v"
    using current_walks [OF un obj v ne] by blast
  have ok: "tree_ok (?N, snd (vfs_passes now objs snaps))" using vfs_passes_grow(3) [of now objs snaps] by simp
  have "resolve_path ?N (mount_path (bytes_of ''current'' # path_parts name)) = Some n"
    unfolding mount_path_def using n(3) plain plain_current by (intro resolve_path_walk [OF ok n(1,2)]) auto
  then show ?thesis using n by blast
qed

lemma vfs_build_passes:
  "list_named_objects R (eg_db e) = Inr objs \<Longrightarrow> \<exists>snaps. vfs_build X R now e = fst (vfs_passes now objs snaps)"
  by (simp add: vfs_build_def vfs_passes_def Let_def) blast

text \<open>A mount shows this content: the file is there, and every range of it reads as that part of the content.\<close>

definition mounts :: "ext \<Rightarrow> 'db redb \<Rightarrow> bytes set \<Rightarrow> 'db engine \<Rightarrow> vfs_nodes \<Rightarrow> rstring \<Rightarrow> bytes \<Rightarrow> bool" where
  "mounts X R U e N path content \<longleftrightarrow> (\<exists>n mid. resolve_path N path = Some n \<and> vn_kind n = RegularFile \<and> vn_manifest_id n = Some mid
     \<and> (\<forall>offset sz c. lru.coherent (content_of X U) c \<longrightarrow> (\<exists>c'. lru.coherent (content_of X U) c'
          \<and> read_range X R e mid offset sz c = (c', Inr (take (unat sz) (drop (unat offset) content))))))"

lemma listed_file_extracts:
  assumes R: "redb_ok R V" "redb_total R" and inv: "eng_inv X V U e" and ok: "names_ok (V (eg_db e))"
    and utf: "\<forall>n \<in> dom (V (eg_db e) NAME_INDEX). utf8_valid n" and objs: "list_files R e = Inr objs"
    and obj: "(name, i, r) \<in> set objs" and v: "rec_latest r = Some v" and nm: "trim name = name"
  shows "\<exists>content. length content < 2 ^ 64
    \<and> (\<forall>tmp out d. \<exists>d'. get_file X R e name tmp out d = (d', Inr (word_of_nat (length content))) \<and> writes_file d tmp out content d')
    \<and> (\<forall>offset sz c. lru.coherent (content_of X U) c \<longrightarrow> (\<exists>c'. lru.coherent (content_of X U) c'
         \<and> read_range X R e (v_manifest_id v) offset sz c = (c', Inr (take (unat sz) (drop (unat offset) content)))))"
proof -
  have l: "list_named_objects R (eg_db e) = Inr objs" using objs by (simp add: list_files_def)
  have o: "object_of (V (eg_db e)) name = Some i" using list_named_objects_spec [OF R ok utf] l obj by fastforce
  have g: "get_object R (eg_db e) i = Inr (Some r)" by (rule list_named_objects_mem [OF l obj])
  have "v \<in> set (o_versions r)" using v by (auto simp: rec_latest_def split: list.splits if_splits)
  then have live: "v_manifest_id v \<in> live_manifests X (V (eg_db e))" using get_object_live(2) [OF R(1) g] by blast
  have "db_ok X U (ss_has_chunk (eg_segments e)) (V (eg_db e))" using inv by (simp add: eng_inv_iff)
  from db_ok_live [OF this live] obtain m where m: "stored_manifest X (V (eg_db e)) (v_manifest_id v) m" "described X U m"
    "\<forall>c \<in> set (m_chunks m). ss_has_chunk (eg_segments e) c" unfolding good_mid_def by (elim exE conjE)
  obtain ds where ds: "set ds \<subseteq> U" "map (cid_from_data X) ds = m_chunks m" "blake3 X (concat ds) = m_content_hash m" "total_len ds = m_total_size m"
    using m(2) unfolding described_def by blast
  have "resolve_manifest X R (eg_db e) name = Inr m"
    using o g get_stored_manifest [OF R m(1)] v
    by (simp add: resolve_manifest_def nm Let_def resolve_name_total [OF R] object_of_def latest_manifest_def rec_latest_manifest_id_def)
  then have "get_file X R e name tmp out d = extract_manifest_to_file X (eg_segments e) m tmp out d" for tmp out d
    by (simp add: get_file_def get_file_version_def bindS_liftE)
  with extract_described [OF inv ds(1-3) m(3)]
  have ex: "\<exists>d'. get_file X R e name tmp out d = (d', Inr (word_of_nat (length (concat ds)))) \<and> writes_file d tmp out (concat ds) d'" for tmp out d
    unfolding total_len_eq by metis
  have "length (concat ds) < 2 ^ 64"
    using described_size [OF inv m(1) ds(1,2,4) m(3)] unsigned_less [of "m_total_size m", where ?'a = nat] by simp
  then show ?thesis
    using ex read_range_described [OF R inv m(1) ds(1,2,4) m(3)] by (intro exI [of _ "concat ds"] conjI allI impI) blast+
qed

lemma listed_file_served:
  assumes R: "redb_ok R V" "redb_total R" and inv: "eng_inv X V U e" and ok: "names_ok (V (eg_db e))"
    and utf: "\<forall>n \<in> dom (V (eg_db e) NAME_INDEX). utf8_valid n" and objs: "list_files R e = Inr objs"
    and un: "unrelated (map (path_parts \<circ> fst) objs)" and obj: "(name, i, r) \<in> set objs" and v: "rec_latest r = Some v"
    and nm: "trim name = name" "path_parts name \<noteq> []" "\<forall>p \<in> set (path_parts name). plain_piece p"
  shows "\<exists>content d' n. get_file X R e name tmp out d = (d', Inr (word_of_nat (length content))) \<and> writes_file d tmp out content d'
    \<and> mounts X R U e (vfs_build X R now e) (mount_path (bytes_of ''current'' # path_parts name)) content
    \<and> resolve_path (vfs_build X R now e) (mount_path (bytes_of ''current'' # path_parts name)) = Some n
    \<and> vn_size n = v_size_bytes v \<and> length content < 2 ^ 64"
proof -
  obtain snaps where b: "vfs_build X R now e = fst (vfs_passes now objs snaps)"
    using vfs_build_passes [of R e objs] objs by (auto simp: list_files_def)
  obtain n where n: "resolve_path (vfs_build X R now e) (mount_path (bytes_of ''current'' # path_parts name)) = Some n"
    "vn_kind n = RegularFile" "vn_manifest_id n = Some (v_manifest_id v)" "vn_size n = v_size_bytes v"
    using current_resolves [OF un obj v nm(2,3)] unfolding b by blast
  obtain content where c: "length content < 2 ^ 64"
    "\<And>tmp out d. \<exists>d'. get_file X R e name tmp out d = (d', Inr (word_of_nat (length content))) \<and> writes_file d tmp out content d'"
    "\<And>offset sz c. lru.coherent (content_of X U) c \<Longrightarrow> \<exists>c'. lru.coherent (content_of X U) c'
       \<and> read_range X R e (v_manifest_id v) offset sz c = (c', Inr (take (unat sz) (drop (unat offset) content)))"
    using listed_file_extracts [OF R inv ok utf objs obj v nm(1)] by blast
  have "mounts X R U e (vfs_build X R now e) (mount_path (bytes_of ''current'' # path_parts name)) content"
    unfolding mounts_def using n c(3) by blast
  with c(1) c(2) [of tmp out d] n(1,4) show ?thesis by blast
qed

text \<open>Below a file there is nothing.\<close>

lemma resolve_None: "foldl (resolve_step N) None ps = None"
  by (induction ps) (simp_all add: resolve_step_def)

lemma resolve_below_file:
  assumes "tree_ok (N, nx)" "N j = Some n" "vn_kind n \<noteq> Directory" "ps \<noteq> []" "\<forall>p \<in> set ps. plain_piece p"
  shows "foldl (resolve_step N) (Some n) ps = None"
proof -
  obtain p qs where ps: "ps = p # qs" using assms(4) by (cases ps) auto
  have "resolve_step N (Some n) p = None"
    using assms(2,3,5) tree_okD(1) [OF assms(1,2)] ps by (simp add: resolve_step_def plain_piece_def lookup_child_def)
  then show ?thesis by (simp add: ps resolve_None)
qed

lemma resolve_path_None:
  assumes "foldl (resolve_step N) (N ROOT_INODE) ps = None" "ps \<noteq> []" "\<forall>p \<in> set ps. plain_piece p"
  shows "resolve_path N (47 # join_path ps) = None"
proof -
  have "join_path ps \<noteq> []" using assms(2,3) by (cases ps rule: join_path.cases) (auto simp: plain_piece_def)
  then show ?thesis using assms(1) trim_join [OF assms(2,3)] split_on_join [OF assms(2,3)] by (simp add: resolve_path_def Let_def)
qed

text \<open>The listing of the example store.\<close>

lemma demo_listing:
  fixes e :: "demo_db engine"
  assumes "histories (demo_view (eg_db e)) = [demo_name \<mapsto> [vm]]" "names_ok (demo_view (eg_db e))"
  shows "\<exists>i r v. list_files demo_redb e = Inr [(demo_name, i, r)] \<and> rec_latest r = Some v"
proof -
  have utf: "\<forall>n \<in> dom (demo_view (eg_db e) NAME_INDEX). utf8_valid n" by (rule demo_names_utf8 [OF assms])
  with list_named_objects_spec [OF demo_redb_ok demo_redb_total, of "eg_db e"] assms(2) obtain objs
    where objs: "list_named_objects demo_redb (eg_db e) = Inr objs" "sorted_wrt (<) (map fst objs)"
      "map_of (map (\<lambda>(n, i, r). (n, versions_of r)) objs) = [demo_name \<mapsto> [vm]]" unfolding assms(1) by blast
  obtain i r where o: "objs = [(demo_name, i, r)]" "versions_of r = [vm]" by (rule single_listing [OF objs(2,3)])
  obtain v where "o_versions r = [v]" using o(2) by (auto simp: versions_of_def)
  then have "rec_latest r = Some v" using rec_latest_snoc [of r "[]" v] by simp
  then show ?thesis using objs(1) by (auto simp: list_files_def o(1))
qed

lemma demo_listed:
  fixes e :: "demo_db engine"
  assumes "histories (demo_view (eg_db e)) = [demo_name \<mapsto> [vm]]" "names_ok (demo_view (eg_db e))"
  shows "\<exists>objs i r v. list_files demo_redb e = Inr objs \<and> unrelated (map (path_parts \<circ> fst) objs) \<and> (demo_name, i, r) \<in> set objs
    \<and> rec_latest r = Some v"
  using demo_listing [OF assms] by (fastforce simp: unrelated_def)

section \<open>Properties\<close>

text \<open>
  C20. The mounted tree is well formed, whatever the store holds: every node has its own number, files and
  links have no children and carry a manifest or a target, parents and children point at each other, and
  numbers grow downwards, so there is no cycle.
\<close>

theorem vfs_tree_ok: "\<exists>next_ino. tree_ok (vfs_build X R now e, next_ino)"
proof -
  have "vfs_build X R now e = fst (vfs_passes now (case list_named_objects R (eg_db e) of Inl _ \<Rightarrow> [] | Inr os \<Rightarrow> os)
      (case list_snapshots X R (eg_db e) of Inl _ \<Rightarrow> [] | Inr ss \<Rightarrow> ss))" (is "_ = fst ?st")
    by (simp add: vfs_build_def vfs_passes_def Let_def)
  then show ?thesis using vfs_passes_grow(3) by (metis prod.collapse)
qed





end
