(* ===== verification/Oos_Http.thy ===== *)
theory Oos_Http
  imports Oos_Vfs_Read
begin

text \<open>
  What the front ends of \<^verbatim>\<open>src/cli\<close> share: HTTP requests and responses as the handlers see and build them,
  and the text routines of \<^verbatim>\<open>mount/webdav.rs\<close> (percent decoding, XML escaping, dates, byte ranges).  The
  HTTP library itself only carries these values to and from the socket.
\<close>

section \<open>Requests and responses\<close>

record http_request =
  rq_method :: rstring
  rq_url :: rstring
  rq_headers :: "(rstring \<times> rstring) list"
  rq_body :: bytes

text \<open>A response with the headers the handler sets, in order.\<close>

record http_response =
  rs_status :: nat
  rs_headers :: "(rstring \<times> rstring) list"
  rs_body :: bytes

definition empty_response :: "nat \<Rightarrow> http_response" where
  "empty_response status = \<lparr>rs_status = status, rs_headers = [], rs_body = []\<rparr>"

definition string_response :: "nat \<Rightarrow> rstring \<Rightarrow> http_response" where
  "string_response status s = \<lparr>rs_status = status, rs_headers = [], rs_body = s\<rparr>"

definition with_header :: "string \<Rightarrow> rstring \<Rightarrow> http_response \<Rightarrow> http_response" where
  "with_header k v r = r\<lparr>rs_headers := rs_headers r @ [(bytes_of k, v)]\<rparr>"

text \<open>Byte strings of different literals differ.\<close>

lemma char_byte_inject: "inj (\<lambda>c. word_of_nat (of_char c) :: byte)"
proof (rule injI)
  have u: "unat (word_of_nat (of_char c) :: byte) = of_char c" for c
    using nat_of_char_less_256 [of c] by (simp add: unsigned_of_nat take_bit_nat_eq_self)
  fix a b assume "(word_of_nat (of_char a) :: byte) = word_of_nat (of_char b)"
  then have "(of_char a :: nat) = of_char b" using u [of a] u [of b] by metis
  then show "a = b" by (simp only: of_char_eq_iff)
qed

lemma bytes_of_inject: "bytes_of s = bytes_of t \<longleftrightarrow> s = t"
  unfolding bytes_of_def by (rule inj_map_eq_map [OF char_byte_inject])

definition ascii_lower :: "byte \<Rightarrow> byte" where
  "ascii_lower b = (if 65 \<le> b \<and> b \<le> 90 then b + 32 else b)"

definition eq_ignore_ascii_case :: "rstring \<Rightarrow> rstring \<Rightarrow> bool" where
  "eq_ignore_ascii_case s t \<longleftrightarrow> map ascii_lower s = map ascii_lower t"

text \<open>The first header of this name.\<close>

definition find_header :: "string \<Rightarrow> http_request \<Rightarrow> rstring option" where
  "find_header k q = map_option snd (find (\<lambda>(f, _). eq_ignore_ascii_case f (bytes_of k)) (rq_headers q))"

section \<open>Percent decoding\<close>

text \<open>
  A percent sign takes the next two bytes with it, whether they are hexadecimal digits or not; when they
  are not, only the percent sign is kept.
\<close>

fun urldecode_bytes :: "bytes \<Rightarrow> bytes" where
  "urldecode_bytes [] = []"
| "urldecode_bytes (b # bs) =
     (if b = 37
      then (case bs of
              h1 # h2 # rest \<Rightarrow>
                (case (if utf8_valid [h1, h2] then u8_from_hex2 h1 h2 else None) of
                   Some v \<Rightarrow> v # urldecode_bytes rest
                 | None \<Rightarrow> b # urldecode_bytes rest)
            | _ \<Rightarrow> [b])
      else b # urldecode_bytes bs)"

definition urlencoding_decode :: "rstring \<Rightarrow> rstring" where
  "urlencoding_decode s = from_utf8_lossy (urldecode_bytes s)"

definition decode_url_path :: "rstring \<Rightarrow> rstring" where
  "decode_url_path url = urlencoding_decode (hd (split_on (\<lambda>b. b = 63) url))"

text \<open>Percent encoding of every byte that is not a letter, a digit or a slash is undone by the decoder.\<close>

definition url_plain :: "byte \<Rightarrow> bool" where
  "url_plain b \<longleftrightarrow> 47 \<le> b \<and> b \<le> 57 \<or> 65 \<le> b \<and> b \<le> 90 \<or> 97 \<le> b \<and> b \<le> 122"

fun url_encode :: "rstring \<Rightarrow> rstring" where
  "url_encode [] = []"
| "url_encode (b # bs) = (if url_plain b then [b] else 37 # hex_encode [b]) @ url_encode bs"

lemma hex2_encode: "u8_from_hex2 (hex_digit (unat b div 16)) (hex_digit (unat b mod 16)) = Some b"
  using hex_decode_encode [of "[b]"] by (auto simp del: hex_decode_encode split: if_splits option.splits)

lemma utf8_hex2: "utf8_valid [hex_digit (unat (b :: byte) div 16), hex_digit (unat b mod 16)]"
  using ascii_hex_encode [of "[b]"] by (intro utf8_valid_ascii) simp

lemma urldecode_encode: "urldecode_bytes (url_encode s) = s"
proof (induction s)
  case (Cons b s)
  show ?case
  proof (cases "url_plain b")
    case True
    then have "b \<noteq> 37" by (auto simp: url_plain_def)
    then show ?thesis using True Cons by simp
  next
    case False
    then show ?thesis using Cons by (simp add: hex2_encode utf8_hex2 del: utf8_valid.simps)
  qed
qed simp

lemma hex_digit_url: "n < 16 \<Longrightarrow> hex_digit n \<notin> {38, 47, 61, 63}"
proof -
  have "\<forall>n < 16. hex_digit n \<notin> {38, 47, 61, 63}" by code_simp
  then show "n < 16 \<Longrightarrow> hex_digit n \<notin> {38, 47, 61, 63}" by blast
qed

lemma hex_encode_url: "b \<in> set (hex_encode bs) \<Longrightarrow> b \<notin> {38, 47, 61, 63}"
  by (induction bs) (use hex_digit_url in auto)

lemma url_encode_plain: "b \<in> set (url_encode s) \<Longrightarrow> b \<noteq> 63"
  by (induction s) (auto simp: url_plain_def hex_digit_url [simplified] split: if_splits)

lemma split_on_none: "(\<forall>x \<in> set xs. \<not> p x) \<Longrightarrow> split_on p xs = [xs]"
  by (induction xs) auto

lemma split_on_cut: "(\<forall>x \<in> set xs. \<not> p x) \<Longrightarrow> p y \<Longrightarrow> split_on p (xs @ y # ys) = xs # split_on p ys"
  by (induction xs) auto

lemma decode_url_encode: "utf8_valid s \<Longrightarrow> decode_url_path (url_encode s) = s"
  using split_on_none [of "url_encode s" "\<lambda>b. b = 63"] url_encode_plain
  by (auto simp: decode_url_path_def urlencoding_decode_def urldecode_encode)

text \<open>Cutting valid text at an ASCII byte gives valid texts.\<close>

lemma utf8_match_cut:
  "fst (utf8_match ps (bs @ y # ys)) \<Longrightarrow> y < 0x80 \<Longrightarrow> \<forall>(lo, hi) \<in> set ps. 0x80 \<le> lo \<Longrightarrow> utf8_match ps bs = utf8_match ps (bs @ y # ys)"
proof (induction ps bs rule: utf8_match.induct)
  case (2 p ps)
  then show ?case by (cases p) (auto split: if_splits)
qed (auto split: prod.splits if_splits)

lemma utf8_step_cut:
  assumes "fst (utf8_step b (bs @ y # ys))" "y < 0x80"
  shows "utf8_step b bs = utf8_step b (bs @ y # ys)"
proof -
  have "\<forall>(lo, hi) \<in> set ps. 0x80 \<le> lo" if "utf8_tail b = Some ps" for ps
    using that by (auto simp: utf8_tail_def split: if_splits)
  then show ?thesis using assms utf8_match_cut by (auto simp: utf8_step_def split: option.splits)
qed

lemma utf8_valid_cut: "utf8_valid (xs @ y # ys) \<Longrightarrow> y < 0x80 \<Longrightarrow> utf8_valid xs \<and> utf8_valid ys"
proof (induction xs rule: utf8_valid.induct)
  case (2 b bs)
  note eq = utf8_step_cut [of b bs y ys]
  have "fst (utf8_step b (bs @ y # ys))" using 2(2) by simp
  with eq 2(3) have s: "utf8_step b (bs @ y # ys) = utf8_step b bs" by simp
  have "utf8_valid (drop (snd (utf8_step b bs)) bs @ y # ys)" using 2(2) utf8_step_length [of b bs] by (simp add: s)
  then show ?case using 2(1,2,3) by (simp add: s)
next
  case 1
  then show ?case by (simp del: utf8_valid.simps(2))
qed

lemma utf8_valid_split:
  "utf8_valid s \<Longrightarrow> (\<And>b. p b \<Longrightarrow> b < 0x80) \<Longrightarrow> piece \<in> set (split_on p s) \<Longrightarrow> utf8_valid piece"
proof (induction "length s" arbitrary: s rule: less_induct)
  case less
  show ?case
  proof (cases "\<exists>x \<in> set s. p x")
    case False
    then show ?thesis using less split_on_none [of s p] by auto
  next
    case True
    then obtain xs y ys where s: "s = xs @ y # ys" "\<forall>x \<in> set xs. \<not> p x" "p y"
      using split_list_first_prop by metis
    have "split_on p s = xs # split_on p ys" using split_on_cut [OF s(2,3)] by (simp add: s(1))
    moreover have "utf8_valid xs" "utf8_valid ys" using utf8_valid_cut [of xs y ys] less(2) less(3) [OF s(3)] by (simp_all add: s(1))
    ultimately show ?thesis using less(1) [of ys] less(3,4) by (auto simp: s(1))
  qed
qed

lemma path_parts_utf8: "utf8_valid name \<Longrightarrow> p \<in> set (path_parts name) \<Longrightarrow> utf8_valid p"
  using utf8_valid_split [of name "\<lambda>b. b = 47 \<or> b = 92" p] by (fastforce simp: path_parts_def)

lemma join_path_utf8: "\<forall>p \<in> set ps. utf8_valid p \<Longrightarrow> utf8_valid (join_path ps)"
  by (induction ps rule: join_path.induct) (simp_all add: utf8_valid_append del: utf8_valid.simps(2))

section \<open>XML escaping\<close>

definition replace_char :: "byte \<Rightarrow> string \<Rightarrow> rstring \<Rightarrow> rstring" where
  "replace_char c t s = concat (map (\<lambda>b. if b = c then bytes_of t else [b]) s)"

definition escape_xml :: "rstring \<Rightarrow> rstring" where
  "escape_xml s =
     replace_char 39 ''&apos;'' (replace_char 34 ''&quot;'' (replace_char 62 ''&gt;'' (replace_char 60 ''&lt;'' (replace_char 38 ''&amp;'' s))))"

text \<open>The five passes are one: every byte is replaced on its own.\<close>

definition escape_byte :: "byte \<Rightarrow> rstring" where
  "escape_byte b =
     (if b = 38 then bytes_of ''&amp;'' else if b = 60 then bytes_of ''&lt;'' else if b = 62 then bytes_of ''&gt;''
      else if b = 34 then bytes_of ''&quot;'' else if b = 39 then bytes_of ''&apos;'' else [b])"

lemma replace_char_append [simp]: "replace_char c t (xs @ ys) = replace_char c t xs @ replace_char c t ys"
  by (simp add: replace_char_def)

lemma replace_char_Nil [simp]: "replace_char c t [] = []"
  by (simp add: replace_char_def)

lemma escape_xml_append: "escape_xml (xs @ ys) = escape_xml xs @ escape_xml ys"
  by (simp add: escape_xml_def)

lemma escape_xml_single: "escape_xml [b] = escape_byte b"
  by (simp add: escape_xml_def escape_byte_def replace_char_def bytes_of_def)

lemma escape_xml_bytes: "escape_xml s = concat (map escape_byte s)"
proof (induction s)
  case (Cons b s)
  then show ?case using escape_xml_append [of "[b]" s] by (simp add: escape_xml_single)
qed (simp add: escape_xml_def)

lemma escape_byte_safe: "c \<in> set (escape_byte b) \<Longrightarrow> c \<notin> {60, 62, 34, 39}"
  by (auto simp: escape_byte_def bytes_of_def split: if_splits)

text \<open>No escaped text can open or close a tag or an attribute.\<close>

lemma escape_xml_safe: "set (escape_xml s) \<inter> {60, 62, 34, 39} = {}"
  using escape_byte_safe by (fastforce simp: escape_xml_bytes)

section \<open>Dates\<close>

text \<open>
  Year, month and day of a day number since 1970.  Days are a quotient of an unsigned number, so the
  branch for days before the epoch is never taken, and all numbers fit their types.
\<close>

definition year_of_era :: "nat \<Rightarrow> nat" where
  "year_of_era doe = (doe - doe div 1460 + doe div 36524 - doe div 146096) div 365"

definition day_of_year :: "nat \<Rightarrow> nat \<Rightarrow> nat" where
  "day_of_year doe yoe = doe - (365 * yoe + yoe div 4 - yoe div 100)"

text \<open>Month and day of a day counted from the first of March.\<close>

definition month_day :: "nat \<Rightarrow> nat \<times> nat" where
  "month_day doy = (let mp = (5 * doy + 2) div 153 in (if mp < 10 then mp + 3 else mp - 9, doy - (153 * mp + 2) div 5 + 1))"

definition civil_from_days :: "nat \<Rightarrow> nat \<times> nat \<times> nat" where
  "civil_from_days days =
     (let z = days + 719468;
          era = z div 146097;
          doe = z - era * 146097;
          yoe = year_of_era doe;
          y = yoe + era * 400
      in case month_day (day_of_year doe yoe) of (m, d) \<Rightarrow> (if m \<le> 2 then y + 1 else y, m, d))"

definition week_days :: "string list" where
  "week_days = [''Thu'', ''Fri'', ''Sat'', ''Sun'', ''Mon'', ''Tue'', ''Wed'']"

definition month_names :: "string list" where
  "month_names = [''Jan'', ''Feb'', ''Mar'', ''Apr'', ''May'', ''Jun'', ''Jul'', ''Aug'', ''Sep'', ''Oct'', ''Nov'', ''Dec'']"

definition format_http_date :: "u64 \<Rightarrow> rstring" where
  "format_http_date ts =
     (let days = unat ts div 86400;
          day_seconds = unat ts mod 86400;
          hour = day_seconds div 3600;
          minute = (day_seconds mod 3600) div 60;
          second = day_seconds mod 60
      in case civil_from_days days of (y, m, d) \<Rightarrow>
           bytes_of (week_days ! (days mod 7)) @ bytes_of '', '' @ dec_pad 2 d @ bytes_of '' '' @ bytes_of (month_names ! (m - 1))
           @ bytes_of '' '' @ dec_digits y @ bytes_of '' '' @ dec_pad 2 hour @ bytes_of '':'' @ dec_pad 2 minute @ bytes_of '':''
           @ dec_pad 2 second @ bytes_of '' GMT'')"

lemma civil_epoch: "civil_from_days 0 = (1970, 1, 1)"
proof -
  have "year_of_era 135080 = 369" by (simp add: year_of_era_def)
  moreover have "day_of_year 135080 369 = 306" by (simp add: day_of_year_def)
  moreover have "month_day 306 = (1, 1)" by (simp add: month_day_def)
  ultimately show ?thesis by (simp add: civil_from_days_def)
qed

lemma http_date_epoch: "format_http_date 0 = bytes_of ''Thu, 01 Jan 1970 00:00:00 GMT''"
  by (simp add: format_http_date_def civil_epoch week_days_def month_names_def dec_pad_def bytes_of_def)
    (simp add: dec_digits.simps [of 1970] dec_digits.simps [of 197] dec_digits.simps [of 19] dec_digits.simps [of 1] dec_digits.simps [of "Suc 0"]
      dec_digits.simps [of 0])

section \<open>Byte ranges\<close>

definition parse_range_header :: "rstring \<Rightarrow> u64 \<Rightarrow> (u64 \<times> u64) option" where
  "parse_range_header header total_size =
     (if total_size = 0 then Some (0, 0)
      else if \<not> starts_with header (bytes_of ''bytes='') then None
      else case split_on (\<lambda>b. b = 45) (drop 6 header) of
             [p, q] \<Rightarrow>
               (let start_str = trim p; end_str = trim q
                in if start_str = []
                   then (case parse_u64 end_str of
                           None \<Rightarrow> None
                         | Some suffix_len \<Rightarrow>
                             (let start = (if unat total_size \<le> suffix_len then 0 else total_size - word_of_nat suffix_len)
                              in Some (start, total_size - start)))
                   else (case parse_u64 start_str of
                           None \<Rightarrow> None
                         | Some s \<Rightarrow>
                             (let start = word_of_nat s
                              in if total_size \<le> start then None
                                 else case (if end_str = [] then Some (total_size - 1)
                                            else map_option (\<lambda>n. min (word_of_nat n) (total_size - 1)) (parse_u64 end_str)) of
                                        None \<Rightarrow> None
                                      | Some en \<Rightarrow> if en < start then None else Some (start, en - start + 1))))
           | _ \<Rightarrow> None)"

text \<open>A range that is granted lies inside the file.\<close>

lemma parse_range_inside:
  assumes "parse_range_header h t = Some (s, l)"
  shows "unat s + unat l \<le> unat t"
proof -
  have *: "unat s + unat (t - s) \<le> unat t" if "s \<le> t" for s :: u64
    using that by (simp add: unat_sub word_le_nat_alt)
  have ***: "unat (t - word_of_nat n) + unat (word_of_nat n :: u64) \<le> unat t" if "\<not> unat t \<le> n" for n
  proof -
    have "n < 2 ^ 64" using that unsigned_less [of t, where ?'a = nat] by simp
    then have "unat (word_of_nat n :: u64) = n" by (simp add: unat_of_nat)
    then show ?thesis using that by (simp add: unat_sub word_le_nat_alt)
  qed
  have **: "unat s + unat (en - s + 1) \<le> unat t" if "s \<le> en" "en \<le> t - 1" "t \<noteq> 0" for s en :: u64
  proof -
    have "unat (t - 1) = unat t - 1" using that(3) by (simp add: unat_minus_one)
    then have "unat en < unat t" using that(2,3) by (simp add: word_le_nat_alt unat_gt_0 [symmetric])
    moreover have "unat (en - s + 1) \<le> Suc (unat (en - s))" by (simp add: unat_word_ariths)
    ultimately show ?thesis using that(1) by (simp add: unat_sub word_le_nat_alt)
  qed
  show ?thesis using assms
    by (auto simp: parse_range_header_def Let_def min_def intro!: * ** *** split: if_splits list.splits option.splits)
qed

end
