(* ===== verification/Oos_Fuse.thy ===== *)
theory Oos_Fuse
  imports Oos_Vfs_Read
begin

text \<open>
  The read-only FUSE file system of \<^verbatim>\<open>mount/fuse.rs\<close> over the mounted tree: every operation the kernel can
  call, with its reply or its error number.  The tree is built once at mount time.
\<close>

section \<open>Operations\<close>

datatype errno = ENOENT | EINVAL | EACCES | EISDIR | EIO | ENOTDIR | EROFS

record file_attr =
  fa_ino :: nat
  fa_size :: u64
  fa_blocks :: u64
  fa_time :: u64
  fa_kind :: vfs_node_type
  fa_perm :: nat
  fa_nlink :: nat
  fa_uid :: nat
  fa_gid :: nat
  fa_blksize :: nat

text \<open>All four times are the modification time; \<open>own\<close> holds the user and group of the process.\<close>

definition node_to_attr :: "nat \<times> nat \<Rightarrow> vfs_node \<Rightarrow> file_attr" where
  "node_to_attr own n =
     \<lparr>fa_ino = vn_ino n, fa_size = vn_size n, fa_blocks = (vn_size n + 511) div 512, fa_time = vn_mtime n, fa_kind = vn_kind n,
      fa_perm = (case vn_kind n of RegularFile \<Rightarrow> 4 * 64 + 4 * 8 + 4 | _ \<Rightarrow> 5 * 64 + 5 * 8 + 5),
      fa_nlink = (if vn_kind n = Directory then 2 else 1), fa_uid = fst own, fa_gid = snd own, fa_blksize = 512\<rparr>"

definition fuse_lookup :: "nat \<times> nat \<Rightarrow> vfs_nodes \<Rightarrow> nat \<Rightarrow> bytes \<Rightarrow> errno + file_attr" where
  "fuse_lookup own nodes parent name =
     (case from_utf8 name of
        None \<Rightarrow> Inl ENOENT
      | Some s \<Rightarrow> (case lookup_child nodes parent s of None \<Rightarrow> Inl ENOENT | Some n \<Rightarrow> Inr (node_to_attr own n)))"

definition fuse_getattr :: "nat \<times> nat \<Rightarrow> vfs_nodes \<Rightarrow> nat \<Rightarrow> errno + file_attr" where
  "fuse_getattr own nodes i = (case nodes i of None \<Rightarrow> Inl ENOENT | Some n \<Rightarrow> Inr (node_to_attr own n))"

definition fuse_readlink :: "vfs_nodes \<Rightarrow> nat \<Rightarrow> errno + bytes" where
  "fuse_readlink nodes i =
     (case nodes i of
        None \<Rightarrow> Inl ENOENT
      | Some n \<Rightarrow> (case vn_symlink_target n of None \<Rightarrow> Inl EINVAL | Some t \<Rightarrow> Inr t))"

text \<open>\<^verbatim>\<open>O_ACCMODE\<close> is 3 and \<^verbatim>\<open>O_RDONLY\<close> is 0.\<close>

definition fuse_open :: "vfs_nodes \<Rightarrow> nat \<Rightarrow> u32 \<Rightarrow> errno + unit" where
  "fuse_open nodes i flags =
     (if and flags 3 \<noteq> 0 then Inl EACCES
      else case nodes i of
             None \<Rightarrow> Inl ENOENT
           | Some n \<Rightarrow> if vn_kind n = RegularFile then Inr () else Inl EISDIR)"

text \<open>The offset is a signed number.\<close>

definition fuse_read ::
    "ext \<Rightarrow> 'db redb \<Rightarrow> 'db engine \<Rightarrow> vfs_nodes \<Rightarrow> nat \<Rightarrow> u64 \<Rightarrow> u32 \<Rightarrow> lru_state \<Rightarrow> lru_state \<times> (errno + bytes)" where
  "fuse_read X R e nodes i offset sz c =
     (if sint offset < 0 then (c, Inl EINVAL)
      else case nodes i of
             None \<Rightarrow> (c, Inl ENOENT)
           | Some n \<Rightarrow>
               if vn_kind n \<noteq> RegularFile then (c, Inl EISDIR)
               else case vn_manifest_id n of
                      None \<Rightarrow> (c, Inr [])
                    | Some mid \<Rightarrow>
                        (case read_range X R e mid offset (ucast sz) c of
                           (c', Inr data) \<Rightarrow> (c', Inr data)
                         | (c', Inl _) \<Rightarrow> (c', Inl EIO)))"

text \<open>
  A directory entry: number, the offset at which to continue after it, kind and name.  The kernel's reply
  buffer takes entries as long as they fit; what fits is a parameter.
\<close>

type_synonym dirent = "nat \<times> nat \<times> vfs_node_type \<times> rstring"

definition full_list :: "vfs_node \<Rightarrow> vfs_node list \<Rightarrow> (nat \<times> vfs_node_type \<times> rstring) list" where
  "full_list n cs =
     (vn_ino n, Directory, [46]) # (vn_parent_ino n, Directory, [46, 46]) # map (\<lambda>c. (vn_ino c, vn_kind c, vn_name c)) cs"

fun fill_reply :: "(dirent list \<Rightarrow> dirent \<Rightarrow> bool) \<Rightarrow> dirent list \<Rightarrow> dirent list \<Rightarrow> dirent list" where
  "fill_reply fits reply [] = reply"
| "fill_reply fits reply (d # ds) = (if fits reply d then fill_reply fits (reply @ [d]) ds else reply)"

definition dirents :: "vfs_node \<Rightarrow> vfs_node list \<Rightarrow> dirent list" where
  "dirents n cs = map (\<lambda>(k, i, kind, name). (i, k + 1, kind, name)) (enumerate 0 (full_list n cs))"

definition fuse_readdir :: "vfs_nodes \<Rightarrow> nat \<Rightarrow> u64 \<Rightarrow> (dirent list \<Rightarrow> dirent \<Rightarrow> bool) \<Rightarrow> errno + dirent list" where
  "fuse_readdir nodes i offset fits =
     (case nodes i of
        None \<Rightarrow> Inl ENOENT
      | Some n \<Rightarrow>
          if vn_kind n \<noteq> Directory then Inl ENOTDIR
          else case readdir nodes i of
                 None \<Rightarrow> Inl ENOENT
               | Some cs \<Rightarrow> Inr (fill_reply fits [] (drop (unat offset) (dirents n cs))))"

text \<open>Every operation that would change something is refused.\<close>

definition fuse_mkdir :: "errno + file_attr" where "fuse_mkdir = Inl EROFS"
definition fuse_unlink :: "errno + unit" where "fuse_unlink = Inl EROFS"
definition fuse_rmdir :: "errno + unit" where "fuse_rmdir = Inl EROFS"
definition fuse_rename :: "errno + unit" where "fuse_rename = Inl EROFS"
definition fuse_write :: "errno + nat" where "fuse_write = Inl EROFS"
definition fuse_setattr :: "errno + file_attr" where "fuse_setattr = Inl EROFS"

section \<open>Listing a directory page by page\<close>

text \<open>
  What the kernel does: it asks again at the offset of the last entry it got, with whatever buffer it has,
  until a page is empty.
\<close>

fun read_pages :: "vfs_nodes \<Rightarrow> nat \<Rightarrow> nat \<Rightarrow> (dirent list \<Rightarrow> dirent \<Rightarrow> bool) list \<Rightarrow> errno + dirent list" where
  "read_pages nodes i offset [] = Inr []"
| "read_pages nodes i offset (fits # rest) =
     (case fuse_readdir nodes i (word_of_nat offset) fits of
        Inl err \<Rightarrow> Inl err
      | Inr [] \<Rightarrow> Inr []
      | Inr page \<Rightarrow>
          (case read_pages nodes i (fst (snd (last page))) rest of
             Inl err \<Rightarrow> Inl err
           | Inr ds \<Rightarrow> Inr (page @ ds)))"

lemma fill_reply_take: "\<exists>k. fill_reply fits acc ds = acc @ take k ds \<and> k \<le> length ds"
proof (induction ds arbitrary: acc)
  case (Cons d ds)
  then show ?case
  proof (cases "fits acc d")
    case True
    from Cons [of "acc @ [d]"] obtain k where "fill_reply fits (acc @ [d]) ds = (acc @ [d]) @ take k ds" "k \<le> length ds" by blast
    then show ?thesis using True by (intro exI [of _ "Suc k"]) simp
  qed (auto intro: exI [of _ 0])
qed simp

lemma fill_reply_first: "fits [] d \<Longrightarrow> \<exists>k. fill_reply fits [] (d # ds) = d # take k ds \<and> k \<le> length ds"
  using fill_reply_take [of fits "[d]" ds] by auto

lemma length_full_list [simp]: "length (full_list n cs) = length cs + 2"
  by (simp add: full_list_def)

lemma length_dirents [simp]: "length (dirents n cs) = length cs + 2"
  by (simp add: dirents_def)

lemma dirents_offset: "k < length cs + 2 \<Longrightarrow> fst (snd (dirents n cs ! k)) = k + 1"
  by (simp add: dirents_def nth_enumerate_eq split: prod.splits)

lemma last_take_drop: "0 < k \<Longrightarrow> m + k \<le> length xs \<Longrightarrow> last (take k (drop m xs)) = xs ! (m + k - 1)"
  by (subst last_conv_nth) auto

lemma read_pages_from:
  assumes N: "nodes i = Some n" "vn_kind n = Directory" "readdir nodes i = Some cs" and len: "length cs + 2 < 2 ^ 64"
  shows "\<forall>fits \<in> set pages. \<forall>d. fits [] d \<Longrightarrow> m \<le> length cs + 2 \<Longrightarrow> length cs + 2 - m \<le> length pages
    \<Longrightarrow> read_pages nodes i m pages = Inr (drop m (dirents n cs))"
proof (induction pages arbitrary: m)
  case (Cons fits pages)
  have m: "unat (word_of_nat m :: u64) = m" using Cons.prems(2) len by (simp add: unat_of_nat)
  have rd: "fuse_readdir nodes i (word_of_nat m) fits = Inr (fill_reply fits [] (drop m (dirents n cs)))"
    using N by (simp add: fuse_readdir_def m)
  show ?case
  proof (cases "m = length cs + 2")
    case False
    then have lt: "m < length (dirents n cs)" using Cons.prems(2) by simp
    let ?d = "dirents n cs ! m" and ?ds = "drop (Suc m) (dirents n cs)"
    have cut: "drop m (dirents n cs) = ?d # ?ds" using Cons_nth_drop_Suc [OF lt] by simp
    have "fits [] ?d" using Cons.prems(1) by (meson list.set_intros(1))
    then obtain k where "fill_reply fits [] (?d # ?ds) = ?d # take k ?ds" "k \<le> length ?ds"
      using fill_reply_first by blast
    then have k: "fill_reply fits [] (drop m (dirents n cs)) = take (Suc k) (drop m (dirents n cs))" "m + Suc k \<le> length (dirents n cs)"
      using lt by (simp_all add: cut)
    let ?page = "take (Suc k) (drop m (dirents n cs))"
    have l: "fst (snd (last ?page)) = m + Suc k"
      using last_take_drop [OF _ k(2)] dirents_offset [of "m + k" cs n] k(2) by simp
    have ne: "?page \<noteq> []" using lt by simp
    have "read_pages nodes i (m + Suc k) pages = Inr (drop (m + Suc k) (dirents n cs))"
      using Cons.prems k(2) by (intro Cons.IH) auto
    moreover have "?page @ drop (m + Suc k) (dirents n cs) = drop m (dirents n cs)"
      by (metis append_take_drop_id drop_drop add.commute)
    ultimately show ?thesis using l ne by (cases ?page) (simp_all add: rd k(1))
  next
    case True
    then have "drop m (dirents n cs) = []" by simp
    then have "fuse_readdir nodes i (word_of_nat m) fits = Inr []" using rd by simp
    then show ?thesis using True by simp
  qed
qed simp

section \<open>Reading a file\<close>

text \<open>The kernel resolves a path by looking up one component after the other.\<close>

fun kernel_walk :: "nat \<times> nat \<Rightarrow> vfs_nodes \<Rightarrow> nat \<Rightarrow> bytes list \<Rightarrow> errno + file_attr" where
  "kernel_walk own nodes i [] = fuse_getattr own nodes i"
| "kernel_walk own nodes i (p # ps) =
     (case fuse_lookup own nodes i p of Inl err \<Rightarrow> Inl err | Inr a \<Rightarrow> kernel_walk own nodes (fa_ino a) ps)"

lemma kernel_walk_walk:
  assumes "tree_ok (N, nx)" "N j = Some n"
  shows "walk N i ps = Some j \<Longrightarrow> \<forall>p \<in> set ps. utf8_valid p \<Longrightarrow> kernel_walk own N i ps = Inr (node_to_attr own n)"
proof (induction ps arbitrary: i)
  case Nil
  then show ?case using assms(2) by (simp add: fuse_getattr_def)
next
  case (Cons p ps)
  then obtain c where c: "child N i p = Some c" "walk N c ps = Some j" by (auto simp: Option.bind_eq_Some_conv)
  obtain m where m: "N c = Some m" using child_parent(2) [OF assms(1) c(1)] by blast
  then have "vn_ino m = c" by (rule tree_okD(1) [OF assms(1)])
  then show ?case using Cons c m
    by (simp add: fuse_lookup_def from_utf8_def lookup_child_child node_to_attr_def del: utf8_valid.simps)
qed

section \<open>Properties\<close>

text \<open>
  C19. Listing a mounted directory page by page, each page in a buffer of any size that holds at least one
  entry, yields every entry exactly once and in order: the directory itself, its parent and its children;
  it takes at most one page more than there are entries.
\<close>

theorem fuse_readdir_complete:
  assumes "tree_ok (nodes, nx)" "nodes i = Some n" "vn_kind n = Directory" "length (vn_children n) + 2 < 2 ^ 64"
    and "length (vn_children n) + 2 \<le> length pages" "\<forall>fits \<in> set pages. \<forall>d. fits [] d"
  shows "\<exists>cs. readdir nodes i = Some cs \<and> map vn_ino cs = vn_children n
    \<and> read_pages nodes i 0 pages = Inr (dirents n cs)
    \<and> map (\<lambda>(j, _, kind, name). (j, kind, name)) (dirents n cs) = full_list n cs"
proof -
  have c: "\<exists>m. nodes c = Some m \<and> vn_ino m = c" if "c \<in> set (vn_children n)" for c
    using tree_okD(4) [OF assms(1,2)] that tree_okD(1) [OF assms(1)] by blast
  then have "map vn_ino (List.map_filter nodes cs) = cs" if "set cs \<subseteq> set (vn_children n)" for cs
    using that by (induction cs) (fastforce simp: map_filter_simps)+
  then have cs: "readdir nodes i = Some (List.map_filter nodes (vn_children n))"
    "map vn_ino (List.map_filter nodes (vn_children n)) = vn_children n" using assms(2,3) by (simp_all add: readdir_def)
  then have l: "length (List.map_filter nodes (vn_children n)) = length (vn_children n)" by (metis length_map)
  have "map (\<lambda>(j, _, kind, name). (j, kind, name)) (dirents n cs) = full_list n cs" for cs
    by (simp add: dirents_def comp_def split_def)
  then show ?thesis using cs read_pages_from [OF assms(2,3) cs(1), of pages 0] assms(4-6) by (simp add: l)
qed

theorem fuse_readdir_complete_witness:
  "\<exists>n cs. read_pages (vfs_roots 0) ROOT_INODE 0 (replicate 5 (\<lambda>reply _. reply = [])) = Inr (dirents n cs) \<and> map vn_ino cs = [2, 3, 4]"
proof -
  let ?n = "dir_node 1 1 [47] 0 [2, 3, 4]"
  have r: "vfs_roots 0 ROOT_INODE = Some ?n" by (simp add: vfs_roots_def inode_defs)
  have n: "vn_kind ?n = Directory" "vn_children ?n = [2, 3, 4]" by (simp_all add: dir_node_def)
  let ?pages = "replicate 5 (\<lambda>reply _. reply = []) :: (dirent list \<Rightarrow> dirent \<Rightarrow> bool) list"
  have l: "length (vn_children ?n) + 2 < 2 ^ 64" "length (vn_children ?n) + 2 \<le> length ?pages" "\<forall>fits \<in> set ?pages. \<forall>d. fits [] d"
    unfolding n(2) by simp_all
  obtain cs where "map vn_ino cs = vn_children ?n" "read_pages (vfs_roots 0) ROOT_INODE 0 ?pages = Inr (dirents ?n cs)"
    using fuse_readdir_complete [OF vfs_roots_ok r n(1) l] by blast
  then show ?thesis by (intro exI [of _ ?n] exI [of _ cs] conjI) (simp_all only: n(2))
qed



end
