(* ===== verification/Oos_Share.thy ===== *)
theory Oos_Share
  imports "HOL-Library.AList" Oos_Http
begin

text \<open>
  Shares: the share manager of \<^verbatim>\<open>cli/src/share.rs\<close>, its file, and what the public server does with one
  request.  The JSON library is a parameter, an archive is the list of its entries, and a page is the
  data its template is filled with.  The tunnel process is not modelled.
\<close>

section \<open>The share manager\<close>

record share_info =
  si_id :: rstring
  si_path :: rstring
  si_token :: rstring
  si_expires_at :: u64

text \<open>The shares in the order the hash map yields them, the file they are kept in, and the public address.\<close>

record share_manager =
  sm_shares :: "(rstring \<times> share_info) list"
  sm_file :: "bytes option"
  sm_public_url :: "rstring option"

record share_json =
  sj_encode :: "(rstring \<times> share_info) list \<Rightarrow> rstring"
  sj_decode :: "rstring \<Rightarrow> (rstring \<times> share_info) list option"

definition json_ok :: "share_json \<Rightarrow> bool" where
  "json_ok J \<longleftrightarrow> (\<forall>m. utf8_valid (sj_encode J m)
     \<and> (\<exists>m'. sj_decode J (sj_encode J m) = Some m' \<and> map_of m' = map_of m))"

definition manager_new :: "share_json \<Rightarrow> bytes option \<Rightarrow> share_manager" where
  "manager_new J file =
     \<lparr>sm_shares = (case Option.bind (Option.bind file from_utf8) (sj_decode J) of None \<Rightarrow> [] | Some m \<Rightarrow> m),
      sm_file = file, sm_public_url = None\<rparr>"

text \<open>A failure to write is ignored.\<close>

definition manager_save :: "share_json \<Rightarrow> bool \<Rightarrow> share_manager \<Rightarrow> share_manager" where
  "manager_save J writes m = (if writes then m\<lparr>sm_file := Some (sj_encode J (sm_shares m))\<rparr> else m)"

definition hex16 :: "u64 \<Rightarrow> rstring" where
  "hex16 w = hex_encode (be64 w)"

definition add_share :: "share_json \<Rightarrow> bool \<Rightarrow> u64 \<times> u64 \<Rightarrow> u64 \<Rightarrow> rstring \<Rightarrow> u64 \<Rightarrow> share_manager \<Rightarrow> share_manager \<times> share_info" where
  "add_share J writes rnd now path expires_in m =
     (let info = \<lparr>si_id = hex16 (fst rnd), si_path = path, si_token = hex16 (snd rnd),
                  si_expires_at = (if 0 < expires_in then now + expires_in else 0)\<rparr>
      in (manager_save J writes (m\<lparr>sm_shares := AList.update (si_id info) info (sm_shares m)\<rparr>), info))"

definition get_share :: "share_manager \<Rightarrow> rstring \<Rightarrow> share_info option" where
  "get_share m i = map_of (sm_shares m) i"

definition list_shares :: "u64 \<Rightarrow> share_manager \<Rightarrow> share_info list" where
  "list_shares now m = filter (\<lambda>s. si_expires_at s = 0 \<or> now < si_expires_at s) (map snd (sm_shares m))"

definition revoke_share :: "share_json \<Rightarrow> bool \<Rightarrow> rstring \<Rightarrow> share_manager \<Rightarrow> share_manager \<times> bool" where
  "revoke_share J writes i m =
     (let removed = (get_share m i \<noteq> None);
          m1 = m\<lparr>sm_shares := AList.delete i (sm_shares m)\<rparr>
      in (if removed then manager_save J writes m1 else m1, removed))"

section \<open>Paths and parameters\<close>

definition forward_slashes :: "rstring \<Rightarrow> rstring" where
  "forward_slashes s = map (\<lambda>b. if b = 92 then 47 else b) s"

text \<open>\<^verbatim>\<open>Path::file_name\<close> and \<^verbatim>\<open>Path::extension\<close>.\<close>

definition path_file_name :: "rstring \<Rightarrow> rstring option" where
  "path_file_name s = (case rev (components s) of Normal p # _ \<Rightarrow> Some p | _ \<Rightarrow> None)"

definition path_extension :: "rstring \<Rightarrow> rstring option" where
  "path_extension s =
     Option.bind (path_file_name s) (\<lambda>f.
       (case split_on (\<lambda>b. b = 46) f of
          [_] \<Rightarrow> None
        | [p, q] \<Rightarrow> if p = [] then None else Some q
        | ps \<Rightarrow> Some (last ps)))"

text \<open>The parameters of a query: the pairs of exactly a key and a value.\<close>

definition query_params :: "rstring \<Rightarrow> (rstring \<times> rstring) list" where
  "query_params q = List.map_filter (\<lambda>p. case split_on (\<lambda>b. b = 61) p of [k, v] \<Rightarrow> Some (k, v) | _ \<Rightarrow> None) (split_on (\<lambda>b. b = 38) q)"

section \<open>The download page\<close>

definition icon_classes :: "(string \<times> string list) list" where
  "icon_classes =
     [(''archive'', [''zip'', ''tar'', ''gz'', ''bz2'', ''xz'', ''7z'', ''rar'']),
      (''document'', [''pdf'', ''doc'', ''docx'', ''txt'', ''md'']),
      (''image'', [''png'', ''jpg'', ''jpeg'', ''gif'', ''webp'', ''svg'']),
      (''code'', [''rs'', ''js'', ''ts'', ''py'', ''c'', ''cpp'', ''go'', ''html'', ''css'', ''json''])]"

definition get_file_icon_class :: "rstring \<Rightarrow> string" where
  "get_file_icon_class ext =
     (case find (\<lambda>(_, exts). ext \<in> set (map bytes_of exts)) icon_classes of None \<Rightarrow> ''generic'' | Some (c, _) \<Rightarrow> c)"

datatype expires_badge = Unlimited | DaysLeft nat | HoursLeft nat | MinutesLeft nat | SecondsLeft nat | ExpiredNow

definition badge_of :: "u64 \<Rightarrow> u64 \<Rightarrow> expires_badge" where
  "badge_of expires_at now =
     (if expires_at = 0 then Unlimited
      else if now < expires_at
      then (let diff = unat (expires_at - now)
            in if 86400 \<le> diff then DaysLeft (diff div 86400)
               else if 3600 \<le> diff then HoursLeft (diff div 3600)
               else if 60 \<le> diff then MinutesLeft (diff div 60)
               else SecondsLeft diff)
      else ExpiredNow)"

text \<open>What the template is filled with; a folder comes with the number and the size of its files.\<close>

record share_page =
  sp_name :: rstring
  sp_path :: rstring
  sp_folder :: "(nat \<times> u64) option"
  sp_icon_class :: string
  sp_badge :: expires_badge
  sp_share_id :: rstring
  sp_error :: bool
  sp_token :: rstring

section \<open>The public server\<close>

datatype share_reply =
    NotFoundReply
  | ExpiredReply rstring bool
  | TokenReply rstring
  | PageReply share_page
  | FileReply rstring bytes
  | ZipReply rstring "(rstring \<times> bytes) list"
  | ZipErrorReply
  | FileNotFoundReply
  | FileReadErrorReply
  | Panicked

text \<open>A header value that is not ASCII is refused by the library, and the code unwraps the refusal.\<close>

definition header_reply :: "rstring \<Rightarrow> share_reply \<Rightarrow> share_reply" where
  "header_reply v r = (if ascii v then r else Panicked)"

text \<open>
  The surroundings of one request: the clock in seconds and nanoseconds, the process, the directory for
  temporary files and the engine's own temporary name for an output, which entry names the archive
  library accepts, and whether the archive can be written.
\<close>

record share_env =
  se_now :: u64
  se_now_ns :: nat
  se_pid :: nat
  se_tmp_dir :: rstring
  se_tmp :: "rstring \<Rightarrow> rstring"
  se_zip_accepts :: "(rstring \<times> bytes) list \<Rightarrow> rstring \<Rightarrow> bool"
  se_zip_writable :: bool

definition folder_files :: "rstring \<Rightarrow> (rstring \<times> object_id \<times> object_record) list \<Rightarrow> (rstring \<times> u64) list" where
  "folder_files folder_prefix all_files =
     map (\<lambda>(name, _, r). (name, if o_versions r = [] then 0 else v_size_bytes (last (o_versions r))))
       (filter (\<lambda>(name, _, _). starts_with (forward_slashes name) folder_prefix) all_files)"

definition share_prefix :: "share_info \<Rightarrow> rstring" where
  "share_prefix s = trim_slashes (forward_slashes (si_path s)) @ [47]"

definition folder_name :: "rstring \<Rightarrow> rstring" where
  "folder_name clean_path = (let n = last (split_on (\<lambda>b. b = 47) clean_path) in if n = [] then bytes_of ''folder'' else n)"

definition zip_entry_name :: "rstring \<Rightarrow> rstring \<Rightarrow> rstring" where
  "zip_entry_name clean_path file_name =
     (let clean_name = forward_slashes file_name;
          rel = (case strip_prefix (clean_path @ [47]) clean_name of
                   Some s \<Rightarrow> s
                 | None \<Rightarrow> (case strip_prefix clean_path clean_name of
                              Some s \<Rightarrow> dropWhile (\<lambda>b. b = 47) s
                            | None \<Rightarrow> clean_name))
      in folder_name clean_path @ [47] @ rel)"

text \<open>Extract one file, add it and remove the temporary file; what cannot be extracted or added is left out.\<close>

definition zip_file :: "ext \<Rightarrow> 'db redb \<Rightarrow> 'db engine \<Rightarrow> share_env \<Rightarrow> rstring \<Rightarrow> rstring
    \<Rightarrow> (rstring \<times> bytes) list \<times> dir \<Rightarrow> nat \<times> rstring \<Rightarrow> (rstring \<times> bytes) list \<times> dir" where
  "zip_file X R e E i clean_path st item =
     (case (st, item) of ((arch, d), (idx, name)) \<Rightarrow>
        let out = se_tmp_dir E @ bytes_of ''/oos_f_extract_'' @ dec_digits (se_pid E) @ [95] @ i @ [95]
              @ dec_digits (se_now_ns E) @ [95] @ dec_digits idx @ bytes_of ''.tmp''
        in case get_file X R e name (se_tmp E out) out d of
             (d1, Inl _) \<Rightarrow> (arch, d1)
           | (d1, Inr _) \<Rightarrow>
               (case dir_get d1 out of
                  None \<Rightarrow> (arch, dir_del d1 out)
                | Some content \<Rightarrow>
                    (let entry = zip_entry_name clean_path name
                     in (if se_zip_accepts E arch entry then arch @ [(entry, content)] else arch, dir_del d1 out))))"

definition serve_folder :: "ext \<Rightarrow> 'db redb \<Rightarrow> 'db engine \<Rightarrow> share_env \<Rightarrow> rstring \<Rightarrow> rstring \<Rightarrow> (rstring \<times> u64) list \<Rightarrow> dir \<Rightarrow> dir \<times> share_reply" where
  "serve_folder X R e E i clean_path files d =
     (if \<not> se_zip_writable E then (d, ZipErrorReply)
      else case foldl (zip_file X R e E i clean_path) ([], d) (enumerate 0 (map fst files)) of
             (arch, d1) \<Rightarrow>
               (let name = folder_name clean_path @ bytes_of ''.zip''
                in (d1, header_reply (bytes_of ''attachment; filename=\"'' @ name @ bytes_of ''\"'') (ZipReply name arch))))"

definition serve_single :: "ext \<Rightarrow> 'db redb \<Rightarrow> 'db engine \<Rightarrow> share_env \<Rightarrow> rstring \<Rightarrow> share_info \<Rightarrow> dir \<Rightarrow> dir \<times> share_reply" where
  "serve_single X R e E i s d =
     (let out = se_tmp_dir E @ bytes_of ''/oos_share_'' @ dec_digits (se_pid E) @ [95] @ i @ bytes_of ''.tmp''
      in case get_file X R e (si_path s) (se_tmp E out) out d of
           (d1, Inl _) \<Rightarrow> (d1, FileNotFoundReply)
         | (d1, Inr _) \<Rightarrow>
             (case dir_get d1 out of
                None \<Rightarrow> (d1, FileReadErrorReply)
              | Some content \<Rightarrow>
                  (let name = (case path_file_name (si_path s) of None \<Rightarrow> bytes_of ''download.bin'' | Some n \<Rightarrow> n);
                       r = header_reply (bytes_of ''attachment; filename=\"'' @ name @ bytes_of ''\"'') (FileReply name content)
                   in (if r = Panicked then d1 else dir_del d1 out, r))))"

definition share_expired :: "u64 \<Rightarrow> share_info \<Rightarrow> bool" where
  "share_expired now s \<longleftrightarrow> 0 < si_expires_at s \<and> si_expires_at s < now"

definition token_matches :: "share_info \<Rightarrow> rstring list \<Rightarrow> bool" where
  "token_matches s parts \<longleftrightarrow> 1 < length parts \<and> (bytes_of ''token'', si_token s) \<in> set (query_params (parts ! 1))"

definition display_name :: "share_info \<Rightarrow> rstring" where
  "display_name s = (case path_file_name (si_path s) of None \<Rightarrow> si_path s | Some n \<Rightarrow> n)"

text \<open>The page: the last token parameter is filled in, whatever its value.\<close>

definition page_of :: "u64 \<Rightarrow> share_info \<Rightarrow> rstring \<Rightarrow> rstring \<Rightarrow> (rstring \<times> u64) list \<Rightarrow> share_page" where
  "page_of now s i query files =
     (let clean_path = trim_slashes (forward_slashes (si_path s));
          ps = query_params query;
          is_folder = (files \<noteq> []);
          file_name = display_name s
      in \<lparr>sp_name = (if is_folder then folder_name clean_path else file_name),
          sp_path = (if is_folder then clean_path @ [47] else si_path s),
          sp_folder = (if is_folder then Some (length files, sum_list (map snd files)) else None),
          sp_icon_class = (if is_folder then ''archive''
             else get_file_icon_class (map ascii_lower (case path_extension file_name of None \<Rightarrow> [] | Some x \<Rightarrow> x))),
          sp_badge = badge_of (si_expires_at s) now,
          sp_share_id = i,
          sp_error = ((bytes_of ''error'', bytes_of ''invalid_token'') \<in> set ps),
          sp_token = (case filter (\<lambda>(k, _). k = bytes_of ''token'') ps of [] \<Rightarrow> [] | ts \<Rightarrow> snd (last ts))\<rparr>)"

definition serve_share :: "ext \<Rightarrow> 'db redb \<Rightarrow> 'db engine \<Rightarrow> share_env \<Rightarrow> share_info \<Rightarrow> rstring \<Rightarrow> bool \<Rightarrow> rstring list \<Rightarrow> dir \<Rightarrow> dir \<times> share_reply" where
  "serve_share X R e E s i is_download parts d =
     (let clean_path = trim_slashes (forward_slashes (si_path s));
          files = folder_files (share_prefix s) (case list_files R e of Inl _ \<Rightarrow> [] | Inr fs \<Rightarrow> fs);
          is_folder = (files \<noteq> [])
      in if share_expired (se_now E) s then (d, ExpiredReply (if is_folder then folder_name clean_path else display_name s) is_folder)
         else if is_download
         then (if \<not> token_matches s parts
               then (d, header_reply (bytes_of ''/s/'' @ i @ bytes_of ''?error=invalid_token'') (TokenReply (bytes_of ''/s/'' @ i @ bytes_of ''?error=invalid_token'')))
               else if is_folder then serve_folder X R e E i clean_path files d
               else serve_single X R e E i s d)
         else (d, PageReply (page_of (se_now E) s i (if 1 < length parts then parts ! 1 else []) files)))"

definition share_request :: "ext \<Rightarrow> 'db redb \<Rightarrow> 'db engine \<Rightarrow> share_env \<Rightarrow> share_manager \<Rightarrow> rstring \<Rightarrow> dir \<Rightarrow> dir \<times> share_reply" where
  "share_request X R e E m url d =
     (if \<not> starts_with url (bytes_of ''/s/'') then (d, NotFoundReply)
      else (let parts = split_on (\<lambda>b. b = 63) url;
                path_parts = split_on (\<lambda>b. b = 47) (parts ! 0)
            in if length path_parts < 3 then (d, NotFoundReply)
               else (case get_share m (path_parts ! 2) of
                       None \<Rightarrow> (d, NotFoundReply)
                     | Some s \<Rightarrow>
                         serve_share X R e E s (path_parts ! 2) (3 < length path_parts \<and> path_parts ! 3 = bytes_of ''download'') parts d)))"

section \<open>What the server hands out\<close>

text \<open>The content the engine extracts for this name.\<close>

definition extracts :: "ext \<Rightarrow> 'db redb \<Rightarrow> 'db engine \<Rightarrow> rstring \<Rightarrow> bytes \<Rightarrow> bool" where
  "extracts X R e name content \<longleftrightarrow>
     (\<exists>tmp out d d' n. get_file X R e name tmp out d = (d', Inr n) \<and> dir_get d' out = Some content)"

lemma extractsI: "get_file X R e name tmp out d = (d', Inr n) \<Longrightarrow> dir_get d' out = Some content \<Longrightarrow> extracts X R e name content"
  unfolding extracts_def by blast

text \<open>The only replies with stored data.\<close>

fun reveals :: "share_reply \<Rightarrow> bool" where
  "reveals (FileReply _ _) = True"
| "reveals (ZipReply _ _) = True"
| "reveals _ = False"

lemma header_reply_reveals: "header_reply v r = r' \<Longrightarrow> reveals r' \<Longrightarrow> r' = r"
  by (auto simp: header_reply_def split: if_splits)

lemma zip_file_entries:
  assumes "\<forall>(entry, content) \<in> set (fst st). \<exists>name \<in> N. entry = zip_entry_name c name \<and> extracts X R e name content" "snd item \<in> N"
  shows "\<forall>(entry, content) \<in> set (fst (zip_file X R e E i c st item)). \<exists>name \<in> N. entry = zip_entry_name c name \<and> extracts X R e name content"
proof -
  obtain arch d idx name where s: "st = (arch, d)" "item = (idx, name)" by (cases st, cases item)
  show ?thesis using assms by (auto simp: s zip_file_def Let_def intro: extractsI split: prod.splits sum.splits option.splits)
qed

lemma zip_entries:
  assumes "\<forall>x \<in> set items. snd x \<in> N"
    and "\<forall>(entry, content) \<in> set (fst st). \<exists>name \<in> N. entry = zip_entry_name c name \<and> extracts X R e name content"
  shows "\<forall>(entry, content) \<in> set (fst (foldl (zip_file X R e E i c) st items)). \<exists>name \<in> N. entry = zip_entry_name c name \<and> extracts X R e name content"
  using assms
proof (induction items arbitrary: st)
  case (Cons x xs)
  show ?case unfolding foldl_Cons using Cons.prems(1) by (intro Cons.IH zip_file_entries Cons.prems(2)) auto
qed simp

text \<open>The stored names a share covers.\<close>

definition shared_names :: "'db redb \<Rightarrow> 'db engine \<Rightarrow> share_info \<Rightarrow> rstring set" where
  "shared_names R e s = {name. \<exists>objs i r. list_files R e = Inr objs \<and> (name, i, r) \<in> set objs \<and> starts_with (forward_slashes name) (share_prefix s)}"

lemma folder_files_shared: "fst ` set (folder_files (share_prefix s) (case list_files R e of Inl _ \<Rightarrow> [] | Inr fs \<Rightarrow> fs)) = shared_names R e s"
  by (cases "list_files R e") (force simp: folder_files_def shared_names_def)+

section \<open>A link works\<close>

definition share_link :: "share_info \<Rightarrow> rstring" where
  "share_link s = bytes_of ''/s/'' @ si_id s @ bytes_of ''/download?token='' @ si_token s"

lemma hex16_url: "b \<in> set (hex16 w) \<Longrightarrow> b \<noteq> 38 \<and> b \<noteq> 47 \<and> b \<noteq> 61 \<and> b \<noteq> 63"
  using hex_encode_url by (fastforce simp: hex16_def)

lemma link_pieces:
  assumes "si_id s = hex16 u" "si_token s = hex16 w"
  shows "starts_with (share_link s) (bytes_of ''/s/'')"
    "split_on (\<lambda>b. b = 63) (share_link s) = [bytes_of ''/s/'' @ si_id s @ bytes_of ''/download'', bytes_of ''token='' @ si_token s]"
    "split_on (\<lambda>b. b = 47) (bytes_of ''/s/'' @ si_id s @ bytes_of ''/download'') = [[], bytes_of ''s'', si_id s, bytes_of ''download'']"
    "query_params (bytes_of ''token='' @ si_token s) = [(bytes_of ''token'', si_token s)]"
proof -
  note h = hex16_url [of _ u] hex16_url [of _ w]
  show "starts_with (share_link s) (bytes_of ''/s/'')" by (simp add: share_link_def)
  have q: "bytes_of ''/download?token='' = bytes_of ''/download'' @ 63 # bytes_of ''token=''" by (simp add: bytes_of_def)
  have t: "split_on (\<lambda>b. b = 63) (bytes_of ''token='' @ si_token s) = [bytes_of ''token='' @ si_token s]"
    using h(2) assms(2) by (intro split_on_none) (auto simp: bytes_of_def)
  show "split_on (\<lambda>b. b = 63) (share_link s) = [bytes_of ''/s/'' @ si_id s @ bytes_of ''/download'', bytes_of ''token='' @ si_token s]"
    using split_on_cut [of "bytes_of ''/s/'' @ si_id s @ bytes_of ''/download''" "\<lambda>b. b = 63" 63 "bytes_of ''token='' @ si_token s"] h(1) assms(1)
    by (auto simp: share_link_def q t) (auto simp: bytes_of_def)
  have p: "bytes_of ''/s/'' @ si_id s @ bytes_of ''/download'' = [] @ 47 # bytes_of ''s'' @ 47 # si_id s @ 47 # bytes_of ''download''"
    by (simp add: bytes_of_def)
  have d: "split_on (\<lambda>b. b = 47) (bytes_of ''download'') = [bytes_of ''download'']" by (intro split_on_none) (simp add: bytes_of_def)
  have i: "split_on (\<lambda>b. b = 47) (si_id s @ 47 # bytes_of ''download'') = [si_id s, bytes_of ''download'']"
    using split_on_cut [of "si_id s" "\<lambda>b. b = 47" 47 "bytes_of ''download''"] h(1) assms(1) by (simp add: d)
  show "split_on (\<lambda>b. b = 47) (bytes_of ''/s/'' @ si_id s @ bytes_of ''/download'') = [[], bytes_of ''s'', si_id s, bytes_of ''download'']"
    unfolding p using split_on_cut [of "bytes_of ''s''" "\<lambda>b. b = 47" 47 "si_id s @ 47 # bytes_of ''download''"]
    by (simp add: i) (simp add: bytes_of_def)
  have k: "bytes_of ''token='' @ si_token s = bytes_of ''token'' @ 61 # si_token s" by (simp add: bytes_of_def)
  have "split_on (\<lambda>b. b = 38) (bytes_of ''token='' @ si_token s) = [bytes_of ''token='' @ si_token s]"
    using h(2) assms(2) by (intro split_on_none) (auto simp: bytes_of_def)
  moreover have "split_on (\<lambda>b. b = 61) (bytes_of ''token='' @ si_token s) = [bytes_of ''token'', si_token s]"
    unfolding k using split_on_cut [of "bytes_of ''token''" "\<lambda>b. b = 61" 61 "si_token s"] split_on_none [of "si_token s" "\<lambda>b. b = 61"] h(2) assms(2)
    by (simp add: bytes_of_def)
  ultimately show "query_params (bytes_of ''token='' @ si_token s) = [(bytes_of ''token'', si_token s)]"
    by (simp add: query_params_def map_filter_simps)
qed

text \<open>A share survives a restart of the server.\<close>

lemma added_share_kept:
  assumes J: "json_ok J" and add: "add_share J True rnd now path expires_in m = (m1, s)"
  shows "get_share m1 (si_id s) = Some s" "get_share (manager_new J (sm_file m1)) i = get_share m1 i"
    "si_id s = hex16 (fst rnd)" "si_token s = hex16 (snd rnd)" "si_path s = path"
    "si_expires_at s = (if 0 < expires_in then now + expires_in else 0)"
proof -
  show "get_share m1 (si_id s) = Some s" "si_id s = hex16 (fst rnd)" "si_token s = hex16 (snd rnd)" "si_path s = path"
    "si_expires_at s = (if 0 < expires_in then now + expires_in else 0)"
    using add by (auto simp: add_share_def get_share_def manager_save_def Let_def update_conv')
  have f: "sm_file m1 = Some (sj_encode J (sm_shares m1))" using add by (auto simp: add_share_def manager_save_def Let_def)
  obtain m' where "utf8_valid (sj_encode J (sm_shares m1))" "sj_decode J (sj_encode J (sm_shares m1)) = Some m'" "map_of m' = map_of (sm_shares m1)"
    using J unfolding json_ok_def by blast
  then show "get_share (manager_new J (sm_file m1)) i = get_share m1 i"
    by (simp add: f get_share_def manager_new_def from_utf8_def)
qed

lemma link_request:
  assumes "si_id s = hex16 u" "si_token s = hex16 w" "get_share m (si_id s) = Some s" "\<not> share_expired (se_now E) s" "shared_names R e s = {}"
  shows "share_request X R e E m (share_link s) d = serve_single X R e E (si_id s) s d"
proof -
  note l = link_pieces [OF assms(1,2)]
  have "folder_files (share_prefix s) (case list_files R e of Inl _ \<Rightarrow> [] | Inr fs \<Rightarrow> fs) = []"
    using folder_files_shared [of s R e] assms(5) by simp
  then show ?thesis
    by (simp add: share_request_def l assms(3,4) serve_share_def Let_def token_matches_def)
qed

lemma file_name_bytes: "path_file_name s = Some n \<Longrightarrow> set n \<subseteq> set s"
proof -
  assume "path_file_name s = Some n"
  then obtain cs where "rev (components s) = Normal n # cs"
    by (auto simp: path_file_name_def split: list.splits component.splits)
  then have "Normal n \<in> set (components s)" by (metis list.set_intros(1) set_rev)
  then obtain q where "q \<in> set (split_on (\<lambda>b. b = 47) s)" "n = q" using in_components piece_components_Normal by blast
  then show ?thesis using split_on_no_sep [of q "\<lambda>b. b = 47" s] by auto
qed

definition download_name :: "rstring \<Rightarrow> rstring" where
  "download_name p = (case path_file_name p of None \<Rightarrow> bytes_of ''download.bin'' | Some n \<Rightarrow> n)"

definition download_header :: "rstring \<Rightarrow> rstring" where
  "download_header p = bytes_of ''attachment; filename=\"'' @ download_name p @ bytes_of ''\"''"

lemma single_served:
  assumes "\<And>tmp out d. \<exists>d'. get_file X R e (si_path s) tmp out d = (d', Inr n) \<and> writes_file d tmp out content d'"
  shows "\<exists>d' out. serve_single X R e E i s d = (d', header_reply (download_header (si_path s)) (FileReply (download_name (si_path s)) content))
    \<and> (\<forall>p. p \<noteq> se_tmp E out \<longrightarrow> p \<noteq> out \<longrightarrow> dir_get d' p = dir_get d p)"
proof -
  let ?out = "se_tmp_dir E @ bytes_of ''/oos_share_'' @ dec_digits (se_pid E) @ [95] @ i @ bytes_of ''.tmp''"
  obtain d1 where d1: "get_file X R e (si_path s) (se_tmp E ?out) ?out d = (d1, Inr n)" "writes_file d (se_tmp E ?out) ?out content d1"
    using assms by blast
  then show ?thesis
    by (intro exI [of _ "if header_reply (download_header (si_path s)) (FileReply (download_name (si_path s)) content) = Panicked then d1 else dir_del d1 ?out"]
        exI [of _ ?out]) (simp add: serve_single_def Let_def writes_file_def download_header_def download_name_def)
qed

lemma link_serves:
  assumes "ext_ok X" "fastcdc_ok X" "collision_free X U" "redb_ok R V" "redb_total R" "eg_run X R V U e"
    and "names_ok (V (eg_db e))" "\<forall>n \<in> dom (V (eg_db e) NAME_INDEX). utf8_valid n"
    and "list_files R e = Inr objs" "(name, i, r) \<in> set objs" "rec_latest r = Some v" "trim name = name"
    and "json_ok J" "add_share J True rnd t0 name expires_in m = (m1, s)" "shared_names R e s = {}"
    and "expires_in = 0 \<or> se_now E \<le> t0 + expires_in"
  shows "\<exists>content d1 out. (\<forall>tmp out d. \<exists>d' n. get_file X R e name tmp out d = (d', Inr n) \<and> writes_file d tmp out content d')
    \<and> share_request X R e E (manager_new J (sm_file m1)) (share_link s) d
      = (d1, if ascii (download_name name) then FileReply (download_name name) content else Panicked)
    \<and> (\<forall>p. p \<noteq> se_tmp E out \<longrightarrow> p \<noteq> out \<longrightarrow> dir_get d1 p = dir_get d p)"
proof -
  note a = added_share_kept [OF assms(13,14)]
  obtain content where c: "\<And>tmp out d. \<exists>d'. get_file X R e name tmp out d = (d', Inr (word_of_nat (length content))) \<and> writes_file d tmp out content d'"
    using listed_file_extracts [OF assms(4,5) eg_run_inv [OF assms(6,4,1,3,2)] assms(7-12)] by blast
  have g: "get_share (manager_new J (sm_file m1)) (si_id s) = Some s" using a(1,2) by simp
  have x: "\<not> share_expired (se_now E) s" using assms(16) by (auto simp: share_expired_def a(6) not_less)
  have "ascii (download_header name) = ascii (download_name name)"
    by (simp add: download_header_def ascii_def) (simp add: bytes_of_def)
  then have h: "header_reply (download_header name) (FileReply (download_name name) content)
      = (if ascii (download_name name) then FileReply (download_name name) content else Panicked)" by (simp add: header_reply_def)
  obtain d1 out where "serve_single X R e E (si_id s) s d = (d1, header_reply (download_header name) (FileReply (download_name name) content))"
    "\<forall>p. p \<noteq> se_tmp E out \<longrightarrow> p \<noteq> out \<longrightarrow> dir_get d1 p = dir_get d p"
    using single_served [of X R e s _ content E "si_id s" d, unfolded a(5), OF c] by blast
  moreover have "\<forall>tmp out d. \<exists>d' n. get_file X R e name tmp out d = (d', Inr n) \<and> writes_file d tmp out content d'" using c by blast
  ultimately show ?thesis
    by (intro exI [of _ content] exI [of _ d1] exI [of _ out]) (simp add: link_request [OF a(3,4) g x assms(15)] h)
qed

section \<open>An example\<close>

text \<open>A file format in place of JSON: one share per line, its fields in hexadecimal.\<close>

definition demo_fields :: "rstring \<times> share_info \<Rightarrow> bytes list" where
  "demo_fields x = [fst x, si_id (snd x), si_path (snd x), si_token (snd x), le64 (si_expires_at (snd x))]"

definition demo_join :: "byte \<Rightarrow> bytes list \<Rightarrow> bytes" where
  "demo_join sep xs = concat (map (\<lambda>x. x @ [sep]) xs)"

definition demo_encode :: "(rstring \<times> share_info) list \<Rightarrow> rstring" where
  "demo_encode m = demo_join 10 (map (\<lambda>x. demo_join 44 (map hex_encode (demo_fields x))) m)"

definition demo_share :: "bytes list \<Rightarrow> rstring \<times> share_info" where
  "demo_share fs = (fs ! 0, \<lparr>si_id = fs ! 1, si_path = fs ! 2, si_token = fs ! 3, si_expires_at = from_le64 (fs ! 4)\<rparr>)"

definition demo_decode :: "rstring \<Rightarrow> (rstring \<times> share_info) list option" where
  "demo_decode s = Some (map (\<lambda>l. demo_share (map (\<lambda>f. the (hex_decode f)) (butlast (split_on (\<lambda>b. b = 44) l)))) (butlast (split_on (\<lambda>b. b = 10) s)))"

lemma demo_split: "\<forall>x \<in> set xs. sep \<notin> set x \<Longrightarrow> split_on (\<lambda>b. b = sep) (demo_join sep xs) = xs @ [[]]"
proof (induction xs)
  case (Cons x xs)
  then show ?case using split_on_cut [of x "\<lambda>b. b = sep" sep "demo_join sep xs"] by (auto simp: demo_join_def)
qed (simp add: demo_join_def)

lemma hex_encode_alnum: "b \<in> set (hex_encode bs) \<Longrightarrow> b \<noteq> 44 \<and> b \<noteq> 10"
proof -
  have "\<forall>n < 16. hex_digit n \<noteq> 44 \<and> hex_digit n \<noteq> 10" by code_simp
  then show "b \<in> set (hex_encode bs) \<Longrightarrow> b \<noteq> 44 \<and> b \<noteq> 10" by (induction bs) auto
qed

definition demo_json :: share_json where
  "demo_json = \<lparr>sj_encode = demo_encode, sj_decode = demo_decode\<rparr>"

lemma demo_json_ok: "json_ok demo_json"
proof -
  have line: "demo_share (map (\<lambda>f. the (hex_decode f)) (butlast (split_on (\<lambda>b. b = 44) (demo_join 44 (map hex_encode (demo_fields x)))))) = x" for x
  proof -
    have "split_on (\<lambda>b. b = 44) (demo_join 44 (map hex_encode (demo_fields x))) = map hex_encode (demo_fields x) @ [[]]"
      by (rule demo_split) (auto dest: hex_encode_alnum)
    then show ?thesis by (simp add: comp_def) (cases x, simp add: demo_share_def demo_fields_def)
  qed
  have ten: "10 \<notin> set (demo_join 44 (map hex_encode (demo_fields x)))" for x
    by (auto simp: demo_join_def dest: hex_encode_alnum)
  have "demo_decode (demo_encode m) = Some m" for m
  proof -
    have "split_on (\<lambda>b. b = 10) (demo_encode m) = map (\<lambda>x. demo_join 44 (map hex_encode (demo_fields x))) m @ [[]]"
      unfolding demo_encode_def by (rule demo_split) (use ten in auto)
    then show ?thesis by (simp add: demo_decode_def comp_def line)
  qed
  moreover have "ascii (demo_encode m)" for m
    using ascii_hex_encode by (auto simp: demo_encode_def demo_join_def ascii_def list_all_iff)
  ultimately show ?thesis by (simp add: json_ok_def demo_json_def utf8_valid_ascii)
qed

definition demo_share_env :: share_env where
  "demo_share_env = \<lparr>se_now = 0, se_now_ns = 0, se_pid = 7, se_tmp_dir = [47], se_tmp = (\<lambda>p. 1 # p), se_zip_accepts = (\<lambda>_ _. True), se_zip_writable = True\<rparr>"

definition demo_manager :: share_manager where
  "demo_manager = \<lparr>sm_shares = [], sm_file = None, sm_public_url = None\<rparr>"

lemma demo_names:
  "path_file_name demo_name = Some (bytes_of ''a'')" "ascii (bytes_of ''a'')" "\<not> starts_with (forward_slashes demo_name) (trim_slashes (forward_slashes demo_name) @ [47])"
  unfolding demo_name_eq by code_simp+

text \<open>The stored file of the example is shared and fetched through its link.\<close>

lemma demo_shared:
  fixes e :: "demo_db engine"
  assumes "histories (demo_view (eg_db e)) = [demo_name \<mapsto> [vm]]" "names_ok (demo_view (eg_db e))"
    and s: "add_share demo_json True (1, 2) 0 demo_name 0 demo_manager = (m1, s)"
  shows "shared_names demo_redb e s = {}"
  using demo_listing [OF assms(1,2)] added_share_kept(5) [OF demo_json_ok s] demo_names(3)
  by (auto simp: shared_names_def share_prefix_def)

section \<open>Properties\<close>

text \<open>
  C8. The public server reveals stored data only through a share: a reply with the content of a file or with
  an archive is given only to a request that names a share which exists and has not expired and that
  carries its token; the file is the one shared, and every entry of an archive is a stored file below the
  shared folder, each with the content the engine extracts for it.
\<close>

theorem share_reveals_only_shared:
  assumes "share_request X R e E m url d = (d', r)" "reveals r"
  shows "\<exists>i s. get_share m i = Some s \<and> \<not> share_expired (se_now E) s \<and> token_matches s (split_on (\<lambda>b. b = 63) url)
    \<and> (case r of
         FileReply _ content \<Rightarrow> extracts X R e (si_path s) content
       | ZipReply _ entries \<Rightarrow> (\<forall>(entry, content) \<in> set entries. \<exists>name \<in> shared_names R e s.
             entry = zip_entry_name (trim_slashes (forward_slashes (si_path s))) name \<and> extracts X R e name content)
       | _ \<Rightarrow> False)"
proof -
  let ?parts = "split_on (\<lambda>b. b = 63) url"
  obtain i s dl where s: "get_share m i = Some s" and r: "serve_share X R e E s i dl ?parts d = (d', r)"
    using assms by (auto simp: share_request_def Let_def split: if_splits option.splits)
  let ?c = "trim_slashes (forward_slashes (si_path s))" and ?files = "folder_files (share_prefix s) (case list_files R e of Inl _ \<Rightarrow> [] | Inr fs \<Rightarrow> fs)"
  have ne: "\<not> share_expired (se_now E) s" "dl" "token_matches s ?parts"
    using r assms(2) by (auto simp: serve_share_def Let_def header_reply_def split: if_splits)
  show ?thesis
  proof (cases "?files = []")
    case True
    then have "serve_single X R e E i s d = (d', r)" using r ne by (simp add: serve_share_def Let_def)
    then have "\<exists>n content. r = FileReply n content \<and> extracts X R e (si_path s) content" using assms(2)
      by (auto simp: serve_single_def header_reply_def Let_def intro: extractsI split: prod.splits sum.splits option.splits if_splits)
    then show ?thesis using s ne(1,3) by (intro exI [of _ i] exI [of _ s]) auto
  next
    case False
    then have f: "serve_folder X R e E i ?c ?files d = (d', r)" using r ne by (simp add: serve_share_def Let_def)
    have "\<exists>n. r = ZipReply n (fst (foldl (zip_file X R e E i ?c) ([], d) (enumerate 0 (map fst ?files))))" using f assms(2)
      by (auto simp: serve_folder_def header_reply_def split: prod.splits if_splits)
    moreover have "\<forall>(entry, content) \<in> set (fst (foldl (zip_file X R e E i ?c) ([], d) (enumerate 0 (map fst ?files)))).
        \<exists>name \<in> shared_names R e s. entry = zip_entry_name ?c name \<and> extracts X R e name content"
    proof (rule zip_entries)
      show "\<forall>x \<in> set (enumerate 0 (map fst ?files)). snd x \<in> shared_names R e s"
        using folder_files_shared [of s R e] by (auto simp: in_set_enumerate_eq)
    qed simp
    ultimately show ?thesis using s ne(1,3) by (intro exI [of _ i] exI [of _ s]) auto
  qed
qed

theorem share_reveals_only_shared_witness:
  "\<exists>(e :: demo_db engine) m url d n content i s. eg_run demo_ext demo_redb demo_view {[7]} e
     \<and> share_request demo_ext demo_redb e demo_share_env m url [] = (d, FileReply n content)
     \<and> get_share m i = Some s \<and> token_matches s (split_on (\<lambda>b. b = 63) url) \<and> extracts demo_ext demo_redb e (si_path s) content"
proof -
  obtain e :: "demo_db engine" and vm where e: "eg_run demo_ext demo_redb demo_view {[7]} e" "histories (demo_view (eg_db e)) = [demo_name \<mapsto> [vm]]"
    "names_ok (demo_view (eg_db e))" using demo_stored by blast
  have utf: "\<forall>n \<in> dom (demo_view (eg_db e) NAME_INDEX). utf8_valid n" by (rule demo_names_utf8 [OF e(2,3)])
  obtain i r v where o: "list_files demo_redb e = Inr [(demo_name, i, r)]" "rec_latest r = Some v" using demo_listing [OF e(2,3)] by blast
  obtain m1 s where s: "add_share demo_json True (1, 2) 0 demo_name 0 demo_manager = (m1, s)" by fastforce
  from link_serves [where E = demo_share_env and d = "[]", OF demo_ext_ok demo_fastcdc_ok demo_collision_free demo_redb_ok demo_redb_total e(1,3) utf o(1) _ o(2) _ demo_json_ok s
      demo_shared [OF e(2,3) s]]
  obtain content d1 where q: "share_request demo_ext demo_redb e demo_share_env (manager_new demo_json (sm_file m1)) (share_link s) []
      = (d1, FileReply (bytes_of ''a'') content)"
    by (auto simp: demo_name_ok download_name_def demo_names)
  from share_reveals_only_shared [OF this] obtain i s' where "get_share (manager_new demo_json (sm_file m1)) i = Some s'"
    "token_matches s' (split_on (\<lambda>b. b = 63) (share_link s))" "extracts demo_ext demo_redb e (si_path s') content" by auto
  with q e(1) show ?thesis by blast
qed



end
