(* ===== verification/Oos_Web_Api.thy ===== *)
theory Oos_Web_Api
  imports Oos_Share Oos_Store_Open
begin

text \<open>
  The desktop interface's web server, \<^verbatim>\<open>cli/src/ui/server.rs\<close>, on a Unix target: the checks every request
  passes and every endpoint, over the engine, the shares, the files it writes, and the states of the mount
  and of the watcher.  Requests arrive with their address parsed by the URL library; bodies are read by
  the JSON library; both are parameters.  Replies are the values that are then serialised; fixed messages
  are left out.  Whether the watcher service starts and what its handle reports is told by the
  environment, and so is everything the file system answers.
\<close>

section \<open>The checks\<close>

text \<open>The URL library on a full address: scheme and host.\<close>

type_synonym url_parser = "rstring \<Rightarrow> (rstring \<times> rstring option) option"

definition is_host_allowed :: "rstring \<Rightarrow> bool" where
  "is_host_allowed host_val =
     (let host_domain = trim (hd (split_on (\<lambda>b. b = 58) host_val))
      in host_domain = bytes_of ''localhost'' \<or> host_domain = bytes_of ''127.0.0.1'' \<or> host_domain = bytes_of ''0.0.0.0'')"

definition is_origin_allowed :: "url_parser \<Rightarrow> rstring \<Rightarrow> bool" where
  "is_origin_allowed parse_url origin =
     (case parse_url origin of
        None \<Rightarrow> False
      | Some (scheme, host) \<Rightarrow>
          (scheme = bytes_of ''http'' \<or> scheme = bytes_of ''https'')
          \<and> (host = Some (bytes_of ''127.0.0.1'') \<or> host = Some (bytes_of ''localhost'')))"

datatype refusal = InvalidHost | CrossSite | CrossOrigin

text \<open>The three checks in order; each looks at the first header of its name only.\<close>

definition refused :: "url_parser \<Rightarrow> http_request \<Rightarrow> refusal option" where
  "refused parse_url q =
     (if (case find_header ''Host'' q of None \<Rightarrow> False | Some h \<Rightarrow> \<not> is_host_allowed h) then Some InvalidHost
      else if (case find_header ''Sec-Fetch-Site'' q of None \<Rightarrow> False | Some v \<Rightarrow> eq_ignore_ascii_case v (bytes_of ''cross-site''))
      then Some CrossSite
      else if (case find_header ''Origin'' q of None \<Rightarrow> False | Some v \<Rightarrow> \<not> is_origin_allowed parse_url v) then Some CrossOrigin
      else None)"

section \<open>State\<close>

record mount_controller =
  mc_is_mounted :: bool
  mc_drive_letter :: "nat option"
  mc_port :: nat
  mc_started :: bool

record watcher_controller =
  wk_is_running :: bool
  wk_watch_dir :: "rstring option"
  wk_debounce_secs :: u64
  wk_cooldown_secs :: u64
  wk_throttle_ms :: u64
  wk_handle :: bool
  wk_last_status :: "watcher_status option"

record 'db web_state =
  ws_engine :: "'db engine"
  ws_shares :: share_manager
  ws_disk :: dir
  ws_actions :: "rstring list"
  ws_mount :: mount_controller
  ws_watcher :: watcher_controller

section \<open>Replies\<close>

datatype relative_time = SecondsAgo nat | MinutesAgo nat | HoursAgo nat | DaysAgo nat

definition format_relative_time :: "u64 \<Rightarrow> u64 \<Rightarrow> relative_time" where
  "format_relative_time now ts =
     (let diff = unat now - unat ts
      in if diff < 60 then SecondsAgo diff else if diff < 3600 then MinutesAgo (diff div 60)
         else if diff < 86400 then HoursAgo (diff div 3600) else DaysAgo (diff div 86400))"

record api_file_item =
  af_name :: rstring
  af_object_id :: rstring
  af_latest_version :: u32
  af_size_bytes :: u64
  af_created_at :: u64

definition api_file :: "rstring \<times> object_id \<times> object_record \<Rightarrow> api_file_item" where
  "api_file x =
     (case x of (name, i, r) \<Rightarrow>
        case (case rec_latest r of None \<Rightarrow> (0, 0, 0) | Some v \<Rightarrow> (v_version v, v_size_bytes v, v_created_at v)) of (ver, sz, created) \<Rightarrow>
          \<lparr>af_name = name, af_object_id = oid_to_hex i, af_latest_version = ver, af_size_bytes = sz, af_created_at = created\<rparr>)"

definition watcher_phase_name :: "watcher_phase \<Rightarrow> string" where
  "watcher_phase_name p =
     (case p of Scanning \<Rightarrow> ''scanning'' | Watching \<Rightarrow> ''watching'' | Stopping \<Rightarrow> ''stopping'' | Stopped \<Rightarrow> ''stopped'' | Degraded \<Rightarrow> ''degraded'')"

record api_watcher_status =
  aw_running :: bool
  aw_phase :: string
  aw_watched_dir :: "rstring option"
  aw_debounce_secs :: u64
  aw_cooldown_secs :: u64
  aw_throttle_ms :: u64
  aw_status :: watcher_status

definition watcher_status_response :: "watcher_controller \<Rightarrow> watcher_status \<Rightarrow> api_watcher_status" where
  "watcher_status_response k st =
     \<lparr>aw_running = wk_is_running k, aw_phase = watcher_phase_name (st_phase st), aw_watched_dir = wk_watch_dir k,
      aw_debounce_secs = wk_debounce_secs k, aw_cooldown_secs = wk_cooldown_secs k, aw_throttle_ms = wk_throttle_ms k,
      aw_status = st\<rparr>"

definition stopped_watcher_status :: watcher_status where
  "stopped_watcher_status = \<lparr>st_phase = Stopped, st_scanned_files = 0, st_saved_files = 0, st_removed_files = 0, st_pending_files = 0,
     st_last_sync_at = None, st_last_error = None\<rparr>"

record api_mount_status =
  am_mounted :: bool
  am_drive :: "nat option"
  am_port :: nat

datatype api_error = EngineError oos_error | Message string | Refused refusal

datatype web_body =
    NoBody
  | ErrorBody api_error
  | AssetBody string
  | OkText
  | ActionsBody "rstring list"
  | StatsBody engine_stats
  | FilesBody "api_file_item list"
  | VersionsBody "object_version list"
  | SnapshotsBody "(rstring \<times> relative_time \<times> nat) list"
  | UploadBody rstring put_summary
  | StoredBody rstring put_summary
  | FolderBody rstring nat u64 bool rstring
  | DownloadBody rstring bytes
  | SuccessBody bool "nat option"
  | ShareBody share_info
  | SharesBody "share_info list"
  | UrlBody rstring
  | RolledBackBody rstring u32 u32 u64 "rstring option"
  | GcBody gc_stats
  | FsckBody fsck_report
  | MountBody api_mount_status
  | WatcherBody api_watcher_status
  | PathBody "rstring option"
  | PrunedBody nat nat
  | ShellExtBody bool

text \<open>\<open>Dropped\<close>: the request is not answered; \<open>Aborts\<close>: the code unwraps an error.\<close>

datatype web_reply = Reply nat web_body | Dropped | Aborts

definition error_response :: "nat \<Rightarrow> api_error \<Rightarrow> web_reply" where
  "error_response status err = Reply status (ErrorBody err)"

definition json_response :: "web_body \<Rightarrow> web_reply" where
  "json_response b = Reply 200 b"

section \<open>The environment of a request\<close>

text \<open>The bodies the JSON library reads; \<open>None\<close> when it rejects the text.\<close>

record web_json =
  wj_store_path :: "rstring \<Rightarrow> (rstring \<times> rstring option) option"
  wj_folder_ingest :: "rstring \<Rightarrow> (rstring \<times> bool option \<times> rstring option) option"
  wj_label :: "rstring \<Rightarrow> rstring option"
  wj_restore :: "rstring \<Rightarrow> (rstring \<times> rstring) option"
  wj_name :: "rstring \<Rightarrow> rstring option"
  wj_share :: "rstring \<Rightarrow> (rstring \<times> u64) option"
  wj_id :: "rstring \<Rightarrow> rstring option"
  wj_rollback :: "rstring \<Rightarrow> (rstring \<times> u32 \<times> rstring option) option"
  wj_prune :: "bytes \<Rightarrow> (nat option \<times> rstring option) option"
  wj_watcher :: "bytes \<Rightarrow> (rstring \<times> u64 option \<times> u64 option \<times> u64 option) option"

record web_env =
  we_json :: web_json
  we_share_json :: share_json
  we_path :: "rstring \<Rightarrow> (rstring \<times> (rstring \<times> rstring) list) option"
  we_url :: url_parser
  we_now :: u64
  we_now_ns :: nat
  we_pid :: nat
  we_tmp_dir :: rstring
  we_tmp :: "rstring \<Rightarrow> rstring"
  we_put :: "nat \<Rightarrow> put_env"
  we_body_source :: "bytes \<Rightarrow> source"
  we_file_source :: "rstring \<Rightarrow> source"
  we_exists :: "rstring \<Rightarrow> bool"
  we_parent_exists :: "rstring \<Rightarrow> bool"
  we_is_dir :: "rstring \<Rightarrow> bool"
  we_entries :: "rstring \<Rightarrow> (rstring \<times> node) list"
  we_tmp_writable :: bool
  we_saves :: bool
  we_random :: "u64 \<times> u64"
  we_gc_env :: env
  we_gc_chunk_env :: "chunk_id \<Rightarrow> env"
  we_gc_tmp :: rstring
  we_store_dir :: node
  we_webdav_starts :: bool
  we_handle_status :: watcher_status
  we_handle_running :: bool
  we_watcher_start :: "watcher_status result"
  we_dialog :: "rstring option"

text \<open>\<^verbatim>\<open>read_to_string\<close> leaves the string empty when the body is not UTF-8.\<close>

definition body_text :: "http_request \<Rightarrow> rstring" where
  "body_text q = (case from_utf8 (rq_body q) of None \<Rightarrow> [] | Some s \<Rightarrow> s)"

definition query_value :: "string \<Rightarrow> (rstring \<times> rstring) list \<Rightarrow> rstring option" where
  "query_value k ps = map_option snd (find (\<lambda>(n, _). n = bytes_of k) ps)"

text \<open>What a handler does: a new state and a reply, or \<open>None\<close> when a chunk loop does not end.\<close>

type_synonym 'db handler = "'db web_state \<Rightarrow> ('db web_state \<times> web_reply) option"

definition replies :: "web_reply \<Rightarrow> 'db handler" where
  "replies r = (\<lambda>w. Some (w, r))"

text \<open>A handler that needs a body answers 400 when it is not read.\<close>

definition with_body :: "'a option \<Rightarrow> ('a \<Rightarrow> 'db handler) \<Rightarrow> 'db handler" where
  "with_body b f = (case b of None \<Rightarrow> replies (error_response 400 (Message ''Invalid JSON'')) | Some x \<Rightarrow> f x)"

text \<open>One call of the engine, its error reported with the given status.\<close>

definition engine_call :: "('db engine, 'a) sm \<Rightarrow> nat \<Rightarrow> ('a \<Rightarrow> web_body) \<Rightarrow> 'db handler" where
  "engine_call f status ok =
     (\<lambda>w. case f (ws_engine w) of
            (e', Inl err) \<Rightarrow> Some (w\<lparr>ws_engine := e'\<rparr>, error_response status (EngineError err))
          | (e', Inr x) \<Rightarrow> Some (w\<lparr>ws_engine := e'\<rparr>, json_response (ok x)))"

definition engine_query :: "('db engine \<Rightarrow> 'a result) \<Rightarrow> nat \<Rightarrow> ('a \<Rightarrow> web_body) \<Rightarrow> 'db handler" where
  "engine_query f status ok =
     (\<lambda>w. case f (ws_engine w) of
            Inl err \<Rightarrow> Some (w, error_response status (EngineError err))
          | Inr x \<Rightarrow> Some (w, json_response (ok x)))"

section \<open>Files and versions\<close>

definition get_stats :: "'db redb \<Rightarrow> web_env \<Rightarrow> 'db handler" where
  "get_stats R W = (\<lambda>w. Some (w, json_response (StatsBody (eg_stats R (we_store_dir W) (ws_engine w)))))"

definition get_files :: "'db redb \<Rightarrow> 'db handler" where
  "get_files R = engine_query (list_files R) 500 (\<lambda>fs. FilesBody (map api_file fs))"

definition api_versions :: "'db redb \<Rightarrow> (rstring \<times> rstring) list \<Rightarrow> 'db handler" where
  "api_versions R ps =
     (case query_value ''name'' ps of
        None \<Rightarrow> replies (error_response 400 (Message ''Missing 'name' parameter''))
      | Some name \<Rightarrow> engine_query (\<lambda>e. get_versions R e name) 404 VersionsBody)"

text \<open>The name an upload is stored under: the normal components of the query's name.\<close>

definition upload_name :: "(rstring \<times> rstring) list \<Rightarrow> rstring" where
  "upload_name ps =
     (let raw = (case query_value ''name'' ps of None \<Rightarrow> bytes_of ''unnamed_file'' | Some v \<Rightarrow> forward_slashes v);
          safe = join_path (normals raw)
      in if safe = [] then bytes_of ''unnamed_file'' else safe)"

text \<open>The body is spooled to a temporary file, which the engine reads and which is removed afterwards.\<close>

definition upload :: "ext \<Rightarrow> 'db redb \<Rightarrow> web_env \<Rightarrow> http_request \<Rightarrow> (rstring \<times> rstring) list \<Rightarrow> 'db handler" where
  "upload X R W q ps =
     (if \<not> we_tmp_writable W then replies (error_response 500 (Message ''Failed to create temp file''))
      else (\<lambda>w.
        let name = upload_name ps;
            tmp_path = we_tmp_dir W @ bytes_of ''/oos_up_'' @ dec_digits (we_pid W) @ [95] @ dec_digits (we_now_ns W) @ bytes_of ''.tmp'';
            d = dir_del (dir_put (ws_disk w) tmp_path (rq_body q)) tmp_path
        in case put_file_named X R (we_put W 0) name (we_body_source W (rq_body q)) (ws_engine w) of
             None \<Rightarrow> None
           | Some (e', Inl err) \<Rightarrow> Some (w\<lparr>ws_engine := e', ws_disk := d\<rparr>, error_response 500 (EngineError err))
           | Some (e', Inr ps) \<Rightarrow> Some (w\<lparr>ws_engine := e', ws_disk := d\<rparr>, json_response (UploadBody name ps))))"

definition store_path :: "ext \<Rightarrow> 'db redb \<Rightarrow> web_env \<Rightarrow> http_request \<Rightarrow> 'db handler" where
  "store_path X R W q =
     with_body (wj_store_path (we_json W) (body_text q)) (\<lambda>(path, name).
       if \<not> we_exists W path then replies (error_response 404 (Message ''Target file does not exist on disk''))
       else if we_is_dir W path then replies (error_response 400 (Message ''Selected path is a folder''))
       else (\<lambda>w.
         let fallback = (case path_file_name path of None \<Rightarrow> bytes_of ''unnamed_file'' | Some n \<Rightarrow> n);
             file_name = (case name of None \<Rightarrow> fallback | Some n \<Rightarrow> n)
         in case put_file_named X R (we_put W 0) file_name (we_file_source W path) (ws_engine w) of
              None \<Rightarrow> None
            | Some (e', Inl err) \<Rightarrow> Some (w\<lparr>ws_engine := e'\<rparr>, error_response 500 (EngineError err))
            | Some (e', Inr ps) \<Rightarrow> Some (w\<lparr>ws_engine := e'\<rparr>, json_response (StoredBody file_name ps))))"

text \<open>The files below a folder with their logical names, hidden entries and build directories left out.\<close>

definition skipped_entry :: "rstring \<Rightarrow> bool" where
  "skipped_entry name =
     (let s = from_utf8_lossy name
      in starts_with s [46] \<or> s = bytes_of ''node_modules'' \<or> s = bytes_of ''target'' \<or> s = bytes_of ''dist'')"

fun walk_folder :: "rstring \<Rightarrow> rstring list \<Rightarrow> (rstring \<times> node) list \<Rightarrow> (rstring \<times> rstring) list" where
  "walk_folder pre rel [] = []"
| "walk_folder pre rel ((name, DirNode sub) # es) =
     (if skipped_entry name then [] else walk_folder pre (rel @ [name]) sub) @ walk_folder pre rel es"
| "walk_folder pre rel ((name, FileNode b) # es) =
     (if skipped_entry name then []
      else [(join_path (rel @ [name]), pre @ [47] @ forward_slashes (from_utf8_lossy (join_path (rel @ [name]))))]) @ walk_folder pre rel es"
| "walk_folder pre rel ((name, LinkNode) # es) = walk_folder pre rel es"

fun ingest_files :: "ext \<Rightarrow> 'db redb \<Rightarrow> web_env \<Rightarrow> rstring \<Rightarrow> nat \<Rightarrow> nat \<times> u64 \<Rightarrow> (rstring \<times> rstring) list \<Rightarrow> 'db engine
    \<Rightarrow> ('db engine \<times> nat \<times> u64) option" where
  "ingest_files X R W folder k (n, bytes) [] e = Some (e, n, bytes)"
| "ingest_files X R W folder k (n, bytes) ((p, logical) # fs) e =
     (case put_file_named X R (we_put W k) logical (we_file_source W (path_join folder p)) e of
        None \<Rightarrow> None
      | Some (e', Inl _) \<Rightarrow> ingest_files X R W folder (Suc k) (n, bytes) fs e'
      | Some (e', Inr ps) \<Rightarrow> ingest_files X R W folder (Suc k) (Suc n, bytes + ps_total_bytes ps) fs e')"

definition folder_ingest :: "ext \<Rightarrow> 'db redb \<Rightarrow> web_env \<Rightarrow> http_request \<Rightarrow> 'db handler" where
  "folder_ingest X R W q =
     with_body (wj_folder_ingest (we_json W) (body_text q)) (\<lambda>(folder, snapshot, label).
       if \<not> we_is_dir W folder then replies (error_response 400 (Message ''Selected path is not a valid directory''))
       else (\<lambda>w.
         let base = (case path_file_name folder of None \<Rightarrow> bytes_of ''folder'' | Some n \<Rightarrow> n)
         in case ingest_files X R W folder 0 (0, 0) (walk_folder base [] (we_entries W folder)) (ws_engine w) of
              None \<Rightarrow> None
            | Some (e1, n, bytes) \<Rightarrow>
                (let snap_label = (case label of Some l \<Rightarrow> l
                       | None \<Rightarrow> bytes_of ''snapshot_'' @ base @ [95] @ dec_digits (unat (we_now W)));
                     (e2, ok) = (if snapshot \<noteq> Some False
                       then (case create_snapshot X R (we_now W) snap_label e1 of (e2, r) \<Rightarrow> (e2, (case r of Inl _ \<Rightarrow> False | Inr _ \<Rightarrow> True)))
                       else (e1, False))
                 in Some (w\<lparr>ws_engine := e2\<rparr>, json_response (FolderBody base n bytes ok snap_label)))))"

text \<open>\<^verbatim>\<open>str::parse::<u32>\<close>.\<close>

definition parse_u32 :: "rstring \<Rightarrow> u32 option" where
  "parse_u32 s = Option.bind (parse_u64 s) (\<lambda>n. if n < 2 ^ 32 then Some (word_of_nat n) else None)"

definition web_download :: "ext \<Rightarrow> 'db redb \<Rightarrow> web_env \<Rightarrow> (rstring \<times> rstring) list \<Rightarrow> 'db handler" where
  "web_download X R W ps =
     (case query_value ''target'' ps of
        None \<Rightarrow> replies (error_response 400 (Message ''Missing 'target' query parameter''))
      | Some t \<Rightarrow> (\<lambda>w.
          let target = forward_slashes t;
              version = Option.bind (query_value ''version'' ps) parse_u32;
              tmp_path = we_tmp_dir W @ bytes_of ''/oos_down_'' @ dec_digits (we_pid W) @ [95] @ dec_digits (we_now_ns W) @ bytes_of ''.tmp''
          in case get_file_version X R (ws_engine w) target version (we_tmp W tmp_path) tmp_path (ws_disk w) of
               (d, Inl err) \<Rightarrow> Some (w\<lparr>ws_disk := dir_del d tmp_path\<rparr>, error_response 404 (EngineError err))
             | (d, Inr _) \<Rightarrow>
                 (case dir_get d tmp_path of
                    None \<Rightarrow> Some (w\<lparr>ws_disk := dir_del d tmp_path\<rparr>, error_response 500 (Message ''Open error''))
                  | Some content \<Rightarrow>
                      if ascii (download_header target)
                      then Some (w\<lparr>ws_disk := dir_del d tmp_path\<rparr>, Reply 200 (DownloadBody (download_name target) content))
                      else Some (w\<lparr>ws_disk := d\<rparr>, Aborts))))"

definition file_delete :: "'db redb \<Rightarrow> web_env \<Rightarrow> http_request \<Rightarrow> 'db handler" where
  "file_delete R W q =
     with_body (wj_name (we_json W) (body_text q)) (\<lambda>name. engine_call (delete_file R name) 400 (\<lambda>b. SuccessBody b None))"

definition file_delete_prefix :: "'db redb \<Rightarrow> web_env \<Rightarrow> http_request \<Rightarrow> 'db handler" where
  "file_delete_prefix R W q =
     with_body (wj_name (we_json W) (body_text q)) (\<lambda>name. engine_call (delete_prefix R name) 500 (\<lambda>n. SuccessBody (0 < n) (Some n)))"

text \<open>Where a rollback writes the old content: the given path, or the place of the name in the watched
  directory when that or its directory exists, or a local file of the name.\<close>

definition joined :: "rstring \<Rightarrow> rstring \<Rightarrow> rstring" where
  "joined base p = (if starts_with p [47] then p else path_join base p)"

definition rollback_target :: "web_env \<Rightarrow> watcher_controller \<Rightarrow> rstring \<Rightarrow> rstring option \<Rightarrow> rstring option" where
  "rollback_target W k name disk_path =
     (case disk_path of
        Some p \<Rightarrow> if p \<noteq> [] then Some p else None
      | None \<Rightarrow>
          (case wk_watch_dir k of
             Some wd \<Rightarrow> (let c = joined wd name in if we_exists W c \<or> we_parent_exists W c then Some c else None)
           | None \<Rightarrow> if we_exists W name then Some name else None))"

definition file_rollback :: "ext \<Rightarrow> 'db redb \<Rightarrow> web_env \<Rightarrow> http_request \<Rightarrow> 'db handler" where
  "file_rollback X R W q =
     with_body (wj_rollback (we_json W) (body_text q)) (\<lambda>(name, version, disk_path) w.
       let target = rollback_target W (ws_watcher w) name disk_path
       in case rollback_file X R (we_now W) name version (map_option (\<lambda>p. (we_tmp W p, p)) target) (ws_engine w, ws_disk w) of
            ((e', d'), Inl err) \<Rightarrow> Some (w\<lparr>ws_engine := e', ws_disk := d'\<rparr>, error_response 500 (EngineError err))
          | ((e', d'), Inr (ver, n)) \<Rightarrow> Some (w\<lparr>ws_engine := e', ws_disk := d'\<rparr>, json_response (RolledBackBody name version ver n target)))"

definition prune :: "'db redb \<Rightarrow> web_env \<Rightarrow> http_request \<Rightarrow> 'db handler" where
  "prune R W q =
     (case (case wj_prune (we_json W) (rq_body q) of None \<Rightarrow> (Some 10, None) | Some x \<Rightarrow> x) of (keep0, name) \<Rightarrow>
        let keep = max (case keep0 of None \<Rightarrow> 10 | Some k \<Rightarrow> k) 1
        in engine_call (case name of Some n \<Rightarrow> prune_file_versions R n keep | None \<Rightarrow> prune_all R keep) 500 (\<lambda>n. PrunedBody n keep))"

section \<open>Snapshots\<close>

definition api_snapshots :: "ext \<Rightarrow> 'db redb \<Rightarrow> web_env \<Rightarrow> 'db handler" where
  "api_snapshots X R W =
     engine_query (eg_list_snapshots X R) 500
       (\<lambda>ss. SnapshotsBody (map (\<lambda>s. (s_label s, format_relative_time (we_now W) (s_created_at s), length (s_entries s))) ss))"

definition snapshot_create :: "ext \<Rightarrow> 'db redb \<Rightarrow> web_env \<Rightarrow> http_request \<Rightarrow> 'db handler" where
  "snapshot_create X R W q =
     with_body (wj_label (we_json W) (body_text q)) (\<lambda>label. engine_call (create_snapshot X R (we_now W) label) 400 (\<lambda>_. SuccessBody True None))"

text \<open>A restore goes to a relative directory without parent components.\<close>

definition restore_dir_ok :: "rstring \<Rightarrow> bool" where
  "restore_dir_ok dir \<longleftrightarrow> dir \<noteq> [] \<and> ParentDir \<notin> set (components dir) \<and> RootDir \<notin> set (components dir) \<and> normals dir \<noteq> []"

definition snapshot_restore :: "ext \<Rightarrow> 'db redb \<Rightarrow> web_env \<Rightarrow> http_request \<Rightarrow> 'db handler" where
  "snapshot_restore X R W q =
     with_body (wj_restore (we_json W) (body_text q)) (\<lambda>(label, dir0).
       let dir = trim dir0
       in if \<not> restore_dir_ok dir then replies (error_response 400 (Message ''Invalid restore directory''))
          else (\<lambda>w. case restore_snapshot X R (ws_engine w) label dir (we_tmp W) (ws_disk w) of
                      (d, Inl err) \<Rightarrow> Some (w\<lparr>ws_disk := d\<rparr>, error_response 400 (EngineError err))
                    | (d, Inr n) \<Rightarrow> Some (w\<lparr>ws_disk := d\<rparr>, json_response (SuccessBody True (Some n)))))"

definition snapshot_delete :: "'db redb \<Rightarrow> web_env \<Rightarrow> http_request \<Rightarrow> 'db handler" where
  "snapshot_delete R W q =
     with_body (wj_label (we_json W) (body_text q)) (\<lambda>label. engine_call (eg_delete_snapshot R label) 400 (\<lambda>b. SuccessBody b None))"

section \<open>Shares\<close>

definition share_create :: "web_env \<Rightarrow> http_request \<Rightarrow> 'db handler" where
  "share_create W q =
     with_body (wj_share (we_json W) (body_text q)) (\<lambda>(path, expires_in) w.
       case add_share (we_share_json W) (we_saves W) (we_random W) (we_now W) path expires_in (ws_shares w) of
         (m, info) \<Rightarrow> Some (w\<lparr>ws_shares := m\<rparr>, json_response (ShareBody info)))"

definition share_revoke :: "web_env \<Rightarrow> http_request \<Rightarrow> 'db handler" where
  "share_revoke W q =
     with_body (wj_id (we_json W) (body_text q)) (\<lambda>i w.
       case revoke_share (we_share_json W) (we_saves W) i (ws_shares w) of
         (m, ok) \<Rightarrow> Some (w\<lparr>ws_shares := m\<rparr>, json_response (SuccessBody ok None)))"

definition share_list :: "web_env \<Rightarrow> 'db handler" where
  "share_list W = (\<lambda>w. Some (w, json_response (SharesBody (list_shares (we_now W) (ws_shares w)))))"

definition share_public_url :: "'db handler" where
  "share_public_url = (\<lambda>w. Some (w, json_response (UrlBody (case sm_public_url (ws_shares w) of None \<Rightarrow> [] | Some u \<Rightarrow> u))))"

section \<open>Mount and watcher\<close>

definition mount_port :: "mount_controller \<Rightarrow> nat" where
  "mount_port c = (if mc_port c = 0 then 8080 else mc_port c)"

definition mount_status :: "'db handler" where
  "mount_status = (\<lambda>w. let c = ws_mount w in
     Some (w, json_response (MountBody \<lparr>am_mounted = mc_is_mounted c, am_drive = mc_drive_letter c, am_port = mount_port c\<rparr>)))"

text \<open>Start the WebDAV server once; elsewhere than on Windows nothing more happens.\<close>

definition mount_toggle :: "web_env \<Rightarrow> 'db handler" where
  "mount_toggle W = (\<lambda>w.
     let c = ws_mount w
     in if \<not> mc_started c \<and> \<not> we_webdav_starts W then Some (w, error_response 500 (Message ''WebDAV server''))
        else (let c1 = (if mc_started c then c else c\<lparr>mc_started := True, mc_port := mount_port c\<rparr>)
              in Some (w\<lparr>ws_mount := c1\<rparr>,
                   json_response (MountBody \<lparr>am_mounted = mc_is_mounted c1, am_drive = mc_drive_letter c1, am_port = mc_port c1\<rparr>))))"

definition watcher_last :: "watcher_controller \<Rightarrow> watcher_status" where
  "watcher_last k = (case wk_last_status k of None \<Rightarrow> stopped_watcher_status | Some s \<Rightarrow> s)"

definition watcher_get_status :: "web_env \<Rightarrow> 'db handler" where
  "watcher_get_status W = (\<lambda>w.
     let k = ws_watcher w
     in if wk_handle k
        then (let k1 = k\<lparr>wk_is_running := we_handle_running W, wk_last_status := Some (we_handle_status W)\<rparr>
              in Some (w\<lparr>ws_watcher := k1\<rparr>, json_response (WatcherBody (watcher_status_response k1 (we_handle_status W)))))
        else (let k1 = k\<lparr>wk_is_running := False\<rparr>
              in Some (w\<lparr>ws_watcher := k1\<rparr>, json_response (WatcherBody (watcher_status_response k1 (watcher_last k1))))))"

text \<open>A running watcher is stopped before the new one is started, also when that then fails.\<close>

definition watcher_start :: "'db redb \<Rightarrow> web_env \<Rightarrow> http_request \<Rightarrow> 'db handler" where
  "watcher_start R W q =
     with_body (wj_watcher (we_json W) (rq_body q)) (\<lambda>(dir0, debounce0, cooldown0, throttle0).
       let dir = trim dir0;
           debounce = (case debounce0 of None \<Rightarrow> 3 | Some n \<Rightarrow> n);
           cooldown = (case cooldown0 of None \<Rightarrow> 60 | Some n \<Rightarrow> n);
           throttle = (case throttle0 of None \<Rightarrow> 10 | Some n \<Rightarrow> n)
       in if \<not> we_is_dir W dir then replies (error_response 400 (Message ''Directory does not exist''))
          else if \<not> (1 \<le> debounce \<and> debounce \<le> 60) then replies (error_response 400 (Message ''Debounce must be between 1 and 60 seconds''))
          else if \<not> (1 \<le> cooldown \<and> cooldown \<le> 3600) then replies (error_response 400 (Message ''Cooldown must be between 1 and 3600 seconds''))
          else if 5000 < throttle then replies (error_response 400 (Message ''I/O throttle must be between 0 and 5000 milliseconds''))
          else (\<lambda>w.
            let k = (ws_watcher w)\<lparr>wk_handle := False\<rparr>
            in case we_watcher_start W of
                 Inl err \<Rightarrow> Some (w\<lparr>ws_watcher := k\<rparr>, error_response 400 (EngineError err))
               | Inr status \<Rightarrow>
                   (let k1 = \<lparr>wk_is_running = True, wk_watch_dir = Some dir, wk_debounce_secs = debounce, wk_cooldown_secs = cooldown,
                              wk_throttle_ms = throttle, wk_handle = True, wk_last_status = Some status\<rparr>;
                        e1 = fst (set_db (\<lambda>db. save_watcher_config R db dir debounce cooldown throttle) (ws_engine w))
                    in Some (w\<lparr>ws_watcher := k1, ws_engine := e1\<rparr>, json_response (WatcherBody (watcher_status_response k1 status))))))"

definition watcher_stop :: "web_env \<Rightarrow> 'db handler" where
  "watcher_stop W = (\<lambda>w.
     let k = ws_watcher w;
         k1 = (if wk_handle k then k\<lparr>wk_handle := False, wk_last_status := Some ((we_handle_status W)\<lparr>st_phase := Stopped\<rparr>)\<rparr> else k)
                \<lparr>wk_is_running := False\<rparr>
     in Some (w\<lparr>ws_watcher := k1\<rparr>, json_response (WatcherBody (watcher_status_response k1 (watcher_last k1)))))"

section \<open>Actions of the window\<close>

definition push_action :: "http_request \<Rightarrow> 'db handler" where
  "push_action q = (\<lambda>w. Some ((case from_utf8 (rq_body q) of None \<Rightarrow> w | Some s \<Rightarrow> w\<lparr>ws_actions := ws_actions w @ [s]\<rparr>), Reply 200 OkText))"

definition take_actions :: "'db handler" where
  "take_actions = (\<lambda>w. Some (w\<lparr>ws_actions := []\<rparr>, json_response (ActionsBody (ws_actions w))))"

section \<open>Files of the page, collection, check and operating system\<close>

definition asset :: "string \<Rightarrow> 'db handler" where
  "asset name = replies (Reply 200 (AssetBody name))"

definition run_gc :: "ext \<Rightarrow> 'db redb \<Rightarrow> web_env \<Rightarrow> 'db handler" where
  "run_gc X R W = engine_call (eg_gc X R (we_gc_env W) (we_gc_chunk_env W) (we_gc_tmp W)) 500 GcBody"

definition run_fsck :: "ext \<Rightarrow> 'db redb \<Rightarrow> 'db handler" where
  "run_fsck X R = engine_query (eg_fsck X R) 500 FsckBody"

definition mount_open :: "'db handler" where
  "mount_open = replies (json_response (SuccessBody True None))"

definition select_folder :: "web_env \<Rightarrow> 'db handler" where
  "select_folder W = replies (json_response (PathBody (we_dialog W)))"

definition shell_ext_status :: "'db handler" where
  "shell_ext_status = replies (json_response (ShellExtBody False))"

definition shell_ext_enable :: "'db handler" where
  "shell_ext_enable = replies (error_response 400 (Message ''Context menu only supported on Windows''))"

definition shell_ext_disable :: "'db handler" where
  "shell_ext_disable = replies (error_response 400 (Message ''Context menu only supported on Windows''))"

section \<open>Dispatch\<close>

definition get_request :: "ext \<Rightarrow> 'db redb \<Rightarrow> web_env \<Rightarrow> rstring \<Rightarrow> (rstring \<times> rstring) list \<Rightarrow> 'db handler option" where
  "get_request X R W path ps =
     map_of [(bytes_of ''/app-icon.ico'', asset ''app-icon.ico''),
             (bytes_of ''/favicon.ico'', asset ''app-icon.ico''),
             (bytes_of ''/desktop.css'', asset ''desktop.css''),
             (bytes_of ''/desktop.js'', asset ''desktop.js''),
             (bytes_of ''/'', asset ''index.html''),
             (bytes_of ''/index.html'', asset ''index.html''),
             (bytes_of ''/api/ui/actions'', take_actions),
             (bytes_of ''/api/stats'', get_stats R W),
             (bytes_of ''/api/files'', get_files R),
             (bytes_of ''/api/versions'', api_versions R ps),
             (bytes_of ''/api/snapshots'', api_snapshots X R W),
             (bytes_of ''/api/download'', web_download X R W ps),
             (bytes_of ''/api/share/public_url'', share_public_url),
             (bytes_of ''/api/share/list'', share_list W),
             (bytes_of ''/api/mount/status'', mount_status),
             (bytes_of ''/api/watcher/status'', watcher_get_status W),
             (bytes_of ''/api/shell-ext/status'', shell_ext_status)] path"

definition post_request :: "ext \<Rightarrow> 'db redb \<Rightarrow> web_env \<Rightarrow> http_request \<Rightarrow> rstring \<Rightarrow> (rstring \<times> rstring) list \<Rightarrow> 'db handler option" where
  "post_request X R W q path ps =
     map_of [(bytes_of ''/api/ui/action'', push_action q),
             (bytes_of ''/api/upload'', upload X R W q ps),
             (bytes_of ''/api/file/store-path'', store_path X R W q),
             (bytes_of ''/api/folder/ingest'', folder_ingest X R W q),
             (bytes_of ''/api/snapshot/create'', snapshot_create X R W q),
             (bytes_of ''/api/snapshot/restore'', snapshot_restore X R W q),
             (bytes_of ''/api/snapshot/delete'', snapshot_delete R W q),
             (bytes_of ''/api/file/delete_prefix'', file_delete_prefix R W q),
             (bytes_of ''/api/share/create'', share_create W q),
             (bytes_of ''/api/share/revoke'', share_revoke W q),
             (bytes_of ''/api/file/delete'', file_delete R W q),
             (bytes_of ''/api/file/rollback'', file_rollback X R W q),
             (bytes_of ''/api/gc'', run_gc X R W),
             (bytes_of ''/api/fsck'', run_fsck X R),
             (bytes_of ''/api/mount/toggle'', mount_toggle W),
             (bytes_of ''/api/mount/open'', mount_open),
             (bytes_of ''/api/dialog/select-folder'', select_folder W),
             (bytes_of ''/api/watcher/start'', watcher_start R W q),
             (bytes_of ''/api/watcher/stop'', watcher_stop W),
             (bytes_of ''/api/prune'', prune R W q),
             (bytes_of ''/api/shell-ext/enable'', shell_ext_enable),
             (bytes_of ''/api/shell-ext/disable'', shell_ext_disable)] path"

definition web_request :: "ext \<Rightarrow> 'db redb \<Rightarrow> web_env \<Rightarrow> http_request \<Rightarrow> 'db handler" where
  "web_request X R W q =
     (case we_path W (rq_url q) of
        None \<Rightarrow> replies Dropped
      | Some (path, ps) \<Rightarrow>
          (case refused (we_url W) q of
             Some r \<Rightarrow> replies (error_response 403 (Refused r))
           | None \<Rightarrow>
               if rq_method q = bytes_of ''OPTIONS'' then replies (Reply 204 NoBody)
               else (case (if rq_method q = bytes_of ''GET'' then get_request X R W path ps
                           else if rq_method q = bytes_of ''POST'' then post_request X R W q path ps
                           else None) of
                       None \<Rightarrow> replies (error_response 404 (Message ''Endpoint not found''))
                     | Some h \<Rightarrow> h)))"

end
