(* ===== verification/Oos_Web_Safe.thy ===== *)
theory Oos_Web_Safe
  imports Oos_Web_Api
begin

text \<open>
  What the web server guarantees: which requests can change the store, and that a file uploaded through it
  downloads again as it was.
\<close>

section \<open>Who changes what\<close>

text \<open>A handler that leaves the engine, the shares and the mount alone.\<close>

definition keeps_store :: "'db handler \<Rightarrow> bool" where
  "keeps_store h \<longleftrightarrow> (\<forall>w w' r. h w = Some (w', r) \<longrightarrow> ws_engine w' = ws_engine w \<and> ws_shares w' = ws_shares w \<and> ws_mount w' = ws_mount w)"

lemma keeps_replies: "keeps_store (replies r)"
  by (simp add: keeps_store_def replies_def)

lemma keeps_query: "keeps_store (engine_query f st ok)"
  by (auto simp: keeps_store_def engine_query_def split: sum.splits)

lemma keeps_gets:
  "keeps_store (get_stats R W)" "keeps_store (get_files R)" "keeps_store (api_versions R ps)" "keeps_store (api_snapshots X R W)"
  "keeps_store (web_download X R W ps)" "keeps_store share_public_url" "keeps_store (share_list W)" "keeps_store mount_status"
  "keeps_store (watcher_get_status W)" "keeps_store take_actions"
  by (auto simp: get_files_def api_versions_def api_snapshots_def keeps_query keeps_replies split: option.splits)
    (auto simp: keeps_store_def get_stats_def web_download_def replies_def share_public_url_def share_list_def mount_status_def
      watcher_get_status_def take_actions_def Let_def split: option.splits prod.splits sum.splits if_splits)

lemma get_request_keeps: "get_request X R W path ps = Some h \<Longrightarrow> keeps_store h"
  by (auto simp: get_request_def asset_def shell_ext_status_def keeps_gets keeps_replies split: if_splits)

section \<open>Uploading and downloading\<close>

lemma upload_reply:
  assumes "upload X R W q ps w = Some (w1, Reply 200 (UploadBody name sm))"
  shows "name = upload_name ps"
    "put_file_named X R (we_put W 0) name (we_body_source W (rq_body q)) (ws_engine w) = Some (ws_engine w1, Inr sm)"
  using assms by (auto simp: upload_def replies_def error_response_def json_response_def Let_def split: if_splits option.splits prod.splits sum.splits)

lemma download_content:
  assumes "query_value ''target'' ps = Some t" "query_value ''version'' ps = None" "ascii t"
    and "\<And>tmp out d. \<exists>d' n. get_file X R (ws_engine w) (forward_slashes t) tmp out d = (d', Inr n) \<and> writes_file d tmp out content d'"
  shows "\<exists>d'. web_download X R W ps w = Some (w\<lparr>ws_disk := d'\<rparr>, Reply 200 (DownloadBody (download_name (forward_slashes t)) content))"
proof -
  let ?tmp = "we_tmp_dir W @ bytes_of ''/oos_down_'' @ dec_digits (we_pid W) @ [95] @ dec_digits (we_now_ns W) @ bytes_of ''.tmp''"
  obtain d' n where d': "get_file X R (ws_engine w) (forward_slashes t) (we_tmp W ?tmp) ?tmp (ws_disk w) = (d', Inr n)"
    "writes_file (ws_disk w) (we_tmp W ?tmp) ?tmp content d'" using assms(4) by blast
  have "ascii (forward_slashes t)" using assms(3) by (auto simp: forward_slashes_def ascii_def list_all_iff)
  then have "ascii (download_name (forward_slashes t))"
    using file_name_bytes [of "forward_slashes t"] by (auto simp: download_name_def ascii_def list_all_iff bytes_of_def split: option.splits)
  then have "ascii (download_header (forward_slashes t))"
    by (simp add: download_header_def ascii_def) (simp add: bytes_of_def)
  then show ?thesis using d' assms(1,2) by (auto simp: web_download_def Let_def get_file_def writes_file_def)
qed

section \<open>An example\<close>

definition demo_path :: "rstring \<Rightarrow> (rstring \<times> (rstring \<times> rstring) list) option" where
  "demo_path u =
     (case split_on (\<lambda>b. b = 63) u of
        [p, q] \<Rightarrow> Some (p, query_params q)
      | _ \<Rightarrow> Some (u, []))"

definition demo_web_json :: web_json where
  "demo_web_json = \<lparr>wj_store_path = (\<lambda>_. None), wj_folder_ingest = (\<lambda>_. None), wj_label = Some, wj_restore = (\<lambda>_. None), wj_name = Some,
     wj_share = (\<lambda>p. Some (p, 60)), wj_id = Some, wj_rollback = (\<lambda>_. None), wj_prune = (\<lambda>_. None), wj_watcher = (\<lambda>_. None)\<rparr>"

definition demo_web :: web_env where
  "demo_web = \<lparr>we_json = demo_web_json, we_share_json = demo_json, we_path = demo_path, we_url = (\<lambda>_. None), we_now = 0, we_now_ns = 0,
     we_pid = 7, we_tmp_dir = [47], we_tmp = (\<lambda>p. 1 # p), we_put = (\<lambda>_. demo_penv), we_body_source = (\<lambda>_. demo_source),
     we_file_source = (\<lambda>_. demo_source), we_exists = (\<lambda>_. False), we_parent_exists = (\<lambda>_. False), we_is_dir = (\<lambda>_. False),
     we_entries = (\<lambda>_. []), we_tmp_writable = True, we_saves = True, we_random = (1, 2), we_gc_env = demo_env,
     we_gc_chunk_env = (\<lambda>_. demo_env), we_gc_tmp = [], we_store_dir = DirNode [], we_webdav_starts = True,
     we_handle_status = stopped_watcher_status, we_handle_running = False, we_watcher_start = Inr stopped_watcher_status, we_dialog = None\<rparr>"

definition demo_request :: "string \<Rightarrow> string \<Rightarrow> bytes \<Rightarrow> http_request" where
  "demo_request m url body = \<lparr>rq_method = bytes_of m, rq_url = bytes_of url, rq_headers = [(bytes_of ''host'', bytes_of ''localhost:3000'')], rq_body = body\<rparr>"

definition demo_web_state :: "'db engine \<Rightarrow> 'db web_state" where
  "demo_web_state e = \<lparr>ws_engine = e, ws_shares = demo_manager, ws_disk = [], ws_actions = [],
     ws_mount = \<lparr>mc_is_mounted = False, mc_drive_letter = None, mc_port = 0, mc_started = False\<rparr>,
     ws_watcher = \<lparr>wk_is_running = False, wk_watch_dir = None, wk_debounce_secs = 3, wk_cooldown_secs = 60, wk_throttle_ms = 10,
       wk_handle = False, wk_last_status = None\<rparr>\<rparr>"

lemma demo_paths:
  "demo_path (bytes_of ''/api/upload?name=a'') = Some (bytes_of ''/api/upload'', [(bytes_of ''name'', bytes_of ''a'')])"
  "demo_path (bytes_of ''/api/download?target=a'') = Some (bytes_of ''/api/download'', [(bytes_of ''target'', bytes_of ''a'')])"
  "demo_path (bytes_of ''/api/share/create'') = Some (bytes_of ''/api/share/create'', [])"
  by code_simp+

lemma demo_not_refused: "refused f (demo_request m url body) = None"
proof -
  have "is_host_allowed (bytes_of ''localhost:3000'')" by code_simp
  moreover have "eq_ignore_ascii_case (bytes_of ''host'') (bytes_of ''Host'')" "\<not> eq_ignore_ascii_case (bytes_of ''host'') (bytes_of ''Origin'')"
    "\<not> eq_ignore_ascii_case (bytes_of ''host'') (bytes_of ''Sec-Fetch-Site'')" by code_simp+
  ultimately show ?thesis by (simp add: refused_def find_header_def demo_request_def)
qed

lemma demo_methods: "bytes_of ''POST'' \<noteq> bytes_of ''OPTIONS''" "bytes_of ''POST'' \<noteq> bytes_of ''GET''" "bytes_of ''GET'' \<noteq> bytes_of ''OPTIONS''"
  by (simp_all add: bytes_of_inject)

section \<open>Properties\<close>

text \<open>
  C7. Only the user's own pages change the store.  A request whose host is not this machine, that a browser
  marks as coming from another site, or whose origin is another is answered with status 403 and changes
  nothing at all; and a request that changes the engine, the shares or the mount passed these checks
  and is a POST.
\<close>

theorem web_changes_guarded:
  assumes "web_request X R W q w = Some (w', r)"
  shows "(\<forall>path x. we_path W (rq_url q) = Some path \<longrightarrow> refused (we_url W) q = Some x \<longrightarrow> w' = w \<and> r = Reply 403 (ErrorBody (Refused x)))
    \<and> (ws_engine w' \<noteq> ws_engine w \<or> ws_shares w' \<noteq> ws_shares w \<or> ws_mount w' \<noteq> ws_mount w \<longrightarrow>
         rq_method q = bytes_of ''POST''
         \<and> (\<forall>h. find_header ''Host'' q = Some h \<longrightarrow> trim (hd (split_on (\<lambda>b. b = 58) h)) \<in> bytes_of ` {''localhost'', ''127.0.0.1'', ''0.0.0.0''})
         \<and> (\<forall>v. find_header ''Sec-Fetch-Site'' q = Some v \<longrightarrow> \<not> eq_ignore_ascii_case v (bytes_of ''cross-site''))
         \<and> (\<forall>v. find_header ''Origin'' q = Some v \<longrightarrow> (\<exists>scheme host. we_url W v = Some (scheme, Some host)
              \<and> scheme \<in> bytes_of ` {''http'', ''https''} \<and> host \<in> bytes_of ` {''127.0.0.1'', ''localhost''})))"
proof (cases "we_path W (rq_url q)")
  case None
  then show ?thesis using assms by (simp add: web_request_def replies_def)
next
  case (Some pp)
  obtain path ps where pp: "pp = (path, ps)" by (cases pp)
  show ?thesis
  proof (cases "refused (we_url W) q")
    case None
    have "rq_method q = bytes_of ''POST''" if "ws_engine w' \<noteq> ws_engine w \<or> ws_shares w' \<noteq> ws_shares w \<or> ws_mount w' \<noteq> ws_mount w"
    proof (rule ccontr)
      assume m: "rq_method q \<noteq> bytes_of ''POST''"
      have "keeps_store (web_request X R W q)"
        using m None Some get_request_keeps [of X R W path ps] by (auto simp: web_request_def pp keeps_replies split: option.splits)
      then show False using assms that by (auto simp: keeps_store_def)
    qed
    then show ?thesis using None
      by (auto simp: refused_def is_host_allowed_def is_origin_allowed_def Let_def split: if_splits option.splits prod.splits)
  next
    case r: (Some x)
    then show ?thesis using assms Some by (simp add: web_request_def pp replies_def error_response_def)
  qed
qed

theorem web_changes_guarded_witness:
  "\<exists>(e :: demo_db engine) w' r. let q = demo_request ''POST'' ''/api/share/create'' [97] in
     web_request demo_ext demo_redb demo_web q (demo_web_state e) = Some (w', r) \<and> ws_shares w' \<noteq> demo_manager
     \<and> rq_method q = bytes_of ''POST''
     \<and> (\<exists>r'. web_request demo_ext demo_redb demo_web (q\<lparr>rq_headers := [(bytes_of ''Host'', bytes_of ''evil.com'')]\<rparr>) (demo_web_state e)
          = Some (demo_web_state e, r'))"
proof -
  let ?q = "demo_request ''POST'' ''/api/share/create'' [97]" and ?e = "undefined :: demo_db engine"
  let ?q' = "?q\<lparr>rq_headers := [(bytes_of ''Host'', bytes_of ''evil.com'')]\<rparr>"
  obtain m info where add: "add_share demo_json True (1, 2) 0 [97] 60 demo_manager = (m, info)" by fastforce
  have post: "post_request demo_ext demo_redb demo_web ?q (bytes_of ''/api/share/create'') [] = Some (share_create demo_web ?q)"
    by (simp add: post_request_def bytes_of_inject)
  have f: "rq_method ?q = bytes_of ''POST''" "rq_url ?q = bytes_of ''/api/share/create''" "rq_body ?q = [97]"
    "rq_method ?q' = bytes_of ''POST''" "rq_url ?q' = bytes_of ''/api/share/create''" by (simp_all add: demo_request_def)
  have env: "we_path demo_web = demo_path" "wj_share (we_json demo_web) = (\<lambda>p. Some (p, 60))" "we_share_json demo_web = demo_json"
    "we_saves demo_web" "we_random demo_web = (1, 2)" "we_now demo_web = 0" by (simp_all add: demo_web_def demo_web_json_def)
  have u: "utf8_valid [97]" by (rule utf8_valid_ascii) code_simp
  have "ws_shares (demo_web_state ?e) = demo_manager" by (simp add: demo_web_state_def)
  then have w: "web_request demo_ext demo_redb demo_web ?q (demo_web_state ?e)
      = Some ((demo_web_state ?e)\<lparr>ws_shares := m\<rparr>, json_response (ShareBody info))"
    using u by (simp add: web_request_def env f demo_paths demo_not_refused demo_methods post share_create_def with_body_def body_text_def
      from_utf8_def add del: utf8_valid.simps)
  have m: "m \<noteq> demo_manager" using added_share_kept(1) [OF demo_json_ok add] by (auto simp: demo_manager_def get_share_def)
  have "\<not> is_host_allowed (bytes_of ''evil.com'')" by code_simp
  then have "refused (we_url demo_web) ?q' = Some InvalidHost"
    by (simp add: refused_def find_header_def eq_ignore_ascii_case_def)
  then have w': "web_request demo_ext demo_redb demo_web ?q' (demo_web_state ?e) = Some (demo_web_state ?e, error_response 403 (Refused InvalidHost))"
    by (simp add: web_request_def env f demo_paths replies_def)
  have s: "ws_shares ((demo_web_state ?e)\<lparr>ws_shares := m\<rparr>) \<noteq> ws_shares (demo_web_state ?e)" using m by (simp add: demo_web_state_def)
  then have "rq_method ?q = bytes_of ''POST''" using web_changes_guarded [OF w] by blast
  with w w' m show ?thesis
    by (intro exI [of _ ?e] exI [of _ "(demo_web_state ?e)\<lparr>ws_shares := m\<rparr>"] exI [of _ "json_response (ShareBody info)"])
      (simp add: Let_def)
qed

text \<open>
  C13. A file uploaded through the web server downloads as it was.  In any reachable state of the engine,
  when an upload is answered with success, then a download of the name it was stored under, in any later
  environment, is answered with exactly the bytes of the upload's body.
\<close>

theorem web_upload_download:
  assumes "ext_ok X" "fastcdc_ok X" "collision_free X U" "redb_ok R V" "redb_total R" "eg_run X R V U (ws_engine w)"
    and "rq_method q = bytes_of ''POST''" "we_path W (rq_url q) = Some (bytes_of ''/api/upload'', ps)" "refused (we_url W) q = None"
    and "source_ok X U (we_body_source W (rq_body q))" "\<forall>k. concat (takeWhile (\<lambda>b. b \<noteq> []) (at_blocks (src_attempt (we_body_source W (rq_body q)) k))) = rq_body q"
    and "put_ready V (we_put W 0) (trim name) (ws_engine w)" "target_free R V (we_put W 0) (trim name) (eg_db (ws_engine w))"
    and "web_request X R W q w = Some (w1, Reply 200 (UploadBody name sm))" "w_segment_id (ss_writer (eg_segments (ws_engine w1))) < 2 ^ 64"
    and "rq_method q' = bytes_of ''GET''" "we_path W' (rq_url q') = Some (bytes_of ''/api/download'', ps')" "refused (we_url W') q' = None"
    and "query_value ''target'' ps' = Some t" "query_value ''version'' ps' = None" "forward_slashes t = name" "ascii t"
  shows "\<exists>w2. web_request X R W' q' w1 = Some (w2, Reply 200 (DownloadBody (download_name name) (rq_body q)))"
proof -
  have "post_request X R W q (bytes_of ''/api/upload'') ps = Some (upload X R W q ps)"
    by (simp add: post_request_def bytes_of_inject)
  then have "upload X R W q ps w = Some (w1, Reply 200 (UploadBody name sm))"
    using assms(14) by (simp add: web_request_def assms(7-9) demo_methods)
  note put = upload_reply [OF this]
  have got: "\<exists>d' n. get_file X R (ws_engine w1) name tmp out d = (d', Inr n) \<and> writes_file d tmp out (rq_body q) d'" for tmp out d
  proof -
    obtain k cs d' where cs: "stream_chunks X (at_blocks (src_attempt (we_body_source W (rq_body q)) k)) = Some cs"
      "get_file X R (ws_engine w1) name tmp out d = (d', Inr (total_len cs))" "writes_file d tmp out (concat cs) d'"
      using put_then_get [OF assms(4,5) eg_run_inv [OF assms(6,4,1,3,2)] assms(2,10,12,13) put(2) assms(15), of tmp out d] by blast
    have "concat cs = rq_body q" using stream_chunks_spec [OF assms(2)] cs(1) assms(11) by (metis option.inject)
    with cs(2,3) show ?thesis by auto
  qed
  have "get_request X R W' (bytes_of ''/api/download'') ps' = Some (web_download X R W' ps')"
    by (simp add: get_request_def bytes_of_inject)
  then have "web_request X R W' q' w1 = web_download X R W' ps' w1"
    by (simp add: web_request_def assms(16-18) demo_methods)
  moreover obtain d' where "web_download X R W' ps' w1 = Some (w1\<lparr>ws_disk := d'\<rparr>, Reply 200 (DownloadBody (download_name name) (rq_body q)))"
    using download_content [OF assms(19,20,22), of X R w1 "rq_body q" W'] got by (auto simp: assms(21))
  ultimately show ?thesis by auto
qed

theorem web_upload_download_witness:
  "\<exists>(e :: demo_db engine) w1 sm w2. eg_run demo_ext demo_redb demo_view {[7]} e
     \<and> web_request demo_ext demo_redb demo_web (demo_request ''POST'' ''/api/upload?name=a'' [7]) (demo_web_state e) = Some (w1, Reply 200 (UploadBody (bytes_of ''a'') sm))
     \<and> web_request demo_ext demo_redb demo_web (demo_request ''GET'' ''/api/download?target=a'' []) w1 = Some (w2, Reply 200 (DownloadBody (bytes_of ''a'') [7]))"
proof -
  let ?q = "demo_request ''POST'' ''/api/upload?name=a'' [7]" and ?q' = "demo_request ''GET'' ''/api/download?target=a'' []"
  obtain e where e: "eg_run demo_ext demo_redb demo_view {[7]} e" "eg_vault_key e = None"
    "put_ready demo_view demo_penv demo_name e" "target_free demo_redb demo_view demo_penv demo_name (eg_db e)"
    "name_resolves demo_view demo_name (eg_db e)" "w_segment_id (ss_writer (eg_segments e)) = 1"
    using demo_engine by blast
  obtain e' sm where p: "put_file_named demo_ext demo_redb demo_penv demo_name demo_source e = Some (e', Inr sm)"
    "w_segment_id (ss_writer (eg_segments e')) \<le> w_segment_id (ss_writer (eg_segments e)) + 1"
    using demo_put [OF e(1,2,4,5)] by blast
  have bnd: "w_segment_id (ss_writer (eg_segments e')) < 2 ^ 64" using e(6) p(2) by simp
  have n: "upload_name [(bytes_of ''name'', bytes_of ''a'')] = demo_name" "demo_name = bytes_of ''a''" by code_simp+
  have f: "rq_method ?q = bytes_of ''POST''" "rq_url ?q = bytes_of ''/api/upload?name=a''" "rq_body ?q = [7]"
    "rq_method ?q' = bytes_of ''GET''" "rq_url ?q' = bytes_of ''/api/download?target=a''" by (simp_all add: demo_request_def)
  have env: "we_path demo_web = demo_path" "we_put demo_web 0 = demo_penv" "we_body_source demo_web b = demo_source" "we_tmp_writable demo_web" for b
    by (simp_all add: demo_web_def)
  let ?w = "demo_web_state e"
  have w: "ws_engine ?w = e" by (simp add: demo_web_state_def)
  have post: "post_request demo_ext demo_redb demo_web ?q (bytes_of ''/api/upload'') [(bytes_of ''name'', bytes_of ''a'')]
      = Some (upload demo_ext demo_redb demo_web ?q [(bytes_of ''name'', bytes_of ''a'')])"
    by (simp add: post_request_def bytes_of_inject)
  have path: "we_path demo_web (rq_url ?q) = Some (bytes_of ''/api/upload'', [(bytes_of ''name'', bytes_of ''a'')])"
    "we_path demo_web (rq_url ?q') = Some (bytes_of ''/api/download'', [(bytes_of ''target'', bytes_of ''a'')])"
    by (simp_all add: env f demo_paths)
  obtain w1 where w1: "web_request demo_ext demo_redb demo_web ?q ?w = Some (w1, Reply 200 (UploadBody demo_name sm))" "ws_engine w1 = e'"
    by (auto simp: web_request_def env(1) f(1,2) demo_paths demo_not_refused demo_methods post upload_def env f(3) n(1) w p(1) Let_def json_response_def)
  have src: "source_ok demo_ext {[7]} (we_body_source demo_web (rq_body ?q))"
    "\<forall>k. concat (takeWhile (\<lambda>b. b \<noteq> []) (at_blocks (src_attempt (we_body_source demo_web (rq_body ?q)) k))) = rq_body ?q"
    by (simp_all add: env demo_source_ok f(3)) (simp add: demo_source_def)
  have rdy: "put_ready demo_view (we_put demo_web 0) (trim demo_name) (ws_engine ?w)"
    "target_free demo_redb demo_view (we_put demo_web 0) (trim demo_name) (eg_db (ws_engine ?w))"
    using e(3,4) by (simp_all add: env w demo_name_ok)
  have t: "query_value ''target'' [(bytes_of ''target'', bytes_of ''a'')] = Some (bytes_of ''a'')" "query_value ''version'' [(bytes_of ''target'', bytes_of ''a'')] = None"
    by (simp_all add: query_value_def bytes_of_inject)
  have b: "forward_slashes (bytes_of ''a'') = demo_name" "ascii (bytes_of ''a'')" "download_name demo_name = bytes_of ''a''" by code_simp+
  have run: "eg_run demo_ext demo_redb demo_view {[7]} (ws_engine ?w)" using e(1) by (simp add: w)
  have bnd': "w_segment_id (ss_writer (eg_segments (ws_engine w1))) < 2 ^ 64" using bnd by (simp add: w1(2))
  from web_upload_download [OF demo_ext_ok demo_fastcdc_ok demo_collision_free demo_redb_ok demo_redb_total run f(1) path(1) demo_not_refused src rdy w1(1) bnd'
      f(4) path(2) demo_not_refused t b(1,2)]
  obtain w2 where "web_request demo_ext demo_redb demo_web ?q' w1 = Some (w2, Reply 200 (DownloadBody (bytes_of ''a'') [7]))"
    by (auto simp: b(3) f(3))
  then show ?thesis using e(1) w1(1) n(2) by auto
qed

end
