(* ===== verification/Oos_Cli.thy ===== *)
theory Oos_Cli
  imports Oos_Store_Open Oos_Engine_Listing Oos_Web_Safe
begin

text \<open>
  The command line (\<^verbatim>\<open>cli/src/main.rs\<close>) and the start of the desktop program (\<^verbatim>\<open>cli/src/gui_main.rs\<close>): which
  store and which password they use, how they open it, and what each command that works on the engine does.
  The text that is printed is represented by the values it shows.
\<close>

section \<open>Arguments\<close>

definition trim_newlines :: "rstring \<Rightarrow> rstring" where
  "trim_newlines s = rev (dropWhile (\<lambda>b. b = 13 \<or> b = 10) (rev s))"

definition default_store :: rstring where
  "default_store = bytes_of ''.oos-store''"

definition below :: "rstring \<Rightarrow> rstring \<Rightarrow> rstring" where
  "below base p = (if base = [] then p else path_join base p)"

text \<open>
  The surroundings of a run: the environment variables that are set to valid text, directories and text
  files, and the environments of the engine's operations.
\<close>

record cli_env =
  ce_var :: "string \<Rightarrow> rstring option"
  ce_is_dir :: "rstring \<Rightarrow> bool"
  ce_is_file :: "rstring \<Rightarrow> bool"
  ce_read_text :: "rstring \<Rightarrow> rstring option"
  ce_now :: u64
  ce_put :: put_env
  ce_source :: "rstring \<Rightarrow> source"
  ce_tmp :: "rstring \<Rightarrow> rstring"
  ce_gc_env :: env
  ce_gc_chunk_env :: "chunk_id \<Rightarrow> env"
  ce_gc_tmp :: rstring
  ce_store_dir :: node

datatype snapshot_command = SnapCreate rstring | SnapList | SnapRestore rstring rstring | SnapDelete rstring

datatype cli_command =
    InitCommand
  | PutCommand rstring "rstring option"
  | GetCommand rstring rstring "u32 option"
  | ListCommand
  | VersionsCommand rstring
  | RollbackCommand rstring u32 "rstring option"
  | RmCommand rstring
  | SnapshotCommand snapshot_command
  | StatsCommand
  | GcCommand
  | FsckCommand
  | PruneCommand nat "rstring option"

record cli_args =
  ca_store_dir :: rstring
  ca_password :: "rstring option"
  ca_password_file :: "rstring option"
  ca_command :: cli_command

text \<open>Paths are compared by their components.\<close>

definition resolve_canonical_store_dir :: "cli_env \<Rightarrow> rstring \<Rightarrow> rstring" where
  "resolve_canonical_store_dir C specified =
     (if components specified \<noteq> components default_store then specified
      else case ce_var C ''OOS_STORE_DIR'' of
             Some (b # v) \<Rightarrow> b # v
           | _ \<Rightarrow>
               if ce_is_dir C default_store then default_store
               else (case ce_var C ''USERPROFILE'' of
                       None \<Rightarrow> default_store
                     | Some profile \<Rightarrow>
                         (let p = below profile default_store in if ce_is_dir C p then p else default_store)))"

text \<open>Outer \<open>None\<close>: the password file cannot be read.\<close>

definition resolve_password :: "cli_env \<Rightarrow> cli_args \<Rightarrow> rstring option option" where
  "resolve_password C a =
     (case ca_password a of
        Some p \<Rightarrow> Some (Some p)
      | None \<Rightarrow>
          (case ca_password_file a of
             Some path \<Rightarrow> (case ce_read_text C path of None \<Rightarrow> None | Some content \<Rightarrow> Some (Some (trim_newlines content)))
           | None \<Rightarrow> Some (ce_var C ''OOS_PASSWORD'')))"

section \<open>Commands\<close>

datatype cli_output =
    InitializedOut bool
  | StoredOut rstring put_summary
  | ExtractedOut u64
  | FilesOut "(rstring \<times> rstring \<times> u32 \<times> u64) list"
  | VersionsOut "(u32 \<times> relative_time \<times> u64 \<times> rstring) list"
  | RolledBackOut u32 u64
  | DeletedOut bool
  | SnapshotOut rstring nat
  | SnapshotsOut "(rstring \<times> relative_time \<times> nat) list"
  | RestoredOut nat
  | StatsOut engine_stats
  | GcOut gc_stats
  | FsckOut fsck_report
  | PrunedOut nat nat

text \<open>How a run ends; every case but the first is an exit status other than zero.\<close>

datatype cli_exit = Finished cli_output | Failed oos_error | Unhealthy fsck_report | PasswordFileUnreadable | NeedsPassword

definition chrono_format :: "u64 \<Rightarrow> u64 \<Rightarrow> relative_time" where
  "chrono_format now ts =
     (let diff = unat now - unat ts
      in if diff < 60 then SecondsAgo diff else if diff < 3600 then MinutesAgo (diff div 60)
         else if diff < 86400 then HoursAgo (diff div 3600) else DaysAgo (diff div 86400))"

definition ends :: "('a \<Rightarrow> cli_output) \<Rightarrow> 'a result \<Rightarrow> cli_exit" where
  "ends f r = (case r of Inl err \<Rightarrow> Failed err | Inr x \<Rightarrow> Finished (f x))"

type_synonym 'db cli_state = "'db engine \<times> dir"

text \<open>Commands that only read, that change the engine, and that write files.\<close>

definition cli_query :: "('db engine \<Rightarrow> 'a result) \<Rightarrow> ('a \<Rightarrow> cli_output) \<Rightarrow> 'db cli_state \<Rightarrow> 'db cli_state \<times> cli_exit" where
  "cli_query f out st = (st, ends out (f (fst st)))"

definition cli_change :: "('db engine, 'a) sm \<Rightarrow> ('a \<Rightarrow> cli_output) \<Rightarrow> 'db cli_state \<Rightarrow> 'db cli_state \<times> cli_exit" where
  "cli_change f out st = (case f (fst st) of (e', r) \<Rightarrow> ((e', snd st), ends out r))"

definition cli_write :: "('db engine \<Rightarrow> (dir, 'a) sm) \<Rightarrow> ('a \<Rightarrow> cli_output) \<Rightarrow> 'db cli_state \<Rightarrow> 'db cli_state \<times> cli_exit" where
  "cli_write f out st = (case f (fst st) (snd st) of (d', r) \<Rightarrow> ((fst st, d'), ends out r))"

definition put_logical_name :: "rstring \<Rightarrow> rstring option \<Rightarrow> rstring" where
  "put_logical_name path name = (case name of Some n \<Rightarrow> n | None \<Rightarrow> put_name (components path))"

definition cli_put :: "ext \<Rightarrow> 'db redb \<Rightarrow> cli_env \<Rightarrow> rstring \<Rightarrow> rstring option \<Rightarrow> 'db cli_state \<Rightarrow> ('db cli_state \<times> cli_exit) option" where
  "cli_put X R C path name st =
     (let logical_name = put_logical_name path name
      in map_option (\<lambda>(e', r). ((e', snd st), ends (StoredOut logical_name) r))
           (put_file_named X R (ce_put C) logical_name (ce_source C path) (fst st)))"

definition cli_list :: "'db redb \<Rightarrow> 'db cli_state \<Rightarrow> 'db cli_state \<times> cli_exit" where
  "cli_list R = cli_query (list_files R) (\<lambda>files. FilesOut
     (map (\<lambda>(name, i, r). (name, oid_to_hex i, o_latest_version r, if o_versions r = [] then 0 else v_size_bytes (last (o_versions r)))) files))"

definition cli_versions :: "'db redb \<Rightarrow> cli_env \<Rightarrow> rstring \<Rightarrow> 'db cli_state \<Rightarrow> 'db cli_state \<times> cli_exit" where
  "cli_versions R C target = cli_query (\<lambda>e. get_versions R e target) (\<lambda>vs. VersionsOut
     (map (\<lambda>v. (v_version v, chrono_format (ce_now C) (v_created_at v), v_size_bytes v, v_manifest_id v)) vs))"

text \<open>The new version stays recorded when the old content cannot be written out.\<close>

definition cli_rollback :: "ext \<Rightarrow> 'db redb \<Rightarrow> cli_env \<Rightarrow> rstring \<Rightarrow> u32 \<Rightarrow> rstring option \<Rightarrow> 'db cli_state \<Rightarrow> 'db cli_state \<times> cli_exit" where
  "cli_rollback X R C name version out st =
     (case rollback_file X R (ce_now C) name version (map_option (\<lambda>p. (ce_tmp C p, p)) out) st of
        (st', r) \<Rightarrow> (st', ends (\<lambda>(ver, n). RolledBackOut ver n) r))"

definition cli_fsck :: "ext \<Rightarrow> 'db redb \<Rightarrow> 'db cli_state \<Rightarrow> 'db cli_state \<times> cli_exit" where
  "cli_fsck X R st =
     (st, case eg_fsck X R (fst st) of
            Inl err \<Rightarrow> Failed err
          | Inr rep \<Rightarrow> if fr_is_healthy rep then Finished (FsckOut rep) else Unhealthy rep)"

definition cli_prune :: "'db redb \<Rightarrow> nat \<Rightarrow> rstring option \<Rightarrow> 'db cli_state \<Rightarrow> 'db cli_state \<times> cli_exit" where
  "cli_prune R keep name =
     (case name of
        Some target \<Rightarrow> cli_change (prune_file_versions R target keep) (\<lambda>n. PrunedOut n keep)
      | None \<Rightarrow> cli_change (prune_all R keep) (\<lambda>n. PrunedOut n keep))"

fun cli_snapshot :: "ext \<Rightarrow> 'db redb \<Rightarrow> cli_env \<Rightarrow> snapshot_command \<Rightarrow> 'db cli_state \<Rightarrow> 'db cli_state \<times> cli_exit" where
  "cli_snapshot X R C (SnapCreate label) =
     cli_change (create_snapshot X R (ce_now C) label) (\<lambda>s. SnapshotOut (s_label s) (length (s_entries s)))"
| "cli_snapshot X R C SnapList =
     cli_query (eg_list_snapshots X R)
       (\<lambda>ss. SnapshotsOut (map (\<lambda>s. (s_label s, chrono_format (ce_now C) (s_created_at s), length (s_entries s))) ss))"
| "cli_snapshot X R C (SnapRestore label dir) = cli_write (\<lambda>e. restore_snapshot X R e label dir (ce_tmp C)) RestoredOut"
| "cli_snapshot X R C (SnapDelete label) = cli_change (eg_delete_snapshot R label) DeletedOut"

text \<open>\<open>None\<close> when the chunk loop of a put does not end.  \<open>InitCommand\<close> is dealt with before.\<close>

fun run_command :: "ext \<Rightarrow> 'db redb \<Rightarrow> cli_env \<Rightarrow> cli_command \<Rightarrow> 'db cli_state \<Rightarrow> ('db cli_state \<times> cli_exit) option" where
  "run_command X R C (PutCommand path name) st = cli_put X R C path name st"
| "run_command X R C (GetCommand target out version) st =
     Some (cli_write (\<lambda>e. get_file_version X R e target version (ce_tmp C out) out) ExtractedOut st)"
| "run_command X R C ListCommand st = Some (cli_list R st)"
| "run_command X R C (VersionsCommand target) st = Some (cli_versions R C target st)"
| "run_command X R C (RollbackCommand name version out) st = Some (cli_rollback X R C name version out st)"
| "run_command X R C (RmCommand name) st = Some (cli_change (delete_file R name) DeletedOut st)"
| "run_command X R C (SnapshotCommand action) st = Some (cli_snapshot X R C action st)"
| "run_command X R C StatsCommand st = Some (st, Finished (StatsOut (eg_stats R (ce_store_dir C) (fst st))))"
| "run_command X R C GcCommand st = Some (cli_change (eg_gc X R (ce_gc_env C) (ce_gc_chunk_env C) (ce_gc_tmp C)) GcOut st)"
| "run_command X R C FsckCommand st = Some (cli_fsck X R st)"
| "run_command X R C (PruneCommand keep name) st = Some (cli_prune R keep name st)"
| "run_command X R C InitCommand st = Some (st, Finished (InitializedOut (is_encrypted (fst st))))"

section \<open>A run\<close>

text \<open>The disks opening leaves, and the end: the engine when it was opened, the other files, the exit.\<close>

definition cli_open :: "'db open_env \<Rightarrow> vault_random \<Rightarrow> rstring option \<Rightarrow> root_disk \<Rightarrow> root_disk list \<times> 'db engine result" where
  "cli_open N rnd password d = (case password of Some p \<Rightarrow> store_open_with_password N rnd p d | None \<Rightarrow> store_open N d)"

definition cli_init :: "'db open_env \<Rightarrow> vault_random \<Rightarrow> rstring option \<Rightarrow> root_disk \<Rightarrow> root_disk list \<times> 'db engine result" where
  "cli_init N rnd password d = (case password of Some p \<Rightarrow> store_init_encrypted N rnd p d | None \<Rightarrow> store_open N d)"

definition cli_main :: "(rstring \<Rightarrow> 'db open_env) \<Rightarrow> vault_random \<Rightarrow> cli_env \<Rightarrow> cli_args \<Rightarrow> (rstring \<Rightarrow> root_disk) \<Rightarrow> dir
    \<Rightarrow> root_disk list \<times> ('db engine option \<times> dir \<times> cli_exit) option" where
  "cli_main N rnd C a roots files =
     (let store = resolve_canonical_store_dir C (ca_store_dir a); d = roots store
      in case resolve_password C a of
           None \<Rightarrow> ([], Some (None, files, PasswordFileUnreadable))
         | Some password \<Rightarrow>
             if ca_command a = InitCommand
             then (case cli_init (N store) rnd password d of
                     (ds, Inl err) \<Rightarrow> (ds, Some (None, files, Failed err))
                   | (ds, Inr e) \<Rightarrow> (ds, Some (Some e, files, Finished (InitializedOut (password \<noteq> None)))))
             else (case cli_open (N store) rnd password d of
                     (ds, Inl err) \<Rightarrow>
                       (ds, Some (None, files, if password = None \<and> err = PasswordRequired then NeedsPassword else Failed err))
                   | (ds, Inr e) \<Rightarrow>
                       (ds, map_option (\<lambda>((e', files'), x). (Some e', files', x))
                              (run_command (oe_ext (N store)) (mi_redb (oe_mig (N store))) C (ca_command a) (e, files)))))"

section \<open>The desktop program\<close>

text \<open>The argument after the first of the given options that has one.\<close>

fun option_value :: "rstring list \<Rightarrow> rstring list \<Rightarrow> rstring option" where
  "option_value keys (a # b # args) = (if a \<in> set keys then Some b else option_value keys (b # args))"
| "option_value keys args = None"

definition gui_resolve_store_dir :: "cli_env \<Rightarrow> rstring list \<Rightarrow> rstring" where
  "gui_resolve_store_dir C args =
     (case option_value [bytes_of ''--store'', bytes_of ''-s''] args of
        Some p \<Rightarrow> p
      | None \<Rightarrow>
          (case ce_var C ''OOS_STORE_DIR'' of
             Some (b # v) \<Rightarrow> b # v
           | _ \<Rightarrow>
               if ce_is_dir C default_store then default_store
               else (case ce_var C ''USERPROFILE'' of
                       Some profile \<Rightarrow> below profile default_store
                     | None \<Rightarrow>
                         (case ce_var C ''HOME'' of
                            Some home \<Rightarrow> below home default_store
                          | None \<Rightarrow> default_store))))"

text \<open>A password file that cannot be read is passed over, unlike on the command line.\<close>

fun password_args :: "(rstring \<Rightarrow> rstring option) \<Rightarrow> rstring list \<Rightarrow> rstring option" where
  "password_args read_text (a # b # args) =
     (if a = bytes_of ''--password'' then Some b
      else case (if a = bytes_of ''--password-file'' then read_text b else None) of
             Some content \<Rightarrow> Some (trim_newlines content)
           | None \<Rightarrow> password_args read_text (b # args))"
| "password_args read_text args = None"

definition password_from_file :: "cli_env \<Rightarrow> rstring \<Rightarrow> rstring option" where
  "password_from_file C path =
     (if ce_is_file C path
      then (case ce_read_text C path of
              Some content \<Rightarrow> (if trim_newlines content \<noteq> [] then Some (trim_newlines content) else None)
            | None \<Rightarrow> None)
      else None)"

definition gui_resolve_password :: "cli_env \<Rightarrow> rstring list \<Rightarrow> rstring \<Rightarrow> rstring option" where
  "gui_resolve_password C args store_dir =
     (case password_args (ce_read_text C) args of
        Some p \<Rightarrow> Some p
      | None \<Rightarrow>
          (case ce_var C ''OOS_PASSWORD'' of
             Some (b # p) \<Rightarrow> Some (b # p)
           | _ \<Rightarrow>
               (case Option.bind (ce_var C ''LOCALAPPDATA'')
                       (\<lambda>l. password_from_file C (below (below l (bytes_of ''oos-lite'')) (bytes_of ''vault.pass''))) of
                  Some p \<Rightarrow> Some p
                | None \<Rightarrow> password_from_file C (below store_dir (bytes_of ''vault.pass'')))))"

text \<open>
  Whether the directory of the store has entries; \<open>others\<close> tells of those that are not in the record, like
  the lock file that every attempt to open a store leaves and a password file.
\<close>

definition root_nonempty :: "bool \<Rightarrow> root_disk \<Rightarrow> bool" where
  "root_nonempty others d \<longleftrightarrow> rt_exists d \<and>
     (others \<or> rt_vault d \<noteq> None \<or> rt_tmp d \<noteq> [] \<or> rt_segments d \<noteq> None \<or> md_input (rt_meta d) \<noteq> None
      \<or> md_side (rt_meta d) \<noteq> [] \<or> wd_log (rt_wal d) \<noteq> [] \<or> wd_meta (rt_wal d) \<noteq> None)"

text \<open>The directory is created first; that this fails is ignored.\<close>

definition gui_open :: "'db open_env \<Rightarrow> vault_random \<Rightarrow> bool \<Rightarrow> bool \<Rightarrow> rstring option \<Rightarrow> root_disk \<Rightarrow> root_disk list \<times> 'db engine result" where
  "gui_open N rnd creates others password d0 =
     (let d = (if creates then d0\<lparr>rt_exists := True\<rparr> else d0)
      in case password of
           None \<Rightarrow> store_open N d
         | Some pwd \<Rightarrow>
             if rt_vault d \<noteq> None then store_open_with_password N rnd pwd d
             else if root_nonempty others d then store_open N d
             else store_open_with_password N rnd pwd d)"

datatype gui_start = Focused bool | Alerted oos_error | Started

text \<open>A server that already answers on the port is left alone.\<close>

definition gui_main :: "(rstring \<Rightarrow> 'db open_env) \<Rightarrow> vault_random \<Rightarrow> bool \<Rightarrow> bool \<Rightarrow> bool \<Rightarrow> cli_env \<Rightarrow> rstring list \<Rightarrow> (rstring \<Rightarrow> root_disk)
    \<Rightarrow> root_disk list \<times> 'db engine option \<times> gui_start" where
  "gui_main N rnd creates others running C args roots =
     (let store_dir = gui_resolve_store_dir C args;
          password = gui_resolve_password C args store_dir
      in if running then ([], None, Focused (bytes_of ''--no-open'' \<notin> set args))
         else (case gui_open (N store_dir) rnd creates others password (roots store_dir) of
                 (ds, Inl err) \<Rightarrow> (ds, None, Alerted err)
               | (ds, Inr e) \<Rightarrow> (ds, Some e, Started)))"

section \<open>What commands do to the store\<close>

text \<open>What a command needs of its surroundings and of the room left in the store.\<close>

definition command_ready :: "ext \<Rightarrow> 'db redb \<Rightarrow> 'db view \<Rightarrow> bytes set \<Rightarrow> cli_env \<Rightarrow> cli_command \<Rightarrow> 'db engine \<Rightarrow> 'db engine \<Rightarrow> bool" where
  "command_ready X R V U C cmd e e' \<longleftrightarrow>
     (case cmd of
        PutCommand path name \<Rightarrow> source_ok X U (ce_source C path) \<and> put_ready V (ce_put C) (trim (put_logical_name path name)) e
          \<and> w_segment_id (ss_writer (eg_segments e')) < 2 ^ 64
      | RollbackCommand name version out \<Rightarrow> room (V (eg_db e)) 1
      | SnapshotCommand (SnapCreate label) \<Rightarrow>
          (\<forall>objs. list_named_objects R (eg_db e) = Inr objs \<longrightarrow> wf_snapshot (snapshot_new (ce_now C) (trim label) (snapshot_entries objs)))
      | GcCommand \<Rightarrow> (\<forall>c. env_ok (ce_gc_chunk_env C c)) \<and> w_segment_id (ss_writer (eg_segments e')) < 2 ^ 64
      | _ \<Rightarrow> True)"

definition reads_only :: "cli_command \<Rightarrow> bool" where
  "reads_only cmd \<longleftrightarrow>
     (case cmd of
        GetCommand _ _ _ \<Rightarrow> True | ListCommand \<Rightarrow> True | VersionsCommand _ \<Rightarrow> True | StatsCommand \<Rightarrow> True | FsckCommand \<Rightarrow> True
      | SnapshotCommand SnapList \<Rightarrow> True | SnapshotCommand (SnapRestore _ _) \<Rightarrow> True | _ \<Rightarrow> False)"

definition writes_out :: "cli_command \<Rightarrow> bool" where
  "writes_out cmd \<longleftrightarrow>
     (case cmd of
        GetCommand _ _ _ \<Rightarrow> True | RollbackCommand _ _ (Some _) \<Rightarrow> True | SnapshotCommand (SnapRestore _ _) \<Rightarrow> True | _ \<Rightarrow> False)"

named_theorems cli_defs \<open>the definitions of the commands\<close>

lemmas [cli_defs] = cli_put_def cli_list_def cli_versions_def cli_rollback_def cli_fsck_def cli_prune_def cli_query_def cli_change_def cli_write_def

lemma run_command_reads: "run_command X R C cmd (e, d) = Some ((e', d'), x) \<Longrightarrow> reads_only cmd \<Longrightarrow> e' = e"
  by (cases cmd rule: cli_command.exhaust) (auto simp: reads_only_def cli_defs split: prod.splits snapshot_command.splits)

lemma rollback_no_file: "rollback_file X R now n v None (e, d) = ((e', d'), r) \<Longrightarrow> d' = d"
  by (auto simp: rollback_file_def Let_def split: prod.splits sum.splits)

lemma run_command_files: "run_command X R C cmd (e, d) = Some ((e', d'), x) \<Longrightarrow> \<not> writes_out cmd \<Longrightarrow> d' = d"
  by (cases cmd rule: cli_command.exhaust)
    (auto simp: writes_out_def cli_defs Let_def dest: rollback_no_file split: prod.splits snapshot_command.splits option.splits)

lemma run_command_run:
  assumes e: "eg_run X R V U e" and run: "run_command X R C cmd (e, d) = Some ((e', d'), x)" and ready: "command_ready X R V U C cmd e e'"
  shows "eg_run X R V U e'"
proof (cases cmd)
  case (PutCommand path name)
  then show ?thesis using run ready eg_put [OF e] by (auto simp: cli_defs command_ready_def Let_def)
next
  case (RollbackCommand name version out)
  then show ?thesis using run ready eg_rollback [OF e] by (auto simp: cli_defs command_ready_def split: prod.splits)
next
  case (RmCommand name)
  then show ?thesis using run eg_delete [OF e] by (auto simp: cli_defs split: prod.splits)
next
  case GcCommand
  obtain r where "eg_gc X R (ce_gc_env C) (ce_gc_chunk_env C) (ce_gc_tmp C) e = (e', r)"
    using run GcCommand by (auto simp: cli_defs split: prod.splits)
  moreover have "w_segment_id (ss_writer (eg_segments e')) < 2 ^ 64" "env_ok (ce_gc_chunk_env C c)" for c
    using ready GcCommand by (simp_all add: command_ready_def)
  ultimately show ?thesis by (intro eg_collect [OF e])
next
  case (PruneCommand keep name)
  then show ?thesis using run eg_prune [OF e] eg_prune_all [OF e] by (auto simp: cli_defs split: prod.splits option.splits)
next
  case (SnapshotCommand action)
  then show ?thesis
  proof (cases action)
    case (SnapCreate label)
    obtain r where r: "create_snapshot X R (ce_now C) label e = (e', r)"
      using run SnapshotCommand SnapCreate by (auto simp: cli_defs split: prod.splits)
    show ?thesis by (rule eg_snapshot [OF e _ r]) (use ready SnapshotCommand SnapCreate in \<open>simp add: command_ready_def\<close>)
  next
    case (SnapDelete label)
    then show ?thesis using run SnapshotCommand eg_unsnapshot [OF e] by (auto simp: cli_defs split: prod.splits)
  qed (use run SnapshotCommand e run_command_reads [OF run] in \<open>simp_all add: reads_only_def\<close>)
qed (use run e run_command_reads [OF run] in \<open>simp_all add: reads_only_def\<close>)

text \<open>Commands one after the other on an open store, each in its own environment.\<close>

inductive cli_session ::
    "ext \<Rightarrow> 'db redb \<Rightarrow> 'db view \<Rightarrow> bytes set \<Rightarrow> 'db cli_state \<Rightarrow> (cli_env \<times> cli_command) list \<Rightarrow> 'db cli_state \<Rightarrow> bool" for X R V U where
  session_Nil: "cli_session X R V U st [] st"
| session_Cons: "run_command X R C cmd (e, d) = Some ((e1, d1), x) \<Longrightarrow> command_ready X R V U C cmd e e1
    \<Longrightarrow> cli_session X R V U (e1, d1) cs st \<Longrightarrow> cli_session X R V U (e, d) ((C, cmd) # cs) st"

lemma cli_session_run: "cli_session X R V U st cs st' \<Longrightarrow> eg_run X R V U (fst st) \<Longrightarrow> eg_run X R V U (fst st')"
  by (induction rule: cli_session.induct) (auto dest: run_command_run)

lemma cli_session_reads: "cli_session X R V U st cs st' \<Longrightarrow> list_all (\<lambda>(_, cmd). reads_only cmd) cs \<Longrightarrow> fst st' = fst st"
  by (induction rule: cli_session.induct) (auto dest: run_command_reads)

section \<open>The key of an opened engine\<close>

lemma keeps_key_parts [keeps_intros]:
  "keeps (\<lambda>e. eg_vault_key e = vk) (on_db f)" "keeps (\<lambda>e. eg_vault_key e = vk) (set_db g)"
  "keeps (\<lambda>e. eg_vault_key e = vk) (on_segments h)" "keeps (\<lambda>e. eg_vault_key e = vk) (on_wal k)"
  by (auto simp: keeps_def on_db_def set_db_def on_segments_def on_wal_def bindS_def split: prod.splits sum.splits)

lemma keeps_wal_payload [keeps_intros]:
  "(\<And>put. p = PutObject put \<Longrightarrow> keeps I (f put)) \<Longrightarrow> (\<And>c. p = Checkpoint c \<Longrightarrow> keeps I (g c))
    \<Longrightarrow> keeps I (case p of PutObject put \<Rightarrow> f put | Checkpoint c \<Rightarrow> g c)"
  by (cases p) auto

lemma replay_put_key: "keeps (\<lambda>e. eg_vault_key e = vk) (replay_put X R EV put)"
  unfolding replay_put_def apply_put_def by (rule keeps_intros)+

lemma replay_record_key: "keeps (\<lambda>e. eg_vault_key e = vk) (replay_record X R EV mx r)"
  unfolding replay_record_def by (rule keeps_intros replay_put_key)+

lemma replay_wal_key:
  assumes "replay_wal X R EV e = (e', r)"
  shows "eg_vault_key e' = eg_vault_key e"
proof -
  let ?I = "\<lambda>e'. eg_vault_key e' = eg_vault_key e"
  have f: "keeps ?I (foldS (replay_record X R EV) n rs)" for n rs by (rule keeps_intros replay_record_key)+
  have w: "keeps ?I (on_wal (\<lambda>w. (wal_checkpoint w mx, Inr ())))" for mx by (rule keeps_intros)
  show ?thesis
    using assms by (auto simp: replay_wal_def bindS_def returnS_def split: prod.splits sum.splits if_splits dest: keepsD [OF f] keepsD [OF w])
qed

lemma open_internal_key:
  assumes "open_internal X R E EV sd db wd vk = Inr e"
  shows "eg_vault_key e = vk"
proof -
  obtain s w where r: "(case replay_wal X R EV \<lparr>eg_segments = s, eg_db = db, eg_wal = w, eg_vault_key = vk\<rparr> of
      (e, Inl err) \<Rightarrow> Inl err | (e, Inr _) \<Rightarrow> Inr e) = Inr e"
    using assms unfolding open_internal_def bindE_eq_Inr by blast
  show ?thesis
  proof (cases "replay_wal X R EV \<lparr>eg_segments = s, eg_db = db, eg_wal = w, eg_vault_key = vk\<rparr>")
    case (Pair e1 r1)
    then show ?thesis using r replay_wal_key [OF Pair] by (cases r1) auto
  qed
qed

lemma open_parts_key: "snd (open_parts N vk d) = Inr e \<Longrightarrow> eg_vault_key e = vk"
  by (auto simp: open_parts_def Let_def bindE_eq_Inr split: prod.splits sum.splits dest: open_internal_key)

lemma then_root_Inr: "snd (then_root d m f) = Inr y \<longleftrightarrow> (\<exists>x. snd m = Inr x \<and> snd (f x (final_root d (fst m))) = Inr y)"
  by (cases m) (auto simp: then_root_def split: prod.splits sum.splits)

lemma store_open_key: "snd (store_open N d) = Inr e \<Longrightarrow> \<not> is_encrypted e"
  by (auto simp: store_open_def then_root_Inr is_encrypted_def dest: open_parts_key split: if_splits)

lemma store_open_password_key: "snd (store_open_with_password N rnd p d) = Inr e \<Longrightarrow> is_encrypted e"
  by (auto simp: store_open_with_password_def then_root_Inr is_encrypted_def dest: open_parts_key)

lemma prune_total:
  assumes R: "redb_ok R V" "redb_total R" and h: "histories (V (eg_db e)) (trim n) = Some h"
  shows "\<exists>e' c. prune_file_versions R n k e = (e', Inr c)"
proof -
  obtain i r where i: "object_of (V (eg_db e)) (trim n) = Some i" "record_of (V (eg_db e)) i = Some r"
    using h by (auto simp: histories_def bind_eq_Some_conv)
  have d: "decode_value rec_from_bytes (V (eg_db e) OBJECT_INDEX (oid_bytes i)) = Inr (Some r)"
    using i(2) by (auto simp: record_of_def split: sum.splits)
  obtain db' where "put_object R (eg_db e) (r\<lparr>o_versions := drop (length (o_versions r) - k) (o_versions r)\<rparr>) = Inr db'"
    using write_value_total [OF R(2)] unfolding put_object_def by blast
  then show ?thesis
    using i(1) d by (simp add: prune_file_versions_def bind_ask_db resolve_name_total [OF R] object_of_def get_object_total [OF R] bind_set_db Let_def)
qed

section \<open>Properties\<close>


definition demo_cli :: cli_env where
  "demo_cli = \<lparr>ce_var = (\<lambda>_. None), ce_is_dir = (\<lambda>_. False), ce_is_file = (\<lambda>_. False), ce_read_text = (\<lambda>_. None), ce_now = 0,
     ce_put = demo_penv, ce_source = (\<lambda>_. demo_source), ce_tmp = (\<lambda>p. 1 # p), ce_gc_env = demo_env, ce_gc_chunk_env = (\<lambda>_. demo_env),
     ce_gc_tmp = [], ce_store_dir = DirNode []\<rparr>"

text \<open>A file is put under the example name and removed names are removed again.\<close>

lemma demo_put_session:
  "\<exists>e e' vs. eg_run demo_ext demo_redb demo_view {[7]} e \<and> get_versions demo_redb e' demo_name = Inr vs \<and> vs \<noteq> []
     \<and> cli_session demo_ext demo_redb demo_view {[7]} (e, []) [(demo_cli, PutCommand [120] (Some demo_name)), (demo_cli, ListCommand)] (e', [])"
proof -
  obtain e where e: "eg_run demo_ext demo_redb demo_view {[7]} e" "eg_vault_key e = None" "eg_db e = demo_empty"
    "put_ready demo_view demo_penv demo_name e" "target_free demo_redb demo_view demo_penv demo_name (eg_db e)"
    "name_resolves demo_view demo_name (eg_db e)" "w_segment_id (ss_writer (eg_segments e)) = 1"
    using demo_engine [of demo_redb] by blast
  obtain e' ps where p: "put_file_named demo_ext demo_redb demo_penv demo_name demo_source e = Some (e', Inr ps)"
    "w_segment_id (ss_writer (eg_segments e')) < 2 ^ 64"
    using demo_put [OF e(1,2,5,6)] e(7) by auto
  have ready: "put_ready demo_view demo_penv (trim demo_name) e" "target_free demo_redb demo_view demo_penv (trim demo_name) (eg_db e)"
    using e(4,5) by (simp_all add: demo_name_ok)
  have act: "trace (eg_act demo_ext demo_redb demo_view {[7]}) e [Stored demo_name (ps_version ps, ps_manifest_id ps)] e'"
    using act_put [OF demo_source_ok ready p] by (auto simp: demo_name_ok intro: trace.intros)
  have "refine_inv demo_ext demo_redb demo_view {[7]} e"
    using eg_run_inv [OF e(1) demo_redb_ok demo_ext_ok demo_collision_free demo_fastcdc_ok] demo_redb_ok demo_fastcdc_ok
      e(3) demo_no_names by (simp add: refine_inv_def)
  note sim = engine.trace_sim [OF act this]
  have "trace spec_step Map.empty [Stored demo_name (ps_version ps, ps_manifest_id ps)] (histories (demo_view (eg_db e')))"
    using sim e(3) by (simp add: demo_no_names)
  then have h: "histories (demo_view (eg_db e')) (trim demo_name) = Some [(ps_version ps, ps_manifest_id ps)]"
    by (auto elim!: trace.cases spec_step.cases simp: past_def demo_name_ok)
  obtain vs where vs: "get_versions demo_redb e' demo_name = Inr vs" "vs \<noteq> []"
    using get_versions_history [OF demo_redb_ok demo_redb_total, of e' demo_name] h by fastforce
  have "cli_session demo_ext demo_redb demo_view {[7]} (e', []) [(demo_cli, ListCommand)] (e', [])"
    by (rule session_Cons [OF _ _ session_Nil]) (simp_all add: command_ready_def cli_list_def cli_query_def)
  moreover have "run_command demo_ext demo_redb demo_cli (PutCommand [120] (Some demo_name)) (e, []) = Some ((e', []), Finished (StoredOut demo_name ps))"
    using p(1) by (simp add: cli_put_def put_logical_name_def demo_cli_def ends_def)
  moreover have "command_ready demo_ext demo_redb demo_view {[7]} demo_cli (PutCommand [120] (Some demo_name)) e e'"
    using ready(1) p(2) demo_source_ok by (simp add: put_logical_name_def demo_cli_def command_ready_def)
  ultimately have "cli_session demo_ext demo_redb demo_view {[7]} (e, []) [(demo_cli, PutCommand [120] (Some demo_name)), (demo_cli, ListCommand)] (e', [])"
    using session_Cons by blast
  then show ?thesis using e(1) vs by blast
qed


text \<open>
  C26. Pruning to zero versions.  On the command line, \<^verbatim>\<open>prune --keep 0\<close> leaves a name bound to an empty
  history: every version is gone although the name is still listed.  The web server, asked for the same,
  keeps the newest version.
\<close>

theorem prune_zero_empties_history:
  assumes "ext_ok X" "fastcdc_ok X" "collision_free X U" "redb_ok R V" "redb_total R" "eg_run X R V U e" "names_ok (V (eg_db e))"
    and "histories (V (eg_db e)) (trim n) = Some h" "h \<noteq> []"
    and "run_command X R C (PruneCommand 0 (Some n)) (e, d) = Some ((e1, d1), Finished res)"
    and "wj_prune (we_json W) (rq_body q) = Some (Some 0, Some n)" "ws_engine w = e" "prune R W q w = Some (w2, Reply 200 b)"
  shows "res = PrunedOut (length h) 0 \<and> run_command X R C (VersionsCommand n) (e1, d1) = Some ((e1, d1), Finished (VersionsOut []))
    \<and> histories (V (eg_db (ws_engine w2))) (trim n) = Some [last h]"
proof -
  have keys: "keys_ok (V (eg_db e))" using eng_inv_keys [OF eg_run_inv [OF assms(6,4,1,3,2)]] .
  have pruned: "histories (V (eg_db e')) (trim n) = Some (drop (length h - k) h) \<and> c = length h - k"
    if "prune_file_versions R n k e = (e', Inr c)" for e' k c
    using prune_histories(2) [OF assms(4,7) keys that] assms(8) by (auto elim: spec_step.cases)
  obtain c where c: "prune_file_versions R n 0 e = (e1, Inr c)" "res = PrunedOut c 0" "d1 = d"
    using assms(10) by (auto simp: cli_defs ends_def split: prod.splits sum.splits)
  have "run_command X R C (VersionsCommand n) (e1, d1) = Some ((e1, d1), Finished (VersionsOut []))"
    using get_versions_history [OF assms(4,5), of e1 n] pruned [OF c(1)] by (auto simp: cli_defs ends_def)
  moreover obtain c' where c': "prune_file_versions R n 1 e = (ws_engine w2, Inr c')"
    using assms(11-13) by (auto simp: prune_def engine_call_def error_response_def json_response_def split: prod.splits sum.splits)
  moreover have "drop (length h - 1) h = [last h]" using assms(9) by (cases h rule: rev_cases) auto
  ultimately show ?thesis using pruned [OF c(1)] pruned [OF c'] c(2) by simp
qed

theorem prune_zero_empties_history_witness:
  "\<exists>(e :: demo_db engine) vm e1 (w2 :: demo_db web_state). histories (demo_view (eg_db e)) demo_name = Some [vm]
     \<and> run_command demo_ext demo_redb demo_cli (PruneCommand 0 (Some demo_name)) (e, []) = Some ((e1, []), Finished (PrunedOut 1 0))
     \<and> run_command demo_ext demo_redb demo_cli (VersionsCommand demo_name) (e1, []) = Some ((e1, []), Finished (VersionsOut []))
     \<and> histories (demo_view (eg_db (ws_engine w2))) demo_name = Some [vm]"
proof -
  obtain e vm where e: "eg_run demo_ext demo_redb demo_view {[7]} e" "histories (demo_view (eg_db e)) = [demo_name \<mapsto> [vm]]"
    "names_ok (demo_view (eg_db e))" using demo_stored by blast
  have h: "histories (demo_view (eg_db e)) (trim demo_name) = Some [vm]" using e(2) by (simp add: demo_name_ok)
  note total = prune_total [OF demo_redb_ok demo_redb_total, of e demo_name "[vm]"]
  obtain e1 c where c: "prune_file_versions demo_redb demo_name 0 e = (e1, Inr c)" using total [of 0] h by blast
  obtain e2 c2 where c2: "prune_file_versions demo_redb demo_name 1 e = (e2, Inr c2)" using total [of 1] h by blast
  let ?W = "demo_web\<lparr>we_json := demo_web_json\<lparr>wj_prune := \<lambda>_. Some (Some 0, Some demo_name)\<rparr>\<rparr>" and ?q = "demo_request ''POST'' ''/api/prune'' []"
  have p: "run_command demo_ext demo_redb demo_cli (PruneCommand 0 (Some demo_name)) (e, []) = Some ((e1, []), Finished (PrunedOut c 0))"
    using c by (simp add: cli_defs ends_def)
  have j: "wj_prune (we_json ?W) (rq_body ?q) = Some (Some 0, Some demo_name)" by simp
  have w: "ws_engine (demo_web_state e) = e" by (simp add: demo_web_state_def)
  have "prune demo_redb ?W ?q (demo_web_state e) = Some ((demo_web_state e)\<lparr>ws_engine := e2\<rparr>, Reply 200 (PrunedBody c2 1))"
    using c2 by (simp add: prune_def engine_call_def w json_response_def)
  from prune_zero_empties_history [OF demo_ext_ok demo_fastcdc_ok demo_collision_free demo_redb_ok demo_redb_total e(1,3) h _ p j w this]
  have "c = 1" "run_command demo_ext demo_redb demo_cli (VersionsCommand demo_name) (e1, []) = Some ((e1, []), Finished (VersionsOut []))"
    "histories (demo_view (eg_db (ws_engine ((demo_web_state e)\<lparr>ws_engine := e2\<rparr>)))) demo_name = Some [vm]" by (simp_all add: demo_name_ok)
  note r = this
  show ?thesis
    by (rule exI [of _ e], rule exI [of _ vm], rule exI [of _ e1], rule exI [of _ "(demo_web_state e)\<lparr>ws_engine := e2\<rparr>"])
      (use r h [unfolded demo_name_ok] p in \<open>simp del: run_command.simps\<close>)
qed

text \<open>
  C25. The desktop program gives up encryption.  It decides from the entries of the store directory: when
  there is no key file but any other entry, be it the lock file that an earlier attempt left before the key
  file was complete, or the password file that it reads itself, it ignores the password and opens the
  store without encryption, while the command line with the same password opens the same directory
  encrypted or refuses.
\<close>

theorem gui_gives_up_encryption:
  assumes "rt_exists d" "rt_vault d = None" "root_nonempty others d"
    and "snd (gui_open N rnd creates others (Some password) d) = Inr e"
  shows "\<not> is_encrypted e \<and> (case snd (cli_open N rnd (Some password) d) of Inl err \<Rightarrow> True | Inr e' \<Rightarrow> is_encrypted e')"
proof -
  have d: "(if creates then d\<lparr>rt_exists := True\<rparr> else d) = d" using assms(1) by simp
  have "snd (store_open N d) = Inr e" using assms(2-4) by (simp add: gui_open_def Let_def d)
  then show ?thesis using store_open_password_key [of N rnd password d] store_open_key by (auto simp: cli_open_def split: sum.splits)
qed

text \<open>An empty directory opens, whatever the database library makes of the new database.\<close>

lemma open_empty_root:
  "\<exists>M. \<exists>e :: demo_db engine. snd (store_open (demo_open\<lparr>oe_mig := M\<rparr>) (empty_root\<lparr>rt_exists := True\<rparr>)) = Inr e"
proof -
  obtain db1 where i: "initialize_database demo_redb demo_empty None = Inr db1" using initialize_total [OF demo_redb_total] by blast
  let ?M = "demo_mig\<lparr>mi_open := \<lambda>_. Inr db1\<rparr>" and ?m = "rt_meta empty_root"
  have m: "mi_redb ?M = demo_redb" "mi_create ?M = Inr demo_empty" "\<not> mi_locked ?M" by (simp_all add: demo_mig_def)
  have "demo_view demo_empty = (\<lambda>_ _. None)" by (simp add: demo_view_def demo_empty_def fun_eq_iff)
  then have E: "migration_env ?M demo_view None [] None db1"
    using i m by (auto simp: migration_env_def demo_redb_ok demo_redb_total legacy_trees_def)
  have "resumable (mi_file ?M db1) None [] ?m"
    by (simp add: resumable_def layout_ok_def unmarked_def empty_root_def legacy_part_def entries_def conf_ok_def name_eqs node_at.simps)
  from runs_migration_open [OF E this] obtain ds where ds: "migration_open ?M ?m = (ds, Inr db1)"
    by (cases "migration_open ?M ?m") (auto simp: runs_def)
  obtain s sh where s: "ss_open demo_ext demo_env \<lparr>sd_files = [], sd_dirs = []\<rparr> 0 None = Inr s"
    using ss_open_new [of "\<lparr>sd_files = [], sd_dirs = []\<rparr>" demo_ext demo_env 0 None] by auto
  obtain e where "open_internal demo_ext demo_redb demo_env (\<lambda>_. demo_env) \<lparr>sd_files = [], sd_dirs = []\<rparr> db1 \<lparr>wd_log = [], wd_meta = None\<rparr> None = Inr e"
    using open_new [of demo_ext demo_redb demo_env "\<lambda>_. demo_env" "[]" db1 None] by auto
  then have "snd (store_open (demo_open\<lparr>oe_mig := ?M\<rparr>) (empty_root\<lparr>rt_exists := True\<rparr>)) = Inr e"
    using s ds m by (simp add: store_open_def then_root_def acquire_store_lock_def demo_open_def open_parts_def empty_root_def)
  then show ?thesis by blast
qed

theorem gui_gives_up_encryption_witness:
  "\<exists>d M. \<exists>e :: demo_db engine. d \<in> set (fst (gui_open (demo_open\<lparr>oe_mig := M\<rparr>) demo_random True False (Some (replicate 8 65)) empty_root))
     \<and> rt_vault d = None \<and> snd (gui_open (demo_open\<lparr>oe_mig := M\<rparr>) demo_random True True (Some (replicate 8 65)) d) = Inr e \<and> \<not> is_encrypted e"
proof -
  let ?d = "empty_root\<lparr>rt_exists := True\<rparr>" and ?p = "replicate 8 65 :: rstring"
  obtain M and e :: "demo_db engine" where e: "snd (store_open (demo_open\<lparr>oe_mig := M\<rparr>) ?d) = Inr e" using open_empty_root by blast
  have d: "rt_exists ?d" "rt_vault ?d = None" "root_nonempty True ?d" "\<not> root_nonempty False ?d"
    by (simp_all add: root_nonempty_def empty_root_def)
  have g: "snd (gui_open (demo_open\<lparr>oe_mig := M\<rparr>) demo_random True True (Some ?p) ?d) = Inr e"
    using d(2,3) e by (simp add: gui_open_def Let_def)
  have "?d \<in> set (fst (gui_open (demo_open\<lparr>oe_mig := M\<rparr>) demo_random True False (Some ?p) empty_root))"
    using d(2,4) by (simp add: gui_open_def Let_def store_open_with_password_def then_root_disks acquire_store_lock_def)
  then show ?thesis using gui_gives_up_encryption [OF d(1-3) g] d(2) g by blast
qed

end
