(* ===== verification/Spec2Isabelle.thy ===== *)
theory Spec2Isabelle
  imports Oos_Engine_Lost Oos_Chunk_Store Oos_Fsck Oos_Watcher_Scan Oos_Store_Open Oos_Webdav Oos_Fuse Oos_Cli
begin

text \<open>
  A model of oos-lite, a local content-addressed, versioned object store (Rust, \<^verbatim>\<open>src/core\<close> and
  \<^verbatim>\<open>src/cli\<close>), and the theorems that make it correct.

  \<^bold>\<open>The program.\<close>  A file is cut into content-defined chunks (\<^verbatim>\<open>chunk/cdc.rs\<close>); each chunk is compressed,
  optionally encrypted and appended to a log of segment files (\<^verbatim>\<open>segment/\<close>), found again through an
  in-memory index that is rebuilt when the store opens.  A manifest lists the chunks of one version
  (\<^verbatim>\<open>manifest/\<close>), an object record the versions of one name (\<^verbatim>\<open>object/\<close>), a snapshot a set of names with
  their versions (\<^verbatim>\<open>snapshot/\<close>); all three live in tables of an embedded key-value store
  (\<^verbatim>\<open>index/mod.rs\<close>).  A put is first written to a redo log (\<^verbatim>\<open>wal/\<close>) and replayed when the store opens.
  Garbage collection (\<^verbatim>\<open>gc/\<close>) marks what versions and snapshots reach and compacts the segments to it.
  The engine (\<^verbatim>\<open>engine.rs\<close>) composes these parts, a consistency check (\<^verbatim>\<open>fsck/\<close>) reads them all, and an
  older metadata database is migrated when it is found (\<^verbatim>\<open>index/migration.rs\<close>).  Around the engine, a
  watcher (\<^verbatim>\<open>watcher/\<close>) stores what changes in a directory, a read-only tree (\<^verbatim>\<open>vfs/\<close>) is mounted through
  FUSE or WebDAV (\<^verbatim>\<open>cli/src/mount/\<close>), a local web server drives the desktop window (\<^verbatim>\<open>cli/src/ui/server.rs\<close>)
  and a public one hands out shared files (\<^verbatim>\<open>cli/src/share.rs\<close>).

  \<^bold>\<open>The theories.\<close>
  \<^item> \<open>Oos_Prelude\<close>: machine integers, byte strings, the error type of \<^verbatim>\<open>error.rs\<close>, the result type and its
    \<open>bindE\<close>, little-endian fields and slices, the record \<open>ext\<close> of library functions with their laws
    \<open>ext_ok\<close>, and a concrete instance \<open>demo_ext\<close> for closed examples; \<open>Oos_Text\<close>: UTF-8, hexadecimal and
    decimal text; \<open>Oos_State\<close>: state-passing computations that may fail; \<open>Oos_Fs\<close>: a directory.
  \<^item> \<open>Oos_Ids\<close>, \<open>Oos_Object\<close>, \<open>Oos_Manifest\<close>, \<open>Oos_Snapshot\<close>: \<^verbatim>\<open>chunk/id.rs\<close>, \<^verbatim>\<open>object/\<close>, \<^verbatim>\<open>manifest/\<close>,
    \<^verbatim>\<open>snapshot/\<close>; the codecs are shown to be inverse exactly on well-formed values.
  \<^item> \<open>Oos_Crypto\<close>: \<^verbatim>\<open>crypto/vault.rs\<close>; creating and unlocking a vault are inverse.
  \<^item> \<open>Oos_Segment_Format\<close>, \<open>Oos_Segment_Index\<close>, \<open>Oos_Segment_Store\<close>, \<open>Oos_Segment_Put\<close>,
    \<open>Oos_Segment_Recovery\<close>, \<open>Oos_Segment_Log\<close>, \<open>Oos_Segment_Compact\<close>, \<open>Oos_Segment_Life\<close>: \<^verbatim>\<open>segment/\<close>.
    A store is a log of sealed records; \<open>seg_run\<close> is the relation of all stores reachable by puts,
    compactions, restarts and crashes, and every such store opens again with its chunks.
  \<^item> \<open>Oos_Chunk_Interface\<close>: the locale \<open>chunk_store\<close> of a content-addressed store, interpreted by the
    segment store and by the one-file-per-chunk store of \<open>Oos_Chunk_Store\<close> (\<^verbatim>\<open>chunk/store.rs\<close>).
  \<^item> \<open>Oos_Caches\<close>: the file-handle cache and the cache of decompressed chunks (\<^verbatim>\<open>vfs/cache.rs\<close>), both
    interpretations of the locale \<open>read_through\<close>.
  \<^item> \<open>Oos_Wal_Format\<close>, \<open>Oos_Wal\<close>: \<^verbatim>\<open>wal/\<close>; \<open>wal_run\<close> relates a log to the records it owes to recovery.
  \<^item> \<open>Oos_Redb\<close>, \<open>Oos_Metadata\<close>: the key-value store as a parameter with its transaction laws, and every
    operation of \<^verbatim>\<open>index/mod.rs\<close>; the locale \<open>record_codec\<close> gives the table laws once for the three
    record types.
  \<^item> \<open>Oos_Chunker\<close>: \<^verbatim>\<open>chunk/cdc.rs\<close>; \<open>Oos_Names\<close>: validation of logical names and restore paths;
    \<open>Oos_Gc\<close>: \<^verbatim>\<open>gc/mod.rs\<close>.
  \<^item> \<open>Oos_Engine\<close>, \<open>Oos_Engine_Ops\<close>: \<^verbatim>\<open>engine.rs\<close>; the state is the record \<open>engine\<close> of segments, redo log,
    database and vault key.  \<open>Oos_Store_Open\<close>: the decision between plain and encrypted stores, the lock,
    the key file, the tables of statistics.
  \<^item> \<open>Oos_Engine_Inv\<close> states the integrity invariant \<open>eng_inv\<close>; \<open>Oos_Engine_Tables\<close>, \<open>Oos_Engine_Safe\<close>,
    \<open>Oos_Engine_Put\<close>, \<open>Oos_Engine_Keeps\<close> and \<open>Oos_Engine_Open\<close> show that every operation keeps it, also when it
    fails, and so does reopening after a crash; \<open>Oos_Engine_Run\<close> collects them in the relation \<open>eg_run\<close> of
    all reachable stores.  \<open>Oos_Engine_Read\<close> derives what reads return, \<open>Oos_Engine_Atomic\<close> the atomicity of
    a put, \<open>Oos_Engine_Total\<close> that puts succeed, \<open>Oos_Engine_Listing\<close> what listings and snapshots hold,
    \<open>Oos_Engine_Lost\<close> a gap between the redo log and the collector.  \<open>Oos_Engine_Refine\<close> gives the abstract
    specification, a map from names to histories with the steps \<open>spec_step\<close>, and the simulation.
    \<open>Oos_Engine_Demo\<close> is the closed example.
  \<^item> \<open>Oos_Fsck\<close>: \<^verbatim>\<open>fsck/mod.rs\<close>; a healthy report is sound and an intact store gets one.
  \<^item> \<open>Oos_Vfs\<close>, \<open>Oos_Vfs_Walk\<close>, \<open>Oos_Vfs_Read\<close>: \<^verbatim>\<open>vfs/tree.rs\<close>; the tree is well formed, paths lead to one
    node at most, and ranges read through any coherent cache are parts of what the engine extracts.
  \<^item> \<open>Oos_Migration\<close>, \<open>Oos_Migration_Safe\<close>: \<^verbatim>\<open>index/migration.rs\<close> as computations that yield every disk
    state they pass through, so that a crash is a prefix of that list.
  \<^item> \<open>Oos_Watcher_Queue\<close>, \<open>Oos_Watcher\<close>, \<open>Oos_Watcher_Safe\<close>, \<open>Oos_Watcher_Scan\<close>: \<^verbatim>\<open>watcher/\<close>; events are
    queued without loss, rounds end, and a scan unbinds only names whose files are gone.
  \<^item> \<open>Oos_Http\<close>: URL decoding, XML escaping, dates and byte ranges; \<open>Oos_Webdav\<close>: \<^verbatim>\<open>mount/webdav.rs\<close>, every
    request; \<open>Oos_Fuse\<close>: \<^verbatim>\<open>mount/fuse.rs\<close>, every operation of the file system.  Both are shown to serve the
    bytes the engine extracts, resting on \<open>Oos_Vfs_Read\<close>.
  \<^item> \<open>Oos_Share\<close>: \<^verbatim>\<open>share.rs\<close>, the shares and the requests of the public server, which reveals nothing but
    shared files; \<open>Oos_Web_Api\<close>: \<^verbatim>\<open>ui/server.rs\<close>, the checks of a request and every endpoint as a handler on
    the state of the program; \<open>Oos_Web_Safe\<close>: only checked POST requests change anything, and an upload is
    downloaded unchanged.
  \<^item> \<open>Oos_Cli\<close>: \<^verbatim>\<open>main.rs\<close> and \<^verbatim>\<open>gui_main.rs\<close>: which store and password are used, how the store is
    opened, and every command that works on the engine; sequences of commands keep the store intact, and two
    gaps are shown.

  \<^bold>\<open>Modelling choices.\<close>  Sizes and offsets are natural numbers where the code checks them against the
  width and words where it wraps.  Clocks, random bytes and process ids are arguments.  BLAKE3, CRC-32,
  zstd, XChaCha20-Poly1305, Argon2, fastcdc and redb are parameters; what is assumed of them are their
  documented laws (\<open>ext_ok\<close>, \<open>fastcdc_ok\<close>, \<open>redb_ok\<close>), and each theorem that assumes them has a closed
  example.  So are the JSON and URL libraries, the walk of a directory, glob patterns and the archive
  writer.  Messages meant for people are constructors or fixed strings.  Paths are those of Unix, and code
  for Windows only is left out.

  \<^bold>\<open>Fuel.\<close>  The chunk loop over an external cutter has fuel one more than the input length, which
  \<open>stream_chunks_total\<close> shows to be enough.  The loop over the watcher's due updates has fuel, and one more
  than the number of due updates is shown to be enough.  A directory is read page by page, and as many
  pages as it has entries, itself and its parent included, are enough.  Other loops are structural or have a measure.

  Disk operations do not fail except in the ways the code distinguishes; crashes are modelled as truncated
  or half-completed states.

  \<^bold>\<open>Not modelled.\<close>  Threads and locks: the locks of the engine and of the servers make their operations
  sequences, and those are what is modelled.  The stream of file-system notifications and pauses of the
  watcher (its events and rounds are modelled), the crash-point hook of the tests, sockets and worker
  threads, the tunnel process of public shares, the HTML templates and the text of sizes, the desktop
  window, tray, shell extension and drive mapping, all of which only call the operating system, the
  argument parser, and the commands that start servers, the watcher or other processes.
\<close>

section \<open>The engine\<close>





text \<open>
  C4. Put, then get: when a put succeeds, reading the name yields exactly the bytes of one of the read
  attempts, one in which the source file did not change, and the reported length is theirs.
\<close>

theorem engine_put_get:
  assumes "ext_ok X" "fastcdc_ok X" "collision_free X U" "redb_ok R V" "redb_total R"
    and "eg_run X R V U e" "source_ok X U src" "put_ready V P (trim name) e" "target_free R V P (trim name) (eg_db e)"
    and "put_file_named X R P name src e = Some (e', Inr ps)" "w_segment_id (ss_writer (eg_segments e')) < 2 ^ 64"
  shows "\<exists>k \<in> {1..MAX_STABLE_READ_ATTEMPTS}. \<exists>cs d'. stream_chunks X (at_blocks (src_attempt src k)) = Some cs
    \<and> stable_attempt (src_attempt src k) cs
    \<and> get_file X R e' name tmp out d = (d', Inr (total_len cs)) \<and> writes_file d tmp out (concat cs) d'"
  by (rule put_then_get [OF assms(4,5) eg_run_inv [OF assms(6,4,1,3,2)] assms(2,7-11)])

theorem engine_put_get_witness:
  "\<exists>e e' ps d'. put_file_named demo_ext demo_redb demo_penv demo_name demo_source e = Some (e', Inr ps)
     \<and> get_file demo_ext demo_redb e' demo_name [1] [2] [] = (d', Inr 1) \<and> writes_file [] [1] [2] [7] d'"
proof -
  obtain e where e: "eg_run demo_ext demo_redb demo_view {[7]} e" "eg_vault_key e = None"
    "put_ready demo_view demo_penv demo_name e" "target_free demo_redb demo_view demo_penv demo_name (eg_db e)"
    "name_resolves demo_view demo_name (eg_db e)" "w_segment_id (ss_writer (eg_segments e)) = 1"
    using demo_engine by blast
  obtain e' ps where p: "put_file_named demo_ext demo_redb demo_penv demo_name demo_source e = Some (e', Inr ps)"
    "w_segment_id (ss_writer (eg_segments e')) \<le> w_segment_id (ss_writer (eg_segments e)) + 1"
    using demo_put [OF e(1,2,4,5)] by blast
  with e(6) have "w_segment_id (ss_writer (eg_segments e')) < 2 ^ 64" by simp
  with engine_put_get [OF demo_ext_ok demo_fastcdc_ok demo_collision_free demo_redb_ok demo_redb_total e(1) demo_source_ok,
      of demo_penv demo_name e' ps "[1]" "[2]" "[]"] e(3,4) p(1)
  show ?thesis by (auto simp: demo_name_ok demo_source_def demo_stream total_len_def)
qed



text \<open>
  C11. Puts succeed: on an unencrypted store whose database does not fail, putting a file that exists and
  does not change while it is read, under a valid name, completes, and starts at most one segment file
  per chunk.
\<close>

theorem put_succeeds:
  assumes "ext_ok X" "fastcdc_ok X" "collision_free X U" "redb_ok R V" "redb_total R"
    and "eg_run X R V U e" "eg_vault_key e = None" "source_ok X U src" "src_exists src"
    and "stream_chunks X (at_blocks (src_attempt src 1)) = Some cs" "stable_attempt (src_attempt src 1) cs"
    and "validate_logical_name (trim name) = Inr ()" "length (trim name) < 2 ^ 16" "64 + 32 * length cs < 2 ^ 31"
    and "name_resolves V (trim name) (eg_db e)" "target_free R V P (trim name) (eg_db e)"
  shows "\<exists>e' ps. put_file_named X R P name src e = Some (e', Inr ps)
    \<and> w_segment_id (ss_writer (eg_segments e')) \<le> w_segment_id (ss_writer (eg_segments e)) + length cs"
  by (rule put_file_total [OF assms(4,5) eg_run_inv [OF assms(6,4,1,3,2)] assms(7,2,8-13,15,16,14)])

theorem put_succeeds_witness:
  "\<exists>e e' ps. put_file_named demo_ext demo_redb demo_penv demo_name demo_source e = Some (e', Inr ps)
     \<and> w_segment_id (ss_writer (eg_segments e')) \<le> 2"
proof -
  obtain e where e: "eg_run demo_ext demo_redb demo_view {[7]} e" "eg_vault_key e = None"
    "target_free demo_redb demo_view demo_penv demo_name (eg_db e)"
    "name_resolves demo_view demo_name (eg_db e)" "w_segment_id (ss_writer (eg_segments e)) = 1"
    using demo_engine by blast
  from put_succeeds [OF demo_ext_ok demo_fastcdc_ok demo_collision_free demo_redb_ok demo_redb_total e(1,2) demo_source_ok
      demo_source_reads(1), of "[[7]]" demo_name demo_penv] e(3,4) demo_source_reads(2,3) demo_stream demo_name_len
  obtain e' ps where "put_file_named demo_ext demo_redb demo_penv demo_name demo_source e = Some (e', Inr ps)"
    "w_segment_id (ss_writer (eg_segments e')) \<le> w_segment_id (ss_writer (eg_segments e)) + 1" by (auto simp: demo_name_ok)
  moreover from this(2) e(5) have "w_segment_id (ss_writer (eg_segments e')) \<le> 2" by simp
  ultimately show ?thesis by blast
qed



text \<open>
  C15. A gap: when a put has failed after its redo record was written and a collection runs before the
  next successful put, the collection removes the chunks of the record, and from then on the store does
  not open: replay reports a missing chunk.
\<close>

theorem failed_put_then_gc_blocks_open:
  assumes "ext_ok X" "fastcdc_ok X" "collision_free X U" "redb_ok R V" "eg_run X R V U e"
    and "wal_read_uncheckpointed_records X (eg_wal e) = Inr [\<lparr>wr_lsn = lsn, wr_payload = PutObject put\<rparr>]"
    and "c \<in> set (m_chunks (wp_manifest put))" "c \<notin> needs X V (eg_db e)"
    and "\<forall>c. env_ok (EC c)" "eg_gc X R E EC tmp e = (e', Inr st)" "w_segment_id (ss_writer (eg_segments e')) < 2 ^ 64"
  shows "open_internal X R E' EV \<lparr>sd_files = ss_files (eg_segments e'), sd_dirs = dirs\<rparr> (eg_db e') (wal_on_disk (eg_wal e')) (eg_vault_key e')
    = Inl missing_chunk"
  by (rule lost_put [OF assms(4) eg_run_inv [OF assms(5,4,1,3,2)] assms(6-8) _ assms(10,11)]) (simp add: assms(9))

theorem failed_put_then_gc_blocks_open_witness:
  "\<exists>e e1 e2 err st. put_file_named demo_ext full_redb demo_penv demo_name demo_source e = Some (e1, Inl err)
     \<and> eg_gc demo_ext full_redb demo_env (\<lambda>_. demo_env) [46] e1 = (e2, Inr st)
     \<and> open_internal demo_ext full_redb demo_env (\<lambda>_. demo_env) \<lparr>sd_files = ss_files (eg_segments e2), sd_dirs = []\<rparr> (eg_db e2)
          (wal_on_disk (eg_wal e2)) (eg_vault_key e2) = Inl missing_chunk"
proof -
  obtain e e1 lsn put err where e: "put_file_named demo_ext full_redb demo_penv demo_name demo_source e = Some (e1, Inl err)"
    "eg_run demo_ext full_redb demo_view {[7]} e1" "eg_db e1 = demo_empty"
    "wal_read_uncheckpointed_records demo_ext (eg_wal e1) = Inr [\<lparr>wr_lsn = lsn, wr_payload = PutObject put\<rparr>]"
    "m_chunks (wp_manifest put) = [cid_from_data demo_ext [7]]" "w_segment_id (ss_writer (eg_segments e1)) \<le> 2"
    using full_put by blast
  obtain e2 st where g: "eg_gc demo_ext full_redb demo_env (\<lambda>_. demo_env) [46] e1 = (e2, Inr st)" "w_segment_id (ss_writer (eg_segments e2)) < 2 ^ 64"
    using full_gc [OF e(6), of "\<lambda>_. demo_env" "[46]"] e(3) by (auto simp: eg_gc_def)
  have "cid_from_data demo_ext [7] \<notin> needs demo_ext demo_view (eg_db e1)"
    by (simp add: needs_def chunks_of_def live_manifests_def e(3) demo_view_def demo_empty_def)
  with failed_put_then_gc_blocks_open [OF demo_ext_ok demo_fastcdc_ok demo_collision_free full_redb_ok e(2,4) _ _ _ g,
      of "cid_from_data demo_ext [7]" demo_env "\<lambda>_. demo_env" "[]"] e(1,5) g(1)
  show ?thesis by auto
qed

end
